(* ===== verification/Prelude.thy ===== *)
theory Prelude
  imports Main "HOL-Library.Word" "HOL-Library.Sublist" "HOL-Library.While_Combinator"
begin

unbundle bit_operations_syntax

text \<open>
  Shared vocabulary of the development: the C integer types as machine words, the
  computations of the kernel (\<open>K\<close>), the lemma collections and the generic facts on
  lists and words that the component theories use.

  A kernel function runs on one hart on behalf of one process.  Its state is a record;
  it may return, it may \<open>panic\<close>, and at the points where the C code gives up the hart
  (\<open>sched\<close>) or spins on a lock that another hart holds it waits for the rest of the
  system.  What the rest of the system does at each such point is the \<^emph>\<open>interference
  list\<close>: one state transformer per waiting point, consumed from the front.  A function
  that waits when the list is empty is \<open>Stuck\<close>: it does not return.  Theorems quantify
  over the interference list, so they hold for every scheduling at those points.
\<close>

section \<open>C integer types\<close>

type_synonym uchar = "8 word"
type_synonym ushort = "16 word"
type_synonym uint = "32 word"
type_synonym uint64 = "64 word"

section \<open>Lemma collections\<close>

named_theorems k_run \<open>symbolic execution of kernel computations\<close>
named_theorems k_pres \<open>preservation of an invariant by kernel computations\<close>

section \<open>Kernel computations\<close>

datatype 'a outcome = Ret 'a | Panic string | Stuck

type_synonym ('a, 's) K = "'s \<Rightarrow> ('s \<Rightarrow> 's) list \<Rightarrow> 'a outcome \<times> 's \<times> ('s \<Rightarrow> 's) list"

definition kret :: "'a \<Rightarrow> ('a, 's) K" where
  "kret a s e = (Ret a, s, e)"

definition kpanic :: "string \<Rightarrow> ('a, 's) K" where
  "kpanic m s e = (Panic m, s, e)"

definition kstuck :: "('a, 's) K" where
  "kstuck s e = (Stuck, s, e)"

definition kget :: "('s \<Rightarrow> 'a) \<Rightarrow> ('a, 's) K" where
  "kget f s e = (Ret (f s), s, e)"

definition kmod :: "('s \<Rightarrow> 's) \<Rightarrow> (unit, 's) K" where
  "kmod f s e = (Ret (), f s, e)"

definition kbind :: "('a, 's) K \<Rightarrow> ('a \<Rightarrow> ('b, 's) K) \<Rightarrow> ('b, 's) K" where
  "kbind f g s e =
     (case f s e of
        (Ret a, s', e') \<Rightarrow> g a s' e'
      | (Panic m, s', e') \<Rightarrow> (Panic m, s', e')
      | (Stuck, s', e') \<Rightarrow> (Stuck, s', e'))"

text \<open>\<open>kwait\<close>-style primitive: let the rest of the system run until this hart continues.\<close>

definition kenv :: "(unit, 's) K" where
  "kenv s e = (case e of [] \<Rightarrow> (Stuck, s, []) | m # e' \<Rightarrow> (Ret (), m s, e'))"

definition kwhen :: "bool \<Rightarrow> (unit, 's) K \<Rightarrow> (unit, 's) K" where
  "kwhen b f = (if b then f else kret ())"

text \<open>Statement sequences, table scans, and table scans that stop at the first hit.\<close>

primrec kseq :: "(unit, 's) K list \<Rightarrow> (unit, 's) K" where
  "kseq [] = kret ()"
| "kseq (f # fs) = kbind f (\<lambda>_. kseq fs)"

primrec kfor :: "'a list \<Rightarrow> ('a \<Rightarrow> (unit, 's) K) \<Rightarrow> (unit, 's) K" where
  "kfor [] b = kret ()"
| "kfor (x # xs) b = kbind (b x) (\<lambda>_. kfor xs b)"

primrec kfind :: "'a list \<Rightarrow> ('a \<Rightarrow> ('b option, 's) K) \<Rightarrow> ('b option, 's) K" where
  "kfind [] b = kret None"
| "kfind (x # xs) b =
     kbind (b x) (\<lambda>r. case r of None \<Rightarrow> kfind xs b | Some v \<Rightarrow> kret (Some v))"

primrec kmany :: "nat \<Rightarrow> ('a, 's) K \<Rightarrow> ('a list, 's) K" where
  "kmany 0 f = kret []"
| "kmany (Suc n) f = kbind f (\<lambda>a. kbind (kmany n f) (\<lambda>as. kret (a # as)))"

text \<open>
  Loops whose number of rounds is not known in advance: the body either continues with new
  loop variables or leaves the loop with a result.  A loop that never ends is \<open>Stuck\<close>.
\<close>

fun kloop_on :: "('v + 'a) outcome \<times> 's \<times> ('s \<Rightarrow> 's) list \<Rightarrow> bool" where
  "kloop_on (Ret (Inl v), s, e) = True"
| "kloop_on _ = False"

fun kloop_step :: "('v \<Rightarrow> ('v + 'a, 's) K) \<Rightarrow>
    ('v + 'a) outcome \<times> 's \<times> ('s \<Rightarrow> 's) list \<Rightarrow> ('v + 'a) outcome \<times> 's \<times> ('s \<Rightarrow> 's) list" where
  "kloop_step b (Ret (Inl v), s, e) = b v s e"
| "kloop_step b r = r"

fun kloop_res :: "('v + 'a) outcome \<times> 's \<times> ('s \<Rightarrow> 's) list \<Rightarrow> 'a outcome \<times> 's \<times> ('s \<Rightarrow> 's) list" where
  "kloop_res (Ret (Inr a), s, e) = (Ret a, s, e)"
| "kloop_res (Ret (Inl v), s, e) = (Stuck, s, e)"
| "kloop_res (Panic m, s, e) = (Panic m, s, e)"
| "kloop_res (Stuck, s, e) = (Stuck, s, e)"

definition kloop :: "('v \<Rightarrow> ('v + 'a, 's) K) \<Rightarrow> 'v \<Rightarrow> ('a, 's) K" where
  "kloop b v s e =
     (case while_option kloop_on (kloop_step b) (Ret (Inl v), s, e) of
        None \<Rightarrow> (Stuck, s, e) | Some r \<Rightarrow> kloop_res r)"

subsection \<open>Symbolic execution\<close>

lemma kret_run [k_run]: "kret a s e = (Ret a, s, e)"
  by (simp add: kret_def)

lemma kpanic_run [k_run]: "kpanic m s e = (Panic m, s, e)"
  by (simp add: kpanic_def)

lemma kget_run [k_run]: "kget f s e = (Ret (f s), s, e)"
  by (simp add: kget_def)

lemma kmod_run [k_run]: "kmod f s e = (Ret (), f s, e)"
  by (simp add: kmod_def)

lemma kbind_Ret [k_run]: "f s e = (Ret a, s', e') \<Longrightarrow> kbind f g s e = g a s' e'"
  by (simp add: kbind_def)

lemma kbind_Panic [k_run]: "f s e = (Panic m, s', e') \<Longrightarrow> kbind f g s e = (Panic m, s', e')"
  by (simp add: kbind_def)

lemma kbind_Stuck [k_run]: "f s e = (Stuck, s', e') \<Longrightarrow> kbind f g s e = (Stuck, s', e')"
  by (simp add: kbind_def)

lemma kbind_kret [simp]: "kbind (kret a) g = g a"
  by (rule ext)+ (simp add: kbind_def kret_def)

lemma kbind_kpanic [simp]: "kbind (kpanic m) g = kpanic m"
  by (rule ext)+ (simp add: kbind_def kpanic_def)

lemma kbind_kret_unit: "kbind f (\<lambda>_. kret ()) = f" "kbind f kret = f"
  by (rule ext, rule ext, simp add: kbind_def kret_def split: prod.split outcome.split)+

lemma kbind_kget [simp]: "kbind (kget f) g s e = g (f s) s e"
  by (simp add: kbind_def kget_def)

lemma kbind_kmod [simp]: "kbind (kmod f) g s e = g () (f s) e"
  by (simp add: kbind_def kmod_def)

lemma kbind_assoc: "kbind (kbind f g) h = kbind f (\<lambda>a. kbind (g a) h)"
  by (rule ext)+ (simp add: kbind_def split: prod.split outcome.split)

lemma kbind_RetE:
  assumes "kbind f g s e = (Ret b, s', e')"
  obtains a s1 e1 where "f s e = (Ret a, s1, e1)" "g a s1 e1 = (Ret b, s', e')"
  using assms by (auto simp: kbind_def split: prod.splits outcome.splits)

lemma kenv_Nil [simp, k_run]: "kenv s [] = (Stuck, s, [])"
  by (simp add: kenv_def)

lemma kenv_Cons [simp, k_run]: "kenv s (m # e) = (Ret (), m s, e)"
  by (simp add: kenv_def)

lemma kwhen_simps [simp, k_run]: "kwhen True f = f" "kwhen False f = kret ()"
  by (simp_all add: kwhen_def)

lemma kfor_append: "kfor (xs @ ys) b = kbind (kfor xs b) (\<lambda>_. kfor ys b)"
  by (induction xs) (simp_all add: kbind_assoc)

lemma while_kloop_off: "\<not> kloop_on r \<Longrightarrow> while_option kloop_on (kloop_step b) r = Some r"
  by (subst while_option_unfold) simp

lemma kloop_rec:
  "kloop b v s e =
     (case b v s e of
        (Ret (Inl v'), s', e') \<Rightarrow>
          (case while_option kloop_on (kloop_step b) (Ret (Inl v'), s', e') of
             None \<Rightarrow> (Stuck, s, e) | Some r \<Rightarrow> kloop_res r)
      | r \<Rightarrow> kloop_res r)"
  unfolding kloop_def
  by (subst while_option_unfold)
    (simp add: while_kloop_off split: prod.split outcome.split sum.split)

text \<open>Whatever a loop that leaves does, it does round by round.\<close>

lemma kloop_step_Inl:
  "b v s e = (Ret (Inl v'), s', e') \<Longrightarrow> kloop b v' s' e' = (Ret a, t, f) \<Longrightarrow>
   kloop b v s e = (Ret a, t, f)"
  by (auto simp: kloop_rec [of b v] kloop_def [of b v'] split: option.splits)

lemma kloop_same_Inl: "b v s e = (Ret (Inl v'), s, e) \<Longrightarrow> kloop b v s e = kloop b v' s e"
  by (simp add: kloop_rec [of b v] kloop_def [of b v'])

lemma kloop_step_Inr: "b v s e = (Ret (Inr a), s', e') \<Longrightarrow> kloop b v s e = (Ret a, s', e')"
  by (simp add: kloop_rec)

lemma kloop_step_Panic: "b v s e = (Panic m, s', e') \<Longrightarrow> kloop b v s e = (Panic m, s', e')"
  by (simp add: kloop_rec)

lemma kloop_Inl_Panic:
  "b v s e = (Ret (Inl v'), s', e') \<Longrightarrow> kloop b v' s' e' = (Panic m, t, f) \<Longrightarrow>
   kloop b v s e = (Panic m, t, f)"
  by (auto simp: kloop_rec [of b v] kloop_def [of b v'] split: option.splits)

lemma kloop_Ret_rule:
  assumes run: "kloop b v s e = (Ret a, s', e')" and init: "P v s e"
    and step: "\<And>v s e v' t f. P v s e \<Longrightarrow> b v s e = (Ret (Inl v'), t, f) \<Longrightarrow> P v' t f"
    and exit: "\<And>v s e a t f. P v s e \<Longrightarrow> b v s e = (Ret (Inr a), t, f) \<Longrightarrow> Q a t f"
  shows "Q a s' e'"
proof -
  let ?R = "\<lambda>(r, t, f). (\<forall>v. r = Ret (Inl v) \<longrightarrow> P v t f) \<and> (\<forall>a. r = Ret (Inr a) \<longrightarrow> Q a t f)"
  from run obtain r where w: "while_option kloop_on (kloop_step b) (Ret (Inl v), s, e) = Some r"
    and r: "kloop_res r = (Ret a, s', e')"
    by (auto simp: kloop_def split: option.splits)
  have "?R r"
  proof (rule while_option_rule [where P = ?R, OF _ w])
    show "?R (Ret (Inl v), s, e)" using init by simp
    fix x assume R: "?R x" and on: "kloop_on x"
    obtain w t f where x: "x = (Ret (Inl w), t, f)" using on by (cases x rule: kloop_on.cases) auto
    show "?R (kloop_step b x)"
      using R step [of w t f] exit [of w t f] by (auto simp: x split: prod.split)
  qed
  then show ?thesis using r by (cases r rule: kloop_res.cases) auto
qed

subsection \<open>Invariants\<close>

text \<open>
  \<open>kpres I f\<close>: a run of \<open>f\<close> that starts in \<open>I\<close> and returns ends in \<open>I\<close>, provided the
  interference keeps \<open>I\<close> (the rely condition).  The rules are collected in
  \<open>k_pres\<close>, so that the preservation lemma of a composed operation follows the
  structure of its definition.
\<close>

definition env_keeps :: "('s \<Rightarrow> bool) \<Rightarrow> ('s \<Rightarrow> 's) list \<Rightarrow> bool" where
  "env_keeps I e \<longleftrightarrow> list_all (\<lambda>m. \<forall>t. I t \<longrightarrow> I (m t)) e"

definition kpres :: "('s \<Rightarrow> bool) \<Rightarrow> ('a, 's) K \<Rightarrow> bool" where
  "kpres I f \<longleftrightarrow>
     (\<forall>s e a s' e'. I s \<longrightarrow> env_keeps I e \<longrightarrow> f s e = (Ret a, s', e') \<longrightarrow> I s' \<and> env_keeps I e')"

lemma kpresI:
  "(\<And>s e a s' e'. I s \<Longrightarrow> env_keeps I e \<Longrightarrow> f s e = (Ret a, s', e') \<Longrightarrow> I s' \<and> env_keeps I e')
   \<Longrightarrow> kpres I f"
  unfolding kpres_def by blast

lemma kpresD:
  "kpres I f \<Longrightarrow> I s \<Longrightarrow> env_keeps I e \<Longrightarrow> f s e = (Ret a, s', e') \<Longrightarrow> I s' \<and> env_keeps I e'"
  unfolding kpres_def by blast

lemma env_keeps_simps [simp]:
  "env_keeps I []"
  "env_keeps I (m # e) \<longleftrightarrow> (\<forall>t. I t \<longrightarrow> I (m t)) \<and> env_keeps I e"
  by (auto simp: env_keeps_def)

lemma kpres_kret [k_pres]: "kpres I (kret a)"
  by (auto simp: kpres_def kret_def)

lemma kpres_kpanic [k_pres]: "kpres I (kpanic m)"
  by (auto simp: kpres_def kpanic_def)

lemma kpres_kstuck [k_pres]: "kpres I kstuck"
  by (auto simp: kpres_def kstuck_def)

lemma kpres_kget [k_pres]: "kpres I (kget f)"
  by (auto simp: kpres_def kget_def)

lemma kpres_kmod [k_pres]: "(\<And>s. I s \<Longrightarrow> I (f s)) \<Longrightarrow> kpres I (kmod f)"
  by (auto simp: kpres_def kmod_def)

lemma kpres_kenv [k_pres]: "kpres I kenv"
  by (auto simp: kpres_def kenv_def split: list.splits)

lemma kpres_kbind [k_pres]:
  assumes "kpres I f" and "\<And>a. kpres I (g a)"
  shows "kpres I (kbind f g)"
proof (rule kpresI)
  fix s e b s' e'
  assume I: "I s" "env_keeps I e" and "kbind f g s e = (Ret b, s', e')"
  then obtain a s1 e1 where f: "f s e = (Ret a, s1, e1)" and g: "g a s1 e1 = (Ret b, s', e')"
    by (auto elim: kbind_RetE)
  from kpresD [OF assms(1) I f] have "I s1" "env_keeps I e1" by auto
  from kpresD [OF assms(2) this g] show "I s' \<and> env_keeps I e'" .
qed

lemma kpres_kwhen [k_pres]: "(b \<Longrightarrow> kpres I f) \<Longrightarrow> kpres I (kwhen b f)"
  by (auto simp: kwhen_def kpres_kret)

lemma kpres_if [k_pres]:
  "(b \<Longrightarrow> kpres I f) \<Longrightarrow> (\<not> b \<Longrightarrow> kpres I g) \<Longrightarrow> kpres I (if b then f else g)"
  by simp

lemma kpres_case_option [k_pres]:
  "(r = None \<Longrightarrow> kpres I f) \<Longrightarrow> (\<And>v. r = Some v \<Longrightarrow> kpres I (g v)) \<Longrightarrow>
   kpres I (case r of None \<Rightarrow> f | Some v \<Rightarrow> g v)"
  by (cases r) auto

lemma kpres_case_prod [k_pres]:
  "(\<And>a b. p = (a, b) \<Longrightarrow> kpres I (f a b)) \<Longrightarrow> kpres I (case p of (a, b) \<Rightarrow> f a b)"
  by (cases p) auto

lemma kpres_kseq [k_pres]: "(\<And>f. f \<in> set fs \<Longrightarrow> kpres I f) \<Longrightarrow> kpres I (kseq fs)"
  by (induction fs) (auto intro: kpres_kret kpres_kbind)

lemma kpres_kfor [k_pres]: "(\<And>x. x \<in> set xs \<Longrightarrow> kpres I (b x)) \<Longrightarrow> kpres I (kfor xs b)"
  by (induction xs) (auto intro: kpres_kret kpres_kbind)

lemma kpres_kfind [k_pres]: "(\<And>x. x \<in> set xs \<Longrightarrow> kpres I (b x)) \<Longrightarrow> kpres I (kfind xs b)"
  by (induction xs) (auto intro!: kpres_kret kpres_kbind kpres_case_option)

lemma kpres_kloop [k_pres]: "(\<And>v. kpres I (b v)) \<Longrightarrow> kpres I (kloop b v)"
proof (rule kpresI)
  fix s e a s' e'
  assume b: "\<And>v. kpres I (b v)" and I: "I s" "env_keeps I e" and run: "kloop b v s e = (Ret a, s', e')"
  show "I s' \<and> env_keeps I e'"
    by (rule kloop_Ret_rule [where P = "\<lambda>_ s e. I s \<and> env_keeps I e" and Q = "\<lambda>_ s e. I s \<and> env_keeps I e", OF run])
      (use I in simp, (blast dest: kpresD [OF b])+)
qed

lemma kpres_case_sum [k_pres]:
  "(\<And>v. r = Inl v \<Longrightarrow> kpres I (f v)) \<Longrightarrow> (\<And>v. r = Inr v \<Longrightarrow> kpres I (g v)) \<Longrightarrow>
   kpres I (case r of Inl v \<Rightarrow> f v | Inr v \<Rightarrow> g v)"
  by (cases r) auto

subsection \<open>Table scans as pure searches\<close>

lemma kfind_none:
  "(\<And>x. x \<in> set xs \<Longrightarrow> b x s e = (Ret None, s, e)) \<Longrightarrow> kfind xs b s e = (Ret None, s, e)"
  by (induction xs) (auto simp: kbind_Ret kret_def)

lemma kfind_split:
  assumes "\<And>x. x \<in> set xs \<Longrightarrow> b x s e = (Ret None, s, e)"
    and "b y s e = (Ret (Some v), s', e')"
  shows "kfind (xs @ y # ys) b s e = (Ret (Some v), s', e')"
  using assms by (induction xs) (auto simp: kbind_Ret kret_def)

section \<open>Lists\<close>

lemma first_index_split:
  fixes n :: nat
  assumes "\<exists>i<n. P i"
  obtains i where "i < n" "P i" "\<forall>j<i. \<not> P j"
proof -
  let ?i = "LEAST i. P i"
  from assms obtain k where k: "k < n" "P k" by auto
  have "P ?i" using k(2) by (rule LeastI)
  moreover have "?i \<le> k" using k(2) by (rule Least_le)
  moreover have "\<forall>j<?i. \<not> P j" using not_less_Least by blast
  ultimately show thesis using k(1) by (meson le_less_trans that)
qed

lemma upt_split_at: "i < n \<Longrightarrow> [0..<n] = [0..<i] @ i # [Suc i..<n]"
  using upt_add_eq_append [of 0 i "n - i"] by (simp add: upt_conv_Cons)

lemma map_upt_append: "n \<le> k \<Longrightarrow> map f [0..<n] @ map (\<lambda>i. f (n + i)) [0..<k - n] = map f [0..<k]"
  by (intro nth_equalityI) (auto simp: nth_append)

section \<open>Words\<close>

lemma unat64_less: "unat (a :: uint64) < 2 ^ 64"
  using unsigned_less [of a] by simp

lemma unat32_less: "unat (a :: uint) < 2 ^ 32"
  using unsigned_less [of a] by simp

lemma unat_of_nat_less: "n < 2 ^ LENGTH('a) \<Longrightarrow> unat (of_nat n :: 'a::len word) = n"
  by (simp add: unat_of_nat take_bit_nat_eq_self)

lemma unat_ucast_32_64 [simp]: "unat (ucast (n :: uint) :: uint64) = unat n"
  using unat32_less [of n] by (simp add: unsigned_ucast_eq take_bit_nat_eq_self)

lemma unat_max64 [simp]: "unat (- 1 :: uint64) = 18446744073709551615"
  by (simp add: unsigned_minus_1_eq_mask mask_eq_exp_minus_1)

end
