(* ===== verification/Machine.thy ===== *)
theory Machine
  imports Prelude
begin

unbundle bit_operations_syntax

text \<open>
  The machine the kernel runs on: the constants of \<open>kernel/param.h\<close>,
  \<open>kernel/memlayout.h\<close> and the Sv39 part of \<open>kernel/riscv.h\<close>, physical memory as a
  function from addresses to bytes with little-endian 64-bit accesses, the
  supervisor status register of each hart, and the page arithmetic macros with the
  facts the memory components share.
\<close>

section \<open>Configuration constants\<close>

abbreviation (input) NPROC :: nat where "NPROC \<equiv> 64"
abbreviation (input) NCPU :: nat where "NCPU \<equiv> 8"
abbreviation (input) NOFILE :: nat where "NOFILE \<equiv> 16"
abbreviation (input) NFILE :: nat where "NFILE \<equiv> 100"
abbreviation (input) NINODE :: nat where "NINODE \<equiv> 50"
abbreviation (input) NDEV :: nat where "NDEV \<equiv> 10"
abbreviation (input) ROOTDEV :: uint where "ROOTDEV \<equiv> 1"
abbreviation (input) MAXARG :: nat where "MAXARG \<equiv> 32"
abbreviation (input) MAXOPBLOCKS :: nat where "MAXOPBLOCKS \<equiv> 10"
abbreviation (input) LOGBLOCKS :: nat where "LOGBLOCKS \<equiv> 30"
abbreviation (input) NBUF :: nat where "NBUF \<equiv> 30"
abbreviation (input) FSSIZE :: nat where "FSSIZE \<equiv> 2000"
abbreviation (input) MAXPATH :: nat where "MAXPATH \<equiv> 128"
abbreviation (input) USERSTACK :: uint64 where "USERSTACK \<equiv> 1"

abbreviation (input) PGSIZE :: uint64 where "PGSIZE \<equiv> 4096"
abbreviation (input) KERNBASE :: uint64 where "KERNBASE \<equiv> 0x80000000"
abbreviation (input) PHYSTOP :: uint64 where "PHYSTOP \<equiv> 0x88000000"
abbreviation (input) UART0 :: uint64 where "UART0 \<equiv> 0x10000000"
abbreviation (input) VIRTIO0 :: uint64 where "VIRTIO0 \<equiv> 0x10001000"
abbreviation (input) PLIC :: uint64 where "PLIC \<equiv> 0x0c000000"
abbreviation (input) MAXVA :: uint64 where "MAXVA \<equiv> 0x4000000000"
abbreviation (input) TRAMPOLINE :: uint64 where "TRAMPOLINE \<equiv> 0x3ffffff000"
abbreviation (input) TRAPFRAME :: uint64 where "TRAPFRAME \<equiv> 0x3fffffe000"

lemma maxva_bits: "MAXVA = push_bit (9 + 9 + 9 + 12 - 1) 1"
  by simp

lemma layout_consts:
  "TRAMPOLINE = MAXVA - PGSIZE" "TRAPFRAME = TRAMPOLINE - PGSIZE"
  "PHYSTOP = KERNBASE + 128 * 1024 * 1024"
  by simp_all

definition KSTACK :: "nat \<Rightarrow> uint64" where
  "KSTACK p = TRAMPOLINE - (of_nat p + 1) * 2 * PGSIZE"

section \<open>Page arithmetic\<close>

definition PGROUNDUP :: "uint64 \<Rightarrow> uint64" where
  "PGROUNDUP sz = (sz + PGSIZE - 1) AND NOT (PGSIZE - 1)"

definition PGROUNDDOWN :: "uint64 \<Rightarrow> uint64" where
  "PGROUNDDOWN a = a AND NOT (PGSIZE - 1)"

abbreviation (input) PTE_V :: uint64 where "PTE_V \<equiv> 1"
abbreviation (input) PTE_R :: uint64 where "PTE_R \<equiv> 2"
abbreviation (input) PTE_W :: uint64 where "PTE_W \<equiv> 4"
abbreviation (input) PTE_X :: uint64 where "PTE_X \<equiv> 8"
abbreviation (input) PTE_U :: uint64 where "PTE_U \<equiv> 16"

definition PA2PTE :: "uint64 \<Rightarrow> uint64" where
  "PA2PTE pa = push_bit 10 (drop_bit 12 pa)"

definition PTE2PA :: "uint64 \<Rightarrow> uint64" where
  "PTE2PA pte = push_bit 12 (drop_bit 10 pte)"

definition PTE_FLAGS :: "uint64 \<Rightarrow> uint64" where
  "PTE_FLAGS pte = pte AND 0x3FF"

definition PXSHIFT :: "nat \<Rightarrow> nat" where
  "PXSHIFT level = 12 + 9 * level"

definition PX :: "nat \<Rightarrow> uint64 \<Rightarrow> uint64" where
  "PX level va = drop_bit (PXSHIFT level) va AND 0x1FF"

definition MAKE_SATP :: "uint64 \<Rightarrow> uint64" where
  "MAKE_SATP pagetable = push_bit 60 8 OR drop_bit 12 pagetable"

text \<open>Page aligned: the low twelve bits are zero.\<close>

definition pg_aligned :: "uint64 \<Rightarrow> bool" where
  "pg_aligned a \<longleftrightarrow> a mod PGSIZE = 0"

lemma mask12: "(4095 :: uint64) = mask 12"
  by (simp add: mask_eq_exp_minus_1)

lemma mod4096: "(a :: uint64) mod 4096 = take_bit 12 a"
  by (simp add: take_bit_eq_mod)

lemma pg_aligned_bits: "pg_aligned a \<longleftrightarrow> (\<forall>n<12. \<not> bit a n)"
  unfolding pg_aligned_def mod4096
  by (auto simp: bit_eq_iff bit_take_bit_iff)

lemma pg_aligned_and: "pg_aligned a \<longleftrightarrow> a AND 4095 = 0"
  unfolding pg_aligned_def mod4096 mask12 by (simp add: take_bit_eq_mask)

lemma not4095_bit: "bit (NOT (4095 :: uint64)) n \<longleftrightarrow> 12 \<le> n \<and> n < 64"
  unfolding mask12 by (auto simp: bit_not_iff bit_mask_iff)

lemma PGROUNDDOWN_bit: "bit (PGROUNDDOWN a) n \<longleftrightarrow> bit a n \<and> 12 \<le> n"
  using not4095_bit [of n] bit_imp_le_length [of a n]
  by (auto simp: PGROUNDDOWN_def bit_and_iff)

lemma PGROUNDDOWN_aligned [simp]: "pg_aligned (PGROUNDDOWN a)"
  by (auto simp: pg_aligned_bits PGROUNDDOWN_bit)

lemma PGROUNDUP_alt: "PGROUNDUP sz = PGROUNDDOWN (sz + 4095)"
  unfolding PGROUNDUP_def PGROUNDDOWN_def by (simp add: add.commute)

lemma PGROUNDUP_aligned [simp]: "pg_aligned (PGROUNDUP a)"
  by (simp add: PGROUNDUP_alt)

lemma PGROUNDDOWN_mod: "PGROUNDDOWN a = a - a mod PGSIZE"
proof -
  have "PGROUNDDOWN a + take_bit 12 a = PGROUNDDOWN a OR take_bit 12 a"
    by (rule disjunctive_add) (auto simp: PGROUNDDOWN_bit bit_take_bit_iff)
  also have "\<dots> = a"
    by (rule bit_eqI) (auto simp: PGROUNDDOWN_bit bit_take_bit_iff bit_or_iff)
  finally show ?thesis by (simp add: mod4096 eq_diff_eq)
qed

lemma unat_PGROUNDDOWN: "unat (PGROUNDDOWN a) = unat a - unat a mod 4096"
proof -
  have "unat (a mod PGSIZE) = unat a mod 4096" by (simp add: unat_mod)
  moreover from this have "a mod PGSIZE \<le> a" by (simp add: word_le_nat_alt)
  ultimately show ?thesis by (simp add: PGROUNDDOWN_mod unat_sub)
qed

lemma PGROUNDDOWN_le: "PGROUNDDOWN a \<le> a"
  by (simp add: word_le_nat_alt unat_PGROUNDDOWN)

lemma PGROUNDDOWN_id: "pg_aligned a \<Longrightarrow> PGROUNDDOWN a = a"
  by (simp add: PGROUNDDOWN_mod pg_aligned_def)

text \<open>Short of wrap-around, \<open>PGROUNDUP\<close> is the least multiple of the page size above.\<close>

lemma unat_PGROUNDUP:
  assumes "unat sz + 4095 < 2 ^ 64"
  shows "unat (PGROUNDUP sz) = (unat sz + 4095) div 4096 * 4096"
proof -
  have "unat (sz + 4095) = unat sz + 4095"
    using assms by (simp add: unat_word_ariths)
  then show ?thesis
    by (simp only: PGROUNDUP_alt unat_PGROUNDDOWN minus_mod_eq_div_mult)
qed

lemma PGROUNDDOWN_eq_iff:
  assumes "pg_aligned p"
  shows "PGROUNDDOWN x = p \<longleftrightarrow> unat (x - p) < 4096"
proof
  assume "PGROUNDDOWN x = p"
  then have "x - p = x mod PGSIZE" by (auto simp: PGROUNDDOWN_mod)
  then show "unat (x - p) < 4096" by (simp add: unat_mod)
next
  assume less: "unat (x - p) < 4096"
  define d where "d = x - p"
  have x: "x = p + d" by (simp add: d_def)
  have d: "take_bit 12 d = d"
    using less by (simp add: d_def [symmetric] mod4096 [symmetric] word_unat_eq_iff unat_mod)
  have "p + d = p OR d"
  proof (rule disjunctive_add)
    fix n show "\<not> bit p n \<or> \<not> bit d n"
      using assms d bit_take_bit_iff [of 12 d n] by (auto simp: pg_aligned_bits)
  qed
  moreover have "PGROUNDDOWN (p OR d) = p"
  proof (rule bit_eqI)
    fix n show "bit (PGROUNDDOWN (p OR d)) n = bit p n"
      using assms d bit_take_bit_iff [of 12 d n]
      by (cases "n < 12") (auto simp: pg_aligned_bits PGROUNDDOWN_bit bit_or_iff)
  qed
  ultimately show "PGROUNDDOWN x = p" by (simp add: x)
qed

lemma dvd_word_ariths:
  fixes a b :: uint64
  assumes "k dvd uint a" "k dvd uint b" "k dvd 2 ^ 64"
  shows "k dvd uint (a + b)" "k dvd uint (a - b)"
  using assms by (simp_all add: uint_word_ariths dvd_mod)

lemma pg_aligned_uint: "pg_aligned a \<longleftrightarrow> 4096 dvd uint a"
  by (simp add: pg_aligned_def word_uint_eq_iff uint_mod dvd_eq_mod_eq_0)

lemma pg_aligned_add: "pg_aligned a \<Longrightarrow> pg_aligned b \<Longrightarrow> pg_aligned (a + b)"
  by (simp add: pg_aligned_uint dvd_word_ariths)

lemma pg_aligned_diff: "pg_aligned a \<Longrightarrow> pg_aligned b \<Longrightarrow> pg_aligned (a - b)"
  by (simp add: pg_aligned_uint dvd_word_ariths)

lemma pg_aligned_consts [simp]:
  "pg_aligned 0" "pg_aligned PGSIZE" "pg_aligned TRAMPOLINE" "pg_aligned TRAPFRAME"
  "pg_aligned PHYSTOP" "pg_aligned KERNBASE"
  by (simp_all add: pg_aligned_def)

lemma pg_aligned_unat: "pg_aligned a \<longleftrightarrow> 4096 dvd unat a"
  by (simp add: pg_aligned_def word_unat_eq_iff unat_mod dvd_eq_mod_eq_0)

subsection \<open>Page-table entries\<close>

text \<open>Packing a physical page and flags into an entry loses neither.\<close>

lemma flags_bits: "(flags :: uint64) < 1024 \<Longrightarrow> bit flags n \<Longrightarrow> n < 10"
proof -
  assume "flags < 1024" and b: "bit flags n"
  then have "take_bit 10 flags = flags"
    by (simp add: take_bit_eq_mod word_unat_eq_iff unat_mod word_less_nat_alt)
  with b show "n < 10" by (metis bit_take_bit_iff)
qed

lemma PTE2PA_PA2PTE:
  assumes "pg_aligned pa" and "flags < 1024"
  shows "PTE2PA (PA2PTE pa OR flags) = pa"
proof (rule bit_word_eqI)
  fix n assume n: "n < LENGTH(64)"
  show "bit (PTE2PA (PA2PTE pa OR flags)) n = bit pa n"
  proof (cases "n < 12")
    case True
    with assms(1) show ?thesis
      unfolding PTE2PA_def bit_push_bit_iff by (simp add: pg_aligned_bits)
  next
    case False
    then have "n - 12 + 10 = n - 2" and "12 + (n - 2 - 10) = n" by auto
    with False n flags_bits [OF assms(2), of "n - 2"] show ?thesis
      unfolding PTE2PA_def PA2PTE_def bit_push_bit_iff bit_drop_bit_eq bit_or_iff
      by (auto simp: bit_push_bit_iff bit_or_iff bit_drop_bit_eq add.commute)
  qed
qed

lemma PTE_FLAGS_PA2PTE:
  assumes "flags < 1024"
  shows "PTE_FLAGS (PA2PTE pa OR flags) = flags"
proof (rule bit_eqI)
  fix n :: nat
  have m: "(0x3FF :: uint64) = mask 10" by (simp add: mask_eq_exp_minus_1)
  show "bit (PTE_FLAGS (PA2PTE pa OR flags)) n = bit flags n"
    using flags_bits [OF assms, of n]
    by (auto simp: PTE_FLAGS_def m PA2PTE_def bit_push_bit_iff bit_and_iff bit_or_iff bit_mask_iff)
qed

section \<open>Physical memory\<close>

type_synonym memory = "uint64 \<Rightarrow> uchar"

definition load64 :: "memory \<Rightarrow> uint64 \<Rightarrow> uint64" where
  "load64 m a = foldr (\<lambda>i w. w OR push_bit (8 * i) (ucast (m (a + of_nat i)))) [0..<8] 0"

definition store64 :: "memory \<Rightarrow> uint64 \<Rightarrow> uint64 \<Rightarrow> memory" where
  "store64 m a v =
     (\<lambda>x. if unat (x - a) < 8 then ucast (drop_bit (8 * unat (x - a)) v) else m x)"

lemma bit_foldr_or:
  "bit (foldr (\<lambda>i w. w OR f i) is (0 :: uint64)) n \<longleftrightarrow> (\<exists>i\<in>set is. bit (f i) n)"
  by (induction "is") (auto simp: bit_or_iff)

lemma bit_load64:
  "bit (load64 m a) n \<longleftrightarrow> n < 64 \<and> bit (m (a + of_nat (n div 8))) (n mod 8)"
proof -
  have "bit (push_bit (8 * i) (ucast (m (a + of_nat i)) :: uint64)) n \<longleftrightarrow>
        n < 64 \<and> i = n div 8 \<and> bit (m (a + of_nat i)) (n mod 8)" for i
  proof -
    have "bit (m (a + of_nat i)) (n - 8 * i) \<Longrightarrow> n - 8 * i < 8"
      using bit_imp_le_length [of "m (a + of_nat i)" "n - 8 * i"] by simp
    moreover have "8 * i \<le> n \<Longrightarrow> n - 8 * i < 8 \<longleftrightarrow> i = n div 8" by auto
    moreover have "n - 8 * (n div 8) = n mod 8" by (simp add: minus_mult_div_eq_mod)
    ultimately show ?thesis
      by (auto simp: bit_push_bit_iff bit_ucast_iff)
  qed
  then show ?thesis
    unfolding load64_def bit_foldr_or by auto
qed

lemma load64_cong: "(\<And>i. i < 8 \<Longrightarrow> m (a + of_nat i) = m' (a + of_nat i)) \<Longrightarrow> load64 m a = load64 m' a"
  by (rule bit_eqI) (auto simp: bit_load64)

lemma load64_store64_same [simp]: "load64 (store64 m a v) a = v"
proof (rule bit_word_eqI)
  fix n assume n: "n < LENGTH(64)"
  then have d: "n div 8 < 8" and u: "unat (of_nat (n div 8) :: uint64) = n div 8"
    by (auto intro: unat_of_nat_less)
  have "8 * (n div 8) + n mod 8 = n" by simp
  moreover have "n mod 8 < LENGTH(8)" by simp
  ultimately show "bit (load64 (store64 m a v) a) n = bit v n"
    using n d u unfolding bit_load64 store64_def
    by (auto simp only: u add_diff_cancel_left' if_True bit_ucast_iff bit_drop_bit_eq comp_def)
qed

text \<open>Two different 8-aligned slots do not overlap.\<close>

definition al8 :: "uint64 \<Rightarrow> bool" where
  "al8 a \<longleftrightarrow> a mod 8 = 0"

lemma al8_far:
  assumes "al8 a" "al8 b" "a \<noteq> b" "i < 8"
  shows "\<not> unat (b + of_nat i - a) < 8"
proof
  assume less: "unat (b + of_nat i - a) < 8"
  define d where "d = b - a"
  have "8 dvd uint d"
    using assms(1,2) unfolding d_def al8_def
    by (intro dvd_word_ariths) (simp_all add: word_uint_eq_iff uint_mod dvd_eq_mod_eq_0)
  then have nd: "unat d mod 8 = 0"
    by (metis dvd_eq_mod_eq_0 int_dvd_int_iff of_nat_numeral uint_nat)
  have "d \<noteq> 0" using assms(3) by (simp add: d_def)
  have e: "b + of_nat i - a = d + of_nat i" by (simp add: d_def)
  have ui: "unat (of_nat i :: uint64) = i" using assms(4) by (simp add: unat_of_nat_less)
  have ub: "unat d < 2 ^ 64" by (rule unat64_less)
  have "unat d + i < 2 ^ 64" using nd ub assms(4) by simp presburger
  then have "unat (d + of_nat i) = unat d + i" using ui by (simp add: unat_word_ariths)
  with less e have "unat d < 8" by simp
  with nd have "unat d = 0" by simp
  with \<open>d \<noteq> 0\<close> show False by (simp add: unat_eq_0)
qed

lemma load64_store64_other [simp]:
  "al8 a \<Longrightarrow> al8 b \<Longrightarrow> a \<noteq> b \<Longrightarrow> load64 (store64 m a v) b = load64 m b"
  by (rule load64_cong) (simp add: store64_def al8_far)

section \<open>Harts\<close>

text \<open>The callee-saved registers that \<open>swtch\<close> saves (\<open>struct context\<close>).\<close>

record swtch_context =
  ctx_ra :: uint64
  ctx_sp :: uint64
  ctx_s0 :: uint64
  ctx_s1 :: uint64
  ctx_s2 :: uint64
  ctx_s3 :: uint64
  ctx_s4 :: uint64
  ctx_s5 :: uint64
  ctx_s6 :: uint64
  ctx_s7 :: uint64
  ctx_s8 :: uint64
  ctx_s9 :: uint64
  ctx_s10 :: uint64
  ctx_s11 :: uint64

text \<open>
  \<open>tp\<close> is the hart on which the modelled function runs; \<open>sstatus\<close> is the supervisor
  status register of every hart.
\<close>

record machine =
  mem :: memory
  tp :: nat
  sstatus :: "nat \<Rightarrow> uint64"

abbreviation (input) SSTATUS_SPP :: uint64 where "SSTATUS_SPP \<equiv> 0x100"
abbreviation (input) SSTATUS_SPIE :: uint64 where "SSTATUS_SPIE \<equiv> 0x20"
abbreviation (input) SSTATUS_SIE :: uint64 where "SSTATUS_SIE \<equiv> 2"

definition r_sstatus :: "(uint64, 'a machine_scheme) K" where
  "r_sstatus = kget (\<lambda>s. sstatus s (tp s))"

definition w_sstatus :: "uint64 \<Rightarrow> (unit, 'a machine_scheme) K" where
  "w_sstatus x = kmod (\<lambda>s. s\<lparr>sstatus := (sstatus s)(tp s := x)\<rparr>)"

definition s_sstatus :: "uint64 \<Rightarrow> (unit, 'a machine_scheme) K" where
  "s_sstatus x = kmod (\<lambda>s. s\<lparr>sstatus := (sstatus s)(tp s := sstatus s (tp s) OR x)\<rparr>)"

definition c_sstatus :: "uint64 \<Rightarrow> (unit, 'a machine_scheme) K" where
  "c_sstatus x = kmod (\<lambda>s. s\<lparr>sstatus := (sstatus s)(tp s := sstatus s (tp s) AND NOT x)\<rparr>)"

definition rc_sstatus :: "uint64 \<Rightarrow> (uint64, 'a machine_scheme) K" where
  "rc_sstatus x = kbind r_sstatus (\<lambda>old. kbind (c_sstatus x) (\<lambda>_. kret old))"

definition intr_on :: "(unit, 'a machine_scheme) K" where
  "intr_on = s_sstatus SSTATUS_SIE"

definition intr_off :: "(unit, 'a machine_scheme) K" where
  "intr_off = c_sstatus SSTATUS_SIE"

definition intr_get :: "(bool, 'a machine_scheme) K" where
  "intr_get = kbind r_sstatus (\<lambda>x. kret (x AND SSTATUS_SIE \<noteq> 0))"

definition cpuid :: "(nat, 'a machine_scheme) K" where
  "cpuid = kget tp"

end
