(* ===== verification/Spinlock.thy ===== *)
theory Spinlock
  imports Machine
begin

unbundle bit_operations_syntax

text \<open>
  Spinlocks and interrupt nesting (\<open>kernel/spinlock.c\<close>).  Locks live in a store
  indexed by the identity of the lock; harts keep \<open>noff\<close> and \<open>intena\<close> in their
  \<open>struct cpu\<close>.  The sequential model is the run of one hart, which waits for the
  interference when the lock is taken; the interleaving of several harts on one lock,
  instruction by instruction, is the step relation \<open>smp_step\<close>.
\<close>

section \<open>State\<close>

text \<open>Sleep locks are named here because each contains a spinlock of its own.\<close>

datatype slid = BufSl nat | InodeSl nat | UartSl

datatype lockid =
    PidLock | WaitLock | ProcLock nat | KmemLock | BcacheLock | LogLock | ItableLock
  | FtableLock | PipeLock uint64 | SleepLk slid | TicksLock | ConsLock | PrLock | DiskLock

record spinlock =
  lk_locked :: bool
  lk_name :: string
  lk_cpu :: "nat option"

record cpu =
  c_proc :: "nat option"
  c_context :: swtch_context
  c_noff :: int
  c_intena :: bool

record spin = machine +
  cpus :: "nat \<Rightarrow> cpu"
  locks :: "lockid \<Rightarrow> spinlock"

abbreviation (input) set_lock :: "lockid \<Rightarrow> (spinlock \<Rightarrow> spinlock) \<Rightarrow> 'a spin_scheme \<Rightarrow> 'a spin_scheme" where
  "set_lock l f s \<equiv> s\<lparr>locks := (locks s)(l := f (locks s l))\<rparr>"

abbreviation (input) set_cpu :: "(cpu \<Rightarrow> cpu) \<Rightarrow> 'a spin_scheme \<Rightarrow> 'a spin_scheme" where
  "set_cpu f s \<equiv> s\<lparr>cpus := (cpus s)(tp s := f (cpus s (tp s)))\<rparr>"

section \<open>Operations\<close>

definition initlock :: "lockid \<Rightarrow> string \<Rightarrow> (unit, 'a spin_scheme) K" where
  "initlock lk name =
     kmod (set_lock lk (\<lambda>_. \<lparr>lk_locked = False, lk_name = name, lk_cpu = None\<rparr>))"

definition mycpu :: "(nat, 'a spin_scheme) K" where
  "mycpu = cpuid"

definition holding :: "lockid \<Rightarrow> (bool, 'a spin_scheme) K" where
  "holding lk =
     kbind mycpu (\<lambda>c. kget (\<lambda>s. lk_locked (locks s lk) \<and> lk_cpu (locks s lk) = Some c))"

definition push_off :: "(unit, 'a spin_scheme) K" where
  "push_off =
     kbind (rc_sstatus SSTATUS_SIE) (\<lambda>flags.
     kbind (kget (\<lambda>s. c_noff (cpus s (tp s)))) (\<lambda>noff.
     kseq [
       kwhen (noff = 0) (kmod (set_cpu (\<lambda>c. c\<lparr>c_intena := flags AND SSTATUS_SIE \<noteq> 0\<rparr>))),
       kmod (set_cpu (\<lambda>c. c\<lparr>c_noff := c_noff c + 1\<rparr>))]))"

definition pop_off :: "(unit, 'a spin_scheme) K" where
  "pop_off =
     kbind intr_get (\<lambda>on.
     if on then kpanic ''pop_off - interruptible''
     else kbind (kget (\<lambda>s. c_noff (cpus s (tp s)))) (\<lambda>noff.
     if noff < 1 then kpanic ''pop_off''
     else
       kbind (kmod (set_cpu (\<lambda>c. c\<lparr>c_noff := c_noff c - 1\<rparr>))) (\<lambda>_.
       kbind (kget (\<lambda>s. c_noff (cpus s (tp s)) = 0 \<and> c_intena (cpus s (tp s)))) (\<lambda>b.
       kwhen b intr_on))))"

text \<open>The atomic exchange loop: retry after every interference step until the lock is free.\<close>

fun spin_xchg :: "lockid \<Rightarrow> (unit, 'a spin_scheme) K" where
  "spin_xchg lk s [] =
     (if lk_locked (locks s lk) then (Stuck, s, [])
      else (Ret (), set_lock lk (\<lambda>l. l\<lparr>lk_locked := True\<rparr>) s, []))"
| "spin_xchg lk s (m # e) =
     (if lk_locked (locks s lk) then spin_xchg lk (m s) e
      else (Ret (), set_lock lk (\<lambda>l. l\<lparr>lk_locked := True\<rparr>) s, m # e))"

definition acquire :: "lockid \<Rightarrow> (unit, 'a spin_scheme) K" where
  "acquire lk =
     kbind push_off (\<lambda>_.
     kbind (holding lk) (\<lambda>h.
     if h then kpanic ''acquire''
     else kseq [
       spin_xchg lk,
       kmod (\<lambda>s. set_lock lk (\<lambda>l. l\<lparr>lk_cpu := Some (tp s)\<rparr>) s)]))"

definition release :: "lockid \<Rightarrow> (unit, 'a spin_scheme) K" where
  "release lk =
     kbind (holding lk) (\<lambda>h.
     if \<not> h then kpanic ''release''
     else kseq [
       kmod (set_lock lk (\<lambda>l. l\<lparr>lk_cpu := None\<rparr>)),
       kmod (set_lock lk (\<lambda>l. l\<lparr>lk_locked := False\<rparr>)),
       pop_off])"

section \<open>Interrupt nesting\<close>

text \<open>
  \<open>intr_ok\<close>: inside at least one \<open>push_off\<close> interrupts are off on this hart, and the
  nesting count is not negative.
\<close>

definition sie_on :: "'a machine_scheme \<Rightarrow> bool" where
  "sie_on s \<longleftrightarrow> bit (sstatus s (tp s)) 1"

definition noff :: "'a spin_scheme \<Rightarrow> int" where
  "noff s = c_noff (cpus s (tp s))"

definition intr_ok :: "'a spin_scheme \<Rightarrow> bool" where
  "intr_ok s \<longleftrightarrow> 0 \<le> noff s \<and> (0 < noff s \<longrightarrow> \<not> sie_on s)"

lemma sie_clear: "(x :: uint64) AND NOT 2 = unset_bit 1 x"
  by (simp add: unset_bit_eq_and_not)

lemma sie_set: "(x :: uint64) OR 2 = set_bit 1 x"
  by (simp add: set_bit_eq_or)

lemma sie_test: "(x :: uint64) AND 2 \<noteq> 0 \<longleftrightarrow> bit x 1"
  using bit_iff_and_push_bit_not_eq_0 [of x 1] by simp

lemma set_unset_bit: "bit (x :: uint64) n \<Longrightarrow> set_bit n (unset_bit n x) = x"
  by (rule bit_word_eqI) (auto simp: bit_set_bit_iff bit_unset_bit_iff)

lemma unset_bit_self: "\<not> bit (x :: uint64) n \<Longrightarrow> unset_bit n x = x"
  by (rule bit_word_eqI) (auto simp: bit_unset_bit_iff)

definition pushed :: "'a spin_scheme \<Rightarrow> 'a spin_scheme" where
  "pushed s = s\<lparr>sstatus := (sstatus s)(tp s := unset_bit 1 (sstatus s (tp s))),
     cpus := (cpus s)(tp s := (cpus s (tp s))
       \<lparr>c_intena := if noff s = 0 then sie_on s else c_intena (cpus s (tp s)), c_noff := noff s + 1\<rparr>)\<rparr>"

definition popped :: "'a spin_scheme \<Rightarrow> 'a spin_scheme" where
  "popped s = s\<lparr>sstatus := (if noff s = 1 \<and> c_intena (cpus s (tp s))
       then (sstatus s)(tp s := set_bit 1 (sstatus s (tp s))) else sstatus s),
     cpus := (cpus s)(tp s := (cpus s (tp s))\<lparr>c_noff := noff s - 1\<rparr>)\<rparr>"

lemma push_off_run [k_run]: "push_off s e = (Ret (), pushed s, e)"
  unfolding push_off_def rc_sstatus_def r_sstatus_def c_sstatus_def sie_clear sie_test
  by (cases s) (simp add: pushed_def noff_def kbind_def kget_def kmod_def kret_def kwhen_def sie_on_def)

lemma pop_off_run [k_run]:
  "\<not> sie_on s \<Longrightarrow> 1 \<le> noff s \<Longrightarrow> pop_off s e = (Ret (), popped s, e)"
  unfolding pop_off_def intr_get_def r_sstatus_def s_sstatus_def intr_on_def sie_set sie_test
  by (cases s) (auto simp: popped_def noff_def kbind_def kget_def kmod_def kret_def kwhen_def sie_on_def)

lemma pop_off_panics:
  "sie_on s \<Longrightarrow> pop_off s e = (Panic ''pop_off - interruptible'', s, e)"
  "\<not> sie_on s \<Longrightarrow> noff s < 1 \<Longrightarrow> pop_off s e = (Panic ''pop_off'', s, e)"
  unfolding pop_off_def intr_get_def r_sstatus_def sie_test
  by (simp_all add: noff_def kbind_def kget_def kret_def kpanic_def sie_on_def)

lemma pushed_frame [simp]:
  "tp (pushed s) = tp s" "mem (pushed s) = mem s" "locks (pushed s) = locks s"
  "noff (pushed s) = noff s + 1" "\<not> sie_on (pushed s)"
  by (simp_all add: pushed_def noff_def sie_on_def bit_unset_bit_iff)

lemma popped_frame [simp]:
  "tp (popped s) = tp s" "mem (popped s) = mem s" "locks (popped s) = locks s"
  "noff (popped s) = noff s - 1"
  by (simp_all add: popped_def noff_def)

text \<open>
  The outermost pair remembers the interrupt state in \<open>intena\<close>; everything else is as
  it was before.  Inside an outer \<open>push_off\<close> nothing changes at all.
\<close>

definition settle :: "'a spin_scheme \<Rightarrow> 'a spin_scheme" where
  "settle s = s\<lparr>cpus := (cpus s)(tp s := (cpus s (tp s))
     \<lparr>c_intena := if noff s = 0 then sie_on s else c_intena (cpus s (tp s))\<rparr>)\<rparr>"

lemma popped_pushed:
  assumes "intr_ok s"
  shows "popped (pushed s) = settle s"
  using assms
  by (cases s) (auto simp: popped_def pushed_def settle_def noff_def sie_on_def intr_ok_def
      set_unset_bit unset_bit_self fun_upd_idem)

lemma settle_inside: "noff s \<noteq> 0 \<Longrightarrow> settle s = s"
  by (cases s) (simp add: settle_def fun_upd_idem)

lemma settle_frame [simp]:
  "tp (settle s) = tp s" "mem (settle s) = mem s" "locks (settle s) = locks s"
  "sstatus (settle s) = sstatus s" "noff (settle s) = noff s" "sie_on (settle s) = sie_on s"
  by (simp_all add: settle_def noff_def sie_on_def)

lemma settle_idem [simp]: "settle (settle s) = settle s"
  by (cases s) (simp add: settle_def noff_def sie_on_def)

lemma intr_ok_pushed: "intr_ok s \<Longrightarrow> intr_ok (pushed s)"
  by (simp add: intr_ok_def)

lemma intr_ok_settle [simp]: "intr_ok (settle s) = intr_ok s"
  by (simp add: intr_ok_def)

lemma nested_push_pop:
  assumes "intr_ok s"
  shows "kseq (replicate (Suc n) push_off @ replicate (Suc n) pop_off @ fs) s e =
           kseq fs (settle s) e"
  using assms
proof (induction n arbitrary: s fs)
  case 0
  then have "pop_off (pushed s) e = (Ret (), settle s, e)"
    using pop_off_run [of "pushed s" e] by (simp add: popped_pushed intr_ok_def)
  then show ?case by (simp add: kbind_Ret push_off_run [of s e])
next
  case (Suc n)
  have "kseq (replicate (Suc n) push_off @ replicate (Suc n) pop_off @ pop_off # fs) (pushed s) e =
      kseq (pop_off # fs) (pushed s) e"
    using Suc.IH [OF intr_ok_pushed [OF Suc.prems], of "pop_off # fs"] Suc.prems
    by (simp add: settle_inside intr_ok_def)
  moreover have "pop_off (pushed s) e = (Ret (), settle s, e)"
    using pop_off_run [of "pushed s" e] Suc.prems by (simp add: popped_pushed intr_ok_def)
  ultimately show ?case
    by (simp add: kbind_Ret push_off_run [of s e] replicate_app_Cons_same)
qed

section \<open>Taking and releasing a lock\<close>

definition acquired :: "lockid \<Rightarrow> 'a spin_scheme \<Rightarrow> 'a spin_scheme" where
  "acquired lk s = (pushed s)\<lparr>locks := (locks s)(lk := (locks s lk)
     \<lparr>lk_locked := True, lk_cpu := Some (tp s)\<rparr>)\<rparr>"

definition released :: "lockid \<Rightarrow> 'a spin_scheme \<Rightarrow> 'a spin_scheme" where
  "released lk s = popped (s\<lparr>locks := (locks s)(lk := (locks s lk)
     \<lparr>lk_cpu := None, lk_locked := False\<rparr>)\<rparr>)"

definition holds :: "'a spin_scheme \<Rightarrow> lockid \<Rightarrow> bool" where
  "holds s lk \<longleftrightarrow> lk_locked (locks s lk) \<and> lk_cpu (locks s lk) = Some (tp s)"

lemma holding_run [k_run]: "holding lk s e = (Ret (holds s lk), s, e)"
  by (simp add: holding_def mycpu_def cpuid_def holds_def kbind_def kget_def)

lemma spin_xchg_free [k_run]:
  "\<not> lk_locked (locks s lk) \<Longrightarrow>
   spin_xchg lk s e = (Ret (), set_lock lk (\<lambda>l. l\<lparr>lk_locked := True\<rparr>) s, e)"
  by (cases e) simp_all

lemma acquire_free [k_run]:
  "\<not> lk_locked (locks s lk) \<Longrightarrow> acquire lk s e = (Ret (), acquired lk s, e)"
  by (simp add: acquire_def kbind_def push_off_run holding_run spin_xchg_free holds_def
      kmod_def kret_def acquired_def)

lemma acquire_twice_panics:
  "holds s lk \<Longrightarrow> acquire lk s e = (Panic ''acquire'', pushed s, e)"
  by (simp add: acquire_def kbind_def push_off_run holding_run holds_def kpanic_def)

lemma release_held [k_run]:
  "holds s lk \<Longrightarrow> \<not> sie_on s \<Longrightarrow> 1 \<le> noff s \<Longrightarrow> release lk s e = (Ret (), released lk s, e)"
  by (simp add: release_def kbind_def holding_run holds_def kmod_def kret_def released_def
      pop_off_run sie_on_def noff_def)

lemma release_not_held_panics:
  "\<not> holds s lk \<Longrightarrow> release lk s e = (Panic ''release'', s, e)"
  by (simp add: release_def kbind_def holding_run kpanic_def)

lemma acquired_frame [simp]:
  "tp (acquired lk s) = tp s" "mem (acquired lk s) = mem s"
  "noff (acquired lk s) = noff s + 1" "\<not> sie_on (acquired lk s)" "holds (acquired lk s) lk"
  by (simp_all add: acquired_def noff_def sie_on_def holds_def pushed_def bit_unset_bit_iff)

text \<open>A lock that is not taken records no holder.\<close>

definition lock_clean :: "'a spin_scheme \<Rightarrow> lockid \<Rightarrow> bool" where
  "lock_clean s lk \<longleftrightarrow> \<not> lk_locked (locks s lk) \<and> lk_cpu (locks s lk) = None"

text \<open>
  A critical section: taking a free lock, running a body that touches neither the locks
  nor the hart's interrupt state, and releasing it, returns what the body returns; the
  lock store, the nesting depth and the interrupt enable of the hart are as before.
\<close>

definition cs_frame :: "'a spin_scheme \<Rightarrow> 'a spin_scheme \<Rightarrow> bool" where
  "cs_frame s s' \<longleftrightarrow> tp s' = tp s \<and> sstatus s' = sstatus s \<and> cpus s' = cpus s \<and> locks s' = locks s"

lemma cs_frame_refl [simp]: "cs_frame s s"
  by (simp add: cs_frame_def)

lemma lock_clean_idem:
  "lock_clean s lk \<Longrightarrow> (locks s)(lk := (locks s lk)\<lparr>lk_cpu := None, lk_locked := False\<rparr>) = locks s"
  by (cases "locks s lk") (auto simp: lock_clean_def fun_upd_idem)

text \<open>What \<open>released\<close> leaves of the state in which the body ended.\<close>

lemma released_eq:
  assumes "intr_ok s" "lock_clean s lk" "cs_frame (acquired lk s) s1"
  shows "released lk s1 = s1\<lparr>sstatus := sstatus s, cpus := cpus (settle s), locks := locks s\<rparr>"
proof -
  have l: "locks s1 = (locks s)(lk := (locks s lk)\<lparr>lk_locked := True, lk_cpu := Some (tp s)\<rparr>)"
    and p: "tp s1 = tp s" "sstatus s1 = sstatus (pushed s)" "cpus s1 = cpus (pushed s)"
    using assms(3) by (simp_all add: cs_frame_def acquired_def)
  have "sstatus (popped (pushed s)) = sstatus s" "cpus (popped (pushed s)) = cpus (settle s)"
    using popped_pushed [OF assms(1)] by simp_all
  then show ?thesis
    using l p lock_clean_idem [OF assms(2)]
    by (cases s1) (auto simp: released_def popped_def noff_def split: if_splits)
qed

lemma release_after_body:
  assumes "intr_ok s" "cs_frame (acquired lk s) s1"
  shows "release lk s1 e = (Ret (), released lk s1, e)"
  using assms by (intro release_held)
    (auto simp: cs_frame_def holds_def acquired_def pushed_def noff_def sie_on_def intr_ok_def
      bit_unset_bit_iff)

lemma critical_section:
  assumes "intr_ok s" "lock_clean s lk"
    and "f (acquired lk s) e = (Ret a, s1, e1)" "cs_frame (acquired lk s) s1"
  shows "kbind (acquire lk) (\<lambda>_. kbind f (\<lambda>a. kbind (release lk) (\<lambda>_. g a))) s e =
           g a (s1\<lparr>sstatus := sstatus s, cpus := cpus (settle s), locks := locks s\<rparr>) e1"
  using assms release_after_body [OF assms(1,4), of e1] released_eq [OF assms(1,2,4)]
  by (simp add: kbind_def acquire_free lock_clean_def)

text \<open>
  Updates of the rest of the state that neither read nor write the lock and interrupt
  state: a critical section around such an update is the update alone.
\<close>

definition cs_comm :: "('a spin_scheme \<Rightarrow> 'a spin_scheme) \<Rightarrow> bool" where
  "cs_comm u \<longleftrightarrow> (\<forall>s a b c. u (s\<lparr>sstatus := a, cpus := b, locks := c\<rparr>) =
     (u s)\<lparr>sstatus := a, cpus := b, locks := c\<rparr> \<and> tp (u s) = tp s)"

lemma cs_commD:
  fixes s :: "'a spin_scheme" and a :: "nat \<Rightarrow> uint64" and b :: "nat \<Rightarrow> cpu" and c :: "lockid \<Rightarrow> spinlock"
  assumes "cs_comm u"
  shows "u (s\<lparr>sstatus := a, cpus := b, locks := c\<rparr>) = (u s)\<lparr>sstatus := a, cpus := b, locks := c\<rparr>"
    and "tp (u s) = tp s" "sstatus (u s) = sstatus s" "cpus (u s) = cpus s" "locks (u s) = locks s"
proof -
  have u: "u (s\<lparr>sstatus := a, cpus := b, locks := c\<rparr>) = (u s)\<lparr>sstatus := a, cpus := b, locks := c\<rparr>" for a b c
    using assms by (auto simp: cs_comm_def)
  then show "u (s\<lparr>sstatus := a, cpus := b, locks := c\<rparr>) = (u s)\<lparr>sstatus := a, cpus := b, locks := c\<rparr>" .
  show "tp (u s) = tp s" using assms by (auto simp: cs_comm_def)
  have "s\<lparr>sstatus := sstatus s, cpus := cpus s, locks := locks s\<rparr> = s" by simp
  with u [where a = "sstatus s" and b = "cpus s" and c = "locks s"]
  have "u s = (u s)\<lparr>sstatus := sstatus s, cpus := cpus s, locks := locks s\<rparr>" by simp
  then show "sstatus (u s) = sstatus s" "cpus (u s) = cpus s" "locks (u s) = locks s"
    by (cases "u s", simp)+
qed

lemma cs_comm_id [simp]: "cs_comm (\<lambda>s. s)"
  by (simp add: cs_comm_def)

lemma cs_comm_comp: "cs_comm u \<Longrightarrow> cs_comm v \<Longrightarrow> cs_comm (\<lambda>s. u (v s))"
  by (simp add: cs_comm_def)

lemma cs_comm_if: "cs_comm u \<Longrightarrow> cs_comm v \<Longrightarrow>
    (\<And>s a b c. P (s\<lparr>sstatus := a, cpus := b, locks := c\<rparr>) = P s) \<Longrightarrow> cs_comm (\<lambda>s. if P s then u s else v s)"
  by (simp add: cs_comm_def)

lemma acquired_upd:
  "acquired lk s = s\<lparr>sstatus := sstatus (acquired lk s), cpus := cpus (acquired lk s), locks := locks (acquired lk s)\<rparr>"
  by (cases s) (simp add: acquired_def pushed_def)

lemma settle_upd: "s\<lparr>sstatus := sstatus s, cpus := cpus (settle s), locks := locks s\<rparr> = settle s"
  by (cases s) (simp add: settle_def)

lemma settle_comm:
  assumes "cs_comm u" shows "u (settle s) = settle (u s)"
proof -
  have "u (settle s) = (u s)\<lparr>sstatus := sstatus s, cpus := cpus (settle s), locks := locks s\<rparr>"
    using cs_commD(1) [OF assms, where s = s and a = "sstatus s" and b = "cpus (settle s)" and c = "locks s"] by (simp only: settle_upd)
  also have "\<dots> = settle (u s)"
    using cs_commD(2-5) [OF assms, of s]
    by (cases "u s") (simp add: settle_def noff_def sie_on_def)
  finally show ?thesis .
qed

text \<open>The run rule of a critical section; it also applies inside other critical sections.\<close>

lemma cs_run:
  assumes "intr_ok s" "lock_clean s lk" "cs_comm u"
    and body: "f (acquired lk s) e = (Ret a, u (acquired lk s), e1)"
  shows "kbind (acquire lk) (\<lambda>_. kbind f (\<lambda>a. kbind (release lk) (\<lambda>_. g a))) s e = g a (settle (u s)) e1"
proof -
  note u = cs_commD [OF assms(3)]
  have "cs_frame (acquired lk s) (u (acquired lk s))"
    by (simp add: cs_frame_def u)
  moreover have "(u (acquired lk s))\<lparr>sstatus := sstatus s, cpus := cpus (settle s), locks := locks s\<rparr> = settle (u s)"
  proof -
    have "u (acquired lk s) = (u s)\<lparr>sstatus := sstatus (acquired lk s), cpus := cpus (acquired lk s), locks := locks (acquired lk s)\<rparr>"
      by (subst acquired_upd) (rule u)
    then have "(u (acquired lk s))\<lparr>sstatus := sstatus s, cpus := cpus (settle s), locks := locks s\<rparr> =
        (u s)\<lparr>sstatus := sstatus s, cpus := cpus (settle s), locks := locks s\<rparr>"
      by (cases "u s") simp
    also have "\<dots> = u (settle s)"
      using u(1) [where s = s and a = "sstatus s" and b = "cpus (settle s)" and c = "locks s"] by (simp only: settle_upd)
    also have "\<dots> = settle (u s)" by (rule settle_comm [OF assms(3)])
    finally show ?thesis .
  qed
  ultimately show ?thesis
    using critical_section [where f = f and g = g, OF assms(1,2) body] by simp
qed

lemma cs_run_unit:
  assumes "intr_ok s" "lock_clean s lk" "cs_comm u"
    and "f (acquired lk s) e = (Ret (), u (acquired lk s), e1)"
  shows "kbind (acquire lk) (\<lambda>_. kbind f (\<lambda>_. release lk)) s e = (Ret (), settle (u s), e1)"
  using cs_run [where f = f and g = "\<lambda>_. kret ()", OF assms]
  by (simp add: kret_run kbind_kret_unit)

text \<open>
  Invariants that do not talk about locks and interrupts are kept by the lock operations,
  also when the lock is contended.
\<close>

definition lock_stable :: "('a spin_scheme \<Rightarrow> bool) \<Rightarrow> bool" where
  "lock_stable I \<longleftrightarrow> (\<forall>s a b c. I (s\<lparr>sstatus := a, cpus := b, locks := c\<rparr>) = I s)"

lemma lock_stableD:
  assumes "lock_stable I"
  shows "I (s\<lparr>sstatus := a\<rparr>) = I s" "I (s\<lparr>cpus := b\<rparr>) = I s" "I (s\<lparr>locks := c\<rparr>) = I s"
    "I (s\<lparr>sstatus := a, cpus := b\<rparr>) = I s"
proof -
  have *: "I (s\<lparr>sstatus := a, cpus := b, locks := c\<rparr>) = I s" for s a b c
    using assms by (auto simp: lock_stable_def)
  show "I (s\<lparr>sstatus := a\<rparr>) = I s"
    using * [where s = s and a = a and b = "cpus s" and c = "locks s"] by (cases s) simp
  show "I (s\<lparr>cpus := b\<rparr>) = I s"
    using * [where s = s and a = "sstatus s" and b = b and c = "locks s"] by (cases s) simp
  show "I (s\<lparr>locks := c\<rparr>) = I s"
    using * [where s = s and a = "sstatus s" and b = "cpus s" and c = c] by (cases s) simp
  show "I (s\<lparr>sstatus := a, cpus := b\<rparr>) = I s"
    using * [where s = s and a = a and b = b and c = "locks s"] by (cases s) simp
qed

lemma kpres_push_off [k_pres]: "lock_stable I \<Longrightarrow> kpres I push_off"
  by (rule kpresI) (auto simp: push_off_run pushed_def lock_stableD)

lemma pop_off_cases:
  "pop_off s e = (Ret (), popped s, e) \<or> (\<exists>m. pop_off s e = (Panic m, s, e))"
  using pop_off_run [of s e] pop_off_panics [of s e] by (cases "sie_on s"; cases "1 \<le> noff s") auto

lemma kpres_pop_off [k_pres]: "lock_stable I \<Longrightarrow> kpres I pop_off"
proof (rule kpresI)
  fix s e a s' e'
  assume "lock_stable I" "I s" "env_keeps I e" "pop_off s e = (Ret a, s', e')"
  then show "I s' \<and> env_keeps I e'"
    using pop_off_cases [of s e] by (auto simp: popped_def lock_stableD)
qed

lemma kpres_holding [k_pres]: "kpres I (holding lk)"
  by (rule kpresI) (simp add: holding_run)

lemma kpres_spin_xchg [k_pres]: "lock_stable I \<Longrightarrow> kpres I (spin_xchg lk)"
proof (rule kpresI)
  fix s e a s' e'
  assume I: "lock_stable I" and "I s" "env_keeps I e" "spin_xchg lk s e = (Ret a, s', e')"
  then show "I s' \<and> env_keeps I e'"
    by (induction lk s e rule: spin_xchg.induct) (auto simp: lock_stableD [OF I] split: if_splits)
qed

lemma kpres_acquire [k_pres]: "lock_stable I \<Longrightarrow> kpres I (acquire lk)"
  unfolding acquire_def by (auto intro!: k_pres simp: lock_stableD)

lemma kpres_release [k_pres]: "lock_stable I \<Longrightarrow> kpres I (release lk)"
  unfolding release_def by (auto intro!: k_pres simp: lock_stableD)

section \<open>Several harts on one lock\<close>

text \<open>
  The instructions of \<open>acquire\<close> and \<open>release\<close> that touch the lock, interleaved: entry
  (with the \<open>holding\<close> check), the atomic exchange (which may fail), the store to
  \<open>lk->cpu\<close>, and in \<open>release\<close> the store of 0 to \<open>lk->cpu\<close> and to \<open>lk->locked\<close>.
\<close>

datatype spin_pc = PcIdle | PcSpin | PcGot | PcCrit | PcRel

record smp =
  smp_lock :: spinlock
  smp_pc :: "nat \<Rightarrow> spin_pc"

definition smp_holding :: "smp \<Rightarrow> nat \<Rightarrow> bool" where
  "smp_holding s h \<longleftrightarrow> lk_locked (smp_lock s) \<and> lk_cpu (smp_lock s) = Some h"

definition smp_init :: "string \<Rightarrow> smp" where
  "smp_init name = \<lparr>smp_lock = \<lparr>lk_locked = False, lk_name = name, lk_cpu = None\<rparr>, smp_pc = (\<lambda>_. PcIdle)\<rparr>"

inductive smp_step :: "smp \<Rightarrow> smp \<Rightarrow> bool" where
  smp_enter: "smp_pc s h = PcIdle \<Longrightarrow> \<not> smp_holding s h \<Longrightarrow>
    smp_step s (s\<lparr>smp_pc := (smp_pc s)(h := PcSpin)\<rparr>)"
| smp_xchg_busy: "smp_pc s h = PcSpin \<Longrightarrow> lk_locked (smp_lock s) \<Longrightarrow> smp_step s s"
| smp_xchg: "smp_pc s h = PcSpin \<Longrightarrow> \<not> lk_locked (smp_lock s) \<Longrightarrow>
    smp_step s (s\<lparr>smp_lock := (smp_lock s)\<lparr>lk_locked := True\<rparr>, smp_pc := (smp_pc s)(h := PcGot)\<rparr>)"
| smp_set_cpu: "smp_pc s h = PcGot \<Longrightarrow>
    smp_step s (s\<lparr>smp_lock := (smp_lock s)\<lparr>lk_cpu := Some h\<rparr>, smp_pc := (smp_pc s)(h := PcCrit)\<rparr>)"
| smp_clear_cpu: "smp_pc s h = PcCrit \<Longrightarrow> smp_holding s h \<Longrightarrow>
    smp_step s (s\<lparr>smp_lock := (smp_lock s)\<lparr>lk_cpu := None\<rparr>, smp_pc := (smp_pc s)(h := PcRel)\<rparr>)"
| smp_unlock: "smp_pc s h = PcRel \<Longrightarrow>
    smp_step s (s\<lparr>smp_lock := (smp_lock s)\<lparr>lk_locked := False\<rparr>, smp_pc := (smp_pc s)(h := PcIdle)\<rparr>)"

inductive smp_reach :: "string \<Rightarrow> smp \<Rightarrow> bool" for name where
  smp_start: "smp_reach name (smp_init name)"
| smp_next: "smp_reach name s \<Longrightarrow> smp_step s t \<Longrightarrow> smp_reach name t"

definition owns :: "spin_pc \<Rightarrow> bool" where
  "owns p \<longleftrightarrow> p = PcGot \<or> p = PcCrit \<or> p = PcRel"

text \<open>The invariant names the one hart (if any) between its exchange and its last store.\<close>

definition smp_owner :: "smp \<Rightarrow> nat option \<Rightarrow> bool" where
  "smp_owner s w \<longleftrightarrow>
     (lk_locked (smp_lock s) \<longleftrightarrow> w \<noteq> None) \<and>
     (\<forall>h. owns (smp_pc s h) \<longleftrightarrow> w = Some h) \<and>
     (\<forall>h. lk_cpu (smp_lock s) = Some h \<longleftrightarrow> smp_pc s h = PcCrit)"

lemma smp_owner_init: "smp_owner (smp_init name) None"
  by (simp add: smp_owner_def smp_init_def owns_def)

lemma smp_owner_step: "smp_step s t \<Longrightarrow> smp_owner s w \<Longrightarrow> \<exists>w'. smp_owner t w'"
proof (induction rule: smp_step.induct)
  case (smp_enter s h)
  then have "w \<noteq> Some h"
    unfolding smp_owner_def owns_def by (metis spin_pc.distinct(3,5,7))
  with smp_enter have "smp_owner (s\<lparr>smp_pc := (smp_pc s)(h := PcSpin)\<rparr>) w"
    by (auto simp: smp_owner_def owns_def)
  then show ?case ..
next
  case (smp_xchg_busy s h)
  then show ?case by auto
next
  case (smp_xchg s h)
  then have "smp_owner (s\<lparr>smp_lock := (smp_lock s)\<lparr>lk_locked := True\<rparr>, smp_pc := (smp_pc s)(h := PcGot)\<rparr>) (Some h)"
    by (auto simp: smp_owner_def owns_def)
  then show ?case ..
next
  case (smp_set_cpu s h)
  then have "w = Some h"
    unfolding smp_owner_def owns_def by metis
  with smp_set_cpu have "smp_owner (s\<lparr>smp_lock := (smp_lock s)\<lparr>lk_cpu := Some h\<rparr>, smp_pc := (smp_pc s)(h := PcCrit)\<rparr>) (Some h)"
    by (auto simp: smp_owner_def owns_def)
  then show ?case ..
next
  case (smp_clear_cpu s h)
  then have "w = Some h"
    unfolding smp_owner_def owns_def by metis
  with smp_clear_cpu have "smp_owner (s\<lparr>smp_lock := (smp_lock s)\<lparr>lk_cpu := None\<rparr>, smp_pc := (smp_pc s)(h := PcRel)\<rparr>) (Some h)"
    by (auto simp: smp_owner_def owns_def)
  then show ?case ..
next
  case (smp_unlock s h)
  then have "w = Some h"
    unfolding smp_owner_def owns_def by metis
  with smp_unlock have "smp_owner (s\<lparr>smp_lock := (smp_lock s)\<lparr>lk_locked := False\<rparr>, smp_pc := (smp_pc s)(h := PcIdle)\<rparr>) None"
    by (auto simp: smp_owner_def owns_def)
  then show ?case ..
qed

lemma smp_reach_owner: "smp_reach name s \<Longrightarrow> \<exists>w. smp_owner s w"
  by (induction rule: smp_reach.induct) (auto intro: smp_owner_init dest: smp_owner_step)

text \<open>
  The sequential \<open>acquire\<close> of a free lock is the path entry, exchange, store of that
  relation, as far as the lock is concerned.
\<close>

lemma acquire_is_smp_path:
  assumes "\<not> lk_locked (locks s lk)" "acquire lk s e = (Ret (), s', e')" "pcs (tp s) = PcIdle"
  shows "smp_step\<^sup>*\<^sup>* \<lparr>smp_lock = locks s lk, smp_pc = pcs\<rparr>
           \<lparr>smp_lock = locks s' lk, smp_pc = pcs(tp s := PcCrit)\<rparr>"
proof -
  let ?h = "tp s" and ?l = "locks s lk"
  let ?s1 = "\<lparr>smp_lock = ?l, smp_pc = pcs(?h := PcSpin)\<rparr>"
  let ?s2 = "\<lparr>smp_lock = ?l\<lparr>lk_locked := True\<rparr>, smp_pc = pcs(?h := PcGot)\<rparr>"
  have "smp_step \<lparr>smp_lock = ?l, smp_pc = pcs\<rparr> ?s1"
    using smp_enter [of "\<lparr>smp_lock = ?l, smp_pc = pcs\<rparr>" ?h] assms(1,3) by (simp add: smp_holding_def)
  moreover have "smp_step ?s1 ?s2"
    using smp_xchg [of ?s1 ?h] assms(1) by simp
  moreover have "smp_step ?s2 \<lparr>smp_lock = locks s' lk, smp_pc = pcs(?h := PcCrit)\<rparr>"
    using smp_set_cpu [of ?s2 ?h] assms(2) acquire_free [OF assms(1), of e] by (auto simp: acquired_def)
  ultimately show ?thesis
    by (meson converse_rtranclp_into_rtranclp r_into_rtranclp)
qed

section \<open>Properties\<close>

text \<open>
  C5: mutual exclusion of spinlocks.  In every interleaving of \<open>acquire\<close> and \<open>release\<close> by
  any number of harts, at most one hart is between its successful atomic exchange and the
  store that frees the lock, the lock word is set exactly while there is such a hart, and
  \<open>holding()\<close> is true exactly on the hart inside its critical section.
\<close>

theorem spinlock_mutual_exclusion:
  assumes "smp_reach name s"
  shows "(owns (smp_pc s h) \<and> owns (smp_pc s k) \<longrightarrow> h = k) \<and>
         (lk_locked (smp_lock s) \<longleftrightarrow> (\<exists>h. owns (smp_pc s h))) \<and>
         (smp_holding s h \<longleftrightarrow> smp_pc s h = PcCrit)"
proof -
  obtain w where w: "smp_owner s w" using smp_reach_owner [OF assms] ..
  then have l: "lk_locked (smp_lock s) \<longleftrightarrow> (\<exists>h. owns (smp_pc s h))"
    by (auto simp: smp_owner_def)
  moreover have "owns (smp_pc s h) \<and> owns (smp_pc s k) \<longrightarrow> h = k"
    using w by (auto simp: smp_owner_def)
  moreover have "smp_holding s h \<longleftrightarrow> smp_pc s h = PcCrit"
    using w l by (auto simp: smp_owner_def smp_holding_def owns_def)
  ultimately show ?thesis by blast
qed

lemma smp_reach_two:
  "smp_reach name \<lparr>smp_lock = \<lparr>lk_locked = True, lk_name = name, lk_cpu = None\<rparr>,
     smp_pc = (\<lambda>_. PcIdle)(0 := PcGot, 1 := PcSpin)\<rparr>"
proof -
  have "smp_reach name \<lparr>smp_lock = \<lparr>lk_locked = False, lk_name = name, lk_cpu = None\<rparr>,
      smp_pc = (\<lambda>_. PcIdle)(0 := PcSpin)\<rparr>"
    using smp_next [OF smp_start smp_enter [where h = 0]] by (simp add: smp_init_def smp_holding_def)
  from smp_next [OF this smp_enter [where h = 1]]
  have "smp_reach name \<lparr>smp_lock = \<lparr>lk_locked = False, lk_name = name, lk_cpu = None\<rparr>,
      smp_pc = (\<lambda>_. PcIdle)(0 := PcSpin, 1 := PcSpin)\<rparr>"
    by (simp add: smp_holding_def)
  from smp_next [OF this smp_xchg [where h = 0]] show ?thesis
    by (simp add: fun_upd_twist)
qed

theorem spinlock_mutual_exclusion_witness:
  "\<exists>s. smp_reach ''kmem'' s \<and> owns (smp_pc s 0) \<and> \<not> owns (smp_pc s 1) \<and> lk_locked (smp_lock s)"
  using spinlock_mutual_exclusion [OF smp_reach_two, of "''kmem''" 0 1]
    smp_reach_two [of "''kmem''"]
  by (intro exI [of _ "\<lparr>smp_lock = \<lparr>lk_locked = True, lk_name = ''kmem'', lk_cpu = None\<rparr>,
     smp_pc = (\<lambda>_. PcIdle)(0 := PcGot, 1 := PcSpin)\<rparr>"]) (simp add: owns_def)

text \<open>
  C24: interrupt nesting and critical sections.  Starting with a consistent nesting count
  and a free lock, \<open>acquire\<close>, a body that leaves lock and interrupt state alone, and
  \<open>release\<close>, even under further balanced \<open>push_off\<close>/\<open>pop_off\<close> pairs, return what the
  body returns; the lock is free again, and the nesting count and the interrupt enable
  bit of the hart are what they were before.
\<close>

theorem critical_section_restores:
  assumes "intr_ok s" "lock_clean s lk"
    and "f (acquired lk s) e = (Ret a, s1, e1)" "cs_frame (acquired lk s) s1"
  shows "\<exists>s'. kbind (acquire lk) (\<lambda>_. kbind f (\<lambda>a.
             kbind (kseq (replicate (Suc n) push_off @ replicate (Suc n) pop_off @ [release lk]))
               (\<lambda>_. kret a))) s e = (Ret a, s', e1) \<and>
           mem s' = mem s1 \<and> locks s' = locks s \<and> sstatus s' = sstatus s \<and> noff s' = noff s \<and> intr_ok s'"
proof -
  have r: "release lk s1 e1 = (Ret (), released lk s1, e1)"
    using assms(1,4) by (rule release_after_body)
  have n1: "noff s1 = noff s + 1" "\<not> sie_on s1"
    using assms(4) acquired_frame(3,4) [of lk s] by (simp_all add: cs_frame_def noff_def sie_on_def)
  then have "settle s1 = s1" "intr_ok s1"
    using assms(1) by (simp_all add: settle_inside intr_ok_def)
  then have "kseq (replicate (Suc n) push_off @ replicate (Suc n) pop_off @ [release lk]) s1 e1 =
      (Ret (), released lk s1, e1)"
    using nested_push_pop [of s1 n "[release lk]" e1] r by (simp add: kbind_Ret kret_run)
  moreover have "acquire lk s e = (Ret (), acquired lk s, e)"
    using assms(2) by (simp add: acquire_free lock_clean_def)
  moreover have "noff (released lk s1) = noff s" "intr_ok (released lk s1)"
    using released_eq [OF assms(1,2,4)] assms(1,4) n1
    by (auto simp: released_def noff_def cs_frame_def intr_ok_def sie_on_def settle_def)
  ultimately show ?thesis
    using assms(3) released_eq [OF assms(1,2,4)] by (simp add: kbind_def kret_run)
qed

text \<open>A hart with interrupts enabled and every lock free, for concrete runs.\<close>

definition boot_spin :: spin where
  "boot_spin = \<lparr>mem = (\<lambda>_. 0), tp = 0, sstatus = (\<lambda>_. 2),
     cpus = (\<lambda>_. \<lparr>c_proc = None, c_context = \<lparr>ctx_ra = 0, ctx_sp = 0, ctx_s0 = 0, ctx_s1 = 0,
       ctx_s2 = 0, ctx_s3 = 0, ctx_s4 = 0, ctx_s5 = 0, ctx_s6 = 0, ctx_s7 = 0, ctx_s8 = 0,
       ctx_s9 = 0, ctx_s10 = 0, ctx_s11 = 0\<rparr>, c_noff = 0, c_intena = False\<rparr>),
     locks = (\<lambda>_. \<lparr>lk_locked = False, lk_name = ''lock'', lk_cpu = None\<rparr>)\<rparr>"

theorem critical_section_restores_witness:
  "\<exists>s'. kbind (acquire KmemLock) (\<lambda>_. kbind (kbind (kmod (\<lambda>s. s\<lparr>mem := (mem s)(8 := 1)\<rparr>)) (\<lambda>_. kret 7)) (\<lambda>a.
      kbind (kseq (replicate (Suc 2) push_off @ replicate (Suc 2) pop_off @ [release KmemLock])) (\<lambda>_. kret a)))
      boot_spin [] = (Ret (7::nat), s', []) \<and> mem s' 8 = 1 \<and> intr_ok boot_spin \<and> lock_clean boot_spin KmemLock"
proof -
  let ?f = "kbind (kmod (\<lambda>s. s\<lparr>mem := (mem s)(8 := 1)\<rparr>)) (\<lambda>_. kret (7::nat))"
  have ok: "intr_ok boot_spin" "lock_clean boot_spin KmemLock"
    by (simp_all add: boot_spin_def intr_ok_def noff_def lock_clean_def)
  have f: "?f (acquired KmemLock boot_spin) [] =
      (Ret 7, (acquired KmemLock boot_spin)\<lparr>mem := (mem (acquired KmemLock boot_spin))(8 := 1)\<rparr>, [])"
    by (simp add: kret_run)
  have "cs_frame (acquired KmemLock boot_spin)
      ((acquired KmemLock boot_spin)\<lparr>mem := (mem (acquired KmemLock boot_spin))(8 := 1)\<rparr>)"
    by (simp add: cs_frame_def)
  from critical_section_restores [where f = ?f, OF ok f this, of 2] obtain s' where
    r: "kbind (acquire KmemLock) (\<lambda>_. kbind ?f (\<lambda>a.
      kbind (kseq (replicate (Suc 2) push_off @ replicate (Suc 2) pop_off @ [release KmemLock])) (\<lambda>_. kret a)))
      boot_spin [] = (Ret 7, s', [])"
    and "mem s' = (mem (acquired KmemLock boot_spin))(8 := 1)"
    by auto
  then have "mem s' 8 = 1" by simp
  with r ok show ?thesis by blast
qed

end
