(* ===== verification/CString.thy ===== *)
theory CString
  imports Machine
begin

text \<open>
  Byte and string routines of the kernel (\<open>kernel/string.c\<close>).  The routines that write
  work on physical memory; a \<open>const char *\<close> that is only read is modelled as the
  function from offsets to bytes it denotes, so that the same definition applies to
  memory, to a field of a struct and to a string constant.
\<close>

section \<open>Blocks of memory\<close>

text \<open>A \<open>for\<close> loop over the offsets of a block.\<close>

definition memset :: "memory \<Rightarrow> uint64 \<Rightarrow> uchar \<Rightarrow> uint \<Rightarrow> memory" where
  "memset m dst c n = fold (\<lambda>i m. m(dst + of_nat i := c)) [0..<unat n] m"

definition copy_forward :: "memory \<Rightarrow> uint64 \<Rightarrow> uint64 \<Rightarrow> nat \<Rightarrow> memory" where
  "copy_forward m d s n = fold (\<lambda>i m. m(d + of_nat i := m (s + of_nat i))) [0..<n] m"

definition copy_backward :: "memory \<Rightarrow> uint64 \<Rightarrow> uint64 \<Rightarrow> nat \<Rightarrow> memory" where
  "copy_backward m d s n = fold (\<lambda>i m. m(d + of_nat i := m (s + of_nat i))) (rev [0..<n]) m"

definition memmove :: "memory \<Rightarrow> uint64 \<Rightarrow> uint64 \<Rightarrow> uint \<Rightarrow> memory" where
  "memmove m dst src n =
     (if n = 0 then m
      else if src < dst \<and> src + ucast n > dst then copy_backward m dst src (unat n)
      else copy_forward m dst src (unat n))"

definition memcpy :: "memory \<Rightarrow> uint64 \<Rightarrow> uint64 \<Rightarrow> uint \<Rightarrow> memory" where
  "memcpy m dst src n = memmove m dst src n"

fun memcmp :: "(nat \<Rightarrow> uchar) \<Rightarrow> (nat \<Rightarrow> uchar) \<Rightarrow> nat \<Rightarrow> int" where
  "memcmp s1 s2 0 = 0"
| "memcmp s1 s2 (Suc n) =
     (if s1 0 \<noteq> s2 0 then uint (s1 0) - uint (s2 0)
      else memcmp (\<lambda>i. s1 (Suc i)) (\<lambda>i. s2 (Suc i)) n)"

section \<open>Strings\<close>

fun strncmp :: "(nat \<Rightarrow> uchar) \<Rightarrow> (nat \<Rightarrow> uchar) \<Rightarrow> nat \<Rightarrow> int" where
  "strncmp p q 0 = 0"
| "strncmp p q (Suc n) =
     (if p 0 \<noteq> 0 \<and> p 0 = q 0 then strncmp (\<lambda>i. p (Suc i)) (\<lambda>i. q (Suc i)) n
      else uint (p 0) - uint (q 0))"

text \<open>\<open>strncpy\<close>: copy until the NUL or until \<open>n\<close> bytes are written, then pad with NULs.\<close>

primrec zero_fill :: "memory \<Rightarrow> uint64 \<Rightarrow> nat \<Rightarrow> memory" where
  "zero_fill m s 0 = m"
| "zero_fill m s (Suc n) = zero_fill (m(s := 0)) (s + 1) n"

primrec strncpy_copy :: "memory \<Rightarrow> uint64 \<Rightarrow> uint64 \<Rightarrow> nat \<Rightarrow> memory" where
  "strncpy_copy m s t 0 = m"
| "strncpy_copy m s t (Suc n) =
     (let c = m t; m' = m(s := c)
      in if c \<noteq> 0 then strncpy_copy m' (s + 1) (t + 1) n else zero_fill m' (s + 1) n)"

definition strncpy :: "memory \<Rightarrow> uint64 \<Rightarrow> uint64 \<Rightarrow> int \<Rightarrow> memory" where
  "strncpy m s t n = strncpy_copy m s t (nat n)"

primrec safestrcpy_copy :: "memory \<Rightarrow> uint64 \<Rightarrow> uint64 \<Rightarrow> nat \<Rightarrow> memory" where
  "safestrcpy_copy m s t 0 = m(s := 0)"
| "safestrcpy_copy m s t (Suc n) =
     (let c = m t; m' = m(s := c)
      in if c \<noteq> 0 then safestrcpy_copy m' (s + 1) (t + 1) n else m'(s + 1 := 0))"

definition safestrcpy :: "memory \<Rightarrow> uint64 \<Rightarrow> uint64 \<Rightarrow> int \<Rightarrow> memory" where
  "safestrcpy m s t n = (if n \<le> 0 then m else safestrcpy_copy m s t (nat (n - 1)))"

text \<open>\<open>strlen\<close> runs until it finds a NUL: \<open>None\<close> is the loop that never ends.\<close>

partial_function (option) strlen_from :: "(nat \<Rightarrow> uchar) \<Rightarrow> nat \<Rightarrow> nat option" where
  "strlen_from s n = (if s n = 0 then Some n else strlen_from s (Suc n))"

definition strlen :: "(nat \<Rightarrow> uchar) \<Rightarrow> nat option" where
  "strlen s = strlen_from s 0"

section \<open>Abstract views\<close>

text \<open>The bytes of a block, and the C string of at most \<open>n\<close> bytes at a pointer.\<close>

definition bytes_at :: "memory \<Rightarrow> uint64 \<Rightarrow> nat \<Rightarrow> uchar list" where
  "bytes_at m a n = map (\<lambda>i. m (a + of_nat i)) [0..<n]"

definition cstr :: "(nat \<Rightarrow> uchar) \<Rightarrow> nat \<Rightarrow> uchar list" where
  "cstr p n = takeWhile (\<lambda>c. c \<noteq> 0) (map p [0..<n])"

text \<open>The bytes \<open>strncpy\<close> produces: the string, padded with NULs to the full size.\<close>

definition strncpy_bytes :: "(nat \<Rightarrow> uchar) \<Rightarrow> nat \<Rightarrow> uchar list" where
  "strncpy_bytes t n = (let w = cstr t n in w @ replicate (n - length w) 0)"

text \<open>A byte list as a \<open>const char *\<close>.\<close>

definition rd :: "uchar list \<Rightarrow> nat \<Rightarrow> uchar" where
  "rd xs i = (if i < length xs then xs ! i else 0)"

section \<open>What the block routines write\<close>

lemma off_inj:
  "i < 2 ^ 64 \<Longrightarrow> j < 2 ^ 64 \<Longrightarrow> a + of_nat i = a + (of_nat j :: uint64) \<longleftrightarrow> i = j"
proof -
  assume "i < 2 ^ 64" "j < 2 ^ 64"
  then have "unat (of_nat i :: uint64) = i" "unat (of_nat j :: uint64) = j"
    by (simp_all add: unat_of_nat_less)
  then show ?thesis by (metis add_left_cancel)
qed

lemma off_unat: "n < 2 ^ 64 \<Longrightarrow> x = d + of_nat n \<longleftrightarrow> unat (x - d) = n" for x d :: uint64
proof
  assume "n < 2 ^ 64" "x = d + of_nat n"
  then show "unat (x - d) = n" by (simp add: unat_of_nat_less)
next
  assume "unat (x - d) = n"
  then have "of_nat n = x - d" by auto
  then show "x = d + of_nat n" by simp
qed

lemma off_less: "n \<le> 2 ^ 64 \<Longrightarrow> unat (x - d) < n \<longleftrightarrow> (\<exists>i<n. x = d + of_nat i)" for x d :: uint64
proof
  assume "n \<le> 2 ^ 64" "unat (x - d) < n"
  then show "\<exists>i<n. x = d + of_nat i" by (intro exI [of _ "unat (x - d)"]) simp
next
  assume "n \<le> 2 ^ 64" "\<exists>i<n. x = d + of_nat i"
  then obtain i where "i < n" "x = d + of_nat i" by blast
  then show "unat (x - d) < n" using \<open>n \<le> 2 ^ 64\<close> by (simp add: unat_of_nat_less)
qed

lemma fold_set_const:
  fixes d :: uint64
  assumes "n \<le> 2 ^ 64"
  shows "fold (\<lambda>i m. m(d + of_nat i := c)) [0..<n] m =
           (\<lambda>x. if unat (x - d) < n then c else m x)"
  using assms
proof (induction n)
  case 0
  then show ?case by simp
next
  case (Suc n)
  then have "x = d + of_nat n \<longleftrightarrow> unat (x - d) = n" for x by (intro off_unat) simp
  with Suc show ?case by (simp add: fun_eq_iff less_Suc_eq)
qed

lemma memset_eq: "memset m dst c n = (\<lambda>x. if unat (x - dst) < unat n then c else m x)"
  using unat32_less [of n] unfolding memset_def by (intro fold_set_const) simp

text \<open>
  A copy loop over the offsets \<open>is\<close> moves the block as it was at the start, provided no
  source byte is overwritten before it is read.
\<close>

lemma fold_copy:
  fixes d s :: uint64
  assumes "\<forall>i\<in>set is. i < 2 ^ 64" "sorted_wrt (\<lambda>j i. s + of_nat i \<noteq> d + of_nat j) is"
  shows "fold (\<lambda>i m. m(d + of_nat i := m (s + of_nat i))) is m =
           (\<lambda>x. if unat (x - d) \<in> set is then m (s + (x - d)) else m x)"
  using assms
proof (induction "is" rule: rev_induct)
  case Nil
  then show ?case by simp
next
  case (snoc i "is")
  have IH: "fold (\<lambda>i m. m(d + of_nat i := m (s + of_nat i))) is m =
      (\<lambda>x. if unat (x - d) \<in> set is then m (s + (x - d)) else m x)"
    using snoc.prems by (intro snoc.IH) (auto simp: sorted_wrt_append)
  have i: "i < 2 ^ 64" using snoc.prems(1) by simp
  have "unat (s + of_nat i - d) \<notin> set is"
    using snoc.prems(2) by (force simp: sorted_wrt_append)
  note src = this
  show ?case
  proof (rule ext)
    fix x
    show "fold (\<lambda>i m. m(d + of_nat i := m (s + of_nat i))) (is @ [i]) m x =
      (if unat (x - d) \<in> set (is @ [i]) then m (s + (x - d)) else m x)"
    proof (cases "unat (x - d) = i")
      case True
      then have "x = d + of_nat i" using off_unat [OF i] by blast
      with True src show ?thesis by (simp add: IH)
    next
      case False
      then have "x \<noteq> d + of_nat i" using off_unat [OF i] by blast
      with False show ?thesis by (simp add: IH)
    qed
  qed
qed

lemma unat_off:
  "unat a + unat n \<le> 2 ^ 64 \<Longrightarrow> i < unat n \<Longrightarrow> unat (a + of_nat i) = unat a + i"
  for a :: uint64 and n :: uint
proof -
  assume "unat a + unat n \<le> 2 ^ 64" "i < unat n"
  moreover from this have "unat (of_nat i :: uint64) = i"
    using unat32_less [of n] by (intro unat_of_nat_less) simp
  ultimately show ?thesis by (simp add: unat_word_ariths)
qed

lemma memmove_eq:
  assumes "unat src + unat n < 2 ^ 64" "unat dst + unat n \<le> 2 ^ 64"
  shows "memmove m dst src n =
           (\<lambda>x. if unat (x - dst) < unat n then m (src + (x - dst)) else m x)"
proof -
  have n: "\<forall>i\<in>set [0..<unat n]. i < 2 ^ 64" "\<forall>i\<in>set (rev [0..<unat n]). i < 2 ^ 64"
    using unat32_less [of n] by auto
  have fw: "copy_forward m dst src (unat n) = (\<lambda>x. if unat (x - dst) < unat n then m (src + (x - dst)) else m x)"
    if "\<not> (unat src < unat dst \<and> unat dst < unat src + unat n)"
  proof -
    have "src + of_nat i \<noteq> dst + of_nat j" if "j < i" "i < unat n" for i j
      using \<open>\<not> (unat src < _ \<and> _)\<close> that unat_off [OF less_imp_le [OF assms(1)], of i] unat_off [OF assms(2), of j]
      by (auto dest!: arg_cong [where f = unat])
    then have "sorted_wrt (\<lambda>j i. src + of_nat i \<noteq> dst + of_nat j) [0..<unat n]"
      by (intro sorted_wrt_mono_rel [OF _ sorted_wrt_upt]) auto
    then show ?thesis
      unfolding copy_forward_def using fold_copy [OF n(1)] by simp
  qed
  have bw: "copy_backward m dst src (unat n) = (\<lambda>x. if unat (x - dst) < unat n then m (src + (x - dst)) else m x)"
    if "unat src < unat dst"
  proof -
    have "src + of_nat i \<noteq> dst + of_nat j" if "i < j" "j < unat n" for i j
      using \<open>unat src < unat dst\<close> that unat_off [OF less_imp_le [OF assms(1)], of i] unat_off [OF assms(2), of j]
      by (auto dest!: arg_cong [where f = unat])
    then have "sorted_wrt (\<lambda>j i. src + of_nat i \<noteq> dst + of_nat j) (rev [0..<unat n])"
      unfolding sorted_wrt_rev by (intro sorted_wrt_mono_rel [OF _ sorted_wrt_upt]) auto
    then show ?thesis
      unfolding copy_backward_def using fold_copy [OF n(2)] by simp
  qed
  have "unat (ucast n :: uint64) = unat n"
    by (rule unat_ucast_32_64)
  then have "src + ucast n > dst \<longleftrightarrow> unat dst < unat src + unat n"
    using assms(1) by (simp add: word_less_nat_alt unat_word_ariths)
  then show ?thesis
    using fw bw by (auto simp: memmove_def word_less_nat_alt)
qed

lemma memcpy_eq:
  assumes "unat src + unat n < 2 ^ 64" "unat dst + unat n \<le> 2 ^ 64"
  shows "memcpy m dst src n =
           (\<lambda>x. if unat (x - dst) < unat n then m (src + (x - dst)) else m x)"
  unfolding memcpy_def using assms by (rule memmove_eq)

section \<open>What the string routines compute\<close>

lemma cstr_0 [simp]: "cstr p 0 = []"
  by (simp add: cstr_def)

lemma cstr_Suc: "cstr p (Suc n) = (if p 0 = 0 then [] else p 0 # cstr (\<lambda>i. p (Suc i)) n)"
  by (simp add: cstr_def upt_conv_Cons map_Suc_upt [symmetric] comp_def del: upt_Suc)

lemma cstr_length: "length (cstr p n) \<le> n"
  unfolding cstr_def using length_takeWhile_le [of _ "map p [0..<n]"] by simp

lemma cstr_no_nul: "0 \<notin> set (cstr p n)"
  unfolding cstr_def using set_takeWhileD by fastforce

lemma strncmp_eq_iff: "strncmp p q n = 0 \<longleftrightarrow> cstr p n = cstr q n"
  by (induction p q n rule: strncmp.induct) (auto simp: cstr_Suc unsigned_eq_0_iff word_uint_eq_iff [symmetric])

lemma memcmp_eq_iff: "memcmp p q n = 0 \<longleftrightarrow> (\<forall>i<n. p i = q i)"
proof (induction p q n rule: memcmp.induct)
  case (1 p q)
  then show ?case by simp
next
  case (2 p q n)
  then show ?case by (auto simp: All_less_Suc2 word_uint_eq_iff [symmetric])
qed

lemma strlen_from_eq:
  assumes "\<forall>j. n \<le> j \<and> j < k \<longrightarrow> s j \<noteq> 0" "n \<le> k" "s k = 0"
  shows "strlen_from s n = Some k"
  using assms(2,1)
proof (induction rule: inc_induct)
  case base
  then show ?case using assms(3) by (subst strlen_from.simps) simp
next
  case (step n)
  then show ?case by (subst strlen_from.simps) simp
qed

lemma strlen_eq: "(\<forall>j<k. s j \<noteq> 0) \<Longrightarrow> s k = 0 \<Longrightarrow> strlen s = Some k"
  unfolding strlen_def by (rule strlen_from_eq) auto

lemma unat_step: "unat (x - s) < Suc n \<longleftrightarrow> x = s \<or> unat (x - (s + 1)) < n" for x s :: uint64
proof (cases "x = s")
  case False
  then have "x - s \<noteq> 0" by simp
  then have "unat (x - s - 1) = unat (x - s) - 1" and "unat (x - s) \<noteq> 0"
    by (simp_all add: unat_minus_one unat_eq_0)
  with False show ?thesis by (auto simp: diff_diff_eq [symmetric])
qed simp

lemma unat_diff_Suc: "x \<noteq> s \<Longrightarrow> unat (x - s) = Suc (unat (x - (s + 1)))" for x s :: uint64
proof -
  assume "x \<noteq> s"
  then have "x - s \<noteq> 0" by simp
  then have "unat (x - s - 1) = unat (x - s) - 1" and "unat (x - s) \<noteq> 0"
    by (simp_all add: unat_minus_one unat_eq_0)
  then show ?thesis by (simp add: diff_diff_eq)
qed

lemma zero_fill_eq: "zero_fill m s n x = (if unat (x - s) < n then 0 else m x)"
proof (induction n arbitrary: m s)
  case 0
  then show ?case by simp
next
  case (Suc n)
  then show ?case by (simp add: unat_step)
qed

text \<open>Source and destination of a string copy do not overlap.\<close>

definition disjoint_blocks :: "uint64 \<Rightarrow> uint64 \<Rightarrow> nat \<Rightarrow> bool" where
  "disjoint_blocks s t n \<longleftrightarrow> (\<forall>i<n. \<forall>j<n. t + of_nat i \<noteq> s + of_nat j)"

lemma disjoint_blocks_Suc:
  assumes "disjoint_blocks s t (Suc n)"
  shows "disjoint_blocks (s + 1) (t + 1) n" "i < n \<Longrightarrow> t + 1 + of_nat i \<noteq> s"
proof -
  have *: "t + of_nat i \<noteq> s + of_nat j" if "i < Suc n" "j < Suc n" for i j
    using assms that by (simp add: disjoint_blocks_def)
  show "disjoint_blocks (s + 1) (t + 1) n"
    unfolding disjoint_blocks_def
  proof (intro allI impI)
    fix i j assume "i < n" "j < n"
    with * [of "Suc i" "Suc j"] show "t + 1 + of_nat i \<noteq> s + 1 + of_nat j"
      by (simp add: add.assoc)
  qed
  show "t + 1 + of_nat i \<noteq> s" if "i < n"
    using * [of "Suc i" 0] that by (simp add: add.assoc)
qed

lemma cstr_cong: "(\<And>i. i < n \<Longrightarrow> p i = q i) \<Longrightarrow> cstr p n = cstr q n"
  unfolding cstr_def by (rule arg_cong [where f = "takeWhile _"]) auto

lemma strncpy_bytes_length [simp]: "length (strncpy_bytes t n) = n"
  using cstr_length [of t n] by (simp add: strncpy_bytes_def Let_def)

lemma strncpy_bytes_cong: "(\<And>i. i < n \<Longrightarrow> p i = q i) \<Longrightarrow> strncpy_bytes p n = strncpy_bytes q n"
  unfolding strncpy_bytes_def using cstr_cong [of n p q] by simp

lemma strncpy_bytes_Suc:
  "strncpy_bytes t (Suc n) =
     (if t 0 = 0 then replicate (Suc n) 0 else t 0 # strncpy_bytes (\<lambda>i. t (Suc i)) n)"
  by (simp add: strncpy_bytes_def cstr_Suc Let_def)

lemma cstr_strncpy_bytes: "cstr (rd (strncpy_bytes t n)) n = cstr t n"
proof -
  have "map (rd xs) [0..<length xs] = xs" for xs :: "uchar list"
    by (rule nth_equalityI) (simp_all add: rd_def)
  from this [of "strncpy_bytes t n"]
  have "cstr (rd (strncpy_bytes t n)) n = takeWhile (\<lambda>c. c \<noteq> 0) (strncpy_bytes t n)"
    by (simp add: cstr_def)
  also have "\<dots> = cstr t n"
    using cstr_no_nul [of t n] unfolding strncpy_bytes_def Let_def
    by (subst takeWhile_append2) (auto simp: takeWhile_replicate)
  finally show ?thesis .
qed

lemma strncpy_copy_eq:
  assumes "disjoint_blocks s t n" "n < 2 ^ 64"
  shows "strncpy_copy m s t n x =
    (if unat (x - s) < n then strncpy_bytes (\<lambda>i. m (t + of_nat i)) n ! unat (x - s) else m x)"
  using assms
proof (induction n arbitrary: m s t)
  case 0
  then show ?case by simp
next
  case (Suc n)
  define m' where "m' = m(s := m t)"
  note d = disjoint_blocks_Suc [OF Suc.prems(1)]
  show ?case
  proof (cases "m t = 0")
    case True
    then show ?thesis
      by (cases "x = s") (simp_all add: Let_def zero_fill_eq unat_step strncpy_bytes_Suc unat_diff_Suc)
  next
    case False
    have "strncpy_bytes (\<lambda>i. m' (t + 1 + of_nat i)) n = strncpy_bytes (\<lambda>i. m (t + of_nat (Suc i))) n"
      using d(2) by (intro strncpy_bytes_cong) (simp add: m'_def add.assoc)
    moreover have "strncpy_copy m s t (Suc n) x = strncpy_copy m' (s + 1) (t + 1) n x"
      using False by (simp add: Let_def m'_def)
    moreover have "m' x = (if x = s then m t else m x)" by (simp add: m'_def)
    moreover have "\<not> unat (-1 :: uint64) < n" "n < 2 ^ 64" using Suc.prems(2) by simp_all
    ultimately show ?thesis
      using False Suc.IH [OF d(1), of m']
      by (cases "x = s") (simp_all add: unat_step strncpy_bytes_Suc unat_diff_Suc)
  qed
qed

text \<open>\<open>safestrcpy\<close> leaves a terminated string: the source, cut to \<open>n - 1\<close> bytes.\<close>

lemma safestrcpy_outside:
  "n < 2 ^ 64 - 1 \<Longrightarrow> \<not> unat (x - s) < Suc n \<Longrightarrow> safestrcpy_copy m s t n x = m x"
proof (induction n arbitrary: m s t)
  case 0
  then have "x \<noteq> s" by auto
  then show ?case by simp
next
  case (Suc n)
  then have "x \<noteq> s" by auto
  with Suc.prems have o: "\<not> unat (x - (s + 1)) < Suc n" by (simp add: unat_diff_Suc)
  then have "x \<noteq> s + 1" by auto
  with \<open>x \<noteq> s\<close> o Suc show ?case by (auto simp: Let_def)
qed

lemma safestrcpy_string:
  assumes "disjoint_blocks s t (Suc n)" "Suc n < 2 ^ 64"
  shows "cstr (\<lambda>i. safestrcpy_copy m s t n (s + of_nat i)) (Suc n) = cstr (\<lambda>i. m (t + of_nat i)) n"
  using assms
proof (induction n arbitrary: m s t)
  case 0
  then show ?case by (simp add: cstr_def)
next
  case (Suc n)
  define m' where "m' = m(s := m t)"
  note d = disjoint_blocks_Suc [OF Suc.prems(1)]
  show ?case
  proof (cases "m t = 0")
    case True
    then show ?thesis by (simp add: cstr_Suc Let_def)
  next
    case False
    have "\<not> unat (s - (s + 1)) < Suc n" using Suc.prems(2) by simp
    then have "safestrcpy_copy m' (s + 1) (t + 1) n s = m' s"
      using Suc.prems(2) by (intro safestrcpy_outside) simp_all
    moreover have "cstr (\<lambda>i. m' (t + 1 + of_nat i)) n = cstr (\<lambda>i. m (t + of_nat (Suc i))) n"
      using d(2) by (intro cstr_cong) (simp add: m'_def add.assoc)
    ultimately show ?thesis
      using False Suc.IH [OF d(1), of m'] Suc.prems(2)
      by (simp add: cstr_Suc [of _ "Suc n"] cstr_Suc [of _ n] Let_def m'_def [symmetric] add.assoc)
        (simp add: m'_def)
  qed
qed

section \<open>Properties\<close>

text \<open>
  C25: \<open>memmove\<close> copies correctly even when the two blocks overlap, in either direction:
  afterwards the destination holds what the source block held before the call, and no
  byte outside the destination has changed.
\<close>

theorem memmove_correct:
  assumes "unat src + unat n < 2 ^ 64" "unat dst + unat n \<le> 2 ^ 64"
  shows "bytes_at (memmove m dst src n) dst (unat n) = bytes_at m src (unat n) \<and>
         (\<forall>x. \<not> unat (x - dst) < unat n \<longrightarrow> memmove m dst src n x = m x)"
proof -
  have "unat (of_nat i :: uint64) = i" if "i < unat n" for i
    using that unat32_less [of n] by (intro unat_of_nat_less) simp
  then show ?thesis
    unfolding memmove_eq [OF assms] by (simp add: bytes_at_def)
qed

theorem memmove_correct_witness:
  "bytes_at (memmove (\<lambda>a. ucast a) 102 100 5) 102 5 = [100, 101, 102, 103, 104]"
  using memmove_correct [of 100 5 102 "\<lambda>a. ucast a"]
  by (simp add: bytes_at_def upt_rec unat_ucast_32_64)

text \<open>
  C26: directory-name comparison.  Storing a name with \<open>strncpy\<close> into a field of \<open>n\<close> bytes
  and reading it back gives the name cut at \<open>n\<close> bytes or at its NUL, and \<open>strncmp\<close> with
  the field as one argument is 0 exactly for names with that same prefix.
\<close>

theorem strncpy_strncmp_roundtrip:
  assumes "disjoint_blocks s t (nat n)" "0 \<le> n" "n < 2 ^ 31"
  shows "cstr (\<lambda>i. strncpy m s t n (s + of_nat i)) (nat n) = cstr (\<lambda>i. m (t + of_nat i)) (nat n) \<and>
         (strncmp q (\<lambda>i. strncpy m s t n (s + of_nat i)) (nat n) = 0 \<longleftrightarrow>
            cstr q (nat n) = cstr (\<lambda>i. m (t + of_nat i)) (nat n))"
proof -
  let ?N = "nat n" and ?w = "cstr (\<lambda>i. m (t + of_nat i)) (nat n)"
  have N: "?N < 2 ^ 64" using assms(2,3) by simp
  have "cstr (\<lambda>i. strncpy m s t n (s + of_nat i)) ?N = cstr (rd (strncpy_bytes (\<lambda>i. m (t + of_nat i)) ?N)) ?N"
  proof (rule cstr_cong)
    fix i assume "i < ?N"
    moreover from this N have "unat (of_nat i :: uint64) = i" by (intro unat_of_nat_less) simp
    ultimately show "strncpy m s t n (s + of_nat i) = rd (strncpy_bytes (\<lambda>i. m (t + of_nat i)) ?N) i"
      by (simp add: strncpy_def strncpy_copy_eq [OF assms(1) N] rd_def)
  qed
  also have "\<dots> = ?w"
    by (rule cstr_strncpy_bytes)
  finally show ?thesis by (simp add: strncmp_eq_iff)
qed

theorem strncpy_strncmp_roundtrip_witness:
  "strncmp (rd [104, 105]) (\<lambda>i. strncpy (\<lambda>a. if a = 100 then 104 else if a = 101 then 105 else 0) 200 100 3 (200 + of_nat i)) (nat 3) = 0"
proof -
  have "disjoint_blocks 200 100 (nat 3)"
    by (auto simp: disjoint_blocks_def numeral_3_eq_3 less_Suc_eq)
  from strncpy_strncmp_roundtrip [OF this,
      of "\<lambda>a. if a = 100 then 104 else if a = 101 then 105 else 0" "rd [104, 105]"]
  show ?thesis by (simp add: cstr_def rd_def upt_rec)
qed

end
