(* ===== verification/Kalloc.thy ===== *)
theory Kalloc
  imports Spinlock CString
begin

unbundle bit_operations_syntax

text \<open>
  The physical page allocator (\<open>kernel/kalloc.c\<close>).  The free list is threaded through
  the free pages themselves: the first eight bytes of a free page hold the address of the
  next one.  \<open>kend\<close> is the linker symbol \<open>end\<close>, the first address after the kernel.
\<close>

section \<open>State and operations\<close>

record kmem_state = spin +
  kend :: uint64
  freelist :: uint64

definition kfree :: "uint64 \<Rightarrow> (unit, 'a kmem_state_scheme) K" where
  "kfree pa =
     kbind (kget kend) (\<lambda>end.
     if pa mod PGSIZE \<noteq> 0 \<or> pa < end \<or> PHYSTOP \<le> pa then kpanic ''kfree''
     else
       kbind (kmod (\<lambda>s. s\<lparr>mem := memset (mem s) pa 1 4096\<rparr>)) (\<lambda>_.
       kbind (acquire KmemLock) (\<lambda>_.
       kbind (kseq [
         kmod (\<lambda>s. s\<lparr>mem := store64 (mem s) pa (freelist s)\<rparr>),
         kmod (\<lambda>s. s\<lparr>freelist := pa\<rparr>)]) (\<lambda>_.
       release KmemLock))))"

definition kalloc :: "(uint64, 'a kmem_state_scheme) K" where
  "kalloc =
     kbind (acquire KmemLock) (\<lambda>_.
     kbind (kbind (kget freelist) (\<lambda>r.
            kbind (kwhen (r \<noteq> 0) (kmod (\<lambda>s. s\<lparr>freelist := load64 (mem s) r\<rparr>))) (\<lambda>_. kret r))) (\<lambda>r.
     kbind (release KmemLock) (\<lambda>_.
     kbind (kwhen (r \<noteq> 0) (kmod (\<lambda>s. s\<lparr>mem := memset (mem s) r 5 4096\<rparr>))) (\<lambda>_.
     kret r))))"

definition freerange :: "uint64 \<Rightarrow> uint64 \<Rightarrow> (unit, 'a kmem_state_scheme) K" where
  "freerange pa_start pa_end =
     kloop (\<lambda>p. if p + PGSIZE \<le> pa_end then kbind (kfree p) (\<lambda>_. kret (Inl (p + PGSIZE)))
                 else kret (Inr ()))
       (PGROUNDUP pa_start)"

definition kinit :: "(unit, 'a kmem_state_scheme) K" where
  "kinit =
     kbind (initlock KmemLock ''kmem'') (\<lambda>_.
     kbind (kget kend) (\<lambda>end. freerange end PHYSTOP))"

section \<open>The free list\<close>

definition kpage :: "'a kmem_state_scheme \<Rightarrow> uint64 \<Rightarrow> bool" where
  "kpage s p \<longleftrightarrow> pg_aligned p \<and> kend s \<le> p \<and> p < PHYSTOP"

fun chain :: "memory \<Rightarrow> uint64 \<Rightarrow> uint64 list \<Rightarrow> bool" where
  "chain m a [] \<longleftrightarrow> a = 0"
| "chain m a (p # ps) \<longleftrightarrow> a = p \<and> chain m (load64 m p) ps"

text \<open>\<open>kmem_inv s ps\<close>: the free list of \<open>s\<close> is \<open>ps\<close>, without repetition, all of it allocatable pages.\<close>

definition kmem_inv :: "'a kmem_state_scheme \<Rightarrow> uint64 list \<Rightarrow> bool" where
  "kmem_inv s ps \<longleftrightarrow>
     chain (mem s) (freelist s) ps \<and> distinct ps \<and> list_all (kpage s) ps \<and> 0 < kend s"

lemma chain_cong: "(\<And>p. p \<in> set ps \<Longrightarrow> load64 m p = load64 m' p) \<Longrightarrow> chain m a ps = chain m' a ps"
  by (induction ps arbitrary: a) auto

lemma chain_unique: "chain m a ps \<Longrightarrow> chain m a qs \<Longrightarrow> 0 \<notin> set ps \<Longrightarrow> 0 \<notin> set qs \<Longrightarrow> ps = qs"
proof (induction ps arbitrary: a qs)
  case Nil
  then show ?case by (cases qs) auto
next
  case (Cons p ps)
  then show ?case by (cases qs) auto
qed

lemma kpage_nonzero: "0 < kend s \<Longrightarrow> kpage s p \<Longrightarrow> p \<noteq> 0"
  by (auto simp: kpage_def)

lemma page_gap:
  assumes "pg_aligned p" "pg_aligned q" "unat p \<le> unat q" "unat q < unat p + 4096"
  shows "q = p"
proof -
  have "4096 dvd unat q - unat p"
    using assms(1,2) by (simp add: pg_aligned_unat dvd_diff_nat)
  with assms(3,4) have "unat q = unat p" by (auto dest: dvd_imp_le)
  then show ?thesis by (simp only: word_unat_eq_iff)
qed

text \<open>Writing inside one page does not touch another.\<close>

definition same_outside :: "uint64 \<Rightarrow> memory \<Rightarrow> memory \<Rightarrow> bool" where
  "same_outside p m m' \<longleftrightarrow> (\<forall>x. PGROUNDDOWN x \<noteq> p \<longrightarrow> m' x = m x)"

lemma same_outside_trans: "same_outside p m m1 \<Longrightarrow> same_outside p m1 m2 \<Longrightarrow> same_outside p m m2"
  by (simp add: same_outside_def)

lemma same_outside_memset: "pg_aligned p \<Longrightarrow> same_outside p m (memset m p c 4096)"
  by (simp add: same_outside_def memset_eq PGROUNDDOWN_eq_iff)

lemma same_outside_store64: "pg_aligned p \<Longrightarrow> same_outside p m (store64 m p v)"
  by (auto simp: same_outside_def store64_def PGROUNDDOWN_eq_iff)

lemma PGROUNDDOWN_off: "pg_aligned q \<Longrightarrow> i < 4096 \<Longrightarrow> PGROUNDDOWN (q + of_nat i) = q"
  by (simp add: PGROUNDDOWN_eq_iff unat_of_nat_less)

lemma load64_other_page:
  "same_outside p m m' \<Longrightarrow> pg_aligned q \<Longrightarrow> q \<noteq> p \<Longrightarrow> load64 m' q = load64 m q"
  by (rule load64_cong) (simp add: same_outside_def PGROUNDDOWN_off)

section \<open>What the operations do\<close>

definition kfreed :: "uint64 \<Rightarrow> 'a kmem_state_scheme \<Rightarrow> 'a kmem_state_scheme" where
  "kfreed p s = s\<lparr>mem := store64 (memset (mem s) p 1 4096) p (freelist s), freelist := p\<rparr>"

definition kpopped :: "'a kmem_state_scheme \<Rightarrow> 'a kmem_state_scheme" where
  "kpopped s = (if freelist s = 0 then s
     else s\<lparr>mem := memset (mem s) (freelist s) 5 4096, freelist := load64 (mem s) (freelist s)\<rparr>)"

text \<open>The hart may take the allocator's lock.\<close>

definition kmem_ready :: "'a kmem_state_scheme \<Rightarrow> bool" where
  "kmem_ready s \<longleftrightarrow> intr_ok s \<and> lock_clean s KmemLock"

lemma kmem_ready_settle [simp]: "kmem_ready (settle s) = kmem_ready s"
  by (simp add: kmem_ready_def lock_clean_def)

lemma settle_kmem [simp]: "kend (settle s) = kend s" "freelist (settle s) = freelist s"
  by (simp_all add: settle_def)

lemma cs_comm_mem: "cs_comm (\<lambda>s. s\<lparr>mem := f (mem s)\<rparr>)"
  by (simp add: cs_comm_def spin.splits)

lemma cs_comm_kmem: "cs_comm (\<lambda>s :: 'a kmem_state_scheme. s\<lparr>mem := f (mem s) (freelist s), freelist := g (mem s) (freelist s)\<rparr>)"
  by (simp add: cs_comm_def kmem_state.splits)

lemma kfree_panics [k_run]:
  "\<not> kpage s p \<Longrightarrow> kfree p s e = (Panic ''kfree'', s, e)"
  unfolding kpage_def pg_aligned_def
  by (cases "p mod PGSIZE = 0") (auto simp: kfree_def kpanic_run not_le)

lemma kfree_run [k_run]:
  assumes "kpage s p" "kmem_ready s"
  shows "kfree p s e = (Ret (), settle (kfreed p s), e)"
proof -
  let ?s = "s\<lparr>mem := memset (mem s) p 1 4096\<rparr>"
  have "\<not> p < kend s" "\<not> PHYSTOP \<le> p" "p mod PGSIZE = 0"
    using assms(1) by (simp_all add: kpage_def pg_aligned_def not_le not_less)
  then have "kfree p s e = kbind (acquire KmemLock) (\<lambda>_. kbind (kseq [
         kmod (\<lambda>s. s\<lparr>mem := store64 (mem s) p (freelist s)\<rparr>),
         kmod (\<lambda>s. s\<lparr>freelist := p\<rparr>)]) (\<lambda>_. release KmemLock)) ?s e"
    by (simp add: kfree_def)
  also have "\<dots> = (Ret (), settle (?s\<lparr>mem := store64 (mem ?s) p (freelist ?s), freelist := p\<rparr>), e)"
    using assms(2)
    by (intro cs_run_unit [where u = "\<lambda>s. s\<lparr>mem := store64 (mem s) p (freelist s), freelist := p\<rparr>"])
      (simp_all add: kmem_ready_def intr_ok_def noff_def sie_on_def lock_clean_def kret_run
        cs_comm_kmem [where f = "\<lambda>m f. store64 m p f" and g = "\<lambda>_ _. p"])
  finally show ?thesis by (simp add: kfreed_def)
qed

lemma kalloc_run [k_run]:
  assumes "kmem_ready s"
  shows "kalloc s e = (Ret (freelist s), settle (kpopped s), e)"
proof -
  let ?u = "\<lambda>s. if freelist s = 0 then s else s\<lparr>freelist := load64 (mem s) (freelist s)\<rparr>"
  have "cs_comm ?u" by (simp add: cs_comm_def kmem_state.splits)
  then have "kalloc s e = kbind (kwhen (freelist s \<noteq> 0) (kmod (\<lambda>t. t\<lparr>mem := memset (mem t) (freelist s) 5 4096\<rparr>)))
      (\<lambda>_. kret (freelist s)) (settle (?u s)) e"
    unfolding kalloc_def using assms
    by (subst cs_run [where u = ?u]) (auto simp: kmem_ready_def kret_run acquired_def pushed_def)
  also have "\<dots> = (Ret (freelist s), settle (kpopped s), e)"
    by (cases s) (simp add: kpopped_def kret_run settle_def noff_def sie_on_def)
  finally show ?thesis .
qed

lemma kfreed_inv:
  assumes "kmem_inv s ps" "kpage s p" "p \<notin> set ps"
  shows "kmem_inv (kfreed p s) (p # ps)" "same_outside p (mem s) (mem (kfreed p s))"
proof -
  have al: "pg_aligned p" "\<And>q. q \<in> set ps \<Longrightarrow> pg_aligned q"
    using assms by (auto simp: kmem_inv_def kpage_def list_all_iff)
  show same: "same_outside p (mem s) (mem (kfreed p s))"
    using same_outside_trans [OF same_outside_memset same_outside_store64] al(1)
    by (simp add: kfreed_def)
  have "chain (mem (kfreed p s)) (freelist s) ps"
    using assms al chain_cong [of ps "mem s" "mem (kfreed p s)"] load64_other_page [OF same]
    by (force simp: kmem_inv_def)
  then show "kmem_inv (kfreed p s) (p # ps)"
    using assms by (auto simp: kmem_inv_def kfreed_def kpage_def list_all_iff)
qed

lemma kpopped_inv:
  assumes "kmem_inv s (p # ps)"
  shows "freelist s = p" "p \<noteq> 0" "kpage s p" "p \<notin> set ps"
    "kmem_inv (kpopped s) ps" "same_outside p (mem s) (mem (kpopped s))"
proof -
  show f: "freelist s = p" and k: "kpage s p" and d: "p \<notin> set ps"
    using assms by (auto simp: kmem_inv_def)
  show z: "p \<noteq> 0" using k assms kpage_nonzero by (auto simp: kmem_inv_def)
  show same: "same_outside p (mem s) (mem (kpopped s))"
    using k f z by (simp add: kpopped_def same_outside_memset kpage_def)
  have "\<And>q. q \<in> set ps \<Longrightarrow> pg_aligned q"
    using assms by (auto simp: kmem_inv_def kpage_def list_all_iff)
  then have "chain (mem (kpopped s)) (load64 (mem s) p) ps"
    using assms d chain_cong [of ps "mem s" "mem (kpopped s)"] load64_other_page [OF same]
    by (force simp: kmem_inv_def)
  then show "kmem_inv (kpopped s) ps"
    using assms f z by (auto simp: kmem_inv_def kpopped_def kpage_def list_all_iff)
qed

section \<open>Initialisation\<close>

text \<open>
  \<open>freerange\<close> up to \<open>PHYSTOP\<close>: with \<open>k\<close> pages to go, the loop puts exactly those
  pages in front of the list.
\<close>

abbreviation (input) freerange_body :: "uint64 \<Rightarrow> uint64 \<Rightarrow> (uint64 + unit, 'a kmem_state_scheme) K" where
  "freerange_body pa_end \<equiv> (\<lambda>p. if p + PGSIZE \<le> pa_end then kbind (kfree p) (\<lambda>_. kret (Inl (p + PGSIZE)))
                 else kret (Inr ()))"

lemma kfreed_frame [simp]:
  "kend (kfreed p s) = kend s" "kmem_ready (kfreed p s) = kmem_ready s" "locks (kfreed p s) = locks s"
  "freelist (kfreed p s) = p" "kpage (kfreed p s) = kpage s"
  by (simp_all add: kfreed_def kmem_ready_def intr_ok_def lock_clean_def noff_def sie_on_def kpage_def fun_eq_iff)

lemma kmem_inv_settle [simp]: "kmem_inv (settle s) = kmem_inv s" "kpage (settle s) = kpage s"
  by (simp_all add: kmem_inv_def kpage_def fun_eq_iff list_all_iff)

lemma freerange_loop:
  assumes "kmem_inv s ps" "kmem_ready s" "pg_aligned p" "kend s \<le> p" "unat p + 4096 * k = unat PHYSTOP"
    and "\<forall>q\<in>set ps. q < p"
  shows "\<exists>s' qs. kloop (freerange_body PHYSTOP) p s e = (Ret (), s', e) \<and> kmem_inv s' (qs @ ps) \<and>
      kmem_ready s' \<and> kend s' = kend s \<and> (\<forall>q. q \<in> set qs \<longleftrightarrow> pg_aligned q \<and> p \<le> q \<and> q < PHYSTOP)"
  using assms
proof (induction k arbitrary: s ps p)
  case 0
  then have "p = PHYSTOP" by (simp add: word_unat_eq_iff)
  then have "kloop (freerange_body PHYSTOP) p s e = (Ret (), s, e)"
    by (intro kloop_step_Inr) (simp add: kret_run)
  with 0 \<open>p = PHYSTOP\<close> show ?case
    by (intro exI [of _ s] exI [of _ "[]"]) auto
next
  case (Suc k)
  have up: "unat p < unat PHYSTOP" "unat p + 4096 \<le> unat PHYSTOP" using Suc.prems(5) by auto
  then have un: "unat (p + PGSIZE) = unat p + 4096"
    by (simp add: unat_word_ariths)
  have kp: "kpage s p" and nin: "p \<notin> set ps"
    using Suc.prems up by (auto simp: kpage_def word_less_nat_alt)
  let ?s = "settle (kfreed p s)"
  have step: "freerange_body PHYSTOP p s e = (Ret (Inl (p + PGSIZE)), ?s, e)"
    using up un kp Suc.prems(2) by (simp add: word_le_nat_alt kbind_def kfree_run kret_run)
  have "kmem_inv ?s (p # ps)" using kfreed_inv(1) [OF Suc.prems(1) kp nin] by simp
  moreover have "\<forall>q\<in>set (p # ps). q < p + PGSIZE" "kend ?s \<le> p + PGSIZE" "unat (p + PGSIZE) + 4096 * k = unat PHYSTOP"
    using Suc.prems un by (auto simp: word_less_nat_alt word_le_nat_alt)
  moreover have "pg_aligned (p + PGSIZE)" using Suc.prems(3) pg_aligned_add by simp
  ultimately obtain s' qs where IH: "kloop (freerange_body PHYSTOP) (p + PGSIZE) ?s e = (Ret (), s', e)"
    "kmem_inv s' (qs @ p # ps)" "kmem_ready s'" "kend s' = kend s"
    "\<forall>q. q \<in> set qs \<longleftrightarrow> pg_aligned q \<and> p + PGSIZE \<le> q \<and> q < PHYSTOP"
    using Suc.IH [of ?s "p # ps" "p + PGSIZE"] Suc.prems(2) by auto
  have "kloop (freerange_body PHYSTOP) p s e = (Ret (), s', e)"
    using kloop_step_Inl [where b = "freerange_body PHYSTOP", OF step IH(1)] .
  moreover have "q \<in> set (qs @ [p]) \<longleftrightarrow> pg_aligned q \<and> p \<le> q \<and> q < PHYSTOP" for q
  proof (cases "q = p")
    case True
    then show ?thesis using Suc.prems(3) up by (simp add: word_less_nat_alt)
  next
    case False
    then have "p \<le> q \<longleftrightarrow> p + PGSIZE \<le> q" if "pg_aligned q"
      using page_gap [OF Suc.prems(3) that] un unfolding word_le_nat_alt by linarith
    then show ?thesis using False IH(5) by auto
  qed
  ultimately show ?case
    using IH by (intro exI [of _ s'] exI [of _ "qs @ [p]"]) auto
qed

lemma PGROUNDUP_least:
  assumes "unat a + 4095 < 2 ^ 64" "pg_aligned q"
  shows "a \<le> q \<longleftrightarrow> PGROUNDUP a \<le> q"
proof -
  obtain k where k: "unat q = 4096 * k" using assms(2) by (auto simp: pg_aligned_unat)
  have "unat a \<le> 4096 * k \<longleftrightarrow> (unat a + 4095) div 4096 * 4096 \<le> 4096 * k" by auto
  then show ?thesis
    unfolding word_le_nat_alt unat_PGROUNDUP [OF assms(1)] k .
qed

lemma kinit_run:
  assumes "intr_ok s" "freelist s = 0" "0 < kend s" "kend s \<le> PHYSTOP"
  shows "\<exists>s' ps. kinit s e = (Ret (), s', e) \<and> kmem_inv s' ps \<and> kmem_ready s' \<and> kend s' = kend s \<and>
           set ps = {p. kpage s p}"
proof -
  let ?s = "s\<lparr>locks := (locks s)(KmemLock := \<lparr>lk_locked = False, lk_name = ''kmem'', lk_cpu = None\<rparr>)\<rparr>"
  have small: "unat (kend s) \<le> 2281701376" using assms(4) by (simp add: word_le_nat_alt)
  then have up: "unat (PGROUNDUP (kend s)) = (unat (kend s) + 4095) div 4096 * 4096"
    by (intro unat_PGROUNDUP) simp
  have least: "kend s \<le> q \<longleftrightarrow> PGROUNDUP (kend s) \<le> q" if "pg_aligned q" for q
    using small that by (intro PGROUNDUP_least) simp_all
  have "unat (PGROUNDUP (kend s)) + 4096 * (557056 - (unat (kend s) + 4095) div 4096) = unat PHYSTOP"
    using small by (simp add: up)
  moreover have "kmem_inv ?s []" "kmem_ready ?s"
    using assms by (simp_all add: kmem_inv_def kmem_ready_def intr_ok_def noff_def sie_on_def lock_clean_def)
  moreover have "kend ?s \<le> PGROUNDUP (kend s)" using least [of "PGROUNDUP (kend s)"] by simp
  ultimately obtain s' qs where "kloop (freerange_body PHYSTOP) (PGROUNDUP (kend s)) ?s e = (Ret (), s', e)"
    "kmem_inv s' qs" "kmem_ready s'" "kend s' = kend s"
    "\<forall>q. q \<in> set qs \<longleftrightarrow> pg_aligned q \<and> PGROUNDUP (kend s) \<le> q \<and> q < PHYSTOP"
    using freerange_loop [of ?s "[]" "PGROUNDUP (kend s)" "557056 - (unat (kend s) + 4095) div 4096" e] by auto
  moreover from this(5) have "set qs = {p. kpage s p}"
    using least by (auto simp: kpage_def)
  ultimately show ?thesis
    by (intro exI [of _ s'] exI [of _ qs]) (simp add: kinit_def initlock_def freerange_def)
qed

section \<open>The allocator as an interface\<close>

text \<open>
  What the clients of the allocator rely on: \<open>free\<close> is the set of pages that may be
  handed out; \<open>alloc\<close> takes one out, \<open>dealloc\<close> puts one back, and neither
  touches memory outside that page.
\<close>

locale page_allocator =
  fixes ok :: "'s \<Rightarrow> bool" and free :: "'s \<Rightarrow> uint64 set" and valid :: "'s \<Rightarrow> uint64 \<Rightarrow> bool"
    and view :: "'s \<Rightarrow> memory" and alloc :: "(uint64, 's) K" and dealloc :: "uint64 \<Rightarrow> (unit, 's) K"
  assumes free_valid: "ok s \<Longrightarrow> p \<in> free s \<Longrightarrow> valid s p \<and> pg_aligned p \<and> p \<noteq> 0"
    and free_finite: "ok s \<Longrightarrow> finite (free s)"
    and alloc_none: "ok s \<Longrightarrow> free s = {} \<Longrightarrow>
      \<exists>s'. alloc s e = (Ret 0, s', e) \<and> ok s' \<and> free s' = {} \<and> view s' = view s \<and> valid s' = valid s"
    and alloc_some: "ok s \<Longrightarrow> free s \<noteq> {} \<Longrightarrow>
      \<exists>p s'. alloc s e = (Ret p, s', e) \<and> p \<in> free s \<and> ok s' \<and> free s' = free s - {p} \<and>
        same_outside p (view s) (view s') \<and> valid s' = valid s"
    and dealloc_some: "ok s \<Longrightarrow> valid s p \<Longrightarrow> p \<notin> free s \<Longrightarrow>
      \<exists>s'. dealloc p s e = (Ret (), s', e) \<and> ok s' \<and> free s' = insert p (free s) \<and>
        same_outside p (view s) (view s') \<and> valid s' = valid s"
begin

text \<open>Repeated allocation never hands out a page twice and fails only when no page is left.\<close>

lemma alloc_many:
  "ok s \<Longrightarrow> n \<le> card (free s) \<Longrightarrow>
   \<exists>ps s'. kmany n alloc s e = (Ret ps, s', e) \<and> ok s' \<and> length ps = n \<and> distinct ps \<and>
     set ps \<subseteq> free s \<and> free s' = free s - set ps \<and> (\<forall>x. PGROUNDDOWN x \<notin> set ps \<longrightarrow> view s' x = view s x)"
proof (induction n arbitrary: s)
  case 0
  then show ?case by (intro exI [of _ "[]"] exI [of _ s]) (simp add: kret_run)
next
  case (Suc n)
  then have "free s \<noteq> {}" by auto
  then obtain p s1 where p: "alloc s e = (Ret p, s1, e)" "p \<in> free s" "ok s1" "free s1 = free s - {p}"
      "same_outside p (view s) (view s1)"
    using alloc_some [OF Suc.prems(1), of e] by blast
  moreover from p Suc.prems have "n \<le> card (free s1)" using free_finite [of s] by simp
  ultimately obtain ps s' where IH: "kmany n alloc s1 e = (Ret ps, s', e)" "ok s'" "length ps = n" "distinct ps"
      "set ps \<subseteq> free s1" "free s' = free s1 - set ps"
      "\<forall>x. PGROUNDDOWN x \<notin> set ps \<longrightarrow> view s' x = view s1 x"
    using Suc.IH [of s1] by blast
  then show ?case
    using p by (intro exI [of _ "p # ps"] exI [of _ s']) (auto simp: kbind_def kret_run same_outside_def)
qed

text \<open>Giving a page back makes it available again and leaves the other pages alone.\<close>

lemma alloc_dealloc:
  assumes "ok s" "free s \<noteq> {}"
  shows "\<exists>p s1 s2. alloc s e = (Ret p, s1, e) \<and> dealloc p s1 e = (Ret (), s2, e) \<and> ok s2 \<and>
      free s2 = free s \<and> same_outside p (view s) (view s2)"
proof -
  obtain p s1 where a: "alloc s e = (Ret p, s1, e)" "p \<in> free s" "ok s1" "free s1 = free s - {p}"
      "same_outside p (view s) (view s1)" "valid s1 = valid s"
    using alloc_some [OF assms] by blast
  moreover obtain s2 where "dealloc p s1 e = (Ret (), s2, e)" "ok s2" "free s2 = insert p (free s1)"
      "same_outside p (view s1) (view s2)"
    using dealloc_some [of s1 p e] a free_valid [OF assms(1), of p] by auto
  ultimately show ?thesis
    using same_outside_trans [of p "view s" "view s1" "view s2"] by (auto intro!: exI)
qed

end

definition free_pages :: "'a kmem_state_scheme \<Rightarrow> uint64 set" where
  "free_pages s = {p. \<exists>ps. kmem_inv s ps \<and> p \<in> set ps}"

definition kmem_ok :: "'a kmem_state_scheme \<Rightarrow> bool" where
  "kmem_ok s \<longleftrightarrow> kmem_ready s \<and> (\<exists>ps. kmem_inv s ps)"

lemma kmem_inv_unique: "kmem_inv s ps \<Longrightarrow> kmem_inv s qs \<Longrightarrow> ps = qs"
  unfolding kmem_inv_def
  using chain_unique [of "mem s" "freelist s" ps qs] kpage_nonzero [of s 0] by (auto simp: list_all_iff)

lemma free_pages_eq: "kmem_inv s ps \<Longrightarrow> free_pages s = set ps"
  unfolding free_pages_def using kmem_inv_unique [of s ps] by blast

lemma kpopped_frame [simp]: "kend (kpopped s) = kend s" "kmem_ready (kpopped s) = kmem_ready s"
  by (simp_all add: kpopped_def kmem_ready_def intr_ok_def lock_clean_def noff_def sie_on_def)

interpretation ka: page_allocator kmem_ok free_pages kpage mem kalloc kfree
proof
  fix s :: "'a kmem_state_scheme" and p e
  assume ok: "kmem_ok s"
  then obtain ps where inv: "kmem_inv s ps" and rdy: "kmem_ready s" by (auto simp: kmem_ok_def)
  note free = free_pages_eq [OF inv]
  show "finite (free_pages s)" by (simp add: free)
  show "p \<in> free_pages s \<Longrightarrow> kpage s p \<and> pg_aligned p \<and> p \<noteq> 0"
    using inv by (auto simp: free kmem_inv_def list_all_iff kpage_def)
  show "\<exists>s'. kalloc s e = (Ret 0, s', e) \<and> kmem_ok s' \<and> free_pages s' = {} \<and> mem s' = mem s \<and> kpage s' = kpage s"
    if "free_pages s = {}"
  proof -
    from that have "freelist s = 0" using inv by (simp add: free kmem_inv_def)
    then show ?thesis
      using inv rdy that by (auto simp: kalloc_run kpopped_def kmem_ok_def free_pages_def)
  qed
  show "\<exists>p s'. kalloc s e = (Ret p, s', e) \<and> p \<in> free_pages s \<and> kmem_ok s' \<and>
      free_pages s' = free_pages s - {p} \<and> same_outside p (mem s) (mem s') \<and> kpage s' = kpage s"
    if "free_pages s \<noteq> {}"
  proof -
    from that obtain q qs where ps: "ps = q # qs" by (cases ps) (auto simp: free)
    note pop = kpopped_inv [OF inv [unfolded ps]]
    have "free_pages (settle (kpopped s)) = set qs" using free_pages_eq [of "settle (kpopped s)" qs] pop(5) by simp
    then show ?thesis
      using rdy pop ps free by (auto simp: kalloc_run kmem_ok_def kpage_def fun_eq_iff)
  qed
  show "\<exists>s'. kfree p s e = (Ret (), s', e) \<and> kmem_ok s' \<and> free_pages s' = insert p (free_pages s) \<and>
      same_outside p (mem s) (mem s') \<and> kpage s' = kpage s"
    if "kpage s p" "p \<notin> free_pages s"
  proof -
    note put = kfreed_inv [OF inv that(1), unfolded free [symmetric], OF that(2)]
    have "free_pages (settle (kfreed p s)) = insert p (set ps)"
      using free_pages_eq [of "settle (kfreed p s)" "p # ps"] put(1) by simp
    then show ?thesis
      using rdy that put free by (auto simp: kfree_run kmem_ok_def)
  qed
qed

section \<open>Properties\<close>

text \<open>
  C14: after \<open>kinit\<close> the allocator owns every whole page between the end of the kernel image
  and \<open>PHYSTOP\<close>, and nothing else; and any number of \<open>kalloc\<close> calls up to the number of
  free pages then returns that many distinct pages, takes exactly those out of the free
  pool, and changes no byte outside them.
\<close>

theorem kinit_kalloc_distinct:
  assumes "intr_ok s" "freelist s = 0" "0 < kend s" "kend s \<le> PHYSTOP"
  shows "\<exists>s1. kinit s e = (Ret (), s1, e) \<and> kmem_ok s1 \<and>
    free_pages s1 = {p. pg_aligned p \<and> kend s \<le> p \<and> p < PHYSTOP} \<and>
    (\<forall>n \<le> card (free_pages s1). \<exists>ps s2. kmany n kalloc s1 e = (Ret ps, s2, e) \<and>
       distinct ps \<and> length ps = n \<and> set ps \<subseteq> free_pages s1 \<and> free_pages s2 = free_pages s1 - set ps \<and>
       (\<forall>x. PGROUNDDOWN x \<notin> set ps \<longrightarrow> mem s2 x = mem s1 x))"
proof -
  obtain s1 ps where i: "kinit s e = (Ret (), s1, e)" "kmem_inv s1 ps" "kmem_ready s1" "set ps = {p. kpage s p}"
    using kinit_run [OF assms, of e] by blast
  then have "kmem_ok s1" "free_pages s1 = {p. kpage s p}"
    using free_pages_eq [OF i(2)] by (auto simp: kmem_ok_def)
  then show ?thesis
    using i(1) ka.alloc_many [of s1 _ e] by (fastforce simp: kpage_def)
qed

text \<open>
  C15: \<open>kfree\<close> returns a page to the pool exactly once.  Freeing an allocatable page that is
  not free makes it, and only it, available again; a misaligned address, an address
  inside the kernel image or one at or above \<open>PHYSTOP\<close> panics without any effect; and with an
  empty pool \<open>kalloc\<close> returns 0 without touching memory.
\<close>

theorem kfree_kalloc_spec:
  assumes "kmem_ok s"
  shows "(kpage s p \<and> p \<notin> free_pages s \<longrightarrow>
           (\<exists>s'. kfree p s e = (Ret (), s', e) \<and> kmem_ok s' \<and> free_pages s' = insert p (free_pages s) \<and>
              (\<forall>x. PGROUNDDOWN x \<noteq> p \<longrightarrow> mem s' x = mem s x))) \<and>
         (\<not> kpage s p \<longrightarrow> kfree p s e = (Panic ''kfree'', s, e)) \<and>
         (free_pages s = {} \<longrightarrow> (\<exists>s'. kalloc s e = (Ret 0, s', e) \<and> mem s' = mem s))"
proof (intro conjI impI)
  assume "kpage s p \<and> p \<notin> free_pages s"
  then show "\<exists>s'. kfree p s e = (Ret (), s', e) \<and> kmem_ok s' \<and> free_pages s' = insert p (free_pages s) \<and>
              (\<forall>x. PGROUNDDOWN x \<noteq> p \<longrightarrow> mem s' x = mem s x)"
    using ka.dealloc_some [OF assms, of p e] by (auto simp: same_outside_def)
next
  show "free_pages s = {} \<Longrightarrow> \<exists>s'. kalloc s e = (Ret 0, s', e) \<and> mem s' = mem s"
    using ka.alloc_none [OF assms, of e] by blast
qed (rule kfree_panics)

definition boot_kmem :: "uint64 \<Rightarrow> kmem_state" where
  "boot_kmem a = spin.extend boot_spin \<lparr>kend = a, freelist = 0\<rparr>"

lemma boot_kmem_ok: "intr_ok (boot_kmem a)" "freelist (boot_kmem a) = 0" "kend (boot_kmem a) = a"
  "0 < a \<Longrightarrow> kmem_ok (boot_kmem a)"
  unfolding boot_kmem_def spin.extend_def boot_spin_def
  by (auto simp: intr_ok_def noff_def kmem_ok_def kmem_ready_def lock_clean_def kmem_inv_def intro!: exI [of _ "[]"])

theorem kinit_kalloc_distinct_witness:
  "\<exists>s1. kinit (boot_kmem 0x87fff123) [] = (Ret (), s1, []) \<and> kmem_ok s1 \<and> free_pages s1 = {}"
proof -
  have "{p :: uint64. pg_aligned p \<and> 0x87fff123 \<le> p \<and> p < 0x88000000} = {}"
  proof -
    have False if "pg_aligned p" "0x87fff123 \<le> p" "p < 0x88000000" for p :: uint64
    proof -
      from that obtain k where "unat p = 4096 * k" by (auto simp: pg_aligned_unat)
      with that show False by (simp add: word_le_nat_alt word_less_nat_alt)
    qed
    then show ?thesis by blast
  qed
  then show ?thesis
    using kinit_kalloc_distinct [of "boot_kmem 0x87fff123" "[]"] boot_kmem_ok [of "0x87fff123"] by auto
qed

theorem kfree_kalloc_spec_witness:
  "(\<exists>s'. kfree 0x87fff000 (boot_kmem 0x87ffe000) [] = (Ret (), s', []) \<and> free_pages s' = {0x87fff000}) \<and>
   kfree 0x87fff008 (boot_kmem 0x87ffe000) [] = (Panic ''kfree'', boot_kmem 0x87ffe000, [])"
proof -
  have ok: "kmem_ok (boot_kmem 0x87ffe000)" by (rule boot_kmem_ok) simp
  have "kmem_inv (boot_kmem 0x87ffe000) []"
    by (simp add: kmem_inv_def boot_kmem_ok)
  then have e: "free_pages (boot_kmem 0x87ffe000) = {}" by (simp add: free_pages_eq)
  have k: "kpage (boot_kmem 0x87ffe000) 0x87fff000" "\<not> kpage (boot_kmem 0x87ffe000) 0x87fff008"
    by (simp_all add: kpage_def boot_kmem_ok pg_aligned_def)
  show ?thesis
    using kfree_kalloc_spec [OF ok, of "0x87fff000" "[]"] kfree_kalloc_spec [OF ok, of "0x87fff008" "[]"] k e
    by auto
qed

end
