(* ===== verification/Vm.thy ===== *)
theory Vm
  imports Kalloc
begin

unbundle bit_operations_syntax

text \<open>
  Virtual memory (\<open>kernel/vm.c\<close>): three-level Sv39 page tables stored in physical
  memory, their construction and destruction, and the copies between kernel and user
  space.  A kernel buffer that a copy reads is the list of its bytes; a copy into a kernel
  buffer returns the bytes it stored there, also when it fails half way.
\<close>

section \<open>Operations\<close>

primrec walk_from :: "uint64 \<Rightarrow> bool \<Rightarrow> nat \<Rightarrow> uint64 \<Rightarrow> (uint64, 'a kmem_state_scheme) K" where
  "walk_from va alloc 0 pagetable = kret (pagetable + 8 * PX 0 va)"
| "walk_from va alloc (Suc l) pagetable =
     (let a = pagetable + 8 * PX (Suc l) va in
      kbind (kget (\<lambda>s. load64 (mem s) a)) (\<lambda>pte.
      if pte AND PTE_V \<noteq> 0 then walk_from va alloc l (PTE2PA pte)
      else if \<not> alloc then kret 0
      else kbind kalloc (\<lambda>p.
        if p = 0 then kret 0
        else
          kbind (kmod (\<lambda>s. s\<lparr>mem := memset (mem s) p 0 4096\<rparr>)) (\<lambda>_.
          kbind (kmod (\<lambda>s. s\<lparr>mem := store64 (mem s) a (PA2PTE p OR PTE_V)\<rparr>)) (\<lambda>_.
          walk_from va alloc l p)))))"

definition walk :: "uint64 \<Rightarrow> uint64 \<Rightarrow> bool \<Rightarrow> (uint64, 'a kmem_state_scheme) K" where
  "walk pagetable va alloc =
     (if MAXVA \<le> va then kpanic ''walk'' else walk_from va alloc 2 pagetable)"

definition walkaddr :: "uint64 \<Rightarrow> uint64 \<Rightarrow> (uint64, 'a kmem_state_scheme) K" where
  "walkaddr pagetable va =
     (if MAXVA \<le> va then kret 0
      else kbind (walk pagetable va False) (\<lambda>pte.
        if pte = 0 then kret 0
        else kbind (kget (\<lambda>s. load64 (mem s) pte)) (\<lambda>v.
          if v AND PTE_V = 0 then kret 0
          else if v AND PTE_U = 0 then kret 0
          else kret (PTE2PA v))))"

definition mappages :: "uint64 \<Rightarrow> uint64 \<Rightarrow> uint64 \<Rightarrow> uint64 \<Rightarrow> uint64 \<Rightarrow> (int, 'a kmem_state_scheme) K" where
  "mappages pagetable va sz pa perm =
     (if va mod PGSIZE \<noteq> 0 then kpanic ''mappages: va not aligned''
      else if sz mod PGSIZE \<noteq> 0 then kpanic ''mappages: size not aligned''
      else if sz = 0 then kpanic ''mappages: size''
      else
        let lst = va + sz - PGSIZE in
        kloop (\<lambda>(a, pa).
          kbind (walk pagetable a True) (\<lambda>pte.
          if pte = 0 then kret (Inr (- 1))
          else kbind (kget (\<lambda>s. load64 (mem s) pte)) (\<lambda>v.
            if v AND PTE_V \<noteq> 0 then kpanic ''mappages: remap''
            else kbind (kmod (\<lambda>s. s\<lparr>mem := store64 (mem s) pte (PA2PTE pa OR perm OR PTE_V)\<rparr>)) (\<lambda>_.
              if a = lst then kret (Inr 0)
              else kret (Inl (a + PGSIZE, pa + PGSIZE))))))
          (va, pa))"

definition uvmcreate :: "(uint64, 'a kmem_state_scheme) K" where
  "uvmcreate =
     kbind kalloc (\<lambda>pagetable.
     if pagetable = 0 then kret 0
     else kbind (kmod (\<lambda>s. s\<lparr>mem := memset (mem s) pagetable 0 4096\<rparr>)) (\<lambda>_. kret pagetable))"

definition uvmunmap :: "uint64 \<Rightarrow> uint64 \<Rightarrow> uint64 \<Rightarrow> bool \<Rightarrow> (unit, 'a kmem_state_scheme) K" where
  "uvmunmap pagetable va npages do_free =
     (if va mod PGSIZE \<noteq> 0 then kpanic ''uvmunmap: not aligned''
      else
        kloop (\<lambda>a.
          if \<not> a < va + npages * PGSIZE then kret (Inr ())
          else kbind (walk pagetable a False) (\<lambda>pte.
            if pte = 0 then kret (Inl (a + PGSIZE))
            else kbind (kget (\<lambda>s. load64 (mem s) pte)) (\<lambda>v.
              if v AND PTE_V = 0 then kret (Inl (a + PGSIZE))
              else
                kbind (kwhen do_free (kfree (PTE2PA v))) (\<lambda>_.
                kbind (kmod (\<lambda>s. s\<lparr>mem := store64 (mem s) pte 0\<rparr>)) (\<lambda>_.
                kret (Inl (a + PGSIZE)))))))
          va)"

definition uvmdealloc :: "uint64 \<Rightarrow> uint64 \<Rightarrow> uint64 \<Rightarrow> (uint64, 'a kmem_state_scheme) K" where
  "uvmdealloc pagetable oldsz newsz =
     (if oldsz \<le> newsz then kret oldsz
      else
        kbind (kwhen (PGROUNDUP newsz < PGROUNDUP oldsz)
          (let npages = (scast (ucast ((PGROUNDUP oldsz - PGROUNDUP newsz) div PGSIZE) :: 32 word) :: uint64)
           in uvmunmap pagetable (PGROUNDUP newsz) npages True)) (\<lambda>_.
        kret newsz))"

definition uvmalloc :: "uint64 \<Rightarrow> uint64 \<Rightarrow> uint64 \<Rightarrow> uint64 \<Rightarrow> (uint64, 'a kmem_state_scheme) K" where
  "uvmalloc pagetable oldsz newsz xperm =
     (if newsz < oldsz then kret oldsz
      else
        let old = PGROUNDUP oldsz in
        kloop (\<lambda>a.
          if \<not> a < newsz then kret (Inr newsz)
          else kbind kalloc (\<lambda>p.
            if p = 0 then kbind (uvmdealloc pagetable a old) (\<lambda>_. kret (Inr 0))
            else
              kbind (kmod (\<lambda>s. s\<lparr>mem := memset (mem s) p 0 4096\<rparr>)) (\<lambda>_.
              kbind (mappages pagetable a PGSIZE p (PTE_R OR PTE_U OR xperm)) (\<lambda>r.
              if r \<noteq> 0 then
                kbind (kfree p) (\<lambda>_.
                kbind (uvmdealloc pagetable a old) (\<lambda>_. kret (Inr 0)))
              else kret (Inl (a + PGSIZE))))))
          old)"

text \<open>
  \<open>freewalk\<close> recurses along the entries that are valid but have no access bit.  The
  recursion depth is bounded by the number of levels; a deeper structure is \<open>Stuck\<close>.
\<close>

primrec freewalk_at :: "nat \<Rightarrow> uint64 \<Rightarrow> (unit, 'a kmem_state_scheme) K" where
  "freewalk_at 0 pagetable = kstuck"
| "freewalk_at (Suc n) pagetable =
     kbind (kfor [0..<512] (\<lambda>i.
       kbind (kget (\<lambda>s. load64 (mem s) (pagetable + 8 * of_nat i))) (\<lambda>pte.
       if pte AND PTE_V \<noteq> 0 \<and> pte AND (PTE_R OR PTE_W OR PTE_X) = 0 then
         kbind (freewalk_at n (PTE2PA pte)) (\<lambda>_.
         kmod (\<lambda>s. s\<lparr>mem := store64 (mem s) (pagetable + 8 * of_nat i) 0\<rparr>))
       else if pte AND PTE_V \<noteq> 0 then kpanic ''freewalk: leaf''
       else kret ()))) (\<lambda>_.
     kfree pagetable)"

definition freewalk :: "uint64 \<Rightarrow> (unit, 'a kmem_state_scheme) K" where
  "freewalk pagetable = freewalk_at 3 pagetable"

definition uvmfree :: "uint64 \<Rightarrow> uint64 \<Rightarrow> (unit, 'a kmem_state_scheme) K" where
  "uvmfree pagetable sz =
     kbind (kwhen (0 < sz) (uvmunmap pagetable 0 (PGROUNDUP sz div PGSIZE) True)) (\<lambda>_.
     freewalk pagetable)"

definition uvmcopy :: "uint64 \<Rightarrow> uint64 \<Rightarrow> uint64 \<Rightarrow> (int, 'a kmem_state_scheme) K" where
  "uvmcopy old new sz =
     kloop (\<lambda>i.
       if \<not> i < sz then kret (Inr 0)
       else
         let err = kbind (uvmunmap new 0 (i div PGSIZE) True) (\<lambda>_. kret (Inr (- 1))) in
         kbind (walk old i False) (\<lambda>pte.
         if pte = 0 then kret (Inl (i + PGSIZE))
         else kbind (kget (\<lambda>s. load64 (mem s) pte)) (\<lambda>v.
           if v AND PTE_V = 0 then kret (Inl (i + PGSIZE))
           else kbind kalloc (\<lambda>p.
             if p = 0 then err
             else
               kbind (kmod (\<lambda>s. s\<lparr>mem := memmove (mem s) p (PTE2PA v) 4096\<rparr>)) (\<lambda>_.
               kbind (mappages new i PGSIZE p (PTE_FLAGS v)) (\<lambda>r.
               if r \<noteq> 0 then kbind (kfree p) (\<lambda>_. err)
               else kret (Inl (i + PGSIZE))))))))
       0"

definition uvmclear :: "uint64 \<Rightarrow> uint64 \<Rightarrow> (unit, 'a kmem_state_scheme) K" where
  "uvmclear pagetable va =
     kbind (walk pagetable va False) (\<lambda>pte.
     if pte = 0 then kpanic ''uvmclear''
     else kmod (\<lambda>s. s\<lparr>mem := store64 (mem s) pte (load64 (mem s) pte AND NOT PTE_U)\<rparr>))"

definition ismapped :: "uint64 \<Rightarrow> uint64 \<Rightarrow> (bool, 'a kmem_state_scheme) K" where
  "ismapped pagetable va =
     kbind (walk pagetable va False) (\<lambda>pte.
     if pte = 0 then kret False
     else kget (\<lambda>s. load64 (mem s) pte AND PTE_V \<noteq> 0))"

definition vmfault :: "uint64 \<Rightarrow> uint64 \<Rightarrow> uint64 \<Rightarrow> bool \<Rightarrow> (uint64, 'a kmem_state_scheme) K" where
  "vmfault pagetable psz va0 read =
     (if psz \<le> va0 then kret 0
      else
        let va = PGROUNDDOWN va0 in
        kbind (ismapped pagetable va) (\<lambda>b.
        if b then kret 0
        else kbind kalloc (\<lambda>p.
          if p = 0 then kret 0
          else
            kbind (kmod (\<lambda>s. s\<lparr>mem := memset (mem s) p 0 4096\<rparr>)) (\<lambda>_.
            kbind (mappages pagetable va PGSIZE p (PTE_W OR PTE_U OR PTE_R)) (\<lambda>r.
            if r \<noteq> 0 then kbind (kfree p) (\<lambda>_. kret 0)
            else kret p)))))"

text \<open>Storing the bytes of a kernel buffer at a physical address.\<close>

definition put_bytes :: "memory \<Rightarrow> uint64 \<Rightarrow> uchar list \<Rightarrow> memory" where
  "put_bytes m a xs = (\<lambda>x. if unat (x - a) < length xs then xs ! unat (x - a) else m x)"

definition copyout :: "uint64 \<Rightarrow> uint64 \<Rightarrow> uint64 \<Rightarrow> uchar list \<Rightarrow> (int, 'a kmem_state_scheme) K" where
  "copyout pagetable psz dstva src =
     kloop (\<lambda>(dstva, src).
       if src = [] then kret (Inr 0)
       else
         let va0 = PGROUNDDOWN dstva in
         if MAXVA \<le> va0 then kret (Inr (- 1))
         else
           kbind (walkaddr pagetable va0) (\<lambda>pa.
           kbind (if pa = 0 then vmfault pagetable psz va0 False else kret pa) (\<lambda>pa0.
           if pa0 = 0 then kret (Inr (- 1))
           else
             kbind (walk pagetable va0 False) (\<lambda>pte.
             kbind (kget (\<lambda>s. load64 (mem s) pte)) (\<lambda>v.
             if v AND PTE_W = 0 then kret (Inr (- 1))
             else
               let n = min (4096 - unat (dstva - va0)) (length src) in
               kbind (kmod (\<lambda>s. s\<lparr>mem := put_bytes (mem s) (pa0 + (dstva - va0)) (take n src)\<rparr>)) (\<lambda>_.
               kret (Inl (va0 + PGSIZE, drop n src))))))))
       (dstva, src)"

definition copyin :: "uint64 \<Rightarrow> uint64 \<Rightarrow> uint64 \<Rightarrow> nat \<Rightarrow> (int \<times> uchar list, 'a kmem_state_scheme) K" where
  "copyin pagetable psz srcva len =
     kloop (\<lambda>(srcva, len, dst).
       if len = 0 then kret (Inr (0, dst))
       else
         let va0 = PGROUNDDOWN srcva in
         kbind (walkaddr pagetable va0) (\<lambda>pa.
         kbind (if pa = 0 then vmfault pagetable psz va0 True else kret pa) (\<lambda>pa0.
         if pa0 = 0 then kret (Inr (- 1, dst))
         else
           let n = min (4096 - unat (srcva - va0)) len in
           kbind (kget (\<lambda>s. bytes_at (mem s) (pa0 + (srcva - va0)) n)) (\<lambda>bs.
           kret (Inl (va0 + PGSIZE, len - n, dst @ bs))))))
       (srcva, len, [])"

text \<open>The inner loop of \<open>copyinstr\<close>: the bytes stored from one page, and whether the NUL was met.\<close>

primrec copyinstr_page :: "memory \<Rightarrow> nat \<Rightarrow> uint64 \<Rightarrow> uchar list \<times> bool" where
  "copyinstr_page m 0 p = ([], False)"
| "copyinstr_page m (Suc n) p =
     (if m p = 0 then ([0], True)
      else let (w, got_null) = copyinstr_page m n (p + 1) in (m p # w, got_null))"

definition copyinstr :: "uint64 \<Rightarrow> uint64 \<Rightarrow> uint64 \<Rightarrow> nat \<Rightarrow> (int \<times> uchar list, 'a kmem_state_scheme) K" where
  "copyinstr pagetable psz srcva mx =
     kloop (\<lambda>(srcva, mx, dst).
       if mx = 0 then kret (Inr (- 1, dst))
       else
         let va0 = PGROUNDDOWN srcva in
         kbind (walkaddr pagetable va0) (\<lambda>pa.
         kbind (if pa = 0 then vmfault pagetable psz va0 True else kret pa) (\<lambda>pa0.
         if pa0 = 0 then kret (Inr (- 1, dst))
         else
           let n = min (4096 - unat (srcva - va0)) mx in
           kbind (kget (\<lambda>s. copyinstr_page (mem s) n (pa0 + (srcva - va0)))) (\<lambda>(w, got_null).
           if got_null then kret (Inr (0, dst @ w))
           else kret (Inl (va0 + PGSIZE, mx - n, dst @ w))))))
       (srcva, mx, [])"

section \<open>The kernel page table\<close>

record vm_state = kmem_state +
  kernel_pagetable :: uint64
  satp :: "nat \<Rightarrow> uint64"
  etext :: uint64
  trampoline :: uint64

definition kvmmap :: "uint64 \<Rightarrow> uint64 \<Rightarrow> uint64 \<Rightarrow> uint64 \<Rightarrow> uint64 \<Rightarrow> (unit, 'a kmem_state_scheme) K" where
  "kvmmap kpgtbl va pa sz perm =
     kbind (mappages kpgtbl va sz pa perm) (\<lambda>r.
     if r \<noteq> 0 then kpanic ''kvmmap'' else kret ())"

definition proc_mapstacks :: "uint64 \<Rightarrow> (unit, 'a kmem_state_scheme) K" where
  "proc_mapstacks kpgtbl =
     kfor [0..<NPROC] (\<lambda>p.
       kbind kalloc (\<lambda>pa.
       if pa = 0 then kpanic ''kalloc''
       else kvmmap kpgtbl (KSTACK p) pa PGSIZE (PTE_R OR PTE_W)))"

definition kvmmake :: "(uint64, 'a vm_state_scheme) K" where
  "kvmmake =
     kbind kalloc (\<lambda>kpgtbl.
     kbind (kmod (\<lambda>s. s\<lparr>mem := memset (mem s) kpgtbl 0 4096\<rparr>)) (\<lambda>_.
     kbind (kget etext) (\<lambda>et.
     kbind (kget trampoline) (\<lambda>tr.
     kbind (kseq [
       kvmmap kpgtbl UART0 UART0 PGSIZE (PTE_R OR PTE_W),
       kvmmap kpgtbl VIRTIO0 VIRTIO0 PGSIZE (PTE_R OR PTE_W),
       kvmmap kpgtbl PLIC PLIC 0x4000000 (PTE_R OR PTE_W),
       kvmmap kpgtbl KERNBASE KERNBASE (et - KERNBASE) (PTE_R OR PTE_X),
       kvmmap kpgtbl et et (PHYSTOP - et) (PTE_R OR PTE_W),
       kvmmap kpgtbl TRAMPOLINE tr PGSIZE (PTE_R OR PTE_X),
       proc_mapstacks kpgtbl]) (\<lambda>_.
     kret kpgtbl)))))"

definition kvminit :: "(unit, 'a vm_state_scheme) K" where
  "kvminit = kbind kvmmake (\<lambda>p. kmod (\<lambda>s. s\<lparr>kernel_pagetable := p\<rparr>))"

definition kvminithart :: "(unit, 'a vm_state_scheme) K" where
  "kvminithart = kmod (\<lambda>s. s\<lparr>satp := (satp s)(tp s := MAKE_SATP (kernel_pagetable s))\<rparr>)"

end
