(* ===== verification/Proc.thy ===== *)
theory Proc
  imports Vm
begin

unbundle bit_operations_syntax

text \<open>
  Processes (\<open>kernel/proc.c\<close>): the process table, allocation and release of slots,
  scheduling, sleeping and waking up, killing, waiting for children.  Processes are
  named by their index in the table; a null pointer is \<open>None\<close>.  \<open>swtch\<close> away from a
  process is a waiting point: whatever the other processes and harts do until this
  process is resumed is one interference step.
\<close>

section \<open>State\<close>

datatype procstate = UNUSED | USED | SLEEPING | RUNNABLE | RUNNING | ZOMBIE

text \<open>Sleep channels: the objects whose addresses the kernel passes to \<open>sleep_prepare\<close>.\<close>

datatype chan =
    ChProc nat | ChSleeplock slid | ChLog | ChPipeRead uint64 | ChPipeWrite uint64
  | ChTicks | ChConsRead | ChBuf nat | ChDiskFree | ChTx

record proc =
  p_state :: procstate
  p_chan :: "chan option"
  p_killed :: int
  p_xstate :: int
  p_pid :: int
  p_parent :: "nat option"
  p_kstack :: uint64
  p_sz :: uint64
  p_pagetable :: uint64
  p_trapframe :: uint64
  p_context :: swtch_context
  p_ofile :: "nat \<Rightarrow> nat option"
  p_cwd :: "nat option"
  p_name :: "uchar list"

text \<open>
  \<open>lbuf\<close> is the buffer on the kernel stack of the running function that a read into a
  local variable fills.
\<close>

record proc_state = vm_state +
  procs :: "nat \<Rightarrow> proc"
  initproc :: "nat option"
  nextpid :: int
  forkret_addr :: uint64
  lbuf :: "nat \<Rightarrow> uchar"

abbreviation (input) set_proc :: "nat \<Rightarrow> (proc \<Rightarrow> proc) \<Rightarrow> 'a proc_state_scheme \<Rightarrow> 'a proc_state_scheme" where
  "set_proc p f s \<equiv> s\<lparr>procs := (procs s)(p := f (procs s p))\<rparr>"

definition zero_context :: swtch_context where
  "zero_context = \<lparr>ctx_ra = 0, ctx_sp = 0, ctx_s0 = 0, ctx_s1 = 0, ctx_s2 = 0, ctx_s3 = 0, ctx_s4 = 0,
     ctx_s5 = 0, ctx_s6 = 0, ctx_s7 = 0, ctx_s8 = 0, ctx_s9 = 0, ctx_s10 = 0, ctx_s11 = 0\<rparr>"

section \<open>The running process\<close>

definition procinit :: "(unit, 'a proc_state_scheme) K" where
  "procinit =
     kseq [
       initlock PidLock ''nextpid'',
       initlock WaitLock ''wait_lock'',
       kfor [0..<NPROC] (\<lambda>p. kseq [
         initlock (ProcLock p) ''proc'',
         kmod (set_proc p (\<lambda>q. q\<lparr>p_state := UNUSED\<rparr>)),
         kmod (set_proc p (\<lambda>q. q\<lparr>p_kstack := KSTACK p\<rparr>))])]"

definition myproc :: "(nat option, 'a proc_state_scheme) K" where
  "myproc =
     kbind push_off (\<lambda>_.
     kbind mycpu (\<lambda>c.
     kbind (kget (\<lambda>s. c_proc (cpus s c))) (\<lambda>p.
     kbind pop_off (\<lambda>_.
     kret p))))"

text \<open>Functions that use \<open>myproc()\<close> dereference it: on a hart without a process this traps.\<close>

definition with_myproc :: "(nat \<Rightarrow> ('b, 'a proc_state_scheme) K) \<Rightarrow> ('b, 'a proc_state_scheme) K" where
  "with_myproc f = kbind myproc (\<lambda>q. case q of None \<Rightarrow> kpanic ''kerneltrap'' | Some p \<Rightarrow> f p)"

section \<open>Scheduling\<close>

definition sched :: "(unit, 'a proc_state_scheme) K" where
  "sched = with_myproc (\<lambda>p.
     kbind (holding (ProcLock p)) (\<lambda>h.
     if \<not> h then kpanic ''sched p->lock''
     else kbind (kget (\<lambda>s. c_noff (cpus s (tp s)))) (\<lambda>noff.
     if noff \<noteq> 1 then kpanic ''sched locks''
     else kbind (kget (\<lambda>s. p_state (procs s p))) (\<lambda>st.
     if st = RUNNING then kpanic ''sched RUNNING''
     else kbind intr_get (\<lambda>on.
     if on then kpanic ''sched interruptible''
     else
       kbind (kget (\<lambda>s. c_intena (cpus s (tp s)))) (\<lambda>intena.
       kbind kenv (\<lambda>_.
       kmod (set_cpu (\<lambda>c. c\<lparr>c_intena := intena\<rparr>)))))))))"

definition yield :: "(unit, 'a proc_state_scheme) K" where
  "yield = with_myproc (\<lambda>p. kseq [
     acquire (ProcLock p),
     kmod (set_proc p (\<lambda>q. q\<lparr>p_state := RUNNABLE\<rparr>)),
     sched,
     release (ProcLock p)])"

definition sleep_prepare :: "chan option \<Rightarrow> (unit, 'a proc_state_scheme) K" where
  "sleep_prepare ch = with_myproc (\<lambda>p.
     kbind (acquire (ProcLock p)) (\<lambda>_.
     if ch = None then kpanic ''sleep_prepare: zero chan''
     else kbind (kmod (set_proc p (\<lambda>q. q\<lparr>p_chan := ch\<rparr>))) (\<lambda>_.
       release (ProcLock p))))"

definition sleep :: "(unit, 'a proc_state_scheme) K" where
  "sleep = with_myproc (\<lambda>p.
     kbind (acquire (ProcLock p)) (\<lambda>_.
     kbind (kbind (kget (\<lambda>s. p_chan (procs s p))) (\<lambda>ch.
       kwhen (ch \<noteq> None) (kseq [
         kmod (set_proc p (\<lambda>q. q\<lparr>p_state := SLEEPING\<rparr>)),
         sched]))) (\<lambda>_.
     release (ProcLock p))))"

definition wakeup_one :: "chan \<Rightarrow> nat \<Rightarrow> (unit, 'a proc_state_scheme) K" where
  "wakeup_one ch p =
     kbind (acquire (ProcLock p)) (\<lambda>_.
     kbind (kbind (kget (\<lambda>s. p_chan (procs s p))) (\<lambda>c.
       kwhen (c = Some ch) (kseq [
         kmod (set_proc p (\<lambda>q. q\<lparr>p_chan := None\<rparr>)),
         kbind (kget (\<lambda>s. p_state (procs s p))) (\<lambda>st.
           kwhen (st = SLEEPING) (kmod (set_proc p (\<lambda>q. q\<lparr>p_state := RUNNABLE\<rparr>))))]))) (\<lambda>_.
     release (ProcLock p)))"

definition wakeup :: "chan \<Rightarrow> (unit, 'a proc_state_scheme) K" where
  "wakeup ch = kfor [0..<NPROC] (wakeup_one ch)"

text \<open>
  The scheduler's section for one slot, and one pass over the table; the process that is switched to runs as
  interference.
\<close>

definition scheduler_slot :: "nat \<Rightarrow> nat \<Rightarrow> (bool, 'a proc_state_scheme) K" where
  "scheduler_slot c p =
     kbind (acquire (ProcLock p)) (\<lambda>_.
     kbind (kget (\<lambda>s. p_state (procs s p))) (\<lambda>st.
     kbind (kwhen (st = RUNNABLE) (kseq [
         kmod (set_proc p (\<lambda>q. q\<lparr>p_state := RUNNING\<rparr>)),
         kmod (\<lambda>s. s\<lparr>cpus := (cpus s)(c := (cpus s c)\<lparr>c_proc := Some p\<rparr>)\<rparr>),
         kenv,
         kmod (set_cpu (\<lambda>k. k\<lparr>c_intena := False\<rparr>)),
         kmod (\<lambda>s. s\<lparr>cpus := (cpus s)(c := (cpus s c)\<lparr>c_proc := None\<rparr>)\<rparr>)])) (\<lambda>_.
     kbind (release (ProcLock p)) (\<lambda>_.
     kret (st = RUNNABLE)))))"

definition scheduler_scan :: "(bool, 'a proc_state_scheme) K" where
  "scheduler_scan =
     kbind mycpu (\<lambda>c.
     kloop (\<lambda>(p, found).
       if \<not> p < NPROC then kret (Inr found)
       else kbind (scheduler_slot c p) (\<lambda>r. kret (Inl (Suc p, found \<or> r))))
       (0, False))"

definition scheduler :: "(unit, 'a proc_state_scheme) K" where
  "scheduler =
     kbind mycpu (\<lambda>c.
     kbind (kmod (\<lambda>s. s\<lparr>cpus := (cpus s)(c := (cpus s c)\<lparr>c_proc := None\<rparr>)\<rparr>)) (\<lambda>_.
     kloop (\<lambda>_.
       kbind intr_on (\<lambda>_.
       kbind intr_off (\<lambda>_.
       kbind scheduler_scan (\<lambda>_. kret (Inl ()))))) ()))"

section \<open>Killing\<close>

definition kkill_one :: "int \<Rightarrow> nat \<Rightarrow> (unit option, 'a proc_state_scheme) K" where
  "kkill_one pid p =
     kbind (acquire (ProcLock p)) (\<lambda>_.
     kbind (kbind (kget (\<lambda>s. p_pid (procs s p) = pid)) (\<lambda>b.
       if b then
         kbind (kmod (set_proc p (\<lambda>q. q\<lparr>p_killed := 1\<rparr>))) (\<lambda>_.
         kbind (kget (\<lambda>s. p_state (procs s p))) (\<lambda>st.
         kbind (kwhen (st = SLEEPING) (kmod (set_proc p (\<lambda>q. q\<lparr>p_state := RUNNABLE\<rparr>)))) (\<lambda>_.
         kret (Some ()))))
       else kret None)) (\<lambda>r.
     kbind (release (ProcLock p)) (\<lambda>_. kret r)))"

definition kkill :: "int \<Rightarrow> (int, 'a proc_state_scheme) K" where
  "kkill pid =
     kbind (kfind [0..<NPROC] (kkill_one pid))
       (\<lambda>r. kret (case r of None \<Rightarrow> - 1 | Some _ \<Rightarrow> 0))"

definition setkilled :: "nat \<Rightarrow> (unit, 'a proc_state_scheme) K" where
  "setkilled p =
     kbind (acquire (ProcLock p)) (\<lambda>_.
     kbind (kmod (set_proc p (\<lambda>q. q\<lparr>p_killed := 1\<rparr>))) (\<lambda>_.
     release (ProcLock p)))"

definition killed :: "nat \<Rightarrow> (int, 'a proc_state_scheme) K" where
  "killed p =
     kbind (acquire (ProcLock p)) (\<lambda>_.
     kbind (kget (\<lambda>s. p_killed (procs s p))) (\<lambda>k.
     kbind (release (ProcLock p)) (\<lambda>_.
     kret k)))"

section \<open>Process slots\<close>

definition allocpid :: "(int, 'a proc_state_scheme) K" where
  "allocpid =
     kbind (acquire PidLock) (\<lambda>_.
     kbind (kbind (kget nextpid) (\<lambda>pid.
            kbind (kmod (\<lambda>s. s\<lparr>nextpid := nextpid s + 1\<rparr>)) (\<lambda>_. kret pid))) (\<lambda>pid.
     kbind (release PidLock) (\<lambda>_.
     kret pid)))"

definition proc_pagetable :: "nat \<Rightarrow> (uint64, 'a proc_state_scheme) K" where
  "proc_pagetable p =
     kbind uvmcreate (\<lambda>pagetable.
     if pagetable = 0 then kret 0
     else
       kbind (kget trampoline) (\<lambda>tr.
       kbind (mappages pagetable TRAMPOLINE PGSIZE tr (PTE_R OR PTE_X)) (\<lambda>r.
       if r < 0 then kbind (uvmfree pagetable 0) (\<lambda>_. kret 0)
       else
         kbind (kget (\<lambda>s. p_trapframe (procs s p))) (\<lambda>tf.
         kbind (mappages pagetable TRAPFRAME PGSIZE tf (PTE_R OR PTE_W)) (\<lambda>r.
         if r < 0 then
           kbind (uvmunmap pagetable TRAMPOLINE 1 False) (\<lambda>_.
           kbind (uvmfree pagetable 0) (\<lambda>_. kret 0))
         else kret pagetable)))))"

definition proc_freepagetable :: "uint64 \<Rightarrow> uint64 \<Rightarrow> (unit, 'a proc_state_scheme) K" where
  "proc_freepagetable pagetable sz =
     kseq [
       uvmunmap pagetable TRAMPOLINE 1 False,
       uvmunmap pagetable TRAPFRAME 1 False,
       uvmfree pagetable sz]"

definition freeproc :: "nat \<Rightarrow> (unit, 'a proc_state_scheme) K" where
  "freeproc p =
     kbind (kget (\<lambda>s. p_trapframe (procs s p))) (\<lambda>tf.
     kbind (kwhen (tf \<noteq> 0) (kfree tf)) (\<lambda>_.
     kbind (kmod (set_proc p (\<lambda>q. q\<lparr>p_trapframe := 0\<rparr>))) (\<lambda>_.
     kbind (kget (\<lambda>s. procs s p)) (\<lambda>q.
     kbind (kwhen (p_pagetable q \<noteq> 0) (proc_freepagetable (p_pagetable q) (p_sz q))) (\<lambda>_.
     kmod (set_proc p (\<lambda>q. q\<lparr>p_pagetable := 0, p_sz := 0, p_pid := 0,
       p_name := (p_name q)[0 := 0], p_chan := None, p_killed := 0, p_xstate := 0,
       p_state := UNUSED\<rparr>)))))))"

definition allocproc :: "(nat option, 'a proc_state_scheme) K" where
  "allocproc =
     kbind (kfind [0..<NPROC] (\<lambda>p.
       kbind (acquire (ProcLock p)) (\<lambda>_.
       kbind (kget (\<lambda>s. p_state (procs s p))) (\<lambda>st.
       if st = UNUSED then kret (Some p)
       else kbind (release (ProcLock p)) (\<lambda>_. kret None))))) (\<lambda>r.
     case r of
       None \<Rightarrow> kret None
     | Some p \<Rightarrow>
         kbind allocpid (\<lambda>pid.
         kbind (kmod (set_proc p (\<lambda>q. q\<lparr>p_pid := pid\<rparr>))) (\<lambda>_.
         kbind (kmod (set_proc p (\<lambda>q. q\<lparr>p_state := USED\<rparr>))) (\<lambda>_.
         kbind kalloc (\<lambda>tf.
         kbind (kmod (set_proc p (\<lambda>q. q\<lparr>p_trapframe := tf\<rparr>))) (\<lambda>_.
         if tf = 0 then
           kbind (freeproc p) (\<lambda>_. kbind (release (ProcLock p)) (\<lambda>_. kret None))
         else
           kbind (proc_pagetable p) (\<lambda>pt.
           kbind (kmod (set_proc p (\<lambda>q. q\<lparr>p_pagetable := pt\<rparr>))) (\<lambda>_.
           if pt = 0 then
             kbind (freeproc p) (\<lambda>_. kbind (release (ProcLock p)) (\<lambda>_. kret None))
           else
             kbind (kmod (\<lambda>s. set_proc p (\<lambda>q. q\<lparr>p_context := zero_context
                 \<lparr>ctx_ra := forkret_addr s, ctx_sp := p_kstack q + PGSIZE\<rparr>\<rparr>) s)) (\<lambda>_.
             kret (Some p))))))))))"

definition growproc :: "int \<Rightarrow> (int, 'a proc_state_scheme) K" where
  "growproc n = with_myproc (\<lambda>p.
     kbind (kget (\<lambda>s. procs s p)) (\<lambda>q.
     let sz = p_sz q in
     if n > 0 then
       (if TRAPFRAME < sz + of_int n then kret (- 1)
        else
          kbind (uvmalloc (p_pagetable q) sz (sz + of_int n) PTE_W) (\<lambda>sz'.
          if sz' = 0 then kret (- 1)
          else kbind (kmod (set_proc p (\<lambda>q. q\<lparr>p_sz := sz'\<rparr>))) (\<lambda>_. kret 0)))
     else if n < 0 then
       kbind (uvmdealloc (p_pagetable q) sz (sz + of_int n)) (\<lambda>sz'.
       kbind (kmod (set_proc p (\<lambda>q. q\<lparr>p_sz := sz'\<rparr>))) (\<lambda>_. kret 0))
     else kbind (kmod (set_proc p (\<lambda>q. q\<lparr>p_sz := sz\<rparr>))) (\<lambda>_. kret 0)))"

section \<open>Copies in and out\<close>

text \<open>
  \<open>either_copyout\<close> and \<open>either_copyin\<close> take a flag and an address.  The destinations the
  kernel uses are a user address, a physical address (\<open>loadseg\<close>) and a local buffer on
  the kernel stack at an offset; the sources are a user address and kernel data.
\<close>

datatype dst = DstUser uint64 | DstKern uint64 | DstLocal nat

datatype src = SrcUser uint64 | SrcKern "uchar list"

fun dst_add :: "dst \<Rightarrow> nat \<Rightarrow> dst" where
  "dst_add (DstUser a) n = DstUser (a + of_nat n)"
| "dst_add (DstKern a) n = DstKern (a + of_nat n)"
| "dst_add (DstLocal i) n = DstLocal (i + n)"

fun src_add :: "src \<Rightarrow> nat \<Rightarrow> src" where
  "src_add (SrcUser a) n = SrcUser (a + of_nat n)"
| "src_add (SrcKern bs) n = SrcKern (drop n bs)"

definition overlay :: "(nat \<Rightarrow> uchar) \<Rightarrow> nat \<Rightarrow> uchar list \<Rightarrow> nat \<Rightarrow> uchar" where
  "overlay f off bs = (\<lambda>i. if off \<le> i \<and> i < off + length bs then bs ! (i - off) else f i)"

definition either_copyout :: "dst \<Rightarrow> uchar list \<Rightarrow> (int, 'a proc_state_scheme) K" where
  "either_copyout dst bs =
     kbind myproc (\<lambda>q.
     case dst of
       DstUser a \<Rightarrow>
         (case q of None \<Rightarrow> kpanic ''kerneltrap''
          | Some p \<Rightarrow> kbind (kget (\<lambda>s. procs s p)) (\<lambda>r. copyout (p_pagetable r) (p_sz r) a bs))
     | DstKern a \<Rightarrow> kbind (kmod (\<lambda>s. s\<lparr>mem := put_bytes (mem s) a bs\<rparr>)) (\<lambda>_. kret 0)
     | DstLocal i \<Rightarrow> kbind (kmod (\<lambda>s. s\<lparr>lbuf := overlay (lbuf s) i bs\<rparr>)) (\<lambda>_. kret 0))"

definition either_copyin :: "src \<Rightarrow> nat \<Rightarrow> (int \<times> uchar list, 'a proc_state_scheme) K" where
  "either_copyin src len =
     kbind myproc (\<lambda>q.
     case src of
       SrcUser a \<Rightarrow>
         (case q of None \<Rightarrow> kpanic ''kerneltrap''
          | Some p \<Rightarrow> kbind (kget (\<lambda>s. procs s p)) (\<lambda>r. copyin (p_pagetable r) (p_sz r) a len))
     | SrcKern bs \<Rightarrow> kret (0, take len bs))"

section \<open>Waiting for children\<close>

text \<open>An \<open>int\<close> in memory: four bytes, least significant first.\<close>

definition int_bytes :: "int \<Rightarrow> uchar list" where
  "int_bytes n = map (\<lambda>i. ucast (drop_bit (8 * i) (of_int n :: 32 word))) [0..<4]"

definition kwait :: "uint64 \<Rightarrow> (int, 'a proc_state_scheme) K" where
  "kwait addr = with_myproc (\<lambda>p.
     kbind (acquire WaitLock) (\<lambda>_.
     kloop (\<lambda>_.
       kbind (kloop (\<lambda>(pp, havekids).
           if \<not> pp < NPROC then kret (Inr (Inl havekids))
           else kbind (kget (\<lambda>s. p_parent (procs s pp) = Some p)) (\<lambda>child.
             if \<not> child then kret (Inl (Suc pp, havekids))
             else
               kbind (acquire (ProcLock pp)) (\<lambda>_.
               kbind (kget (\<lambda>s. procs s pp)) (\<lambda>q.
               if p_state q = ZOMBIE then
                 kbind (if addr \<noteq> 0 then
                          kbind (kget (\<lambda>s. procs s p)) (\<lambda>r.
                          copyout (p_pagetable r) (p_sz r) addr (int_bytes (p_xstate q)))
                        else kret 0) (\<lambda>c.
                 if addr \<noteq> 0 \<and> c < 0 then
                   kbind (release (ProcLock pp)) (\<lambda>_.
                   kbind (release WaitLock) (\<lambda>_.
                   kret (Inr (Inr (- 1)))))
                 else
                   kbind (kmod (set_proc pp (\<lambda>q. q\<lparr>p_parent := None\<rparr>))) (\<lambda>_.
                   kbind (freeproc pp) (\<lambda>_.
                   kbind (release (ProcLock pp)) (\<lambda>_.
                   kbind (release WaitLock) (\<lambda>_.
                   kret (Inr (Inr (p_pid q))))))))
               else
                 kbind (release (ProcLock pp)) (\<lambda>_.
                 kret (Inl (Suc pp, True))))))) (0, False)) (\<lambda>r.
       case r of
         Inr v \<Rightarrow> kret (Inr v)
       | Inl havekids \<Rightarrow>
           kbind (if havekids then kbind (killed p) (\<lambda>k. kret (k \<noteq> 0)) else kret True) (\<lambda>stop.
           if stop then kbind (release WaitLock) (\<lambda>_. kret (Inr (- 1)))
           else
             kbind (kseq [
               sleep_prepare (Some (ChProc p)),
               release WaitLock,
               sleep,
               acquire WaitLock]) (\<lambda>_.
             kret (Inl ()))))) ()))"

end
