(* ===== verification/ProcProps.thy ===== *)
theory ProcProps
  imports Proc
begin

text \<open>
  What the process operations do to the process table: run rules for the operations that
  do not switch, the effect of each critical section on a table slot, and the absence of
  lost wakeups in every interleaving of those sections.
\<close>

section \<open>Run rules\<close>

lemma cs_comm_procs: "cs_comm (\<lambda>s :: 'a proc_state_scheme. s\<lparr>procs := f (procs s)\<rparr>)"
  by (simp add: cs_comm_def proc_state.splits)

lemma settle_proc [simp]:
  "procs (settle s) = procs s" "nextpid (settle s) = nextpid s" "initproc (settle s) = initproc s"
  "c_proc (cpus (settle s) c) = c_proc (cpus s c)"
  by (simp_all add: settle_def)

lemma lock_clean_settle [simp]: "lock_clean (settle s) lk = lock_clean s lk"
  by (simp add: lock_clean_def)

lemma lock_clean_procs [simp]: "lock_clean (s\<lparr>procs := x\<rparr>) lk = lock_clean s lk"
  by (simp add: lock_clean_def)

lemma intr_ok_procs [simp]: "intr_ok (s\<lparr>procs := x\<rparr>) = intr_ok s"
  by (simp add: intr_ok_def noff_def sie_on_def)

lemma settle_procs: "settle (s\<lparr>procs := x\<rparr>) = (settle s)\<lparr>procs := x\<rparr>"
  by (cases s) (simp add: settle_def noff_def sie_on_def)

text \<open>The process the hart runs.\<close>

definition curproc :: "'a proc_state_scheme \<Rightarrow> nat option" where
  "curproc s = c_proc (cpus s (tp s))"

lemma myproc_run [k_run]:
  assumes "intr_ok s" shows "myproc s e = (Ret (curproc s), settle s, e)"
proof -
  have "pop_off (pushed s) e = (Ret (), settle s, e)"
    using pop_off_run [of "pushed s" e] assms by (simp add: popped_pushed intr_ok_def)
  moreover have "c_proc (cpus (pushed s) (tp (pushed s))) = curproc s"
    by (simp add: pushed_def curproc_def)
  ultimately show ?thesis
    by (simp add: myproc_def mycpu_def cpuid_def kbind_Ret kret_run push_off_run)
qed

lemma curproc_simps [simp]: "curproc (settle s) = curproc s" "curproc (s\<lparr>procs := x\<rparr>) = curproc s"
  by (simp_all add: curproc_def)

lemma with_myproc_run:
  assumes "intr_ok s" "curproc s = Some p" shows "with_myproc f s e = f p (settle s) e"
  using myproc_run [OF assms(1), of e] assms(2) by (simp add: with_myproc_def kbind_Ret)

lemma with_myproc_None:
  assumes "intr_ok s" "curproc s = None" shows "with_myproc f s e = (Panic ''kerneltrap'', settle s, e)"
  using myproc_run [OF assms(1), of e] assms(2) by (simp add: with_myproc_def kbind_Ret kpanic_run)

text \<open>A critical section on a process slot.\<close>

lemma cs_proc_unit:
  assumes "intr_ok s" "lock_clean s (ProcLock p)"
    and "f (acquired (ProcLock p) s) e = (Ret (), (acquired (ProcLock p) s)\<lparr>procs := g (procs s)\<rparr>, e)"
  shows "kbind (acquire (ProcLock p)) (\<lambda>_. kbind f (\<lambda>_. release (ProcLock p))) s e =
    (Ret (), settle (s\<lparr>procs := g (procs s)\<rparr>), e)"
  using assms by (intro cs_run_unit [where u = "\<lambda>s. s\<lparr>procs := g (procs s)\<rparr>"])
    (simp_all add: cs_comm_procs acquired_def pushed_def)

lemma procs_acquired [simp]: "procs (acquired lk s) = procs s"
  by (simp add: acquired_def pushed_def)

lemma sleep_prepare_run:
  assumes "intr_ok s" "curproc s = Some p" "lock_clean s (ProcLock p)"
  shows "sleep_prepare (Some c) s e = (Ret (), settle (s\<lparr>procs := (procs s)(p := (procs s p)\<lparr>p_chan := Some c\<rparr>)\<rparr>), e)"
proof -
  have "kbind (acquire (ProcLock p)) (\<lambda>_. kbind (kmod (set_proc p (\<lambda>q. q\<lparr>p_chan := Some c\<rparr>)))
      (\<lambda>_. release (ProcLock p))) (settle s) e =
      (Ret (), settle ((settle s)\<lparr>procs := (procs (settle s))(p := (procs (settle s) p)\<lparr>p_chan := Some c\<rparr>)\<rparr>), e)"
    using assms by (intro cs_proc_unit [where g = "\<lambda>t. t(p := (t p)\<lparr>p_chan := Some c\<rparr>)"]) (simp_all add: kmod_run)
  then show ?thesis
    by (simp add: sleep_prepare_def settle_procs with_myproc_run [OF assms(1,2)])
qed

lemma sleep_prepare_zero:
  assumes "intr_ok s" "curproc s = Some p" "lock_clean s (ProcLock p)"
  shows "fst (sleep_prepare None s e) = Panic ''sleep_prepare: zero chan''"
  using assms acquire_free [of "settle s" "ProcLock p" e]
  by (simp add: sleep_prepare_def with_myproc_run kbind_Ret lock_clean_def kpanic_run)

text \<open>\<open>sleep\<close> with the channel already cleared returns at once.\<close>

lemma sleep_no_chan:
  fixes s :: "'a proc_state_scheme"
  assumes "intr_ok s" "curproc s = Some p" "lock_clean s (ProcLock p)" "p_chan (procs s p) = None"
  shows "sleep s e = (Ret (), settle s, e)"
proof -
  have "kbind (acquire (ProcLock p)) (\<lambda>_. kbind (kbind (kget (\<lambda>s. p_chan (procs s p))) (\<lambda>ch.
       kwhen (ch \<noteq> None) (kseq [kmod (set_proc p (\<lambda>q. q\<lparr>p_state := SLEEPING\<rparr>)), sched])))
      (\<lambda>_. release (ProcLock p))) (settle s) e = (Ret (), settle ((settle s)\<lparr>procs := procs (settle s)\<rparr>), e)"
    using assms by (intro cs_proc_unit [where g = "\<lambda>t. t"]) (simp_all add: kret_run)
  moreover have "t\<lparr>procs := procs t\<rparr> = t" for t :: "'a proc_state_scheme" by simp
  ultimately show ?thesis
    by (simp only: sleep_def with_myproc_run [OF assms(1,2)] settle_idem)
qed

text \<open>What \<open>wakeup\<close> does to one slot.\<close>

definition woken :: "chan \<Rightarrow> proc \<Rightarrow> proc" where
  "woken c q = (if p_chan q = Some c
     then q\<lparr>p_chan := None, p_state := if p_state q = SLEEPING then RUNNABLE else p_state q\<rparr> else q)"

definition woken_all :: "chan \<Rightarrow> (nat \<Rightarrow> proc) \<Rightarrow> nat \<Rightarrow> proc" where
  "woken_all c T = (\<lambda>p. if p < NPROC then woken c (T p) else T p)"

lemma wake_body:
  "kbind (kget (\<lambda>s. p_chan (procs s p))) (\<lambda>c. kwhen (c = Some ch) (kseq [
      kmod (set_proc p (\<lambda>q. q\<lparr>p_chan := None\<rparr>)),
      kbind (kget (\<lambda>s. p_state (procs s p))) (\<lambda>st.
        kwhen (st = SLEEPING) (kmod (set_proc p (\<lambda>q. q\<lparr>p_state := RUNNABLE\<rparr>))))])) t e =
    (Ret (), t\<lparr>procs := (procs t)(p := woken ch (procs t p))\<rparr>, e)"
  by (cases "p_state (procs t p) = SLEEPING"; cases "p_chan (procs t p) = Some ch"; cases t)
    (auto simp: kret_run kmod_run woken_def kbind_Ret fun_upd_idem)

lemma wake_one_run:
  assumes "intr_ok s" "lock_clean s (ProcLock p)"
  shows "wakeup_one ch p s e = (Ret (), settle (s\<lparr>procs := (procs s)(p := woken ch (procs s p))\<rparr>), e)"
  unfolding wakeup_one_def
  by (rule cs_proc_unit [where g = "\<lambda>t. t(p := woken ch (t p))", OF assms]) (simp only: wake_body procs_acquired)

lemma wake_list_run:
  assumes "intr_ok s" "\<forall>p\<in>set ps. lock_clean s (ProcLock p)" "distinct ps"
  shows "kfor ps (wakeup_one ch) s e =
    (Ret (), (if ps = [] then s else settle (s\<lparr>procs := \<lambda>p. if p \<in> set ps then woken ch (procs s p) else procs s p\<rparr>)), e)"
  using assms
proof (induction ps arbitrary: s)
  case (Cons p ps)
  let ?s = "settle (s\<lparr>procs := (procs s)(p := woken ch (procs s p))\<rparr>)"
  have "wakeup_one ch p s e = (Ret (), ?s, e)" using Cons.prems by (intro wake_one_run) simp_all
  then have "kfor (p # ps) (wakeup_one ch) s e = kfor ps (wakeup_one ch) ?s e"
    by (simp add: kbind_Ret)
  also have "\<dots> = (Ret (), (if ps = [] then ?s else settle (?s\<lparr>procs := \<lambda>p. if p \<in> set ps then woken ch (procs ?s p) else procs ?s p\<rparr>)), e)"
    using Cons.prems by (intro Cons.IH) simp_all
  also have "(\<lambda>q. if q \<in> set ps then woken ch (procs ?s q) else procs ?s q) =
      (\<lambda>q. if q \<in> set (p # ps) then woken ch (procs s q) else procs s q)"
    using Cons.prems(3) by (auto simp: fun_eq_iff)
  finally show ?case by (auto simp: settle_procs fun_eq_iff)
qed (simp add: kret_run)

lemma wakeup_run [k_run]:
  assumes "intr_ok s" "\<forall>p<NPROC. lock_clean s (ProcLock p)"
  shows "wakeup ch s e =
    (Ret (), settle (s\<lparr>procs := woken_all ch (procs s)\<rparr>), e)"
  using wake_list_run [of s "[0..<NPROC]" ch e] assms by (simp add: wakeup_def woken_all_def)

lemma setkilled_run [k_run]:
  assumes "intr_ok s" "lock_clean s (ProcLock p)"
  shows "setkilled p s e = (Ret (), settle (s\<lparr>procs := (procs s)(p := (procs s p)\<lparr>p_killed := 1\<rparr>)\<rparr>), e)"
  unfolding setkilled_def
  by (rule cs_proc_unit [where g = "\<lambda>t. t(p := (t p)\<lparr>p_killed := 1\<rparr>)", OF assms]) (simp add: kmod_run)

lemma killed_run [k_run]:
  assumes "intr_ok s" "lock_clean s (ProcLock p)"
  shows "killed p s e = (Ret (p_killed (procs s p)), settle s, e)"
  unfolding killed_def using assms
  by (subst cs_run [where u = "\<lambda>s. s"]) (simp_all add: kget_run kret_run)

lemma allocpid_run [k_run]:
  assumes "intr_ok s" "lock_clean s PidLock"
  shows "allocpid s e = (Ret (nextpid s), settle (s\<lparr>nextpid := nextpid s + 1\<rparr>), e)"
proof -
  have "cs_comm (\<lambda>s :: 'a proc_state_scheme. s\<lparr>nextpid := nextpid s + 1\<rparr>)"
    by (simp add: cs_comm_def proc_state.splits)
  then show ?thesis
    unfolding allocpid_def using assms
    by (subst cs_run [where u = "\<lambda>s. s\<lparr>nextpid := nextpid s + 1\<rparr>"])
      (simp_all add: kret_run acquired_def pushed_def)
qed

text \<open>What \<open>kkill\<close> does to the slot it finds.\<close>

definition slain :: "proc \<Rightarrow> proc" where
  "slain q = q\<lparr>p_killed := 1, p_state := if p_state q = SLEEPING then RUNNABLE else p_state q\<rparr>"

lemma kill_one_run:
  assumes "intr_ok s" "lock_clean s (ProcLock p)"
  shows "kkill_one pid p s e =
    (if p_pid (procs s p) = pid
     then (Ret (Some ()), settle (s\<lparr>procs := (procs s)(p := slain (procs s p))\<rparr>), e)
     else (Ret None, settle s, e))"
proof (cases "p_pid (procs s p) = pid")
  case True
  note cs = cs_comm_procs [where f = "\<lambda>t. t(p := slain (t p))"]
  have "kbind (kget (\<lambda>s. p_pid (procs s p) = pid)) (\<lambda>b. if b then
           kbind (kmod (set_proc p (\<lambda>q. q\<lparr>p_killed := 1\<rparr>))) (\<lambda>_.
           kbind (kget (\<lambda>s. p_state (procs s p))) (\<lambda>st.
           kbind (kwhen (st = SLEEPING) (kmod (set_proc p (\<lambda>q. q\<lparr>p_state := RUNNABLE\<rparr>)))) (\<lambda>_.
           kret (Some ())))) else kret None) (acquired (ProcLock p) s) e =
      (Ret (Some ()), (acquired (ProcLock p) s)\<lparr>procs := (procs (acquired (ProcLock p) s))
         (p := slain (procs (acquired (ProcLock p) s) p))\<rparr>, e)"
    using True by (simp add: kret_run kwhen_def slain_def)
  then show ?thesis
    unfolding kkill_one_def using True by (subst cs_run [OF assms cs]) (assumption, simp add: kret_run)
next
  case False
  then show ?thesis
    unfolding kkill_one_def
    using assms by (subst cs_run [where u = "\<lambda>s. s" and a = None]) (auto simp: kret_run)
qed

text \<open>The switching branch of \<open>sleep\<close>: the slot is \<open>SLEEPING\<close> when the hart is given up.\<close>

definition asleep :: "nat \<Rightarrow> 'a proc_state_scheme \<Rightarrow> 'a proc_state_scheme" where
  "asleep p s = (acquired (ProcLock p) (settle s))\<lparr>procs := (procs s)(p := (procs s p)\<lparr>p_state := SLEEPING\<rparr>)\<rparr>"

lemma sched_run:
  assumes "curproc s = Some p" "holds s (ProcLock p)" "noff s = 1" "\<not> sie_on s" "p_state (procs s p) \<noteq> RUNNING"
  shows "sched s e = (case e of [] \<Rightarrow> (Stuck, s, [])
    | m # e' \<Rightarrow> (Ret (), set_cpu (\<lambda>c. c\<lparr>c_intena := c_intena (cpus s (tp s))\<rparr>) (m s), e'))"
proof -
  have ok: "intr_ok s" "settle s = s" using assms(3,4) by (simp_all add: intr_ok_def settle_inside)
  have "intr_get s e = (Ret False, s, e)"
    using assms(4) by (simp add: intr_get_def r_sstatus_def kret_run sie_test sie_on_def)
  moreover have "c_noff (cpus s (tp s)) = 1" using assms(3) by (simp add: noff_def)
  ultimately show ?thesis
    unfolding sched_def with_myproc_run [OF ok(1) assms(1)] ok(2)
    using assms(2,5) holding_run [of "ProcLock p" s e]
    by (cases e) (simp_all add: kbind_Ret kbind_Stuck kmod_run)
qed

lemma sleep_switches:
  assumes "intr_ok s" "noff s = 0" "curproc s = Some p" "lock_clean s (ProcLock p)" "p_chan (procs s p) \<noteq> None"
  shows "sleep s [] = (Stuck, asleep p s, [])"
    and "sleep s (m # e) = release (ProcLock p)
      (set_cpu (\<lambda>c. c\<lparr>c_intena := c_intena (cpus (asleep p s) (tp s))\<rparr>) (m (asleep p s))) e"
proof -
  let ?a = "acquired (ProcLock p) (settle s)"
  have acq: "acquire (ProcLock p) (settle s) e' = (Ret (), ?a, e')" for e'
    using assms(4) by (simp add: acquire_free lock_clean_def)
  have sch: "sched (asleep p s) e' = (case e' of [] \<Rightarrow> (Stuck, asleep p s, [])
    | m # e'' \<Rightarrow> (Ret (), set_cpu (\<lambda>c. c\<lparr>c_intena := c_intena (cpus (asleep p s) (tp (asleep p s)))\<rparr>) (m (asleep p s)), e''))" for e'
    using assms acquired_frame(3-5) [of "ProcLock p" "settle s"]
    by (intro sched_run) (auto simp: asleep_def curproc_def holds_def noff_def sie_on_def acquired_def pushed_def settle_def)
  have run: "sleep s e' = kbind sched (\<lambda>_. release (ProcLock p)) (asleep p s) e'" for e'
    using assms(5) acq [of e']
    by (simp add: sleep_def with_myproc_run [OF assms(1,3)] kbind_Ret kbind_kret_unit kbind_assoc asleep_def)
  have tp: "tp (asleep p s) = tp s" by (simp add: asleep_def)
  show "sleep s [] = (Stuck, asleep p s, [])" unfolding run by (simp add: kbind_Stuck sch)
  show "sleep s (m # e) = release (ProcLock p)
      (set_cpu (\<lambda>c. c\<lparr>c_intena := c_intena (cpus (asleep p s) (tp s))\<rparr>) (m (asleep p s))) e"
    unfolding run by (simp add: kbind_Ret sch tp)
qed

section \<open>Interleavings of the sections\<close>

text \<open>
  Each critical section on a slot's lock is one event.  \<open>EvSleep\<close> is the section of
  \<open>sleep\<close> up to the switch, \<open>EvWake\<close> is one round of the loop in \<open>wakeup\<close>, and
  \<open>EvRun\<close> is the section in which the scheduler picks the process.
\<close>

datatype pevent =
    EvPrepare nat chan | EvSleep nat | EvWake chan nat | EvKill nat | EvRun nat | EvYield nat

inductive pstep :: "(nat \<Rightarrow> proc) \<Rightarrow> pevent \<Rightarrow> (nat \<Rightarrow> proc) \<Rightarrow> bool" where
  st_prepare: "p_state (T p) = RUNNING \<Longrightarrow> pstep T (EvPrepare p c) (T(p := (T p)\<lparr>p_chan := Some c\<rparr>))"
| st_sleep: "p_state (T p) = RUNNING \<Longrightarrow> p_chan (T p) \<noteq> None \<Longrightarrow>
    pstep T (EvSleep p) (T(p := (T p)\<lparr>p_state := SLEEPING\<rparr>))"
| st_nosleep: "p_state (T p) = RUNNING \<Longrightarrow> p_chan (T p) = None \<Longrightarrow> pstep T (EvSleep p) T"
| st_wake: "pstep T (EvWake c p) (T(p := woken c (T p)))"
| st_kill: "pstep T (EvKill p) (T(p := slain (T p)))"
| st_run: "p_state (T p) = RUNNABLE \<Longrightarrow> pstep T (EvRun p) (T(p := (T p)\<lparr>p_state := RUNNING\<rparr>))"
| st_yield: "p_state (T p) = RUNNING \<Longrightarrow> pstep T (EvYield p) (T(p := (T p)\<lparr>p_state := RUNNABLE\<rparr>))"

inductive_cases pstepE: "pstep T ev T'"

text \<open>A history, the newest event first.\<close>

inductive phist :: "(nat \<Rightarrow> proc) \<Rightarrow> pevent list \<Rightarrow> (nat \<Rightarrow> proc) \<Rightarrow> bool" for T0 where
  h_start: "phist T0 [] T0"
| h_step: "phist T0 evs T \<Longrightarrow> pstep T ev T' \<Longrightarrow> phist T0 (ev # evs) T'"

text \<open>The announcement of \<open>c\<close> by \<open>p\<close> is still pending in a history.\<close>

fun pending :: "nat \<Rightarrow> chan \<Rightarrow> pevent list \<Rightarrow> bool" where
  "pending p c [] = False"
| "pending p c (ev # evs) =
     (case ev of
        EvPrepare q d \<Rightarrow> (if q = p then d = c else pending p c evs)
      | EvWake d q \<Rightarrow> (d, q) \<noteq> (c, p) \<and> pending p c evs
      | _ \<Rightarrow> pending p c evs)"

lemma pending_split:
  "pending p c evs \<longleftrightarrow> (\<exists>us vs. evs = us @ EvPrepare p c # vs \<and> EvWake c p \<notin> set us \<and> (\<forall>d. EvPrepare p d \<notin> set us))"
proof
  show "pending p c evs \<Longrightarrow> \<exists>us vs. evs = us @ EvPrepare p c # vs \<and> EvWake c p \<notin> set us \<and> (\<forall>d. EvPrepare p d \<notin> set us)"
  proof (induction evs)
    case (Cons ev evs)
    show ?case
    proof (cases "ev = EvPrepare p c")
      case True
      then show ?thesis by (intro exI [of _ "[]"] exI [of _ evs]) simp
    next
      case False
      with Cons.prems have "pending p c evs" "ev \<noteq> EvWake c p" "\<forall>d. ev \<noteq> EvPrepare p d"
        by (auto split: pevent.splits if_splits)
      with Cons.IH obtain us vs where "evs = us @ EvPrepare p c # vs" "EvWake c p \<notin> set us" "\<forall>d. EvPrepare p d \<notin> set us"
        by blast
      then show ?thesis
        using \<open>ev \<noteq> EvWake c p\<close> \<open>\<forall>d. ev \<noteq> EvPrepare p d\<close> by (intro exI [of _ "ev # us"] exI [of _ vs]) auto
    qed
  qed simp
  show "\<exists>us vs. evs = us @ EvPrepare p c # vs \<and> EvWake c p \<notin> set us \<and> (\<forall>d. EvPrepare p d \<notin> set us) \<Longrightarrow> pending p c evs"
  proof (induction evs)
    case (Cons ev evs)
    then obtain us vs where u: "ev # evs = us @ EvPrepare p c # vs" "EvWake c p \<notin> set us" "\<forall>d. EvPrepare p d \<notin> set us"
      by blast
    show ?case
    proof (cases us)
      case Nil
      then show ?thesis using u by simp
    next
      case (Cons u us')
      then have "pending p c evs" using u Cons.IH by auto
      then show ?thesis using u Cons by (auto split: pevent.split)
    qed
  qed simp
qed

lemma phist_inv:
  assumes "phist T0 evs T" "\<forall>q. p_chan (T0 q) = None \<and> p_state (T0 q) \<noteq> SLEEPING"
  shows "(\<forall>p c. p_chan (T p) = Some c \<longrightarrow> pending p c evs) \<and> (\<forall>p. p_state (T p) = SLEEPING \<longrightarrow> p_chan (T p) \<noteq> None)"
  using assms
proof (induction rule: phist.induct)
  case (h_step evs T ev T')
  then have I: "\<forall>p c. p_chan (T p) = Some c \<longrightarrow> pending p c evs" "\<forall>p. p_state (T p) = SLEEPING \<longrightarrow> p_chan (T p) \<noteq> None"
    by auto
  from h_step.hyps(2) show ?case
    by (cases rule: pstep.cases) (use I in \<open>auto simp: woken_def slain_def split: if_splits\<close>)
qed auto

text \<open>The operations perform these events.\<close>

lemma sleep_prepare_event:
  assumes "intr_ok s" "curproc s = Some p" "lock_clean s (ProcLock p)" "p_state (procs s p) = RUNNING"
    and "sleep_prepare (Some c) s e = (Ret (), s', e')"
  shows "pstep (procs s) (EvPrepare p c) (procs s')"
  using sleep_prepare_run [OF assms(1-3), of c e] assms(4,5) st_prepare [of "procs s" p c] by auto

lemma sleep_event:
  assumes "intr_ok s" "noff s = 0" "curproc s = Some p" "lock_clean s (ProcLock p)" "p_state (procs s p) = RUNNING"
  shows "pstep (procs s) (EvSleep p) (procs (fst (snd (sleep s []))))"
proof (cases "p_chan (procs s p) = None")
  case True
  then show ?thesis using sleep_no_chan [OF assms(1,3,4) True, of "[]"] st_nosleep [of "procs s" p] assms(5) by simp
next
  case False
  then show ?thesis using sleep_switches(1) [OF assms(1-4)] st_sleep [of "procs s" p] assms(5) by (simp add: asleep_def)
qed

lemma wake_one_event:
  assumes "intr_ok s" "lock_clean s (ProcLock p)" "wakeup_one c p s e = (Ret (), s', e')"
  shows "pstep (procs s) (EvWake c p) (procs s')"
  using wake_one_run [OF assms(1,2), of c e] assms(3) st_wake [of "procs s" c p] by auto

lemma kill_one_event:
  assumes "intr_ok s" "lock_clean s (ProcLock p)" "kkill_one pid p s e = (Ret (Some ()), s', e')"
  shows "pstep (procs s) (EvKill p) (procs s')"
  using kill_one_run [OF assms(1,2), of pid e] assms(3) st_kill [of "procs s" p] by (auto split: if_splits)

text \<open>\<open>yield\<close> and the scheduler's section up to the switch, where the interference begins.\<close>

lemma yield_event:
  assumes "intr_ok s" "noff s = 0" "curproc s = Some p" "lock_clean s (ProcLock p)" "p_state (procs s p) = RUNNING"
  shows "fst (yield s []) = Stuck \<and> pstep (procs s) (EvYield p) (procs (fst (snd (yield s []))))"
proof -
  let ?a = "acquired (ProcLock p) (settle s)"
  define t where "t = ?a\<lparr>procs := (procs s)(p := (procs s p)\<lparr>p_state := RUNNABLE\<rparr>)\<rparr>"
  have acq: "acquire (ProcLock p) (settle s) [] = (Ret (), ?a, [])" using assms(4) by (simp add: acquire_free lock_clean_def)
  have "sched t [] = (Stuck, t, [])"
    using assms acquired_frame(3-5) [of "ProcLock p" "settle s"] sched_run [of t p "[]"]
    by (auto simp: t_def curproc_def holds_def noff_def sie_on_def acquired_def pushed_def settle_def)
  then have "yield s [] = (Stuck, t, [])"
    by (simp add: yield_def with_myproc_run [OF assms(1,3)] kbind_Ret acq kbind_Stuck t_def)
  then show ?thesis using st_yield [of "procs s" p] assms(5) by (simp add: t_def)
qed

lemma run_event:
  assumes "lock_clean s (ProcLock p)" "p_state (procs s p) = RUNNABLE"
  shows "fst (scheduler_slot c p s []) = Stuck \<and> pstep (procs s) (EvRun p) (procs (fst (snd (scheduler_slot c p s []))))"
proof -
  have "acquire (ProcLock p) s [] = (Ret (), acquired (ProcLock p) s, [])" using assms(1) by (simp add: acquire_free lock_clean_def)
  then show ?thesis using assms(2) st_run [of "procs s" p] by (simp add: scheduler_slot_def kbind_Ret kbind_Stuck kwhen_def kenv_def)
qed

text \<open>The search loop of \<open>kkill\<close>.\<close>

lemma kill_scan_none:
  assumes "intr_ok s" "\<forall>p\<in>set ps. lock_clean s (ProcLock p) \<and> p_pid (procs s p) \<noteq> pid"
  shows "kfind ps (kkill_one pid) s e = (Ret None, (if ps = [] then s else settle s), e)"
  using assms
proof (induction ps arbitrary: s)
  case (Cons p ps)
  have "kkill_one pid p s e = (Ret None, settle s, e)" using kill_one_run [of s p pid e] Cons.prems by simp
  moreover have "kfind ps (kkill_one pid) (settle s) e = (Ret None, (if ps = [] then settle s else settle (settle s)), e)"
    using Cons.prems by (intro Cons.IH) simp_all
  ultimately show ?case by (simp add: kbind_Ret)
qed (simp add: kret_run)

lemma kfind_append:
  "kfind (xs @ ys) b = kbind (kfind xs b) (\<lambda>r. case r of None \<Rightarrow> kfind ys b | Some v \<Rightarrow> kret (Some v))"
proof (induction xs)
  case (Cons x xs)
  have "(\<lambda>r. kbind (case r of None \<Rightarrow> kfind xs b | Some v \<Rightarrow> kret (Some v))
        (\<lambda>r. case r of None \<Rightarrow> kfind ys b | Some v \<Rightarrow> kret (Some v))) =
      (\<lambda>r. case r of None \<Rightarrow> kfind (xs @ ys) b | Some v \<Rightarrow> kret (Some v))"
    by (rule ext) (simp add: Cons.IH split: option.split)
  then show ?case by (simp add: kbind_assoc)
qed simp

section \<open>A concrete process table\<close>

definition blank_proc :: proc where
  "blank_proc = \<lparr>p_state = RUNNING, p_chan = None, p_killed = 0, p_xstate = 0, p_pid = 1, p_parent = None,
     p_kstack = 0, p_sz = 0, p_pagetable = 0, p_trapframe = 0, p_context = zero_context,
     p_ofile = (\<lambda>_. None), p_cwd = None, p_name = []\<rparr>"

definition boot_proc :: proc_state where
  "boot_proc = vm_state.extend (kmem_state.extend
     ((boot_kmem 0x87ff0000)\<lparr>cpus := (cpus boot_spin)(0 := (cpus boot_spin 0)\<lparr>c_proc := Some 3\<rparr>)\<rparr>)
     \<lparr>kernel_pagetable = 0, satp = (\<lambda>_. 0), etext = 0, trampoline = 0\<rparr>)
     \<lparr>procs = (\<lambda>p. blank_proc\<lparr>p_pid := int p\<rparr>)(5 := blank_proc\<lparr>p_pid := 5, p_state := SLEEPING, p_chan := Some ChLog\<rparr>),
      initproc = None, nextpid = 1, forkret_addr = 0, lbuf = (\<lambda>_. 0)\<rparr>"

lemma boot_proc_ok: "intr_ok boot_proc" "curproc boot_proc = Some 3" "lock_clean boot_proc lk" "noff boot_proc = 0"
  "procs boot_proc = (\<lambda>p. blank_proc\<lparr>p_pid := int p\<rparr>)(5 := blank_proc\<lparr>p_pid := 5, p_state := SLEEPING, p_chan := Some ChLog\<rparr>)"
  unfolding boot_proc_def vm_state.extend_def kmem_state.extend_def boot_kmem_def spin.extend_def boot_spin_def
  by (simp_all add: intr_ok_def noff_def sie_on_def curproc_def lock_clean_def)

section \<open>Properties\<close>

text \<open>
  C3: no wakeup is lost.  In every interleaving of the critical sections of
  \<open>sleep_prepare\<close>, \<open>sleep\<close>, \<open>wakeup\<close>, \<open>kkill\<close>, \<open>yield\<close> and the scheduler, a process that
  is asleep has announced a channel and no \<open>wakeup\<close> on that channel has visited it since
  the announcement.
\<close>

theorem no_lost_wakeup:
  assumes "phist T0 evs T" "\<forall>q. p_chan (T0 q) = None \<and> p_state (T0 q) \<noteq> SLEEPING"
    and "p_state (T p) = SLEEPING"
  shows "\<exists>c us vs. p_chan (T p) = Some c \<and> evs = us @ EvPrepare p c # vs \<and>
           EvWake c p \<notin> set us \<and> (\<forall>d. EvPrepare p d \<notin> set us)"
proof -
  obtain c where c: "p_chan (T p) = Some c" using phist_inv [OF assms(1,2)] assms(3) by auto
  then have "pending p c evs" using phist_inv [OF assms(1,2)] by simp
  with c show ?thesis unfolding pending_split by auto
qed

text \<open>
  C20: a wakeup between the announcement and \<open>sleep\<close> is seen.  When a process announces a
  channel, the channel is woken, and the process then calls \<open>sleep\<close>, it does not give up
  the hart; afterwards no process waits on the channel, every process that slept on it is
  runnable, and no other slot has changed.
\<close>

theorem sleep_wakeup_race:
  assumes "intr_ok s" "curproc s = Some p" "p < NPROC" "\<forall>q<NPROC. lock_clean s (ProcLock q)"
  shows "\<exists>s'. kseq [sleep_prepare (Some c), wakeup c, sleep] s e = (Ret (), s', e) \<and>
    (\<forall>q<NPROC. p_chan (procs s' q) \<noteq> Some c \<and>
       (p_chan (procs s q) = Some c \<and> p_state (procs s q) = SLEEPING \<longrightarrow> p_state (procs s' q) = RUNNABLE) \<and>
       (p_chan (procs s q) \<noteq> Some c \<and> q \<noteq> p \<longrightarrow> procs s' q = procs s q))"
proof -
  define s1 where "s1 = settle (s\<lparr>procs := (procs s)(p := (procs s p)\<lparr>p_chan := Some c\<rparr>)\<rparr>)"
  define s2 where "s2 = settle (s1\<lparr>procs := woken_all c (procs s1)\<rparr>)"
  have "sleep_prepare (Some c) s e = (Ret (), s1, e)"
    unfolding s1_def using assms by (intro sleep_prepare_run) simp_all
  moreover have "wakeup c s1 e = (Ret (), s2, e)"
    unfolding s2_def using assms by (intro wakeup_run) (simp_all add: s1_def)
  moreover have "sleep s2 e = (Ret (), settle s2, e)"
    using assms by (intro sleep_no_chan [of _ p]) (simp_all add: s1_def s2_def woken_all_def woken_def)
  ultimately have "kseq [sleep_prepare (Some c), wakeup c, sleep] s e = (Ret (), settle s2, e)"
    by (simp add: kbind_Ret kret_run)
  then show ?thesis
    using assms(3) by (intro exI [of _ "settle s2"]) (auto simp: s1_def s2_def woken_all_def woken_def)
qed

text \<open>
  C21: \<open>kkill\<close> marks the process with the given pid, and only it: the first slot with that
  pid gets its killed flag and, if it sleeps, becomes runnable; the result is 0.  When no
  slot has the pid, the result is -1 and the table is unchanged.
\<close>

theorem kkill_spec:
  assumes "intr_ok s" "\<forall>q<NPROC. lock_clean s (ProcLock q)"
  shows "(\<forall>p<NPROC. p_pid (procs s p) = pid \<and> (\<forall>q<p. p_pid (procs s q) \<noteq> pid) \<longrightarrow>
           (\<exists>s'. kkill pid s e = (Ret 0, s', e) \<and> procs s' = (procs s)(p := slain (procs s p)))) \<and>
         ((\<forall>p<NPROC. p_pid (procs s p) \<noteq> pid) \<longrightarrow>
           (\<exists>s'. kkill pid s e = (Ret (- 1), s', e) \<and> procs s' = procs s))"
proof (intro conjI allI impI)
  fix p assume p: "p < NPROC" and first: "p_pid (procs s p) = pid \<and> (\<forall>q<p. p_pid (procs s q) \<noteq> pid)"
  define t where "t = (if [0..<p] = [] then s else settle s)"
  have t: "intr_ok t" "procs t = procs s" "lock_clean t (ProcLock p)" using assms p by (simp_all add: t_def)
  have "kfind [0..<p] (kkill_one pid) s e = (Ret None, t, e)"
    unfolding t_def using assms p first by (intro kill_scan_none) auto
  moreover have "kkill_one pid p t e = (Ret (Some ()), settle (t\<lparr>procs := (procs s)(p := slain (procs s p))\<rparr>), e)"
    using kill_one_run [OF t(1,3), of pid e] first t(2) by simp
  ultimately have "kfind [0..<NPROC] (kkill_one pid) s e =
      (Ret (Some ()), settle (t\<lparr>procs := (procs s)(p := slain (procs s p))\<rparr>), e)"
    unfolding upt_split_at [OF p] by (simp add: kfind_append kbind_Ret kret_run)
  then show "\<exists>s'. kkill pid s e = (Ret 0, s', e) \<and> procs s' = (procs s)(p := slain (procs s p))"
    by (auto simp: kkill_def kbind_Ret kret_run)
next
  assume "\<forall>p<NPROC. p_pid (procs s p) \<noteq> pid"
  then have "kfind [0..<NPROC] (kkill_one pid) s e = (Ret None, settle s, e)"
    using kill_scan_none [of s "[0..<NPROC]" pid e] assms by simp
  then show "\<exists>s'. kkill pid s e = (Ret (- 1), s', e) \<and> procs s' = procs s"
    by (auto simp: kkill_def kbind_Ret kret_run)
qed

theorem no_lost_wakeup_witness:
  "\<exists>evs T. phist (\<lambda>_. blank_proc) evs T \<and> p_state (T 3) = SLEEPING \<and>
     (\<exists>c us vs. p_chan (T 3) = Some c \<and> evs = us @ EvPrepare 3 c # vs \<and> EvWake c 3 \<notin> set us)"
proof -
  let ?T1 = "(\<lambda>_ :: nat. blank_proc)(3 := blank_proc\<lparr>p_chan := Some ChLog\<rparr>)"
  let ?T2 = "?T1(3 := (?T1 3)\<lparr>p_state := SLEEPING\<rparr>)"
  have "phist (\<lambda>_. blank_proc) [EvPrepare 3 ChLog] ?T1"
    using h_step [OF h_start st_prepare [of "\<lambda>_. blank_proc" 3 ChLog]] by (simp add: blank_proc_def)
  from h_step [OF this st_sleep [of ?T1 3]] have h: "phist (\<lambda>_. blank_proc) [EvSleep 3, EvPrepare 3 ChLog] ?T2"
    by (simp add: blank_proc_def)
  have s: "p_state (?T2 3) = SLEEPING" by simp
  have f: "\<forall>q. p_chan blank_proc = None \<and> p_state blank_proc \<noteq> SLEEPING" for q :: nat by (simp add: blank_proc_def)
  show ?thesis
    using no_lost_wakeup [OF h, of 3] f h s by blast
qed

theorem sleep_wakeup_race_witness:
  "\<exists>s'. kseq [sleep_prepare (Some ChLog), wakeup ChLog, sleep] boot_proc [] = (Ret (), s', []) \<and>
     p_state (procs s' 5) = RUNNABLE"
  using sleep_wakeup_race [of boot_proc 3 ChLog "[]"] by (auto simp: boot_proc_ok)

theorem kkill_spec_witness:
  "(\<exists>s'. kkill 5 boot_proc [] = (Ret 0, s', []) \<and> p_killed (procs s' 5) = 1) \<and>
   (\<exists>s'. kkill 99 boot_proc [] = (Ret (- 1), s', []))"
proof
  have five: "p_pid (procs boot_proc 5) = 5 \<and> (\<forall>q<5. p_pid (procs boot_proc q) \<noteq> 5)"
    by (auto simp: boot_proc_ok)
  have ok: "\<forall>q<NPROC. lock_clean boot_proc (ProcLock q)" by (simp add: boot_proc_ok)
  show "\<exists>s'. kkill 5 boot_proc [] = (Ret 0, s', []) \<and> p_killed (procs s' 5) = 1"
    using kkill_spec [OF boot_proc_ok(1) ok, of 5 "[]", THEN conjunct1, THEN spec, of 5] five
    by (auto simp: slain_def)
  have "\<forall>p<NPROC. p_pid (procs boot_proc p) \<noteq> 99" by (auto simp: boot_proc_ok)
  then show "\<exists>s'. kkill 99 boot_proc [] = (Ret (- 1), s', [])"
    using kkill_spec [OF boot_proc_ok(1) ok, of 99 "[]"] by blast
qed

end
