(* ===== verification/VmTables.thy ===== *)
theory VmTables
  imports Vm
begin

unbundle bit_operations_syntax

text \<open>
  Page tables as trees in physical memory: the pages a table consists of, the leaf entry
  an address is translated by, and how the writes of \<open>walk\<close>, \<open>mappages\<close> and
  \<open>uvmunmap\<close> change them.  The statements here are about memories; the theory
  \<open>VmProps\<close> lifts them to the operations.
\<close>

section \<open>Tables and leaf entries\<close>

fun tables :: "memory \<Rightarrow> nat \<Rightarrow> uint64 \<Rightarrow> uint64 list" where
  "tables m 0 pt = [pt]"
| "tables m (Suc l) pt = pt # concat (map (\<lambda>i.
     let pte = load64 m (pt + 8 * of_nat i)
     in if pte AND PTE_V \<noteq> 0 then tables m l (PTE2PA pte) else []) [0..<512])"

fun leaf_table :: "memory \<Rightarrow> nat \<Rightarrow> uint64 \<Rightarrow> uint64 \<Rightarrow> uint64 option" where
  "leaf_table m 0 pt va = Some pt"
| "leaf_table m (Suc l) pt va =
     (let pte = load64 m (pt + 8 * PX (Suc l) va)
      in if pte AND PTE_V \<noteq> 0 then leaf_table m l (PTE2PA pte) va else None)"

definition leaf_pte :: "memory \<Rightarrow> nat \<Rightarrow> uint64 \<Rightarrow> uint64 \<Rightarrow> uint64" where
  "leaf_pte m l pt va =
     (case leaf_table m l pt va of None \<Rightarrow> 0 | Some t \<Rightarrow> load64 m (t + 8 * PX 0 va))"

definition subtables :: "memory \<Rightarrow> nat \<Rightarrow> uint64 \<Rightarrow> nat \<Rightarrow> uint64 list" where
  "subtables m l pt i =
     (let pte = load64 m (pt + 8 * of_nat i)
      in if pte AND PTE_V \<noteq> 0 then tables m l (PTE2PA pte) else [])"

lemma tables_Suc: "tables m (Suc l) pt = pt # concat (map (subtables m l pt) [0..<512])"
  by (simp add: subtables_def [abs_def])

declare tables.simps(2) [simp del]

lemma leaf_pte_0 [simp]: "leaf_pte m 0 pt va = load64 m (pt + 8 * PX 0 va)"
  by (simp add: leaf_pte_def)

lemma leaf_pte_Suc:
  "leaf_pte m (Suc l) pt va =
     (let pte = load64 m (pt + 8 * PX (Suc l) va)
      in if pte AND PTE_V \<noteq> 0 then leaf_pte m l (PTE2PA pte) va else 0)"
  by (simp add: leaf_pte_def Let_def)

section \<open>Slots of a table\<close>

lemma PX_less: "unat (PX l va) < 512"
proof -
  have "(0x1FF :: uint64) = mask 9" by (simp add: mask_eq_exp_minus_1)
  then have "PX l va = take_bit 9 (drop_bit (PXSHIFT l) va)"
    by (simp add: PX_def take_bit_eq_mask)
  then have "unat (PX l va) = unat (drop_bit (PXSHIFT l) va) mod 512"
    by (simp add: take_bit_eq_mod unat_mod)
  then show ?thesis by simp
qed

lemma PX_of_nat: "PX l va = of_nat (unat (PX l va))"
  by simp

lemma pg_aligned_PTE2PA [simp]: "pg_aligned (PTE2PA v)"
  by (simp add: pg_aligned_bits PTE2PA_def bit_push_bit_iff)

lemma slot_page:
  assumes "pg_aligned t" "i < 512" "j < 8"
  shows "PGROUNDDOWN (t + 8 * of_nat i + of_nat j) = t"
proof -
  have "t + 8 * of_nat i + of_nat j = t + of_nat (8 * i + j)" by (simp add: add.assoc)
  with assms PGROUNDDOWN_off [OF assms(1), of "8 * i + j"] show ?thesis by (simp only:)
qed

lemma slot_page0: "pg_aligned t \<Longrightarrow> i < 512 \<Longrightarrow> PGROUNDDOWN (t + 8 * of_nat i) = t"
  using slot_page [of t i 0] by simp

lemma slot_al8: "pg_aligned t \<Longrightarrow> al8 (t + 8 * of_nat i)"
proof -
  assume "pg_aligned t"
  then have "8 dvd uint t" by (auto simp: pg_aligned_uint intro: dvd_trans [of 8 4096])
  moreover have "8 dvd uint (8 * of_nat i :: uint64)"
    by (simp add: uint_word_ariths dvd_mod)
  ultimately have "8 dvd uint (t + 8 * of_nat i)" by (intro dvd_word_ariths) simp_all
  then show ?thesis by (simp add: al8_def word_uint_eq_iff uint_mod dvd_eq_mod_eq_0)
qed

lemma slot_inj:
  assumes "i < 512" "j < 512" "t + 8 * of_nat i = t + (8 * of_nat j :: uint64)"
  shows "i = j"
proof -
  have "(of_nat (8 * i) :: uint64) = of_nat (8 * j)" using assms(3) by simp
  then have "unat (of_nat (8 * i) :: uint64) = unat (of_nat (8 * j) :: uint64)" by simp
  moreover have "unat (of_nat (8 * i) :: uint64) = 8 * i" "unat (of_nat (8 * j) :: uint64) = 8 * j"
    using assms(1,2) by (intro unat_of_nat_less; simp)+
  ultimately show ?thesis by linarith
qed

text \<open>Two memories that agree on a set of pages.\<close>

definition agree :: "uint64 set \<Rightarrow> memory \<Rightarrow> memory \<Rightarrow> bool" where
  "agree P m m' \<longleftrightarrow> (\<forall>x. PGROUNDDOWN x \<in> P \<longrightarrow> m' x = m x)"

lemma agree_mono: "agree P m m' \<Longrightarrow> Q \<subseteq> P \<Longrightarrow> agree Q m m'"
  by (auto simp: agree_def)

lemma agree_trans: "agree P m m1 \<Longrightarrow> agree P m1 m2 \<Longrightarrow> agree P m m2"
  by (simp add: agree_def)

lemma agree_slot:
  assumes "agree P m m'" "t \<in> P" "pg_aligned t" "i < 512"
  shows "load64 m' (t + 8 * of_nat i) = load64 m (t + 8 * of_nat i)"
  using assms by (intro load64_cong) (simp add: agree_def slot_page)

lemma agree_PX:
  assumes "agree P m m'" "t \<in> P" "pg_aligned t"
  shows "load64 m' (t + 8 * PX k va) = load64 m (t + 8 * PX k va)"
  using agree_slot [OF assms PX_less [of k va]] by simp

lemma tables_root: "pt \<in> set (tables m l pt)"
  by (cases l) (simp_all add: tables_Suc)

lemma subtables_subset: "i < 512 \<Longrightarrow> set (subtables m l pt i) \<subseteq> set (tables m (Suc l) pt)"
  by (force simp: tables_Suc)

lemma tables_agree:
  assumes "agree (set (tables m l pt)) m m'" "pg_aligned pt"
  shows "tables m' l pt = tables m l pt" "leaf_table m' l pt va = leaf_table m l pt va"
    "leaf_pte m' l pt va = leaf_pte m l pt va"
proof -
  have "tables m' l pt = tables m l pt \<and> leaf_table m' l pt va = leaf_table m l pt va \<and>
      leaf_pte m' l pt va = leaf_pte m l pt va"
    using assms
  proof (induction l arbitrary: pt)
    case 0
    then show ?case using agree_PX [OF 0(1)] by simp
  next
    case (Suc l)
    have e: "load64 m' (pt + 8 * of_nat i) = load64 m (pt + 8 * of_nat i)" if "i < 512" for i
      using Suc.prems that by (intro agree_slot) (auto simp: tables_Suc)
    have sub: "subtables m' l pt i = subtables m l pt i" if "i < 512" for i
      using Suc.IH [of "PTE2PA (load64 m (pt + 8 * of_nat i))"] e [OF that]
        agree_mono [OF Suc.prems(1) subtables_subset [OF that]]
      by (auto simp: subtables_def Let_def)
    have x: "load64 m' (pt + 8 * PX (Suc l) va) = load64 m (pt + 8 * PX (Suc l) va)"
      using e [OF PX_less [of "Suc l" va]] by simp
    let ?c = "load64 m (pt + 8 * PX (Suc l) va)"
    have "agree (set (tables m l (PTE2PA ?c))) m m'" if "?c AND PTE_V \<noteq> 0"
      using agree_mono [OF Suc.prems(1) subtables_subset [OF PX_less [of "Suc l" va], of m l pt]] that
      by (simp add: subtables_def)
    then have "leaf_table m' (Suc l) pt va = leaf_table m (Suc l) pt va \<and>
        leaf_pte m' (Suc l) pt va = leaf_pte m (Suc l) pt va"
      using Suc.IH [of "PTE2PA ?c"] x by (auto simp: leaf_pte_Suc Let_def)
    moreover have "tables m' (Suc l) pt = tables m (Suc l) pt"
      unfolding tables_Suc using sub by (auto intro!: arg_cong [where f = concat] map_cong)
    ultimately show ?case by simp
  qed
  then show "tables m' l pt = tables m l pt" "leaf_table m' l pt va = leaf_table m l pt va"
    "leaf_pte m' l pt va = leaf_pte m l pt va" by simp_all
qed

lemma leaf_table_in: "leaf_table m l pt va = Some t \<Longrightarrow> t \<in> set (tables m l pt)"
proof (induction l arbitrary: pt)
  case (Suc l)
  then have "t \<in> set (subtables m l pt (unat (PX (Suc l) va)))"
    by (auto simp: subtables_def Let_def split: if_splits)
  then show ?case using subtables_subset [OF PX_less [of "Suc l" va]] by blast
qed simp

lemma leaf_table_aligned: "leaf_table m l pt va = Some t \<Longrightarrow> pg_aligned pt \<Longrightarrow> pg_aligned t"
proof (induction l arbitrary: pt)
  case (Suc l)
  from Suc.prems(1) have "leaf_table m l (PTE2PA (load64 m (pt + 8 * PX (Suc l) va))) va = Some t"
    by (simp add: Let_def split: if_splits)
  then show ?case by (rule Suc.IH) simp
qed simp

lemma distinct_concat_upt:
  "distinct (concat (map f [0..<n])) \<longleftrightarrow>
     (\<forall>i<n. distinct (f i)) \<and> (\<forall>j<n. \<forall>i<j. set (f i) \<inter> set (f j) = {})"
proof (induction n)
  case (Suc n)
  have "distinct (concat (map f [0..<Suc n])) \<longleftrightarrow>
      distinct (concat (map f [0..<n])) \<and> distinct (f n) \<and> (\<forall>i<n. set (f i) \<inter> set (f n) = {})"
    by (simp add: atLeast0LessThan) blast
  then show ?case unfolding Suc.IH All_less_Suc by blast
qed simp

section \<open>Well-formed tables\<close>

text \<open>
  \<open>F\<close> are the pages the allocator may still hand out and \<open>K\<close> the pages it may ever
  hand out.  A table is well formed when its pages are pairwise different pages that have
  been handed out.
\<close>

definition pt_wf :: "memory \<Rightarrow> uint64 set \<Rightarrow> (uint64 \<Rightarrow> bool) \<Rightarrow> nat \<Rightarrow> uint64 \<Rightarrow> bool" where
  "pt_wf m F K l pt \<longleftrightarrow>
     pg_aligned pt \<and> distinct (tables m l pt) \<and> (\<forall>t\<in>set (tables m l pt). K t \<and> t \<notin> F)"

text \<open>What \<open>walk\<close> with allocation may do to memory: it adds free pages to the table.\<close>

definition grows :: "memory \<Rightarrow> uint64 set \<Rightarrow> memory \<Rightarrow> uint64 set \<Rightarrow> nat \<Rightarrow> uint64 \<Rightarrow> bool" where
  "grows m F m' F' l pt \<longleftrightarrow>
     F' \<subseteq> F \<and> set (tables m' l pt) = set (tables m l pt) \<union> (F - F') \<and>
     agree (- (set (tables m l pt) \<union> F)) m m' \<and> (\<forall>va. leaf_pte m' l pt va = leaf_pte m l pt va)"

lemma grows_refl: "grows m F m F l pt"
  by (auto simp: grows_def agree_def)

lemma agree_comp:
  "agree (- A) m m1 \<Longrightarrow> agree (- B) m1 m2 \<Longrightarrow> B \<subseteq> A \<union> C \<Longrightarrow> agree (- (A \<union> C)) m m2"
  by (auto simp: agree_def)

lemma grows_trans:
  assumes "grows m F m1 F1 l pt" "grows m1 F1 m2 F2 l pt"
  shows "grows m F m2 F2 l pt"
proof -
  have "set (tables m1 l pt) \<union> F1 \<subseteq> set (tables m l pt) \<union> F" using assms by (auto simp: grows_def)
  then have "agree (- (set (tables m l pt) \<union> F)) m1 m2"
    using assms(2) by (auto simp: grows_def elim: agree_mono)
  then show ?thesis using assms by (auto simp: grows_def elim: agree_trans)
qed

lemma subtables_PX:
  "pte = load64 m (pt + 8 * PX (Suc l) va) \<Longrightarrow> pte AND PTE_V \<noteq> 0 \<Longrightarrow>
   subtables m l pt (unat (PX (Suc l) va)) = tables m l (PTE2PA pte)"
  by (simp add: subtables_def)

lemma pt_wf_sub:
  assumes "pt_wf m F K (Suc l) pt" "i < 512"
  shows "pt \<notin> set (subtables m l pt i)" "distinct (subtables m l pt i)"
    "j < 512 \<Longrightarrow> i \<noteq> j \<Longrightarrow> set (subtables m l pt i) \<inter> set (subtables m l pt j) = {}"
    "\<forall>t\<in>set (subtables m l pt i). K t \<and> t \<notin> F"
proof -
  have d: "distinct (tables m (Suc l) pt)" and k: "\<forall>t\<in>set (tables m (Suc l) pt). K t \<and> t \<notin> F"
    using assms(1) by (auto simp: pt_wf_def)
  note d = d [unfolded tables_Suc distinct.simps distinct_concat_upt]
  show "pt \<notin> set (subtables m l pt i)" "distinct (subtables m l pt i)" using d assms(2) by auto
  show "\<forall>t\<in>set (subtables m l pt i). K t \<and> t \<notin> F" using k subtables_subset [OF assms(2)] by blast
  assume "j < 512" "i \<noteq> j"
  then show "set (subtables m l pt i) \<inter> set (subtables m l pt j) = {}"
    using d assms(2) by (cases i j rule: linorder_cases) (blast, simp, blast)
qed

lemma subtables_agree:
  assumes "agree (insert pt (set (subtables m l pt i))) m m'" "pg_aligned pt" "i < 512"
  shows "subtables m' l pt i = subtables m l pt i"
    "i = unat (PX (Suc l) va) \<Longrightarrow> leaf_pte m' (Suc l) pt va = leaf_pte m (Suc l) pt va"
proof -
  have e: "load64 m' (pt + 8 * of_nat i) = load64 m (pt + 8 * of_nat i)"
    using assms by (intro agree_slot) auto
  let ?c = "load64 m (pt + 8 * of_nat i)"
  have a: "agree (set (tables m l (PTE2PA ?c))) m m'" if "?c AND PTE_V \<noteq> 0"
    using assms(1) that by (auto simp: subtables_def agree_def)
  then show "subtables m' l pt i = subtables m l pt i"
    using tables_agree(1) [of m l "PTE2PA ?c" m'] e by (auto simp: subtables_def Let_def)
  assume i: "i = unat (PX (Suc l) va)"
  show "leaf_pte m' (Suc l) pt va = leaf_pte m (Suc l) pt va"
    using tables_agree(3) [OF a, of va] e by (simp add: leaf_pte_Suc Let_def i)
qed

text \<open>Growing one subtable grows the table.\<close>

lemma grows_descend:
  assumes wf: "pt_wf m F K (Suc l) pt"
    and pte: "pte = load64 m (pt + 8 * PX (Suc l) va)" "pte AND PTE_V \<noteq> 0"
    and g: "grows m F m' F' l (PTE2PA pte)" and wf': "pt_wf m' F' K l (PTE2PA pte)"
    and F: "\<forall>p\<in>F. K p"
  shows "pt_wf m' F' K (Suc l) pt" "grows m F m' F' (Suc l) pt"
    "load64 m' (pt + 8 * PX (Suc l) va) = pte"
proof -
  let ?i = "unat (PX (Suc l) va)" and ?c = "PTE2PA pte"
  have i: "?i < 512" by (rule PX_less)
  have ci: "subtables m l pt ?i = tables m l ?c" using pte by (rule subtables_PX)
  have al: "pg_aligned pt" and ptF: "pt \<notin> F" using wf tables_root [of pt m "Suc l"] by (auto simp: pt_wf_def)
  have mod: "agree (- (set (tables m l ?c) \<union> F)) m m'" using g by (simp add: grows_def)
  have pt: "pt \<notin> set (tables m l ?c) \<union> F" using pt_wf_sub(1) [OF wf i] ptF by (simp add: ci)
  then have e: "load64 m' (pt + 8 * of_nat j) = load64 m (pt + 8 * of_nat j)" if "j < 512" for j
    using al that by (intro agree_slot [OF mod]) auto
  then show pte': "load64 m' (pt + 8 * PX (Suc l) va) = pte" using pte e [OF i] by simp
  have sub: "agree (insert pt (set (subtables m l pt j))) m m'" if "j < 512" "j \<noteq> ?i" for j
    using pt_wf_sub(3) [OF wf that(1) i that(2)] pt_wf_sub(4) [OF wf that(1)] pt
    by (intro agree_mono [OF mod]) (auto simp: ci)
  have sub': "subtables m' l pt j = (if j = ?i then tables m' l ?c else subtables m l pt j)" if "j < 512" for j
  proof (cases "j = ?i")
    case True
    then show ?thesis using subtables_PX [OF pte' [symmetric] pte(2)] by simp
  next
    case False
    then show ?thesis using subtables_agree(1) [OF sub al that] that by simp
  qed
  have new: "set (tables m' l ?c) = set (tables m l ?c) \<union> (F - F')" "F' \<subseteq> F" using g by (auto simp: grows_def)
  show wf2: "pt_wf m' F' K (Suc l) pt"
    unfolding pt_wf_def tables_Suc distinct.simps distinct_concat_upt
  proof (intro conjI ballI allI impI)
    show "pg_aligned pt" by (rule al)
    show "pt \<notin> set (concat (map (subtables m' l pt) [0..<512]))"
      using sub' pt_wf_sub(1) [OF wf] pt new by (auto split: if_splits)
    show "distinct (subtables m' l pt j)" if "j < 512" for j
      using sub' [OF that] pt_wf_sub(2) [OF wf that] wf' by (simp add: pt_wf_def)
    show "set (subtables m' l pt j) \<inter> set (subtables m' l pt k) = {}" if "k < 512" "j < k" for j k
    proof -
      have j: "j < 512" using that by simp
      show ?thesis
        using sub' [OF that(1)] sub' [OF j] pt_wf_sub(3) [OF wf j that(1) less_imp_neq [OF that(2)]]
          pt_wf_sub(4) [OF wf that(1)] pt_wf_sub(4) [OF wf j] that new
        by (auto simp: ci split: if_splits)
    qed
    fix t assume "t \<in> set (pt # concat (map (subtables m' l pt) [0..<512]))"
    then have "t = pt \<or> t \<in> set (tables m' l ?c) \<or> (\<exists>j<512. t \<in> set (subtables m l pt j))"
      using sub' by (auto split: if_splits)
    then show "K t" "t \<notin> F'"
      using wf wf' new pt_wf_sub(4) [OF wf] tables_root [of pt m "Suc l"] by (auto simp: pt_wf_def)
  qed
  have "set (tables m' (Suc l) pt) = set (tables m (Suc l) pt) \<union> (F - F')"
    using sub' i new by (auto simp: tables_Suc ci split: if_splits)
  moreover have "leaf_pte m' (Suc l) pt v = leaf_pte m (Suc l) pt v" for v
  proof (cases "unat (PX (Suc l) v) = ?i")
    case True
    then have "PX (Suc l) v = PX (Suc l) va" by (simp only: word_unat_eq_iff)
    then show ?thesis using g pte pte' by (simp add: leaf_pte_Suc grows_def)
  next
    case False
    then show ?thesis using subtables_agree(2) [OF sub al] PX_less by simp
  qed
  moreover have "agree (- (set (tables m (Suc l) pt) \<union> F)) m m'"
    using subtables_subset [OF i, of m l pt] by (intro agree_mono [OF mod]) (auto simp: ci)
  ultimately show "grows m F m' F' (Suc l) pt" using new by (simp add: grows_def)
qed

text \<open>A page of zeros is an empty table.\<close>

lemma zero_table:
  assumes "\<forall>i<512. load64 m (p + 8 * of_nat i) = 0"
  shows "tables m l p = [p]" "leaf_pte m l p va = 0"
proof -
  show "tables m l p = [p]"
    using assms by (cases l) (simp_all add: tables_Suc subtables_def)
  have "load64 m (p + 8 * PX k va) = 0" for k using assms PX_less [of k va] by fastforce
  then show "leaf_pte m l p va = 0" by (cases l) (simp_all add: leaf_pte_Suc)
qed

text \<open>Installing an empty table in a free entry.\<close>

lemma grows_link:
  assumes wf: "pt_wf m F K (Suc l) pt" and inv: "load64 m (pt + 8 * PX (Suc l) va) AND PTE_V = 0"
    and p: "p \<in> F" "K p" "pg_aligned p"
    and same: "agree (- {p, pt}) m m'" and zero: "\<forall>i<512. load64 m' (p + 8 * of_nat i) = 0"
    and pte: "load64 m' (pt + 8 * PX (Suc l) va) = PA2PTE p OR PTE_V"
    and rest: "\<forall>i<512. i \<noteq> unat (PX (Suc l) va) \<longrightarrow> load64 m' (pt + 8 * of_nat i) = load64 m (pt + 8 * of_nat i)"
  shows "pt_wf m' (F - {p}) K (Suc l) pt" "grows m F m' (F - {p}) (Suc l) pt"
    "pt_wf m' (F - {p}) K l p"
proof -
  let ?i = "unat (PX (Suc l) va)"
  have i: "?i < 512" by (rule PX_less)
  have al: "pg_aligned pt" and ptK: "K pt" "pt \<notin> F" using wf tables_root [of pt m "Suc l"] by (auto simp: pt_wf_def)
  have p2: "PTE2PA (PA2PTE p OR PTE_V) = p" using p(3) by (intro PTE2PA_PA2PTE) simp_all
  have v: "(PA2PTE p OR PTE_V) AND PTE_V \<noteq> 0"
    by (auto simp: bit_eq_iff bit_and_iff bit_or_iff intro!: exI [of _ 0])
  note z = zero_table [OF zero]
  show "pt_wf m' (F - {p}) K l p" using p by (simp add: pt_wf_def z)
  have old: "subtables m l pt ?i = []" using inv by (simp add: subtables_def)
  have sub: "subtables m' l pt j = (if j = ?i then [p] else subtables m l pt j)"
    and leaf: "j \<noteq> ?i \<Longrightarrow> j = unat (PX (Suc l) v) \<Longrightarrow> leaf_pte m' (Suc l) pt v = leaf_pte m (Suc l) pt v"
    if j: "j < 512" for j v
  proof -
    let ?c = "load64 m (pt + 8 * of_nat j)"
    have a: "agree (set (tables m l (PTE2PA ?c))) m m'" if "?c AND PTE_V \<noteq> 0"
      using pt_wf_sub(1,4) [OF wf j] p(1) that by (intro agree_mono [OF same]) (auto simp: subtables_def)
    show "subtables m' l pt j = (if j = ?i then [p] else subtables m l pt j)"
      using tables_agree(1) [OF a] rest j pte v by (auto simp: subtables_def Let_def p2 z)
    show "leaf_pte m' (Suc l) pt v = leaf_pte m (Suc l) pt v" if "j \<noteq> ?i" "j = unat (PX (Suc l) v)"
      using tables_agree(3) [OF a, of v] rest j that by (auto simp: leaf_pte_Suc Let_def)
  qed
  show "pt_wf m' (F - {p}) K (Suc l) pt"
    unfolding pt_wf_def tables_Suc distinct.simps distinct_concat_upt
  proof (intro conjI ballI allI impI)
    show "pg_aligned pt" by (rule al)
    show "pt \<notin> set (concat (map (subtables m' l pt) [0..<512]))"
      using sub pt_wf_sub(1) [OF wf] ptK p by (auto split: if_splits)
    show "distinct (subtables m' l pt j)" if "j < 512" for j
      using sub [OF that] pt_wf_sub(2) [OF wf that] by simp
    show "set (subtables m' l pt j) \<inter> set (subtables m' l pt k) = {}" if "k < 512" "j < k" for j k
    proof -
      have j: "j < 512" using that by simp
      show ?thesis
        using sub [OF that(1)] sub [OF j] pt_wf_sub(3,4) [OF wf that(1)] pt_wf_sub(3,4) [OF wf j] that i p
        by (auto split: if_splits)
    qed
    fix t assume "t \<in> set (pt # concat (map (subtables m' l pt) [0..<512]))"
    then have "t = pt \<or> t = p \<or> (\<exists>j<512. t \<in> set (subtables m l pt j))"
      using sub by (auto split: if_splits)
    then show "K t" "t \<notin> F - {p}"
      using ptK p pt_wf_sub(4) [OF wf] by auto
  qed
  have "set (tables m' (Suc l) pt) = insert p (set (tables m (Suc l) pt))"
    using sub i old by (auto simp: tables_Suc split: if_splits)
  moreover have "leaf_pte m' (Suc l) pt w = leaf_pte m (Suc l) pt w" for w
  proof (cases "unat (PX (Suc l) w) = ?i")
    case True
    then have "PX (Suc l) w = PX (Suc l) va" by (simp only: word_unat_eq_iff)
    then show ?thesis using inv pte v z by (simp add: leaf_pte_Suc p2)
  next
    case False
    then show ?thesis using leaf PX_less by blast
  qed
  moreover have "agree (- (set (tables m (Suc l) pt) \<union> F)) m m'"
    using p tables_root [of pt m "Suc l"] by (intro agree_mono [OF same]) auto
  ultimately show "grows m F m' (F - {p}) (Suc l) pt" using p by (auto simp: grows_def)
qed

text \<open>Writing a leaf entry.\<close>

definition same_page :: "nat \<Rightarrow> uint64 \<Rightarrow> uint64 \<Rightarrow> bool" where
  "same_page l va va' \<longleftrightarrow> (\<forall>k\<le>l. PX k va' = PX k va)"

lemma store_leaf:
  assumes "pt_wf m F K l pt" "leaf_table m l pt va = Some t"
    and m': "m' = store64 m (t + 8 * PX 0 va) v"
  shows "tables m' l pt = tables m l pt \<and> leaf_table m' l pt w = leaf_table m l pt w \<and>
    leaf_pte m' l pt w = (if same_page l va w then v else leaf_pte m l pt w)"
  using assms(1,2)
proof (induction l arbitrary: pt)
  case 0
  have "leaf_pte m' 0 pt w = (if PX 0 w = PX 0 va then v else leaf_pte m 0 pt w)"
  proof (cases "PX 0 w = PX 0 va")
    case False
    then have "unat (PX 0 w) \<noteq> unat (PX 0 va)" by (simp add: word_unat_eq_iff [symmetric])
    then have "pt + 8 * PX 0 w \<noteq> pt + 8 * PX 0 va"
      using slot_inj [OF PX_less PX_less, of pt 0 w 0 va] by auto
    moreover have "al8 (pt + 8 * PX 0 w)" "al8 (pt + 8 * PX 0 va)"
      using 0 slot_al8 [of pt "unat (PX 0 w)"] slot_al8 [of pt "unat (PX 0 va)"] by (auto simp: pt_wf_def)
    ultimately show ?thesis using False 0 by (simp add: m')
  qed (use 0 in \<open>simp add: m'\<close>)
  then show ?case by (simp add: same_page_def)
next
  case (Suc l)
  let ?i = "unat (PX (Suc l) va)" and ?c = "load64 m (pt + 8 * PX (Suc l) va)"
  have i: "?i < 512" by (rule PX_less)
  have valid: "?c AND PTE_V \<noteq> 0" and lt: "leaf_table m l (PTE2PA ?c) va = Some t"
    using Suc.prems(2) by (auto simp: Let_def split: if_splits)
  have al: "pg_aligned pt" using Suc.prems(1) by (simp add: pt_wf_def)
  have ci: "subtables m l pt ?i = tables m l (PTE2PA ?c)" using valid by (intro subtables_PX) simp_all
  have wfc: "pt_wf m F K l (PTE2PA ?c)"
    using pt_wf_sub(2,4) [OF Suc.prems(1) i] by (simp add: pt_wf_def ci)
  have t: "t \<in> set (tables m l (PTE2PA ?c))" "pg_aligned t"
    using leaf_table_in [OF lt] leaf_table_aligned [OF lt] by auto
  have same: "agree (- {t}) m m'"
  proof -
    have "unat (x - (t + 8 * PX 0 va)) < 8 \<Longrightarrow> PGROUNDDOWN x = t" for x
      using slot_page [OF t(2) PX_less [of 0 va], of "unat (x - (t + 8 * PX 0 va))"] by simp
    then show ?thesis by (auto simp: agree_def m' store64_def)
  qed
  have pt: "pt \<noteq> t" using pt_wf_sub(1) [OF Suc.prems(1) i] t by (auto simp: ci)
  have e: "load64 m' (pt + 8 * of_nat j) = load64 m (pt + 8 * of_nat j)" if "j < 512" for j
    using al that pt by (intro agree_slot [OF same]) auto
  have IH: "tables m' l (PTE2PA ?c) = tables m l (PTE2PA ?c)"
    "leaf_table m' l (PTE2PA ?c) w = leaf_table m l (PTE2PA ?c) w"
    "leaf_pte m' l (PTE2PA ?c) w = (if same_page l va w then v else leaf_pte m l (PTE2PA ?c) w)"
    using Suc.IH [OF wfc lt] by auto
  have other: "agree (insert pt (set (subtables m l pt j))) m m'" if "j < 512" "j \<noteq> ?i" for j
    using pt_wf_sub(3) [OF Suc.prems(1) that(1) i] that t pt by (intro agree_mono [OF same]) (auto simp: ci)
  have sub: "subtables m' l pt j = subtables m l pt j" if "j < 512" for j
    using subtables_agree(1) [OF other al that] that e [OF i] IH(1) valid
    by (cases "j = ?i") (simp_all add: subtables_def)
  then have tb: "tables m' (Suc l) pt = tables m (Suc l) pt"
    unfolding tables_Suc by (auto intro!: arg_cong [where f = concat] map_cong)
  show ?case
  proof (cases "unat (PX (Suc l) w) = ?i")
    case True
    then have "PX (Suc l) w = PX (Suc l) va" by (simp only: word_unat_eq_iff)
    then show ?thesis using IH valid e [OF i] tb
      by (auto simp: leaf_pte_Suc Let_def same_page_def le_Suc_eq)
  next
    case False
    let ?d = "load64 m (pt + 8 * PX (Suc l) w)"
    have "agree (set (tables m l (PTE2PA ?d))) m m'" if "?d AND PTE_V \<noteq> 0"
      using other [OF PX_less False] that by (auto simp: subtables_def agree_def)
    then have "leaf_table m' (Suc l) pt w = leaf_table m (Suc l) pt w"
      using tables_agree(2) [of m l "PTE2PA ?d" m' w] e [OF PX_less [of "Suc l" w]] by (auto simp: Let_def)
    moreover have "leaf_pte m' (Suc l) pt w = leaf_pte m (Suc l) pt w"
      using subtables_agree(2) [OF other al] PX_less False by simp
    ultimately show ?thesis using tb False by (auto simp: same_page_def)
  qed
qed

end
