(* ===== verification/VmProps.thy ===== *)
theory VmProps
  imports VmTables
begin

unbundle bit_operations_syntax

text \<open>
  Correctness of the virtual-memory operations of theory \<open>Vm\<close> on well-formed page tables:
  \<open>walk\<close>, \<open>mappages\<close>, \<open>uvmunmap\<close> and the copies between kernel and user space.
\<close>

section \<open>Walking\<close>

lemma kmem_ok_store:
  assumes "kmem_ok s" "agree (free_pages s) (mem s) m'"
  shows "kmem_ok (s\<lparr>mem := m'\<rparr>)" "free_pages (s\<lparr>mem := m'\<rparr>) = free_pages s"
    "kpage (s\<lparr>mem := m'\<rparr>) = kpage s"
proof -
  obtain ps where inv: "kmem_inv s ps" and rdy: "kmem_ready s" using assms(1) by (auto simp: kmem_ok_def)
  have "load64 m' q = load64 (mem s) q" if "q \<in> set ps" for q
    using agree_slot [OF assms(2), of q 0] that inv free_pages_eq [OF inv]
    by (auto simp: kmem_inv_def list_all_iff kpage_def)
  then have inv': "kmem_inv (s\<lparr>mem := m'\<rparr>) ps"
    using inv chain_cong [of ps m' "mem s"] by (simp add: kmem_inv_def kpage_def list_all_iff)
  show "kmem_ok (s\<lparr>mem := m'\<rparr>)"
    using inv' rdy by (auto simp: kmem_ok_def kmem_ready_def intr_ok_def lock_clean_def noff_def sie_on_def)
  show "free_pages (s\<lparr>mem := m'\<rparr>) = free_pages s"
    using free_pages_eq [OF inv] free_pages_eq [OF inv'] by simp
  show "kpage (s\<lparr>mem := m'\<rparr>) = kpage s" by (simp add: kpage_def fun_eq_iff)
qed

lemma memset_zero_page:
  assumes "pg_aligned p" "i < 512"
  shows "load64 (memset m p 0 4096) (p + 8 * of_nat i) = 0"
proof (rule bit_eqI)
  fix n
  have "PGROUNDDOWN (p + 8 * of_nat i + of_nat (n div 8)) = p" if "n < 64"
    using assms that by (intro slot_page) auto
  then show "bit (load64 (memset m p 0 4096) (p + 8 * of_nat i)) n = bit 0 n"
    using assms(1) by (auto simp: bit_load64 memset_eq PGROUNDDOWN_eq_iff)
qed

lemma agree_store64:
  assumes "pg_aligned t" "i < 512"
  shows "agree (- {t}) m (store64 m (t + 8 * of_nat i) v)"
proof -
  have "unat (x - (t + 8 * of_nat i)) < 8 \<Longrightarrow> PGROUNDDOWN x = t" for x
    using slot_page [OF assms, of "unat (x - (t + 8 * of_nat i))"] by simp
  then show ?thesis by (auto simp: agree_def store64_def)
qed

lemma agree_store_PX: "pg_aligned t \<Longrightarrow> agree (- {t}) m (store64 m (t + 8 * PX k va) v)"
  using agree_store64 [OF _ PX_less, where t = t and m = m and v = v] by simp

lemma agree_memset: "pg_aligned p \<Longrightarrow> agree (- {p}) m (memset m p c 4096)"
  using same_outside_memset [of p m c] by (auto simp: agree_def same_outside_def)

text \<open>One level of \<open>walk\<close>: a missing table is allocated, cleared and linked.\<close>

lemma link_state:
  assumes ok: "kmem_ok s" and wf: "pt_wf (mem s) (free_pages s) (kpage s) (Suc l) pt"
    and inv: "load64 (mem s) (pt + 8 * PX (Suc l) va) AND PTE_V = 0"
    and run: "kalloc s e = (Ret p, s1, e)" and ne: "free_pages s \<noteq> {}"
    and s3: "s3 = s1\<lparr>mem := store64 (memset (mem s1) p 0 4096) (pt + 8 * PX (Suc l) va) (PA2PTE p OR PTE_V)\<rparr>"
  shows "p \<in> free_pages s" "p \<noteq> 0" "kmem_ok s3" "kpage s3 = kpage s" "free_pages s3 = free_pages s - {p}"
    "pt_wf (mem s3) (free_pages s3) (kpage s) (Suc l) pt"
    "grows (mem s) (free_pages s) (mem s3) (free_pages s3) (Suc l) pt"
    "pt_wf (mem s3) (free_pages s3) (kpage s) l p"
    "load64 (mem s3) (pt + 8 * PX (Suc l) va) = PA2PTE p OR PTE_V"
proof -
  let ?a = "pt + 8 * PX (Suc l) va" and ?i = "unat (PX (Suc l) va)"
  obtain s1': "p \<in> free_pages s" "kmem_ok s1" "free_pages s1 = free_pages s - {p}"
      "same_outside p (mem s) (mem s1)" "kpage s1 = kpage s"
    using ka.alloc_some [OF ok ne, of e] run by auto
  then show p: "p \<in> free_pages s" by simp
  have pv: "kpage s p" "pg_aligned p" "p \<noteq> 0" using ka.free_valid [OF ok p] by auto
  then show "p \<noteq> 0" by simp
  have al: "pg_aligned pt" and ptF: "pt \<notin> free_pages s"
    using wf tables_root [of pt "mem s" "Suc l"] by (auto simp: pt_wf_def)
  have ne: "p \<noteq> pt" using p ptF by auto
  let ?m2 = "memset (mem s1) p 0 4096"
  have m3: "mem s3 = store64 ?m2 ?a (PA2PTE p OR PTE_V)" by (simp add: s3)
  have a1: "agree (- {p, pt}) (mem s1) (mem s3)"
    using agree_memset [OF pv(2), of "mem s1" 0] agree_store_PX [OF al, where m = ?m2 and k = "Suc l" and va = va and v = "PA2PTE p OR PTE_V"]
    unfolding m3 by (auto simp: agree_def)
  then have a0: "agree (- {p, pt}) (mem s) (mem s3)"
    using s1'(4) by (auto simp: agree_def same_outside_def)
  have "agree (free_pages s1) (mem s1) (mem s3)"
    using agree_mono [OF a1] s1'(3) ptF by auto
  from kmem_ok_store [OF s1'(2) this] show ok3: "kmem_ok s3" and k3: "kpage s3 = kpage s"
    and F3: "free_pages s3 = free_pages s - {p}"
    using s1' by (simp_all add: m3 s3)
  show pte: "load64 (mem s3) ?a = PA2PTE p OR PTE_V" by (simp add: m3)
  have zero: "\<forall>i<512. load64 (mem s3) (p + 8 * of_nat i) = 0"
    using agree_slot [OF agree_store_PX [OF al], of p] ne pv(2) memset_zero_page by (simp add: m3)
  have "\<forall>i<512. i \<noteq> ?i \<longrightarrow> load64 (mem s3) (pt + 8 * of_nat i) = load64 (mem s) (pt + 8 * of_nat i)"
  proof (intro allI impI)
    fix i assume i: "i < 512" "i \<noteq> ?i"
    then have "pt + 8 * of_nat i \<noteq> pt + 8 * of_nat ?i" using slot_inj [OF i(1) PX_less] by blast
    then have "load64 (mem s3) (pt + 8 * of_nat i) = load64 ?m2 (pt + 8 * of_nat i)"
      using slot_al8 [OF al, of i] slot_al8 [OF al, of ?i] by (simp add: m3)
    also have "\<dots> = load64 (mem s1) (pt + 8 * of_nat i)"
      using agree_slot [OF agree_memset [OF pv(2)] _ al i(1)] ne by simp
    also have "\<dots> = load64 (mem s) (pt + 8 * of_nat i)"
      using s1'(4) ne al i(1) by (intro load64_cong) (simp add: same_outside_def slot_page)
    finally show "load64 (mem s3) (pt + 8 * of_nat i) = load64 (mem s) (pt + 8 * of_nat i)" .
  qed
  from grows_link [OF wf inv p pv(1,2) a0 zero pte this]
  show "pt_wf (mem s3) (free_pages s3) (kpage s) (Suc l) pt"
    "grows (mem s) (free_pages s) (mem s3) (free_pages s3) (Suc l) pt"
    "pt_wf (mem s3) (free_pages s3) (kpage s) l p"
    by (simp_all add: F3)
qed

text \<open>
  \<open>walk\<close> with allocation returns the address of the leaf entry in the (possibly
  enlarged) table; it changes no translation, and it fails only when no page is left.
\<close>

lemma walk_from_alloc:
  assumes "kmem_ok s" "pt_wf (mem s) (free_pages s) (kpage s) l pt"
  shows "\<exists>a s'. walk_from va True l pt s e = (Ret a, s', e) \<and> kmem_ok s' \<and> kpage s' = kpage s \<and>
    pt_wf (mem s') (free_pages s') (kpage s) l pt \<and>
    grows (mem s) (free_pages s) (mem s') (free_pages s') l pt \<and> card (free_pages s) \<le> card (free_pages s') + l \<and>
    (if a = 0 then free_pages s' = {}
     else \<exists>t. leaf_table (mem s') l pt va = Some t \<and> a = t + 8 * PX 0 va)"
  using assms
proof (induction l arbitrary: s pt)
  case 0
  have "pt + 8 * PX 0 va \<noteq> 0"
  proof
    assume "pt + 8 * PX 0 va = 0"
    then have "PGROUNDDOWN 0 = pt" using slot_page0 [OF _ PX_less, of pt 0 va] 0 by (simp add: pt_wf_def)
    then have "pt = 0" by (simp add: PGROUNDDOWN_def)
    moreover have "kpage s pt" "0 < kend s" using 0 by (auto simp: pt_wf_def kmem_ok_def kmem_inv_def)
    ultimately show False by (auto simp: kpage_def)
  qed
  with 0 show ?case by (simp add: kret_run grows_refl)
next
  case (Suc l)
  let ?a = "pt + 8 * PX (Suc l) va"
  have descend: "\<exists>a t'. walk_from va True l (PTE2PA pte) t e = (Ret a, t', e) \<and> kmem_ok t' \<and> kpage t' = kpage s \<and>
      pt_wf (mem t') (free_pages t') (kpage s) (Suc l) pt \<and>
      grows (mem t) (free_pages t) (mem t') (free_pages t') (Suc l) pt \<and> card (free_pages t) \<le> card (free_pages t') + l \<and>
      (if a = 0 then free_pages t' = {}
       else \<exists>u. leaf_table (mem t') (Suc l) pt va = Some u \<and> a = u + 8 * PX 0 va)"
    if t: "kmem_ok t" "kpage t = kpage s" "pt_wf (mem t) (free_pages t) (kpage s) (Suc l) pt"
      "pte = load64 (mem t) ?a" "pte AND PTE_V \<noteq> 0" for t pte
  proof -
    have "pt_wf (mem t) (free_pages t) (kpage t) l (PTE2PA pte)"
      using pt_wf_sub(2,4) [OF t(3) PX_less, of "Suc l" va] subtables_PX [OF t(4,5)] t(2)
      by (simp add: pt_wf_def)
    from Suc.IH [OF t(1) this] obtain a t' where r: "walk_from va True l (PTE2PA pte) t e = (Ret a, t', e)"
      "kmem_ok t'" "kpage t' = kpage s" "pt_wf (mem t') (free_pages t') (kpage s) l (PTE2PA pte)"
      "grows (mem t) (free_pages t) (mem t') (free_pages t') l (PTE2PA pte)" "card (free_pages t) \<le> card (free_pages t') + l"
      "if a = 0 then free_pages t' = {} else \<exists>u. leaf_table (mem t') l (PTE2PA pte) va = Some u \<and> a = u + 8 * PX 0 va"
      using t(2) by auto
    have "\<forall>p\<in>free_pages t. kpage s p" using ka.free_valid [OF t(1)] t(2) by auto
    from grows_descend [OF t(3-5) r(5,4) this] r t(5) show ?thesis by auto
  qed
  show ?case
  proof (cases "load64 (mem s) ?a AND PTE_V = 0")
    case False
    then have w: "walk_from va True (Suc l) pt s e = walk_from va True l (PTE2PA (load64 (mem s) ?a)) s e"
      by (simp add: Let_def)
    show ?thesis using descend [OF Suc.prems(1) refl Suc.prems(2) refl False]
      unfolding w by (elim exE conjE) (intro exI conjI; assumption?; simp)
  next
    case True
    show ?thesis
    proof (cases "free_pages s = {}")
      case e: True
      obtain s' where "kalloc s e = (Ret 0, s', e)" "kmem_ok s'" "free_pages s' = {}" "mem s' = mem s" "kpage s' = kpage s"
        using ka.alloc_none [OF Suc.prems(1) e, of e] by blast
      then show ?thesis using True Suc.prems e by (simp add: Let_def kbind_Ret kret_run grows_refl)
    next
      case ne: False
      obtain p s1 where run: "kalloc s e = (Ret p, s1, e)"
        using ka.alloc_some [OF Suc.prems(1) ne, of e] by blast
      define s3 where "s3 = s1\<lparr>mem := store64 (memset (mem s1) p 0 4096) ?a (PA2PTE p OR PTE_V)\<rparr>"
      note link = link_state [OF Suc.prems True run ne s3_def]
      have p2: "PTE2PA (PA2PTE p OR PTE_V) = p"
        using ka.free_valid [OF Suc.prems(1) link(1)] by (intro PTE2PA_PA2PTE) simp_all
      have v: "(PA2PTE p OR PTE_V) AND PTE_V \<noteq> 0"
        by (auto simp: bit_eq_iff bit_and_iff bit_or_iff intro!: exI [of _ 0])
      have w: "walk_from va True (Suc l) pt s e = walk_from va True l p s3 e"
        using True run link(2) by (simp add: Let_def kbind_Ret s3_def)
      have c: "card (free_pages s) = Suc (card (free_pages s3))"
        using card_Suc_Diff1 [OF ka.free_finite [OF Suc.prems(1)] link(1)] by (simp add: link(5))
      show ?thesis
        using descend [OF link(3,4,6) link(9) [symmetric] v] grows_trans [OF link(7)]
        unfolding p2 w c add_Suc_right Suc_le_mono by blast
    qed
  qed
qed

text \<open>\<open>walk\<close> without allocation is a pure lookup.\<close>

lemma walk_from_lookup:
  "walk_from va False l pt s e =
     (Ret (case leaf_table (mem s) l pt va of None \<Rightarrow> 0 | Some t \<Rightarrow> t + 8 * PX 0 va), s, e)"
  by (induction l arbitrary: pt) (simp_all add: kret_run Let_def)

section \<open>Translations\<close>

definition vm_wf :: "'a kmem_state_scheme \<Rightarrow> uint64 \<Rightarrow> bool" where
  "vm_wf s pt \<longleftrightarrow> kmem_ok s \<and> pt_wf (mem s) (free_pages s) (kpage s) 2 pt"

definition vtrans :: "'a kmem_state_scheme \<Rightarrow> uint64 \<Rightarrow> uint64 \<Rightarrow> uint64" where
  "vtrans s pt va = leaf_pte (mem s) 2 pt va"

text \<open>What an operation that only grows and edits the table \<open>pt\<close> leaves alone.\<close>

definition vm_frame :: "uint64 \<Rightarrow> 'a kmem_state_scheme \<Rightarrow> 'a kmem_state_scheme \<Rightarrow> bool" where
  "vm_frame pt s s' \<longleftrightarrow> vm_wf s' pt \<and> kpage s' = kpage s \<and> free_pages s' \<subseteq> free_pages s \<and>
     set (tables (mem s') 2 pt) = set (tables (mem s) 2 pt) \<union> (free_pages s - free_pages s') \<and>
     agree (- (set (tables (mem s) 2 pt) \<union> free_pages s)) (mem s) (mem s')"

lemma vm_frame_refl: "vm_wf s pt \<Longrightarrow> vm_frame pt s s"
  by (simp add: vm_frame_def agree_def)

lemma vm_frame_trans: "vm_frame pt s s1 \<Longrightarrow> vm_frame pt s1 s2 \<Longrightarrow> vm_frame pt s s2"
  by (auto simp: vm_frame_def agree_def)

lemma PX_bit: "bit (PX k va) n \<longleftrightarrow> n < 9 \<and> bit va (12 + 9 * k + n)"
proof -
  have "(0x1FF :: uint64) = mask 9" by (simp add: mask_eq_exp_minus_1)
  then have "PX k va = drop_bit (12 + 9 * k) va AND mask 9" unfolding PX_def PXSHIFT_def by (simp only:)
  then show ?thesis
    using bit_imp_le_length [of va "12 + 9 * k + n"] by (auto simp: bit_and_iff bit_mask_iff bit_drop_bit_eq)
qed

lemma maxva_bit:
  assumes "va < MAXVA" "bit va n" shows "n < 38"
proof -
  have "unat va < 2 ^ 38" using assms(1) by (simp add: word_less_nat_alt)
  then have "take_bit 38 (unat va) = unat va" by (simp add: take_bit_nat_eq_self)
  moreover have "bit (unat va) n" using assms(2) by (simp add: bit_unsigned_iff bit_imp_le_length)
  ultimately show ?thesis by (metis bit_take_bit_iff)
qed

lemma same_page_iff:
  assumes "va < MAXVA" "w < MAXVA"
  shows "same_page 2 va w \<longleftrightarrow> PGROUNDDOWN w = PGROUNDDOWN va"
proof
  assume sp: "same_page 2 va w"
  show "PGROUNDDOWN w = PGROUNDDOWN va"
  proof (rule bit_eqI)
    fix n
    have "bit w n = bit va n" if "12 \<le> n" "n < 39"
    proof -
      have "(n - 12) div 9 \<le> 2" using that by simp
      then have "PX ((n - 12) div 9) w = PX ((n - 12) div 9) va" using sp by (simp add: same_page_def)
      then have "bit (PX ((n - 12) div 9) w) ((n - 12) mod 9) = bit (PX ((n - 12) div 9) va) ((n - 12) mod 9)"
        by simp
      moreover have "12 + 9 * ((n - 12) div 9) + (n - 12) mod 9 = n" using that by simp
      ultimately show ?thesis by (simp add: PX_bit)
    qed
    then show "bit (PGROUNDDOWN w) n = bit (PGROUNDDOWN va) n"
      using maxva_bit [OF assms(1), of n] maxva_bit [OF assms(2), of n] by (auto simp: PGROUNDDOWN_bit)
  qed
next
  assume eq: "PGROUNDDOWN w = PGROUNDDOWN va"
  have "bit w n = bit va n" if "12 \<le> n" for n
    using arg_cong [OF eq, of "\<lambda>x. bit x n"] that by (simp add: PGROUNDDOWN_bit)
  then show "same_page 2 va w" by (auto simp: same_page_def bit_eq_iff PX_bit)
qed

lemma PGROUNDDOWN_range:
  assumes "pg_aligned a" shows "PGROUNDDOWN w = a \<longleftrightarrow> unat a \<le> unat w \<and> unat w < unat a + 4096"
proof -
  obtain k where k: "unat a = 4096 * k" using assms by (auto simp: pg_aligned_unat)
  have "PGROUNDDOWN w = a \<longleftrightarrow> unat w - unat w mod 4096 = 4096 * k"
    by (simp add: word_unat_eq_iff unat_PGROUNDDOWN k)
  also have "\<dots> \<longleftrightarrow> 4096 * k \<le> unat w \<and> unat w < 4096 * k + 4096"
    by (simp add: minus_mod_eq_mult_div) auto
  finally show ?thesis by (simp add: k)
qed

text \<open>A leaf entry of the table and its translation.\<close>

lemma store_leaf_state:
  assumes wf: "vm_wf s pt" and t: "leaf_table (mem s) 2 pt va = Some t" and va: "va < MAXVA"
    and s': "s' = s\<lparr>mem := store64 (mem s) (t + 8 * PX 0 va) v\<rparr>"
  shows "vm_frame pt s s'" "free_pages s' = free_pages s" "tables (mem s') 2 pt = tables (mem s) 2 pt"
    "agree (- {t}) (mem s) (mem s')" "t \<in> set (tables (mem s) 2 pt)"
    "w < MAXVA \<Longrightarrow> vtrans s' pt w = (if PGROUNDDOWN w = PGROUNDDOWN va then v else vtrans s pt w)"
proof -
  have al: "pg_aligned pt" and ptwf: "pt_wf (mem s) (free_pages s) (kpage s) 2 pt" and ok: "kmem_ok s"
    using wf by (auto simp: vm_wf_def pt_wf_def)
  have tal: "pg_aligned t" and tin: "t \<in> set (tables (mem s) 2 pt)"
    using leaf_table_aligned [OF t al] leaf_table_in [OF t] by auto
  have ag: "agree (- {t}) (mem s) (mem s')" using agree_store_PX [OF tal] by (simp add: s')
  have "t \<notin> free_pages s" using tin ptwf by (auto simp: pt_wf_def)
  then have "agree (free_pages s) (mem s) (mem s')" by (intro agree_mono [OF ag]) auto
  from kmem_ok_store [OF ok this]
  have ok': "kmem_ok s'" "free_pages s' = free_pages s" "kpage s' = kpage s" by (simp_all add: s')
  have st: "tables (mem s') 2 pt = tables (mem s) 2 pt"
    "leaf_pte (mem s') 2 pt w = (if same_page 2 va w then v else leaf_pte (mem s) 2 pt w)" for w
    using store_leaf [OF ptwf t, of "mem s'" v w] by (simp_all add: s')
  show "tables (mem s') 2 pt = tables (mem s) 2 pt" "free_pages s' = free_pages s"
    "agree (- {t}) (mem s) (mem s')" "t \<in> set (tables (mem s) 2 pt)"
    by (fact st(1) ok'(2) ag tin)+
  show "vm_frame pt s s'"
    using ok' ptwf st(1) agree_mono [OF ag] tin by (auto simp: vm_frame_def vm_wf_def pt_wf_def)
  show "w < MAXVA \<Longrightarrow> vtrans s' pt w = (if PGROUNDDOWN w = PGROUNDDOWN va then v else vtrans s pt w)"
    using st(2) same_page_iff [OF va] by (simp add: vtrans_def)
qed

lemma walk_alloc:
  assumes "vm_wf s pt" "va < MAXVA"
  shows "\<exists>a s'. walk pt va True s e = (Ret a, s', e) \<and> vm_frame pt s s' \<and> vtrans s' pt = vtrans s pt \<and>
    card (free_pages s) \<le> card (free_pages s') + 2 \<and>
    (if a = 0 then free_pages s' = {}
     else \<exists>t. leaf_table (mem s') 2 pt va = Some t \<and> a = t + 8 * PX 0 va)"
proof -
  have "walk pt va True s e = walk_from va True 2 pt s e" using assms(2) by (auto simp: walk_def)
  moreover obtain a s' where "walk_from va True 2 pt s e = (Ret a, s', e)" "kmem_ok s'" "kpage s' = kpage s"
    "pt_wf (mem s') (free_pages s') (kpage s) 2 pt" "grows (mem s) (free_pages s) (mem s') (free_pages s') 2 pt"
    "card (free_pages s) \<le> card (free_pages s') + 2"
    "if a = 0 then free_pages s' = {} else \<exists>t. leaf_table (mem s') 2 pt va = Some t \<and> a = t + 8 * PX 0 va"
    using walk_from_alloc [of s 2 pt va e] assms(1) unfolding vm_wf_def by blast
  moreover from this(5) have "vtrans s' pt = vtrans s pt" by (intro ext) (simp add: grows_def vtrans_def)
  ultimately show ?thesis
    by (intro exI [of _ a] exI [of _ s']) (auto simp: vm_frame_def vm_wf_def grows_def)
qed

section \<open>Mapping pages\<close>

definition in_pages :: "uint64 \<Rightarrow> nat \<Rightarrow> uint64 \<Rightarrow> bool" where
  "in_pages a n w \<longleftrightarrow> unat a \<le> unat w \<and> unat w < unat a + 4096 * n"

definition map_range :: "(uint64 \<Rightarrow> uint64) \<Rightarrow> uint64 \<Rightarrow> nat \<Rightarrow> uint64 \<Rightarrow> uint64 \<Rightarrow> uint64 \<Rightarrow> uint64" where
  "map_range f a n pa perm w =
     (if in_pages a n w then PA2PTE (pa + (PGROUNDDOWN w - a)) OR perm OR PTE_V else f w)"

lemma map_range_0 [simp]: "map_range f a 0 pa perm = f"
  by (rule ext) (auto simp: map_range_def in_pages_def)

lemma in_pages_Suc:
  assumes "pg_aligned a" "unat a + 4096 < 2 ^ 64"
  shows "in_pages a (Suc n) w \<longleftrightarrow> PGROUNDDOWN w = a \<or> in_pages (a + PGSIZE) n w"
  using assms by (auto simp: in_pages_def PGROUNDDOWN_range unat_word_ariths)

lemma map_range_Suc:
  assumes "pg_aligned a" "unat a + 4096 < 2 ^ 64"
  shows "map_range f a (Suc n) pa perm w =
    map_range (\<lambda>w. if PGROUNDDOWN w = a then PA2PTE pa OR perm OR PTE_V else f w) (a + PGSIZE) n (pa + PGSIZE) perm w"
  by (simp add: map_range_def in_pages_Suc [OF assms])

lemma map_range_cong:
  "(\<And>w. w < MAXVA \<Longrightarrow> f w = g w) \<Longrightarrow> w < MAXVA \<Longrightarrow> map_range f a n pa perm w = map_range g a n pa perm w"
  by (simp add: map_range_def)

abbreviation (input) mappages_body :: "uint64 \<Rightarrow> uint64 \<Rightarrow> uint64 \<Rightarrow> uint64 \<times> uint64 \<Rightarrow>
    (uint64 \<times> uint64 + int, 'a kmem_state_scheme) K" where
  "mappages_body pagetable lst perm \<equiv> (\<lambda>(a, pa).
          kbind (walk pagetable a True) (\<lambda>pte.
          if pte = 0 then kret (Inr (- 1))
          else kbind (kget (\<lambda>s. load64 (mem s) pte)) (\<lambda>v.
            if v AND PTE_V \<noteq> 0 then kpanic ''mappages: remap''
            else kbind (kmod (\<lambda>s. s\<lparr>mem := store64 (mem s) pte (PA2PTE pa OR perm OR PTE_V)\<rparr>)) (\<lambda>_.
              if a = lst then kret (Inr 0)
              else kret (Inl (a + PGSIZE, pa + PGSIZE))))))"

text \<open>One round of the loop on an unmapped page: out of memory, or the entry is written.\<close>

lemma mappages_round:
  assumes wf: "vm_wf s pt" and a: "pg_aligned a" "a < MAXVA" and un: "vtrans s pt a AND PTE_V = 0"
  shows "(\<exists>s'. mappages_body pt lst perm (a, pa) s e = (Ret (Inr (- 1)), s', e) \<and> vm_frame pt s s' \<and>
            vtrans s' pt = vtrans s pt \<and> free_pages s' = {} \<and> card (free_pages s) \<le> 2) \<or>
         (\<exists>s'. mappages_body pt lst perm (a, pa) s e =
              (Ret (if a = lst then Inr 0 else Inl (a + PGSIZE, pa + PGSIZE)), s', e) \<and> vm_frame pt s s' \<and>
            card (free_pages s) \<le> card (free_pages s') + 2 \<and>
            (\<forall>w<MAXVA. vtrans s' pt w = (if PGROUNDDOWN w = a then PA2PTE pa OR perm OR PTE_V else vtrans s pt w)))"
proof -
  obtain q s1 where w: "walk pt a True s e = (Ret q, s1, e)" "vm_frame pt s s1" "vtrans s1 pt = vtrans s pt"
    "card (free_pages s) \<le> card (free_pages s1) + 2"
    "if q = 0 then free_pages s1 = {} else \<exists>t. leaf_table (mem s1) 2 pt a = Some t \<and> q = t + 8 * PX 0 a"
    using walk_alloc [OF wf a(2), of e] by blast
  show ?thesis
  proof (cases "q = 0")
    case True
    with w have "mappages_body pt lst perm (a, pa) s e = (Ret (Inr (- 1)), s1, e)"
      by (simp add: kbind_Ret kret_run)
    with w True show ?thesis by auto
  next
    case False
    then obtain t where t: "leaf_table (mem s1) 2 pt a = Some t" "q = t + 8 * PX 0 a" using w by auto
    define s2 where "s2 = s1\<lparr>mem := store64 (mem s1) (t + 8 * PX 0 a) (PA2PTE pa OR perm OR PTE_V)\<rparr>"
    have wf1: "vm_wf s1 pt" using w(2) by (simp add: vm_frame_def)
    note st = store_leaf_state [OF wf1 t(1) a(2) s2_def]
    have "load64 (mem s1) q = vtrans s pt a" using t fun_cong [OF w(3), of a]
      by (simp add: vtrans_def leaf_pte_def [of "mem s1"])
    then have "mappages_body pt lst perm (a, pa) s e =
        (Ret (if a = lst then Inr 0 else Inl (a + PGSIZE, pa + PGSIZE)), s2, e)"
      using w(1) False un t by (simp add: kbind_Ret kret_run s2_def)
    moreover have "vm_frame pt s s2" using vm_frame_trans [OF w(2) st(1)] .
    ultimately show ?thesis using st(2,6) w(3,4) PGROUNDDOWN_id [OF a(1)] by auto
  qed
qed

lemma mappages_loop:
  assumes "vm_wf s pt" "pg_aligned a" "unat a + 4096 * Suc n \<le> unat MAXVA" "lst = a + of_nat (4096 * n)"
    and "\<forall>w. in_pages a (Suc n) w \<longrightarrow> vtrans s pt w AND PTE_V = 0"
  shows "\<exists>r s'. kloop (mappages_body pt lst perm) (a, pa) s e = (Ret r, s', e) \<and> vm_frame pt s s' \<and>
    (if r = 0 then \<forall>w<MAXVA. vtrans s' pt w = map_range (vtrans s pt) a (Suc n) pa perm w
     else r = - 1 \<and> card (free_pages s) \<le> 2 * Suc n \<and>
       (\<exists>k\<le>n. \<forall>w<MAXVA. vtrans s' pt w = map_range (vtrans s pt) a k pa perm w))"
  using assms
proof (induction n arbitrary: s a pa)
  case 0
  have a: "a < MAXVA" using "0.prems"(3) by (simp add: word_less_nat_alt)
  have "in_pages a (Suc 0) a" by (simp add: in_pages_def)
  then have un: "vtrans s pt a AND PTE_V = 0" using "0.prems"(5) by blast
  have small: "unat a + 4096 < 2 ^ 64" using "0.prems"(3) by simp
  show ?case
    using mappages_round [OF "0.prems"(1,2) a un, where lst = lst and perm = perm and pa = pa and e = e]
  proof (elim disjE exE conjE)
    fix s' assume "mappages_body pt lst perm (a, pa) s e = (Ret (Inr (- 1)), s', e)" "vm_frame pt s s'"
      "vtrans s' pt = vtrans s pt" "free_pages s' = {}" "card (free_pages s) \<le> 2"
    then show ?thesis
      using kloop_step_Inr [where b = "mappages_body pt lst perm"] by (intro exI [of _ "- 1"] exI [of _ s']) auto
  next
    fix s' assume "mappages_body pt lst perm (a, pa) s e =
        (Ret (if a = lst then Inr 0 else Inl (a + PGSIZE, pa + PGSIZE)), s', e)" "vm_frame pt s s'"
      "card (free_pages s) \<le> card (free_pages s') + 2"
      "\<forall>w<MAXVA. vtrans s' pt w = (if PGROUNDDOWN w = a then PA2PTE pa OR perm OR PTE_V else vtrans s pt w)"
    then show ?thesis
      using kloop_step_Inr [where b = "mappages_body pt lst perm"] "0.prems"(4) map_range_Suc [OF "0.prems"(2) small]
      by (intro exI [of _ 0] exI [of _ s']) auto
  qed
next
  case (Suc n)
  have a: "a < MAXVA" using Suc.prems(3) by (simp add: word_less_nat_alt)
  have small: "unat a + 4096 < 2 ^ 64" using Suc.prems(3) by simp
  have pages: "in_pages a (Suc (Suc n)) w \<longleftrightarrow> PGROUNDDOWN w = a \<or> in_pages (a + PGSIZE) (Suc n) w" for w
    by (rule in_pages_Suc [OF Suc.prems(2) small])
  have un: "vtrans s pt a AND PTE_V = 0"
    using Suc.prems(5) pages [of a] PGROUNDDOWN_id [OF Suc.prems(2)] by blast
  have ua: "unat (a + PGSIZE) = unat a + 4096" using small by (simp add: unat_word_ariths)
  have nl: "a \<noteq> lst"
  proof
    assume "a = lst"
    then have "unat (of_nat (4096 * Suc n) :: uint64) = 0" using Suc.prems(4) by simp
    moreover have "unat (of_nat (4096 * Suc n) :: uint64) = 4096 * Suc n"
      using Suc.prems(3) by (intro unat_of_nat_less) simp
    ultimately show False by simp
  qed
  show ?case
    using mappages_round [OF Suc.prems(1,2) a un, where lst = lst and perm = perm and pa = pa and e = e]
  proof (elim disjE exE conjE)
    fix s' assume "mappages_body pt lst perm (a, pa) s e = (Ret (Inr (- 1)), s', e)" "vm_frame pt s s'"
      "vtrans s' pt = vtrans s pt" "free_pages s' = {}" "card (free_pages s) \<le> 2"
    then show ?thesis
      using kloop_step_Inr [where b = "mappages_body pt lst perm"]
      by (intro exI [of _ "- 1"] exI [of _ s']) (auto intro!: exI [of _ 0])
  next
    fix s1 assume step: "mappages_body pt lst perm (a, pa) s e =
        (Ret (if a = lst then Inr 0 else Inl (a + PGSIZE, pa + PGSIZE)), s1, e)" and fr: "vm_frame pt s s1"
      and card: "card (free_pages s) \<le> card (free_pages s1) + 2"
      and tr: "\<forall>w<MAXVA. vtrans s1 pt w = (if PGROUNDDOWN w = a then PA2PTE pa OR perm OR PTE_V else vtrans s pt w)"
    have "vtrans s1 pt w AND PTE_V = 0" if "in_pages (a + PGSIZE) (Suc n) w" for w
    proof -
      have "w < MAXVA" "PGROUNDDOWN w \<noteq> a"
        using that Suc.prems(3) ua by (auto simp: in_pages_def word_less_nat_alt PGROUNDDOWN_range [OF Suc.prems(2)])
      then show ?thesis using tr Suc.prems(5) pages [of w] that by simp
    qed
    then obtain r s' where IH: "kloop (mappages_body pt lst perm) (a + PGSIZE, pa + PGSIZE) s1 e = (Ret r, s', e)"
      "vm_frame pt s1 s'"
      "if r = 0 then \<forall>w<MAXVA. vtrans s' pt w = map_range (vtrans s1 pt) (a + PGSIZE) (Suc n) (pa + PGSIZE) perm w
       else r = - 1 \<and> card (free_pages s1) \<le> 2 * Suc n \<and>
         (\<exists>k\<le>n. \<forall>w<MAXVA. vtrans s' pt w = map_range (vtrans s1 pt) (a + PGSIZE) k (pa + PGSIZE) perm w)"
      using Suc.IH [of s1 "a + PGSIZE" "pa + PGSIZE"] fr pg_aligned_add [OF Suc.prems(2), of PGSIZE] Suc.prems(3,4) ua
      by (auto simp: vm_frame_def algebra_simps)
    have k: "map_range (vtrans s1 pt) (a + PGSIZE) k (pa + PGSIZE) perm w = map_range (vtrans s pt) a (Suc k) pa perm w"
      if "w < MAXVA" for k w
      unfolding map_range_Suc [OF Suc.prems(2) small] using tr that by (intro map_range_cong) simp_all
    have "kloop (mappages_body pt lst perm) (a, pa) s e = (Ret r, s', e)"
      using kloop_step_Inl [where b = "mappages_body pt lst perm", OF _ IH(1)] step nl by simp
    then show ?thesis
      using IH(2,3) vm_frame_trans [OF fr] k card by (intro exI [of _ r] exI [of _ s']) (auto split: if_splits)
  qed
qed

lemma mappages_eq_loop:
  assumes "pg_aligned va" "4096 * Suc n < 2 ^ 64"
  shows "mappages pt va (of_nat (4096 * Suc n)) pa perm s e =
    kloop (mappages_body pt (va + of_nat (4096 * n)) perm) (va, pa) s e"
proof -
  have u: "unat (of_nat (4096 * Suc n) :: uint64) = 4096 * Suc n"
    using assms(2) by (intro unat_of_nat_less) simp
  then have "(of_nat (4096 * Suc n) :: uint64) mod PGSIZE = 0"
    by (simp only: word_unat_eq_iff unat_mod) simp
  moreover have "(of_nat (4096 * Suc n) :: uint64) \<noteq> 0" using u by (metis mult_is_0 nat.simps(3) unsigned_0 zero_neq_numeral)
  moreover have "va + of_nat (4096 * Suc n) - PGSIZE = va + of_nat (4096 * n)" by simp
  ultimately show ?thesis
    using assms(1) unfolding mappages_def pg_aligned_def Let_def by (simp only: simp_thms if_False)
qed

section \<open>Lookups\<close>

lemma slot_nonzero:
  assumes "vm_wf s pt" "leaf_table (mem s) 2 pt va = Some t"
  shows "t + 8 * PX 0 va \<noteq> 0"
proof
  assume z: "t + 8 * PX 0 va = 0"
  have al: "pg_aligned t" using assms leaf_table_aligned [OF assms(2)] by (simp add: vm_wf_def pt_wf_def)
  have "PGROUNDDOWN 0 = t" using slot_page0 [OF al PX_less, of 0 va] z by simp
  then have "t = 0" by (simp add: PGROUNDDOWN_def)
  moreover have "kpage s t" "0 < kend s"
    using assms leaf_table_in [OF assms(2)] by (auto simp: vm_wf_def pt_wf_def kmem_ok_def kmem_inv_def)
  ultimately show False by (auto simp: kpage_def)
qed

lemma walk_lookup:
  assumes "va < MAXVA"
  shows "walk pt va False s e =
    (Ret (case leaf_table (mem s) 2 pt va of None \<Rightarrow> 0 | Some t \<Rightarrow> t + 8 * PX 0 va), s, e)"
  using assms by (auto simp: walk_def walk_from_lookup)

lemma walkaddr_run:
  assumes "vm_wf s pt" "va < MAXVA"
  shows "walkaddr pt va s e = (Ret (if vtrans s pt va AND PTE_V \<noteq> 0 \<and> vtrans s pt va AND PTE_U \<noteq> 0
      then PTE2PA (vtrans s pt va) else 0), s, e)"
proof (cases "leaf_table (mem s) 2 pt va")
  case None
  then show ?thesis
    using assms(2) by (auto simp: walkaddr_def kbind_Ret [OF walk_lookup [OF assms(2)]] kret_run vtrans_def leaf_pte_def)
next
  case (Some t)
  then show ?thesis
    using assms(2) slot_nonzero [OF assms(1) Some]
    by (auto simp: walkaddr_def kbind_Ret [OF walk_lookup [OF assms(2)]] kret_run vtrans_def leaf_pte_def)
qed

lemma vtrans_page: "va < MAXVA \<Longrightarrow> vtrans s pt (PGROUNDDOWN va) = vtrans s pt va"
proof -
  assume "va < MAXVA"
  moreover from this have "PGROUNDDOWN va < MAXVA" using PGROUNDDOWN_le [of va] by simp
  ultimately have "same_page 2 (PGROUNDDOWN va) va" using same_page_iff by (simp add: PGROUNDDOWN_id)
  then have px: "PX k va = PX k (PGROUNDDOWN va)" if "k \<le> 2" for k using that by (simp add: same_page_def)
  have "leaf_table (mem s) l p (PGROUNDDOWN va) = leaf_table (mem s) l p va" if "l \<le> 2" for l p
    using that by (induction l arbitrary: p) (simp_all add: px Let_def)
  then show ?thesis using px [of 0] by (simp add: vtrans_def leaf_pte_def split: option.split)
qed

section \<open>Copies between kernel and user space\<close>

text \<open>The physical address of a user byte.\<close>

definition upa :: "'a kmem_state_scheme \<Rightarrow> uint64 \<Rightarrow> uint64 \<Rightarrow> uint64" where
  "upa s pt va = PTE2PA (vtrans s pt va) + (va - PGROUNDDOWN va)"

text \<open>
  A byte the user may read: mapped with \<open>PTE_U\<close> to a page that is neither free nor part
  of the page table.
\<close>

definition ureadable :: "'a kmem_state_scheme \<Rightarrow> uint64 \<Rightarrow> uint64 \<Rightarrow> bool" where
  "ureadable s pt va \<longleftrightarrow> va < MAXVA \<and> vtrans s pt va AND PTE_V \<noteq> 0 \<and> vtrans s pt va AND PTE_U \<noteq> 0 \<and>
     PTE2PA (vtrans s pt va) \<noteq> 0 \<and> PTE2PA (vtrans s pt va) \<notin> set (tables (mem s) 2 pt) \<union> free_pages s"

definition uwritable :: "'a kmem_state_scheme \<Rightarrow> uint64 \<Rightarrow> uint64 \<Rightarrow> bool" where
  "uwritable s pt va \<longleftrightarrow> ureadable s pt va \<and> vtrans s pt va AND PTE_W \<noteq> 0"

lemma page_chunk:
  fixes va :: uint64
  assumes "0 < len" "unat va + len \<le> unat MAXVA" "va0 = PGROUNDDOWN va" "n = min (4096 - unat (va - va0)) len"
  shows "0 < n" "n \<le> len" "i < n \<Longrightarrow> PGROUNDDOWN (va + of_nat i) = va0" "va0 \<le> va"
    "i < len \<Longrightarrow> unat (va + of_nat i) = unat va + i"
    "n \<noteq> len \<Longrightarrow> va0 + PGSIZE = va + of_nat n" "unat (va - va0) + n \<le> 4096" "va < MAXVA"
proof -
  show le: "va0 \<le> va" by (simp add: assms(3) PGROUNDDOWN_le)
  have off: "unat (va - va0) = unat va mod 4096"
    using PGROUNDDOWN_mod [of va] by (simp add: assms(3) unat_mod)
  have al: "pg_aligned va0" by (simp add: assms(3))
  have u0: "unat va0 + unat va mod 4096 = unat va"
    using unat_PGROUNDDOWN [of va] by (simp add: assms(3))
  show "0 < n" "n \<le> len" "unat (va - va0) + n \<le> 4096" using assms(1,4) off by (auto simp: min_def)
  show add: "i < len \<Longrightarrow> unat (va + of_nat i) = unat va + i" for i
    using assms(2) by (simp add: unat_word_ariths unat_of_nat_less)
  show "i < n \<Longrightarrow> PGROUNDDOWN (va + of_nat i) = va0"
    using add [of i] assms(4) off u0 unfolding PGROUNDDOWN_range [OF al] by (simp add: min_def split: if_splits)
  show "va < MAXVA" using assms(1,2) by (simp add: word_less_nat_alt)
  assume "n \<noteq> len"
  then have n: "n = 4096 - unat va mod 4096" "n < len" using assms(4) off by (auto simp: min_def split: if_splits)
  have "unat va mod 4096 < 4096" by simp
  with n(1) u0 have "unat va0 + 4096 = unat va + n" by linarith
  moreover have "unat (va0 + PGSIZE) = unat va0 + 4096"
    using u0 assms(2) by (simp add: unat_word_ariths)
  ultimately have "unat (va0 + PGSIZE) = unat (va + of_nat n)" using add [OF n(2)] by simp
  then show "va0 + PGSIZE = va + of_nat n" by (simp only: word_unat_eq_iff)
qed

lemma upa_chunk:
  assumes "vtrans s pt va0 = v" "va0 = PGROUNDDOWN (va + of_nat i)" "va + of_nat i < MAXVA"
  shows "upa s pt (va + of_nat i) = PTE2PA v + (va - va0) + of_nat i"
  using assms vtrans_page [OF assms(3), of s pt] by (simp add: upa_def algebra_simps)

abbreviation (input) copyin_body :: "uint64 \<Rightarrow> uint64 \<Rightarrow> uint64 \<times> nat \<times> uchar list \<Rightarrow>
    (uint64 \<times> nat \<times> uchar list + int \<times> uchar list, 'a kmem_state_scheme) K" where
  "copyin_body pagetable psz \<equiv> (\<lambda>(srcva, len, dst).
       if len = 0 then kret (Inr (0, dst))
       else
         let va0 = PGROUNDDOWN srcva in
         kbind (walkaddr pagetable va0) (\<lambda>pa.
         kbind (if pa = 0 then vmfault pagetable psz va0 True else kret pa) (\<lambda>pa0.
         if pa0 = 0 then kret (Inr (- 1, dst))
         else
           let n = min (4096 - unat (srcva - va0)) len in
           kbind (kget (\<lambda>s. bytes_at (mem s) (pa0 + (srcva - va0)) n)) (\<lambda>bs.
           kret (Inl (va0 + PGSIZE, len - n, dst @ bs))))))"

lemma copyin_loop:
  assumes "vm_wf s pt" "unat va + len \<le> unat MAXVA" "\<forall>i<len. ureadable s pt (va + of_nat i)"
  shows "kloop (copyin_body pt psz) (va, len, dst) s e =
    (Ret (0, dst @ map (\<lambda>i. mem s (upa s pt (va + of_nat i))) [0..<len]), s, e)"
  using assms(2,3)
proof (induction len arbitrary: va dst rule: less_induct)
  case (less len)
  show ?case
  proof (cases "len = 0")
    case True
    then show ?thesis
      using kloop_step_Inr [where b = "copyin_body pt psz" and v = "(va, len, dst)" and s = s and e = e]
      by (simp add: kret_run)
  next
    case False
    then have pos: "0 < len" by simp
    define va0 n where "va0 = PGROUNDDOWN va" and "n = min (4096 - unat (va - va0)) len"
    note ch = page_chunk [OF pos less.prems(1) va0_def n_def]
    have r0: "ureadable s pt va" using less.prems(2) pos by fastforce
    let ?v = "vtrans s pt va"
    have v0: "vtrans s pt va0 = ?v" unfolding va0_def by (rule vtrans_page [OF ch(8)])
    have "va0 < MAXVA" using ch(4,8) by simp
    then have wa: "walkaddr pt va0 s e = (Ret (PTE2PA ?v), s, e)"
      using r0 by (simp add: walkaddr_run [OF assms(1)] v0 ureadable_def)
    let ?bs = "bytes_at (mem s) (PTE2PA ?v + (va - va0)) n"
    have step: "copyin_body pt psz (va, len, dst) s e = (Ret (Inl (va0 + PGSIZE, len - n, dst @ ?bs)), s, e)"
      using False r0 wa by (simp add: Let_def va0_def [symmetric] n_def [symmetric] kbind_Ret kret_run ureadable_def)
    have bs: "?bs = map (\<lambda>i. mem s (upa s pt (va + of_nat i))) [0..<n]"
      unfolding bytes_at_def
    proof (rule map_cong [OF refl])
      fix i assume "i \<in> set [0..<n]"
      then have i: "i < n" "i < len" using ch(2) by auto
      then have "va + of_nat i < MAXVA" using less.prems ch(5) by (simp add: ureadable_def)
      then show "mem s (PTE2PA ?v + (va - va0) + of_nat i) = mem s (upa s pt (va + of_nat i))"
        using upa_chunk [OF v0 ch(3) [OF i(1), symmetric]] by simp
    qed
    have "kloop (copyin_body pt psz) (va0 + PGSIZE, len - n, dst @ ?bs) s e =
      (Ret (0, (dst @ ?bs) @ map (\<lambda>i. mem s (upa s pt (va + of_nat (n + i)))) [0..<len - n]), s, e)"
    proof (cases "n = len")
      case True
      then show ?thesis
        using kloop_step_Inr [where b = "copyin_body pt psz" and v = "(va0 + PGSIZE, len - n, dst @ ?bs)" and s = s and e = e]
        by (simp add: kret_run)
    next
      case False
      then have "n < len" using ch(2) by simp
      have eq: "va0 + PGSIZE = va + of_nat n" using ch(6) False by simp
      have "unat (va0 + PGSIZE) + (len - n) \<le> unat MAXVA"
        using less.prems(1) ch(5) [OF \<open>n < len\<close>] \<open>n < len\<close> by (simp add: eq)
      moreover have "\<forall>i<len - n. ureadable s pt (va0 + PGSIZE + of_nat i)"
        using less.prems(2) spec [OF less.prems(2), of "n + _"] by (simp add: eq add.assoc)
      ultimately show ?thesis
        using less.IH [of "len - n" "va0 + PGSIZE" "dst @ ?bs"] ch(1) pos by (simp add: eq add.assoc)
    qed
    from kloop_step_Inl [where b = "copyin_body pt psz", OF step this]
    have "kloop (copyin_body pt psz) (va, len, dst) s e =
      (Ret (0, dst @ (map (\<lambda>i. mem s (upa s pt (va + of_nat i))) [0..<n] @
         map (\<lambda>i. mem s (upa s pt (va + of_nat (n + i)))) [0..<len - n])), s, e)"
      unfolding bs by simp
    then show ?thesis
      unfolding map_upt_append [OF ch(2), where f = "\<lambda>i. mem s (upa s pt (va + of_nat i))"] .
  qed
qed

abbreviation (input) copyout_body :: "uint64 \<Rightarrow> uint64 \<Rightarrow> uint64 \<times> uchar list \<Rightarrow>
    (uint64 \<times> uchar list + int, 'a kmem_state_scheme) K" where
  "copyout_body pagetable psz \<equiv> (\<lambda>(dstva, src).
       if src = [] then kret (Inr 0)
       else
         let va0 = PGROUNDDOWN dstva in
         if MAXVA \<le> va0 then kret (Inr (- 1))
         else
           kbind (walkaddr pagetable va0) (\<lambda>pa.
           kbind (if pa = 0 then vmfault pagetable psz va0 False else kret pa) (\<lambda>pa0.
           if pa0 = 0 then kret (Inr (- 1))
           else
             kbind (walk pagetable va0 False) (\<lambda>pte.
             kbind (kget (\<lambda>s. load64 (mem s) pte)) (\<lambda>v.
             if v AND PTE_W = 0 then kret (Inr (- 1))
             else
               let n = min (4096 - unat (dstva - va0)) (length src) in
               kbind (kmod (\<lambda>s. s\<lparr>mem := put_bytes (mem s) (pa0 + (dstva - va0)) (take n src)\<rparr>)) (\<lambda>_.
               kret (Inl (va0 + PGSIZE, drop n src))))))))"

text \<open>Writing inside a user page keeps the page table, the free list and every translation.\<close>

lemma put_user_page:
  assumes wf: "vm_wf s pt" and P: "pg_aligned P" "P \<notin> set (tables (mem s) 2 pt) \<union> free_pages s"
    and o: "unat off + length xs \<le> 4096"
    and s': "s' = s\<lparr>mem := put_bytes (mem s) (P + off) xs\<rparr>"
  shows "vm_wf s' pt" "vtrans s' pt = vtrans s pt" "tables (mem s') 2 pt = tables (mem s) 2 pt"
    "free_pages s' = free_pages s"
proof -
  have ag: "agree (- {P}) (mem s) (mem s')"
  proof -
    have "PGROUNDDOWN x = P" if "unat (x - (P + off)) < length xs" for x
    proof -
      define d where "d = x - (P + off)"
      have "unat d < length xs" using that by (simp add: d_def)
      then have "unat (d + off) = unat d + unat off" using o by (simp add: unat_word_ariths)
      moreover have "x - P = d + off" by (simp add: d_def)
      ultimately have "unat (x - P) = unat (x - (P + off)) + unat off" by (simp only: d_def)
      then show ?thesis using that o P(1) by (simp add: PGROUNDDOWN_eq_iff)
    qed
    then show ?thesis by (auto simp: agree_def s' put_bytes_def)
  qed
  have al: "pg_aligned pt" using wf by (simp add: vm_wf_def pt_wf_def)
  have "agree (set (tables (mem s) 2 pt)) (mem s) (mem s')" by (rule agree_mono [OF ag]) (use P in auto)
  note t = tables_agree [OF this al]
  show "tables (mem s') 2 pt = tables (mem s) 2 pt" by (rule t(1))
  show "vtrans s' pt = vtrans s pt" by (rule ext) (simp add: vtrans_def t)
  have "agree (free_pages s) (mem s) (mem s')" by (rule agree_mono [OF ag]) (use P in auto)
  from kmem_ok_store [OF _ this] have k: "kmem_ok s'" "free_pages s' = free_pages s" "kpage s' = kpage s"
    using wf by (simp_all add: vm_wf_def s')
  then show "free_pages s' = free_pages s" by simp
  show "vm_wf s' pt" using k t(1) wf by (simp add: vm_wf_def pt_wf_def)
qed

lemma copyout_round:
  assumes wf: "vm_wf s pt" and len: "unat va + length src \<le> unat MAXVA" "src \<noteq> []"
    and uw: "\<forall>i<length src. uwritable s pt (va + of_nat i)"
    and va0: "va0 = PGROUNDDOWN va" and n: "n = min (4096 - unat (va - va0)) (length src)"
  shows "\<exists>m1. copyout_body pt psz (va, src) s e = (Ret (Inl (va0 + PGSIZE, drop n src)), s\<lparr>mem := m1\<rparr>, e) \<and>
    vm_wf (s\<lparr>mem := m1\<rparr>) pt \<and> vtrans (s\<lparr>mem := m1\<rparr>) pt = vtrans s pt \<and>
    tables m1 2 pt = tables (mem s) 2 pt \<and> free_pages (s\<lparr>mem := m1\<rparr>) = free_pages s \<and>
    (inj_on (\<lambda>i. upa s pt (va + of_nat i)) {..<length src} \<longrightarrow> (\<forall>i<n. m1 (upa s pt (va + of_nat i)) = src ! i)) \<and>
    (\<forall>x. (\<forall>i<n. x \<noteq> upa s pt (va + of_nat i)) \<longrightarrow> m1 x = mem s x)"
proof -
  have pos: "0 < length src" using len(2) by simp
  note ch = page_chunk [OF pos len(1) va0 n]
  have r0: "uwritable s pt va" using uw pos by fastforce
  let ?v = "vtrans s pt va" and ?P = "PTE2PA (vtrans s pt va)"
  have v0: "vtrans s pt va0 = ?v" unfolding va0 by (rule vtrans_page [OF ch(8)])
  have lt: "va0 < MAXVA" using ch(4,8) by simp
  then have wa: "walkaddr pt va0 s e = (Ret ?P, s, e)"
    using r0 by (simp add: walkaddr_run [OF wf] v0 uwritable_def ureadable_def)
  obtain t where t: "leaf_table (mem s) 2 pt va0 = Some t"
    using r0 v0 by (cases "leaf_table (mem s) 2 pt va0") (auto simp: uwritable_def ureadable_def vtrans_def leaf_pte_def)
  have ld: "load64 (mem s) (t + 8 * PX 0 va0) = ?v" using t v0 by (simp add: vtrans_def leaf_pte_def)
  define m1 where "m1 = put_bytes (mem s) (?P + (va - va0)) (take n src)"
  have step: "copyout_body pt psz (va, src) s e = (Ret (Inl (va0 + PGSIZE, drop n src)), s\<lparr>mem := m1\<rparr>, e)"
    using len(2) r0 lt wa ld t walk_lookup [OF lt, of pt s e]
    by (auto simp: Let_def va0 [symmetric] n [symmetric] kbind_Ret kret_run uwritable_def ureadable_def m1_def)
  have "unat (va - va0) + length (take n src) \<le> 4096" using ch(2,7) by simp
  from put_user_page [OF wf _ _ this refl, of ?P] r0
  have st: "vm_wf (s\<lparr>mem := m1\<rparr>) pt" "vtrans (s\<lparr>mem := m1\<rparr>) pt = vtrans s pt"
    "tables m1 2 pt = tables (mem s) 2 pt" "free_pages (s\<lparr>mem := m1\<rparr>) = free_pages s"
    by (auto simp: uwritable_def ureadable_def m1_def)
  have first: "upa s pt (va + of_nat i) = ?P + (va - va0) + of_nat i" if "i < n" for i
    using that uw ch(2) by (intro upa_chunk [OF v0 ch(3) [symmetric]]) (auto simp: uwritable_def ureadable_def)
  have "m1 (upa s pt (va + of_nat i)) = src ! i" if "i < n" for i
    using that first [OF that] ch(2,7) by (simp add: m1_def put_bytes_def unat_of_nat_less)
  moreover have "m1 x = mem s x" if "\<forall>i<n. x \<noteq> upa s pt (va + of_nat i)" for x
    using that first ch(2,7) off_less [of n x "?P + (va - va0)"] by (auto simp: m1_def put_bytes_def)
  ultimately show ?thesis using step st by blast
qed

text \<open>Writing the first \<open>n\<close> bytes and then the others writes all of them.\<close>

lemma write_split:
  fixes src :: "uchar list" and f :: "nat \<Rightarrow> uint64"
  assumes "n \<le> length src" "inj_on f {..<length src}"
    and "\<forall>i<n. m1 (f i) = src ! i" "\<forall>x. (\<forall>i<n. x \<noteq> f i) \<longrightarrow> m1 x = m x"
    and "\<forall>i<length src - n. m' (f (n + i)) = src ! (n + i)"
    and "\<forall>x. (\<forall>i<length src - n. x \<noteq> f (n + i)) \<longrightarrow> m' x = m1 x"
  shows "(\<forall>i<length src. m' (f i) = src ! i) \<and> (\<forall>x. (\<forall>i<length src. x \<noteq> f i) \<longrightarrow> m' x = m x)"
proof (intro conjI allI impI)
  fix i assume i: "i < length src"
  show "m' (f i) = src ! i"
  proof (cases "i < n")
    case True
    have "f i \<noteq> f (n + j)" if "j < length src - n" for j
    proof
      assume "f i = f (n + j)"
      moreover have "n + j < length src" using that by arith
      ultimately have "i = n + j" using inj_onD [OF assms(2), of i "n + j"] i by simp
      with True show False by simp
    qed
    then show ?thesis using assms(3,6) True by metis
  next
    case False
    then show ?thesis using spec [OF assms(5), of "i - n"] i by simp
  qed
next
  fix x assume x: "\<forall>i<length src. x \<noteq> f i"
  then have "\<forall>i<length src - n. x \<noteq> f (n + i)" by auto
  then show "m' x = m x" using assms(1,4,6) x by auto
qed

lemma copyout_loop:
  assumes "vm_wf s pt" "unat va + length src \<le> unat MAXVA" "\<forall>i<length src. uwritable s pt (va + of_nat i)"
    and "inj_on (\<lambda>i. upa s pt (va + of_nat i)) {..<length src}"
  shows "\<exists>m'. kloop (copyout_body pt psz) (va, src) s e = (Ret 0, s\<lparr>mem := m'\<rparr>, e) \<and>
    vm_wf (s\<lparr>mem := m'\<rparr>) pt \<and> vtrans (s\<lparr>mem := m'\<rparr>) pt = vtrans s pt \<and>
    tables m' 2 pt = tables (mem s) 2 pt \<and> free_pages (s\<lparr>mem := m'\<rparr>) = free_pages s \<and>
    (\<forall>i<length src. m' (upa s pt (va + of_nat i)) = src ! i) \<and>
    (\<forall>x. (\<forall>i<length src. x \<noteq> upa s pt (va + of_nat i)) \<longrightarrow> m' x = mem s x)"
  using assms
proof (induction "length src" arbitrary: va src s rule: less_induct)
  case less
  show ?case
  proof (cases "src = []")
    case True
    then show ?thesis
      using kloop_step_Inr [where b = "copyout_body pt psz" and v = "(va, src)" and s = s and e = e] less.prems
      by (intro exI [of _ "mem s"]) (simp add: kret_run)
  next
    case False
    define va0 n where "va0 = PGROUNDDOWN va" and "n = min (4096 - unat (va - va0)) (length src)"
    have pos: "0 < length src" using False by simp
    note ch = page_chunk [OF pos less.prems(2) va0_def n_def]
    obtain m1 where step: "copyout_body pt psz (va, src) s e = (Ret (Inl (va0 + PGSIZE, drop n src)), s\<lparr>mem := m1\<rparr>, e)"
      and st: "vm_wf (s\<lparr>mem := m1\<rparr>) pt" "vtrans (s\<lparr>mem := m1\<rparr>) pt = vtrans s pt"
        "tables m1 2 pt = tables (mem s) 2 pt" "free_pages (s\<lparr>mem := m1\<rparr>) = free_pages s"
      and m1: "\<forall>i<n. m1 (upa s pt (va + of_nat i)) = src ! i"
        "\<forall>x. (\<forall>i<n. x \<noteq> upa s pt (va + of_nat i)) \<longrightarrow> m1 x = mem s x"
      using copyout_round [OF less.prems(1,2) False less.prems(3) va0_def n_def, of psz e] less.prems(4) by blast
    let ?s1 = "s\<lparr>mem := m1\<rparr>"
    have up: "upa ?s1 pt = upa s pt" and uw: "uwritable ?s1 pt = uwritable s pt"
      using st by (auto simp: upa_def uwritable_def ureadable_def fun_eq_iff)
    have "\<exists>m'. kloop (copyout_body pt psz) (va0 + PGSIZE, drop n src) ?s1 e = (Ret 0, ?s1\<lparr>mem := m'\<rparr>, e) \<and>
      vm_wf (?s1\<lparr>mem := m'\<rparr>) pt \<and> vtrans (?s1\<lparr>mem := m'\<rparr>) pt = vtrans s pt \<and>
      tables m' 2 pt = tables (mem s) 2 pt \<and> free_pages (?s1\<lparr>mem := m'\<rparr>) = free_pages s \<and>
      (\<forall>i<length src - n. m' (upa s pt (va + of_nat (n + i))) = src ! (n + i)) \<and>
      (\<forall>x. (\<forall>i<length src - n. x \<noteq> upa s pt (va + of_nat (n + i))) \<longrightarrow> m' x = m1 x)"
    proof (cases "n = length src")
      case True
      then show ?thesis
        using kloop_step_Inr [where b = "copyout_body pt psz" and v = "(va0 + PGSIZE, drop n src)" and s = ?s1 and e = e] st
        by (intro exI [of _ m1]) (simp add: kret_run)
    next
      case False
      then have n: "n < length src" and eq: "va0 + PGSIZE = va + of_nat n" using ch(2,6) by simp_all
      have "unat (va0 + PGSIZE) + length (drop n src) \<le> unat MAXVA"
        using less.prems(2) ch(5) [OF n] n by (simp add: eq)
      moreover have "\<forall>i<length (drop n src). uwritable ?s1 pt (va0 + PGSIZE + of_nat i)"
        using spec [OF less.prems(3), of "n + _"] by (simp add: uw eq add.assoc)
      moreover have "inj_on (\<lambda>i. upa ?s1 pt (va0 + PGSIZE + of_nat i)) {..<length (drop n src)}"
        using inj_onD [OF less.prems(4), of "n + _" "n + _"] by (force intro!: inj_onI simp: up eq add.assoc)
      ultimately show ?thesis
        using less.hyps [of "drop n src" ?s1 "va0 + PGSIZE"] st ch(1) pos by (simp add: up eq add.assoc)
    qed
    then obtain m' where r: "kloop (copyout_body pt psz) (va0 + PGSIZE, drop n src) ?s1 e = (Ret 0, s\<lparr>mem := m'\<rparr>, e)"
      and inv: "vm_wf (s\<lparr>mem := m'\<rparr>) pt" "vtrans (s\<lparr>mem := m'\<rparr>) pt = vtrans s pt"
        "tables m' 2 pt = tables (mem s) 2 pt" "free_pages (s\<lparr>mem := m'\<rparr>) = free_pages s"
      and new: "\<forall>i<length src - n. m' (upa s pt (va + of_nat (n + i))) = src ! (n + i)"
      and old: "\<forall>x. (\<forall>i<length src - n. x \<noteq> upa s pt (va + of_nat (n + i))) \<longrightarrow> m' x = m1 x"
      by auto
    from write_split [where f = "\<lambda>i. upa s pt (va + of_nat i)", OF ch(2) less.prems(4) m1 new old]
      kloop_step_Inl [where b = "copyout_body pt psz", OF step r] inv
    show ?thesis by (intro exI [of _ m']) simp
  qed
qed

section \<open>Fresh address spaces\<close>

lemma alloc_zeroed:
  assumes "kmem_ok s" "free_pages s \<noteq> {}"
  obtains p s1 where "kalloc s e = (Ret p, s1, e)" "p \<noteq> 0" "p \<in> free_pages s" "pg_aligned p" "kpage s p"
    "kmem_ok (s1\<lparr>mem := memset (mem s1) p 0 4096\<rparr>)"
    "free_pages (s1\<lparr>mem := memset (mem s1) p 0 4096\<rparr>) = free_pages s - {p}"
    "kpage (s1\<lparr>mem := memset (mem s1) p 0 4096\<rparr>) = kpage s"
    "agree (- {p}) (mem s) (memset (mem s1) p 0 4096)"
proof -
  obtain p s1 where a: "kalloc s e = (Ret p, s1, e)" "p \<in> free_pages s" "kmem_ok s1"
      "free_pages s1 = free_pages s - {p}" "same_outside p (mem s) (mem s1)" "kpage s1 = kpage s"
    using ka.alloc_some [OF assms, of e] by blast
  have p: "kpage s p" "pg_aligned p" "p \<noteq> 0" using ka.free_valid [OF assms(1) a(2)] by auto
  have z: "agree (- {p}) (mem s1) (memset (mem s1) p 0 4096)" using p by (intro agree_memset)
  have "agree (free_pages s1) (mem s1) (memset (mem s1) p 0 4096)"
    by (rule agree_mono [OF z]) (auto simp: a)
  note k = kmem_ok_store [OF a(3) this]
  show thesis
  proof (rule that [OF a(1) p(3) a(2) p(2,1) k(1)])
    show "free_pages (s1\<lparr>mem := memset (mem s1) p 0 4096\<rparr>) = free_pages s - {p}" using k a by simp
    show "kpage (s1\<lparr>mem := memset (mem s1) p 0 4096\<rparr>) = kpage s" using k a by simp
    show "agree (- {p}) (mem s) (memset (mem s1) p 0 4096)"
      using z a(5) by (auto simp: agree_def same_outside_def)
  qed
qed

lemma uvmcreate_run:
  assumes "kmem_ok s" "free_pages s \<noteq> {}"
  shows "\<exists>pt s'. uvmcreate s e = (Ret pt, s', e) \<and> pt \<noteq> 0 \<and> vm_wf s' pt \<and> (\<forall>va. vtrans s' pt va = 0) \<and>
    free_pages s' = free_pages s - {pt} \<and> pt \<in> free_pages s \<and> kpage s' = kpage s \<and> tables (mem s') 2 pt = [pt]"
proof -
  from assms obtain p s1 where a: "kalloc s e = (Ret p, s1, e)" "p \<noteq> 0" "p \<in> free_pages s" "pg_aligned p" "kpage s p"
    "kmem_ok (s1\<lparr>mem := memset (mem s1) p 0 4096\<rparr>)"
    "free_pages (s1\<lparr>mem := memset (mem s1) p 0 4096\<rparr>) = free_pages s - {p}"
    "kpage (s1\<lparr>mem := memset (mem s1) p 0 4096\<rparr>) = kpage s"
    by (rule alloc_zeroed)
  have "\<forall>i<512. load64 (memset (mem s1) p 0 4096) (p + 8 * of_nat i) = 0"
    using memset_zero_page [OF a(4)] by simp
  note z = zero_table [OF this]
  have "uvmcreate s e = (Ret p, s1\<lparr>mem := memset (mem s1) p 0 4096\<rparr>, e)"
    using a by (simp add: uvmcreate_def kbind_Ret kret_run)
  with a z show ?thesis
    by (intro exI [of _ p] exI [of _ "s1\<lparr>mem := memset (mem s1) p 0 4096\<rparr>"])
      (simp add: vm_wf_def pt_wf_def vtrans_def)
qed

text \<open>A page of user memory in a fresh address space: allocate it and map it at address 0.\<close>

lemma fresh_user_page:
  fixes s :: "'a kmem_state_scheme"
  assumes "kmem_ok s" "4 < card (free_pages s)"
  shows "\<exists>pt (s' :: 'a kmem_state_scheme). vm_wf s' pt \<and> (\<forall>w<PGSIZE. uwritable s' pt w \<and> upa s' pt w = upa s' pt 0 + w)"
proof -
  have ne: "free_pages s \<noteq> {}" and fin: "finite (free_pages s)" using assms ka.free_finite by auto
  obtain pt and s1 :: "'a kmem_state_scheme" where c: "vm_wf s1 pt" "\<forall>va. vtrans s1 pt va = 0" "free_pages s1 = free_pages s - {pt}"
      "pt \<in> free_pages s" "tables (mem s1) 2 pt = [pt]" "kpage s1 = kpage s"
    using uvmcreate_run [OF assms(1) ne] by blast
  have card1: "3 < card (free_pages s1)" using c(3,4) assms(2) fin by simp
  then have ne1: "free_pages s1 \<noteq> {}" by auto
  have ok1: "kmem_ok s1" using c(1) by (simp add: vm_wf_def)
  obtain p and t :: "'a kmem_state_scheme" where a: "p \<noteq> 0" "p \<in> free_pages s1" "pg_aligned p"
    "kmem_ok (t\<lparr>mem := memset (mem t) p 0 4096\<rparr>)"
    "free_pages (t\<lparr>mem := memset (mem t) p 0 4096\<rparr>) = free_pages s1 - {p}"
    "kpage (t\<lparr>mem := memset (mem t) p 0 4096\<rparr>) = kpage s1"
    "agree (- {p}) (mem s1) (memset (mem t) p 0 4096)"
    using alloc_zeroed [OF ok1 ne1] by metis
  define s2 where "s2 = t\<lparr>mem := memset (mem t) p 0 4096\<rparr>"
  have al: "pg_aligned pt" and ptF: "pt \<notin> free_pages s1" using c(1) by (auto simp: vm_wf_def pt_wf_def c(5))
  have "agree (set (tables (mem s1) 2 pt)) (mem s1) (mem s2)"
    using a(2) ptF by (auto simp: s2_def c(5) intro!: agree_mono [OF a(7)])
  note tb = tables_agree [OF this al]
  have wf2: "vm_wf s2 pt" "\<forall>va. vtrans s2 pt va = 0" "p \<notin> set (tables (mem s2) 2 pt)" "p \<notin> free_pages s2"
    "card (free_pages s2) > 2"
    using a c tb ptF card1 by (auto simp: vm_wf_def pt_wf_def vtrans_def s2_def)
  have "pg_aligned (0 :: uint64)" "unat (0 :: uint64) + 4096 * Suc 0 \<le> unat MAXVA"
    "\<forall>w. in_pages 0 (Suc 0) w \<longrightarrow> vtrans s2 pt w AND PTE_V = 0"
    using wf2(2) by simp_all
  from mappages_loop [OF wf2(1) this(1,2) refl this(3)] obtain r :: int and s3 :: "'a kmem_state_scheme" where m: "vm_frame pt s2 s3"
    "if r = 0 then \<forall>w<MAXVA. vtrans s3 pt w = map_range (vtrans s2 pt) 0 (Suc 0) p 22 w
     else r = - 1 \<and> card (free_pages s2) \<le> 2 * Suc 0 \<and>
       (\<exists>k\<le>0. \<forall>w<MAXVA. vtrans s3 pt w = map_range (vtrans s2 pt) 0 k p 22 w)"
    by blast
  then have v: "vtrans s3 pt w = PA2PTE p OR 23" if "w < PGSIZE" for w
    using that wf2(5) PGROUNDDOWN_range [of 0 w]
    by (auto simp: map_range_def in_pages_def word_less_nat_alt or.assoc split: if_splits)
  have "PTE2PA (PA2PTE p OR 23) = p" "PTE_FLAGS (PA2PTE p OR 23) = 23"
    using a(3) by (simp_all add: PTE2PA_PA2PTE PTE_FLAGS_PA2PTE)
  moreover have "(PA2PTE p OR 23) AND 1 \<noteq> 0" "(PA2PTE p OR 23) AND 16 \<noteq> 0" "(PA2PTE p OR 23) AND 4 \<noteq> 0"
    using and_exp_eq_0_iff_not_bit [of "PA2PTE p OR 23" 0] and_exp_eq_0_iff_not_bit [of "PA2PTE p OR 23" 4]
      and_exp_eq_0_iff_not_bit [of "PA2PTE p OR 23" 2] by (simp_all add: bit_or_iff)
  moreover have "p \<notin> set (tables (mem s3) 2 pt) \<union> free_pages s3"
    using m(1) wf2(3,4) by (auto simp: vm_frame_def)
  moreover have "vm_wf s3 pt" using m(1) by (simp add: vm_frame_def)
  moreover have "w < MAXVA" "PGROUNDDOWN w = 0" if "w < PGSIZE" for w
    using that PGROUNDDOWN_range [of 0 w] by (auto simp: word_less_nat_alt)
  ultimately show ?thesis
    using a(1) v by (intro exI [of _ pt] exI [of _ s3]) (auto simp: uwritable_def ureadable_def upa_def)
qed

section \<open>Properties\<close>

text \<open>
  C9: \<open>mappages\<close> installs exactly the requested translations.  On a well-formed page table
  with the range unmapped it either returns 0, and then every page of the range
  translates to the corresponding physical page with the requested permissions while
  every other translation is as before, or it runs out of memory and returns -1, which
  cannot happen when more than two pages per mapped page are free; in both cases the page table stays well formed and no memory outside the table pages and the
  free pages changes.
\<close>

theorem mappages_correct:
  assumes "vm_wf s pt" "pg_aligned va" "unat va + 4096 * Suc n \<le> unat MAXVA"
    and "\<forall>w. in_pages va (Suc n) w \<longrightarrow> vtrans s pt w AND PTE_V = 0"
  shows "\<exists>r s'. mappages pt va (of_nat (4096 * Suc n)) pa perm s e = (Ret r, s', e) \<and> vm_wf s' pt \<and>
    agree (- (set (tables (mem s) 2 pt) \<union> free_pages s)) (mem s) (mem s') \<and>
    (r = 0 \<and> (\<forall>w<MAXVA. vtrans s' pt w =
        (if in_pages va (Suc n) w then PA2PTE (pa + (PGROUNDDOWN w - va)) OR perm OR PTE_V else vtrans s pt w)) \<or>
     r = - 1 \<and> card (free_pages s) \<le> 2 * Suc n)"
proof -
  have n: "4096 * Suc n < 2 ^ 64" using assms(3) by simp
  obtain r s' where "kloop (mappages_body pt (va + of_nat (4096 * n)) perm) (va, pa) s e = (Ret r, s', e)"
    "vm_frame pt s s'"
    "if r = 0 then \<forall>w<MAXVA. vtrans s' pt w = map_range (vtrans s pt) va (Suc n) pa perm w
     else r = - 1 \<and> card (free_pages s) \<le> 2 * Suc n \<and>
       (\<exists>k\<le>n. \<forall>w<MAXVA. vtrans s' pt w = map_range (vtrans s pt) va k pa perm w)"
    using mappages_loop [OF assms(1-3) refl assms(4)] by blast
  then show ?thesis
    unfolding mappages_eq_loop [OF assms(2) n]
    by (intro exI [of _ r] exI [of _ s']) (auto simp: vm_frame_def map_range_def split: if_splits)
qed

text \<open>
  C13: a round trip through user memory.  Copying bytes out to a writable user range and
  copying the same range in again returns exactly those bytes; the copy changes only the
  physical bytes behind the range and no translation.
\<close>

theorem copyout_copyin_roundtrip:
  assumes "vm_wf s pt" "unat va + length src \<le> unat MAXVA" "\<forall>i<length src. uwritable s pt (va + of_nat i)"
    and "inj_on (\<lambda>i. upa s pt (va + of_nat i)) {..<length src}"
  shows "\<exists>s1. copyout pt psz va src s e = (Ret 0, s1, e) \<and> copyin pt psz va (length src) s1 e = (Ret (0, src), s1, e) \<and>
    vm_wf s1 pt \<and> vtrans s1 pt = vtrans s pt \<and>
    (\<forall>x. (\<forall>i<length src. x \<noteq> upa s pt (va + of_nat i)) \<longrightarrow> mem s1 x = mem s x)"
proof -
  obtain m' where r: "kloop (copyout_body pt psz) (va, src) s e = (Ret 0, s\<lparr>mem := m'\<rparr>, e)"
    and inv: "vm_wf (s\<lparr>mem := m'\<rparr>) pt" "vtrans (s\<lparr>mem := m'\<rparr>) pt = vtrans s pt"
      "tables m' 2 pt = tables (mem s) 2 pt" "free_pages (s\<lparr>mem := m'\<rparr>) = free_pages s"
    and new: "\<forall>i<length src. m' (upa s pt (va + of_nat i)) = src ! i"
    and old: "\<forall>x. (\<forall>i<length src. x \<noteq> upa s pt (va + of_nat i)) \<longrightarrow> m' x = mem s x"
    using copyout_loop [OF assms] by blast
  let ?s1 = "s\<lparr>mem := m'\<rparr>"
  have "upa ?s1 pt = upa s pt" "\<forall>i<length src. ureadable ?s1 pt (va + of_nat i)"
    using inv assms(3) by (auto simp: upa_def uwritable_def ureadable_def fun_eq_iff)
  then have "copyin pt psz va (length src) ?s1 e = (Ret (0, map (\<lambda>i. m' (upa s pt (va + of_nat i))) [0..<length src]), ?s1, e)"
    using copyin_loop [OF inv(1) assms(2), of psz "[]" e] by (simp add: copyin_def)
  moreover have "map (\<lambda>i. m' (upa s pt (va + of_nat i))) [0..<length src] = src"
    using new by (intro nth_equalityI) simp_all
  ultimately show ?thesis
    using r inv old by (intro exI [of _ ?s1]) (simp add: copyout_def)
qed

lemma demo_kmem: "\<exists>s :: kmem_state. kmem_ok s \<and> 4 < card (free_pages s)"
proof -
  obtain s ps where i: "kinit (boot_kmem 0x87ff0000) [] = (Ret (), s, [])" "kmem_inv s ps" "kmem_ready s"
      "set ps = {p. kpage (boot_kmem 0x87ff0000) p}"
    using kinit_run [of "boot_kmem 0x87ff0000" "[]"] boot_kmem_ok [of "0x87ff0000"] by auto
  then have ok: "kmem_ok s" by (auto simp: kmem_ok_def)
  have "{0x87ff0000, 0x87ff1000, 0x87ff2000, 0x87ff3000, 0x87ff4000} \<subseteq> free_pages s"
    using i free_pages_eq [OF i(2)] by (auto simp: kpage_def boot_kmem_ok pg_aligned_def)
  from card_mono [OF ka.free_finite [OF ok] this] ok show ?thesis by (intro exI [of _ s]) simp
qed

theorem mappages_correct_witness:
  "\<exists>(s :: kmem_state) pt s'. vm_wf s pt \<and> mappages pt 0 (of_nat (4096 * Suc 0)) 0x87000000 6 s [] = (Ret 0, s', []) \<and>
     vtrans s' pt 0 = PA2PTE 0x87000000 OR 7"
proof -
  obtain s0 :: kmem_state where s0: "kmem_ok s0" "4 < card (free_pages s0)" using demo_kmem by blast
  then have "free_pages s0 \<noteq> {}" by auto
  then obtain pt and s :: kmem_state where s: "vm_wf s pt" "\<forall>va. vtrans s pt va = 0" "free_pages s = free_pages s0 - {pt}"
      "pt \<in> free_pages s0"
    using uvmcreate_run [OF s0(1), of "[]"] by blast
  have card: "3 < card (free_pages s)" using s(3,4) s0 ka.free_finite [OF s0(1)] by simp
  have "pg_aligned (0 :: uint64)" "unat (0 :: uint64) + 4096 * Suc 0 \<le> unat MAXVA"
    "\<forall>w. in_pages 0 (Suc 0) w \<longrightarrow> vtrans s pt w AND PTE_V = 0"
    using s(2) by simp_all
  from mappages_correct [OF s(1) this, of "0x87000000" 6 "[]"] card obtain s' where
    m: "mappages pt 0 (of_nat (4096 * Suc 0)) 0x87000000 6 s [] = (Ret 0, s', [])"
    and v: "\<forall>w<MAXVA. vtrans s' pt w = (if in_pages 0 (Suc 0) w
        then PA2PTE (0x87000000 + (PGROUNDDOWN w - 0)) OR 6 OR PTE_V else vtrans s pt w)"
    by auto
  have "vtrans s' pt 0 = PA2PTE 0x87000000 OR 7"
    using v by (simp add: in_pages_def PGROUNDDOWN_def or.assoc)
  with s(1) m show ?thesis by blast
qed

theorem copyout_copyin_roundtrip_witness:
  "\<exists>(s :: kmem_state) pt s1. vm_wf s pt \<and> copyout pt PGSIZE 7 [1, 2, 3] s [] = (Ret 0, s1, []) \<and>
     copyin pt PGSIZE 7 (length [1, 2, 3 :: uchar]) s1 [] = (Ret (0, [1, 2, 3]), s1, [])"
proof -
  obtain s0 :: kmem_state where s0: "kmem_ok s0" "4 < card (free_pages s0)" using demo_kmem by blast
  obtain pt and s :: kmem_state where s: "vm_wf s pt" "\<forall>w<PGSIZE. uwritable s pt w \<and> upa s pt w = upa s pt 0 + w"
    using fresh_user_page [OF s0] by blast
  let ?src = "[1, 2, 3] :: uchar list"
  have u: "7 + of_nat i < (PGSIZE :: uint64)" if "i < length ?src" for i
    using that by (auto simp: less_Suc_eq numeral_3_eq_3)
  have "unat (7 :: uint64) + length ?src \<le> unat MAXVA" by simp
  moreover have "\<forall>i<length ?src. uwritable s pt (7 + of_nat i)" using u s(2) by blast
  moreover have "inj_on (\<lambda>i. upa s pt (7 + of_nat i)) {..<length ?src}"
  proof (rule inj_onI)
    fix i j assume i: "i \<in> {..<length ?src}" and j: "j \<in> {..<length ?src}"
      and eq: "upa s pt (7 + of_nat i) = upa s pt (7 + of_nat j)"
    have "upa s pt (7 + of_nat i) = upa s pt 0 + (7 + of_nat i)" "upa s pt (7 + of_nat j) = upa s pt 0 + (7 + of_nat j)"
      using s(2) u i j by blast+
    with eq have "(of_nat i :: uint64) = of_nat j" by simp
    moreover have "unat (of_nat i :: uint64) = i" "unat (of_nat j :: uint64) = j"
      using i j by (auto intro!: unat_of_nat_less)
    ultimately show "i = j" by metis
  qed
  ultimately show ?thesis
    using copyout_copyin_roundtrip [OF s(1), of 7 ?src PGSIZE "[]"] s(1) by blast
qed

end
