(* ===== verification/Calm.thy ===== *)
theory Calm
  imports ProcProps VmProps
begin

text \<open>
  Symbolic execution without contention.  \<open>calm L s\<close>: the hart runs a process, holds at
  most the spinlocks in \<open>L\<close>, every other lock is free and the interrupt nesting is in its
  settled state.  From a calm state a critical section is its body, so the run rules of
  the components above are equations between states without lock bookkeeping.
\<close>

definition calm :: "lockid set \<Rightarrow> 'a proc_state_scheme \<Rightarrow> bool" where
  "calm L s \<longleftrightarrow> intr_ok s \<and> settle s = s \<and> (\<forall>lk. lk \<notin> L \<longrightarrow> lock_clean s lk) \<and> curproc s \<noteq> None"

named_theorems calm_simps \<open>moving updates out of critical sections\<close>

lemma calmD:
  assumes "calm L s"
  shows "intr_ok s" "settle s = s" "lk \<notin> L \<Longrightarrow> lock_clean s lk" "\<exists>p. curproc s = Some p"
  using assms by (auto simp: calm_def)

lemma calm_mono: "calm L s \<Longrightarrow> L \<subseteq> M \<Longrightarrow> calm M s"
  by (auto simp: calm_def)

lemma calm_acquired:
  assumes "calm L s" shows "calm (insert lk L) (acquired lk s)"
proof -
  have "0 \<le> noff s" using calmD(1) [OF assms] by (simp add: intr_ok_def)
  then have "settle (acquired lk s) = acquired lk s" "intr_ok (acquired lk s)"
    by (simp_all add: settle_inside intr_ok_def)
  moreover have "curproc (acquired lk s) = curproc s"
    by (simp add: curproc_def acquired_def pushed_def)
  ultimately show ?thesis
    using assms by (auto simp: calm_def lock_clean_def acquired_def)
qed

lemma acquire_calm [k_run]:
  "calm L s \<Longrightarrow> lk \<notin> L \<Longrightarrow> acquire lk s e = (Ret (), acquired lk s, e)"
  by (simp add: acquire_free calm_def lock_clean_def)

lemma release_calm [k_run]:
  assumes "calm L s" "lk \<notin> L"
  shows "release lk (acquired lk s) e = (Ret (), s, e)"
proof -
  have "release lk (acquired lk s) e = (Ret (), released lk (acquired lk s), e)"
    using calmD(1) [OF assms(1)] by (intro release_after_body) (assumption, rule cs_frame_refl)
  also have "released lk (acquired lk s) =
      (acquired lk s)\<lparr>sstatus := sstatus s, cpus := cpus (settle s), locks := locks s\<rparr>"
    using calmD(1,3) [OF assms(1)] assms(2) by (intro released_eq) (simp, simp, rule cs_frame_refl)
  also have "\<dots> = s"
    using acquired_upd [of lk s] calmD(2) [OF assms(1)]
    by (cases s) (simp add: acquired_def pushed_def)
  finally show ?thesis .
qed

text \<open>Updates of the other parts of the state commute with taking a lock and keep a state calm.\<close>

lemma acquired_mem [simp, calm_simps]:
  "(acquired lk s)\<lparr>mem := x\<rparr> = acquired lk (s\<lparr>mem := x\<rparr>)"
  by (cases s) (simp add: acquired_def pushed_def noff_def sie_on_def)

lemma acquired_kmem [simp, calm_simps]:
  "(acquired lk s)\<lparr>freelist := y\<rparr> = acquired lk (s\<lparr>freelist := y\<rparr>)"
  "freelist (acquired lk s) = freelist s" "kend (acquired lk s) = kend s"
  by (cases s; simp add: acquired_def pushed_def noff_def sie_on_def)+

lemma acquired_proc [simp, calm_simps]:
  "(acquired lk s)\<lparr>procs := p\<rparr> = acquired lk (s\<lparr>procs := p\<rparr>)"
  "(acquired lk s)\<lparr>nextpid := n\<rparr> = acquired lk (s\<lparr>nextpid := n\<rparr>)"
  "(acquired lk s)\<lparr>initproc := i\<rparr> = acquired lk (s\<lparr>initproc := i\<rparr>)"
  "(acquired lk s)\<lparr>lbuf := b\<rparr> = acquired lk (s\<lparr>lbuf := b\<rparr>)"
  "nextpid (acquired lk s) = nextpid s" "initproc (acquired lk s) = initproc s"
  "lbuf (acquired lk s) = lbuf s" "curproc (acquired lk s) = curproc s"
  by (cases s; simp add: acquired_def pushed_def noff_def sie_on_def curproc_def)+

lemma calm_update:
  assumes "cs_comm u" "calm L s" shows "calm L (u s)"
  using assms settle_comm [OF assms(1), of s] cs_commD(2-5) [OF assms(1), of s]
  by (simp add: calm_def intr_ok_def noff_def sie_on_def lock_clean_def curproc_def)

lemma calm_upd_iff:
  assumes "cs_comm (\<lambda>s. u x s)" "\<And>s. u (sel s) (u x s) = s" "cs_comm (\<lambda>s'. u (sel s) s')"
  shows "calm L (u x s) = calm L s"
  using calm_update [OF assms(1), of L s] calm_update [OF assms(3), of L "u x s"] assms(2) by auto

lemma calm_mem [simp]: "calm L (s\<lparr>mem := x\<rparr>) = calm L s"
  by (rule calm_upd_iff [where u = "\<lambda>x s. s\<lparr>mem := x\<rparr>" and sel = mem])
    (simp_all add: cs_comm_def proc_state.splits)

lemma calm_freelist [simp]: "calm L (s\<lparr>freelist := x\<rparr>) = calm L s"
  by (rule calm_upd_iff [where u = "\<lambda>x s. s\<lparr>freelist := x\<rparr>" and sel = freelist])
    (simp_all add: cs_comm_def proc_state.splits)

lemma calm_procs [simp]: "calm L (s\<lparr>procs := x\<rparr>) = calm L s"
  by (rule calm_upd_iff [where u = "\<lambda>x s. s\<lparr>procs := x\<rparr>" and sel = procs])
    (simp_all add: cs_comm_def proc_state.splits)

lemma calm_nextpid [simp]: "calm L (s\<lparr>nextpid := x\<rparr>) = calm L s"
  by (rule calm_upd_iff [where u = "\<lambda>x s. s\<lparr>nextpid := x\<rparr>" and sel = nextpid])
    (simp_all add: cs_comm_def proc_state.splits)

lemma calm_initproc [simp]: "calm L (s\<lparr>initproc := x\<rparr>) = calm L s"
  by (rule calm_upd_iff [where u = "\<lambda>x s. s\<lparr>initproc := x\<rparr>" and sel = initproc])
    (simp_all add: cs_comm_def proc_state.splits)

lemma calm_lbuf [simp]: "calm L (s\<lparr>lbuf := x\<rparr>) = calm L s"
  by (rule calm_upd_iff [where u = "\<lambda>x s. s\<lparr>lbuf := x\<rparr>" and sel = lbuf])
    (simp_all add: cs_comm_def proc_state.splits)

section \<open>Run rules from calm states\<close>

definition myp :: "'a proc_state_scheme \<Rightarrow> nat" where
  "myp s = (case curproc s of Some p \<Rightarrow> p | None \<Rightarrow> 0)"

lemma curproc_myp: "calm L s \<Longrightarrow> curproc s = Some (myp s)"
  by (auto simp: calm_def myp_def)

lemma myp_acquired [simp]: "myp (acquired lk s) = myp s"
  by (simp add: myp_def)

lemma myp_updates [simp]:
  "myp (s\<lparr>mem := a\<rparr>) = myp s" "myp (s\<lparr>freelist := b\<rparr>) = myp s" "myp (s\<lparr>procs := c\<rparr>) = myp s"
  "myp (s\<lparr>nextpid := d\<rparr>) = myp s" "myp (s\<lparr>initproc := f\<rparr>) = myp s" "myp (s\<lparr>lbuf := g\<rparr>) = myp s"
  by (simp_all add: myp_def curproc_def)

lemma myproc_calm [k_run]: "calm L s \<Longrightarrow> myproc s e = (Ret (Some (myp s)), s, e)"
  using myproc_run [of s e] calmD [of L s] curproc_myp [of L s] by simp

lemma with_myproc_calm [k_run]: "calm L s \<Longrightarrow> with_myproc f s e = f (myp s) s e"
  using with_myproc_run [of s "myp s" f e] calmD(1,2) [of L s] curproc_myp [of L s] by simp

lemma sleep_prepare_calm [k_run]:
  "calm L s \<Longrightarrow> ProcLock (myp s) \<notin> L \<Longrightarrow>
   sleep_prepare (Some c) s e = (Ret (), s\<lparr>procs := (procs s)(myp s := (procs s (myp s))\<lparr>p_chan := Some c\<rparr>)\<rparr>, e)"
  using sleep_prepare_run [of s "myp s" c e] calmD [of L s] curproc_myp [of L s] by (simp add: settle_procs)

lemma wakeup_calm [k_run]:
  "calm L s \<Longrightarrow> \<forall>p. ProcLock p \<notin> L \<Longrightarrow>
   wakeup ch s e = (Ret (), s\<lparr>procs := woken_all ch (procs s)\<rparr>, e)"
  using wakeup_run [of s ch e] calmD [of L s] by (simp add: settle_procs)

lemma killed_calm [k_run]:
  "calm L s \<Longrightarrow> ProcLock p \<notin> L \<Longrightarrow> killed p s e = (Ret (p_killed (procs s p)), s, e)"
  using killed_run [of s p e] calmD [of L s] by simp

lemma kmem_ready_calm: "calm L s \<Longrightarrow> KmemLock \<notin> L \<Longrightarrow> kmem_ready s"
  by (simp add: calm_def kmem_ready_def)

section \<open>A calm state\<close>

text \<open>A hart that runs process 3 with no lock held; the states of the later components extend it.\<close>

definition calm_proc :: proc_state where
  "calm_proc = settle boot_proc"

lemma calm_proc_calm [simp]: "calm L calm_proc"
proof -
  have "curproc calm_proc = Some 3" using boot_proc_ok(2) by (simp add: calm_proc_def settle_def curproc_def)
  moreover have "lock_clean calm_proc lk" for lk using boot_proc_ok(3) by (simp add: calm_proc_def lock_clean_def)
  ultimately show ?thesis using boot_proc_ok(1) by (simp add: calm_def calm_proc_def)
qed

lemma myp_calm_proc [simp]: "myp calm_proc = 3"
  using boot_proc_ok(2) by (simp add: calm_proc_def settle_def curproc_def myp_def)

lemma extend_proc_fields [simp]:
  "locks (proc_state.extend s m) = locks s" "tp (proc_state.extend s m) = tp s"
  "cpus (proc_state.extend s m) = cpus s" "sstatus (proc_state.extend s m) = sstatus s"
  "procs (proc_state.extend s m) = procs s" "mem (proc_state.extend s m) = mem s"
  by (simp_all add: proc_state.extend_def)

lemma calm_extend [simp]: "calm L (proc_state.extend s m) = calm L s"
proof -
  have "settle (proc_state.extend s m) = proc_state.extend s m \<longleftrightarrow> settle s = s"
    by (cases s) (simp add: proc_state.extend_def settle_def noff_def sie_on_def)
  then show ?thesis by (simp add: calm_def intr_ok_def noff_def sie_on_def lock_clean_def curproc_def)
qed

lemma myp_extend [simp]: "myp (proc_state.extend s m) = myp s"
  by (simp add: myp_def curproc_def)

end
