(* ===== verification/Sleeplock.thy ===== *)
theory Sleeplock
  imports Calm
begin

text \<open>
  Sleep locks (\<open>kernel/sleeplock.c\<close>): long-term locks held across disk operations.  The
  spinlock inside a sleep lock is the entry \<open>SleepLk\<close> of the lock store.
\<close>

section \<open>State and operations\<close>

record sleeplock =
  sl_locked :: bool
  sl_name :: string
  sl_pid :: int

record sl_state = proc_state +
  slocks :: "slid \<Rightarrow> sleeplock"

abbreviation (input) set_slock :: "slid \<Rightarrow> (sleeplock \<Rightarrow> sleeplock) \<Rightarrow> 'a sl_state_scheme \<Rightarrow> 'a sl_state_scheme" where
  "set_slock k f s \<equiv> s\<lparr>slocks := (slocks s)(k := f (slocks s k))\<rparr>"

definition initsleeplock :: "slid \<Rightarrow> string \<Rightarrow> (unit, 'a sl_state_scheme) K" where
  "initsleeplock lk name = kseq [
     initlock (SleepLk lk) ''sleep lock'',
     kmod (set_slock lk (\<lambda>l. l\<lparr>sl_name := name, sl_locked := False, sl_pid := 0\<rparr>))]"

definition acquiresleep :: "slid \<Rightarrow> (unit, 'a sl_state_scheme) K" where
  "acquiresleep lk =
     kbind (acquire (SleepLk lk)) (\<lambda>_.
     kbind (kloop (\<lambda>_.
       kbind (kget (\<lambda>s. sl_locked (slocks s lk))) (\<lambda>b.
       if b then
         kbind (kseq [
           sleep_prepare (Some (ChSleeplock lk)),
           release (SleepLk lk),
           sleep,
           acquire (SleepLk lk)]) (\<lambda>_. kret (Inl ()))
       else kret (Inr ()))) ()) (\<lambda>_.
     kbind (kmod (set_slock lk (\<lambda>l. l\<lparr>sl_locked := True\<rparr>))) (\<lambda>_.
     kbind (with_myproc (\<lambda>p. kget (\<lambda>s. p_pid (procs s p)))) (\<lambda>pid.
     kbind (kmod (set_slock lk (\<lambda>l. l\<lparr>sl_pid := pid\<rparr>))) (\<lambda>_.
     release (SleepLk lk))))))"

definition releasesleep :: "slid \<Rightarrow> (unit, 'a sl_state_scheme) K" where
  "releasesleep lk = kseq [
     acquire (SleepLk lk),
     kmod (set_slock lk (\<lambda>l. l\<lparr>sl_locked := False\<rparr>)),
     kmod (set_slock lk (\<lambda>l. l\<lparr>sl_pid := 0\<rparr>)),
     wakeup (ChSleeplock lk),
     release (SleepLk lk)]"

definition holdingsleep :: "slid \<Rightarrow> (bool, 'a sl_state_scheme) K" where
  "holdingsleep lk =
     kbind (acquire (SleepLk lk)) (\<lambda>_.
     kbind (kget (\<lambda>s. sl_locked (slocks s lk))) (\<lambda>b.
     kbind (if b then with_myproc (\<lambda>p. kget (\<lambda>s. sl_pid (slocks s lk) = p_pid (procs s p))) else kret False) (\<lambda>r.
     kbind (release (SleepLk lk)) (\<lambda>_.
     kret r))))"

section \<open>Run rules\<close>

lemma acquired_sl_state [simp, calm_simps]:
  "(acquired lk s)\<lparr>slocks := x_slocks\<rparr> = acquired lk (s\<lparr>slocks := x_slocks\<rparr>)"
  "slocks (acquired lk s) = slocks s"
  by (cases s; simp add: acquired_def pushed_def noff_def sie_on_def)+

lemma myp_sl_state [simp]:
  "myp (s\<lparr>slocks := x_slocks\<rparr>) = myp s"
  by (simp_all add: myp_def curproc_def)

lemma calm_slocks [simp]: "calm L (s\<lparr>slocks := x\<rparr>) = calm L s"
  by (rule calm_upd_iff [where u = "\<lambda>x s. s\<lparr>slocks := x\<rparr>" and sel = slocks])
    (simp_all add: cs_comm_def sl_state.splits)

text \<open>The lock is held by the running process.\<close>

definition sl_mine :: "'a sl_state_scheme \<Rightarrow> slid \<Rightarrow> bool" where
  "sl_mine s lk \<longleftrightarrow> sl_locked (slocks s lk) \<and> sl_pid (slocks s lk) = p_pid (procs s (myp s))"

definition sl_take :: "slid \<Rightarrow> 'a sl_state_scheme \<Rightarrow> 'a sl_state_scheme" where
  "sl_take lk s = set_slock lk (\<lambda>l. l\<lparr>sl_locked := True, sl_pid := p_pid (procs s (myp s))\<rparr>) s"

definition sl_drop :: "slid \<Rightarrow> 'a sl_state_scheme \<Rightarrow> 'a sl_state_scheme" where
  "sl_drop lk s = s\<lparr>slocks := (slocks s)(lk := (slocks s lk)\<lparr>sl_locked := False, sl_pid := 0\<rparr>),
     procs := woken_all (ChSleeplock lk) (procs s)\<rparr>"

lemma acquiresleep_free [k_run]:
  assumes "calm L s" "SleepLk lk \<notin> L" "\<not> sl_locked (slocks s lk)"
  shows "acquiresleep lk s e = (Ret (), sl_take lk s, e)"
proof -
  let ?b = "\<lambda>_. kbind (kget (\<lambda>s. sl_locked (slocks s lk))) (\<lambda>b. if b then
         kbind (kseq [sleep_prepare (Some (ChSleeplock lk)), release (SleepLk lk), sleep, acquire (SleepLk lk)])
           (\<lambda>_. kret (Inl ())) else kret (Inr ()))"
  have "kloop ?b () (acquired (SleepLk lk) s) e = (Ret (), acquired (SleepLk lk) s, e)"
    using assms(3) by (intro kloop_step_Inr) (simp add: kret_run)
  then show ?thesis
    unfolding acquiresleep_def using assms
    by (simp add: acquire_calm [OF assms(1,2)] kbind_Ret
        with_myproc_calm [where L = "insert (SleepLk lk) L"] calm_acquired kget_run release_calm [where L = L] sl_take_def)
qed

lemma releasesleep_run [k_run]:
  assumes "calm L s" "SleepLk lk \<notin> L" "\<forall>p. ProcLock p \<notin> L"
  shows "releasesleep lk s e = (Ret (), sl_drop lk s, e)"
proof -
  let ?t = "s\<lparr>slocks := (slocks s)(lk := (slocks s lk)\<lparr>sl_locked := False, sl_pid := 0\<rparr>)\<rparr>"
  have "wakeup (ChSleeplock lk) (acquired (SleepLk lk) ?t) e =
      (Ret (), (acquired (SleepLk lk) ?t)\<lparr>procs := woken_all (ChSleeplock lk) (procs s)\<rparr>, e)"
    using wakeup_calm [OF calm_acquired, of L ?t "SleepLk lk" "ChSleeplock lk" e] assms by simp
  then show ?thesis
    unfolding releasesleep_def using assms
    by (simp add: acquire_calm [OF assms(1,2)] kbind_Ret release_calm [where L = L] kret_run sl_drop_def)
qed

lemma holdingsleep_run [k_run]:
  assumes "calm L s" "SleepLk lk \<notin> L"
  shows "holdingsleep lk s e = (Ret (sl_mine s lk), s, e)"
  unfolding holdingsleep_def using assms
  by (auto simp: acquire_calm [OF assms(1,2)] kbind_Ret with_myproc_calm [where L = "insert (SleepLk lk) L"] calm_acquired
      kget_run release_calm [where L = L] kret_run sl_mine_def)

lemma extend_sl_state [simp]:
  "locks (sl_state.extend s m) = locks s"
  "tp (sl_state.extend s m) = tp s"
  "cpus (sl_state.extend s m) = cpus s"
  "sstatus (sl_state.extend s m) = sstatus s"
  "procs (sl_state.extend s m) = procs s"
  "mem (sl_state.extend s m) = mem s"
  "slocks (sl_state.extend s m) = slocks s"
  by (simp_all add: sl_state.extend_def)

lemma calm_extend_sl_state [simp]: "calm L (sl_state.extend s m) = calm L s"
proof -
  have "settle (sl_state.extend s m) = sl_state.extend s m \<longleftrightarrow> settle s = s"
    by (cases s) (simp add: sl_state.extend_def settle_def noff_def sie_on_def)
  then show ?thesis by (simp add: calm_def intr_ok_def noff_def sie_on_def lock_clean_def curproc_def)
qed

lemma myp_extend_sl_state [simp]: "myp (sl_state.extend s m) = myp s"
  by (simp add: myp_def curproc_def)


definition calm_sl :: sl_state where
  "calm_sl = proc_state.extend calm_proc (sl_state.fields (\<lambda>_. \<lparr>sl_locked = False, sl_name = [], sl_pid = 0\<rparr>))"

lemma calm_sl [simp]: "calm L calm_sl" "myp calm_sl = 3" "\<not> sl_locked (slocks calm_sl k)" "procs calm_sl = procs calm_proc"
  by (simp_all add: calm_sl_def) (simp add: proc_state.extend_def sl_state.fields_def)

end
