(* ===== verification/Uart.thy ===== *)
theory Uart
  imports Sleeplock
begin

unbundle bit_operations_syntax

text \<open>
  The 16550 serial port (\<open>kernel/uart.c\<close>) and \<open>consputc\<close> of \<open>kernel/console.c\<close>.  The device
  is volatile: what the successive reads of a register return is the parameter \<open>uart_in\<close> of
  the state, and \<open>uart_pos\<close> counts the reads of each register so far.  Register writes are
  recorded in \<open>uart_w\<close>, the newest first.
\<close>

section \<open>State\<close>

record uart_state = sl_state +
  uart_in :: "nat \<Rightarrow> nat \<Rightarrow> uchar"
  uart_pos :: "nat \<Rightarrow> nat"
  uart_w :: "(nat \<times> uchar) list"
  panicking :: bool
  panicked :: bool

abbreviation (input) RHR :: nat where "RHR \<equiv> 0"
abbreviation (input) THR :: nat where "THR \<equiv> 0"
abbreviation (input) IER :: nat where "IER \<equiv> 1"
abbreviation (input) FCR :: nat where "FCR \<equiv> 2"
abbreviation (input) ISR :: nat where "ISR \<equiv> 2"
abbreviation (input) LCR :: nat where "LCR \<equiv> 3"
abbreviation (input) LSR :: nat where "LSR \<equiv> 5"
abbreviation (input) LSR_RX_READY :: uchar where "LSR_RX_READY \<equiv> 1"
abbreviation (input) LSR_TX_IDLE :: uchar where "LSR_TX_IDLE \<equiv> 32"

section \<open>Operations\<close>

definition ReadReg :: "nat \<Rightarrow> (uchar, 'a uart_state_scheme) K" where
  "ReadReg reg =
     kbind (kget (\<lambda>s. uart_in s reg (uart_pos s reg))) (\<lambda>v.
     kbind (kmod (\<lambda>s. s\<lparr>uart_pos := (uart_pos s)(reg := Suc (uart_pos s reg))\<rparr>)) (\<lambda>_.
     kret v))"

definition WriteReg :: "nat \<Rightarrow> uchar \<Rightarrow> (unit, 'a uart_state_scheme) K" where
  "WriteReg reg v = kmod (\<lambda>s. s\<lparr>uart_w := (reg, v) # uart_w s\<rparr>)"

definition uartinit :: "(unit, 'a uart_state_scheme) K" where
  "uartinit = kseq [
     WriteReg IER 0,
     WriteReg LCR 0x80,
     WriteReg 0 3,
     WriteReg 1 0,
     WriteReg LCR 3,
     WriteReg FCR 7,
     WriteReg IER 3,
     initsleeplock UartSl ''uart'']"

definition uartwrite_one :: "uchar list \<Rightarrow> nat \<Rightarrow> (nat, 'a uart_state_scheme) K" where
  "uartwrite_one buf i =
     kbind (sleep_prepare (Some ChTx)) (\<lambda>_.
     kbind (ReadReg LSR) (\<lambda>v.
     if v AND LSR_TX_IDLE \<noteq> 0 then kbind (WriteReg THR (buf ! i)) (\<lambda>_. kret (i + 1))
     else kbind sleep (\<lambda>_. kret i)))"

text \<open>The caller passes as many bytes as the buffer holds: \<open>n\<close> is the length of \<open>buf\<close>.\<close>

definition uartwrite :: "uchar list \<Rightarrow> (unit, 'a uart_state_scheme) K" where
  "uartwrite buf =
     kbind (acquiresleep UartSl) (\<lambda>_.
     kbind (kloop (\<lambda>i.
       if i < length buf then kbind (uartwrite_one buf i) (\<lambda>i. kret (Inl i))
       else kret (Inr ())) 0) (\<lambda>_.
     releasesleep UartSl))"

definition uart_spin :: "(unit, 'a uart_state_scheme) K" where
  "uart_spin = kloop (\<lambda>_.
     kbind (ReadReg LSR) (\<lambda>v.
     if v AND LSR_TX_IDLE = 0 then kret (Inl ()) else kret (Inr ()))) ()"

definition uartputc_sync :: "int \<Rightarrow> (unit, 'a uart_state_scheme) K" where
  "uartputc_sync c =
     kbind (kget panicking) (\<lambda>p.
     kbind (kwhen (\<not> p) push_off) (\<lambda>_.
     kbind (kget panicked) (\<lambda>q.
     kbind (kwhen q (kloop (\<lambda>_. kret (Inl ())) ())) (\<lambda>_.
     kbind uart_spin (\<lambda>_.
     kbind (WriteReg THR (of_int c)) (\<lambda>_.
     kbind (kget panicking) (\<lambda>p.
     kwhen (\<not> p) pop_off)))))))"

definition uartgetc :: "(int, 'a uart_state_scheme) K" where
  "uartgetc =
     kbind (ReadReg LSR) (\<lambda>v.
     if v AND LSR_RX_READY \<noteq> 0 then kbind (ReadReg RHR) (\<lambda>c. kret (uint c))
     else kret (- 1))"

abbreviation (input) BACKSPACE :: int where "BACKSPACE \<equiv> 0x100"

definition consputc :: "int \<Rightarrow> (unit, 'a uart_state_scheme) K" where
  "consputc c =
     (if c = BACKSPACE then kseq [uartputc_sync 8, uartputc_sync 32, uartputc_sync 8]
      else uartputc_sync c)"

section \<open>What is sent\<close>

text \<open>The bytes written to the transmit register so far, the oldest first.\<close>

definition sent :: "'a uart_state_scheme \<Rightarrow> uchar list" where
  "sent s = rev (map snd (filter (\<lambda>(r, _). r = THR) (uart_w s)))"

text \<open>The transmitter becomes idle again and again: the assumption on the device.\<close>

definition tx_live :: "'a uart_state_scheme \<Rightarrow> bool" where
  "tx_live s \<longleftrightarrow> (\<forall>n. \<exists>k\<ge>n. bit (uart_in s LSR k) 5)"

text \<open>\<open>sends bs s s'\<close>: \<open>s'\<close> differs from \<open>s\<close> in the serial port only, and \<open>bs\<close> was sent.\<close>

definition sends :: "uchar list \<Rightarrow> 'a uart_state_scheme \<Rightarrow> 'a uart_state_scheme \<Rightarrow> bool" where
  "sends bs s s' \<longleftrightarrow> s' = s\<lparr>uart_pos := uart_pos s', uart_w := map (Pair THR) (rev bs) @ uart_w s\<rparr>"

lemma sends_refl [simp]: "sends [] s s"
  by (simp add: sends_def)

lemma sends_fields:
  assumes "sends bs s t"
  shows "uart_in t = uart_in s" "panicking t = panicking s" "panicked t = panicked s"
    "uart_w t = map (Pair THR) (rev bs) @ uart_w s" "tx_live t = tx_live s"
proof -
  obtain p where t: "t = s\<lparr>uart_pos := p, uart_w := map (Pair THR) (rev bs) @ uart_w s\<rparr>"
    using assms unfolding sends_def by metis
  show "uart_in t = uart_in s" "panicking t = panicking s" "panicked t = panicked s"
    "uart_w t = map (Pair THR) (rev bs) @ uart_w s" "tx_live t = tx_live s"
    unfolding t by (simp_all add: tx_live_def)
qed

lemma sends_trans:
  assumes "sends bs s t" "sends cs t u" shows "sends (bs @ cs) s u"
proof -
  obtain p where t: "t = s\<lparr>uart_pos := p, uart_w := map (Pair THR) (rev bs) @ uart_w s\<rparr>"
    using assms(1) unfolding sends_def by metis
  obtain q where u: "u = t\<lparr>uart_pos := q, uart_w := map (Pair THR) (rev cs) @ uart_w t\<rparr>"
    using assms(2) unfolding sends_def by metis
  show ?thesis unfolding sends_def u t by simp
qed

lemma sends_sent: "sends bs s t \<Longrightarrow> sent t = sent s @ bs"
  by (simp add: sends_fields sent_def rev_map filter_True comp_def)

section \<open>Run rules\<close>

lemma acquired_uart_state [simp, calm_simps]:
  "(acquired lk s)\<lparr>uart_in := x_uart_in\<rparr> = acquired lk (s\<lparr>uart_in := x_uart_in\<rparr>)"
  "uart_in (acquired lk s) = uart_in s"
  "(acquired lk s)\<lparr>uart_pos := x_uart_pos\<rparr> = acquired lk (s\<lparr>uart_pos := x_uart_pos\<rparr>)"
  "uart_pos (acquired lk s) = uart_pos s"
  "(acquired lk s)\<lparr>uart_w := x_uart_w\<rparr> = acquired lk (s\<lparr>uart_w := x_uart_w\<rparr>)"
  "uart_w (acquired lk s) = uart_w s"
  "(acquired lk s)\<lparr>panicking := x_panicking\<rparr> = acquired lk (s\<lparr>panicking := x_panicking\<rparr>)"
  "panicking (acquired lk s) = panicking s"
  "(acquired lk s)\<lparr>panicked := x_panicked\<rparr> = acquired lk (s\<lparr>panicked := x_panicked\<rparr>)"
  "panicked (acquired lk s) = panicked s"
  by (cases s; simp add: acquired_def pushed_def noff_def sie_on_def)+

lemma myp_uart_state [simp]:
  "myp (s\<lparr>uart_in := x_uart_in\<rparr>) = myp s"
  "myp (s\<lparr>uart_pos := x_uart_pos\<rparr>) = myp s"
  "myp (s\<lparr>uart_w := x_uart_w\<rparr>) = myp s"
  "myp (s\<lparr>panicking := x_panicking\<rparr>) = myp s"
  "myp (s\<lparr>panicked := x_panicked\<rparr>) = myp s"
  by (simp_all add: myp_def curproc_def)

lemma calm_uart_in [simp]: "calm L (s\<lparr>uart_in := x\<rparr>) = calm L s"
  by (rule calm_upd_iff [where u = "\<lambda>x s. s\<lparr>uart_in := x\<rparr>" and sel = uart_in])
    (simp_all add: cs_comm_def uart_state.splits)

lemma calm_uart_pos [simp]: "calm L (s\<lparr>uart_pos := x\<rparr>) = calm L s"
  by (rule calm_upd_iff [where u = "\<lambda>x s. s\<lparr>uart_pos := x\<rparr>" and sel = uart_pos])
    (simp_all add: cs_comm_def uart_state.splits)

lemma calm_uart_w [simp]: "calm L (s\<lparr>uart_w := x\<rparr>) = calm L s"
  by (rule calm_upd_iff [where u = "\<lambda>x s. s\<lparr>uart_w := x\<rparr>" and sel = uart_w])
    (simp_all add: cs_comm_def uart_state.splits)

lemma calm_panicking [simp]: "calm L (s\<lparr>panicking := x\<rparr>) = calm L s"
  by (rule calm_upd_iff [where u = "\<lambda>x s. s\<lparr>panicking := x\<rparr>" and sel = panicking])
    (simp_all add: cs_comm_def uart_state.splits)

lemma calm_panicked [simp]: "calm L (s\<lparr>panicked := x\<rparr>) = calm L s"
  by (rule calm_upd_iff [where u = "\<lambda>x s. s\<lparr>panicked := x\<rparr>" and sel = panicked])
    (simp_all add: cs_comm_def uart_state.splits)

lemma ReadReg_run [k_run]:
  "ReadReg r s e = (Ret (uart_in s r (uart_pos s r)), s\<lparr>uart_pos := (uart_pos s)(r := Suc (uart_pos s r))\<rparr>, e)"
  by (simp add: ReadReg_def kret_run)

lemma tx_idle_test: "(v :: uchar) AND 32 = 0 \<longleftrightarrow> \<not> bit v 5"
  using bit_iff_and_push_bit_not_eq_0 [of v 5] by simp

lemma uart_spin_idle:
  "bit (uart_in s LSR (uart_pos s LSR)) 5 \<Longrightarrow>
   uart_spin s e = (Ret (), s\<lparr>uart_pos := (uart_pos s)(LSR := Suc (uart_pos s LSR))\<rparr>, e)"
  unfolding uart_spin_def
  by (rule kloop_step_Inr) (simp add: kbind_Ret [OF ReadReg_run] tx_idle_test kret_run)

lemma uart_spin_run:
  "uart_pos s LSR \<le> k \<Longrightarrow> bit (uart_in s LSR k) 5 \<Longrightarrow> \<exists>p. uart_spin s e = (Ret (), s\<lparr>uart_pos := p\<rparr>, e)"
proof (induction "k - uart_pos s LSR" arbitrary: s)
  case 0
  then have "uart_pos s LSR = k" by simp
  then have "bit (uart_in s LSR (uart_pos s LSR)) 5" using 0 by simp
  from uart_spin_idle [OF this] show ?case by blast
next
  case (Suc n)
  let ?t = "s\<lparr>uart_pos := (uart_pos s)(LSR := Suc (uart_pos s LSR))\<rparr>"
  let ?b = "\<lambda>_. kbind (ReadReg LSR) (\<lambda>v. if v AND LSR_TX_IDLE = 0 then kret (Inl ()) else kret (Inr ()))"
  show ?case
  proof (cases "bit (uart_in s LSR (uart_pos s LSR)) 5")
    case True
    from uart_spin_idle [OF True] show ?thesis by blast
  next
    case False
    have "n = k - uart_pos ?t LSR" "uart_pos ?t LSR \<le> k" "bit (uart_in ?t LSR k) 5"
      using Suc.hyps(2) Suc.prems by auto
    from Suc.hyps(1) [OF this] obtain p where "uart_spin ?t e = (Ret (), ?t\<lparr>uart_pos := p\<rparr>, e)" ..
    then have "kloop ?b () ?t e = (Ret (), s\<lparr>uart_pos := p\<rparr>, e)" by (simp add: uart_spin_def)
    moreover have "?b () s e = (Ret (Inl ()), ?t, e)"
      using False by (simp add: kbind_Ret [OF ReadReg_run] tx_idle_test kret_run)
    ultimately have "uart_spin s e = (Ret (), s\<lparr>uart_pos := p\<rparr>, e)"
      unfolding uart_spin_def by (rule kloop_step_Inl [where b = ?b, rotated])
    then show ?thesis by blast
  qed
qed

lemma popped_uart:
  assumes "calm L s"
  shows "pop_off ((pushed s)\<lparr>uart_pos := p, uart_w := w\<rparr>) e = (Ret (), s\<lparr>uart_pos := p, uart_w := w\<rparr>, e)"
proof -
  let ?t = "(pushed s)\<lparr>uart_pos := p, uart_w := w\<rparr>"
  have t: "?t = pushed (s\<lparr>uart_pos := p, uart_w := w\<rparr>)"
    by (cases s) (simp add: pushed_def noff_def sie_on_def)
  have c: "calm L (s\<lparr>uart_pos := p, uart_w := w\<rparr>)" using assms by simp
  then show ?thesis
    using pop_off_run [of ?t e] popped_pushed [OF calmD(1) [OF c]] calmD(1,2) [OF c]
    unfolding t by (simp add: intr_ok_def)
qed

lemma uart_spin_live:
  assumes "tx_live s" obtains p where "uart_spin s e = (Ret (), s\<lparr>uart_pos := p\<rparr>, e)"
proof -
  obtain k where "uart_pos s LSR \<le> k" "bit (uart_in s LSR k) 5" using assms by (auto simp: tx_live_def)
  from uart_spin_run [OF this, of e] that show thesis by blast
qed

lemma uartputc_sync_run:
  assumes "calm L s" "tx_live s" "\<not> panicked s"
  shows "\<exists>s'. uartputc_sync c s e = (Ret (), s', e) \<and> sends [of_int c] s s'"
proof (cases "panicking s")
  case True
  from uart_spin_live [OF assms(2)] obtain p where "uart_spin s e = (Ret (), s\<lparr>uart_pos := p\<rparr>, e)" .
  then show ?thesis using True assms(3)
    by (simp add: uartputc_sync_def kbind_Ret WriteReg_def kret_run sends_def)
next
  case False
  let ?s = "pushed s"
  have u: "uart_pos ?s = uart_pos s" "uart_in ?s = uart_in s" "uart_w ?s = uart_w s"
    "panicking ?s = panicking s" "panicked ?s = panicked s" by (simp_all add: pushed_def)
  have "tx_live ?s" using assms(2) by (simp add: tx_live_def u)
  from uart_spin_live [OF this] obtain p where "uart_spin ?s e = (Ret (), ?s\<lparr>uart_pos := p\<rparr>, e)" .
  then show ?thesis using False assms(3)
      popped_uart [OF assms(1), where p = p and w = "(THR, of_int c) # uart_w s" and e = e]
    by (simp add: uartputc_sync_def kbind_Ret push_off_run WriteReg_def kret_run sends_def u)
qed

text \<open>What a character of the console puts on the wire.\<close>

definition con_bytes :: "int \<Rightarrow> uchar list" where
  "con_bytes c = (if c = BACKSPACE then [8, 32, 8] else [of_int c])"

definition tx_ok :: "lockid set \<Rightarrow> 'a uart_state_scheme \<Rightarrow> bool" where
  "tx_ok L s \<longleftrightarrow> calm L s \<and> tx_live s \<and> \<not> panicked s"

lemma sends_tx_ok: "sends bs s t \<Longrightarrow> tx_ok L t = tx_ok L s"
proof -
  assume "sends bs s t"
  then obtain p where t: "t = s\<lparr>uart_pos := p, uart_w := map (Pair THR) (rev bs) @ uart_w s\<rparr>"
    unfolding sends_def by metis
  show ?thesis unfolding t by (simp add: tx_ok_def tx_live_def)
qed

text \<open>Computations that do nothing but send bytes compose.\<close>

definition sender :: "uchar list \<Rightarrow> lockid set \<Rightarrow> (unit, 'a uart_state_scheme) K \<Rightarrow> bool" where
  "sender bs L f \<longleftrightarrow> (\<forall>s e. tx_ok L s \<longrightarrow> (\<exists>s'. f s e = (Ret (), s', e) \<and> sends bs s s'))"

lemma senderD: "sender bs L f \<Longrightarrow> tx_ok L s \<Longrightarrow> \<exists>s'. f s e = (Ret (), s', e) \<and> sends bs s s'"
  by (simp add: sender_def)

lemma sender_kret: "sender [] L (kret ())"
  by (auto simp: sender_def kret_run)

lemma sender_kbind: "sender bs L f \<Longrightarrow> sender cs L g \<Longrightarrow> sender (bs @ cs) L (kbind f (\<lambda>_. g))"
  unfolding sender_def by (metis (no_types, lifting) kbind_Ret sends_trans sends_tx_ok)

lemma sender_kfor: "(\<And>x. x \<in> set xs \<Longrightarrow> sender (h x) L (f x)) \<Longrightarrow> sender (concat (map h xs)) L (kfor xs f)"
  by (induction xs) (auto intro: sender_kret sender_kbind)

lemma sender_uartputc: "sender [of_int c] L (uartputc_sync c)"
  using uartputc_sync_run by (fastforce simp: sender_def tx_ok_def)

lemma sender_backspace:
  "sender [8, 32, 8] L (kseq [uartputc_sync 8, uartputc_sync 32, uartputc_sync 8])"
proof -
  have "[8, 32, 8] = [of_int 8] @ [of_int 32] @ [of_int 8] @ ([] :: uchar list)" by simp
  then show ?thesis
    unfolding kseq.simps by (simp only:) (intro sender_kbind sender_uartputc sender_kret)
qed

lemma sender_consputc: "sender (con_bytes c) L (consputc c)"
  by (simp only: consputc_def con_bytes_def sender_backspace sender_uartputc split: if_split) simp

lemma extend_uart_state [simp]:
  "locks (uart_state.extend s m) = locks s"
  "tp (uart_state.extend s m) = tp s"
  "cpus (uart_state.extend s m) = cpus s"
  "sstatus (uart_state.extend s m) = sstatus s"
  "procs (uart_state.extend s m) = procs s"
  "mem (uart_state.extend s m) = mem s"
  "slocks (uart_state.extend s m) = slocks s"
  "uart_in (uart_state.extend s m) = uart_in s"
  "uart_pos (uart_state.extend s m) = uart_pos s"
  "uart_w (uart_state.extend s m) = uart_w s"
  "panicking (uart_state.extend s m) = panicking s"
  "panicked (uart_state.extend s m) = panicked s"
  by (simp_all add: uart_state.extend_def)

lemma calm_extend_uart_state [simp]: "calm L (uart_state.extend s m) = calm L s"
proof -
  have "settle (uart_state.extend s m) = uart_state.extend s m \<longleftrightarrow> settle s = s"
    by (cases s) (simp add: uart_state.extend_def settle_def noff_def sie_on_def)
  then show ?thesis by (simp add: calm_def intr_ok_def noff_def sie_on_def lock_clean_def curproc_def)
qed

lemma myp_extend_uart_state [simp]: "myp (uart_state.extend s m) = myp s"
  by (simp add: myp_def curproc_def)


text \<open>A serial port that is always idle.\<close>

definition calm_uart :: uart_state where
  "calm_uart = sl_state.extend calm_sl (uart_state.fields (\<lambda>_ _. LSR_TX_IDLE) (\<lambda>_. 0) [] False False)"

lemma calm_uart [simp]:
  "tx_ok L calm_uart" "myp calm_uart = 3" "sent calm_uart = []" "procs calm_uart = procs calm_proc" "slocks calm_uart = slocks calm_sl"
proof -
  have f: "uart_in calm_uart = (\<lambda>_ _. 32)" "uart_w calm_uart = []" "\<not> panicked calm_uart"
    by (simp_all add: calm_uart_def sl_state.extend_def uart_state.fields_def)
  have "bit (32 :: uchar) 5" using tx_idle_test [of 32] by simp
  then show "tx_ok L calm_uart" by (auto simp: tx_ok_def tx_live_def f) (simp add: calm_uart_def)
  show "myp calm_uart = 3" "sent calm_uart = []" "procs calm_uart = procs calm_proc" "slocks calm_uart = slocks calm_sl"
    by (simp_all add: sent_def f) (simp_all add: calm_uart_def)
qed

end
