(* ===== verification/Printk.thy ===== *)
theory Printk
  imports Uart
begin

unbundle bit_operations_syntax

text \<open>
  Formatted kernel output (\<open>kernel/printk.c\<close>) and \<open>procdump\<close> of \<open>kernel/proc.c\<close>.  A C string is
  the list of its characters before the terminator.  The variable arguments are a list; taking
  an argument that is not there, or of the wrong kind, and storing beyond the end of
  \<open>buf[20]\<close> have no defined behaviour in C and are \<open>Stuck\<close> in the model.  Negating the most negative
  number, which C leaves undefined too, wraps as the instruction does.
\<close>

section \<open>Operations\<close>

datatype arg = ArgInt uint64 | ArgStr "uchar list option"

definition chars :: "string \<Rightarrow> uchar list" where
  "chars = map of_char"

definition digits :: "uchar list" where
  "digits = chars ''0123456789abcdef''"

definition putbuf :: "uchar \<Rightarrow> uchar list \<Rightarrow> (uchar list, 's) K" where
  "putbuf c buf = (if length buf < 20 then kret (buf @ [c]) else kstuck)"

definition printint_digits :: "uint64 \<Rightarrow> uint64 \<Rightarrow> (uchar list, 's) K" where
  "printint_digits x base =
     kloop (\<lambda>(x, buf).
       kbind (putbuf (digits ! unat (x mod base)) buf) (\<lambda>buf.
       if x div base \<noteq> 0 then kret (Inl (x div base, buf)) else kret (Inr buf))) (x, [])"

definition printint :: "uint64 \<Rightarrow> uint64 \<Rightarrow> bool \<Rightarrow> (unit, 'a uart_state_scheme) K" where
  "printint xx base sign =
     (let neg = (sign \<and> sint xx < 0); x = (if neg then - xx else xx) in
      kbind (printint_digits x base) (\<lambda>buf.
      kbind (if neg then putbuf (of_char CHR ''-'') buf else kret buf) (\<lambda>buf.
      kfor (rev buf) (\<lambda>c. consputc (uint c)))))"

definition printptr :: "uint64 \<Rightarrow> (unit, 'a uart_state_scheme) K" where
  "printptr x = kseq [
     consputc (of_char CHR ''0''),
     consputc (of_char CHR ''x''),
     kfor [0..<16] (\<lambda>i. consputc (uint (digits ! unat (drop_bit 60 (push_bit (4 * i) x)))))]"

fun va_int :: "arg list \<Rightarrow> (uint64 \<times> arg list, 's) K" where
  "va_int (ArgInt v # as) = kret (v, as)"
| "va_int _ = kstuck"

fun va_str :: "arg list \<Rightarrow> (uchar list option \<times> arg list, 's) K" where
  "va_str (ArgStr v # as) = kret (v, as)"
| "va_str _ = kstuck"

text \<open>\<open>va_arg(ap, int)\<close> and \<open>va_arg(ap, uint32)\<close> as the \<open>long long\<close> that \<open>printint\<close> receives.\<close>

definition as_int :: "uint64 \<Rightarrow> uint64" where
  "as_int v = scast (ucast v :: 32 word)"

definition as_uint :: "uint64 \<Rightarrow> uint64" where
  "as_uint v = ucast (ucast v :: 32 word)"

text \<open>
  One conversion (\<open>printk_num\<close> prints the numeric ones): \<open>None\<close> ends the loop, otherwise the result is how far \<open>i\<close> moves beyond the
  conversion character and the arguments that are left.
\<close>

definition printk_num :: "arg list \<Rightarrow> (uint64 \<Rightarrow> uint64) \<Rightarrow> uint64 \<Rightarrow> bool \<Rightarrow> nat \<Rightarrow> ((nat \<times> arg list) option, 'a uart_state_scheme) K" where
  "printk_num as cv base sign k =
     kbind (va_int as) (\<lambda>(v, as). kbind (printint (cv v) base sign) (\<lambda>_. kret (Some (k, as))))"

definition printk_conv :: "char \<Rightarrow> char \<Rightarrow> char \<Rightarrow> arg list \<Rightarrow> ((nat \<times> arg list) option, 'a uart_state_scheme) K" where
  "printk_conv c0 c1 c2 as =
     (if c0 = CHR ''d'' then printk_num as as_int 10 True 0
      else if c0 = CHR ''l'' \<and> c1 = CHR ''d'' then printk_num as id 10 True 1
      else if c0 = CHR ''l'' \<and> c1 = CHR ''l'' \<and> c2 = CHR ''d'' then printk_num as id 10 True 2
      else if c0 = CHR ''u'' then printk_num as as_uint 10 False 0
      else if c0 = CHR ''l'' \<and> c1 = CHR ''u'' then printk_num as id 10 False 1
      else if c0 = CHR ''l'' \<and> c1 = CHR ''l'' \<and> c2 = CHR ''u'' then printk_num as id 10 False 2
      else if c0 = CHR ''x'' then printk_num as as_uint 16 False 0
      else if c0 = CHR ''l'' \<and> c1 = CHR ''x'' then printk_num as id 16 False 1
      else if c0 = CHR ''l'' \<and> c1 = CHR ''l'' \<and> c2 = CHR ''x'' then printk_num as id 16 False 2
      else if c0 = CHR ''p'' then kbind (va_int as) (\<lambda>(v, as). kbind (printptr v) (\<lambda>_. kret (Some (0, as))))
      else if c0 = CHR ''c'' then kbind (va_int as) (\<lambda>(v, as). kbind (consputc (sint (ucast v :: 32 word))) (\<lambda>_. kret (Some (0, as))))
      else if c0 = CHR ''s'' then
        kbind (va_str as) (\<lambda>(p, as).
        kbind (kfor (case p of None \<Rightarrow> chars ''(null)'' | Some t \<Rightarrow> takeWhile (\<lambda>c. c \<noteq> 0) t) (\<lambda>c. consputc (uint c))) (\<lambda>_.
        kret (Some (0, as))))
      else if c0 = CHR ''%'' then kbind (consputc (of_char CHR ''%'')) (\<lambda>_. kret (Some (0, as)))
      else if c0 = CHR 0x00 then kret None
      else kbind (kseq [consputc (of_char CHR ''%''), consputc (of_char c0)]) (\<lambda>_. kret (Some (0, as))))"

definition fmt_at :: "string \<Rightarrow> nat \<Rightarrow> char" where
  "fmt_at fs i = (if i < length fs then fs ! i else CHR 0x00)"

fun printk_loop :: "string \<Rightarrow> arg list \<Rightarrow> (unit, 'a uart_state_scheme) K" where
  "printk_loop [] as = kret ()"
| "printk_loop (cx # fs) as =
     (if cx \<noteq> CHR ''%'' then kbind (consputc (of_char cx)) (\<lambda>_. printk_loop fs as)
      else
        (let c0 = fmt_at fs 0;
             c1 = (if c0 \<noteq> CHR 0x00 then fmt_at fs 1 else CHR 0x00);
             c2 = (if c1 \<noteq> CHR 0x00 then fmt_at fs 2 else CHR 0x00)
         in kbind (printk_conv c0 c1 c2 as) (\<lambda>r.
            case r of None \<Rightarrow> kret () | Some (k, as) \<Rightarrow> printk_loop (drop (Suc k) fs) as)))"

definition printk :: "string \<Rightarrow> arg list \<Rightarrow> (int, 'a uart_state_scheme) K" where
  "printk fmt as =
     kbind (kget panicking) (\<lambda>p.
     kbind (kwhen (\<not> p) (acquire PrLock)) (\<lambda>_.
     kbind (printk_loop fmt as) (\<lambda>_.
     kbind (kget panicking) (\<lambda>p.
     kbind (kwhen (\<not> p) (release PrLock)) (\<lambda>_.
     kret 0)))))"

text \<open>
  The function \<open>panic\<close> itself.  Elsewhere in the development a call of it is the outcome
  \<open>Panic\<close>: it does not return.
\<close>

definition panic :: "string \<Rightarrow> (unit, 'a uart_state_scheme) K" where
  "panic msg =
     kbind (kmod (\<lambda>s. s\<lparr>panicking := True\<rparr>)) (\<lambda>_.
     kbind (printk ''panic: '' []) (\<lambda>_.
     kbind (printk (''%s'' @ [CHR 0x0A]) [ArgStr (Some (chars msg))]) (\<lambda>_.
     kbind (kmod (\<lambda>s. s\<lparr>panicked := True\<rparr>)) (\<lambda>_.
     kloop (\<lambda>_. kret (Inl ())) ()))))"

definition printkinit :: "(unit, 'a uart_state_scheme) K" where
  "printkinit = initlock PrLock ''pr''"

fun state_name :: "procstate \<Rightarrow> string" where
  "state_name UNUSED = ''unused''"
| "state_name USED = ''used''"
| "state_name SLEEPING = ''sleep ''"
| "state_name RUNNABLE = ''runble''"
| "state_name RUNNING = ''run   ''"
| "state_name ZOMBIE = ''zombie''"

definition procdump :: "(unit, 'a uart_state_scheme) K" where
  "procdump =
     kbind (printk [CHR 0x0A] []) (\<lambda>_.
     kfor [0..<NPROC] (\<lambda>p.
       kbind (kget (\<lambda>s. procs s p)) (\<lambda>q.
       kwhen (p_state q \<noteq> UNUSED) (
         kbind (printk ''%d %s %s'' [ArgInt (of_int (p_pid q)), ArgStr (Some (chars (state_name (p_state q)))),
                  ArgStr (Some (p_name q))]) (\<lambda>_.
         kbind (printk [CHR 0x0A] []) (\<lambda>_.
         kret ()))))))"

end
