(* ===== verification/Ring.thy ===== *)
theory Ring
  imports Prelude
begin

text \<open>
  Ring buffers with free-running 32-bit counters, as pipes (\<open>kernel/pipe.c\<close>) and the console
  (\<open>kernel/console.c\<close>) use them: the reader and the writer count modulo \<open>2 ^ 32\<close> and index the
  array modulo its size.  The locale \<open>fifo\<close> is the contract of such a queue, with what
  follows from it for every history of puts and gets.
\<close>

section \<open>The contract\<close>

locale fifo =
  fixes items :: "'q \<Rightarrow> 'b list"
    and put :: "'b \<Rightarrow> 'q \<Rightarrow> 'q"
    and get :: "'q \<Rightarrow> 'b \<times> 'q"
    and cap :: nat
  assumes put_items: "length (items q) < cap \<Longrightarrow> items (put b q) = items q @ [b]"
    and get_items: "items q = b # bs \<Longrightarrow> fst (get q) = b \<and> items (snd (get q)) = bs"
begin

text \<open>
  A history of operations: \<open>Some b\<close> puts \<open>b\<close>, \<open>None\<close> gets.  \<open>legal\<close> histories put only when
  there is room and get only when there is something.
\<close>

fun legal :: "nat \<Rightarrow> 'b option list \<Rightarrow> bool" where
  "legal n [] = True"
| "legal n (Some b # h) = (n < cap \<and> legal (Suc n) h)"
| "legal n (None # h) = (0 < n \<and> legal (n - 1) h)"

fun run :: "'q \<Rightarrow> 'b option list \<Rightarrow> 'b list \<times> 'q" where
  "run q [] = ([], q)"
| "run q (Some b # h) = run (put b q) h"
| "run q (None # h) = (let (b, q') = get q; (bs, q'') = run q' h in (b # bs, q''))"

definition puts :: "'b option list \<Rightarrow> 'b list" where
  "puts h = map the (filter (\<lambda>x. x \<noteq> None) h)"

text \<open>What came out, followed by what is still inside, is what was there, followed by what went in.\<close>

lemma history:
  "legal (length (items q)) h \<Longrightarrow> fst (run q h) @ items (snd (run q h)) = items q @ puts h"
proof (induction q h rule: run.induct)
  case (2 q b h)
  then show ?case by (simp add: put_items puts_def)
next
  case (3 q h)
  then obtain b bs where q: "items q = b # bs" by (cases "items q") auto
  obtain b' q' where g: "get q = (b', q')" by (cases "get q")
  have "b' = b" "items q' = bs" using get_items [OF q] g by auto
  then show ?case using 3 q g by (auto simp: puts_def split: prod.split)
qed (simp add: puts_def)

lemma bounded:
  "legal (length (items q)) h \<Longrightarrow> length (items q) \<le> cap \<Longrightarrow> length (items (snd (run q h))) \<le> cap"
proof (induction q h rule: run.induct)
  case (2 q b h)
  then show ?case by (simp add: put_items)
next
  case (3 q h)
  then obtain b bs where q: "items q = b # bs" by (cases "items q") auto
  obtain b' q' where g: "get q = (b', q')" by (cases "get q")
  have "items q' = bs" using get_items [OF q] g by auto
  then show ?case using 3 q g by (auto split: prod.split)
qed simp

end

section \<open>Rings\<close>

definition ring_list :: "uint \<Rightarrow> (nat \<Rightarrow> uchar) \<Rightarrow> uint \<Rightarrow> uint \<Rightarrow> uchar list" where
  "ring_list N d r w = map (\<lambda>i. d (unat ((r + of_nat i) mod N))) [0..<unat (w - r)]"

lemma ring_list_length [simp]: "length (ring_list N d r w) = unat (w - r)"
  by (simp add: ring_list_def)

lemma ring_list_empty [simp]: "ring_list N d r w = [] \<longleftrightarrow> r = w"
  by (auto simp: ring_list_def unat_eq_0)

lemma unat_add_of_nat:
  "unat (r :: uint) + i < 2 ^ 32 \<Longrightarrow> unat (r + of_nat i) = unat r + i"
  by (simp add: unat_word_ariths unat_of_nat_less)

lemma ring_index_distinct:
  fixes r N :: uint
  assumes "i < j" "j - i < unat N" "unat N dvd 2 ^ 32"
  shows "unat ((r + of_nat i) mod N) \<noteq> unat ((r + of_nat j) mod N)"
proof
  have m: "unat ((r + of_nat k) mod N) = (unat r + k) mod unat N" for k
    using assms(3) by (simp add: unat_mod unat_word_ariths unat_of_nat mod_mod_cancel take_bit_eq_mod mod_add_right_eq)
  assume "unat ((r + of_nat i) mod N) = unat ((r + of_nat j) mod N)"
  then have "(unat r + i) mod unat N = (unat r + j) mod unat N" by (simp only: m)
  then have "unat N dvd (unat r + j) - (unat r + i)" using assms(1) mod_eq_dvd_iff_nat [of "unat r + i" "unat r + j" "unat N"] by simp
  then show False using assms(1,2) by (auto dest!: dvd_imp_le)
qed

lemma ring_get: "r \<noteq> w \<Longrightarrow> ring_list N d r w = d (unat (r mod N)) # ring_list N d (r + 1) w"
proof -
  assume "r \<noteq> w"
  then have z: "w - r \<noteq> 0" by simp
  then have u: "unat (w - r) = Suc (unat (w - (r + 1)))"
    using unat_minus_one [OF z] unat_gt_0 [of "w - r"] by (simp add: diff_diff_add)
  show ?thesis unfolding ring_list_def u
    by (simp add: upt_conv_Cons map_Suc_upt [symmetric] comp_def del: upt_Suc) (simp add: add.assoc)
qed

lemma ring_unput: "r \<noteq> w \<Longrightarrow> ring_list N d r w = ring_list N d r (w - 1) @ [d (unat ((w - 1) mod N))]"
proof -
  assume "r \<noteq> w"
  then have z: "w - r \<noteq> 0" by simp
  have u: "unat (w - r) = Suc (unat (w - 1 - r))"
    using unat_minus_one [OF z] unat_gt_0 [of "w - r"] z by (simp add: diff_right_commute)
  have "r + of_nat (unat (w - 1 - r)) = w - 1" by simp
  then show ?thesis unfolding ring_list_def u by simp
qed

lemma ring_put:
  assumes "unat (w - r) < unat N" "unat N dvd 2 ^ 32"
  shows "ring_list N (d(unat (w mod N) := c)) r (w + 1) = ring_list N d r w @ [c]"
proof -
  have ne: "r \<noteq> w + 1"
  proof
    assume "r = w + 1"
    then have "unat (w - r) = 2 ^ 32 - 1" by (simp add: unsigned_minus_1_eq_mask mask_eq_exp_minus_1)
    then have "2 ^ 32 \<le> unat N" using assms(1) by simp
    then show False using unat32_less [of N] by simp
  qed
  have w: "w = r + of_nat (unat (w - r))" by simp
  have "ring_list N (d(unat (w mod N) := c)) r w = ring_list N d r w"
    unfolding ring_list_def
  proof (rule map_cong)
    fix i assume "i \<in> set [0..<unat (w - r)]"
    then have i: "i < unat (w - r)" by simp
    have "unat ((r + of_nat i) mod N) \<noteq> unat ((r + of_nat (unat (w - r))) mod N)"
      using i assms by (intro ring_index_distinct) auto
    then show "(d(unat (w mod N) := c)) (unat ((r + of_nat i) mod N)) = d (unat ((r + of_nat i) mod N))"
      by (simp add: w [symmetric])
  qed simp
  then show ?thesis using ring_unput [OF ne] by simp
qed

lemma ring_full: "w = r + N \<longleftrightarrow> unat (w - r) = unat N"
proof
  assume "unat (w - r) = unat N"
  then have "w - r = N" by (simp only: word_unat_eq_iff)
  then show "w = r + N" by auto
qed simp

end
