(* ===== verification/Console.thy ===== *)
theory Console
  imports Printk Ring
begin

unbundle bit_operations_syntax

text \<open>
  The console (\<open>kernel/console.c\<close>): line-buffered input behind the serial interrupt
  (\<open>uartintr\<close> of \<open>kernel/uart.c\<close>) and output through \<open>uartwrite\<close>.  \<open>buf\<close> is a ring of 128 bytes
  with free-running counters: \<open>r\<close> read, \<open>w\<close> committed, \<open>e\<close> edited.  The device switch
  \<open>devsw\<close> of \<open>kernel/file.c\<close> maps a major number to the driver whose functions it holds.
\<close>

section \<open>State\<close>

datatype driver = ConsoleDriver

record cons_state = uart_state +
  cons_buf :: "nat \<Rightarrow> uchar"
  cons_r :: uint
  cons_w :: uint
  cons_e :: uint
  devsw_read :: "nat \<Rightarrow> driver option"
  devsw_write :: "nat \<Rightarrow> driver option"

abbreviation (input) INPUT_BUF_SIZE :: uint where "INPUT_BUF_SIZE \<equiv> 128"
abbreviation (input) CONSOLE :: nat where "CONSOLE \<equiv> 1"

section \<open>Operations\<close>

definition consolewrite :: "src \<Rightarrow> int \<Rightarrow> (int, 'a cons_state_scheme) K" where
  "consolewrite src n =
     kloop (\<lambda>i.
       if \<not> i < n then kret (Inr i)
       else
         (let nn = (if 32 > n - i then n - i else 32) in
          kbind (either_copyin (src_add src (nat i)) (nat nn)) (\<lambda>(r, buf).
          if r = - 1 then kret (Inr i)
          else kbind (uartwrite buf) (\<lambda>_. kret (Inl (i + nn)))))) 0"

text \<open>The inner loop of \<open>consoleread\<close>: wait for a committed line; \<open>False\<close> when the process was killed.\<close>

definition cons_wait :: "(bool, 'a cons_state_scheme) K" where
  "cons_wait = kloop (\<lambda>_.
     kbind (kget (\<lambda>s. cons_r s = cons_w s)) (\<lambda>empty.
     if \<not> empty then kret (Inr True)
     else
       kbind (with_myproc killed) (\<lambda>k.
       if k \<noteq> 0 then kbind (release ConsLock) (\<lambda>_. kret (Inr False))
       else
         kbind (kseq [
           sleep_prepare (Some ChConsRead),
           release ConsLock,
           sleep,
           acquire ConsLock]) (\<lambda>_. kret (Inl ()))))) ()"

text \<open>One round of the outer loop: the next \<open>dst\<close> and \<open>n\<close>, or the end with \<open>n\<close> (\<open>None\<close> when killed).\<close>

definition consoleread_round :: "int \<Rightarrow> dst \<times> int \<Rightarrow> ((dst \<times> int) + int option, 'a cons_state_scheme) K" where
  "consoleread_round target = (\<lambda>(dst, n).
     if \<not> n > 0 then kret (Inr (Some n))
     else
       kbind cons_wait (\<lambda>ok.
       if \<not> ok then kret (Inr None)
       else
         kbind (kget (\<lambda>s. cons_buf s (unat (cons_r s mod INPUT_BUF_SIZE)))) (\<lambda>c.
         kbind (kmod (\<lambda>s. s\<lparr>cons_r := cons_r s + 1\<rparr>)) (\<lambda>_.
         if c = 4 then
           kbind (kwhen (n < target) (kmod (\<lambda>s. s\<lparr>cons_r := cons_r s - 1\<rparr>))) (\<lambda>_. kret (Inr (Some n)))
         else
           kbind (either_copyout dst [c]) (\<lambda>r.
           if r = - 1 then kret (Inr (Some n))
           else if c = 10 then kret (Inr (Some (n - 1)))
           else kret (Inl (dst_add dst 1, n - 1)))))))"

definition consoleread :: "dst \<Rightarrow> int \<Rightarrow> (int, 'a cons_state_scheme) K" where
  "consoleread dst n =
     kbind (acquire ConsLock) (\<lambda>_.
     kbind (kloop (consoleread_round n) (dst, n)) (\<lambda>r.
     case r of
       None \<Rightarrow> kret (- 1)
     | Some m \<Rightarrow> kbind (release ConsLock) (\<lambda>_. kret (n - m))))"

definition cons_rubout :: "(unit, 'a cons_state_scheme) K" where
  "cons_rubout = kseq [kmod (\<lambda>s. s\<lparr>cons_e := cons_e s - 1\<rparr>), consputc BACKSPACE]"

definition cons_kill_line :: "(unit, 'a cons_state_scheme) K" where
  "cons_kill_line = kloop (\<lambda>_.
     kbind (kget (\<lambda>s. cons_e s \<noteq> cons_w s \<and> cons_buf s (unat ((cons_e s - 1) mod INPUT_BUF_SIZE)) \<noteq> 10)) (\<lambda>b.
     if b then kbind cons_rubout (\<lambda>_. kret (Inl ())) else kret (Inr ()))) ()"

definition cons_char :: "int \<Rightarrow> (unit, 'a cons_state_scheme) K" where
  "cons_char c =
     kbind (consputc c) (\<lambda>_.
     kbind (kmod (\<lambda>s. s\<lparr>cons_buf := (cons_buf s)(unat (cons_e s mod INPUT_BUF_SIZE) := of_int c), cons_e := cons_e s + 1\<rparr>)) (\<lambda>_.
     kbind (kget (\<lambda>s. c = 10 \<or> c = 4 \<or> cons_e s - cons_r s = INPUT_BUF_SIZE)) (\<lambda>b.
     kwhen b (kseq [
       kmod (\<lambda>s. s\<lparr>cons_w := cons_e s\<rparr>),
       wakeup ChConsRead]))))"

definition consoleintr :: "int \<Rightarrow> (unit, 'a cons_state_scheme) K" where
  "consoleintr c =
     kbind (acquire ConsLock) (\<lambda>_.
     kbind (if c = 0x10 then procdump
            else if c = 0x15 then cons_kill_line
            else if c = 8 \<or> c = 0x7f then
              kbind (kget (\<lambda>s. cons_e s \<noteq> cons_w s)) (\<lambda>b. kwhen b cons_rubout)
            else
              kbind (kget (\<lambda>s. c \<noteq> 0 \<and> cons_e s - cons_r s < INPUT_BUF_SIZE)) (\<lambda>b.
              kwhen b (cons_char (if c = 13 then 10 else c)))) (\<lambda>_.
     release ConsLock))"

definition consoleinit :: "(unit, 'a cons_state_scheme) K" where
  "consoleinit = kseq [
     initlock ConsLock ''cons'',
     uartinit,
     kmod (\<lambda>s. s\<lparr>devsw_read := (devsw_read s)(CONSOLE := Some ConsoleDriver)\<rparr>),
     kmod (\<lambda>s. s\<lparr>devsw_write := (devsw_write s)(CONSOLE := Some ConsoleDriver)\<rparr>)]"

definition uartintr :: "(unit, 'a cons_state_scheme) K" where
  "uartintr =
     kbind (ReadReg ISR) (\<lambda>_.
     kbind (ReadReg LSR) (\<lambda>v.
     kbind (kwhen (v AND LSR_TX_IDLE \<noteq> 0) (wakeup ChTx)) (\<lambda>_.
     kloop (\<lambda>_.
       kbind uartgetc (\<lambda>c.
       if c = - 1 then kret (Inr ()) else kbind (consoleintr c) (\<lambda>_. kret (Inl ())))) ())))"

end
