(* ===== verification/Layout.thy ===== *)
theory Layout
  imports Prelude
begin

unbundle bit_operations_syntax

text \<open>
  Integers inside byte arrays: the little-endian layout through which the file system code
  reads and writes its structures in disk blocks, and array elements read and written at
  byte offsets.
\<close>

definition bytes_of :: "nat \<Rightarrow> 'a::len word \<Rightarrow> uchar list" where
  "bytes_of n w = map (\<lambda>i. ucast (drop_bit (8 * i) w)) [0..<n]"

primrec of_bytes :: "uchar list \<Rightarrow> 'a::len word" where
  "of_bytes [] = 0"
| "of_bytes (b # bs) = ucast b OR push_bit 8 (of_bytes bs)"

definition slice :: "uchar list \<Rightarrow> nat \<Rightarrow> nat \<Rightarrow> uchar list" where
  "slice bs off n = take n (drop off bs)"

text \<open>A store of \<open>xs\<close> at offset \<open>off\<close> of an array.\<close>

definition put_at :: "uchar list \<Rightarrow> nat \<Rightarrow> uchar list \<Rightarrow> uchar list" where
  "put_at bs off xs = take off bs @ xs @ drop (off + length xs) bs"

definition get16 :: "uchar list \<Rightarrow> nat \<Rightarrow> ushort" where
  "get16 bs off = of_bytes (slice bs off 2)"

definition get32 :: "uchar list \<Rightarrow> nat \<Rightarrow> uint" where
  "get32 bs off = of_bytes (slice bs off 4)"

definition put16 :: "uchar list \<Rightarrow> nat \<Rightarrow> ushort \<Rightarrow> uchar list" where
  "put16 bs off v = put_at bs off (bytes_of 2 v)"

definition put32 :: "uchar list \<Rightarrow> nat \<Rightarrow> uint \<Rightarrow> uchar list" where
  "put32 bs off v = put_at bs off (bytes_of 4 v)"

lemma bytes_of_length [simp]: "length (bytes_of n w) = n"
  by (simp add: bytes_of_def)

lemma bit_of_bytes:
  "bit (of_bytes bs :: 'a::len word) n \<longleftrightarrow>
     n < LENGTH('a) \<and> n div 8 < length bs \<and> bit (bs ! (n div 8)) (n mod 8)"
proof (induction bs arbitrary: n)
  case (Cons b bs)
  show ?case
  proof (cases "n < 8")
    case True
    then show ?thesis by (auto simp: bit_or_iff bit_push_bit_iff bit_ucast_iff)
  next
    case False
    then obtain m where m: "n div 8 = Suc m" by (cases "n div 8") auto
    have e: "(n - 8) div 8 = m" "(n - 8) mod 8 = n mod 8"
      using False m div_add_self2 [of 8 "n - 8"] mod_add_self2 [of "n - 8" 8] by simp_all
    have "\<not> bit b n" using False bit_imp_le_length [of b n] by auto
    then show ?thesis using False Cons.IH [of "n - 8"] unfolding e
      by (auto simp: bit_or_iff bit_push_bit_iff bit_ucast_iff m)
  qed
qed simp

lemma of_bytes_of [simp]:
  fixes w :: "'a::len word"
  assumes "LENGTH('a) = 8 * n"
  shows "of_bytes (bytes_of n w) = w"
proof (rule bit_word_eqI)
  fix k assume k: "k < LENGTH('a)"
  then have d: "k div 8 < n" using assms by auto
  have "8 * (k div 8) + k mod 8 = k" by simp
  then show "bit (of_bytes (bytes_of n w) :: 'a word) k = bit w k"
    using k d by (simp add: bit_of_bytes bytes_of_def bit_ucast_iff bit_drop_bit_eq)
qed

lemma of_bytes_16_32 [simp]:
  "of_bytes (bytes_of 2 (v :: ushort)) = v" "of_bytes (bytes_of 4 (u :: uint)) = u"
  by simp_all

lemma bytes_of_bytes:
  assumes "length bs = n" "LENGTH('a) = 8 * n"
  shows "bytes_of n (of_bytes bs :: 'a::len word) = bs"
proof (rule nth_equalityI)
  fix i assume "i < length (bytes_of n (of_bytes bs :: 'a word))"
  then have i: "i < n" by simp
  show "bytes_of n (of_bytes bs :: 'a word) ! i = bs ! i"
  proof (rule bit_word_eqI)
    fix k assume "k < LENGTH(8)"
    then have k: "k < 8" by simp
    then have "(8 * i + k) div 8 = i" "(8 * i + k) mod 8 = k" "8 * i + k < LENGTH('a)" using i assms(2) by auto
    then show "bit (bytes_of n (of_bytes bs :: 'a word) ! i) k = bit (bs ! i) k"
      using i k assms(1) by (simp add: bytes_of_def bit_ucast_iff bit_drop_bit_eq bit_of_bytes)
  qed
qed (simp add: assms)

lemma put_at_length [simp]: "off + length xs \<le> length bs \<Longrightarrow> length (put_at bs off xs) = length bs"
  by (simp add: put_at_def)

lemma nth_put_at:
  assumes "off + length xs \<le> length bs" "i < length bs"
  shows "put_at bs off xs ! i = (if off \<le> i \<and> i < off + length xs then xs ! (i - off) else bs ! i)"
  using assms by (auto simp: put_at_def nth_append min_def)

lemma slice_put_same [simp]:
  "off + length xs \<le> length bs \<Longrightarrow> slice (put_at bs off xs) off (length xs) = xs"
  by (simp add: slice_def put_at_def min_def)

lemma slice_put_other:
  assumes "off + length xs \<le> length bs" "o' + n \<le> off \<or> off + length xs \<le> o'" "o' + n \<le> length bs"
  shows "slice (put_at bs off xs) o' n = slice bs o' n"
  using assms by (intro nth_equalityI) (auto simp: slice_def nth_put_at)

lemma slice_length [simp]: "off + n \<le> length bs \<Longrightarrow> length (slice bs off n) = n"
  by (simp add: slice_def)

lemma put_slice [simp]: "off + n \<le> length bs \<Longrightarrow> put_at bs off (slice bs off n) = bs"
  by (simp add: put_at_def slice_def) (metis add.commute append_take_drop_id drop_drop)

lemma put_lengths [simp]:
  "off + 2 \<le> length bs \<Longrightarrow> length (put16 bs off v) = length bs"
  "off + 4 \<le> length bs \<Longrightarrow> length (put32 bs off w) = length bs"
  by (simp_all add: put16_def put32_def)

lemma get_put_same [simp]:
  "off + 2 \<le> length bs \<Longrightarrow> get16 (put16 bs off v) off = v"
  "off + 4 \<le> length bs \<Longrightarrow> get32 (put32 bs off w) off = w"
  using slice_put_same [of off "bytes_of 2 v" bs] slice_put_same [of off "bytes_of 4 w" bs]
  by (simp_all add: get16_def put16_def get32_def put32_def)

lemma get_put_other:
  "off + 2 \<le> length bs \<Longrightarrow> o' + 2 \<le> length bs \<Longrightarrow> o' + 2 \<le> off \<or> off + 2 \<le> o' \<Longrightarrow>
     get16 (put16 bs off v) o' = get16 bs o'"
  "off + 4 \<le> length bs \<Longrightarrow> o' + 4 \<le> length bs \<Longrightarrow> o' + 4 \<le> off \<or> off + 4 \<le> o' \<Longrightarrow>
     get32 (put32 bs off w) o' = get32 bs o'"
  "off + 4 \<le> length bs \<Longrightarrow> o' + 2 \<le> length bs \<Longrightarrow> o' + 2 \<le> off \<or> off + 4 \<le> o' \<Longrightarrow>
     get16 (put32 bs off w) o' = get16 bs o'"
  "off + 2 \<le> length bs \<Longrightarrow> o' + 4 \<le> length bs \<Longrightarrow> o' + 4 \<le> off \<or> off + 2 \<le> o' \<Longrightarrow>
     get32 (put16 bs off v) o' = get32 bs o'"
  by (simp_all add: get16_def put16_def get32_def put32_def slice_put_other)

lemma put_get_same [simp]:
  "off + 2 \<le> length bs \<Longrightarrow> put16 bs off (get16 bs off) = bs"
  "off + 4 \<le> length bs \<Longrightarrow> put32 bs off (get32 bs off) = bs"
  by (simp_all add: get16_def put16_def get32_def put32_def bytes_of_bytes)

end
