(* ===== verification/Bio.thy ===== *)
theory Bio
  imports Console Layout
begin

text \<open>
  The buffer cache (\<open>kernel/bio.c\<close>).  Buffers are entries of a table; \<open>prev\<close> and
  \<open>next\<close> are indices, and index \<open>NBUF\<close> is the list head.  The disk driver is used through
  its contract \<open>disk_rw\<close>: a synchronous transfer of one block.  Every block that
  reaches the disk is also recorded in \<open>dwrites\<close>, the newest first, which is what a
  crash can cut short.
\<close>

section \<open>State\<close>

record buf =
  b_valid :: bool
  b_disk :: bool
  b_dev :: uint
  b_blockno :: uint
  b_refcnt :: uint
  b_prev :: nat
  b_next :: nat
  b_data :: "uchar list"

record bio_state = cons_state +
  bufs :: "nat \<Rightarrow> buf"
  disk :: "uint \<Rightarrow> uchar list"
  dwrites :: "(uint \<times> uchar list) list"

abbreviation (input) HEAD :: nat where "HEAD \<equiv> NBUF"

abbreviation (input) set_buf :: "nat \<Rightarrow> (buf \<Rightarrow> buf) \<Rightarrow> 'a bio_state_scheme \<Rightarrow> 'a bio_state_scheme" where
  "set_buf b f s \<equiv> s\<lparr>bufs := (bufs s)(b := f (bufs s b))\<rparr>"

section \<open>Operations\<close>

definition disk_rw :: "nat \<Rightarrow> bool \<Rightarrow> (unit, 'a bio_state_scheme) K" where
  "disk_rw b write =
     (if write then
        kmod (\<lambda>s. s\<lparr>disk := (disk s)(b_blockno (bufs s b) := b_data (bufs s b)),
                    dwrites := (b_blockno (bufs s b), b_data (bufs s b)) # dwrites s\<rparr>)
      else kmod (\<lambda>s. set_buf b (\<lambda>x. x\<lparr>b_data := disk s (b_blockno x)\<rparr>) s))"

definition binit :: "(unit, 'a bio_state_scheme) K" where
  "binit =
     kseq [
       initlock BcacheLock ''bcache'',
       kmod (set_buf HEAD (\<lambda>x. x\<lparr>b_prev := HEAD\<rparr>)),
       kmod (set_buf HEAD (\<lambda>x. x\<lparr>b_next := HEAD\<rparr>)),
       kfor [0..<NBUF] (\<lambda>b. kseq [
         kmod (\<lambda>s. set_buf b (\<lambda>x. x\<lparr>b_next := b_next (bufs s HEAD)\<rparr>) s),
         kmod (set_buf b (\<lambda>x. x\<lparr>b_prev := HEAD\<rparr>)),
         initsleeplock (BufSl b) ''buffer'',
         kmod (\<lambda>s. set_buf (b_next (bufs s HEAD)) (\<lambda>x. x\<lparr>b_prev := b\<rparr>) s),
         kmod (set_buf HEAD (\<lambda>x. x\<lparr>b_next := b\<rparr>))])]"

definition bget_cached :: "uint \<Rightarrow> uint \<Rightarrow> nat \<Rightarrow> (nat option, 'a bio_state_scheme) K" where
  "bget_cached dev blockno =
     kloop (\<lambda>b.
       if b = HEAD then kret (Inr None)
       else kbind (kget (\<lambda>s. bufs s b)) (\<lambda>x.
         if b_dev x = dev \<and> b_blockno x = blockno then kret (Inr (Some b))
         else kret (Inl (b_next x))))"

definition bget_unused :: "nat \<Rightarrow> (nat option, 'a bio_state_scheme) K" where
  "bget_unused =
     kloop (\<lambda>b.
       if b = HEAD then kret (Inr None)
       else kbind (kget (\<lambda>s. bufs s b)) (\<lambda>x.
         if b_refcnt x = 0 then kret (Inr (Some b))
         else kret (Inl (b_prev x))))"

definition bget :: "uint \<Rightarrow> uint \<Rightarrow> (nat, 'a bio_state_scheme) K" where
  "bget dev blockno =
     kbind (acquire BcacheLock) (\<lambda>_.
     kbind (kget (\<lambda>s. b_next (bufs s HEAD))) (\<lambda>b0.
     kbind (bget_cached dev blockno b0) (\<lambda>r.
     case r of
       Some b \<Rightarrow>
         kbind (kseq [
           kmod (set_buf b (\<lambda>x. x\<lparr>b_refcnt := b_refcnt x + 1\<rparr>)),
           release BcacheLock,
           acquiresleep (BufSl b)]) (\<lambda>_.
         kret b)
     | None \<Rightarrow>
         kbind (kget (\<lambda>s. b_prev (bufs s HEAD))) (\<lambda>b1.
         kbind (bget_unused b1) (\<lambda>r.
         case r of
           Some b \<Rightarrow>
             kbind (kseq [
               kmod (set_buf b (\<lambda>x. x\<lparr>b_dev := dev, b_blockno := blockno, b_valid := False, b_refcnt := 1\<rparr>)),
               release BcacheLock,
               acquiresleep (BufSl b)]) (\<lambda>_.
             kret b)
         | None \<Rightarrow> kpanic ''bget: no buffers'')))))"

definition bread :: "uint \<Rightarrow> uint \<Rightarrow> (nat, 'a bio_state_scheme) K" where
  "bread dev blockno =
     kbind (bget dev blockno) (\<lambda>b.
     kbind (kget (\<lambda>s. b_valid (bufs s b))) (\<lambda>v.
     kbind (kwhen (\<not> v) (kseq [
       disk_rw b False,
       kmod (set_buf b (\<lambda>x. x\<lparr>b_valid := True\<rparr>))])) (\<lambda>_.
     kret b)))"

definition bwrite :: "nat \<Rightarrow> (unit, 'a bio_state_scheme) K" where
  "bwrite b =
     kbind (holdingsleep (BufSl b)) (\<lambda>h.
     if \<not> h then kpanic ''bwrite'' else disk_rw b True)"

definition brelse :: "nat \<Rightarrow> (unit, 'a bio_state_scheme) K" where
  "brelse b =
     kbind (holdingsleep (BufSl b)) (\<lambda>h.
     if \<not> h then kpanic ''brelse''
     else
       kbind (releasesleep (BufSl b)) (\<lambda>_.
       kbind (acquire BcacheLock) (\<lambda>_.
       kbind (kmod (set_buf b (\<lambda>x. x\<lparr>b_refcnt := b_refcnt x - 1\<rparr>))) (\<lambda>_.
       kbind (kget (\<lambda>s. b_refcnt (bufs s b))) (\<lambda>r.
       kbind (kwhen (r = 0) (kseq [
         kmod (\<lambda>s. set_buf (b_next (bufs s b)) (\<lambda>x. x\<lparr>b_prev := b_prev (bufs s b)\<rparr>) s),
         kmod (\<lambda>s. set_buf (b_prev (bufs s b)) (\<lambda>x. x\<lparr>b_next := b_next (bufs s b)\<rparr>) s),
         kmod (\<lambda>s. set_buf b (\<lambda>x. x\<lparr>b_next := b_next (bufs s HEAD)\<rparr>) s),
         kmod (set_buf b (\<lambda>x. x\<lparr>b_prev := HEAD\<rparr>)),
         kmod (\<lambda>s. set_buf (b_next (bufs s HEAD)) (\<lambda>x. x\<lparr>b_prev := b\<rparr>) s),
         kmod (set_buf HEAD (\<lambda>x. x\<lparr>b_next := b\<rparr>))])) (\<lambda>_.
       release BcacheLock))))))"

definition bpin :: "nat \<Rightarrow> (unit, 'a bio_state_scheme) K" where
  "bpin b =
     kseq [
       acquire BcacheLock,
       kmod (set_buf b (\<lambda>x. x\<lparr>b_refcnt := b_refcnt x + 1\<rparr>)),
       release BcacheLock]"

definition bunpin :: "nat \<Rightarrow> (unit, 'a bio_state_scheme) K" where
  "bunpin b =
     kseq [
       acquire BcacheLock,
       kmod (set_buf b (\<lambda>x. x\<lparr>b_refcnt := b_refcnt x - 1\<rparr>)),
       release BcacheLock]"

section \<open>The list of buffers\<close>

text \<open>\<open>linked f a xs z\<close>: following \<open>f\<close> from \<open>a\<close> visits \<open>xs\<close> and then arrives at \<open>z\<close>.\<close>

fun linked :: "(nat \<Rightarrow> nat) \<Rightarrow> nat \<Rightarrow> nat list \<Rightarrow> nat \<Rightarrow> bool" where
  "linked f a [] z \<longleftrightarrow> f a = z"
| "linked f a (x # xs) z \<longleftrightarrow> f a = x \<and> linked f x xs z"

text \<open>The buffers in most-recently-used order.\<close>

definition lru :: "(nat \<Rightarrow> buf) \<Rightarrow> nat list \<Rightarrow> bool" where
  "lru B xs \<longleftrightarrow> distinct xs \<and> set xs = {..<NBUF} \<and>
     linked (\<lambda>i. b_next (B i)) HEAD xs HEAD \<and> linked (\<lambda>i. b_prev (B i)) HEAD (rev xs) HEAD"

lemma linked_append: "linked f a (xs @ y # ys) z \<longleftrightarrow> linked f a xs y \<and> linked f y ys z"
  by (induction xs arbitrary: a) auto

lemma linked_cong: "(\<And>x. x \<in> set (a # xs) \<Longrightarrow> f x = g x) \<Longrightarrow> linked f a xs z = linked g a xs z"
  by (induction xs arbitrary: a) auto

lemma linked_upd: "x \<notin> set (a # xs) \<Longrightarrow> linked (f(x := v)) a xs z = linked f a xs z"
  by (rule linked_cong) auto

lemma linked_next: "linked f a (us @ b # vs) z \<Longrightarrow> f b = hd (vs @ [z])"
  by (cases vs) (auto simp: linked_append)

lemma linked_first: "linked f a xs z \<Longrightarrow> f a = hd (xs @ [z])"
  by (cases xs) auto

lemma linked_last: "linked f a xs z \<Longrightarrow> f (last (a # xs)) = z"
  by (induction xs arbitrary: a) auto

lemma linked_retarget:
  "linked f a xs z \<Longrightarrow> distinct (a # xs) \<Longrightarrow> linked (f(last (a # xs) := z')) a xs z'"
proof (induction xs arbitrary: a)
  case (Cons x xs)
  then have "last (x # xs) \<in> set (x # xs)" by (metis last_in_set list.distinct(1))
  then have "last (x # xs) \<noteq> a" using Cons.prems(2) by auto
  then show ?case using Cons by simp
qed simp

lemma linked_unlink:
  assumes "linked f a (us @ b # vs) z" "distinct (a # us @ b # vs)"
  shows "linked (f(last (a # us) := f b)) a (us @ vs) z"
proof -
  have l: "linked f a us b" "linked f b vs z" using assms(1) by (auto simp: linked_append)
  have d: "distinct (a # us)" "last (a # us) \<notin> set (b # vs)" using assms(2)
    by (auto simp: last_in_set) (metis assms(2) disjoint_iff distinct.simps(2) distinct_append last_in_set list.set_intros(2))+
  show ?thesis
  proof (cases vs)
    case Nil
    then show ?thesis using l linked_retarget [OF l(1) d(1), of "f b"] by simp
  next
    case (Cons v vs')
    then have "linked (f(last (a # us) := f b)) a us v" using l linked_retarget [OF l(1) d(1), of "f b"] by simp
    moreover have "linked (f(last (a # us) := f b)) v vs' z"
      using l(2) d(2) Cons by (simp add: linked_upd del: last.simps)
    ultimately show ?thesis by (simp add: Cons linked_append)
  qed
qed

lemma linked_push:
  assumes "linked f a xs z" "b \<notin> set (a # xs)" "a \<notin> set xs"
  shows "linked (f(b := f a, a := b)) a (b # xs) z"
proof (cases xs)
  case Nil
  then show ?thesis using assms by simp
next
  case (Cons x ys)
  then have "linked (f(b := f a, a := b)) x ys z"
    using assms by (auto simp: linked_upd)
  then show ?thesis using assms Cons by auto
qed

lemma linked_snoc:
  assumes "linked f a xs z" "b \<notin> set (a # xs)" "distinct (a # xs)"
  shows "linked (f(b := z, last (a # xs) := b)) a (xs @ [b]) z"
proof -
  have "linked (f(b := z)) a xs z" using assms(1,2) by (simp add: linked_upd)
  from linked_retarget [OF this assms(3), of b] have l: "linked (f(b := z, last (a # xs) := b)) a xs b" .
  have "last (a # xs) \<noteq> b" using assms(2) by (metis last_in_set list.distinct(1))
  with l show ?thesis by (simp add: linked_append)
qed

end
