(* ===== verification/BioProps.thy ===== *)
theory BioProps
  imports Bio
begin

text \<open>
  The buffer cache as a block store: behind the linked list and the buffer table there is
  a content per block number, a reference count per block and the set of blocks the
  running process holds.  Every operation of \<open>Bio\<close> is described by what it does to these.
\<close>

section \<open>Bookkeeping\<close>

lemma acquired_bio_state [simp, calm_simps]:
  "(acquired lk s)\<lparr>bufs := x_bufs\<rparr> = acquired lk (s\<lparr>bufs := x_bufs\<rparr>)"
  "bufs (acquired lk s) = bufs s"
  "(acquired lk s)\<lparr>disk := x_disk\<rparr> = acquired lk (s\<lparr>disk := x_disk\<rparr>)"
  "disk (acquired lk s) = disk s"
  "(acquired lk s)\<lparr>dwrites := x_dwrites\<rparr> = acquired lk (s\<lparr>dwrites := x_dwrites\<rparr>)"
  "dwrites (acquired lk s) = dwrites s"
  by (cases s; simp add: acquired_def pushed_def noff_def sie_on_def)+

lemma myp_bio_state [simp]:
  "myp (s\<lparr>bufs := x_bufs\<rparr>) = myp s"
  "myp (s\<lparr>disk := x_disk\<rparr>) = myp s"
  "myp (s\<lparr>dwrites := x_dwrites\<rparr>) = myp s"
  by (simp_all add: myp_def curproc_def)

lemma calm_bufs [simp]: "calm L (s\<lparr>bufs := x\<rparr>) = calm L s"
  by (rule calm_upd_iff [where u = "\<lambda>x s. s\<lparr>bufs := x\<rparr>" and sel = bufs])
    (simp_all add: cs_comm_def bio_state.splits)

lemma calm_disk [simp]: "calm L (s\<lparr>disk := x\<rparr>) = calm L s"
  by (rule calm_upd_iff [where u = "\<lambda>x s. s\<lparr>disk := x\<rparr>" and sel = disk])
    (simp_all add: cs_comm_def bio_state.splits)

lemma calm_dwrites [simp]: "calm L (s\<lparr>dwrites := x\<rparr>) = calm L s"
  by (rule calm_upd_iff [where u = "\<lambda>x s. s\<lparr>dwrites := x\<rparr>" and sel = dwrites])
    (simp_all add: cs_comm_def bio_state.splits)

section \<open>Searching the list\<close>

lemma bget_cached_step:
  "bget_cached d n b s e =
     (if b = HEAD then (Ret None, s, e)
      else if b_dev (bufs s b) = d \<and> b_blockno (bufs s b) = n then (Ret (Some b), s, e)
      else bget_cached d n (b_next (bufs s b)) s e)"
  unfolding bget_cached_def by (simp add: kloop_step_Inr kloop_same_Inl kret_run)

lemma bget_unused_step:
  "bget_unused b s e =
     (if b = HEAD then (Ret None, s, e)
      else if b_refcnt (bufs s b) = 0 then (Ret (Some b), s, e)
      else bget_unused (b_prev (bufs s b)) s e)"
  unfolding bget_unused_def by (simp add: kloop_step_Inr kloop_same_Inl kret_run)

lemma bget_cached_run:
  assumes "linked (\<lambda>i. b_next (bufs s i)) a xs HEAD" "HEAD \<notin> set xs"
  shows "bget_cached d n (b_next (bufs s a)) s e =
    (Ret (List.find (\<lambda>b. b_dev (bufs s b) = d \<and> b_blockno (bufs s b) = n) xs), s, e)"
  using assms
proof (induction xs arbitrary: a)
  case (Cons x xs)
  then show ?case by (subst bget_cached_step) auto
qed (subst bget_cached_step, simp)

lemma bget_unused_run:
  assumes "linked (\<lambda>i. b_prev (bufs s i)) a xs HEAD" "HEAD \<notin> set xs"
  shows "bget_unused (b_prev (bufs s a)) s e = (Ret (List.find (\<lambda>b. b_refcnt (bufs s b) = 0) xs), s, e)"
  using assms
proof (induction xs arbitrary: a)
  case (Cons x xs)
  then show ?case by (subst bget_unused_step) auto
qed (subst bget_unused_step, simp)

section \<open>Moving a buffer to the front\<close>

definition set_next :: "nat \<Rightarrow> nat \<Rightarrow> (nat \<Rightarrow> buf) \<Rightarrow> nat \<Rightarrow> buf" where
  "set_next j v B = B(j := (B j)\<lparr>b_next := v\<rparr>)"

definition set_prev :: "nat \<Rightarrow> nat \<Rightarrow> (nat \<Rightarrow> buf) \<Rightarrow> nat \<Rightarrow> buf" where
  "set_prev j v B = B(j := (B j)\<lparr>b_prev := v\<rparr>)"

definition same_content :: "buf \<Rightarrow> buf \<Rightarrow> bool" where
  "same_content x y \<longleftrightarrow> b_valid x = b_valid y \<and> b_disk x = b_disk y \<and> b_dev x = b_dev y \<and>
     b_blockno x = b_blockno y \<and> b_refcnt x = b_refcnt y \<and> b_data x = b_data y"

lemma link_fields [simp]:
  "b_next (set_next j v B i) = (if i = j then v else b_next (B i))"
  "b_prev (set_next j v B i) = b_prev (B i)"
  "b_prev (set_prev j v B i) = (if i = j then v else b_prev (B i))"
  "b_next (set_prev j v B i) = b_next (B i)"
  "same_content (set_next j v B i) y = same_content (B i) y"
  "same_content (set_prev j v B i) y = same_content (B i) y"
  by (simp_all add: set_next_def set_prev_def same_content_def)

definition to_front :: "nat \<Rightarrow> (nat \<Rightarrow> buf) \<Rightarrow> nat \<Rightarrow> buf" where
  "to_front b B =
     (let B = set_prev (b_next (B b)) (b_prev (B b)) B;
          B = set_next (b_prev (B b)) (b_next (B b)) B;
          B = set_next b (b_next (B HEAD)) B;
          B = set_prev b HEAD B;
          B = set_prev (b_next (B HEAD)) b B
      in set_next HEAD b B)"

lemma to_front_content: "same_content (to_front b B i) (B i)"
  unfolding to_front_def Let_def link_fields by (simp add: same_content_def)

lemma rev_split: "rev (us @ b # vs) = rev vs @ b # rev us"
  by simp

lemma hd_snoc_last: "hd (xs @ [a]) = last (a # rev xs)"
  by (cases xs) simp_all

lemma lru_to_front:
  assumes "lru B (us @ b # vs)"
  shows "lru (to_front b B) (b # us @ vs)"
proof -
  let ?n = "\<lambda>i. b_next (B i)" and ?p = "\<lambda>i. b_prev (B i)"
  have d: "distinct (HEAD # us @ b # vs)" and s: "set (us @ b # vs) = {..<NBUF}"
    using assms by (auto simp: lru_def)
  have ln: "linked ?n HEAD (us @ b # vs) HEAD" and lp: "linked ?p HEAD (rev vs @ b # rev us) HEAD"
    using assms by (auto simp: lru_def)
  have dp: "distinct (HEAD # rev vs @ b # rev us)" using d by auto
  define nx pv where "nx = b_next (B b)" and "pv = b_prev (B b)"
  have nx: "nx = last (HEAD # rev vs)" using linked_next [OF ln] by (simp add: nx_def hd_snoc_last)
  have pv: "pv = last (HEAD # us)" using linked_next [OF lp] by (simp add: pv_def hd_snoc_last)
  have "nx \<in> set (HEAD # rev vs)" "pv \<in> set (HEAD # us)"
    unfolding nx pv by (rule last_in_set, simp)+
  then have nb: "nx \<noteq> b" "pv \<noteq> b" "b \<noteq> HEAD" using d by auto
  define n1 where "n1 = ?n(pv := nx)"
  define p1 where "p1 = ?p(nx := pv)"
  have ln1: "linked n1 HEAD (us @ vs) HEAD" using linked_unlink [OF ln d] by (simp add: n1_def pv nx_def)
  have lp1: "linked p1 HEAD (rev (us @ vs)) HEAD" using linked_unlink [OF lp dp] by (simp add: p1_def nx pv_def)
  have f: "n1 HEAD = last (HEAD # rev (us @ vs))" using linked_first [OF ln1] by (simp only: hd_snoc_last)
  have dd: "b \<notin> set (HEAD # us @ vs)" "HEAD \<notin> set (us @ vs)" "distinct (HEAD # rev (us @ vs))" "b \<notin> set (HEAD # rev (us @ vs))"
    using d by auto
  have "(\<lambda>i. b_next (to_front b B i)) = n1(b := n1 HEAD, HEAD := b)"
    using nb unfolding to_front_def Let_def n1_def
    by (auto simp: fun_eq_iff nx_def [symmetric] pv_def [symmetric])
  then have "linked (\<lambda>i. b_next (to_front b B i)) HEAD (b # us @ vs) HEAD"
    using linked_push [OF ln1 dd(1,2)] by simp
  moreover have "(\<lambda>i. b_prev (to_front b B i)) = p1(b := HEAD, n1 HEAD := b)"
    using nb f dd unfolding to_front_def Let_def n1_def p1_def
    by (auto simp: fun_eq_iff nx_def [symmetric] pv_def [symmetric])
  then have "linked (\<lambda>i. b_prev (to_front b B i)) HEAD (rev (us @ vs) @ [b]) HEAD"
    using linked_snoc [OF lp1 dd(4,3)] by (simp add: f)
  ultimately show ?thesis using d s by (auto simp: lru_def)
qed

end
