(* ===== verification/Virtio.thy ===== *)
theory Virtio
  imports BioProps
begin

unbundle bit_operations_syntax

text \<open>
  The virtio disk driver (\<open>kernel/virtio_disk.c\<close>).  The three pages shared with the device hold
  the descriptor table, the available ring and the used ring; here they are arrays of the
  state.  A descriptor's address is the object it points to.  What reads of the device
  registers return is the parameter \<open>vio_in\<close>, indexed by register and number of earlier
  reads; register writes are recorded in \<open>vio_w\<close>, the newest first.
\<close>

section \<open>State\<close>

abbreviation (input) NUM :: nat where "NUM \<equiv> 8"

datatype vaddr = VNull | VOps nat | VData nat | VStatus nat

record virtq_desc =
  vq_addr :: vaddr
  vq_len :: uint
  vq_flags :: ushort
  vq_next :: ushort

record virtio_blk_req =
  blk_type :: uint
  blk_reserved :: uint
  blk_sector :: uint64

record virtio_state = bio_state +
  vd_desc :: "nat \<Rightarrow> virtq_desc"
  vd_avail_idx :: ushort
  vd_avail_ring :: "nat \<Rightarrow> ushort"
  vd_used_idx_dev :: ushort
  vd_used_ring :: "nat \<Rightarrow> uint"
  vd_free :: "nat \<Rightarrow> bool"
  vd_used_idx :: ushort
  vd_info_b :: "nat \<Rightarrow> nat option"
  vd_info_status :: "nat \<Rightarrow> uchar"
  vd_ops :: "nat \<Rightarrow> virtio_blk_req"
  vio_in :: "nat \<Rightarrow> nat \<Rightarrow> uint"
  vio_pos :: "nat \<Rightarrow> nat"
  vio_w :: "(nat \<times> uint) list"

definition null_desc :: virtq_desc where
  "null_desc = \<lparr>vq_addr = VNull, vq_len = 0, vq_flags = 0, vq_next = 0\<rparr>"

abbreviation (input) VRING_DESC_F_NEXT :: ushort where "VRING_DESC_F_NEXT \<equiv> 1"
abbreviation (input) VRING_DESC_F_WRITE :: ushort where "VRING_DESC_F_WRITE \<equiv> 2"
abbreviation (input) VIRTIO_BLK_T_IN :: uint where "VIRTIO_BLK_T_IN \<equiv> 0"
abbreviation (input) VIRTIO_BLK_T_OUT :: uint where "VIRTIO_BLK_T_OUT \<equiv> 1"

section \<open>Registers\<close>

definition vio_read :: "nat \<Rightarrow> (uint, 'a virtio_state_scheme) K" where
  "vio_read r =
     kbind (kget (\<lambda>s. vio_in s r (vio_pos s r))) (\<lambda>v.
     kbind (kmod (\<lambda>s. s\<lparr>vio_pos := (vio_pos s)(r := Suc (vio_pos s r))\<rparr>)) (\<lambda>_.
     kret v))"

definition vio_write :: "nat \<Rightarrow> uint \<Rightarrow> (unit, 'a virtio_state_scheme) K" where
  "vio_write r v = kmod (\<lambda>s. s\<lparr>vio_w := (r, v) # vio_w s\<rparr>)"

text \<open>The feature bits that the driver turns off.\<close>

definition vio_features :: "uint \<Rightarrow> uint" where
  "vio_features f = foldl (\<lambda>f b. f AND NOT (push_bit b 1)) f [5, 7, 9, 11, 12, 27, 29, 28]"

definition vio_probe :: "(bool, 'a virtio_state_scheme) K" where
  "vio_probe =
     kbind (vio_read 0x000) (\<lambda>magic. if magic \<noteq> 0x74726976 then kret False else
     kbind (vio_read 0x004) (\<lambda>version. if version \<noteq> 2 then kret False else
     kbind (vio_read 0x008) (\<lambda>device. if device \<noteq> 2 then kret False else
     kbind (vio_read 0x00c) (\<lambda>vendor. kret (vendor = 0x554d4551)))))"

definition vio_queue_pages :: "(uint64 \<times> uint64 \<times> uint64, 'a virtio_state_scheme) K" where
  "vio_queue_pages =
     kbind kalloc (\<lambda>desc.
     kbind kalloc (\<lambda>avail.
     kbind kalloc (\<lambda>used.
     if desc = 0 \<or> avail = 0 \<or> used = 0 then kpanic ''virtio disk kalloc''
     else
       kbind (kseq [
         kmod (\<lambda>s. s\<lparr>mem := memset (mem s) desc 0 4096, vd_desc := (\<lambda>_. null_desc)\<rparr>),
         kmod (\<lambda>s. s\<lparr>mem := memset (mem s) avail 0 4096, vd_avail_idx := 0, vd_avail_ring := (\<lambda>_. 0)\<rparr>),
         kmod (\<lambda>s. s\<lparr>mem := memset (mem s) used 0 4096, vd_used_idx_dev := 0, vd_used_ring := (\<lambda>_. 0)\<rparr>)]) (\<lambda>_.
       kret (desc, avail, used)))))"

definition virtio_disk_init :: "(unit, 'a virtio_state_scheme) K" where
  "virtio_disk_init =
     kbind (initlock DiskLock ''virtio_disk'') (\<lambda>_.
     kbind vio_probe (\<lambda>found.
     if \<not> found then kpanic ''could not find virtio disk''
     else
       kbind (kseq [vio_write 0x070 0, vio_write 0x070 1, vio_write 0x070 3]) (\<lambda>_.
       kbind (vio_read 0x010) (\<lambda>features.
       kbind (kseq [vio_write 0x020 (vio_features features), vio_write 0x070 11]) (\<lambda>_.
       kbind (vio_read 0x070) (\<lambda>status.
       if status AND 8 = 0 then kpanic ''virtio disk FEATURES_OK unset''
       else
         kbind (vio_write 0x030 0) (\<lambda>_.
         kbind (vio_read 0x044) (\<lambda>ready.
         if ready \<noteq> 0 then kpanic ''virtio disk should not be ready''
         else
           kbind (vio_read 0x034) (\<lambda>mx.
           if mx = 0 then kpanic ''virtio disk has no queue 0''
           else if unat mx < NUM then kpanic ''virtio disk max queue too short''
           else
             kbind vio_queue_pages (\<lambda>(desc, avail, used).
             kseq [
               vio_write 0x038 (of_nat NUM),
               vio_write 0x080 (ucast desc), vio_write 0x084 (ucast (drop_bit 32 desc)),
               vio_write 0x090 (ucast avail), vio_write 0x094 (ucast (drop_bit 32 avail)),
               vio_write 0x0a0 (ucast used), vio_write 0x0a4 (ucast (drop_bit 32 used)),
               vio_write 0x044 1,
               kmod (\<lambda>s. s\<lparr>vd_free := (\<lambda>i. if i < NUM then True else vd_free s i)\<rparr>),
               vio_write 0x070 (status OR 4)]))))))))))"

section \<open>Descriptors\<close>

definition alloc_desc :: "(nat option, 'a virtio_state_scheme) K" where
  "alloc_desc =
     kbind (kget vd_free) (\<lambda>free.
     case List.find free [0..<NUM] of
       None \<Rightarrow> kret None
     | Some i \<Rightarrow> kbind (kmod (\<lambda>s. s\<lparr>vd_free := (vd_free s)(i := False)\<rparr>)) (\<lambda>_. kret (Some i)))"

definition free_desc :: "nat \<Rightarrow> (unit, 'a virtio_state_scheme) K" where
  "free_desc i =
     (if i \<ge> NUM then kpanic ''free_desc 1''
      else kbind (kget (\<lambda>s. vd_free s i)) (\<lambda>f.
        if f then kpanic ''free_desc 2''
        else kseq [
          kmod (\<lambda>s. s\<lparr>vd_desc := (vd_desc s)(i := null_desc)\<rparr>),
          kmod (\<lambda>s. s\<lparr>vd_free := (vd_free s)(i := True)\<rparr>),
          wakeup ChDiskFree]))"

definition free_chain :: "nat \<Rightarrow> (unit, 'a virtio_state_scheme) K" where
  "free_chain = kloop (\<lambda>i.
     kbind (kget (\<lambda>s. vd_desc s i)) (\<lambda>d.
     kbind (free_desc i) (\<lambda>_.
     if vq_flags d AND VRING_DESC_F_NEXT \<noteq> 0 then kret (Inl (unat (vq_next d))) else kret (Inr ()))))"

text \<open>\<open>Some\<close> of the three indices is the result 0, \<open>None\<close> the result -1.\<close>

definition alloc3_desc :: "((nat \<times> nat \<times> nat) option, 'a virtio_state_scheme) K" where
  "alloc3_desc =
     kbind alloc_desc (\<lambda>r0. case r0 of None \<Rightarrow> kret None | Some i0 \<Rightarrow>
     kbind alloc_desc (\<lambda>r1. case r1 of None \<Rightarrow> kbind (free_desc i0) (\<lambda>_. kret None) | Some i1 \<Rightarrow>
     kbind alloc_desc (\<lambda>r2. case r2 of None \<Rightarrow> kbind (kseq [free_desc i0, free_desc i1]) (\<lambda>_. kret None) | Some i2 \<Rightarrow>
     kret (Some (i0, i1, i2)))))"

section \<open>Requests\<close>

definition disk_wait :: "chan \<Rightarrow> (unit, 'a virtio_state_scheme) K" where
  "disk_wait ch = kseq [
     sleep_prepare (Some ch),
     release DiskLock,
     sleep,
     acquire DiskLock]"

text \<open>The three descriptors of a request for buffer \<open>b\<close>: the command, the data, the status byte.\<close>

definition vd_request :: "nat \<Rightarrow> bool \<Rightarrow> uint \<Rightarrow> nat \<Rightarrow> nat \<Rightarrow> nat \<Rightarrow> 'a virtio_state_scheme \<Rightarrow> 'a virtio_state_scheme" where
  "vd_request b write blockno i0 i1 i2 s =
     s\<lparr>vd_ops := (vd_ops s)(i0 := \<lparr>blk_type = (if write then VIRTIO_BLK_T_OUT else VIRTIO_BLK_T_IN),
         blk_reserved = 0, blk_sector = ucast (blockno * 2)\<rparr>),
       vd_desc := (vd_desc s)
         (i0 := \<lparr>vq_addr = VOps i0, vq_len = 16, vq_flags = VRING_DESC_F_NEXT, vq_next = of_nat i1\<rparr>,
          i1 := \<lparr>vq_addr = VData b, vq_len = 1024,
            vq_flags = (if write then 0 else VRING_DESC_F_WRITE) OR VRING_DESC_F_NEXT, vq_next = of_nat i2\<rparr>,
          i2 := \<lparr>vq_addr = VStatus i0, vq_len = 1, vq_flags = VRING_DESC_F_WRITE, vq_next = 0\<rparr>),
       vd_info_status := (vd_info_status s)(i0 := 0xff),
       bufs := (bufs s)(b := (bufs s b)\<lparr>b_disk := True\<rparr>),
       vd_info_b := (vd_info_b s)(i0 := Some b),
       vd_avail_ring := (vd_avail_ring s)(unat (vd_avail_idx s mod of_nat NUM) := of_nat i0),
       vd_avail_idx := vd_avail_idx s + 1\<rparr>"

definition virtio_disk_rw :: "nat \<Rightarrow> bool \<Rightarrow> (unit, 'a virtio_state_scheme) K" where
  "virtio_disk_rw b write =
     kbind (kget (\<lambda>s. b_blockno (bufs s b))) (\<lambda>blockno.
     kbind (acquire DiskLock) (\<lambda>_.
     kbind (kloop (\<lambda>_.
       kbind alloc3_desc (\<lambda>r.
       case r of Some idx \<Rightarrow> kret (Inr idx) | None \<Rightarrow> kbind (disk_wait ChDiskFree) (\<lambda>_. kret (Inl ())))) ()) (\<lambda>(i0, i1, i2).
     kseq [
       kmod (vd_request b write blockno i0 i1 i2),
       vio_write 0x050 0,
       kloop (\<lambda>_.
         kbind (kget (\<lambda>s. b_disk (bufs s b))) (\<lambda>busy.
         if busy then kbind (disk_wait (ChBuf b)) (\<lambda>_. kret (Inl ())) else kret (Inr ()))) (),
       kmod (\<lambda>s. s\<lparr>vd_info_b := (vd_info_b s)(i0 := None)\<rparr>),
       free_chain i0,
       release DiskLock])))"

definition disk_done :: "(unit, 'a virtio_state_scheme) K" where
  "disk_done =
     kbind (kget (\<lambda>s. unat (vd_used_ring s (unat (vd_used_idx s mod of_nat NUM))))) (\<lambda>id.
     kbind (kget (\<lambda>s. (vd_info_status s id, vd_info_b s id))) (\<lambda>(status, b).
     if status \<noteq> 0 then kpanic ''virtio_disk_intr status''
     else case b of
       None \<Rightarrow> kpanic ''kerneltrap''
     | Some b \<Rightarrow> kseq [
         kmod (set_buf b (\<lambda>x. x\<lparr>b_disk := False\<rparr>)),
         wakeup (ChBuf b),
         kmod (\<lambda>s. s\<lparr>vd_used_idx := vd_used_idx s + 1\<rparr>)]))"

definition virtio_disk_intr :: "(unit, 'a virtio_state_scheme) K" where
  "virtio_disk_intr =
     kbind (acquire DiskLock) (\<lambda>_.
     kbind (vio_read 0x060) (\<lambda>st.
     kbind (vio_write 0x064 (st AND 3)) (\<lambda>_.
     kbind (kloop (\<lambda>_.
       kbind (kget (\<lambda>s. vd_used_idx s \<noteq> vd_used_idx_dev s)) (\<lambda>more.
       if more then kbind disk_done (\<lambda>_. kret (Inl ())) else kret (Inr ()))) ()) (\<lambda>_.
     release DiskLock))))"

end
