(* ===== verification/PrintkProps.thy ===== *)
theory PrintkProps
  imports Printk
begin

unbundle bit_operations_syntax

text \<open>
  What \<open>printk\<close> prints: numbers as their numerals, without ever leaving \<open>buf[20]\<close>, and format
  strings as the concatenation of what their directives stand for.
\<close>

section \<open>Numerals\<close>

fun nat_digits :: "nat \<Rightarrow> nat \<Rightarrow> nat list" where
  "nat_digits b n = (if b < 2 \<or> n < b then [n] else nat_digits b (n div b) @ [n mod b])"

declare nat_digits.simps [simp del]

lemma nat_digits_less: "n < b \<Longrightarrow> nat_digits b n = [n]"
  by (subst nat_digits.simps) simp

lemma nat_digits_step: "2 \<le> b \<Longrightarrow> b \<le> n \<Longrightarrow> nat_digits b n = nat_digits b (n div b) @ [n mod b]"
  by (subst nat_digits.simps) simp

lemma nat_digits_value: "foldl (\<lambda>a d. a * b + d) 0 (nat_digits b n) = n"
  by (induction b n rule: nat_digits.induct) (subst nat_digits.simps, auto simp: div_mult_mod_eq)

lemma nat_digits_range: "2 \<le> b \<Longrightarrow> d \<in> set (nat_digits b n) \<Longrightarrow> d < b"
proof (induction b n rule: nat_digits.induct)
  case (1 b n)
  then show ?case by (cases "n < b") (auto simp: nat_digits_less nat_digits_step)
qed

lemma nat_digits_hd: "2 \<le> b \<Longrightarrow> hd (nat_digits b n) = 0 \<Longrightarrow> n = 0"
proof (induction b n rule: nat_digits.induct)
  case (1 b n)
  show ?case
  proof (cases "n < b")
    case True
    then show ?thesis using 1 by (simp add: nat_digits_less)
  next
    case False
    then have "nat_digits b (n div b) \<noteq> []" by (subst nat_digits.simps) simp
    then have "n div b = 0" using 1 False by (simp add: nat_digits_step)
    then show ?thesis using False 1 by (auto simp: div_eq_0_iff)
  qed
qed

lemma nat_digits_length: "2 \<le> b \<Longrightarrow> n < b ^ Suc k \<Longrightarrow> length (nat_digits b n) \<le> Suc k"
proof (induction k arbitrary: n)
  case (Suc k)
  have "n div b < b ^ Suc k" using Suc.prems by (simp add: less_mult_imp_div_less mult.commute)
  from Suc.IH [OF Suc.prems(1) this] show ?case
    by (cases "n < b") (use Suc.prems in \<open>simp_all add: nat_digits_less nat_digits_step\<close>)
qed (simp add: nat_digits_less)

section \<open>Printing a number\<close>

definition digit :: "nat \<Rightarrow> uchar" where
  "digit d = digits ! d"

definition printint_round :: "uint64 \<Rightarrow> uint64 \<times> uchar list \<Rightarrow> (uint64 \<times> uchar list + uchar list, 's) K" where
  "printint_round b = (\<lambda>(x, buf). kbind (putbuf (digits ! unat (x mod b)) buf) (\<lambda>buf.
     if x div b \<noteq> 0 then kret (Inl (x div b, buf)) else kret (Inr buf)))"

lemma printint_loop:
  assumes "2 \<le> unat b" "length buf + length (nat_digits (unat b) (unat x)) \<le> 20"
  shows "kloop (printint_round b) (x, buf) s e =
     (Ret (buf @ map digit (rev (nat_digits (unat b) (unat x)))), s, e)"
  using assms(2)
proof (induction "unat x" arbitrary: x buf rule: less_induct)
  case less
  show ?case
  proof (cases "unat x < unat b")
    case True
    then have "x div b = 0" "x mod b = x" by (simp_all add: word_unat_eq_iff unat_div unat_mod)
    then show ?thesis
      using less.prems True
      by (intro kloop_step_Inr) (simp add: printint_round_def putbuf_def kret_run nat_digits_less digit_def)
  next
    case False
    have ne: "x div b \<noteq> 0" using False assms(1) by (simp add: word_unat_eq_iff unat_div div_eq_0_iff)
    have d: "nat_digits (unat b) (unat x) = nat_digits (unat b) (unat x div unat b) @ [unat x mod unat b]"
      using False assms(1) by (intro nat_digits_step) simp_all
    have lt: "unat (x div b) < unat x" using assms(1) False by (simp add: unat_div)
    let ?buf = "buf @ [digit (unat x mod unat b)]"
    have "length buf < 20" using less.prems d by simp
    then have "printint_round b (x, buf) s e = (Ret (Inl (x div b, ?buf)), s, e)"
      using ne by (simp add: printint_round_def putbuf_def kret_run digit_def unat_mod)
    moreover have "kloop (printint_round b) (x div b, ?buf) s e =
        (Ret (?buf @ map digit (rev (nat_digits (unat b) (unat (x div b))))), s, e)"
      using less.prems d by (intro less.hyps [OF lt]) (simp add: unat_div)
    ultimately show ?thesis by (simp add: kloop_step_Inl d unat_div)
  qed
qed

lemma printint_digits_run:
  assumes "2 \<le> unat b" "length (nat_digits (unat b) (unat x)) \<le> 20"
  shows "printint_digits x b s e = (Ret (map digit (rev (nat_digits (unat b) (unat x)))), s, e)"
  using printint_loop [of b "[]" x s e] assms by (simp add: printint_digits_def printint_round_def)

text \<open>The number that \<open>printint\<close> is asked to print, and its numeral.\<close>

definition pr_value :: "uint64 \<Rightarrow> bool \<Rightarrow> int" where
  "pr_value xx sign = (if sign then sint xx else uint xx)"

definition pr_numeral :: "uint64 \<Rightarrow> nat \<Rightarrow> bool \<Rightarrow> uchar list" where
  "pr_numeral xx b sign =
     (if pr_value xx sign < 0 then [of_char CHR ''-''] else []) @ map digit (nat_digits b (nat \<bar>pr_value xx sign\<bar>))"

lemma unat_neg_sint:
  assumes "sint (xx :: uint64) < 0"
  shows "unat (- xx) = nat (- sint xx)" "nat (- sint xx) \<le> 2 ^ 63"
proof -
  have ge: "- (2 ^ 63) \<le> sint xx" using sint_greater_eq [of xx] by simp
  have "uint (- xx) = uint (of_int (- sint xx) :: uint64)" by simp
  also have "\<dots> = - sint xx" using ge assms by (simp only: uint_word_of_int) (simp add: mod_pos_pos_trivial)
  finally show "unat (- xx) = nat (- sint xx)" by (metis unat_eq_nat_uint)
  show "nat (- sint xx) \<le> 2 ^ 63" using ge by simp
qed

lemma unat_nonneg_sint: "0 \<le> sint (xx :: uint64) \<Longrightarrow> unat xx = nat (sint xx)"
proof -
  assume "0 \<le> sint xx"
  moreover have "sint xx < 2 ^ 63" using sint_less [of xx] by simp
  moreover have "uint xx = uint (of_int (sint xx) :: uint64)" by simp
  ultimately have "uint xx = sint xx" by (simp only: uint_word_of_int) (simp add: mod_pos_pos_trivial)
  then show ?thesis by (metis unat_eq_nat_uint)
qed

lemma pr_value_abs:
  "nat \<bar>pr_value xx sign\<bar> = unat (if sign \<and> sint xx < 0 then - xx else xx)"
  by (auto simp: pr_value_def unat_neg_sint unat_nonneg_sint unat_eq_nat_uint [symmetric])

lemma pr_value_bound:
  "nat \<bar>pr_value xx sign\<bar> < 2 ^ 64" "pr_value xx sign < 0 \<Longrightarrow> nat \<bar>pr_value xx sign\<bar> \<le> 2 ^ 63"
  using unat64_less [of "if sign \<and> sint xx < 0 then - xx else xx"] unat_neg_sint(2) [of xx] uint_lt_0 [of xx]
  by (auto simp: pr_value_abs [symmetric]) (auto simp: pr_value_def split: if_splits)

lemma pr_numeral_fits:
  assumes "b = 10 \<or> b = 16"
  shows "length (pr_numeral xx b sign) \<le> 20"
proof -
  let ?n = "nat \<bar>pr_value xx sign\<bar>"
  have "length (nat_digits 16 ?n) \<le> Suc 15" using pr_value_bound(1) [of xx sign]
    by (intro nat_digits_length) simp_all
  moreover have "length (nat_digits 10 ?n) \<le> Suc 19" using pr_value_bound(1) [of xx sign]
    by (intro nat_digits_length) simp_all
  moreover have "pr_value xx sign < 0 \<Longrightarrow> length (nat_digits 10 ?n) \<le> Suc 18" using pr_value_bound(2) [of xx sign]
    by (intro nat_digits_length) simp_all
  ultimately show ?thesis using assms by (auto simp: pr_numeral_def)
qed

lemma con_bytes_uchar: "con_bytes (uint (c :: uchar)) = [c]"
proof -
  have "uint c < 256" using uint_lt2p [of c] by simp
  then show ?thesis by (auto simp: con_bytes_def)
qed

lemma sender_string: "sender bs L (kfor bs (\<lambda>c. consputc (uint c)))"
proof -
  have "sender (concat (map (\<lambda>c. [c]) bs)) L (kfor bs (\<lambda>c. consputc (uint c)))"
    by (rule sender_kfor) (metis con_bytes_uchar sender_consputc)
  then show ?thesis by simp
qed

lemma sender_printint:
  assumes "b = 10 \<or> b = 16"
  shows "sender (pr_numeral xx (unat b) sign) L (printint xx b sign)"
proof -
  let ?neg = "sign \<and> sint xx < 0" and ?x = "if sign \<and> sint xx < 0 then - xx else xx"
  let ?ds = "map digit (nat_digits (unat b) (unat ?x))"
  have b: "2 \<le> unat b" "unat b = 10 \<or> unat b = 16" using assms by auto
  have neg: "pr_value xx sign < 0 \<longleftrightarrow> ?neg" by (auto simp: pr_value_def not_less)
  have n: "pr_numeral xx (unat b) sign = (if ?neg then [of_char CHR ''-''] else []) @ ?ds"
    unfolding pr_numeral_def pr_value_abs neg ..
  have len: "length ((if ?neg then [of_char CHR ''-'' :: uchar] else []) @ ?ds) \<le> 20"
    using pr_numeral_fits [OF b(2), of xx sign] unfolding n .
  then have d: "printint_digits ?x b s e = (Ret (rev ?ds), s, e)" for s :: "'a uart_state_scheme" and e
    using printint_digits_run [OF b(1), of ?x s e] by (simp add: rev_map)
  have "printint xx b sign s e = kfor (pr_numeral xx (unat b) sign) (\<lambda>c. consputc (uint c)) s e"
    for s :: "'a uart_state_scheme" and e
    unfolding printint_def Let_def n using len by (auto simp: kbind_Ret [OF d] putbuf_def)
  then show ?thesis using sender_string [of "pr_numeral xx (unat b) sign" L] by (simp add: sender_def)
qed

section \<open>Format strings\<close>

text \<open>
  What a format string stands for, independently of the scanning loop: the longest-match
  numeric directives with the reading of their argument, their base and signedness, then
  the single-letter directives.
\<close>

definition num_dirs :: "(string \<times> (uint64 \<Rightarrow> uint64) \<times> uint64 \<times> bool) list" where
  "num_dirs =
     [(''d'', as_int, 10, True), (''ld'', id, 10, True), (''lld'', id, 10, True),
      (''u'', as_uint, 10, False), (''lu'', id, 10, False), (''llu'', id, 10, False),
      (''x'', as_uint, 16, False), (''lx'', id, 16, False), (''llx'', id, 16, False)]"

definition num_dir :: "string \<Rightarrow> (string \<times> (uint64 \<Rightarrow> uint64) \<times> uint64 \<times> bool) option" where
  "num_dir fs = List.find (\<lambda>(p, _). prefix p fs) num_dirs"

definition hex16 :: "uint64 \<Rightarrow> uchar list" where
  "hex16 x = map (\<lambda>i. digit (unat (drop_bit 60 (push_bit (4 * i) x)))) [0..<16]"

fun one_dir :: "char \<Rightarrow> arg list \<Rightarrow> (uchar list \<times> arg list) option" where
  "one_dir c as =
     (if c = CHR ''p'' then case as of ArgInt v # as \<Rightarrow> Some (chars ''0x'' @ hex16 v, as) | _ \<Rightarrow> None
      else if c = CHR ''c'' then case as of ArgInt v # as \<Rightarrow> Some (con_bytes (sint (ucast v :: 32 word)), as) | _ \<Rightarrow> None
      else if c = CHR ''s'' then case as of
          ArgStr (Some t) # as \<Rightarrow> Some (takeWhile (\<lambda>c. c \<noteq> 0) t, as)
        | ArgStr None # as \<Rightarrow> Some (chars ''(null)'', as) | _ \<Rightarrow> None
      else if c = CHR ''%'' then Some (chars ''%'', as)
      else Some (chars [CHR ''%'', c], as))"

fun render :: "string \<Rightarrow> arg list \<Rightarrow> uchar list option" where
  "render [] as = Some []"
| "render (c # fs) as =
     (if c \<noteq> CHR ''%'' then map_option (\<lambda>bs. of_char c # bs) (render fs as)
      else case num_dir fs of
        Some (p, cv, b, sg) \<Rightarrow>
          (case as of
             ArgInt v # as \<Rightarrow> map_option (\<lambda>bs. pr_numeral (cv v) (unat b) sg @ bs) (render (drop (length p) fs) as)
           | _ \<Rightarrow> None)
      | None \<Rightarrow>
          (case fs of
             [] \<Rightarrow> Some []
           | c0 # fs' \<Rightarrow>
               (case one_dir c0 as of
                  None \<Rightarrow> None
                | Some (bs, as) \<Rightarrow> map_option (\<lambda>cs. bs @ cs) (render fs' as))))"

text \<open>Computations that send bytes and return a value.\<close>

definition sender_ret :: "'r \<Rightarrow> uchar list \<Rightarrow> lockid set \<Rightarrow> ('r, 'a uart_state_scheme) K \<Rightarrow> bool" where
  "sender_ret r bs L f \<longleftrightarrow> (\<forall>s e. tx_ok L s \<longrightarrow> (\<exists>s'. f s e = (Ret r, s', e) \<and> sends bs s s'))"

lemma sender_ret_kret: "sender bs L f \<Longrightarrow> sender_ret r bs L (kbind f (\<lambda>_. kret r))"
  unfolding sender_def sender_ret_def by (metis kbind_Ret kret_run)

lemma sender_ret_kbind: "sender_ret r bs L f \<Longrightarrow> sender cs L (g r) \<Longrightarrow> sender (bs @ cs) L (kbind f g)"
  unfolding sender_def sender_ret_def by (metis (no_types, lifting) kbind_Ret sends_trans sends_tx_ok)

lemma uchar_of_char [simp]: "(word_of_int (of_char c) :: uchar) = of_char c"
  by (cases c) (simp add: of_char_def)

lemma con_bytes_char: "con_bytes (of_char c) = [of_char c]"
proof -
  have "(of_char c :: int) < 256" using of_char_mod_256 [of c, where ?'a = int] pos_mod_bound [of 256 "of_char c"] by simp
  then show ?thesis by (auto simp: con_bytes_def)
qed

lemma sender_char: "sender [of_char c] L (consputc (of_char c))"
  using sender_consputc [of "of_char c" L] by (simp add: con_bytes_char)

lemma sender_printptr: "sender (chars ''0x'' @ hex16 v) L (printptr v)"
proof -
  have h: "sender (hex16 v) L (kfor [0..<16] (\<lambda>i. consputc (uint (digits ! unat (drop_bit 60 (push_bit (4 * i) v))))))"
  proof -
    have "sender (concat (map (\<lambda>i. [digits ! unat (drop_bit 60 (push_bit (4 * i) v))]) [0..<16])) L
       (kfor [0..<16] (\<lambda>i. consputc (uint (digits ! unat (drop_bit 60 (push_bit (4 * i) v))))))"
      by (rule sender_kfor) (metis con_bytes_uchar sender_consputc)
    then show ?thesis by (simp only: hex16_def digit_def concat_map_singleton)
  qed
  have "sender ([of_char CHR ''0''] @ [of_char CHR ''x''] @ hex16 v @ []) L (printptr v)"
    unfolding printptr_def kseq.simps by (intro sender_kbind sender_char h sender_kret)
  then show ?thesis by (simp add: chars_def)
qed

lemma conv_num:
  assumes "num_dir fs = Some (p, cv, b, sg)"
  shows "p \<noteq> []" "b = 10 \<or> b = 16"
    "printk_conv (fmt_at fs 0) (fmt_at fs 1) (fmt_at fs 2) (ArgInt v # as) =
       kbind (printint (cv v) b sg) (\<lambda>_. kret (Some (length p - 1, as)))"
proof -
  have f: "(p, cv, b, sg) \<in> set num_dirs" and "prefix p fs"
    using assms unfolding num_dir_def find_Some_iff by (auto simp: in_set_conv_nth)
  show "p \<noteq> []" "b = 10 \<or> b = 16" using f unfolding num_dirs_def by auto
  obtain gs where fs: "fs = p @ gs" using \<open>prefix p fs\<close> by (auto simp: prefix_def)
  show "printk_conv (fmt_at fs 0) (fmt_at fs 1) (fmt_at fs 2) (ArgInt v # as) =
       kbind (printint (cv v) b sg) (\<lambda>_. kret (Some (length p - 1, as)))"
    using f unfolding num_dirs_def fs
    by (auto simp only: list.set insert_iff empty_iff prod.inject)
      (simp_all add: fmt_at_def printk_conv_def printk_num_def numeral_2_eq_2)
qed

lemma conv_none:
  assumes "num_dir (c0 # fs) = None" "one_dir c0 as = Some (bs, as')" "c0 \<noteq> CHR 0x00"
  shows "sender_ret (Some (0, as')) bs L (printk_conv c0 (fmt_at (c0 # fs) 1) (fmt_at (c0 # fs) 2) as)"
proof -
  have no: "\<not> prefix q (c0 # fs)" if "(q, z) \<in> set num_dirs" for q z
    using assms(1) that by (cases z rule: prod_cases3) (auto simp: num_dir_def find_None_iff)
  have "c0 \<notin> {CHR ''d'', CHR ''u'', CHR ''x''}"
    using no [of "''d''"] no [of "''u''"] no [of "''x''"] by (auto simp: num_dirs_def)
  moreover have "c0 = CHR ''l'' \<Longrightarrow> fmt_at (c0 # fs) 1 \<notin> {CHR ''d'', CHR ''u'', CHR ''x''}"
    using no [of "''ld''"] no [of "''lu''"] no [of "''lx''"]
    by (cases fs) (auto simp: num_dirs_def fmt_at_def)
  moreover have "c0 = CHR ''l'' \<Longrightarrow> fmt_at (c0 # fs) 1 = CHR ''l'' \<Longrightarrow> fmt_at (c0 # fs) 2 \<notin> {CHR ''d'', CHR ''u'', CHR ''x''}"
    using no [of "''lld''"] no [of "''llu''"] no [of "''llx''"]
    by (cases fs; cases "tl fs") (auto simp: num_dirs_def fmt_at_def)
  ultimately have conv: "printk_conv c0 (fmt_at (c0 # fs) 1) (fmt_at (c0 # fs) 2) as =
      (if c0 = CHR ''p'' then kbind (va_int as) (\<lambda>(v, as). kbind (printptr v) (\<lambda>_. kret (Some (0, as))))
      else if c0 = CHR ''c'' then kbind (va_int as) (\<lambda>(v, as). kbind (consputc (sint (ucast v :: 32 word))) (\<lambda>_. kret (Some (0, as))))
      else if c0 = CHR ''s'' then
        kbind (va_str as) (\<lambda>(p, as).
        kbind (kfor (case p of None \<Rightarrow> chars ''(null)'' | Some t \<Rightarrow> takeWhile (\<lambda>c. c \<noteq> 0) t) (\<lambda>c. consputc (uint c))) (\<lambda>_.
        kret (Some (0, as))))
      else if c0 = CHR ''%'' then kbind (consputc (of_char CHR ''%'')) (\<lambda>_. kret (Some (0, as)))
      else kbind (kseq [consputc (of_char CHR ''%''), consputc (of_char c0)]) (\<lambda>_. kret (Some (0, as))))"
    using assms(3) unfolding printk_conv_def Let_def by auto
  show ?thesis
  proof (cases "c0 \<in> {CHR ''p'', CHR ''c'', CHR ''s''}")
    case True
    then show ?thesis
      using assms(2) unfolding conv
      by (auto split: list.splits arg.splits option.splits
          intro!: sender_ret_kret sender_printptr sender_consputc sender_string)
  next
    case False
    have "sender ([of_char CHR ''%''] @ [of_char c0] @ []) L (kseq [consputc (of_char CHR ''%''), consputc (of_char c0)])"
      unfolding kseq.simps by (intro sender_kbind sender_char sender_kret)
    then show ?thesis
      using assms(2) False sender_char [of "CHR ''%''" L] unfolding conv
      by (auto simp: chars_def simp del: of_char_Char split: if_splits intro!: sender_ret_kret)
  qed
qed

lemma fmt_chain:
  "(if fmt_at fs 0 \<noteq> CHR 0x00 then fmt_at fs 1 else CHR 0x00) =
     (if CHR 0x00 \<in> set fs then if fmt_at fs 0 \<noteq> CHR 0x00 then fmt_at fs 1 else CHR 0x00 else fmt_at fs 1)"
  "CHR 0x00 \<notin> set fs \<Longrightarrow> (if fmt_at fs 1 \<noteq> CHR 0x00 then fmt_at fs 2 else CHR 0x00) = fmt_at fs 2"
  by (cases fs; cases "tl fs"; auto simp: fmt_at_def)+

lemma num_dir_Nil [simp]: "num_dir [] = None"
  by (simp add: num_dir_def num_dirs_def)

lemma sender_printk_loop:
  "render fmt as = Some bs \<Longrightarrow> CHR 0x00 \<notin> set fmt \<Longrightarrow>
   sender bs L (printk_loop fmt as :: (unit, 'a uart_state_scheme) K)"
proof (induction fmt as arbitrary: bs rule: render.induct)
  case (1 as)
  then show ?case by (simp add: sender_kret)
next
  case (2 c fs as)
  show ?case
  proof (cases "c = CHR ''%''")
    case False
    then obtain cs where "render fs as = Some cs" "bs = [of_char c] @ cs" using "2.prems"(1) by auto
    then show ?thesis using "2.IH"(1) [OF False, of cs] "2.prems"(2) False
      by (simp del: append.simps) (intro sender_kbind sender_char)
  next
    case True
    have nz: "CHR 0x00 \<notin> set fs" using "2.prems"(2) by simp
    have loop: "printk_loop (c # fs) as = kbind (printk_conv (fmt_at fs 0) (fmt_at fs 1) (fmt_at fs 2) as) (\<lambda>r.
        case r of None \<Rightarrow> kret () | Some (k, as) \<Rightarrow> printk_loop (drop (Suc k) fs) as)"
      using True nz by (simp add: Let_def fmt_chain del: One_nat_def)
    show ?thesis
    proof (cases "num_dir fs")
      case (Some d)
      obtain p cv b sg where d: "d = (p, cv, b, sg)" by (cases d)
      have nd: "num_dir fs = Some (p, cv, b, sg)" using Some d by simp
      obtain v as' cs where as: "as = ArgInt v # as'" "render (drop (length p) fs) as' = Some cs"
          "bs = pr_numeral (cv v) (unat b) sg @ cs"
        using "2.prems"(1) True nd by (auto split: list.splits arg.splits)
      have "sender cs L (printk_loop (drop (length p) fs) as' :: (unit, 'a uart_state_scheme) K)"
        using "2.IH"(3) [OF _ nd refl refl refl as(1) refl as(2)] nz True by (auto dest: in_set_dropD)
      then show ?thesis
        unfolding loop unfolding as(1,3) conv_num(3) [OF nd] using conv_num(1) [OF nd]
        by (intro sender_ret_kbind [OF sender_ret_kret [OF sender_printint [OF conv_num(2) [OF nd]]]]) simp
    next
      case None
      show ?thesis
      proof (cases fs)
        case Nil
        then show ?thesis using "2.prems"(1) True by (simp add: Let_def fmt_at_def printk_conv_def sender_kret)
      next
        case (Cons c0 fs')
        obtain bs0 as' cs where o: "one_dir c0 as = Some (bs0, as')" "render fs' as' = Some cs" "bs = bs0 @ cs"
          using "2.prems"(1) True None Cons by (auto split: option.splits)
        have "sender cs L (printk_loop fs' as' :: (unit, 'a uart_state_scheme) K)"
          using "2.IH"(2) [OF _ None Cons o(1) refl o(2)] nz True Cons by auto
        moreover have "fmt_at fs 0 = c0" using Cons by (simp add: fmt_at_def)
        ultimately show ?thesis
          unfolding loop o(3) using conv_none [of c0 fs' as bs0 as' L] None Cons o(1) nz
          by (auto intro: sender_ret_kbind)
      qed
    qed
  qed
qed

lemma sends_frame: "sends bs s s' \<Longrightarrow> s' = s\<lparr>uart_pos := uart_pos s', uart_w := uart_w s'\<rparr>"
  using sends_fields(4) [of bs s s'] unfolding sends_def by simp

lemma sends_acquired: "sends bs (acquired lk s) t \<Longrightarrow> \<exists>s'. t = acquired lk s' \<and> sends bs s s'"
proof (intro exI conjI)
  assume "sends bs (acquired lk s) t"
  then show "t = acquired lk (s\<lparr>uart_pos := uart_pos t, uart_w := map (Pair THR) (rev bs) @ uart_w s\<rparr>)"
    unfolding sends_def by (metis acquired_uart_state)
qed (simp add: sends_def)

lemma printk_sends:
  assumes "tx_ok L s" "PrLock \<notin> L" "CHR 0x00 \<notin> set fmt" "render fmt as = Some bs"
  shows "\<exists>s'. printk fmt as s e = (Ret 0, s', e) \<and> sends bs s s'"
proof -
  have c: "calm L s" using assms(1) by (simp add: tx_ok_def)
  show ?thesis
  proof (cases "panicking s")
    case True
    obtain s' where "printk_loop fmt as s e = (Ret (), s', e)" "sends bs s s'"
      using senderD [OF sender_printk_loop [OF assms(4,3)] assms(1)] by blast
    then show ?thesis using True sends_fields(2) by (fastforce simp: printk_def kbind_Ret kret_run)
  next
    case False
    have "tx_ok (insert PrLock L) (acquired PrLock s)"
      using assms(1) calm_acquired [OF c] by (simp add: tx_ok_def tx_live_def)
    from senderD [OF sender_printk_loop [OF assms(4,3)] this, of e] obtain t where
      t: "printk_loop fmt as (acquired PrLock s) e = (Ret (), t, e)" "sends bs (acquired PrLock s) t" by blast
    from sends_acquired [OF t(2)] obtain s' where s': "t = acquired PrLock s'" "sends bs s s'" by blast
    have c': "calm L s'" using s'(2) assms(1) sends_tx_ok by (fastforce simp: tx_ok_def)
    show ?thesis using t s' False sends_fields(2) [OF s'(2)]
      by (intro exI [of _ s']) (simp add: printk_def kbind_Ret kret_run acquire_calm [OF c assms(2)] release_calm [OF c' assms(2)])
  qed
qed

text \<open>
  C19: \<open>printint\<close> prints the numeral of its argument: a minus sign exactly for negative signed
  numbers, then the digits in the given base (10 or 16) whose value is the absolute value
  of the number, without a leading zero.  This includes the most negative number, and the
  characters fit into the local buffer of 20, so the stores \<open>buf[i++]\<close> stay inside it.
\<close>

theorem printint_correct:
  assumes "tx_ok L s" "b = 10 \<or> b = 16"
  shows "\<exists>s' ds. printint xx b sign s e = (Ret (), s', e) \<and>
    sent s' = sent s @ (if pr_value xx sign < 0 then [of_char CHR ''-''] else []) @ map (\<lambda>d. digits ! d) ds \<and>
    foldl (\<lambda>a d. a * unat b + d) 0 ds = nat \<bar>pr_value xx sign\<bar> \<and>
    list_all (\<lambda>d. d < unat b) ds \<and> (hd ds \<noteq> 0 \<or> pr_value xx sign = 0) \<and>
    length (sent s') \<le> length (sent s) + 20"
proof -
  let ?ds = "nat_digits (unat b) (nat \<bar>pr_value xx sign\<bar>)"
  have b: "2 \<le> unat b" "unat b = 10 \<or> unat b = 16" using assms(2) by auto
  obtain s' where r: "printint xx b sign s e = (Ret (), s', e)" and s': "sends (pr_numeral xx (unat b) sign) s s'"
    using senderD [OF sender_printint [OF assms(2)] assms(1)] by blast
  have "hd ?ds \<noteq> 0 \<or> pr_value xx sign = 0" using nat_digits_hd [OF b(1)] by fastforce
  moreover have "list_all (\<lambda>d. d < unat b) ?ds" using nat_digits_range [OF b(1)] by (auto simp: list_all_iff)
  moreover have "map digit ?ds = map (\<lambda>d. digits ! d) ?ds" by (simp add: digit_def)
  ultimately show ?thesis
    using r sends_sent [OF s'] pr_numeral_fits [OF b(2), of xx sign] nat_digits_value [of "unat b"]
    by (intro exI [of _ s'] exI [of _ ?ds]) (auto simp: pr_numeral_def)
qed

lemma printint_correct_witness:
  "(\<exists>s' ds. printint (- 45) 10 True calm_uart [] = (Ret (), s', []) \<and> foldl (\<lambda>a d. a * 10 + d) 0 ds = 45 \<and>
     sent s' = of_char CHR ''-'' # map (\<lambda>d. digits ! d) ds)"
  using printint_correct [of "{}" calm_uart 10 "- 45" True "[]"] by (auto simp: pr_value_def)

text \<open>
  C18: \<open>printk\<close> is equivalent to the reference rendering: for arguments that fit the format
  string it returns 0, puts exactly the bytes of \<open>render\<close> on the serial line, in order, and
  changes nothing else; the lock \<open>pr\<close> is free again.
\<close>

theorem printk_renders:
  assumes "tx_ok L s" "PrLock \<notin> L" "CHR 0x00 \<notin> set fmt" "render fmt as = Some bs"
  shows "\<exists>s'. printk fmt as s e = (Ret 0, s', e) \<and> sent s' = sent s @ bs \<and>
    s' = s\<lparr>uart_pos := uart_pos s', uart_w := uart_w s'\<rparr>"
proof -
  obtain s' where r: "printk fmt as s e = (Ret 0, s', e)" and s': "sends bs s s'" using printk_sends [OF assms] by blast
  show ?thesis by (intro exI [of _ s'] conjI r sends_sent [OF s'] sends_frame [OF s'])
qed

lemma printk_renders_witness:
  "\<exists>s'. printk ''pid %d: %s'' [ArgInt (- 1), ArgStr (Some [104, 105, 0, 7])] calm_uart [] = (Ret 0, s', []) \<and>
     sent s' = chars ''pid -1: hi''"
proof -
  have "as_int (- 1) = - 1" unfolding as_int_def by code_simp
  then have r: "render ''pid %d: %s'' [ArgInt (- 1), ArgStr (Some [104, 105, 0, 7])] = Some (chars ''pid -1: hi'')"
    by (simp add: num_dir_def num_dirs_def pr_numeral_def pr_value_def nat_digits_less digit_def digits_def chars_def)
  show ?thesis
    using printk_renders [of "{}" calm_uart _ _ _ "[]", OF _ _ _ r] by auto
qed

end
