(* ===== verification/Log.thy ===== *)
theory Log
  imports Virtio PrintkProps
begin

text \<open>
  The write-ahead log (\<open>kernel/log.c\<close>).  The log occupies the block \<open>start\<close> (the header: a count
  and the home block numbers) and the blocks after it.  Block numbers in the header are
  32-bit patterns.  A header count beyond \<open>LOGBLOCKS\<close> makes the C code access the array
  out of bounds; the model is \<open>Stuck\<close> there.
\<close>

section \<open>State\<close>

record log_state = virtio_state +
  log_start :: uint
  log_outstanding :: int
  log_committing :: bool
  log_dev :: uint
  log_ncommit :: int
  lh_n :: int
  lh_block :: "nat \<Rightarrow> uint"

record superblock =
  sb_magic :: uint
  sb_size :: uint
  sb_nblocks :: uint
  sb_ninodes :: uint
  sb_nlog :: uint
  sb_logstart :: uint
  sb_inodestart :: uint
  sb_bmapstart :: uint

abbreviation (input) BSIZE :: nat where "BSIZE \<equiv> 1024"

section \<open>Operations\<close>

definition set_data :: "nat \<Rightarrow> uchar list \<Rightarrow> 'a bio_state_scheme \<Rightarrow> 'a bio_state_scheme" where
  "set_data b bs s = set_buf b (\<lambda>x. x\<lparr>b_data := bs\<rparr>) s"

definition install_one :: "bool \<Rightarrow> nat \<Rightarrow> (unit, 'a log_state_scheme) K" where
  "install_one recovering tail =
     kbind (kget (\<lambda>s. lh_block s tail)) (\<lambda>dst.
     kbind (if recovering then
              printk (''recovering tail %d dst %d'' @ [CHR 0x0A]) [ArgInt (of_nat tail), ArgInt (ucast dst)]
            else kret 0) (\<lambda>_.
     kbind (kget (\<lambda>s. (log_dev s, log_start s))) (\<lambda>(dev, start).
     kbind (bread dev (start + of_nat tail + 1)) (\<lambda>lb.
     kbind (bread dev dst) (\<lambda>db.
     kbind (kmod (\<lambda>s. set_data db (b_data (bufs s lb)) s)) (\<lambda>_.
     kbind (bwrite db) (\<lambda>_.
     kbind (kwhen (\<not> recovering) (bunpin db)) (\<lambda>_.
     kbind (brelse lb) (\<lambda>_.
     brelse db)))))))))"

definition install_trans :: "bool \<Rightarrow> (unit, 'a log_state_scheme) K" where
  "install_trans recovering =
     kbind (kget lh_n) (\<lambda>n.
     if int LOGBLOCKS < n then kstuck else kfor [0..<nat n] (install_one recovering))"

text \<open>The header block: \<open>n\<close> at offset 0 and \<open>block[i]\<close> at offset \<open>4 + 4 * i\<close>.\<close>

definition head_n :: "uchar list \<Rightarrow> int" where
  "head_n bs = sint (get32 bs 0)"

definition head_block :: "uchar list \<Rightarrow> nat \<Rightarrow> uint" where
  "head_block bs i = get32 bs (4 + 4 * i)"

definition head_put :: "int \<Rightarrow> (nat \<Rightarrow> uint) \<Rightarrow> uchar list \<Rightarrow> uchar list" where
  "head_put n blk bs = foldl (\<lambda>bs i. put32 bs (4 + 4 * i) (blk i)) (put32 bs 0 (of_int n)) [0..<nat n]"

definition read_head :: "(unit, 'a log_state_scheme) K" where
  "read_head =
     kbind (kget (\<lambda>s. (log_dev s, log_start s))) (\<lambda>(dev, start).
     kbind (bread dev start) (\<lambda>b.
     kbind (kget (\<lambda>s. b_data (bufs s b))) (\<lambda>bs.
     kbind (kmod (\<lambda>s. s\<lparr>lh_n := head_n bs\<rparr>)) (\<lambda>_.
     if int LOGBLOCKS < head_n bs then kstuck
     else
       kbind (kfor [0..<nat (head_n bs)] (\<lambda>i. kmod (\<lambda>s. s\<lparr>lh_block := (lh_block s)(i := head_block bs i)\<rparr>))) (\<lambda>_.
       brelse b)))))"

definition write_head :: "(unit, 'a log_state_scheme) K" where
  "write_head =
     kbind (kget (\<lambda>s. (log_dev s, log_start s))) (\<lambda>(dev, start).
     kbind (bread dev start) (\<lambda>b.
     kbind (kmod (\<lambda>s. set_data b (head_put (lh_n s) (lh_block s) (b_data (bufs s b))) s)) (\<lambda>_.
     kbind (bwrite b) (\<lambda>_.
     brelse b))))"

definition recover_from_log :: "(unit, 'a log_state_scheme) K" where
  "recover_from_log = kseq [
     read_head,
     install_trans True,
     kmod (\<lambda>s. s\<lparr>lh_n := 0\<rparr>),
     write_head]"

text \<open>\<open>sizeof(struct logheader)\<close> is \<open>4 + 4 * LOGBLOCKS\<close>.\<close>

definition initlog :: "uint \<Rightarrow> superblock \<Rightarrow> (unit, 'a log_state_scheme) K" where
  "initlog dev sb =
     (if 4 + 4 * LOGBLOCKS \<ge> BSIZE then kpanic ''initlog: too big logheader''
      else kseq [
        initlock LogLock ''log'',
        kmod (\<lambda>s. s\<lparr>log_start := sb_logstart sb\<rparr>),
        kmod (\<lambda>s. s\<lparr>log_dev := dev\<rparr>),
        recover_from_log])"

definition log_sleep :: "(unit, 'a log_state_scheme) K" where
  "log_sleep = kseq [
     sleep_prepare (Some ChLog),
     release LogLock,
     sleep,
     acquire LogLock]"

definition begin_op :: "(unit, 'a log_state_scheme) K" where
  "begin_op =
     kbind (acquire LogLock) (\<lambda>_.
     kloop (\<lambda>_.
       kbind (kget (\<lambda>s. (log_committing s, lh_n s + (log_outstanding s + 1) * int MAXOPBLOCKS > int LOGBLOCKS))) (\<lambda>(busy, full).
       if busy then kbind log_sleep (\<lambda>_. kret (Inl ()))
       else if full then kbind log_sleep (\<lambda>_. kret (Inl ()))
       else
         kbind (kmod (\<lambda>s. s\<lparr>log_outstanding := log_outstanding s + 1\<rparr>)) (\<lambda>_.
         kbind (release LogLock) (\<lambda>_.
         kret (Inr ()))))) ())"

definition write_log_one :: "nat \<Rightarrow> (unit, 'a log_state_scheme) K" where
  "write_log_one tail =
     kbind (kget (\<lambda>s. (log_dev s, log_start s))) (\<lambda>(dev, start).
     kbind (bread dev (start + of_nat tail + 1)) (\<lambda>to.
     kbind (kget (\<lambda>s. lh_block s tail)) (\<lambda>src.
     kbind (bread dev src) (\<lambda>from.
     kbind (kmod (\<lambda>s. set_data to (b_data (bufs s from)) s)) (\<lambda>_.
     kbind (bwrite to) (\<lambda>_.
     kbind (brelse from) (\<lambda>_.
     brelse to)))))))"

definition write_log :: "(unit, 'a log_state_scheme) K" where
  "write_log = kbind (kget lh_n) (\<lambda>n. if int LOGBLOCKS < n then kstuck else kfor [0..<nat n] write_log_one)"

definition commit :: "(unit, 'a log_state_scheme) K" where
  "commit =
     kbind (kget lh_n) (\<lambda>n.
     kwhen (n > 0) (kseq [
       write_log,
       write_head,
       install_trans False,
       kmod (\<lambda>s. s\<lparr>lh_n := 0\<rparr>),
       write_head]))"

definition end_op :: "(unit, 'a log_state_scheme) K" where
  "end_op =
     kbind (acquire LogLock) (\<lambda>_.
     kbind (kmod (\<lambda>s. s\<lparr>log_outstanding := log_outstanding s - 1\<rparr>)) (\<lambda>_.
     kbind (kget (\<lambda>s. (log_committing s, log_outstanding s))) (\<lambda>(committing, outstanding).
     if committing then kpanic ''log.committing''
     else
       kbind (if outstanding = 0 then kmod (\<lambda>s. s\<lparr>log_committing := True\<rparr>) else wakeup ChLog) (\<lambda>_.
       kbind (release LogLock) (\<lambda>_.
       kwhen (outstanding = 0) (kseq [
         commit,
         acquire LogLock,
         kmod (\<lambda>s. s\<lparr>log_committing := False\<rparr>),
         kmod (\<lambda>s. s\<lparr>log_ncommit := log_ncommit s + 1\<rparr>),
         wakeup ChLog,
         release LogLock]))))))"

text \<open>The index of the block in the header, or \<open>n\<close>.\<close>

definition log_index :: "int \<Rightarrow> (nat \<Rightarrow> uint) \<Rightarrow> uint \<Rightarrow> nat" where
  "log_index n blk b = length (takeWhile (\<lambda>i. blk i \<noteq> b) [0..<nat n])"

definition log_write :: "nat \<Rightarrow> (unit, 'a log_state_scheme) K" where
  "log_write b =
     kbind (acquire LogLock) (\<lambda>_.
     kbind (kget (\<lambda>s. (lh_n s, log_outstanding s, lh_block s, b_blockno (bufs s b)))) (\<lambda>(n, outstanding, blk, no).
     if n \<ge> int LOGBLOCKS then kpanic ''too big a transaction''
     else if outstanding < 1 then kpanic ''log_write outside of trans''
     else
       (let i = log_index n blk no in
        kbind (kmod (\<lambda>s. s\<lparr>lh_block := (lh_block s)(i := no)\<rparr>)) (\<lambda>_.
        kbind (kwhen (int i = n) (kseq [
          bpin b,
          kmod (\<lambda>s. s\<lparr>lh_n := lh_n s + 1\<rparr>)])) (\<lambda>_.
        release LogLock)))))"

definition sys_sync :: "(uint64, 'a log_state_scheme) K" where
  "sys_sync =
     kbind (acquire LogLock) (\<lambda>_.
     kbind (kget (\<lambda>s. log_committing s \<or> log_outstanding s > 0)) (\<lambda>b.
     kbind (kwhen b (
       kbind (kget (\<lambda>s. log_ncommit s + 1)) (\<lambda>n.
       kloop (\<lambda>_.
         kbind (kget (\<lambda>s. log_ncommit s < n)) (\<lambda>w.
         if w then kbind log_sleep (\<lambda>_. kret (Inl ())) else kret (Inr ()))) ()))) (\<lambda>_.
     kbind (release LogLock) (\<lambda>_.
     kret 0))))"

end
