(* ===== verification/Fs.thy ===== *)
theory Fs
  imports Log
begin

unbundle bit_operations_syntax

text \<open>
  The file system (\<open>kernel/fs.c\<close>): block bitmap, inodes, file contents, directories and
  path names, over the buffer cache and the log.  In-memory inodes are entries of a table;
  a pointer that its callers have tested is an index.  File names and paths are the bytes
  before the terminator.
\<close>

section \<open>State\<close>

record inode =
  i_dev :: uint
  i_inum :: uint
  i_ref :: int
  i_valid :: bool
  i_type :: ushort
  i_major :: ushort
  i_minor :: ushort
  i_nlink :: ushort
  i_size :: uint
  i_addrs :: "nat \<Rightarrow> uint"

record dinode =
  d_type :: ushort
  d_major :: ushort
  d_minor :: ushort
  d_nlink :: ushort
  d_size :: uint
  d_addrs :: "nat \<Rightarrow> uint"

record fs_state = log_state +
  sb :: superblock
  inodes :: "nat \<Rightarrow> inode"

abbreviation (input) ROOTINO :: uint where "ROOTINO \<equiv> 1"
abbreviation (input) FSMAGIC :: uint where "FSMAGIC \<equiv> 0x10203040"
abbreviation (input) NDIRECT :: nat where "NDIRECT \<equiv> 12"
abbreviation (input) NINDIRECT :: nat where "NINDIRECT \<equiv> 256"
abbreviation (input) MAXFILE :: nat where "MAXFILE \<equiv> 268"
abbreviation (input) IPB :: uint where "IPB \<equiv> 16"
abbreviation (input) BPB :: uint where "BPB \<equiv> 8192"
abbreviation (input) DIRSIZ :: nat where "DIRSIZ \<equiv> 14"
abbreviation (input) T_DIR :: ushort where "T_DIR \<equiv> 1"
abbreviation (input) T_FILE :: ushort where "T_FILE \<equiv> 2"
abbreviation (input) T_DEVICE :: ushort where "T_DEVICE \<equiv> 3"

definition IBLOCK :: "uint \<Rightarrow> superblock \<Rightarrow> uint" where
  "IBLOCK i x = i div IPB + sb_inodestart x"

definition BBLOCK :: "uint \<Rightarrow> superblock \<Rightarrow> uint" where
  "BBLOCK b x = b div BPB + sb_bmapstart x"

abbreviation (input) set_inode :: "nat \<Rightarrow> (inode \<Rightarrow> inode) \<Rightarrow> 'a fs_state_scheme \<Rightarrow> 'a fs_state_scheme" where
  "set_inode ip f s \<equiv> s\<lparr>inodes := (inodes s)(ip := f (inodes s ip))\<rparr>"

text \<open>\<open>struct dinode\<close> in a block: 64 bytes, the fields in order.\<close>

definition get_dinode :: "uchar list \<Rightarrow> nat \<Rightarrow> dinode" where
  "get_dinode bs k =
     \<lparr>d_type = get16 bs (64 * k), d_major = get16 bs (64 * k + 2), d_minor = get16 bs (64 * k + 4),
      d_nlink = get16 bs (64 * k + 6), d_size = get32 bs (64 * k + 8),
      d_addrs = (\<lambda>i. get32 bs (64 * k + 12 + 4 * i))\<rparr>"

definition put_dinode :: "uchar list \<Rightarrow> nat \<Rightarrow> dinode \<Rightarrow> uchar list" where
  "put_dinode bs k d =
     put_at bs (64 * k) (bytes_of 2 (d_type d) @ bytes_of 2 (d_major d) @ bytes_of 2 (d_minor d) @
       bytes_of 2 (d_nlink d) @ bytes_of 4 (d_size d) @ concat (map (\<lambda>i. bytes_of 4 (d_addrs d i)) [0..<13]))"

definition get_sb :: "uchar list \<Rightarrow> superblock" where
  "get_sb bs =
     \<lparr>sb_magic = get32 bs 0, sb_size = get32 bs 4, sb_nblocks = get32 bs 8, sb_ninodes = get32 bs 12,
      sb_nlog = get32 bs 16, sb_logstart = get32 bs 20, sb_inodestart = get32 bs 24, sb_bmapstart = get32 bs 28\<rparr>"

section \<open>Blocks\<close>

definition readsb :: "uint \<Rightarrow> (superblock, 'a fs_state_scheme) K" where
  "readsb dev =
     kbind (bread dev 1) (\<lambda>bp.
     kbind (kget (\<lambda>s. get_sb (b_data (bufs s bp)))) (\<lambda>x.
     kbind (brelse bp) (\<lambda>_.
     kret x)))"

definition bzero :: "uint \<Rightarrow> uint \<Rightarrow> (unit, 'a fs_state_scheme) K" where
  "bzero dev bno =
     kbind (bread dev bno) (\<lambda>bp.
     kseq [
       kmod (set_data bp (replicate BSIZE 0)),
       log_write bp,
       brelse bp])"

definition bmask :: "nat \<Rightarrow> uchar" where
  "bmask bi = push_bit (bi mod 8) 1"

text \<open>The scan of one bitmap block for a clear bit of a block below \<open>lim\<close>.\<close>

definition free_bit :: "uchar list \<Rightarrow> uint \<Rightarrow> uint \<Rightarrow> nat option" where
  "free_bit data b lim =
     List.find (\<lambda>bi. data ! (bi div 8) AND bmask bi = 0) (takeWhile (\<lambda>bi. b + of_nat bi < lim) [0..<unat BPB])"

definition balloc_round :: "uint \<Rightarrow> uint \<Rightarrow> (uint + uint, 'a fs_state_scheme) K" where
  "balloc_round dev b =
     kbind (kget sb) (\<lambda>sb.
     if \<not> b < sb_size sb then
       kbind (printk (''balloc: out of blocks'' @ [CHR 0x0A]) []) (\<lambda>_. kret (Inr 0))
     else
       kbind (bread dev (BBLOCK b sb)) (\<lambda>bp.
       kbind (kget (\<lambda>s. b_data (bufs s bp))) (\<lambda>data.
       case free_bit data b (sb_size sb) of
         Some bi \<Rightarrow>
           kbind (kseq [
             kmod (set_data bp (data[bi div 8 := data ! (bi div 8) OR bmask bi])),
             log_write bp,
             brelse bp,
             bzero dev (b + of_nat bi)]) (\<lambda>_.
           kret (Inr (b + of_nat bi)))
       | None \<Rightarrow> kbind (brelse bp) (\<lambda>_. kret (Inl (b + BPB))))))"

definition balloc :: "uint \<Rightarrow> (uint, 'a fs_state_scheme) K" where
  "balloc dev = kloop (balloc_round dev) 0"

definition bfree :: "uint \<Rightarrow> uint \<Rightarrow> (unit, 'a fs_state_scheme) K" where
  "bfree dev b =
     kbind (kget sb) (\<lambda>sb.
     kbind (bread dev (BBLOCK b sb)) (\<lambda>bp.
     kbind (kget (\<lambda>s. b_data (bufs s bp))) (\<lambda>data.
     let bi = unat (b mod BPB) in
     if data ! (bi div 8) AND bmask bi = 0 then kpanic ''freeing free block''
     else kseq [
       kmod (set_data bp (data[bi div 8 := data ! (bi div 8) AND NOT (bmask bi)])),
       log_write bp,
       brelse bp])))"

section \<open>Inodes\<close>

definition iinit :: "(unit, 'a fs_state_scheme) K" where
  "iinit = kseq [
     initlock ItableLock ''itable'',
     kfor [0..<NINODE] (\<lambda>i. initsleeplock (InodeSl i) ''inode'')]"

definition iget :: "uint \<Rightarrow> uint \<Rightarrow> (nat, 'a fs_state_scheme) K" where
  "iget dev inum =
     kbind (acquire ItableLock) (\<lambda>_.
     kbind (kget inodes) (\<lambda>tab.
     case List.find (\<lambda>i. i_ref (tab i) > 0 \<and> i_dev (tab i) = dev \<and> i_inum (tab i) = inum) [0..<NINODE] of
       Some ip \<Rightarrow>
         kbind (kmod (set_inode ip (\<lambda>x. x\<lparr>i_ref := i_ref x + 1\<rparr>))) (\<lambda>_.
         kbind (release ItableLock) (\<lambda>_.
         kret ip))
     | None \<Rightarrow>
         (case List.find (\<lambda>i. i_ref (tab i) = 0) [0..<NINODE] of
            None \<Rightarrow> kpanic ''iget: no inodes''
          | Some ip \<Rightarrow>
              kbind (kmod (set_inode ip (\<lambda>x. x\<lparr>i_dev := dev, i_inum := inum, i_ref := 1, i_valid := False\<rparr>))) (\<lambda>_.
              kbind (release ItableLock) (\<lambda>_.
              kret ip)))))"

definition ialloc :: "uint \<Rightarrow> ushort \<Rightarrow> (nat option, 'a fs_state_scheme) K" where
  "ialloc dev type =
     kloop (\<lambda>inum.
       kbind (kget sb) (\<lambda>sb.
       if \<not> inum < sb_ninodes sb then
         kbind (printk (''ialloc: no inodes'' @ [CHR 0x0A]) []) (\<lambda>_. kret (Inr None))
       else
         kbind (bread dev (IBLOCK inum sb)) (\<lambda>bp.
         kbind (kget (\<lambda>s. b_data (bufs s bp))) (\<lambda>data.
         let k = unat (inum mod IPB) in
         if d_type (get_dinode data k) = 0 then
           kbind (kseq [
             kmod (set_data bp (put16 (put_at data (64 * k) (replicate 64 0)) (64 * k) type)),
             log_write bp,
             brelse bp]) (\<lambda>_.
           kbind (iget dev inum) (\<lambda>ip.
           kret (Inr (Some ip))))
         else kbind (brelse bp) (\<lambda>_. kret (Inl (inum + 1))))))) 1"

definition dinode_of :: "inode \<Rightarrow> dinode" where
  "dinode_of x = \<lparr>d_type = i_type x, d_major = i_major x, d_minor = i_minor x, d_nlink = i_nlink x,
     d_size = i_size x, d_addrs = i_addrs x\<rparr>"

definition load_dinode :: "dinode \<Rightarrow> inode \<Rightarrow> inode" where
  "load_dinode d x = x\<lparr>i_type := d_type d, i_major := d_major d, i_minor := d_minor d, i_nlink := d_nlink d,
     i_size := d_size d, i_addrs := d_addrs d\<rparr>"

definition iupdate :: "nat \<Rightarrow> (unit, 'a fs_state_scheme) K" where
  "iupdate ip =
     kbind (kget (\<lambda>s. (inodes s ip, sb s))) (\<lambda>(x, sb).
     kbind (bread (i_dev x) (IBLOCK (i_inum x) sb)) (\<lambda>bp.
     kseq [
       kmod (\<lambda>s. set_data bp (put_dinode (b_data (bufs s bp)) (unat (i_inum x mod IPB)) (dinode_of x)) s),
       log_write bp,
       brelse bp]))"

definition idup :: "nat \<Rightarrow> (nat, 'a fs_state_scheme) K" where
  "idup ip =
     kbind (acquire ItableLock) (\<lambda>_.
     kbind (kmod (set_inode ip (\<lambda>x. x\<lparr>i_ref := i_ref x + 1\<rparr>))) (\<lambda>_.
     kbind (release ItableLock) (\<lambda>_.
     kret ip)))"

definition ilock :: "nat \<Rightarrow> (unit, 'a fs_state_scheme) K" where
  "ilock ip =
     kbind (kget (\<lambda>s. i_ref (inodes s ip))) (\<lambda>ref.
     if ref < 1 then kpanic ''ilock''
     else
       kbind (acquiresleep (InodeSl ip)) (\<lambda>_.
       kbind (kget (\<lambda>s. (inodes s ip, sb s))) (\<lambda>(x, sb).
       if i_valid x then kret ()
       else
         kbind (bread (i_dev x) (IBLOCK (i_inum x) sb)) (\<lambda>bp.
         kbind (kget (\<lambda>s. get_dinode (b_data (bufs s bp)) (unat (i_inum x mod IPB)))) (\<lambda>d.
         kbind (kmod (set_inode ip (load_dinode d))) (\<lambda>_.
         kbind (brelse bp) (\<lambda>_.
         kbind (kmod (set_inode ip (\<lambda>x. x\<lparr>i_valid := True\<rparr>))) (\<lambda>_.
         if d_type d = 0 then kpanic ''ilock: no type'' else kret ()))))))))"

definition iunlock :: "nat \<Rightarrow> (unit, 'a fs_state_scheme) K" where
  "iunlock ip =
     kbind (holdingsleep (InodeSl ip)) (\<lambda>h.
     kbind (kget (\<lambda>s. i_ref (inodes s ip))) (\<lambda>ref.
     if \<not> h \<or> ref < 1 then kpanic ''iunlock'' else releasesleep (InodeSl ip)))"

definition ifree :: "uint \<Rightarrow> uint \<Rightarrow> (unit, 'a fs_state_scheme) K" where
  "ifree dev inum =
     kbind (kget sb) (\<lambda>sb.
     kbind (bread dev (IBLOCK inum sb)) (\<lambda>bp.
     kseq [
       kmod (\<lambda>s. set_data bp (put16 (b_data (bufs s bp)) (64 * unat (inum mod IPB)) 0) s),
       log_write bp,
       brelse bp]))"

section \<open>File contents\<close>

definition bmap_alloc :: "uint \<Rightarrow> (uint \<Rightarrow> 'a fs_state_scheme \<Rightarrow> 'a fs_state_scheme) \<Rightarrow> uint \<Rightarrow> (uint, 'a fs_state_scheme) K" where
  "bmap_alloc dev store addr =
     (if addr \<noteq> 0 then kret addr
      else kbind (balloc dev) (\<lambda>addr.
        if addr = 0 then kret 0 else kbind (kmod (store addr)) (\<lambda>_. kret addr)))"

definition bmap :: "nat \<Rightarrow> uint \<Rightarrow> (uint, 'a fs_state_scheme) K" where
  "bmap ip bn =
     kbind (kget (\<lambda>s. inodes s ip)) (\<lambda>x.
     if unat bn < NDIRECT then
       bmap_alloc (i_dev x) (\<lambda>a. set_inode ip (\<lambda>y. y\<lparr>i_addrs := (i_addrs y)(unat bn := a)\<rparr>)) (i_addrs x (unat bn))
     else if unat bn - NDIRECT < NINDIRECT then
       kbind (bmap_alloc (i_dev x) (\<lambda>a. set_inode ip (\<lambda>y. y\<lparr>i_addrs := (i_addrs y)(NDIRECT := a)\<rparr>)) (i_addrs x NDIRECT)) (\<lambda>addr.
       if addr = 0 then kret 0
       else
         (let o4 = 4 * (unat bn - NDIRECT) in
          kbind (bread (i_dev x) addr) (\<lambda>bp.
          kbind (kget (\<lambda>s. get32 (b_data (bufs s bp)) o4)) (\<lambda>a.
          kbind (if a \<noteq> 0 then kret a
                 else kbind (balloc (i_dev x)) (\<lambda>a.
                   kbind (kwhen (a \<noteq> 0) (kseq [
                     kmod (\<lambda>s. set_data bp (put32 (b_data (bufs s bp)) o4 a) s),
                     log_write bp])) (\<lambda>_.
                   kret a))) (\<lambda>a.
          kbind (brelse bp) (\<lambda>_.
          kret a))))))
     else kpanic ''bmap: out of range'')"

definition itrunc :: "nat \<Rightarrow> (unit, 'a fs_state_scheme) K" where
  "itrunc ip =
     kbind (kfor [0..<NDIRECT] (\<lambda>i.
       kbind (kget (\<lambda>s. inodes s ip)) (\<lambda>x.
       kwhen (i_addrs x i \<noteq> 0) (kseq [
         bfree (i_dev x) (i_addrs x i),
         kmod (set_inode ip (\<lambda>y. y\<lparr>i_addrs := (i_addrs y)(i := 0)\<rparr>))])))) (\<lambda>_.
     kbind (kget (\<lambda>s. inodes s ip)) (\<lambda>x.
     kbind (kwhen (i_addrs x NDIRECT \<noteq> 0) (
       kbind (bread (i_dev x) (i_addrs x NDIRECT)) (\<lambda>bp.
       kseq [
         kfor [0..<NINDIRECT] (\<lambda>j.
           kbind (kget (\<lambda>s. get32 (b_data (bufs s bp)) (4 * j))) (\<lambda>a.
           kwhen (a \<noteq> 0) (bfree (i_dev x) a))),
         brelse bp,
         bfree (i_dev x) (i_addrs x NDIRECT),
         kmod (set_inode ip (\<lambda>y. y\<lparr>i_addrs := (i_addrs y)(NDIRECT := 0)\<rparr>))]))) (\<lambda>_.
     kseq [
       kmod (set_inode ip (\<lambda>y. y\<lparr>i_size := 0\<rparr>)),
       iupdate ip])))"

definition iput :: "nat \<Rightarrow> (unit, 'a fs_state_scheme) K" where
  "iput ip =
     kbind (acquire ItableLock) (\<lambda>_.
     kbind (kget (\<lambda>s. inodes s ip)) (\<lambda>x.
     let lst = (i_ref x = 1 \<and> i_valid x \<and> i_nlink x = 0) in
     kbind (kwhen lst (kseq [
       acquiresleep (InodeSl ip),
       release ItableLock,
       itrunc ip,
       kmod (set_inode ip (\<lambda>y. y\<lparr>i_valid := False\<rparr>)),
       releasesleep (InodeSl ip),
       acquire ItableLock])) (\<lambda>_.
     kbind (kmod (set_inode ip (\<lambda>y. y\<lparr>i_ref := i_ref y - 1\<rparr>))) (\<lambda>_.
     kbind (release ItableLock) (\<lambda>_.
     kwhen lst (ifree (i_dev x) (i_inum x)))))))"

definition iunlockput :: "nat \<Rightarrow> (unit, 'a fs_state_scheme) K" where
  "iunlockput ip = kseq [iunlock ip, iput ip]"

definition ireclaim_one :: "uint \<Rightarrow> uint \<Rightarrow> (unit, 'a fs_state_scheme) K" where
  "ireclaim_one dev inum =
     kbind (kget sb) (\<lambda>sb.
     kbind (bread dev (IBLOCK inum sb)) (\<lambda>bp.
     kbind (kget (\<lambda>s. get_dinode (b_data (bufs s bp)) (unat (inum mod IPB)))) (\<lambda>d.
     kbind (if d_type d \<noteq> 0 \<and> d_nlink d = 0 then
              kbind (printk (''ireclaim: orphaned inode %d'' @ [CHR 0x0A]) [ArgInt (ucast inum)]) (\<lambda>_.
              kbind (iget dev inum) (\<lambda>ip. kret (Some ip)))
            else kret None) (\<lambda>r.
     kbind (brelse bp) (\<lambda>_.
     case r of None \<Rightarrow> kret () | Some ip \<Rightarrow> kseq [begin_op, ilock ip, iunlock ip, iput ip, end_op])))))"

definition ireclaim :: "uint \<Rightarrow> (unit, 'a fs_state_scheme) K" where
  "ireclaim dev =
     kloop (\<lambda>inum.
       kbind (kget sb) (\<lambda>sb.
       if inum < sb_ninodes sb then kbind (ireclaim_one dev inum) (\<lambda>_. kret (Inl (inum + 1)))
       else kret (Inr ()))) 1"

definition fsinit :: "uint \<Rightarrow> (unit, 'a fs_state_scheme) K" where
  "fsinit dev =
     kbind (readsb dev) (\<lambda>x.
     kbind (kmod (\<lambda>s. s\<lparr>sb := x\<rparr>)) (\<lambda>_.
     if sb_magic x \<noteq> FSMAGIC then kpanic ''invalid file system''
     else kseq [initlog dev x, ireclaim dev]))"

text \<open>
  \<open>struct stat\<close> is a local variable of the caller, at offset 0 of the local buffer: \<open>dev\<close>, \<open>ino\<close>,
  \<open>type\<close>, \<open>nlink\<close>, four bytes of padding that nobody writes, and \<open>size\<close>.
\<close>

definition stati :: "nat \<Rightarrow> (unit, 'a fs_state_scheme) K" where
  "stati ip = kmod (\<lambda>s. let x = inodes s ip in
     s\<lparr>lbuf := overlay (overlay (lbuf s) 0
        (bytes_of 4 (i_dev x) @ bytes_of 4 (i_inum x) @ bytes_of 2 (i_type x) @ bytes_of 2 (i_nlink x)))
        16 (bytes_of 8 (ucast (i_size x) :: uint64))\<rparr>)"

definition chunk :: "uint \<Rightarrow> uint \<Rightarrow> uint \<Rightarrow> uint" where
  "chunk n tot off = (if n - tot < of_nat BSIZE - off mod of_nat BSIZE then n - tot else of_nat BSIZE - off mod of_nat BSIZE)"

definition readi_round :: "nat \<Rightarrow> uint \<Rightarrow> uint \<times> uint \<times> dst \<Rightarrow> ((uint \<times> uint \<times> dst) + uint, 'a fs_state_scheme) K" where
  "readi_round ip n = (\<lambda>(tot, off, dst).
     if \<not> tot < n then kret (Inr tot)
     else
       kbind (bmap ip (off div of_nat BSIZE)) (\<lambda>addr.
       if addr = 0 then kret (Inr tot)
       else
         kbind (kget (\<lambda>s. i_dev (inodes s ip))) (\<lambda>dev.
         kbind (bread dev addr) (\<lambda>bp.
         kbind (kget (\<lambda>s. b_data (bufs s bp))) (\<lambda>data.
         let m = chunk n tot off in
         kbind (either_copyout dst (slice data (unat (off mod of_nat BSIZE)) (unat m))) (\<lambda>r.
         kbind (brelse bp) (\<lambda>_.
         if r = - 1 then kret (Inr (- 1))
         else kret (Inl (tot + m, off + m, dst_add dst (unat m))))))))))"

definition readi :: "nat \<Rightarrow> dst \<Rightarrow> uint \<Rightarrow> uint \<Rightarrow> (int, 'a fs_state_scheme) K" where
  "readi ip dst off n =
     kbind (kget (\<lambda>s. i_size (inodes s ip))) (\<lambda>size.
     if off > size \<or> off + n < off then kret 0
     else
       kbind (kloop (readi_round ip (if off + n > size then size - off else n)) (0, off, dst)) (\<lambda>tot.
       kret (sint tot)))"

definition writei_round :: "nat \<Rightarrow> uint \<Rightarrow> uint \<times> uint \<times> src \<Rightarrow> ((uint \<times> uint \<times> src) + uint \<times> uint, 'a fs_state_scheme) K" where
  "writei_round ip n = (\<lambda>(tot, off, src).
     if \<not> tot < n then kret (Inr (tot, off))
     else
       kbind (bmap ip (off div of_nat BSIZE)) (\<lambda>addr.
       if addr = 0 then kret (Inr (tot, off))
       else
         kbind (kget (\<lambda>s. i_dev (inodes s ip))) (\<lambda>dev.
         kbind (bread dev addr) (\<lambda>bp.
         let m = chunk n tot off in
         kbind (either_copyin src (unat m)) (\<lambda>(r, bs).
         kbind (kseq [
           kmod (\<lambda>s. set_data bp (put_at (b_data (bufs s bp)) (unat (off mod of_nat BSIZE)) bs) s),
           log_write bp,
           brelse bp]) (\<lambda>_.
         if r = - 1 then kret (Inr (tot, off))
         else kret (Inl (tot + m, off + m, src_add src (unat m)))))))))"

definition writei :: "nat \<Rightarrow> src \<Rightarrow> uint \<Rightarrow> uint \<Rightarrow> (int, 'a fs_state_scheme) K" where
  "writei ip src off n =
     kbind (kget (\<lambda>s. i_size (inodes s ip))) (\<lambda>size.
     if off > size \<or> off + n < off then kret (- 1)
     else if off + n > of_nat (MAXFILE * BSIZE) then kret (- 1)
     else
       kbind (kloop (writei_round ip n) (0, off, src)) (\<lambda>(tot, off).
       kbind (kmod (set_inode ip (\<lambda>y. if off > i_size y then y\<lparr>i_size := off\<rparr> else y))) (\<lambda>_.
       kbind (iupdate ip) (\<lambda>_.
       kret (sint tot)))))"

section \<open>Directories\<close>

definition namecmp :: "uchar list \<Rightarrow> uchar list \<Rightarrow> int" where
  "namecmp t u = strncmp (rd t) (rd u) DIRSIZ"

text \<open>\<open>struct dirent\<close>: a 16-bit inode number and 14 bytes of name, in the local buffer.\<close>

definition de_inum :: "(nat \<Rightarrow> uchar) \<Rightarrow> ushort" where
  "de_inum lb = of_bytes (map lb [0..<2])"

definition de_name :: "(nat \<Rightarrow> uchar) \<Rightarrow> uchar list" where
  "de_name lb = map lb [2..<16]"

definition dirlookup_round :: "nat \<Rightarrow> uchar list \<Rightarrow> uint \<Rightarrow> (uint + (nat \<times> uint) option, 'a fs_state_scheme) K" where
  "dirlookup_round dp name off =
     kbind (kget (\<lambda>s. i_size (inodes s dp))) (\<lambda>size.
     if \<not> off < size then kret (Inr None)
     else
       kbind (readi dp (DstLocal 0) off 16) (\<lambda>r.
       if r \<noteq> 16 then kpanic ''dirlookup read''
       else
         kbind (kget (\<lambda>s. (de_inum (lbuf s), de_name (lbuf s)))) (\<lambda>(inum, nm).
         if inum = 0 then kret (Inl (off + 16))
         else if namecmp name nm = 0 then
           kbind (kget (\<lambda>s. i_dev (inodes s dp))) (\<lambda>dev.
           kbind (iget dev (ucast inum)) (\<lambda>ip. kret (Inr (Some (ip, off)))))
         else kret (Inl (off + 16)))))"

definition dirlookup :: "nat \<Rightarrow> uchar list \<Rightarrow> ((nat \<times> uint) option, 'a fs_state_scheme) K" where
  "dirlookup dp name =
     kbind (kget (\<lambda>s. inodes s dp)) (\<lambda>x.
     if i_type x \<noteq> T_DIR then kpanic ''dirlookup not DIR''
     else kloop (dirlookup_round dp name) 0)"

definition dirlink_slot_round :: "nat \<Rightarrow> uint \<Rightarrow> (uint + uint, 'a fs_state_scheme) K" where
  "dirlink_slot_round dp off =
     kbind (kget (\<lambda>s. i_size (inodes s dp))) (\<lambda>size.
     if \<not> off < size then kret (Inr off)
     else
       kbind (readi dp (DstLocal 0) off 16) (\<lambda>r.
       if r \<noteq> 16 then kpanic ''dirlink read''
       else
         kbind (kget (\<lambda>s. de_inum (lbuf s))) (\<lambda>inum.
         if inum = 0 then kret (Inr off) else kret (Inl (off + 16)))))"

definition dirlink_slot :: "nat \<Rightarrow> (uint, 'a fs_state_scheme) K" where
  "dirlink_slot dp = kloop (dirlink_slot_round dp) 0"

definition dirlink :: "nat \<Rightarrow> uchar list \<Rightarrow> uint \<Rightarrow> (int, 'a fs_state_scheme) K" where
  "dirlink dp name inum =
     kbind (dirlookup dp name) (\<lambda>r.
     case r of
       Some (ip, _) \<Rightarrow> kbind (iput ip) (\<lambda>_. kret (- 1))
     | None \<Rightarrow>
         kbind (dirlink_slot dp) (\<lambda>off.
         let de = bytes_of 2 (ucast inum :: ushort) @ strncpy_bytes (rd name) DIRSIZ in
         kbind (writei dp (SrcKern de) off 16) (\<lambda>r.
         kret (if r \<noteq> 16 then - 1 else 0))))"

section \<open>Path names\<close>

definition is_slash :: "uchar \<Rightarrow> bool" where
  "is_slash c \<longleftrightarrow> c = 47"

definition skipelem :: "uchar list \<Rightarrow> (uchar list \<times> uchar list) option" where
  "skipelem path =
     (let p = dropWhile is_slash path in
      if p = [] then None
      else
        let w = takeWhile (\<lambda>c. \<not> is_slash c) p;
            name = (if length w \<ge> DIRSIZ then take DIRSIZ w else w);
            p = dropWhile (\<lambda>c. \<not> is_slash c) p
        in Some (dropWhile is_slash p, name))"

definition namex_round :: "bool \<Rightarrow> nat \<times> uchar list \<times> uchar list \<Rightarrow>
    (nat \<times> uchar list \<times> uchar list + (nat \<times> uchar list) option, 'a fs_state_scheme) K" where
  "namex_round par = (\<lambda>(ip, path, name).
     case skipelem path of
       None \<Rightarrow>
         if par then kbind (iput ip) (\<lambda>_. kret (Inr None)) else kret (Inr (Some (ip, name)))
     | Some (path, name) \<Rightarrow>
         kbind (ilock ip) (\<lambda>_.
         kbind (kget (\<lambda>s. inodes s ip)) (\<lambda>x.
         if i_type x \<noteq> T_DIR then kbind (iunlockput ip) (\<lambda>_. kret (Inr None))
         else if i_nlink x = 0 then kbind (iunlockput ip) (\<lambda>_. kret (Inr None))
         else if par \<and> path = [] then kbind (iunlock ip) (\<lambda>_. kret (Inr (Some (ip, name))))
         else
           kbind (dirlookup ip name) (\<lambda>r.
           kbind (iunlockput ip) (\<lambda>_.
           case r of None \<Rightarrow> kret (Inr None) | Some (nxt, _) \<Rightarrow> kret (Inl (nxt, path, name)))))))"

definition namex :: "uchar list \<Rightarrow> bool \<Rightarrow> ((nat \<times> uchar list) option, 'a fs_state_scheme) K" where
  "namex path par =
     kbind (if path \<noteq> [] \<and> is_slash (hd path) then iget ROOTDEV ROOTINO
            else with_myproc (\<lambda>p.
              kbind (kget (\<lambda>s. p_cwd (procs s p))) (\<lambda>cwd.
              case cwd of None \<Rightarrow> kpanic ''kerneltrap'' | Some ip \<Rightarrow> idup ip))) (\<lambda>ip.
     kloop (namex_round par) (ip, path, []))"

definition namei :: "uchar list \<Rightarrow> (nat option, 'a fs_state_scheme) K" where
  "namei path = kbind (namex path False) (\<lambda>r. kret (map_option fst r))"

definition nameiparent :: "uchar list \<Rightarrow> ((nat \<times> uchar list) option, 'a fs_state_scheme) K" where
  "nameiparent path = namex path True"

end
