(* ===== verification/File.thy ===== *)
theory File
  imports Fs
begin

text \<open>
  Open files (\<open>kernel/file.c\<close>) and pipes (\<open>kernel/pipe.c\<close>).  A \<open>struct pipe\<close> occupies a page that
  \<open>kalloc\<close> returned; the store \<open>pipes\<close> holds its fields under the address of the page.
\<close>

section \<open>State\<close>

datatype ftype = FD_NONE | FD_PIPE | FD_INODE | FD_DEVICE

record ofile =
  f_type :: ftype
  f_ref :: int
  f_readable :: bool
  f_writable :: bool
  f_pipe :: uint64
  f_ip :: nat
  f_off :: uint
  f_major :: ushort

record pipe =
  pi_data :: "nat \<Rightarrow> uchar"
  pi_nread :: uint
  pi_nwrite :: uint
  pi_readopen :: bool
  pi_writeopen :: bool

record file_state = fs_state +
  files :: "nat \<Rightarrow> ofile"
  pipes :: "uint64 \<Rightarrow> pipe"

abbreviation (input) PIPESIZE :: uint where "PIPESIZE \<equiv> 512"

abbreviation (input) set_file :: "nat \<Rightarrow> (ofile \<Rightarrow> ofile) \<Rightarrow> 'a file_state_scheme \<Rightarrow> 'a file_state_scheme" where
  "set_file f g s \<equiv> s\<lparr>files := (files s)(f := g (files s f))\<rparr>"

abbreviation (input) set_pipe :: "uint64 \<Rightarrow> (pipe \<Rightarrow> pipe) \<Rightarrow> 'a file_state_scheme \<Rightarrow> 'a file_state_scheme" where
  "set_pipe p g s \<equiv> s\<lparr>pipes := (pipes s)(p := g (pipes s p))\<rparr>"

section \<open>Pipes\<close>

text \<open>The statements \<open>data[nwrite++ % PIPESIZE] = ch\<close>, and \<open>data[nread % PIPESIZE]\<close> with \<open>nread++\<close>.\<close>

definition pipe_put :: "uchar \<Rightarrow> pipe \<Rightarrow> pipe" where
  "pipe_put ch pi = pi\<lparr>pi_data := (pi_data pi)(unat (pi_nwrite pi mod PIPESIZE) := ch), pi_nwrite := pi_nwrite pi + 1\<rparr>"

definition pipe_peek :: "pipe \<Rightarrow> uchar" where
  "pipe_peek pi = pi_data pi (unat (pi_nread pi mod PIPESIZE))"

definition pipe_drop :: "pipe \<Rightarrow> pipe" where
  "pipe_drop pi = pi\<lparr>pi_nread := pi_nread pi + 1\<rparr>"

definition pipeclose :: "uint64 \<Rightarrow> bool \<Rightarrow> (unit, 'a file_state_scheme) K" where
  "pipeclose pi writable =
     kbind (acquire (PipeLock pi)) (\<lambda>_.
     kbind (if writable then kseq [
              kmod (set_pipe pi (\<lambda>p. p\<lparr>pi_writeopen := False\<rparr>)),
              wakeup (ChPipeRead pi)]
            else kseq [
              kmod (set_pipe pi (\<lambda>p. p\<lparr>pi_readopen := False\<rparr>)),
              wakeup (ChPipeWrite pi)]) (\<lambda>_.
     kbind (kget (\<lambda>s. \<not> pi_readopen (pipes s pi) \<and> \<not> pi_writeopen (pipes s pi))) (\<lambda>b.
     if b then kseq [release (PipeLock pi), kfree pi] else release (PipeLock pi))))"

definition pipewrite_round :: "uint64 \<Rightarrow> uint64 \<Rightarrow> int \<Rightarrow> nat \<Rightarrow> int \<Rightarrow> (int + int option, 'a file_state_scheme) K" where
  "pipewrite_round pi addr n pr i =
     (if \<not> i < n then kret (Inr (Some i))
      else
        kbind (kget (\<lambda>s. pi_readopen (pipes s pi))) (\<lambda>readopen.
        kbind (if \<not> readopen then kret True else kbind (killed pr) (\<lambda>k. kret (k \<noteq> 0))) (\<lambda>stop.
        if stop then kbind (release (PipeLock pi)) (\<lambda>_. kret (Inr None))
        else
          kbind (kget (\<lambda>s. pi_nwrite (pipes s pi) = pi_nread (pipes s pi) + PIPESIZE)) (\<lambda>full.
          if full then
            kbind (kseq [
              wakeup (ChPipeRead pi),
              sleep_prepare (Some (ChPipeWrite pi)),
              release (PipeLock pi),
              sleep,
              acquire (PipeLock pi)]) (\<lambda>_. kret (Inl i))
          else
            kbind (kget (\<lambda>s. procs s pr)) (\<lambda>q.
            kbind (copyin (p_pagetable q) (p_sz q) (addr + of_int i) 1) (\<lambda>(r, bs).
            if r = - 1 then kret (Inr (Some (if i = 0 then - 1 else i)))
            else kbind (kmod (set_pipe pi (pipe_put (hd bs)))) (\<lambda>_. kret (Inl (i + 1)))))))))"

definition pipewrite :: "uint64 \<Rightarrow> uint64 \<Rightarrow> int \<Rightarrow> (int, 'a file_state_scheme) K" where
  "pipewrite pi addr n = with_myproc (\<lambda>pr.
     kbind (acquire (PipeLock pi)) (\<lambda>_.
     kbind (kloop (pipewrite_round pi addr n pr) 0) (\<lambda>r.
     case r of
       None \<Rightarrow> kret (- 1)
     | Some i \<Rightarrow>
         kbind (kseq [wakeup (ChPipeRead pi), release (PipeLock pi)]) (\<lambda>_. kret i))))"

text \<open>The first loop of \<open>piperead\<close>: wait for data or for the end of the writers; \<open>False\<close> when killed.\<close>

definition piperead_wait :: "uint64 \<Rightarrow> nat \<Rightarrow> (bool, 'a file_state_scheme) K" where
  "piperead_wait pi pr = kloop (\<lambda>_.
     kbind (kget (\<lambda>s. pi_nread (pipes s pi) = pi_nwrite (pipes s pi) \<and> pi_writeopen (pipes s pi))) (\<lambda>empty.
     if \<not> empty then kret (Inr True)
     else
       kbind (killed pr) (\<lambda>k.
       if k \<noteq> 0 then kbind (release (PipeLock pi)) (\<lambda>_. kret (Inr False))
       else
         kbind (kseq [
           sleep_prepare (Some (ChPipeRead pi)),
           release (PipeLock pi),
           sleep,
           acquire (PipeLock pi)]) (\<lambda>_. kret (Inl ()))))) ()"

definition piperead_round :: "uint64 \<Rightarrow> uint64 \<Rightarrow> int \<Rightarrow> nat \<Rightarrow> int \<Rightarrow> (int + int, 'a file_state_scheme) K" where
  "piperead_round pi addr n pr i =
     (if \<not> i < n then kret (Inr i)
      else
        kbind (kget (\<lambda>s. pipes s pi)) (\<lambda>p.
        if pi_nread p = pi_nwrite p then kret (Inr i)
        else
          kbind (kget (\<lambda>s. procs s pr)) (\<lambda>q.
          kbind (copyout (p_pagetable q) (p_sz q) (addr + of_int i) [pipe_peek p]) (\<lambda>r.
          if r = - 1 then kret (Inr (if i = 0 then - 1 else i))
          else kbind (kmod (set_pipe pi pipe_drop)) (\<lambda>_. kret (Inl (i + 1)))))))"

definition piperead :: "uint64 \<Rightarrow> uint64 \<Rightarrow> int \<Rightarrow> (int, 'a file_state_scheme) K" where
  "piperead pi addr n = with_myproc (\<lambda>pr.
     kbind (acquire (PipeLock pi)) (\<lambda>_.
     kbind (piperead_wait pi pr) (\<lambda>ok.
     if \<not> ok then kret (- 1)
     else
       kbind (kloop (piperead_round pi addr n pr) 0) (\<lambda>i.
       kbind (kseq [wakeup (ChPipeWrite pi), release (PipeLock pi)]) (\<lambda>_. kret i)))))"

section \<open>Files\<close>

definition fileinit :: "(unit, 'a file_state_scheme) K" where
  "fileinit = initlock FtableLock ''ftable''"

definition filealloc :: "(nat option, 'a file_state_scheme) K" where
  "filealloc =
     kbind (acquire FtableLock) (\<lambda>_.
     kbind (kget files) (\<lambda>tab.
     case List.find (\<lambda>f. f_ref (tab f) = 0) [0..<NFILE] of
       Some f \<Rightarrow>
         kbind (kmod (set_file f (\<lambda>x. x\<lparr>f_ref := 1\<rparr>))) (\<lambda>_.
         kbind (release FtableLock) (\<lambda>_.
         kret (Some f)))
     | None \<Rightarrow> kbind (release FtableLock) (\<lambda>_. kret None)))"

definition filedup :: "nat \<Rightarrow> (nat, 'a file_state_scheme) K" where
  "filedup f =
     kbind (acquire FtableLock) (\<lambda>_.
     kbind (kget (\<lambda>s. f_ref (files s f))) (\<lambda>ref.
     if ref < 1 then kpanic ''filedup''
     else
       kbind (kmod (set_file f (\<lambda>x. x\<lparr>f_ref := f_ref x + 1\<rparr>))) (\<lambda>_.
       kbind (release FtableLock) (\<lambda>_.
       kret f))))"

definition fileclose :: "nat \<Rightarrow> (unit, 'a file_state_scheme) K" where
  "fileclose f =
     kbind (acquire FtableLock) (\<lambda>_.
     kbind (kget (\<lambda>s. f_ref (files s f))) (\<lambda>ref.
     if ref < 1 then kpanic ''fileclose''
     else
       kbind (kmod (set_file f (\<lambda>x. x\<lparr>f_ref := f_ref x - 1\<rparr>))) (\<lambda>_.
       kbind (kget (\<lambda>s. files s f)) (\<lambda>ff.
       if f_ref ff > 0 then release FtableLock
       else
         kbind (kmod (set_file f (\<lambda>x. x\<lparr>f_ref := 0, f_type := FD_NONE\<rparr>))) (\<lambda>_.
         kbind (release FtableLock) (\<lambda>_.
         case f_type ff of
           FD_PIPE \<Rightarrow> pipeclose (f_pipe ff) (f_writable ff)
         | FD_INODE \<Rightarrow> kseq [begin_op, iput (f_ip ff), end_op]
         | FD_DEVICE \<Rightarrow> kseq [begin_op, iput (f_ip ff), end_op]
         | FD_NONE \<Rightarrow> kret ()))))))"

definition pipealloc_bad :: "nat option \<Rightarrow> nat option \<Rightarrow> ((nat \<times> nat) option, 'a file_state_scheme) K" where
  "pipealloc_bad f0 f1 =
     kbind (case f0 of None \<Rightarrow> kret () | Some f \<Rightarrow> fileclose f) (\<lambda>_.
     kbind (case f1 of None \<Rightarrow> kret () | Some f \<Rightarrow> fileclose f) (\<lambda>_.
     kret None))"

text \<open>\<open>Some (f0, f1)\<close> stands for the result 0 with the two files stored, \<open>None\<close> for -1.\<close>

definition pipealloc :: "((nat \<times> nat) option, 'a file_state_scheme) K" where
  "pipealloc =
     kbind filealloc (\<lambda>r0. case r0 of None \<Rightarrow> pipealloc_bad None None | Some f0 \<Rightarrow>
     kbind filealloc (\<lambda>r1. case r1 of None \<Rightarrow> pipealloc_bad (Some f0) None | Some f1 \<Rightarrow>
     kbind kalloc (\<lambda>pi.
     if pi = 0 then pipealloc_bad (Some f0) (Some f1)
     else
       kbind (kseq [
         kmod (set_pipe pi (\<lambda>p. p\<lparr>pi_readopen := True, pi_writeopen := True, pi_nwrite := 0, pi_nread := 0\<rparr>)),
         initlock (PipeLock pi) ''pipe'',
         kmod (set_file f0 (\<lambda>x. x\<lparr>f_type := FD_PIPE, f_readable := True, f_writable := False, f_pipe := pi\<rparr>)),
         kmod (set_file f1 (\<lambda>x. x\<lparr>f_type := FD_PIPE, f_readable := False, f_writable := True, f_pipe := pi\<rparr>))]) (\<lambda>_.
       kret (Some (f0, f1))))))"

definition filestat :: "nat \<Rightarrow> uint64 \<Rightarrow> (int, 'a file_state_scheme) K" where
  "filestat f addr = with_myproc (\<lambda>p.
     kbind (kget (\<lambda>s. files s f)) (\<lambda>x.
     if f_type x = FD_INODE \<or> f_type x = FD_DEVICE then
       kbind (kseq [ilock (f_ip x), stati (f_ip x), iunlock (f_ip x)]) (\<lambda>_.
       kbind (kget (\<lambda>s. (procs s p, map (lbuf s) [0..<24]))) (\<lambda>(q, st).
       kbind (copyout (p_pagetable q) (p_sz q) addr st) (\<lambda>r.
       kret (if r < 0 then - 1 else 0))))
     else kret (- 1)))"

definition bad_major :: "ushort \<Rightarrow> bool" where
  "bad_major m \<longleftrightarrow> sint m < 0 \<or> sint m \<ge> int NDEV"

definition fileread :: "nat \<Rightarrow> uint64 \<Rightarrow> int \<Rightarrow> (int, 'a file_state_scheme) K" where
  "fileread f addr n =
     kbind (kget (\<lambda>s. files s f)) (\<lambda>x.
     if \<not> f_readable x \<or> n < 0 then kret (- 1)
     else case f_type x of
       FD_PIPE \<Rightarrow> piperead (f_pipe x) addr n
     | FD_DEVICE \<Rightarrow>
         kbind (kget (\<lambda>s. devsw_read s (nat (sint (f_major x))))) (\<lambda>drv.
         if bad_major (f_major x) then kret (- 1)
         else case drv of
           None \<Rightarrow> kret (- 1)
         | Some ConsoleDriver \<Rightarrow> consoleread (DstUser addr) n)
     | FD_INODE \<Rightarrow>
         kbind (ilock (f_ip x)) (\<lambda>_.
         kbind (readi (f_ip x) (DstUser addr) (f_off x) (of_int n)) (\<lambda>r.
         kbind (kwhen (r > 0) (kmod (set_file f (\<lambda>y. y\<lparr>f_off := f_off y + of_int r\<rparr>)))) (\<lambda>_.
         kbind (iunlock (f_ip x)) (\<lambda>_.
         kret r))))
     | FD_NONE \<Rightarrow> kpanic ''fileread'')"

abbreviation (input) filewrite_max :: int where "filewrite_max \<equiv> ((int MAXOPBLOCKS - 1 - 1 - 2) div 2) * int BSIZE"

definition filewrite_round :: "nat \<Rightarrow> uint64 \<Rightarrow> int \<Rightarrow> int \<Rightarrow> (int + int, 'a file_state_scheme) K" where
  "filewrite_round f addr n i =
     (if \<not> i < n then kret (Inr i)
      else
        (let n1 = (if n - i > filewrite_max then filewrite_max else n - i) in
         kbind (kget (\<lambda>s. f_ip (files s f))) (\<lambda>ip.
         kbind (kseq [begin_op, ilock ip]) (\<lambda>_.
         kbind (kget (\<lambda>s. f_off (files s f))) (\<lambda>off.
         kbind (writei ip (SrcUser (addr + of_int i)) off (of_int n1)) (\<lambda>r.
         kbind (kwhen (r > 0) (kmod (set_file f (\<lambda>y. y\<lparr>f_off := f_off y + of_int r\<rparr>)))) (\<lambda>_.
         kbind (kseq [iunlock ip, end_op]) (\<lambda>_.
         if r \<noteq> n1 then kret (Inr i) else kret (Inl (i + r))))))))))"

definition filewrite :: "nat \<Rightarrow> uint64 \<Rightarrow> int \<Rightarrow> (int, 'a file_state_scheme) K" where
  "filewrite f addr n =
     kbind (kget (\<lambda>s. files s f)) (\<lambda>x.
     if \<not> f_writable x \<or> n < 0 then kret (- 1)
     else case f_type x of
       FD_PIPE \<Rightarrow> pipewrite (f_pipe x) addr n
     | FD_DEVICE \<Rightarrow>
         kbind (kget (\<lambda>s. devsw_write s (nat (sint (f_major x))))) (\<lambda>drv.
         if bad_major (f_major x) then kret (- 1)
         else case drv of
           None \<Rightarrow> kret (- 1)
         | Some ConsoleDriver \<Rightarrow> consolewrite (SrcUser addr) n)
     | FD_INODE \<Rightarrow>
         kbind (kloop (filewrite_round f addr n) 0) (\<lambda>i. kret (if i = n then n else - 1))
     | FD_NONE \<Rightarrow> kpanic ''filewrite'')"

end
