(* ===== verification/ProcLife.thy ===== *)
theory ProcLife
  imports File
begin

text \<open>
  Birth and death of processes: \<open>userinit\<close>, \<open>kfork\<close>, \<open>reparent\<close> and \<open>kexit\<close> of
  \<open>kernel/proc.c\<close>, and \<open>kexec\<close> (\<open>kernel/exec.c\<close>).  The trap frame of a process is a page of
  physical memory; its fields are 64-bit words at fixed offsets.
\<close>

unbundle bit_operations_syntax

section \<open>Trap frames\<close>

datatype tfield = Kernel_satp | Kernel_sp | Kernel_trap | Epc | Kernel_hartid | Sp | A0 | A1 | A2 | A3 | A4 | A5 | A7

text \<open>Offsets in \<open>struct trapframe\<close> of the fields the C code names; the whole is 36 words.\<close>

fun tf_off :: "tfield \<Rightarrow> uint64" where
  "tf_off Kernel_satp = 0"
| "tf_off Kernel_sp = 8"
| "tf_off Kernel_trap = 16"
| "tf_off Epc = 24"
| "tf_off Kernel_hartid = 32"
| "tf_off Sp = 48"
| "tf_off A0 = 112"
| "tf_off A1 = 120"
| "tf_off A2 = 128"
| "tf_off A3 = 136"
| "tf_off A4 = 144"
| "tf_off A5 = 152"
| "tf_off A7 = 168"

definition tf_get :: "nat \<Rightarrow> tfield \<Rightarrow> (uint64, 'a proc_state_scheme) K" where
  "tf_get p f = kget (\<lambda>s. load64 (mem s) (p_trapframe (procs s p) + tf_off f))"

definition tf_set :: "nat \<Rightarrow> tfield \<Rightarrow> uint64 \<Rightarrow> (unit, 'a proc_state_scheme) K" where
  "tf_set p f v = kmod (\<lambda>s. s\<lparr>mem := store64 (mem s) (p_trapframe (procs s p) + tf_off f) v\<rparr>)"

definition tf_copy :: "nat \<Rightarrow> nat \<Rightarrow> (unit, 'a proc_state_scheme) K" where
  "tf_copy np p = kmod (\<lambda>s. s\<lparr>mem := put_bytes (mem s) (p_trapframe (procs s np))
     (bytes_at (mem s) (p_trapframe (procs s p)) 288)\<rparr>)"

text \<open>
  \<open>safestrcpy\<close> into a byte array: the copied characters, the NUL that stopped the copy if
  there was one, and the final NUL.
\<close>

definition safestrcpy_into :: "uchar list \<Rightarrow> uchar list \<Rightarrow> nat \<Rightarrow> uchar list" where
  "safestrcpy_into dst t n =
     (let w = cstr (rd t) (n - 1) in put_at dst 0 (w @ (if length w < n - 1 then [0, 0] else [0])))"

section \<open>Fork and exit\<close>

definition userinit :: "(unit, 'a file_state_scheme) K" where
  "userinit =
     kbind allocproc (\<lambda>r.
     kbind (kmod (\<lambda>s. s\<lparr>initproc := r\<rparr>)) (\<lambda>_.
     case r of
       None \<Rightarrow> kpanic ''kerneltrap''
     | Some p \<Rightarrow>
         kbind (namei [47]) (\<lambda>cwd.
         kseq [
           kmod (set_proc p (\<lambda>q. q\<lparr>p_cwd := cwd\<rparr>)),
           kmod (set_proc p (\<lambda>q. q\<lparr>p_state := RUNNABLE\<rparr>)),
           release (ProcLock p)])))"

definition kfork_fd :: "nat \<Rightarrow> nat \<Rightarrow> nat \<Rightarrow> (unit, 'a file_state_scheme) K" where
  "kfork_fd np p i =
     kbind (kget (\<lambda>s. p_ofile (procs s p) i)) (\<lambda>r.
     case r of
       None \<Rightarrow> kret ()
     | Some f \<Rightarrow>
         kbind (filedup f) (\<lambda>g.
         kmod (set_proc np (\<lambda>q. q\<lparr>p_ofile := (p_ofile q)(i := Some g)\<rparr>))))"

definition kfork :: "(int, 'a file_state_scheme) K" where
  "kfork = with_myproc (\<lambda>p.
     kbind allocproc (\<lambda>r.
     case r of
       None \<Rightarrow> kret (- 1)
     | Some np \<Rightarrow>
         kbind (kget (\<lambda>s. (p_pagetable (procs s p), p_pagetable (procs s np), p_sz (procs s p)))) (\<lambda>(pt, npt, sz).
         kbind (uvmcopy pt npt sz) (\<lambda>c.
         if c < 0 then
           kbind (freeproc np) (\<lambda>_. kbind (release (ProcLock np)) (\<lambda>_. kret (- 1)))
         else
           kbind (kseq [
             kmod (set_proc np (\<lambda>q. q\<lparr>p_sz := sz\<rparr>)),
             tf_copy np p,
             tf_set np A0 0,
             kfor [0..<NOFILE] (kfork_fd np p)]) (\<lambda>_.
           kbind (kget (\<lambda>s. p_cwd (procs s p))) (\<lambda>cwd.
           kbind (case cwd of None \<Rightarrow> kpanic ''kerneltrap'' | Some ip \<Rightarrow> idup ip) (\<lambda>ip.
           kbind (kseq [
             kmod (set_proc np (\<lambda>q. q\<lparr>p_cwd := Some ip\<rparr>)),
             kmod (\<lambda>s. set_proc np (\<lambda>q. q\<lparr>p_name := safestrcpy_into (p_name q) (p_name (procs s p)) 16\<rparr>) s)]) (\<lambda>_.
           kbind (kget (\<lambda>s. p_pid (procs s np))) (\<lambda>pid.
           kbind (kseq [
             release (ProcLock np),
             acquire WaitLock,
             kmod (set_proc np (\<lambda>q. q\<lparr>p_parent := Some p\<rparr>)),
             release WaitLock,
             acquire (ProcLock np),
             kmod (set_proc np (\<lambda>q. q\<lparr>p_state := RUNNABLE\<rparr>)),
             release (ProcLock np)]) (\<lambda>_.
           kret pid))))))))))"

definition reparent :: "nat \<Rightarrow> (unit, 'a proc_state_scheme) K" where
  "reparent p = kfor [0..<NPROC] (\<lambda>pp.
     kbind (kget (\<lambda>s. (p_parent (procs s pp), initproc s))) (\<lambda>(par, init).
     kwhen (par = Some p) (kseq [
       kmod (set_proc pp (\<lambda>q. q\<lparr>p_parent := init\<rparr>)),
       (case init of None \<Rightarrow> kret () | Some i \<Rightarrow> wakeup (ChProc i))])))"

definition kexit_fd :: "nat \<Rightarrow> nat \<Rightarrow> (unit, 'a file_state_scheme) K" where
  "kexit_fd p fd =
     kbind (kget (\<lambda>s. p_ofile (procs s p) fd)) (\<lambda>r.
     case r of
       None \<Rightarrow> kret ()
     | Some f \<Rightarrow> kseq [
         fileclose f,
         kmod (set_proc p (\<lambda>q. q\<lparr>p_ofile := (p_ofile q)(fd := None)\<rparr>))])"

definition kexit :: "int \<Rightarrow> (unit, 'a file_state_scheme) K" where
  "kexit status = with_myproc (\<lambda>p.
     kbind (kget (\<lambda>s. (initproc s, p_cwd (procs s p)))) (\<lambda>(init, cwd).
     if init = Some p then kpanic ''init exiting''
     else
       kbind (kfor [0..<NOFILE] (kexit_fd p)) (\<lambda>_.
       kbind (kseq [
         begin_op,
         (case cwd of None \<Rightarrow> kpanic ''kerneltrap'' | Some ip \<Rightarrow> iput ip),
         end_op,
         kmod (set_proc p (\<lambda>q. q\<lparr>p_cwd := None\<rparr>)),
         acquire WaitLock,
         reparent p]) (\<lambda>_.
       kbind (kget (\<lambda>s. p_parent (procs s p))) (\<lambda>par.
       kbind (case par of None \<Rightarrow> kret () | Some q \<Rightarrow> wakeup (ChProc q)) (\<lambda>_.
       kbind (kseq [
         acquire (ProcLock p),
         kmod (set_proc p (\<lambda>q. q\<lparr>p_xstate := status\<rparr>)),
         kmod (set_proc p (\<lambda>q. q\<lparr>p_state := ZOMBIE\<rparr>)),
         release WaitLock,
         sched]) (\<lambda>_.
       kpanic ''zombie exit'')))))))"

section \<open>Exec\<close>

definition flags2perm :: "uint \<Rightarrow> uint64" where
  "flags2perm flags = (if flags AND 1 \<noteq> 0 then PTE_X else 0) OR (if flags AND 2 \<noteq> 0 then PTE_W else 0)"

text \<open>The fields of \<open>struct elfhdr\<close> (64 bytes) and \<open>struct proghdr\<close> (56 bytes) that are used.\<close>

record elfhdr =
  eh_magic :: uint
  eh_entry :: uint64
  eh_phoff :: uint64
  eh_phnum :: ushort

record proghdr =
  ph_type :: uint
  ph_flags :: uint
  ph_off :: uint64
  ph_vaddr :: uint64
  ph_filesz :: uint64
  ph_memsz :: uint64

definition get_elfhdr :: "(nat \<Rightarrow> uchar) \<Rightarrow> elfhdr" where
  "get_elfhdr b = \<lparr>eh_magic = of_bytes (map b [0..<4]), eh_entry = of_bytes (map b [24..<32]),
     eh_phoff = of_bytes (map b [32..<40]), eh_phnum = of_bytes (map b [56..<58])\<rparr>"

definition get_proghdr :: "(nat \<Rightarrow> uchar) \<Rightarrow> proghdr" where
  "get_proghdr b = \<lparr>ph_type = of_bytes (map b [0..<4]), ph_flags = of_bytes (map b [4..<8]),
     ph_off = of_bytes (map b [8..<16]), ph_vaddr = of_bytes (map b [16..<24]),
     ph_filesz = of_bytes (map b [32..<40]), ph_memsz = of_bytes (map b [40..<48])\<rparr>"

definition loadseg :: "uint64 \<Rightarrow> uint64 \<Rightarrow> nat \<Rightarrow> uint \<Rightarrow> uint \<Rightarrow> (int, 'a file_state_scheme) K" where
  "loadseg pagetable va ip offset sz =
     kloop (\<lambda>i.
       if \<not> i < sz then kret (Inr 0)
       else
         kbind (walkaddr pagetable (va + ucast i)) (\<lambda>pa.
         if pa = 0 then kpanic ''loadseg: address should exist''
         else
           (let n = (if sz - i < 4096 then sz - i else 4096) in
            kbind (readi ip (DstKern pa) (offset + i) n) (\<lambda>r.
            if of_int r \<noteq> n then kret (Inr (- 1)) else kret (Inl (i + 4096)))))) 0"

text \<open>One program header: the new size, or \<open>None\<close> for the jump to \<open>bad\<close> with the size so far.\<close>

definition kexec_seg :: "uint64 \<Rightarrow> nat \<Rightarrow> uint \<Rightarrow> uint64 \<Rightarrow> (uint64 + uint64, 'a file_state_scheme) K" where
  "kexec_seg pagetable ip off sz =
     kbind (readi ip (DstLocal 64) off 56) (\<lambda>r.
     if r \<noteq> 56 then kret (Inl sz)
     else
       kbind (kget (\<lambda>s. get_proghdr (\<lambda>i. lbuf s (64 + i)))) (\<lambda>ph.
       if ph_type ph \<noteq> 1 then kret (Inr sz)
       else if ph_memsz ph < ph_filesz ph then kret (Inl sz)
       else if ph_vaddr ph + ph_memsz ph < ph_vaddr ph then kret (Inl sz)
       else if ph_vaddr ph mod PGSIZE \<noteq> 0 then kret (Inl sz)
       else
         kbind (uvmalloc pagetable sz (ph_vaddr ph + ph_memsz ph) (flags2perm (ph_flags ph))) (\<lambda>sz1.
         if sz1 = 0 then kret (Inl sz)
         else
           kbind (loadseg pagetable (ph_vaddr ph) ip (ucast (ph_off ph)) (ucast (ph_filesz ph))) (\<lambda>l.
           if l < 0 then kret (Inl sz1) else kret (Inr sz1)))))"

definition kexec_segs :: "uint64 \<Rightarrow> nat \<Rightarrow> elfhdr \<Rightarrow> (uint64 + uint64, 'a file_state_scheme) K" where
  "kexec_segs pagetable ip elf =
     kloop (\<lambda>(i, off, sz).
       if \<not> i < unat (eh_phnum elf) then kret (Inr (Inr sz))
       else
         kbind (kexec_seg pagetable ip off sz) (\<lambda>r.
         case r of Inl sz \<Rightarrow> kret (Inr (Inl sz)) | Inr sz \<Rightarrow> kret (Inl (Suc i, off + 56, sz))))
       (0, ucast (eh_phoff elf), 0)"

text \<open>The argument strings: the stack pointer and the addresses pushed, or \<open>None\<close> for \<open>bad\<close>.\<close>

definition kexec_args :: "uint64 \<Rightarrow> uint64 \<Rightarrow> uint64 \<Rightarrow> uchar list list \<Rightarrow> ((uint64 \<times> uint64 list) option, 'a file_state_scheme) K" where
  "kexec_args pagetable sz stackbase argv =
     kloop (\<lambda>(args, sp, ustack).
       case args of
         [] \<Rightarrow> if length ustack < MAXARG then kret (Inr (Some (sp, ustack @ [0]))) else kstuck
       | a # args \<Rightarrow>
           (let sp = sp - (of_nat (length a) + 1); sp = sp - sp mod 16 in
            if sp < stackbase then kret (Inr None)
            else
              kbind (copyout pagetable sz sp (a @ [0])) (\<lambda>c.
              if c < 0 then kret (Inr None)
              else if length ustack < MAXARG then kret (Inl (args, sp, ustack @ [sp])) else kstuck)))
       (argv, sz, [])"

definition last_elem :: "uchar list \<Rightarrow> uchar list" where
  "last_elem path = rev (takeWhile (\<lambda>c. \<not> is_slash c) (rev path))"

definition kexec_bad :: "uint64 \<Rightarrow> uint64 \<Rightarrow> nat option \<Rightarrow> (int, 'a file_state_scheme) K" where
  "kexec_bad pagetable sz ip =
     kbind (kwhen (pagetable \<noteq> 0) (proc_freepagetable pagetable sz)) (\<lambda>_.
     kbind (case ip of None \<Rightarrow> kret () | Some ip \<Rightarrow> kseq [iunlockput ip, end_op]) (\<lambda>_.
     kret (- 1)))"

definition kexec_commit :: "nat \<Rightarrow> uchar list \<Rightarrow> uint64 \<Rightarrow> uint64 \<Rightarrow> uint64 \<Rightarrow> uint64 \<Rightarrow> uint64 \<Rightarrow> (unit, 'a file_state_scheme) K" where
  "kexec_commit p path pagetable sz sp entry oldsz =
     kbind (kseq [
       tf_set p A1 sp,
       kmod (set_proc p (\<lambda>q. q\<lparr>p_name := safestrcpy_into (p_name q) (last_elem path) 16\<rparr>))]) (\<lambda>_.
     kbind (kget (\<lambda>s. p_pagetable (procs s p))) (\<lambda>oldpagetable.
     kseq [
       kmod (set_proc p (\<lambda>q. q\<lparr>p_pagetable := pagetable, p_sz := sz\<rparr>)),
       tf_set p Epc entry,
       tf_set p Sp sp,
       proc_freepagetable oldpagetable oldsz]))"

definition kexec_stack :: "nat \<Rightarrow> uchar list \<Rightarrow> uchar list list \<Rightarrow> uint64 \<Rightarrow> uint64 \<Rightarrow> uint64 \<Rightarrow> (int, 'a file_state_scheme) K" where
  "kexec_stack p path argv pagetable sz0 entry =
     kbind (kget (\<lambda>s. p_sz (procs s p))) (\<lambda>oldsz.
     let sz = PGROUNDUP sz0 in
     kbind (uvmalloc pagetable sz (sz + (USERSTACK + 1) * PGSIZE) PTE_W) (\<lambda>sz1.
     if sz1 = 0 then kexec_bad pagetable sz None
     else
       kbind (uvmclear pagetable (sz1 - (USERSTACK + 1) * PGSIZE)) (\<lambda>_.
       let stackbase = sz1 - USERSTACK * PGSIZE in
       kbind (kexec_args pagetable sz1 stackbase argv) (\<lambda>r.
       case r of
         None \<Rightarrow> kexec_bad pagetable sz1 None
       | Some (sp, ustack) \<Rightarrow>
           (let sp = sp - of_nat (length ustack) * 8; sp = sp - sp mod 16 in
            if sp < stackbase then kexec_bad pagetable sz1 None
            else
              kbind (copyout pagetable sz1 sp (concat (map (bytes_of 8) ustack))) (\<lambda>c.
              if c < 0 then kexec_bad pagetable sz1 None
              else
                kbind (kexec_commit p path pagetable sz1 sp entry oldsz) (\<lambda>_.
                kret (int (length ustack) - 1))))))))"

definition kexec :: "uchar list \<Rightarrow> uchar list list \<Rightarrow> (int, 'a file_state_scheme) K" where
  "kexec path argv = with_myproc (\<lambda>p.
     kbind begin_op (\<lambda>_.
     kbind (namei path) (\<lambda>r.
     case r of
       None \<Rightarrow> kbind end_op (\<lambda>_. kret (- 1))
     | Some ip \<Rightarrow>
         kbind (ilock ip) (\<lambda>_.
         kbind (readi ip (DstLocal 0) 0 64) (\<lambda>n.
         if n \<noteq> 64 then kexec_bad 0 0 (Some ip)
         else
           kbind (kget (\<lambda>s. get_elfhdr (lbuf s))) (\<lambda>elf.
           if eh_magic elf \<noteq> 0x464C457F then kexec_bad 0 0 (Some ip)
           else
             kbind (proc_pagetable p) (\<lambda>pagetable.
             if pagetable = 0 then kexec_bad 0 0 (Some ip)
             else
               kbind (kexec_segs pagetable ip elf) (\<lambda>r.
               case r of
                 Inl sz \<Rightarrow> kexec_bad pagetable sz (Some ip)
               | Inr sz \<Rightarrow>
                   kbind (kseq [iunlockput ip, end_op]) (\<lambda>_.
                   kexec_stack p path argv pagetable sz (eh_entry elf))))))))))"

end
