(* ===== verification/Sysfile.thy ===== *)
theory Sysfile
  imports ProcLife
begin

text \<open>
  System call arguments (\<open>kernel/syscall.c\<close>) and the file system calls (\<open>kernel/sysfile.c\<close>).
  A failing \<open>argfd\<close> or \<open>argstr\<close> is \<open>None\<close>; the result of a system call is the 64-bit value
  stored in \<open>a0\<close>.
\<close>

unbundle bit_operations_syntax

section \<open>Arguments\<close>

definition fetchaddr :: "uint64 \<Rightarrow> (uint64 option, 'a file_state_scheme) K" where
  "fetchaddr addr = with_myproc (\<lambda>p.
     kbind (kget (\<lambda>s. procs s p)) (\<lambda>q.
     if addr \<ge> p_sz q \<or> addr + 8 > p_sz q then kret None
     else
       kbind (copyin (p_pagetable q) (p_sz q) addr 8) (\<lambda>(r, bs).
       kret (if r \<noteq> 0 then None else Some (of_bytes bs)))))"

definition fetchstr :: "uint64 \<Rightarrow> nat \<Rightarrow> (uchar list option, 'a file_state_scheme) K" where
  "fetchstr addr mx = with_myproc (\<lambda>p.
     kbind (kget (\<lambda>s. procs s p)) (\<lambda>q.
     kbind (copyinstr (p_pagetable q) (p_sz q) addr mx) (\<lambda>(r, bs).
     kret (if r < 0 then None else Some (takeWhile (\<lambda>c. c \<noteq> 0) bs)))))"

definition argraw :: "nat \<Rightarrow> (uint64, 'a file_state_scheme) K" where
  "argraw n = with_myproc (\<lambda>p.
     if n = 0 then tf_get p A0
     else if n = 1 then tf_get p A1
     else if n = 2 then tf_get p A2
     else if n = 3 then tf_get p A3
     else if n = 4 then tf_get p A4
     else if n = 5 then tf_get p A5
     else kpanic ''argraw'')"

definition argint :: "nat \<Rightarrow> (int, 'a file_state_scheme) K" where
  "argint n = kbind (argraw n) (\<lambda>v. kret (sint (ucast v :: 32 word)))"

definition argaddr :: "nat \<Rightarrow> (uint64, 'a file_state_scheme) K" where
  "argaddr n = argraw n"

definition argstr :: "nat \<Rightarrow> nat \<Rightarrow> (uchar list option, 'a file_state_scheme) K" where
  "argstr n mx = kbind (argaddr n) (\<lambda>addr. fetchstr addr mx)"

section \<open>Descriptors\<close>

definition argfd :: "nat \<Rightarrow> ((nat \<times> nat) option, 'a file_state_scheme) K" where
  "argfd n =
     kbind (argint n) (\<lambda>fd.
     if fd < 0 \<or> fd \<ge> int NOFILE then kret None
     else with_myproc (\<lambda>p.
       kget (\<lambda>s. map_option (Pair (nat fd)) (p_ofile (procs s p) (nat fd)))))"

definition set_fd :: "nat \<Rightarrow> nat \<Rightarrow> nat option \<Rightarrow> (unit, 'a file_state_scheme) K" where
  "set_fd p fd f = kmod (set_proc p (\<lambda>q. q\<lparr>p_ofile := (p_ofile q)(fd := f)\<rparr>))"

definition fdalloc :: "nat \<Rightarrow> (nat option, 'a file_state_scheme) K" where
  "fdalloc f = with_myproc (\<lambda>p.
     kbind (kget (\<lambda>s. p_ofile (procs s p))) (\<lambda>ofile.
     case List.find (\<lambda>fd. ofile fd = None) [0..<NOFILE] of
       None \<Rightarrow> kret None
     | Some fd \<Rightarrow> kbind (set_fd p fd (Some f)) (\<lambda>_. kret (Some fd))))"

definition sys_dup :: "(uint64, 'a file_state_scheme) K" where
  "sys_dup =
     kbind (argfd 0) (\<lambda>r. case r of None \<Rightarrow> kret (- 1) | Some (_, f) \<Rightarrow>
     kbind (fdalloc f) (\<lambda>r. case r of None \<Rightarrow> kret (- 1) | Some fd \<Rightarrow>
     kbind (filedup f) (\<lambda>_. kret (of_nat fd))))"

definition sys_read :: "(uint64, 'a file_state_scheme) K" where
  "sys_read =
     kbind (argaddr 1) (\<lambda>p.
     kbind (argint 2) (\<lambda>n.
     kbind (argfd 0) (\<lambda>r. case r of None \<Rightarrow> kret (- 1) | Some (_, f) \<Rightarrow>
     kbind (fileread f p n) (\<lambda>v. kret (of_int v)))))"

definition sys_write :: "(uint64, 'a file_state_scheme) K" where
  "sys_write =
     kbind (argaddr 1) (\<lambda>p.
     kbind (argint 2) (\<lambda>n.
     kbind (argfd 0) (\<lambda>r. case r of None \<Rightarrow> kret (- 1) | Some (_, f) \<Rightarrow>
     kbind (filewrite f p n) (\<lambda>v. kret (of_int v)))))"

definition sys_close :: "(uint64, 'a file_state_scheme) K" where
  "sys_close =
     kbind (argfd 0) (\<lambda>r. case r of None \<Rightarrow> kret (- 1) | Some (fd, f) \<Rightarrow>
     kbind (with_myproc (\<lambda>p. set_fd p fd None)) (\<lambda>_.
     kbind (fileclose f) (\<lambda>_. kret 0)))"

definition sys_fstat :: "(uint64, 'a file_state_scheme) K" where
  "sys_fstat =
     kbind (argaddr 1) (\<lambda>st.
     kbind (argfd 0) (\<lambda>r. case r of None \<Rightarrow> kret (- 1) | Some (_, f) \<Rightarrow>
     kbind (filestat f st) (\<lambda>v. kret (of_int v))))"

section \<open>Links\<close>

definition end_fail :: "(uint64, 'a file_state_scheme) K" where
  "end_fail = kbind end_op (\<lambda>_. kret (- 1))"

definition put_end_fail :: "nat \<Rightarrow> (uint64, 'a file_state_scheme) K" where
  "put_end_fail ip = kbind (iunlockput ip) (\<lambda>_. end_fail)"

definition link_bad :: "nat \<Rightarrow> (uint64, 'a file_state_scheme) K" where
  "link_bad ip =
     kbind (kseq [
       ilock ip,
       kmod (set_inode ip (\<lambda>x. x\<lparr>i_nlink := i_nlink x - 1\<rparr>)),
       iupdate ip]) (\<lambda>_.
     put_end_fail ip)"

definition sys_link_into :: "nat \<Rightarrow> uchar list \<Rightarrow> (uint64, 'a file_state_scheme) K" where
  "sys_link_into ip new =
     kbind (nameiparent new) (\<lambda>r.
     case r of
       None \<Rightarrow> link_bad ip
     | Some (dp, name) \<Rightarrow>
         kbind (ilock dp) (\<lambda>_.
         kbind (kget (\<lambda>s. (inodes s dp, inodes s ip))) (\<lambda>(d, x).
         if i_nlink d = 0 then kbind (iunlockput dp) (\<lambda>_. link_bad ip)
         else
           kbind (if i_dev d \<noteq> i_dev x then kret (- 1) else dirlink dp name (i_inum x)) (\<lambda>l.
           if l < 0 then kbind (iunlockput dp) (\<lambda>_. link_bad ip)
           else
             kbind (kseq [iunlockput dp, iput ip, end_op]) (\<lambda>_.
             kret 0)))))"

definition sys_link :: "(uint64, 'a file_state_scheme) K" where
  "sys_link =
     kbind (argstr 0 MAXPATH) (\<lambda>r. case r of None \<Rightarrow> kret (- 1) | Some old \<Rightarrow>
     kbind (argstr 1 MAXPATH) (\<lambda>r. case r of None \<Rightarrow> kret (- 1) | Some new \<Rightarrow>
     kbind begin_op (\<lambda>_.
     kbind (namei old) (\<lambda>r. case r of None \<Rightarrow> end_fail | Some ip \<Rightarrow>
     kbind (ilock ip) (\<lambda>_.
     kbind (kget (\<lambda>s. inodes s ip)) (\<lambda>x.
     if i_type x = T_DIR then put_end_fail ip
     else if sint (i_nlink x) \<ge> 32767 then put_end_fail ip
     else
       kbind (kseq [
         kmod (set_inode ip (\<lambda>x. x\<lparr>i_nlink := i_nlink x + 1\<rparr>)),
         iupdate ip,
         iunlock ip]) (\<lambda>_.
       sys_link_into ip new)))))))"

definition isdirempty :: "nat \<Rightarrow> (bool, 'a file_state_scheme) K" where
  "isdirempty dp =
     kloop (\<lambda>off.
       kbind (kget (\<lambda>s. i_size (inodes s dp))) (\<lambda>size.
       if \<not> off < size then kret (Inr True)
       else
         kbind (readi dp (DstLocal 0) off 16) (\<lambda>r.
         if r \<noteq> 16 then kpanic ''isdirempty: readi''
         else
           kbind (kget (\<lambda>s. de_inum (lbuf s))) (\<lambda>inum.
           if inum \<noteq> 0 then kret (Inr False) else kret (Inl (off + 16)))))) 32"

definition unlink_entry :: "nat \<Rightarrow> nat \<Rightarrow> uint \<Rightarrow> (uint64, 'a file_state_scheme) K" where
  "unlink_entry dp ip off =
     kbind (writei dp (SrcKern (replicate 16 0)) off 16) (\<lambda>r.
     if r \<noteq> 16 then kpanic ''unlink: writei''
     else
       kbind (kget (\<lambda>s. i_type (inodes s ip))) (\<lambda>type.
       kbind (kwhen (type = T_DIR) (kseq [
         kmod (set_inode dp (\<lambda>x. x\<lparr>i_nlink := i_nlink x - 1\<rparr>)),
         iupdate dp])) (\<lambda>_.
       kbind (kseq [
         iunlockput dp,
         kmod (set_inode ip (\<lambda>x. x\<lparr>i_nlink := i_nlink x - 1\<rparr>)),
         iupdate ip,
         iunlockput ip,
         end_op]) (\<lambda>_.
       kret 0))))"

definition sys_unlink :: "(uint64, 'a file_state_scheme) K" where
  "sys_unlink =
     kbind (argstr 0 MAXPATH) (\<lambda>r. case r of None \<Rightarrow> kret (- 1) | Some path \<Rightarrow>
     kbind begin_op (\<lambda>_.
     kbind (nameiparent path) (\<lambda>r. case r of None \<Rightarrow> end_fail | Some (dp, name) \<Rightarrow>
     kbind (ilock dp) (\<lambda>_.
     if namecmp name [46] = 0 \<or> namecmp name [46, 46] = 0 then put_end_fail dp
     else
       kbind (dirlookup dp name) (\<lambda>r. case r of None \<Rightarrow> put_end_fail dp | Some (ip, off) \<Rightarrow>
       kbind (ilock ip) (\<lambda>_.
       kbind (kget (\<lambda>s. inodes s ip)) (\<lambda>x.
       if sint (i_nlink x) < 1 then kpanic ''unlink: nlink < 1''
       else
         kbind (if i_type x = T_DIR then isdirempty ip else kret True) (\<lambda>empty.
         if \<not> empty then kbind (iunlockput ip) (\<lambda>_. put_end_fail dp)
         else unlink_entry dp ip off))))))))"

section \<open>Creating and opening\<close>

definition create_fail :: "nat \<Rightarrow> nat \<Rightarrow> (nat option, 'a file_state_scheme) K" where
  "create_fail dp ip =
     kbind (kseq [
       kmod (set_inode ip (\<lambda>x. x\<lparr>i_nlink := 0\<rparr>)),
       iupdate ip,
       iunlockput ip,
       iunlockput dp]) (\<lambda>_.
     kret None)"

definition create_new :: "nat \<Rightarrow> uchar list \<Rightarrow> ushort \<Rightarrow> ushort \<Rightarrow> ushort \<Rightarrow> nat \<Rightarrow> (nat option, 'a file_state_scheme) K" where
  "create_new dp name type major minor ip =
     kbind (kseq [
       ilock ip,
       kmod (set_inode ip (\<lambda>x. x\<lparr>i_major := major, i_minor := minor, i_nlink := 1\<rparr>)),
       iupdate ip]) (\<lambda>_.
     kbind (kget (\<lambda>s. (i_inum (inodes s ip), i_inum (inodes s dp)))) (\<lambda>(inum, pinum).
     kbind (if type = T_DIR then
              kbind (dirlink ip [46] inum) (\<lambda>l.
              if l < 0 then kret False
              else kbind (dirlink ip [46, 46] pinum) (\<lambda>l. kret (l \<ge> 0)))
            else kret True) (\<lambda>ok.
     if \<not> ok then create_fail dp ip
     else
       kbind (dirlink dp name inum) (\<lambda>l.
       if l < 0 then create_fail dp ip
       else
         kbind (kwhen (type = T_DIR) (kseq [
           kmod (set_inode dp (\<lambda>x. x\<lparr>i_nlink := i_nlink x + 1\<rparr>)),
           iupdate dp])) (\<lambda>_.
         kbind (iunlockput dp) (\<lambda>_.
         kret (Some ip)))))))"

definition create :: "uchar list \<Rightarrow> ushort \<Rightarrow> ushort \<Rightarrow> ushort \<Rightarrow> (nat option, 'a file_state_scheme) K" where
  "create path type major minor =
     kbind (nameiparent path) (\<lambda>r. case r of None \<Rightarrow> kret None | Some (dp, name) \<Rightarrow>
     kbind (ilock dp) (\<lambda>_.
     kbind (kget (\<lambda>s. inodes s dp)) (\<lambda>d.
     if i_nlink d = 0 then kbind (iunlockput dp) (\<lambda>_. kret None)
     else if type = T_DIR \<and> sint (i_nlink d) \<ge> 32767 then kbind (iunlockput dp) (\<lambda>_. kret None)
     else
       kbind (dirlookup dp name) (\<lambda>r.
       case r of
         Some (ip, _) \<Rightarrow>
           kbind (kseq [iunlockput dp, ilock ip]) (\<lambda>_.
           kbind (kget (\<lambda>s. i_type (inodes s ip))) (\<lambda>t.
           if type = T_FILE \<and> (t = T_FILE \<or> t = T_DEVICE) then kret (Some ip)
           else kbind (iunlockput ip) (\<lambda>_. kret None)))
       | None \<Rightarrow>
           kbind (ialloc (i_dev d) type) (\<lambda>r.
           case r of
             None \<Rightarrow> kbind (iunlockput dp) (\<lambda>_. kret None)
           | Some ip \<Rightarrow> create_new dp name type major minor ip)))))"

abbreviation (input) O_WRONLY :: uint where "O_WRONLY \<equiv> 1"
abbreviation (input) O_RDWR :: uint where "O_RDWR \<equiv> 2"
abbreviation (input) O_CREATE :: uint where "O_CREATE \<equiv> 0x200"
abbreviation (input) O_TRUNC :: uint where "O_TRUNC \<equiv> 0x400"

text \<open>The part of \<open>sys_open\<close> after the inode is found and locked.\<close>

definition sys_open_file :: "nat \<Rightarrow> uint \<Rightarrow> (uint64, 'a file_state_scheme) K" where
  "sys_open_file ip omode =
     kbind (kget (\<lambda>s. inodes s ip)) (\<lambda>x.
     if i_type x = T_DEVICE \<and> bad_major (i_major x) then put_end_fail ip
     else
       kbind filealloc (\<lambda>r. case r of None \<Rightarrow> put_end_fail ip | Some f \<Rightarrow>
       kbind (fdalloc f) (\<lambda>r. case r of None \<Rightarrow> kbind (fileclose f) (\<lambda>_. put_end_fail ip) | Some fd \<Rightarrow>
       kbind (if i_type x = T_DEVICE then kmod (set_file f (\<lambda>y. y\<lparr>f_type := FD_DEVICE, f_major := i_major x\<rparr>))
              else kmod (set_file f (\<lambda>y. y\<lparr>f_type := FD_INODE, f_off := 0\<rparr>))) (\<lambda>_.
       kbind (kmod (set_file f (\<lambda>y. y\<lparr>f_ip := ip, f_readable := (omode AND O_WRONLY = 0),
           f_writable := (omode AND O_WRONLY \<noteq> 0 \<or> omode AND O_RDWR \<noteq> 0)\<rparr>))) (\<lambda>_.
       kbind (kwhen (omode AND O_TRUNC \<noteq> 0 \<and> i_type x = T_FILE) (itrunc ip)) (\<lambda>_.
       kbind (kseq [iunlock ip, end_op]) (\<lambda>_.
       kret (of_nat fd))))))))"

definition sys_open :: "(uint64, 'a file_state_scheme) K" where
  "sys_open =
     kbind (argint 1) (\<lambda>om.
     kbind (argstr 0 MAXPATH) (\<lambda>r. case r of None \<Rightarrow> kret (- 1) | Some path \<Rightarrow>
     let omode = (of_int om :: uint) in
     kbind begin_op (\<lambda>_.
     if omode AND O_CREATE \<noteq> 0 then
       kbind (create path T_FILE 0 0) (\<lambda>r. case r of None \<Rightarrow> end_fail | Some ip \<Rightarrow> sys_open_file ip omode)
     else
       kbind (namei path) (\<lambda>r. case r of None \<Rightarrow> end_fail | Some ip \<Rightarrow>
       kbind (ilock ip) (\<lambda>_.
       kbind (kget (\<lambda>s. i_type (inodes s ip))) (\<lambda>t.
       if t = T_DIR \<and> omode \<noteq> 0 then put_end_fail ip else sys_open_file ip omode))))))"

definition sys_mkdir :: "(uint64, 'a file_state_scheme) K" where
  "sys_mkdir =
     kbind begin_op (\<lambda>_.
     kbind (argstr 0 MAXPATH) (\<lambda>r. case r of None \<Rightarrow> end_fail | Some path \<Rightarrow>
     kbind (create path T_DIR 0 0) (\<lambda>r. case r of None \<Rightarrow> end_fail | Some ip \<Rightarrow>
     kbind (kseq [iunlockput ip, end_op]) (\<lambda>_.
     kret 0))))"

definition sys_mknod :: "(uint64, 'a file_state_scheme) K" where
  "sys_mknod =
     kbind begin_op (\<lambda>_.
     kbind (argint 1) (\<lambda>major.
     kbind (argint 2) (\<lambda>minor.
     kbind (argstr 0 MAXPATH) (\<lambda>r. case r of None \<Rightarrow> end_fail | Some path \<Rightarrow>
     kbind (create path T_DEVICE (of_int major) (of_int minor)) (\<lambda>r. case r of None \<Rightarrow> end_fail | Some ip \<Rightarrow>
     kbind (kseq [iunlockput ip, end_op]) (\<lambda>_.
     kret 0))))))"

definition sys_chdir :: "(uint64, 'a file_state_scheme) K" where
  "sys_chdir = with_myproc (\<lambda>p.
     kbind begin_op (\<lambda>_.
     kbind (argstr 0 MAXPATH) (\<lambda>r. case r of None \<Rightarrow> end_fail | Some path \<Rightarrow>
     kbind (namei path) (\<lambda>r. case r of None \<Rightarrow> end_fail | Some ip \<Rightarrow>
     kbind (ilock ip) (\<lambda>_.
     kbind (kget (\<lambda>s. (i_type (inodes s ip), p_cwd (procs s p)))) (\<lambda>(t, cwd).
     if t \<noteq> T_DIR then put_end_fail ip
     else
       kbind (kseq [
         iunlock ip,
         (case cwd of None \<Rightarrow> kpanic ''kerneltrap'' | Some c \<Rightarrow> iput c),
         end_op,
         kmod (set_proc p (\<lambda>q. q\<lparr>p_cwd := Some ip\<rparr>))]) (\<lambda>_.
       kret 0)))))))"

section \<open>Exec and pipe\<close>

text \<open>The argument vector: the pages that hold the strings, and \<open>False\<close> for the jump to \<open>bad\<close>.\<close>

definition exec_args :: "uint64 \<Rightarrow> (bool \<times> (uint64 \<times> uchar list) list, 'a file_state_scheme) K" where
  "exec_args uargv =
     kloop (\<lambda>argv.
       if length argv \<ge> MAXARG then kret (Inr (False, argv))
       else
         kbind (fetchaddr (uargv + 8 * of_nat (length argv))) (\<lambda>r.
         case r of
           None \<Rightarrow> kret (Inr (False, argv))
         | Some uarg \<Rightarrow>
             if uarg = 0 then kret (Inr (True, argv))
             else
               kbind kalloc (\<lambda>pg.
               if pg = 0 then kret (Inr (False, argv))
               else
                 kbind (fetchstr uarg (unat PGSIZE)) (\<lambda>r.
                 case r of
                   None \<Rightarrow> kret (Inr (False, argv @ [(pg, [])]))
                 | Some w \<Rightarrow>
                     kbind (kmod (\<lambda>s. s\<lparr>mem := put_bytes (mem s) pg (w @ [0])\<rparr>)) (\<lambda>_.
                     kret (Inl (argv @ [(pg, w)]))))))) []"

definition sys_exec :: "(uint64, 'a file_state_scheme) K" where
  "sys_exec =
     kbind (argaddr 1) (\<lambda>uargv.
     kbind (argstr 0 MAXPATH) (\<lambda>r. case r of None \<Rightarrow> kret (- 1) | Some path \<Rightarrow>
     kbind (exec_args uargv) (\<lambda>(ok, argv).
     kbind (if ok then kexec path (map snd argv) else kret (- 1)) (\<lambda>ret.
     kbind (kfor argv (\<lambda>(pg, _). kfree pg)) (\<lambda>_.
     kret (of_int ret))))))"

definition pipe_undo :: "nat \<Rightarrow> nat \<Rightarrow> (uint64, 'a file_state_scheme) K" where
  "pipe_undo rfile wfile = kbind (kseq [fileclose rfile, fileclose wfile]) (\<lambda>_. kret (- 1))"

definition sys_pipe :: "(uint64, 'a file_state_scheme) K" where
  "sys_pipe = with_myproc (\<lambda>p.
     kbind (argaddr 0) (\<lambda>fdarray.
     kbind pipealloc (\<lambda>r. case r of None \<Rightarrow> kret (- 1) | Some (rfile, wfile) \<Rightarrow>
     kbind (fdalloc rfile) (\<lambda>r. case r of None \<Rightarrow> pipe_undo rfile wfile | Some fd0 \<Rightarrow>
     kbind (fdalloc wfile) (\<lambda>r. case r of None \<Rightarrow> kbind (set_fd p fd0 None) (\<lambda>_. pipe_undo rfile wfile) | Some fd1 \<Rightarrow>
     kbind (kget (\<lambda>s. (p_pagetable (procs s p), p_sz (procs s p)))) (\<lambda>(pt, sz).
     kbind (copyout pt sz fdarray (int_bytes (int fd0))) (\<lambda>c0.
     kbind (if c0 < 0 then kret c0 else copyout pt sz (fdarray + 4) (int_bytes (int fd1))) (\<lambda>c1.
     if c1 < 0 then
       kbind (kseq [set_fd p fd0 None, set_fd p fd1 None]) (\<lambda>_. pipe_undo rfile wfile)
     else kret 0))))))))"

end
