(* ===== verification/Trap.thy ===== *)
theory Trap
  imports Sysfile
begin

text \<open>
  Traps, interrupts and system calls: the interrupt controller (\<open>kernel/plic.c\<close>), the process
  system calls (\<open>kernel/sysproc.c\<close>), the dispatcher (\<open>kernel/syscall.c\<close>), the trap handlers
  (\<open>kernel/trap.c\<close>), \<open>forkret\<close> of \<open>kernel/proc.c\<close> and \<open>main\<close> (\<open>kernel/main.c\<close>).  Control
  registers are per hart.  What the clock and the interrupt controller answer is the
  parameter \<open>time_in\<close> and \<open>plic_in\<close>; the addresses of the assembly entry points are parameters.
\<close>

unbundle bit_operations_syntax

section \<open>State\<close>

record sys_state = file_state +
  stvec :: "nat \<Rightarrow> uint64"
  sepc :: "nat \<Rightarrow> uint64"
  scause :: "nat \<Rightarrow> uint64"
  stval :: "nat \<Rightarrow> uint64"
  stimecmp :: "nat \<Rightarrow> uint64"
  time_in :: "nat \<Rightarrow> uint64"
  time_pos :: nat
  plic_in :: "nat \<Rightarrow> uint"
  plic_pos :: nat
  plic_w :: "(uint64 \<times> uint) list"
  ticks :: uint
  fork_first :: bool
  started :: bool
  kernelvec_addr :: uint64
  usertrap_addr :: uint64
  uservec_off :: uint64
  userret_off :: uint64

section \<open>Registers\<close>

definition w_stvec :: "uint64 \<Rightarrow> (unit, 'a sys_state_scheme) K" where
  "w_stvec x = kmod (\<lambda>s. s\<lparr>stvec := (stvec s)(tp s := x)\<rparr>)"

definition r_sepc :: "(uint64, 'a sys_state_scheme) K" where
  "r_sepc = kget (\<lambda>s. sepc s (tp s))"

definition w_sepc :: "uint64 \<Rightarrow> (unit, 'a sys_state_scheme) K" where
  "w_sepc x = kmod (\<lambda>s. s\<lparr>sepc := (sepc s)(tp s := x)\<rparr>)"

definition r_scause :: "(uint64, 'a sys_state_scheme) K" where
  "r_scause = kget (\<lambda>s. scause s (tp s))"

definition r_stval :: "(uint64, 'a sys_state_scheme) K" where
  "r_stval = kget (\<lambda>s. stval s (tp s))"

definition r_satp :: "(uint64, 'a sys_state_scheme) K" where
  "r_satp = kget (\<lambda>s. satp s (tp s))"

definition r_tp :: "(uint64, 'a sys_state_scheme) K" where
  "r_tp = kget (\<lambda>s. of_nat (tp s))"

definition r_time :: "(uint64, 'a sys_state_scheme) K" where
  "r_time =
     kbind (kget (\<lambda>s. time_in s (time_pos s))) (\<lambda>t.
     kbind (kmod (\<lambda>s. s\<lparr>time_pos := Suc (time_pos s)\<rparr>)) (\<lambda>_.
     kret t))"

definition w_stimecmp :: "uint64 \<Rightarrow> (unit, 'a sys_state_scheme) K" where
  "w_stimecmp x = kmod (\<lambda>s. s\<lparr>stimecmp := (stimecmp s)(tp s := x)\<rparr>)"

section \<open>The interrupt controller\<close>

abbreviation (input) UART0_IRQ :: int where "UART0_IRQ \<equiv> 10"
abbreviation (input) VIRTIO0_IRQ :: int where "VIRTIO0_IRQ \<equiv> 1"

definition plic_write :: "uint64 \<Rightarrow> uint \<Rightarrow> (unit, 'a sys_state_scheme) K" where
  "plic_write a v = kmod (\<lambda>s. s\<lparr>plic_w := (a, v) # plic_w s\<rparr>)"

definition PLIC_SENABLE :: "nat \<Rightarrow> uint64" where
  "PLIC_SENABLE hart = PLIC + 0x2080 + of_nat hart * 0x100"

definition PLIC_SPRIORITY :: "nat \<Rightarrow> uint64" where
  "PLIC_SPRIORITY hart = PLIC + 0x201000 + of_nat hart * 0x2000"

definition PLIC_SCLAIM :: "nat \<Rightarrow> uint64" where
  "PLIC_SCLAIM hart = PLIC + 0x201004 + of_nat hart * 0x2000"

definition plicinit :: "(unit, 'a sys_state_scheme) K" where
  "plicinit = kseq [plic_write (PLIC + 40) 1, plic_write (PLIC + 4) 1]"

definition plicinithart :: "(unit, 'a sys_state_scheme) K" where
  "plicinithart =
     kbind cpuid (\<lambda>hart.
     kseq [
       plic_write (PLIC_SENABLE hart) (push_bit 10 1 OR push_bit 1 1),
       plic_write (PLIC_SPRIORITY hart) 0])"

definition plic_claim :: "(int, 'a sys_state_scheme) K" where
  "plic_claim =
     kbind (kget (\<lambda>s. plic_in s (plic_pos s))) (\<lambda>v.
     kbind (kmod (\<lambda>s. s\<lparr>plic_pos := Suc (plic_pos s)\<rparr>)) (\<lambda>_.
     kret (sint v)))"

definition plic_complete :: "int \<Rightarrow> (unit, 'a sys_state_scheme) K" where
  "plic_complete irq = kbind cpuid (\<lambda>hart. plic_write (PLIC_SCLAIM hart) (of_int irq))"

section \<open>Process system calls\<close>

definition sys_exit :: "(uint64, 'a sys_state_scheme) K" where
  "sys_exit = kbind (argint 0) (\<lambda>n. kbind (kexit n) (\<lambda>_. kret 0))"

definition sys_getpid :: "(uint64, 'a sys_state_scheme) K" where
  "sys_getpid = with_myproc (\<lambda>p. kget (\<lambda>s. of_int (p_pid (procs s p))))"

definition sys_fork :: "(uint64, 'a sys_state_scheme) K" where
  "sys_fork = kbind kfork (\<lambda>r. kret (of_int r))"

definition sys_wait :: "(uint64, 'a sys_state_scheme) K" where
  "sys_wait = kbind (argaddr 0) (\<lambda>p. kbind (kwait p) (\<lambda>r. kret (of_int r)))"

abbreviation (input) SBRK_EAGER :: int where "SBRK_EAGER \<equiv> 1"

definition sys_sbrk :: "(uint64, 'a sys_state_scheme) K" where
  "sys_sbrk =
     kbind (argint 0) (\<lambda>n.
     kbind (argint 1) (\<lambda>t.
     with_myproc (\<lambda>p.
     kbind (kget (\<lambda>s. p_sz (procs s p))) (\<lambda>addr.
     if t = SBRK_EAGER \<or> n < 0 then
       kbind (growproc n) (\<lambda>r. kret (if r < 0 then - 1 else addr))
     else if addr + of_int n < addr then kret (- 1)
     else if addr + of_int n > TRAPFRAME then kret (- 1)
     else
       kbind (kmod (set_proc p (\<lambda>q. q\<lparr>p_sz := p_sz q + of_int n\<rparr>))) (\<lambda>_.
       kret addr)))))"

definition sys_pause :: "(uint64, 'a sys_state_scheme) K" where
  "sys_pause =
     kbind (argint 0) (\<lambda>n0.
     let n = (if n0 < 0 then 0 else n0) in
     kbind (acquire TicksLock) (\<lambda>_.
     kbind (kget ticks) (\<lambda>ticks0.
     kbind (kloop (\<lambda>_.
       kbind (kget (\<lambda>s. ticks s - ticks0 < of_int n)) (\<lambda>early.
       if \<not> early then kbind (release TicksLock) (\<lambda>_. kret (Inr 0))
       else
         kbind (with_myproc killed) (\<lambda>k.
         if k \<noteq> 0 then kbind (release TicksLock) (\<lambda>_. kret (Inr (- 1)))
         else
           kbind (kseq [
             sleep_prepare (Some ChTicks),
             release TicksLock,
             sleep,
             acquire TicksLock]) (\<lambda>_. kret (Inl ()))))) ()) kret)))"

definition sys_kill :: "(uint64, 'a sys_state_scheme) K" where
  "sys_kill = kbind (argint 0) (\<lambda>pid. kbind (kkill pid) (\<lambda>r. kret (of_int r)))"

definition sys_uptime :: "(uint64, 'a sys_state_scheme) K" where
  "sys_uptime =
     kbind (acquire TicksLock) (\<lambda>_.
     kbind (kget ticks) (\<lambda>x.
     kbind (release TicksLock) (\<lambda>_.
     kret (ucast x))))"

section \<open>The dispatcher\<close>

definition syscalls :: "int \<Rightarrow> (uint64, 'a sys_state_scheme) K option" where
  "syscalls num =
     (if num = 1 then Some sys_fork
      else if num = 2 then Some sys_exit
      else if num = 3 then Some sys_wait
      else if num = 4 then Some sys_pipe
      else if num = 5 then Some sys_read
      else if num = 6 then Some sys_kill
      else if num = 7 then Some sys_exec
      else if num = 8 then Some sys_fstat
      else if num = 9 then Some sys_chdir
      else if num = 10 then Some sys_dup
      else if num = 11 then Some sys_getpid
      else if num = 12 then Some sys_sbrk
      else if num = 13 then Some sys_pause
      else if num = 14 then Some sys_uptime
      else if num = 15 then Some sys_open
      else if num = 16 then Some sys_write
      else if num = 17 then Some sys_mknod
      else if num = 18 then Some sys_unlink
      else if num = 19 then Some sys_link
      else if num = 20 then Some sys_mkdir
      else if num = 21 then Some sys_close
      else if num = 22 then Some sys_sync
      else None)"

definition syscall :: "(unit, 'a sys_state_scheme) K" where
  "syscall = with_myproc (\<lambda>p.
     kbind (tf_get p A7) (\<lambda>a7.
     let num = sint (ucast a7 :: 32 word) in
     case syscalls num of
       Some f \<Rightarrow> kbind f (\<lambda>r. tf_set p A0 r)
     | None \<Rightarrow>
         kbind (kget (\<lambda>s. procs s p)) (\<lambda>q.
         kbind (printk (''%d %s: unknown sys call %d'' @ [CHR 0x0A])
                  [ArgInt (of_int (p_pid q)), ArgStr (Some (p_name q)), ArgInt (of_int num)]) (\<lambda>_.
         tf_set p A0 (- 1)))))"

section \<open>Traps\<close>

definition trapinit :: "(unit, 'a sys_state_scheme) K" where
  "trapinit = initlock TicksLock ''time''"

definition trapinithart :: "(unit, 'a sys_state_scheme) K" where
  "trapinithart = kbind (kget kernelvec_addr) w_stvec"

definition clockintr :: "(unit, 'a sys_state_scheme) K" where
  "clockintr =
     kbind cpuid (\<lambda>c.
     kbind (kwhen (c = 0) (kseq [
       acquire TicksLock,
       kmod (\<lambda>s. s\<lparr>ticks := ticks s + 1\<rparr>),
       wakeup ChTicks,
       release TicksLock])) (\<lambda>_.
     kbind r_time (\<lambda>t. w_stimecmp (t + 1000000))))"

definition devintr :: "(int, 'a sys_state_scheme) K" where
  "devintr =
     kbind r_scause (\<lambda>sc.
     if sc = 0x8000000000000009 then
       kbind plic_claim (\<lambda>irq.
       kbind (if irq = UART0_IRQ then uartintr
              else if irq = VIRTIO0_IRQ then virtio_disk_intr
              else if irq \<noteq> 0 then
                kbind (printk (''unexpected interrupt irq=%d'' @ [CHR 0x0A]) [ArgInt (of_int irq)]) (\<lambda>_. kret ())
              else kret ()) (\<lambda>_.
       kbind (kwhen (irq \<noteq> 0) (plic_complete irq)) (\<lambda>_.
       kret 1)))
     else if sc = 0x8000000000000005 then kbind clockintr (\<lambda>_. kret 2)
     else kret 0)"

definition prepare_return :: "(unit, 'a sys_state_scheme) K" where
  "prepare_return = with_myproc (\<lambda>p.
     kbind intr_off (\<lambda>_.
     kbind (kget uservec_off) (\<lambda>off.
     kbind (w_stvec (TRAMPOLINE + off)) (\<lambda>_.
     kbind r_satp (\<lambda>sa.
     kbind (kget (\<lambda>s. (p_kstack (procs s p), usertrap_addr s))) (\<lambda>(kstack, ut).
     kbind r_tp (\<lambda>hart.
     kbind (kseq [
       tf_set p Kernel_satp sa,
       tf_set p Kernel_sp (kstack + PGSIZE),
       tf_set p Kernel_trap ut,
       tf_set p Kernel_hartid hart]) (\<lambda>_.
     kbind r_sstatus (\<lambda>x.
     kbind (w_sstatus ((x AND NOT SSTATUS_SPP) OR SSTATUS_SPIE)) (\<lambda>_.
     kbind (tf_get p Epc) w_sepc))))))))))"

definition usertrap_fault :: "nat \<Rightarrow> (unit, 'a sys_state_scheme) K" where
  "usertrap_fault p =
     kbind r_scause (\<lambda>sc.
     kbind r_stval (\<lambda>va.
     kbind (kget (\<lambda>s. procs s p)) (\<lambda>q.
     kbind (if sc = 15 \<or> sc = 13 then kbind (vmfault (p_pagetable q) (p_sz q) va (sc = 13)) (\<lambda>r. kret (r \<noteq> 0))
            else kret False) (\<lambda>ok.
     if ok then kret ()
     else
       kbind r_sepc (\<lambda>pc.
       kbind (printk (''usertrap(): unexpected scause 0x%lx pid=%d'' @ [CHR 0x0A]) [ArgInt sc, ArgInt (of_int (p_pid q))]) (\<lambda>_.
       kbind (printk (''            sepc=0x%lx stval=0x%lx'' @ [CHR 0x0A]) [ArgInt pc, ArgInt va]) (\<lambda>_.
       setkilled p)))))))"

definition usertrap_handle :: "nat \<Rightarrow> (int, 'a sys_state_scheme) K" where
  "usertrap_handle p =
     kbind r_scause (\<lambda>sc.
     if sc = 8 then
       kbind (killed p) (\<lambda>k.
       kbind (kwhen (k \<noteq> 0) (kexit (- 1))) (\<lambda>_.
       kbind (tf_get p Epc) (\<lambda>pc.
       kbind (kseq [tf_set p Epc (pc + 4), intr_on, syscall]) (\<lambda>_.
       kret 0))))
     else
       kbind devintr (\<lambda>which_dev.
       if which_dev \<noteq> 0 then kret which_dev
       else kbind (usertrap_fault p) (\<lambda>_. kret 0)))"

definition usertrap :: "(uint64, 'a sys_state_scheme) K" where
  "usertrap =
     kbind r_sstatus (\<lambda>x.
     if x AND SSTATUS_SPP \<noteq> 0 then kpanic ''usertrap: not from user mode''
     else
       kbind trapinithart (\<lambda>_.
       with_myproc (\<lambda>p.
       kbind r_sepc (\<lambda>pc.
       kbind (tf_set p Epc pc) (\<lambda>_.
       kbind (usertrap_handle p) (\<lambda>which_dev.
       kbind (killed p) (\<lambda>k.
       kbind (kseq [
         kwhen (k \<noteq> 0) (kexit (- 1)),
         kwhen (which_dev = 2) yield,
         prepare_return]) (\<lambda>_.
       kget (\<lambda>s. MAKE_SATP (p_pagetable (procs s p)))))))))))"

definition kerneltrap :: "(unit, 'a sys_state_scheme) K" where
  "kerneltrap =
     kbind r_sepc (\<lambda>pc.
     kbind r_sstatus (\<lambda>st.
     kbind r_scause (\<lambda>sc.
     if st AND SSTATUS_SPP = 0 then kpanic ''kerneltrap: not from supervisor mode''
     else
       kbind intr_get (\<lambda>on.
       if on then kpanic ''kerneltrap: interrupts enabled''
       else
         kbind devintr (\<lambda>which_dev.
         if which_dev = 0 then
           kbind r_stval (\<lambda>va.
           kbind (printk (''scause=0x%lx sepc=0x%lx stval=0x%lx'' @ [CHR 0x0A]) [ArgInt sc, ArgInt pc, ArgInt va]) (\<lambda>_.
           kpanic ''kerneltrap''))
         else
           kbind (if which_dev = 2 then myproc else kret None) (\<lambda>q.
           kseq [
             kwhen (q \<noteq> None) yield,
             w_sepc pc,
             w_sstatus st]))))))"

section \<open>The first return to user space, and booting\<close>

text \<open>The result is the value of \<open>satp\<close> with which the trampoline is entered.\<close>

definition forkret :: "(uint64, 'a sys_state_scheme) K" where
  "forkret = with_myproc (\<lambda>p.
     kbind (release (ProcLock p)) (\<lambda>_.
     kbind (kget fork_first) (\<lambda>first.
     kbind (kwhen first (
       kbind (kseq [
         fsinit ROOTDEV,
         kmod (\<lambda>s. s\<lparr>fork_first := False\<rparr>)]) (\<lambda>_.
       kbind (kexec (chars ''/init'') [chars ''/init'']) (\<lambda>r.
       kbind (tf_set p A0 (of_int r)) (\<lambda>_.
       if r = - 1 then kpanic ''exec'' else kret ()))))) (\<lambda>_.
     kbind prepare_return (\<lambda>_.
     kget (\<lambda>s. MAKE_SATP (p_pagetable (procs s p))))))))"

definition main :: "(unit, 'a sys_state_scheme) K" where
  "main =
     kbind cpuid (\<lambda>c.
     kbind (if c = 0 then
         kbind consoleinit (\<lambda>_.
         kbind printkinit (\<lambda>_.
         kbind (printk [CHR 0x0A] []) (\<lambda>_.
         kbind (printk (''xv6 kernel is booting'' @ [CHR 0x0A]) []) (\<lambda>_.
         kbind (printk [CHR 0x0A] []) (\<lambda>_.
         kseq [
           kinit,
           kvminit,
           kvminithart,
           procinit,
           trapinit,
           trapinithart,
           plicinit,
           plicinithart,
           binit,
           iinit,
           fileinit,
           virtio_disk_init,
           userinit,
           kmod (\<lambda>s. s\<lparr>started := True\<rparr>)])))))
       else
         kbind (kloop (\<lambda>_. kbind (kget started) (\<lambda>st. if st then kret (Inr ()) else kbind kenv (\<lambda>_. kret (Inl ())))) ()) (\<lambda>_.
         kbind (printk (''hart %d starting'' @ [CHR 0x0A]) [ArgInt (of_nat c)]) (\<lambda>_.
         kseq [kvminithart, trapinithart, plicinithart]))) (\<lambda>_.
     scheduler))"

end
