(* ===== verification/Start.thy ===== *)
theory Start
  imports Machine
begin

text \<open>
  Machine mode (\<open>kernel/start.c\<close>): the control registers that \<open>start\<close> sets before its \<open>mret\<close>
  instruction leaves machine mode for \<open>main\<close>.  The instruction itself is not modelled: \<open>start\<close> ends with
  the registers it reads.
\<close>

unbundle bit_operations_syntax

record mcsr =
  mhartid :: uint64
  mstatus :: uint64
  mepc :: uint64
  msatp :: uint64
  medeleg :: uint64
  mideleg :: uint64
  sie :: uint64
  pmpaddr0 :: uint64
  pmpcfg0 :: uint64
  menvcfg :: uint64
  mcounteren :: uint64
  mstimecmp :: uint64
  mtime :: uint64
  mtp :: uint64

abbreviation (input) MSTATUS_MPP_MASK :: uint64 where "MSTATUS_MPP_MASK \<equiv> 0x1800"
abbreviation (input) MSTATUS_MPP_S :: uint64 where "MSTATUS_MPP_S \<equiv> 0x800"
abbreviation (input) SIE_SEIE :: uint64 where "SIE_SEIE \<equiv> 0x200"
abbreviation (input) SIE_STIE :: uint64 where "SIE_STIE \<equiv> 0x20"
abbreviation (input) MENVCFG_STCE :: uint64 where "MENVCFG_STCE \<equiv> 0x8000000000000000"
abbreviation (input) MENVCFG_ADUE :: uint64 where "MENVCFG_ADUE \<equiv> 0x2000000000000000"

section \<open>Register access\<close>

definition r_mhartid :: "(uint64, 'a mcsr_scheme) K" where
  "r_mhartid = kget mhartid"

definition r_mstatus :: "(uint64, 'a mcsr_scheme) K" where
  "r_mstatus = kget mstatus"

definition w_mstatus :: "uint64 \<Rightarrow> (unit, 'a mcsr_scheme) K" where
  "w_mstatus x = kmod (\<lambda>c. c\<lparr>mstatus := x\<rparr>)"

definition w_mepc :: "uint64 \<Rightarrow> (unit, 'a mcsr_scheme) K" where
  "w_mepc x = kmod (\<lambda>c. c\<lparr>mepc := x\<rparr>)"

definition w_satp :: "uint64 \<Rightarrow> (unit, 'a mcsr_scheme) K" where
  "w_satp x = kmod (\<lambda>c. c\<lparr>msatp := x\<rparr>)"

definition w_medeleg :: "uint64 \<Rightarrow> (unit, 'a mcsr_scheme) K" where
  "w_medeleg x = kmod (\<lambda>c. c\<lparr>medeleg := x\<rparr>)"

definition w_mideleg :: "uint64 \<Rightarrow> (unit, 'a mcsr_scheme) K" where
  "w_mideleg x = kmod (\<lambda>c. c\<lparr>mideleg := x\<rparr>)"

definition r_sie :: "(uint64, 'a mcsr_scheme) K" where
  "r_sie = kget sie"

definition w_sie :: "uint64 \<Rightarrow> (unit, 'a mcsr_scheme) K" where
  "w_sie x = kmod (\<lambda>c. c\<lparr>sie := x\<rparr>)"

definition w_pmpaddr0 :: "uint64 \<Rightarrow> (unit, 'a mcsr_scheme) K" where
  "w_pmpaddr0 x = kmod (\<lambda>c. c\<lparr>pmpaddr0 := x\<rparr>)"

definition w_pmpcfg0 :: "uint64 \<Rightarrow> (unit, 'a mcsr_scheme) K" where
  "w_pmpcfg0 x = kmod (\<lambda>c. c\<lparr>pmpcfg0 := x\<rparr>)"

definition r_menvcfg :: "(uint64, 'a mcsr_scheme) K" where
  "r_menvcfg = kget menvcfg"

definition w_menvcfg :: "uint64 \<Rightarrow> (unit, 'a mcsr_scheme) K" where
  "w_menvcfg x = kmod (\<lambda>c. c\<lparr>menvcfg := x\<rparr>)"

definition r_mcounteren :: "(uint64, 'a mcsr_scheme) K" where
  "r_mcounteren = kget mcounteren"

definition w_mcounteren :: "uint64 \<Rightarrow> (unit, 'a mcsr_scheme) K" where
  "w_mcounteren x = kmod (\<lambda>c. c\<lparr>mcounteren := x\<rparr>)"

definition m_r_time :: "(uint64, 'a mcsr_scheme) K" where
  "m_r_time = kget mtime"

definition m_w_stimecmp :: "uint64 \<Rightarrow> (unit, 'a mcsr_scheme) K" where
  "m_w_stimecmp x = kmod (\<lambda>c. c\<lparr>mstimecmp := x\<rparr>)"

definition w_tp :: "uint64 \<Rightarrow> (unit, 'a mcsr_scheme) K" where
  "w_tp x = kmod (\<lambda>c. c\<lparr>mtp := x\<rparr>)"

section \<open>Leaving machine mode\<close>

definition timerinit :: "(unit, 'a mcsr_scheme) K" where
  "timerinit =
     kbind r_menvcfg (\<lambda>e.
     kbind (w_menvcfg (e OR MENVCFG_STCE)) (\<lambda>_.
     kbind r_mcounteren (\<lambda>c.
     kbind (w_mcounteren (c OR 2)) (\<lambda>_.
     kbind m_r_time (\<lambda>t.
     m_w_stimecmp (t + 1000000))))))"

text \<open>\<open>main_addr\<close> is the address of \<open>main\<close>.\<close>

definition start :: "uint64 \<Rightarrow> (unit, 'a mcsr_scheme) K" where
  "start main_addr =
     kbind r_mstatus (\<lambda>x.
     kbind (w_mstatus ((x AND NOT MSTATUS_MPP_MASK) OR MSTATUS_MPP_S)) (\<lambda>_.
     kbind (w_mepc main_addr) (\<lambda>_.
     kbind (w_satp 0) (\<lambda>_.
     kbind (w_medeleg 0xffff) (\<lambda>_.
     kbind (w_mideleg 0xffff) (\<lambda>_.
     kbind r_sie (\<lambda>e.
     kbind (w_sie (e OR SIE_SEIE OR SIE_STIE)) (\<lambda>_.
     kbind (w_pmpaddr0 0x3fffffffffffff) (\<lambda>_.
     kbind (w_pmpcfg0 0xf) (\<lambda>_.
     kbind r_menvcfg (\<lambda>m.
     kbind (w_menvcfg (m OR MENVCFG_ADUE)) (\<lambda>_.
     kbind timerinit (\<lambda>_.
     kbind r_mhartid (\<lambda>id.
     w_tp (scast (ucast id :: 32 word))))))))))))))))"

section \<open>Bits\<close>

lemma csr_bits:
  "bit (0x1800 :: uint64) i \<longleftrightarrow> i = 11 \<or> i = 12" "bit (0x800 :: uint64) i \<longleftrightarrow> i = 11"
  "bit (0x200 :: uint64) i \<longleftrightarrow> i = 9" "bit (0x20 :: uint64) i \<longleftrightarrow> i = 5" "bit (2 :: uint64) i \<longleftrightarrow> i = 1"
  "bit (0x8000000000000000 :: uint64) i \<longleftrightarrow> i = 63" "bit (0x2000000000000000 :: uint64) i \<longleftrightarrow> i = 61"
proof -
  have p: "(0x1800 :: uint64) = 2 ^ 11 OR 2 ^ 12" "(0x800 :: uint64) = 2 ^ 11" "(0x200 :: uint64) = 2 ^ 9" "(0x20 :: uint64) = 2 ^ 5"
    "(2 :: uint64) = 2 ^ 1" "(0x8000000000000000 :: uint64) = 2 ^ 63" "(0x2000000000000000 :: uint64) = 2 ^ 61" by simp_all
  show "bit (0x1800 :: uint64) i \<longleftrightarrow> i = 11 \<or> i = 12" "bit (0x800 :: uint64) i \<longleftrightarrow> i = 11"
    "bit (0x200 :: uint64) i \<longleftrightarrow> i = 9" "bit (0x20 :: uint64) i \<longleftrightarrow> i = 5" "bit (2 :: uint64) i \<longleftrightarrow> i = 1"
    "bit (0x8000000000000000 :: uint64) i \<longleftrightarrow> i = 63" "bit (0x2000000000000000 :: uint64) i \<longleftrightarrow> i = 61"
    by (subst p; simp only: bit_or_iff bit_exp_iff; auto)+
qed

lemma hartid_fits:
  fixes x :: uint64
  assumes "x < 0x80000000"
  shows "scast (ucast x :: 32 word) = x"
proof -
  have x: "uint x < 2 ^ 31" using assms by (simp add: word_less_alt)
  have "sint (word_of_int (uint x) :: 32 word) = uint x" using x by (simp only: int_word_sint) simp
  moreover have "(ucast x :: 32 word) = word_of_int (uint x)" by simp
  ultimately have "sint (ucast x :: 32 word) = uint x" by (simp only:)
  then show ?thesis by (simp only: scast_eq word_of_int_uint)
qed

section \<open>Properties\<close>

text \<open>
  C27: \<open>start\<close> sets the machine up for \<open>mret\<close> to enter \<open>main\<close> in supervisor mode.  It ends with the previous
  privilege field of \<open>mstatus\<close> set to supervisor and every other bit of it as before, the
  return address at \<open>main\<close>, paging off, exceptions and interrupts delegated, external and timer
  interrupts enabled, all physical memory open to supervisor mode, the timer running, and the
  hart number in \<open>tp\<close>.
\<close>

theorem start_enters_supervisor:
  "\<exists>c'. start main_addr c e = (Ret (), c', e) \<and>
     (\<forall>i. bit (mstatus c') i = (if i = 11 then True else if i = 12 then False else bit (mstatus c) i)) \<and>
     mepc c' = main_addr \<and> msatp c' = 0 \<and> medeleg c' = 0xffff \<and> mideleg c' = 0xffff \<and>
     (\<forall>i. bit (sie c') i = (i = 5 \<or> i = 9 \<or> bit (sie c) i)) \<and>
     pmpaddr0 c' = 0x3fffffffffffff \<and> pmpcfg0 c' = 0xf \<and>
     (\<forall>i. bit (menvcfg c') i = (i = 61 \<or> i = 63 \<or> bit (menvcfg c) i)) \<and> bit (mcounteren c') 1 \<and>
     mstimecmp c' = mtime c + 1000000 \<and> (mhartid c < 0x80000000 \<longrightarrow> mtp c' = mhartid c)"
proof -
  let ?c = "c\<lparr>mstatus := (mstatus c AND NOT MSTATUS_MPP_MASK) OR MSTATUS_MPP_S, mepc := main_addr, msatp := 0, medeleg := 0xffff, mideleg := 0xffff,
    sie := sie c OR SIE_SEIE OR SIE_STIE, pmpaddr0 := 0x3fffffffffffff, pmpcfg0 := 0xf, menvcfg := (menvcfg c OR MENVCFG_ADUE) OR MENVCFG_STCE,
    mcounteren := mcounteren c OR 2, mstimecmp := mtime c + 1000000, mtp := scast (ucast (mhartid c) :: 32 word)\<rparr>"
  have "start main_addr c e = (Ret (), ?c, e)"
    by (simp add: start_def timerinit_def r_mstatus_def w_mstatus_def w_mepc_def w_satp_def w_medeleg_def w_mideleg_def r_sie_def w_sie_def
        w_pmpaddr0_def w_pmpcfg0_def r_menvcfg_def w_menvcfg_def r_mcounteren_def w_mcounteren_def m_r_time_def m_w_stimecmp_def
        r_mhartid_def w_tp_def kbind_Ret kmod_run)
  moreover have "bit ((x AND NOT MSTATUS_MPP_MASK) OR MSTATUS_MPP_S) i = (if i = 11 then True else if i = 12 then False else bit x i)"
    "bit (x OR SIE_SEIE OR SIE_STIE) i = (i = 5 \<or> i = 9 \<or> bit x i)" "bit ((x OR MENVCFG_ADUE) OR MENVCFG_STCE) i = (i = 61 \<or> i = 63 \<or> bit x i)"
    "bit (x OR 2) 1" for x :: uint64 and i
    by (simp_all only: bit_or_iff bit_and_iff bit_not_iff csr_bits) (auto dest: bit_imp_le_length)
  ultimately show ?thesis using hartid_fits [of "mhartid c"] by (intro exI [of _ ?c]) simp
qed

definition demo_csr :: mcsr where
  "demo_csr = \<lparr>mhartid = 2, mstatus = 0x1808, mepc = 0, msatp = 7, medeleg = 0, mideleg = 0, sie = 0, pmpaddr0 = 0, pmpcfg0 = 0,
     menvcfg = 0, mcounteren = 0, mstimecmp = 0, mtime = 50, mtp = 0\<rparr>"

theorem start_enters_supervisor_witness:
  "\<exists>c'. start 0x80000e00 demo_csr [] = (Ret (), c', []) \<and> bit (mstatus c') 11 \<and> \<not> bit (mstatus c') 12 \<and>
     mepc c' = 0x80000e00 \<and> msatp c' = 0 \<and> mstimecmp c' = 1000050 \<and> mtp c' = 2"
proof -
  have "mhartid demo_csr < 0x80000000" "mhartid demo_csr = 2" "mtime demo_csr = 50"
    by (simp_all add: demo_csr_def)
  then show ?thesis
    using start_enters_supervisor [of "0x80000e00" demo_csr "[]"] by auto
qed

end
