(* ===== verification/UserMem.thy ===== *)
theory UserMem
  imports Calm
begin

text \<open>
  User memory as the system calls see it: ranges of user addresses that are mapped, the bytes
  behind them, and what a copy to such a range does.  These facts depend on the memory, the
  free list and the readiness of the allocator only, so they carry over to every other
  state with the same memory.
\<close>

definition same_mem :: "'a kmem_state_scheme \<Rightarrow> 'b kmem_state_scheme \<Rightarrow> bool" where
  "same_mem s t \<longleftrightarrow> mem t = mem s \<and> freelist t = freelist s \<and> kend t = kend s"

lemma kmem_inv_same: "same_mem s t \<Longrightarrow> kmem_inv t = kmem_inv s"
proof -
  assume m: "same_mem s t"
  then have "kpage t = kpage s" by (intro ext) (simp add: kpage_def same_mem_def)
  then show ?thesis using m by (intro ext) (simp add: kmem_inv_def same_mem_def)
qed

lemma same_mem_facts:
  assumes "same_mem s t"
  shows "free_pages t = free_pages s" "vtrans t = vtrans s" "upa t = upa s" "kpage t = kpage s"
    "ureadable t = ureadable s" "uwritable t = uwritable s"
proof -
  show f: "free_pages t = free_pages s" by (simp add: free_pages_def kmem_inv_same [OF assms])
  show v: "vtrans t = vtrans s" using assms by (intro ext) (simp add: vtrans_def same_mem_def)
  show "upa t = upa s" by (intro ext) (simp add: upa_def v)
  show "kpage t = kpage s" using assms by (intro ext) (simp add: kpage_def same_mem_def)
  show r: "ureadable t = ureadable s" using assms by (intro ext) (simp add: ureadable_def v f same_mem_def)
  show "uwritable t = uwritable s" by (intro ext) (simp add: uwritable_def v r)
qed

lemma vm_wf_same:
  assumes "same_mem s t" "kmem_ready t" "vm_wf s pt"
  shows "vm_wf t pt"
  using assms by (simp add: vm_wf_def kmem_ok_def kmem_inv_same [OF assms(1)] same_mem_facts [OF assms(1)])
    (simp add: same_mem_def)

definition ubytes :: "'a kmem_state_scheme \<Rightarrow> uint64 \<Rightarrow> uint64 \<Rightarrow> nat \<Rightarrow> uchar list" where
  "ubytes s pt va n = map (\<lambda>i. mem s (upa s pt (va + of_nat i))) [0..<n]"

definition rrange :: "'a kmem_state_scheme \<Rightarrow> uint64 \<Rightarrow> uint64 \<Rightarrow> nat \<Rightarrow> bool" where
  "rrange s pt va n \<longleftrightarrow> unat va + n \<le> unat MAXVA \<and> (\<forall>i<n. ureadable s pt (va + of_nat i))"

definition wrange :: "'a kmem_state_scheme \<Rightarrow> uint64 \<Rightarrow> uint64 \<Rightarrow> nat \<Rightarrow> bool" where
  "wrange s pt va n \<longleftrightarrow> unat va + n \<le> unat MAXVA \<and> (\<forall>i<n. uwritable s pt (va + of_nat i)) \<and>
     inj_on (\<lambda>i. upa s pt (va + of_nat i)) {..<n}"

lemma range_same:
  assumes "same_mem s t"
  shows "ubytes t pt va n = ubytes s pt va n" "rrange t pt va n = rrange s pt va n" "wrange t pt va n = wrange s pt va n"
  using assms same_mem_facts [OF assms] by (simp_all add: ubytes_def rrange_def wrange_def same_mem_def)

lemma range_sub:
  assumes "i + k \<le> n"
  shows "rrange s pt va n \<Longrightarrow> rrange s pt (va + of_nat i) k" "wrange s pt va n \<Longrightarrow> wrange s pt (va + of_nat i) k"
proof -
  have u: "unat (va + of_nat i) = unat va + i" if "unat va + n \<le> unat MAXVA"
  proof -
    have "unat va + i < 2 ^ 64" using that assms by simp
    then show ?thesis by (simp add: unat_word_ariths unat_of_nat_less)
  qed
  show "rrange s pt (va + of_nat i) k" if "rrange s pt va n"
    using that assms u unfolding rrange_def by (auto simp: add.assoc of_nat_add [symmetric] simp del: of_nat_add)
  show "wrange s pt (va + of_nat i) k" if "wrange s pt va n"
  proof -
    have "inj_on (\<lambda>j. upa s pt (va + of_nat i + of_nat j)) {..<k}"
    proof (rule inj_onI)
      fix j l assume "j \<in> {..<k}" "l \<in> {..<k}" "upa s pt (va + of_nat i + of_nat j) = upa s pt (va + of_nat i + of_nat l)"
      then show "j = l" using that assms unfolding wrange_def
        by (auto simp: add.assoc of_nat_add [symmetric] simp del: of_nat_add dest!: inj_onD)
    qed
    then show ?thesis using that assms u unfolding wrange_def
      by (auto simp: add.assoc of_nat_add [symmetric] simp del: of_nat_add)
  qed
qed

lemma ubytes_length [simp]: "length (ubytes s pt va n) = n"
  by (simp add: ubytes_def)

lemma ubytes_drop:
  "k < n \<Longrightarrow> drop k (ubytes s pt va n) = hd (ubytes s pt (va + of_nat k) 1) # drop (Suc k) (ubytes s pt va n)"
  by (subst Cons_nth_drop_Suc [symmetric]) (simp_all add: ubytes_def)

lemma copyin_run:
  "vm_wf s pt \<Longrightarrow> rrange s pt va n \<Longrightarrow> copyin pt psz va n s e = (Ret (0, ubytes s pt va n), s, e)"
  using copyin_loop [of s pt va n psz "[]" e] by (simp add: copyin_def rrange_def ubytes_def)

text \<open>\<open>ustored s pt va bs m\<close>: \<open>m\<close> is the memory of \<open>s\<close> with \<open>bs\<close> stored at user address \<open>va\<close>.\<close>

definition ustored :: "'a kmem_state_scheme \<Rightarrow> uint64 \<Rightarrow> uint64 \<Rightarrow> uchar list \<Rightarrow> memory \<Rightarrow> bool" where
  "ustored s pt va bs m \<longleftrightarrow> vm_wf (s\<lparr>mem := m\<rparr>) pt \<and> vtrans (s\<lparr>mem := m\<rparr>) pt = vtrans s pt \<and>
     set (tables m 2 pt) = set (tables (mem s) 2 pt) \<and> free_pages (s\<lparr>mem := m\<rparr>) = free_pages s \<and>
     ubytes (s\<lparr>mem := m\<rparr>) pt va (length bs) = bs \<and>
     (\<forall>x. (\<forall>i<length bs. x \<noteq> upa s pt (va + of_nat i)) \<longrightarrow> m x = mem s x)"

lemma ustored_facts:
  assumes "ustored s pt va bs m"
  shows "upa (s\<lparr>mem := m\<rparr>) pt = upa s pt" "ureadable (s\<lparr>mem := m\<rparr>) pt = ureadable s pt"
    "uwritable (s\<lparr>mem := m\<rparr>) pt = uwritable s pt"
    "rrange (s\<lparr>mem := m\<rparr>) pt = rrange s pt" "wrange (s\<lparr>mem := m\<rparr>) pt = wrange s pt" "vm_wf (s\<lparr>mem := m\<rparr>) pt"
proof -
  let ?t = "s\<lparr>mem := m\<rparr>"
  have v: "vtrans ?t pt = vtrans s pt" using assms by (simp add: ustored_def)
  show u: "upa ?t pt = upa s pt" by (intro ext) (simp add: upa_def v)
  show r: "ureadable ?t pt = ureadable s pt" using assms by (intro ext) (simp add: ustored_def ureadable_def)
  show w: "uwritable ?t pt = uwritable s pt" by (intro ext) (simp add: uwritable_def v r)
  show "rrange ?t pt = rrange s pt" "wrange ?t pt = wrange s pt" by (intro ext, simp add: rrange_def wrange_def u r w)+
  show "vm_wf ?t pt" using assms by (simp add: ustored_def)
qed

lemma ustored_same:
  assumes "same_mem s t" "kmem_ready (t\<lparr>mem := m\<rparr>)" "ustored s pt va bs m"
  shows "ustored t pt va bs m"
proof -
  have sm: "same_mem (s\<lparr>mem := m\<rparr>) (t\<lparr>mem := m\<rparr>)" using assms(1) by (simp add: same_mem_def)
  note f = same_mem_facts [OF assms(1)] and fm = same_mem_facts [OF sm]
  show ?thesis using assms(3) vm_wf_same [OF sm assms(2)] unfolding ustored_def f fm range_same [OF sm]
    using assms(1) by (simp add: same_mem_def)
qed

lemma copyout_run:
  assumes "vm_wf s pt" "wrange s pt va (length bs)"
  shows "\<exists>m. copyout pt psz va bs s e = (Ret 0, s\<lparr>mem := m\<rparr>, e) \<and> ustored s pt va bs m"
proof -
  obtain m' where r: "copyout pt psz va bs s e = (Ret 0, s\<lparr>mem := m'\<rparr>, e)"
    and m: "vm_wf (s\<lparr>mem := m'\<rparr>) pt" "vtrans (s\<lparr>mem := m'\<rparr>) pt = vtrans s pt"
      "tables m' 2 pt = tables (mem s) 2 pt" "free_pages (s\<lparr>mem := m'\<rparr>) = free_pages s"
      "\<forall>i<length bs. m' (upa s pt (va + of_nat i)) = bs ! i"
      "\<forall>x. (\<forall>i<length bs. x \<noteq> upa s pt (va + of_nat i)) \<longrightarrow> m' x = mem s x"
    using copyout_loop [of s pt va bs psz e] assms unfolding wrange_def copyout_def by blast
  have "upa (s\<lparr>mem := m'\<rparr>) pt = upa s pt" using m(2) by (intro ext) (simp add: upa_def)
  then have "ubytes (s\<lparr>mem := m'\<rparr>) pt va (length bs) = bs"
    using m(5) by (intro nth_equalityI) (simp_all add: ubytes_def)
  then show ?thesis using r m by (intro exI [of _ m']) (simp add: ustored_def)
qed

lemma ustored_nth:
  "ustored s pt va bs m \<Longrightarrow> i < length bs \<Longrightarrow> m (upa s pt (va + of_nat i)) = bs ! i"
  using ustored_facts(1) [of s pt va bs m] unfolding ustored_def ubytes_def by (auto dest: arg_cong [where f = "\<lambda>l. l ! i"])

lemma ustored_append:
  assumes "ustored s pt va bs m" "ustored (s\<lparr>mem := m\<rparr>) pt (va + of_nat (length bs)) cs n" "wrange s pt va (length bs + length cs)"
  shows "ustored s pt va (bs @ cs) n"
proof -
  let ?t = "s\<lparr>mem := m\<rparr>" and ?u = "s\<lparr>mem := n\<rparr>"
  note ft = ustored_facts [OF assms(1)] and fu = ustored_facts [OF assms(2), simplified]
  have e: "va + of_nat (length bs) + of_nat i = va + of_nat (length bs + i)" for i by (simp add: add.assoc)
  have inj: "inj_on (\<lambda>i. upa s pt (va + of_nat i)) {..<length bs + length cs}"
    using assms(3) by (simp add: wrange_def)
  have frame: "n x = m x" if "\<forall>j<length cs. x \<noteq> upa s pt (va + of_nat (length bs + j))" for x
    using assms(2) that unfolding ustored_def ft(1) e by simp
  have old: "n (upa s pt (va + of_nat i)) = bs ! i" if i: "i < length bs" for i
  proof -
    have "upa s pt (va + of_nat i) \<noteq> upa s pt (va + of_nat (length bs + j))" if "j < length cs" for j
      using inj_onD [OF inj, of i "length bs + j"] that i by auto
    then show ?thesis using frame ustored_nth [OF assms(1) i] by simp
  qed
  have new: "n (upa s pt (va + of_nat (length bs + j))) = cs ! j" if "j < length cs" for j
    using ustored_nth [OF assms(2) that] unfolding ft(1) e by simp
  have "ubytes ?u pt va (length (bs @ cs)) = bs @ cs"
  proof (rule nth_equalityI)
    fix i assume "i < length (ubytes ?u pt va (length (bs @ cs)))"
    then have i: "i < length bs + length cs" by simp
    show "ubytes ?u pt va (length (bs @ cs)) ! i = (bs @ cs) ! i"
    proof (cases "i < length bs")
      case True
      then show ?thesis using i old by (simp add: ubytes_def fu(1) ft(1) nth_append)
    next
      case False
      then obtain j where "i = length bs + j" "j < length cs" using i by (metis add_less_cancel_left le_add_diff_inverse not_less)
      then show ?thesis using new [of j] by (simp add: ubytes_def fu(1) ft(1) nth_append del: of_nat_add)
    qed
  qed simp
  moreover have "n x = mem s x" if "\<forall>i<length (bs @ cs). x \<noteq> upa s pt (va + of_nat i)" for x
  proof -
    have "\<forall>j<length cs. x \<noteq> upa s pt (va + of_nat (length bs + j))" using that by (auto simp del: of_nat_add)
    moreover have "\<forall>j<length bs. x \<noteq> upa s pt (va + of_nat j)" using that by auto
    ultimately show ?thesis using assms(1) frame unfolding ustored_def by simp
  qed
  ultimately show ?thesis using assms(1,2) by (simp add: ustored_def)
qed

lemma ustored_Nil: "vm_wf s pt \<Longrightarrow> ustored s pt va [] (mem s)"
  by (simp add: ustored_def ubytes_def)

section \<open>Inside a critical section\<close>

lemma acquired_same_mem: "same_mem s (acquired lk s)"
  by (simp add: same_mem_def)

lemma same_mem_sym: "same_mem s t \<Longrightarrow> same_mem t s"
  by (simp add: same_mem_def)

lemma kmem_ready_acquired: "calm L s \<Longrightarrow> KmemLock \<notin> insert lk L \<Longrightarrow> kmem_ready (acquired lk s)"
  using kmem_ready_calm [OF calm_acquired] by blast

lemma vm_wf_acquired: "vm_wf s pt \<Longrightarrow> calm L s \<Longrightarrow> KmemLock \<notin> insert lk L \<Longrightarrow> vm_wf (acquired lk s) pt"
  using vm_wf_same [OF acquired_same_mem kmem_ready_acquired] .

lemma ustored_acquired:
  assumes "calm L s" "KmemLock \<notin> insert lk L" "ustored (acquired lk s) pt va bs m"
  shows "ustored s pt va bs m"
  using assms kmem_ready_calm [of L "s\<lparr>mem := m\<rparr>"]
  by (intro ustored_same [OF same_mem_sym [OF acquired_same_mem] _ assms(3)]) simp

end
