(* ===== verification/States.thy ===== *)
theory States
  imports File UserMem
begin

text \<open>
  A concrete idle machine for the layers above the serial line: process 3 runs, no lock is
  held, the caches are empty and the disk is zero.  The examples of the later theories run
  the code on this state.  \<open>user_page\<close> adds a page of user memory.
\<close>

lemma settle_iff: "settle s = s \<longleftrightarrow> (noff s = 0 \<longrightarrow> c_intena (cpus s (tp s)) = sie_on s)"
proof -
  have "settle s = s \<longleftrightarrow> cpus (settle s) (tp s) = cpus s (tp s)"
    by (cases s) (auto simp: settle_def noff_def sie_on_def fun_eq_iff)
  also have "\<dots> \<longleftrightarrow> (noff s = 0 \<longrightarrow> c_intena (cpus s (tp s)) = sie_on s)"
    by (cases "cpus s (tp s)") (auto simp: settle_def)
  finally show ?thesis .
qed

lemma calm_transfer:
  assumes "calm L s" "locks t = locks s" "tp t = tp s" "cpus t = cpus s" "sstatus t = sstatus s"
  shows "calm L t" "myp t = myp s"
  using assms by (simp_all add: calm_def settle_iff intr_ok_def noff_def sie_on_def lock_clean_def curproc_def myp_def)

definition calm_cons :: cons_state where
  "calm_cons = uart_state.extend calm_uart (cons_state.fields (\<lambda>_. 0) 0 0 0 (\<lambda>_. None) (\<lambda>_. None))"

definition idle_buf :: buf where
  "idle_buf = \<lparr>b_valid = False, b_disk = False, b_dev = 0, b_blockno = 0, b_refcnt = 0, b_prev = 0, b_next = 0, b_data = replicate 1024 0\<rparr>"

definition calm_bio :: bio_state where
  "calm_bio = cons_state.extend calm_cons (bio_state.fields
     (\<lambda>i. idle_buf\<lparr>b_prev := (if i = 0 then HEAD else i - 1), b_next := (if i = HEAD then 0 else i + 1)\<rparr>)
     (\<lambda>_. replicate 1024 0) [])"

definition calm_virtio :: virtio_state where
  "calm_virtio = bio_state.extend calm_bio (virtio_state.fields (\<lambda>_. null_desc) 0 (\<lambda>_. 0) 0 (\<lambda>_. 0) (\<lambda>_. True) 0 (\<lambda>_. None)
     (\<lambda>_. 0) (\<lambda>_. \<lparr>blk_type = 0, blk_reserved = 0, blk_sector = 0\<rparr>) (\<lambda>_ _. 0) (\<lambda>_. 0) [])"

definition calm_log :: log_state where
  "calm_log = virtio_state.extend calm_virtio (log_state.fields 2 0 False 1 0 0 (\<lambda>_. 0))"

definition calm_fs :: fs_state where
  "calm_fs = log_state.extend calm_log (fs_state.fields
     \<lparr>sb_magic = FSMAGIC, sb_size = 2000, sb_nblocks = 1953, sb_ninodes = 200, sb_nlog = 31, sb_logstart = 2, sb_inodestart = 33, sb_bmapstart = 46\<rparr>
     (\<lambda>_. \<lparr>i_dev = 0, i_inum = 0, i_ref = 0, i_valid = False, i_type = 0, i_major = 0, i_minor = 0, i_nlink = 0, i_size = 0, i_addrs = (\<lambda>_. 0)\<rparr>))"

definition calm_file :: file_state where
  "calm_file = fs_state.extend calm_fs (file_state.fields
     (\<lambda>_. \<lparr>f_type = FD_NONE, f_ref = 0, f_readable = False, f_writable = False, f_pipe = 0, f_ip = 0, f_off = 0, f_major = 0\<rparr>)
     (\<lambda>_. \<lparr>pi_data = (\<lambda>_. 0), pi_nread = 0, pi_nwrite = 0, pi_readopen = True, pi_writeopen = True\<rparr>))"

lemmas calm_defs = calm_cons_def calm_bio_def calm_virtio_def calm_log_def calm_fs_def calm_file_def
lemmas extend_defs = uart_state.extend_def cons_state.extend_def bio_state.extend_def virtio_state.extend_def
  log_state.extend_def fs_state.extend_def
lemmas fields_defs = cons_state.fields_def bio_state.fields_def virtio_state.fields_def log_state.fields_def
  fs_state.fields_def file_state.fields_def

lemma calm_states [simp]:
  "calm L calm_cons" "calm L calm_bio" "calm L calm_virtio" "calm L calm_log" "calm L calm_fs" "calm L calm_file"
  "myp calm_cons = 3" "myp calm_bio = 3" "myp calm_virtio = 3" "myp calm_log = 3" "myp calm_fs = 3" "myp calm_file = 3"
proof -
  have c: "calm L calm_uart" using calm_uart(1) by (simp add: tx_ok_def)
  have e: "locks calm_cons = locks calm_uart" "locks calm_bio = locks calm_uart" "locks calm_virtio = locks calm_uart"
    "locks calm_log = locks calm_uart" "locks calm_fs = locks calm_uart" "locks calm_file = locks calm_uart"
    "tp calm_cons = tp calm_uart" "tp calm_bio = tp calm_uart" "tp calm_virtio = tp calm_uart"
    "tp calm_log = tp calm_uart" "tp calm_fs = tp calm_uart" "tp calm_file = tp calm_uart"
    "cpus calm_cons = cpus calm_uart" "cpus calm_bio = cpus calm_uart" "cpus calm_virtio = cpus calm_uart"
    "cpus calm_log = cpus calm_uart" "cpus calm_fs = cpus calm_uart" "cpus calm_file = cpus calm_uart"
    "sstatus calm_cons = sstatus calm_uart" "sstatus calm_bio = sstatus calm_uart" "sstatus calm_virtio = sstatus calm_uart"
    "sstatus calm_log = sstatus calm_uart" "sstatus calm_fs = sstatus calm_uart" "sstatus calm_file = sstatus calm_uart"
    by (simp_all add: calm_defs extend_defs)
  show "calm L calm_cons" "calm L calm_bio" "calm L calm_virtio" "calm L calm_log" "calm L calm_fs" "calm L calm_file"
    by (rule calm_transfer(1) [OF c]; simp add: e)+
  show "myp calm_cons = 3" "myp calm_bio = 3" "myp calm_virtio = 3" "myp calm_log = 3" "myp calm_fs = 3" "myp calm_file = 3"
    using calm_uart(2) by (simp_all add: myp_def curproc_def e)
qed

lemma calm_states_procs [simp]:
  "procs calm_cons = procs calm_proc" "procs calm_bio = procs calm_proc" "procs calm_virtio = procs calm_proc"
  "procs calm_log = procs calm_proc" "procs calm_fs = procs calm_proc" "procs calm_file = procs calm_proc"
  using calm_uart(4) by (simp_all add: calm_defs extend_defs)

lemma calm_states_slocks [simp]:
  "\<not> sl_locked (slocks calm_cons k)" "\<not> sl_locked (slocks calm_bio k)" "\<not> sl_locked (slocks calm_virtio k)"
  "\<not> sl_locked (slocks calm_log k)" "\<not> sl_locked (slocks calm_fs k)" "\<not> sl_locked (slocks calm_file k)"
proof -
  have "\<not> sl_locked (slocks calm_uart k)" by simp
  then show "\<not> sl_locked (slocks calm_cons k)" "\<not> sl_locked (slocks calm_bio k)" "\<not> sl_locked (slocks calm_virtio k)"
    "\<not> sl_locked (slocks calm_log k)" "\<not> sl_locked (slocks calm_fs k)" "\<not> sl_locked (slocks calm_file k)"
    by (simp_all add: calm_defs extend_defs)
qed

lemma calm_cons_fields [simp]:
  "cons_buf calm_cons = (\<lambda>_. 0)" "cons_r calm_cons = 0" "cons_w calm_cons = 0" "cons_e calm_cons = 0"
  by (simp_all add: calm_defs extend_defs fields_defs)

lemma calm_bio_fields [simp]:
  "disk calm_bio = (\<lambda>_. replicate 1024 0)" "dwrites calm_bio = []"
  "disk calm_log = (\<lambda>_. replicate 1024 0)" "dwrites calm_log = []"
  "disk calm_fs = (\<lambda>_. replicate 1024 0)" "bufs calm_fs = bufs calm_bio" "bufs calm_log = bufs calm_bio"
  by (simp_all add: calm_defs extend_defs fields_defs)

lemma calm_file_fields [simp]:
  "files calm_file = (\<lambda>_. \<lparr>f_type = FD_NONE, f_ref = 0, f_readable = False, f_writable = False, f_pipe = 0, f_ip = 0, f_off = 0, f_major = 0\<rparr>)"
  "pipes calm_file = (\<lambda>_. \<lparr>pi_data = (\<lambda>_. 0), pi_nread = 0, pi_nwrite = 0, pi_readopen = True, pi_writeopen = True\<rparr>)"
  by (simp_all add: calm_file_def fs_state.extend_def file_state.fields_def)

lemma calm_proc_pid [simp]: "p_pid (procs calm_proc 3) = 3" "p_killed (procs calm_proc 3) = 0"
  by (simp_all add: calm_proc_def boot_proc_ok settle_def blank_proc_def)

text \<open>A page of user memory at address 0, in any state with this memory and free list.\<close>

lemma user_page:
  "\<exists>m fl ke pt. \<forall>t :: 'a kmem_state_scheme. mem t = m \<longrightarrow> freelist t = fl \<longrightarrow> kend t = ke \<longrightarrow> kmem_ready t \<longrightarrow>
     vm_wf t pt \<and> rrange t pt 0 4096 \<and> wrange t pt 0 4096"
proof -
  obtain s0 :: kmem_state where s0: "kmem_ok s0" "4 < card (free_pages s0)" using demo_kmem by blast
  obtain pt and s :: kmem_state where s: "vm_wf s pt" "\<forall>w<PGSIZE. uwritable s pt w \<and> upa s pt w = upa s pt 0 + w"
    using fresh_user_page [OF s0] by blast
  have u: "of_nat i < (PGSIZE :: uint64)" if "i < 4096" for i
    using that by (simp add: word_less_nat_alt unat_of_nat_less)
  have w: "wrange s pt 0 4096" unfolding wrange_def
  proof (intro conjI allI impI inj_onI)
    fix i j :: nat assume i: "i \<in> {..<4096}" and j: "j \<in> {..<4096}" and eq: "upa s pt (0 + of_nat i) = upa s pt (0 + of_nat j)"
    have "upa s pt (of_nat i) = upa s pt 0 + of_nat i" "upa s pt (of_nat j) = upa s pt 0 + of_nat j"
      using s(2) u i j by blast+
    with eq have "(of_nat i :: uint64) = of_nat j" by simp
    moreover have "unat (of_nat i :: uint64) = i" "unat (of_nat j :: uint64) = j"
      using i j by (auto intro!: unat_of_nat_less)
    ultimately show "i = j" by metis
  qed (use s(2) u in auto)
  then have r: "rrange s pt 0 4096" by (auto simp: wrange_def rrange_def uwritable_def)
  have "vm_wf t pt \<and> rrange t pt 0 4096 \<and> wrange t pt 0 4096"
    if "mem t = mem s" "freelist t = freelist s" "kend t = kend s" "kmem_ready t" for t :: "'a kmem_state_scheme"
  proof -
    have sm: "same_mem s t" using that by (simp add: same_mem_def)
    show ?thesis using vm_wf_same [OF sm that(4) s(1)] r w by (simp add: range_same [OF sm])
  qed
  then show ?thesis by blast
qed

lemma range_prefix: "rrange s pt va n \<Longrightarrow> k \<le> n \<Longrightarrow> rrange s pt va k" "wrange s pt va n \<Longrightarrow> k \<le> n \<Longrightarrow> wrange s pt va k"
  using range_sub [of 0 k n s pt va] by simp_all

end
