(* ===== verification/PipeProps.thy ===== *)
theory PipeProps
  imports States
begin

text \<open>
  Pipes are bounded queues.  \<open>pipe_items\<close> is the sequence of bytes in a pipe; the ring
  operations of \<open>File\<close> meet the contract \<open>fifo\<close> with capacity 512, whatever the values of the
  32-bit counters, and \<open>pipewrite\<close> and \<open>piperead\<close> move bytes between user memory and this
  sequence.
\<close>

section \<open>Bookkeeping\<close>

lemma acquired_file_state [simp, calm_simps]:
  "(acquired lk s)\<lparr>files := x_files\<rparr> = acquired lk (s\<lparr>files := x_files\<rparr>)"
  "files (acquired lk s) = files s"
  "(acquired lk s)\<lparr>pipes := x_pipes\<rparr> = acquired lk (s\<lparr>pipes := x_pipes\<rparr>)"
  "pipes (acquired lk s) = pipes s"
  by (cases s; simp add: acquired_def pushed_def noff_def sie_on_def)+

lemma myp_file_state [simp]:
  "myp (s\<lparr>files := x_files\<rparr>) = myp s"
  "myp (s\<lparr>pipes := x_pipes\<rparr>) = myp s"
  by (simp_all add: myp_def curproc_def)

lemma calm_files [simp]: "calm L (s\<lparr>files := x\<rparr>) = calm L s"
  by (rule calm_upd_iff [where u = "\<lambda>x s. s\<lparr>files := x\<rparr>" and sel = files])
    (simp_all add: cs_comm_def file_state.splits)

lemma calm_pipes [simp]: "calm L (s\<lparr>pipes := x\<rparr>) = calm L s"
  by (rule calm_upd_iff [where u = "\<lambda>x s. s\<lparr>pipes := x\<rparr>" and sel = pipes])
    (simp_all add: cs_comm_def file_state.splits)


section \<open>The ring is a queue\<close>

definition pipe_items :: "pipe \<Rightarrow> uchar list" where
  "pipe_items pi = ring_list PIPESIZE (pi_data pi) (pi_nread pi) (pi_nwrite pi)"

definition pipe_get :: "pipe \<Rightarrow> uchar \<times> pipe" where
  "pipe_get pi = (pipe_peek pi, pipe_drop pi)"

lemma pipe_put_items: "length (pipe_items pi) < 512 \<Longrightarrow> pipe_items (pipe_put b pi) = pipe_items pi @ [b]"
  using ring_put [of "pi_nwrite pi" "pi_nread pi" PIPESIZE "pi_data pi" b]
  by (simp add: pipe_items_def pipe_put_def)

lemma pipe_get_items:
  "pipe_items pi = b # bs \<Longrightarrow> fst (pipe_get pi) = b \<and> pipe_items (snd (pipe_get pi)) = bs"
  using ring_get [of "pi_nread pi" "pi_nwrite pi" PIPESIZE "pi_data pi"] ring_list_empty [of PIPESIZE "pi_data pi" "pi_nread pi" "pi_nwrite pi"]
  by (auto simp: pipe_items_def pipe_get_def pipe_peek_def pipe_drop_def)

interpretation pq: fifo pipe_items pipe_put pipe_get 512
  by unfold_locales (simp_all add: pipe_put_items pipe_get_items)

lemma pipe_full_iff: "pi_nwrite pi = pi_nread pi + PIPESIZE \<longleftrightarrow> length (pipe_items pi) = 512"
  using ring_full [of "pi_nwrite pi" "pi_nread pi" PIPESIZE] by (simp add: pipe_items_def)

lemma pipe_empty_iff: "pi_nread pi = pi_nwrite pi \<longleftrightarrow> pipe_items pi = []"
  by (simp add: pipe_items_def)

lemma pipe_ops_flags [simp]:
  "pi_readopen (pipe_put b pi) = pi_readopen pi" "pi_writeopen (pipe_put b pi) = pi_writeopen pi"
  "pi_readopen (pipe_drop pi) = pi_readopen pi" "pi_writeopen (pipe_drop pi) = pi_writeopen pi"
  by (simp_all add: pipe_put_def pipe_drop_def)

lemma pipe_drop_items: "pipe_items (pipe_drop pi) = tl (pipe_items pi)" if "pipe_items pi \<noteq> []"
  using that pipe_get_items [of pi "hd (pipe_items pi)" "tl (pipe_items pi)"] by (simp add: pipe_get_def)

lemma pipe_peek_items: "pipe_peek pi = hd (pipe_items pi)" if "pipe_items pi \<noteq> []"
  using that pipe_get_items [of pi "hd (pipe_items pi)" "tl (pipe_items pi)"] by (simp add: pipe_get_def)

section \<open>Writing\<close>

abbreviation (input) upd_pipe :: "uint64 \<Rightarrow> pipe \<Rightarrow> 'a file_state_scheme \<Rightarrow> 'a file_state_scheme" where
  "upd_pipe pi q s \<equiv> s\<lparr>pipes := (pipes s)(pi := q)\<rparr>"

lemma same_mem_upds: "same_mem s (s\<lparr>procs := x\<rparr>)" "same_mem s (s\<lparr>pipes := y\<rparr>)"
  by (simp_all add: same_mem_def)

lemma ubytes_upds [simp]:
  "ubytes (s\<lparr>procs := x\<rparr>) pt va n = ubytes s pt va n" "ubytes (s\<lparr>pipes := y\<rparr>) pt va n = ubytes s pt va n"
  by (rule range_same, rule same_mem_upds)+

lemma pipewrite_round_put:
  assumes "calm {} s" "i < n" "pi_readopen (pipes s pi)" "p_killed (procs s pr) = 0"
    and "length (pipe_items (pipes s pi)) < 512" "vm_wf s (p_pagetable (procs s pr))"
    and "rrange s (p_pagetable (procs s pr)) (addr + of_int i) 1"
  shows "pipewrite_round pi addr n pr i (acquired (PipeLock pi) s) e =
    (Ret (Inl (i + 1)), acquired (PipeLock pi) (upd_pipe pi
       (pipe_put (hd (ubytes s (p_pagetable (procs s pr)) (addr + of_int i) 1)) (pipes s pi)) s), e)"
proof -
  let ?s = "acquired (PipeLock pi) s" and ?pt = "p_pagetable (procs s pr)"
  have c: "calm {PipeLock pi} ?s" using calm_acquired [OF assms(1)] by simp
  have k: "killed pr ?s e = (Ret 0, ?s, e)" using killed_calm [OF c, of pr e] assms(4) by simp
  have "vm_wf ?s ?pt" using vm_wf_acquired [OF assms(6,1)] by simp
  then have "copyin ?pt sz (addr + of_int i) 1 ?s e = (Ret (0, ubytes s ?pt (addr + of_int i) 1), ?s, e)" for sz
    using copyin_run [of ?s ?pt "addr + of_int i" 1 sz e] assms(7) range_same [OF acquired_same_mem, of "PipeLock pi" s] by simp
  moreover have "pi_nwrite (pipes s pi) \<noteq> pi_nread (pipes s pi) + PIPESIZE" using assms(5) pipe_full_iff [of "pipes s pi"] by simp
  ultimately show ?thesis using assms(2,3)
    by (simp add: pipewrite_round_def k kbind_Ret kret_run)
qed

lemma pipewrite_loop:
  assumes "calm {} s" "pi_readopen (pipes s pi)" "p_killed (procs s pr) = 0" "vm_wf s (p_pagetable (procs s pr))"
    and "k \<le> n" "rrange s (p_pagetable (procs s pr)) addr n" "length (pipe_items (pipes s pi)) + (n - k) \<le> 512"
  shows "kloop (pipewrite_round pi addr (int n) pr) (int k) (acquired (PipeLock pi) s) e =
    (Ret (Some (int n)), acquired (PipeLock pi) (upd_pipe pi
       (fold pipe_put (drop k (ubytes s (p_pagetable (procs s pr)) addr n)) (pipes s pi)) s), e)"
  using assms
proof (induction "n - k" arbitrary: s k)
  case 0
  then have "k = n" by simp
  moreover have "drop n (ubytes s (p_pagetable (procs s pr)) addr n) = []" by (simp add: ubytes_def)
  ultimately show ?case
    by (intro kloop_step_Inr) (simp add: pipewrite_round_def kret_run)
next
  case (Suc m)
  let ?pt = "p_pagetable (procs s pr)" and ?s' = "upd_pipe pi (pipe_put (hd (ubytes s (p_pagetable (procs s pr)) (addr + of_nat k) 1)) (pipes s pi)) s"
  have kn: "k < n" using Suc.hyps(2) by simp
  have sm: "same_mem s ?s'" by (simp add: same_mem_def)
  have rr: "rrange s ?pt (addr + of_nat k) 1" using range_sub(1) [of k 1 n s ?pt addr] Suc.prems(6) kn by simp
  have step: "pipewrite_round pi addr (int n) pr (int k) (acquired (PipeLock pi) s) e =
      (Ret (Inl (int (Suc k))), acquired (PipeLock pi) ?s', e)"
    using pipewrite_round_put [of s "int k" "int n" pi pr addr e] Suc.prems kn rr by (simp add: add.commute)
  note cs = ubytes_drop [OF kn, of s ?pt addr]
  have "kloop (pipewrite_round pi addr (int n) pr) (int (Suc k)) (acquired (PipeLock pi) ?s') e =
    (Ret (Some (int n)), acquired (PipeLock pi) (upd_pipe pi
       (fold pipe_put (drop (Suc k) (ubytes ?s' ?pt addr n)) (pipes ?s' pi)) ?s'), e)"
    using Suc.hyps(1) [of "Suc k" ?s'] Suc.hyps(2) Suc.prems kn vm_wf_same [OF sm kmem_ready_calm] range_same(2) [OF sm]
    by (auto simp: pipe_put_items)
  from kloop_step_Inl [where b = "pipewrite_round pi addr (int n) pr", OF step this] show ?case
    by (simp add: cs)
qed

lemma fold_put_items:
  "length (pipe_items q) + length bs \<le> 512 \<Longrightarrow> pipe_items (fold pipe_put bs q) = pipe_items q @ bs"
  by (induction bs arbitrary: q) (auto simp: pq.put_items)

lemma fold_put_flags [simp]:
  "pi_readopen (fold pipe_put bs q) = pi_readopen q" "pi_writeopen (fold pipe_put bs q) = pi_writeopen q"
  by (induction bs arbitrary: q) simp_all

lemma pipewrite_run:
  assumes "calm {} s" "pi_readopen (pipes s pi)" "p_killed (procs s (myp s)) = 0" "vm_wf s (p_pagetable (procs s (myp s)))"
    and "rrange s (p_pagetable (procs s (myp s))) addr n" "length (pipe_items (pipes s pi)) + n \<le> 512"
  shows "pipewrite pi addr (int n) s e =
    (Ret (int n), s\<lparr>pipes := (pipes s)(pi := fold pipe_put (ubytes s (p_pagetable (procs s (myp s))) addr n) (pipes s pi)),
       procs := woken_all (ChPipeRead pi) (procs s)\<rparr>, e)"
proof -
  let ?q = "fold pipe_put (ubytes s (p_pagetable (procs s (myp s))) addr n) (pipes s pi)"
  let ?t = "upd_pipe pi ?q s"
  have loop: "kloop (pipewrite_round pi addr (int n) (myp s)) 0 (acquired (PipeLock pi) s) e =
      (Ret (Some (int n)), acquired (PipeLock pi) ?t, e)"
    using pipewrite_loop [of s pi "myp s" 0 n addr e] assms by simp
  have ct: "calm {PipeLock pi} (acquired (PipeLock pi) ?t)" using calm_acquired [of "{}" ?t "PipeLock pi"] assms(1) by simp
  have wake: "wakeup (ChPipeRead pi) (acquired (PipeLock pi) ?t) e =
      (Ret (), acquired (PipeLock pi) (?t\<lparr>procs := woken_all (ChPipeRead pi) (procs s)\<rparr>), e)"
    using wakeup_calm [OF ct, of "ChPipeRead pi" e] by simp
  have "release (PipeLock pi) (acquired (PipeLock pi) (?t\<lparr>procs := woken_all (ChPipeRead pi) (procs s)\<rparr>)) e =
      (Ret (), ?t\<lparr>procs := woken_all (ChPipeRead pi) (procs s)\<rparr>, e)"
    using assms(1) by (intro release_calm [where L = "{}"]) simp_all
  then show ?thesis
    unfolding pipewrite_def
    by (simp add: with_myproc_calm [OF assms(1)] acquire_calm [OF assms(1)] kbind_Ret loop wake kret_run)
qed

section \<open>Reading\<close>

lemma piperead_round_get:
  assumes "calm {} s" "i < n" "pipe_items (pipes s pi) \<noteq> []" "vm_wf s (p_pagetable (procs s pr))"
    and "wrange s (p_pagetable (procs s pr)) (addr + of_int i) 1"
  shows "\<exists>m. piperead_round pi addr n pr i (acquired (PipeLock pi) s) e =
      (Ret (Inl (i + 1)), acquired (PipeLock pi) (upd_pipe pi (pipe_drop (pipes s pi)) (s\<lparr>mem := m\<rparr>)), e) \<and>
    ustored s (p_pagetable (procs s pr)) (addr + of_int i) [hd (pipe_items (pipes s pi))] m"
proof -
  let ?s = "acquired (PipeLock pi) s" and ?pt = "p_pagetable (procs s pr)"
  let ?b = "hd (pipe_items (pipes s pi))"
  have "vm_wf ?s ?pt" using vm_wf_acquired [OF assms(4,1)] by simp
  moreover have "wrange ?s ?pt (addr + of_int i) (length [?b])" using assms(5) range_same [OF acquired_same_mem, of "PipeLock pi" s] by simp
  ultimately obtain m where m: "copyout ?pt (p_sz (procs s pr)) (addr + of_int i) [?b] ?s e = (Ret 0, ?s\<lparr>mem := m\<rparr>, e)"
      "ustored ?s ?pt (addr + of_int i) [?b] m"
    using copyout_run by blast
  have "piperead_round pi addr n pr i ?s e = (Ret (Inl (i + 1)), acquired (PipeLock pi) (upd_pipe pi (pipe_drop (pipes s pi)) (s\<lparr>mem := m\<rparr>)), e)"
    using assms(2,3) m(1) pipe_empty_iff [of "pipes s pi"] pipe_peek_items [OF assms(3)]
    by (simp add: piperead_round_def kbind_Ret kret_run)
  then show ?thesis using ustored_acquired [OF assms(1) _ m(2)] by blast
qed

lemma piperead_loop:
  assumes "calm {} s" "vm_wf s (p_pagetable (procs s pr))" "k \<le> n" "r = min (n - k) (length (pipe_items (pipes s pi)))"
    and "wrange s (p_pagetable (procs s pr)) addr n"
  shows "\<exists>m. kloop (piperead_round pi addr (int n) pr) (int k) (acquired (PipeLock pi) s) e =
      (Ret (int (k + r)), acquired (PipeLock pi) (upd_pipe pi ((pipe_drop ^^ r) (pipes s pi)) (s\<lparr>mem := m\<rparr>)), e) \<and>
    ustored s (p_pagetable (procs s pr)) (addr + of_nat k) (take r (pipe_items (pipes s pi))) m"
  using assms
proof (induction r arbitrary: s k)
  case 0
  then have "n = k \<or> pipe_items (pipes s pi) = []" by (auto simp: min_def split: if_splits)
  then have "piperead_round pi addr (int n) pr (int k) (acquired (PipeLock pi) s) e = (Ret (Inr (int k)), acquired (PipeLock pi) s, e)"
    using pipe_empty_iff [of "pipes s pi"] 0(3) by (auto simp: piperead_round_def kret_run)
  then have "kloop (piperead_round pi addr (int n) pr) (int k) (acquired (PipeLock pi) s) e = (Ret (int k), acquired (PipeLock pi) s, e)"
    by (rule kloop_step_Inr)
  then show ?case using ustored_Nil [OF 0(2)] by (intro exI [of _ "mem s"]) simp
next
  case (Suc r)
  let ?pt = "p_pagetable (procs s pr)" and ?q = "pipes s pi"
  have kn: "k < n" and ne: "pipe_items ?q \<noteq> []" using Suc.prems(4) by auto
  have "wrange s ?pt (addr + of_int (int k)) 1" using range_sub(2) [of k 1 n s ?pt addr] Suc.prems(5) kn by simp
  from piperead_round_get [OF Suc.prems(1) _ ne Suc.prems(2) this, of "int n" e] kn
  obtain m where m: "piperead_round pi addr (int n) pr (int k) (acquired (PipeLock pi) s) e =
      (Ret (Inl (int k + 1)), acquired (PipeLock pi) (upd_pipe pi (pipe_drop ?q) (s\<lparr>mem := m\<rparr>)), e)"
      and st: "ustored s ?pt (addr + of_nat k) [hd (pipe_items ?q)] m" by auto
  define s' where "s' = upd_pipe pi (pipe_drop ?q) (s\<lparr>mem := m\<rparr>)"
  have sm: "same_mem (s\<lparr>mem := m\<rparr>) s'" by (simp add: s'_def same_mem_def)
  have pt': "p_pagetable (procs s' pr) = ?pt" and q': "pipes s' pi = pipe_drop ?q" by (simp_all add: s'_def)
  have c': "calm {} s'" using Suc.prems(1) by (simp add: s'_def)
  have v': "vm_wf s' ?pt" using vm_wf_same [OF sm kmem_ready_calm [OF c']] ustored_facts(6) [OF st] by simp
  have w': "wrange s' ?pt addr n" using range_same(3) [OF sm] ustored_facts(5) [OF st] Suc.prems(5) by simp
  have r': "r = min (n - Suc k) (length (pipe_items (pipes s' pi)))" using Suc.prems(4) kn ne by (simp add: q' pipe_drop_items)
  have "Suc k \<le> n" using kn by simp
  from Suc.IH [of s' "Suc k", unfolded pt', OF c' v' this r' w'] obtain m2 where
    m2: "kloop (piperead_round pi addr (int n) pr) (int (Suc k)) (acquired (PipeLock pi) s') e =
      (Ret (int (Suc k + r)), acquired (PipeLock pi) (upd_pipe pi ((pipe_drop ^^ r) (pipes s' pi)) (s'\<lparr>mem := m2\<rparr>)), e)"
    and st2: "ustored s' ?pt (addr + of_nat (Suc k)) (take r (pipe_items (pipes s' pi))) m2" by blast
  have "ustored (s\<lparr>mem := m\<rparr>) ?pt (addr + of_nat (Suc k)) (take r (tl (pipe_items ?q))) m2"
    using ustored_same [OF same_mem_sym [OF sm] _ st2] kmem_ready_calm [of "{}" "s\<lparr>mem := m2\<rparr>"] Suc.prems(1) ne
    by (simp add: q' pipe_drop_items)
  moreover have "addr + of_nat k + of_nat (length [hd (pipe_items ?q)]) = addr + of_nat (Suc k)" by simp
  moreover have "wrange s ?pt (addr + of_nat k) (length [hd (pipe_items ?q)] + length (take r (tl (pipe_items ?q))))"
    using range_sub(2) [of k "Suc (length (take r (tl (pipe_items ?q))))" n s ?pt addr] Suc.prems(4,5) kn by (auto simp: min_def split: if_splits)
  ultimately have "ustored s ?pt (addr + of_nat k) ([hd (pipe_items ?q)] @ take r (tl (pipe_items ?q))) m2"
    using ustored_append [OF st] by metis
  then have "ustored s ?pt (addr + of_nat k) (take (Suc r) (pipe_items ?q)) m2" using ne by (cases "pipe_items ?q") simp_all
  moreover have "kloop (piperead_round pi addr (int n) pr) (int k) (acquired (PipeLock pi) s) e =
      (Ret (int (k + Suc r)), acquired (PipeLock pi) (upd_pipe pi ((pipe_drop ^^ Suc r) ?q) (s\<lparr>mem := m2\<rparr>)), e)"
    using kloop_step_Inl [where b = "piperead_round pi addr (int n) pr", OF m] m2 unfolding s'_def
    by (simp add: add.commute funpow_swap1)
  ultimately show ?case by blast
qed

lemma funpow_drop:
  "r \<le> length (pipe_items q) \<Longrightarrow> pipe_items ((pipe_drop ^^ r) q) = drop r (pipe_items q)"
proof (induction r)
  case (Suc r)
  then have "pipe_items ((pipe_drop ^^ r) q) \<noteq> []" by simp
  with Suc show ?case by (simp add: pipe_drop_items drop_Suc tl_drop)
qed simp

lemma piperead_run:
  assumes "calm {} s" "vm_wf s (p_pagetable (procs s (myp s)))" "wrange s (p_pagetable (procs s (myp s))) addr n"
    and "pipe_items (pipes s pi) \<noteq> [] \<or> \<not> pi_writeopen (pipes s pi)" "r = min n (length (pipe_items (pipes s pi)))"
  shows "\<exists>m. piperead pi addr (int n) s e =
      (Ret (int r), s\<lparr>mem := m, pipes := (pipes s)(pi := (pipe_drop ^^ r) (pipes s pi)),
        procs := woken_all (ChPipeWrite pi) (procs s)\<rparr>, e) \<and>
    ustored s (p_pagetable (procs s (myp s))) addr (take r (pipe_items (pipes s pi))) m"
proof -
  let ?a = "acquired (PipeLock pi)"
  have wait: "piperead_wait pi (myp s) (?a s) e = (Ret True, ?a s, e)"
    unfolding piperead_wait_def using assms(4) pipe_empty_iff [of "pipes s pi"]
    by (intro kloop_step_Inr) (auto simp: kret_run)
  obtain m where loop: "kloop (piperead_round pi addr (int n) (myp s)) 0 (?a s) e =
      (Ret (int r), ?a (s\<lparr>mem := m, pipes := (pipes s)(pi := (pipe_drop ^^ r) (pipes s pi))\<rparr>), e)"
    and st: "ustored s (p_pagetable (procs s (myp s))) addr (take r (pipe_items (pipes s pi))) m"
    using piperead_loop [of s "myp s" 0 n r pi addr e] assms by auto
  let ?t = "s\<lparr>mem := m, pipes := (pipes s)(pi := (pipe_drop ^^ r) (pipes s pi))\<rparr>"
  have ct: "calm {PipeLock pi} (?a ?t)" using calm_acquired [of "{}" ?t "PipeLock pi"] assms(1) by simp
  have wake: "wakeup (ChPipeWrite pi) (?a ?t) e = (Ret (), ?a (?t\<lparr>procs := woken_all (ChPipeWrite pi) (procs s)\<rparr>), e)"
    using wakeup_calm [OF ct, of "ChPipeWrite pi" e] by simp
  have "release (PipeLock pi) (?a (?t\<lparr>procs := woken_all (ChPipeWrite pi) (procs s)\<rparr>)) e =
      (Ret (), ?t\<lparr>procs := woken_all (ChPipeWrite pi) (procs s)\<rparr>, e)"
    using assms(1) by (intro release_calm [where L = "{}"]) simp_all
  then show ?thesis using st
    unfolding piperead_def
    by (simp add: with_myproc_calm [OF assms(1)] acquire_calm [OF assms(1)] kbind_Ret wait loop wake kret_run) blast
qed

lemma woken_all_frame [simp]:
  "p_pagetable (woken_all c T p) = p_pagetable (T p)" "p_killed (woken_all c T p) = p_killed (T p)"
  "p_pid (woken_all c T p) = p_pid (T p)" "p_sz (woken_all c T p) = p_sz (T p)"
  by (simp_all add: woken_all_def woken_def)

section \<open>Properties\<close>

text \<open>
  C4: a pipe is a bounded first-in first-out queue of bytes between user buffers, also when
  the 32-bit counters wrap around.  A write that fits appends the bytes of the user buffer;
  a following read of up to \<open>k\<close> bytes returns the oldest ones and leaves the rest, so that
  what was read followed by what is left is what was there followed by what was written.
  Other pipes and other memory do not change, and the pipe never holds more than 512 bytes.
\<close>

theorem pipe_write_read:
  assumes "calm {} s" "p_killed (procs s (myp s)) = 0" "pt = p_pagetable (procs s (myp s))" "vm_wf s pt"
    and "pi_readopen (pipes s pi)" "rrange s pt src n" "length (pipe_items (pipes s pi)) + n \<le> 512"
    and "wrange s pt dst k" "0 < length (pipe_items (pipes s pi)) + n"
  shows "\<exists>s1 s2 r. pipewrite pi src (int n) s e = (Ret (int n), s1, e) \<and>
    pipe_items (pipes s1 pi) = pipe_items (pipes s pi) @ ubytes s pt src n \<and>
    piperead pi dst (int k) s1 e = (Ret (int r), s2, e) \<and>
    r = min k (length (pipe_items (pipes s pi)) + n) \<and>
    ubytes s2 pt dst r @ pipe_items (pipes s2 pi) = pipe_items (pipes s pi) @ ubytes s pt src n \<and>
    length (pipe_items (pipes s2 pi)) \<le> 512 \<and> (\<forall>q. q \<noteq> pi \<longrightarrow> pipes s2 q = pipes s q) \<and>
    (\<forall>x. (\<forall>i<k. x \<noteq> upa s pt (dst + of_nat i)) \<longrightarrow> mem s2 x = mem s x)"
proof -
  let ?bs = "ubytes s pt src n" and ?q = "pipes s pi"
  define q1 where "q1 = fold pipe_put ?bs ?q"
  define s1 where "s1 = s\<lparr>pipes := (pipes s)(pi := q1), procs := woken_all (ChPipeRead pi) (procs s)\<rparr>"
  have w: "pipewrite pi src (int n) s e = (Ret (int n), s1, e)"
    using pipewrite_run [of s pi src n e] assms unfolding s1_def q1_def by simp
  have i1: "pipe_items q1 = pipe_items ?q @ ?bs" using assms(7) by (simp add: q1_def fold_put_items)
  have f1: "pipes s1 pi = q1" "myp s1 = myp s" "p_pagetable (procs s1 (myp s)) = pt" by (simp_all add: s1_def assms(3))
  have sm: "same_mem s s1" by (simp add: s1_def same_mem_def)
  have c1: "calm {} s1" using assms(1) by (simp add: s1_def)
  define r where "r = min k (length (pipe_items ?q) + n)"
  have v1: "vm_wf s1 pt" using vm_wf_same [OF sm kmem_ready_calm [OF c1]] assms(4) by simp
  have w1: "wrange s1 pt dst k" using range_same(3) [OF sm] assms(8) by simp
  have "pipe_items q1 \<noteq> []" using assms(9) i1 by (auto simp: ubytes_def)
  then obtain m where rd: "piperead pi dst (int k) s1 e = (Ret (int r), s1\<lparr>mem := m, pipes := (pipes s1)(pi := (pipe_drop ^^ r) q1),
        procs := woken_all (ChPipeWrite pi) (procs s1)\<rparr>, e)"
    and st: "ustored s1 pt dst (take r (pipe_items q1)) m"
    using piperead_run [OF c1, of dst k pi r e] v1 w1 f1 i1 by (auto simp: r_def)
  let ?s2 = "s1\<lparr>mem := m, pipes := (pipes s1)(pi := (pipe_drop ^^ r) q1), procs := woken_all (ChPipeWrite pi) (procs s1)\<rparr>"
  have sm2: "same_mem (s1\<lparr>mem := m\<rparr>) ?s2" by (simp add: same_mem_def)
  have rl: "length (take r (pipe_items q1)) = r" by (simp add: i1 r_def)
  have ub: "ubytes ?s2 pt dst r = take r (pipe_items q1)"
    using st rl range_same(1) [OF sm2] by (simp add: ustored_def)
  have i2: "pipe_items (pipes ?s2 pi) = drop r (pipe_items q1)" using funpow_drop [of r q1] by (simp add: i1 r_def)
  have "mem ?s2 x = mem s x" if "\<forall>i<k. x \<noteq> upa s pt (dst + of_nat i)" for x
  proof -
    have "upa s1 = upa s" using same_mem_facts [OF sm] by simp
    then have "m x = mem s1 x" using st that rl unfolding ustored_def by (auto simp: r_def)
    then show ?thesis by (simp add: s1_def)
  qed
  moreover have "ubytes ?s2 pt dst r @ pipe_items (pipes ?s2 pi) = pipe_items ?q @ ?bs"
    by (simp only: ub i2 append_take_drop_id i1)
  moreover have "length (pipe_items (pipes ?s2 pi)) \<le> 512" unfolding i2 using i1 assms(7) by (simp add: ubytes_def)
  moreover have "pipes ?s2 q = pipes s q" if "q \<noteq> pi" for q using that by (simp add: s1_def)
  moreover have "pipe_items (pipes s1 pi) = pipe_items ?q @ ?bs" using i1 f1 by simp
  ultimately show ?thesis using w rd r_def by blast
qed

theorem pipe_write_read_witness:
  "\<exists>(s :: file_state) pt s1 s2. pipewrite 5 0 (int 3) s [] = (Ret (int 3), s1, []) \<and>
     piperead 5 100 (int 2) s1 [] = (Ret (int 2), s2, []) \<and>
     ubytes s2 pt 100 2 @ pipe_items (pipes s2 5) = ubytes s pt 0 3"
proof -
  obtain m fl ke pt where up: "\<And>t :: file_state. mem t = m \<Longrightarrow> freelist t = fl \<Longrightarrow> kend t = ke \<Longrightarrow> kmem_ready t \<Longrightarrow>
      vm_wf t pt \<and> rrange t pt 0 4096 \<and> wrange t pt 0 4096"
    using user_page by metis
  define s where "s = calm_file\<lparr>mem := m, freelist := fl, kend := ke,
      procs := (procs calm_file)(3 := (procs calm_proc 3)\<lparr>p_pagetable := pt\<rparr>)\<rparr>"
  have c: "calm {} s" "myp s = 3"
    using calm_transfer [OF calm_states(6), of s] by (simp_all add: s_def)
  have u: "vm_wf s pt" "rrange s pt 0 4096" "wrange s pt 0 4096"
    using up [of s] kmem_ready_calm [OF c(1)] by (simp_all add: s_def)
  have p: "pipe_items (pipes s 5) = []" "pi_readopen (pipes s 5)" "p_killed (procs s 3) = 0" "pt = p_pagetable (procs s 3)"
    by (simp_all add: s_def pipe_empty_iff [symmetric])
  have w: "wrange s pt 100 2" using range_sub(2) [of 100 2 4096 s pt 0] u(3) by simp
  show ?thesis
    using pipe_write_read [OF c(1), of pt 5 0 3 100 2 "[]"] c(2) p u(1) range_prefix(1) [OF u(2), of 3] w by auto
qed

lemma pipe_ends:
  assumes "calm {} s"
  shows "0 < n \<and> (\<not> pi_readopen (pipes s pi) \<or> p_killed (procs s (myp s)) \<noteq> 0) \<Longrightarrow> pipewrite pi addr n s e = (Ret (- 1), s, e)"
    and "pipe_items (pipes s pi) = [] \<and> \<not> pi_writeopen (pipes s pi) \<Longrightarrow>
      piperead pi addr n s e = (Ret 0, s\<lparr>procs := woken_all (ChPipeWrite pi) (procs s)\<rparr>, e)"
    and "pipe_items (pipes s pi) = [] \<and> pi_writeopen (pipes s pi) \<and> p_killed (procs s (myp s)) \<noteq> 0 \<Longrightarrow>
      piperead pi addr n s e = (Ret (- 1), s, e)"
proof -
  let ?a = "acquired (PipeLock pi)"
  have c: "calm {PipeLock pi} (?a s)" using calm_acquired [OF assms] by simp
  have k: "killed (myp s) (?a s) e = (Ret (p_killed (procs s (myp s))), ?a s, e)" using killed_calm [OF c, of "myp s" e] by simp
  have rel: "release (PipeLock pi) (?a t) e = (Ret (), t, e)" if "calm {} t" for t :: "'a file_state_scheme"
    using that by (intro release_calm [where L = "{}"]) simp_all
  note run = with_myproc_calm [OF assms] acquire_calm [OF assms] kbind_Ret kret_run k rel [OF assms]
  show "pipewrite pi addr n s e = (Ret (- 1), s, e)" if h: "0 < n \<and> (\<not> pi_readopen (pipes s pi) \<or> p_killed (procs s (myp s)) \<noteq> 0)"
  proof -
    have "kloop (pipewrite_round pi addr n (myp s)) 0 (?a s) e = (Ret None, s, e)"
      using h by (intro kloop_step_Inr) (auto simp: pipewrite_round_def run)
    then show ?thesis unfolding pipewrite_def by (simp add: run)
  qed
  have em: "pi_nread (pipes s pi) = pi_nwrite (pipes s pi)" if "pipe_items (pipes s pi) = []"
    using that by (simp add: pipe_empty_iff)
  show "piperead pi addr n s e = (Ret 0, s\<lparr>procs := woken_all (ChPipeWrite pi) (procs s)\<rparr>, e)"
    if h: "pipe_items (pipes s pi) = [] \<and> \<not> pi_writeopen (pipes s pi)"
  proof -
    have w: "piperead_wait pi (myp s) (?a s) e = (Ret True, ?a s, e)"
      unfolding piperead_wait_def using h by (intro kloop_step_Inr) (simp add: kret_run)
    have "kloop (piperead_round pi addr n (myp s)) 0 (?a s) e = (Ret 0, ?a s, e)"
      using h em by (intro kloop_step_Inr) (auto simp: piperead_round_def kret_run)
    moreover have "wakeup (ChPipeWrite pi) (?a s) e = (Ret (), ?a (s\<lparr>procs := woken_all (ChPipeWrite pi) (procs s)\<rparr>), e)"
      using wakeup_calm [OF c, of "ChPipeWrite pi" e] by simp
    ultimately show ?thesis unfolding piperead_def using rel assms by (simp add: run w)
  qed
  show "piperead pi addr n s e = (Ret (- 1), s, e)"
    if h: "pipe_items (pipes s pi) = [] \<and> pi_writeopen (pipes s pi) \<and> p_killed (procs s (myp s)) \<noteq> 0"
  proof -
    have w: "piperead_wait pi (myp s) (?a s) e = (Ret False, s, e)"
      unfolding piperead_wait_def using h em by (intro kloop_step_Inr) (simp add: run)
    have "kbind (piperead_wait pi (myp s)) g (?a s) e = g False s e" for g :: "bool \<Rightarrow> (int, 'a file_state_scheme) K"
      using w by (simp add: kbind_def)
    then show ?thesis unfolding piperead_def by (simp add: run)
  qed
qed

text \<open>
  C22: the ends of a pipe.  Writing when the last reader is gone, or by a killed process,
  fails with -1 and stores nothing; reading an empty pipe whose writers are gone returns 0,
  the end of file; a killed process that would have to wait for data gets -1.
\<close>

theorem pipe_closed_ends:
  assumes "calm {} s"
  shows "(0 < n \<and> (\<not> pi_readopen (pipes s pi) \<or> p_killed (procs s (myp s)) \<noteq> 0) \<longrightarrow> pipewrite pi addr n s e = (Ret (- 1), s, e)) \<and>
    (pipe_items (pipes s pi) = [] \<and> \<not> pi_writeopen (pipes s pi) \<longrightarrow>
      piperead pi addr n s e = (Ret 0, s\<lparr>procs := woken_all (ChPipeWrite pi) (procs s)\<rparr>, e)) \<and>
    (pipe_items (pipes s pi) = [] \<and> pi_writeopen (pipes s pi) \<and> p_killed (procs s (myp s)) \<noteq> 0 \<longrightarrow>
      piperead pi addr n s e = (Ret (- 1), s, e))"
  using pipe_ends [OF assms] by blast

theorem pipe_closed_ends_witness:
  "pipewrite 5 0 1 (calm_file\<lparr>pipes := (\<lambda>_. (pipes calm_file 5)\<lparr>pi_readopen := False\<rparr>)\<rparr>) [] =
     (Ret (- 1), calm_file\<lparr>pipes := (\<lambda>_. (pipes calm_file 5)\<lparr>pi_readopen := False\<rparr>)\<rparr>, []) \<and>
   fst (piperead 5 0 1 (calm_file\<lparr>pipes := (\<lambda>_. (pipes calm_file 5)\<lparr>pi_writeopen := False\<rparr>)\<rparr>) []) = Ret 0 \<and>
   fst (piperead 5 0 1 (calm_file\<lparr>procs := (\<lambda>_. (procs calm_file 3)\<lparr>p_killed := 1\<rparr>)\<rparr>) []) = Ret (- 1)"
proof (intro conjI)
  have em: "pipe_items \<lparr>pi_data = (\<lambda>_. 0), pi_nread = 0, pi_nwrite = 0, pi_readopen = a, pi_writeopen = b\<rparr> = []" for a b
    by (simp add: pipe_empty_iff [symmetric])
  show "pipewrite 5 0 1 (calm_file\<lparr>pipes := (\<lambda>_. (pipes calm_file 5)\<lparr>pi_readopen := False\<rparr>)\<rparr>) [] =
     (Ret (- 1), calm_file\<lparr>pipes := (\<lambda>_. (pipes calm_file 5)\<lparr>pi_readopen := False\<rparr>)\<rparr>, [])"
    by (rule pipe_closed_ends [THEN conjunct1, THEN mp]) simp_all
  show "fst (piperead 5 0 1 (calm_file\<lparr>pipes := (\<lambda>_. (pipes calm_file 5)\<lparr>pi_writeopen := False\<rparr>)\<rparr>) []) = Ret 0"
    by (subst pipe_closed_ends [THEN conjunct2, THEN conjunct1, THEN mp]) (simp_all add: em)
  show "fst (piperead 5 0 1 (calm_file\<lparr>procs := (\<lambda>_. (procs calm_file 3)\<lparr>p_killed := 1\<rparr>)\<rparr>) []) = Ret (- 1)"
    by (subst pipe_closed_ends [THEN conjunct2, THEN conjunct2, THEN mp]) (simp_all add: em)
qed

end
