(* ===== verification/BlockStore.thy ===== *)
theory BlockStore
  imports BioProps
begin

text \<open>
  The contract of the buffer cache.  \<open>blk d s n\<close> is the content of block \<open>n\<close> as the
  file system sees it, \<open>pins d H s n\<close> counts the references beyond the one of a holder and
  \<open>H\<close> is the set of buffers that the running process holds.  \<open>bio_ok\<close> is the invariant of
  the cache; each operation keeps it and acts on contents, pins and disk as a store of
  blocks would.
\<close>

section \<open>Views and invariant\<close>

definition bkey :: "uint \<Rightarrow> 'a bio_state_scheme \<Rightarrow> nat \<Rightarrow> uint \<Rightarrow> bool" where
  "bkey d s i n \<longleftrightarrow> b_dev (bufs s i) = d \<and> b_blockno (bufs s i) = n"

definition cached :: "uint \<Rightarrow> 'a bio_state_scheme \<Rightarrow> uint \<Rightarrow> nat option" where
  "cached d s n = List.find (\<lambda>i. bkey d s i n) [0..<NBUF]"

definition blk :: "uint \<Rightarrow> 'a bio_state_scheme \<Rightarrow> uint \<Rightarrow> uchar list" where
  "blk d s n = (case cached d s n of
     Some i \<Rightarrow> if b_valid (bufs s i) then b_data (bufs s i) else disk s n
   | None \<Rightarrow> disk s n)"

definition pins :: "uint \<Rightarrow> nat set \<Rightarrow> 'a bio_state_scheme \<Rightarrow> uint \<Rightarrow> uint" where
  "pins d H s n = (case cached d s n of
     Some i \<Rightarrow> b_refcnt (bufs s i) - (if i \<in> H then 1 else 0)
   | None \<Rightarrow> 0)"

definition uniq :: "uint \<Rightarrow> 'a bio_state_scheme \<Rightarrow> bool" where
  "uniq d s \<longleftrightarrow> (\<forall>i<NBUF. \<forall>j<NBUF. \<forall>n. bkey d s i n \<and> bkey d s j n \<longrightarrow> i = j)"

text \<open>A buffer in use is valid; a valid buffer that is not in use agrees with the disk.\<close>

definition buf_ok :: "uint \<Rightarrow> (uint \<Rightarrow> uchar list) \<Rightarrow> buf \<Rightarrow> bool" where
  "buf_ok d D x \<longleftrightarrow> (if b_refcnt x = 0 then b_dev x = d \<and> b_valid x \<longrightarrow> b_data x = D (b_blockno x) else b_dev x = d \<and> b_valid x)"

definition slot_ok :: "uint \<Rightarrow> nat set \<Rightarrow> 'a bio_state_scheme \<Rightarrow> nat \<Rightarrow> bool" where
  "slot_ok d H s i \<longleftrightarrow> buf_ok d (disk s) (bufs s i) \<and>
     (if i \<in> H then sl_mine s (BufSl i) \<and> b_refcnt (bufs s i) \<noteq> 0 else \<not> sl_locked (slocks s (BufSl i)))"

definition bio_ok :: "uint \<Rightarrow> nat set \<Rightarrow> 'a bio_state_scheme \<Rightarrow> bool" where
  "bio_ok d H s \<longleftrightarrow> (\<exists>xs. lru (bufs s) xs) \<and> H \<subseteq> {..<NBUF} \<and> (\<forall>i<NBUF. slot_ok d H s i) \<and> uniq d s"

text \<open>What the operations of the cache leave alone: everything but the cache itself, the sleep
  locks of its buffers and, for the processes that wait for a buffer, their scheduling state.\<close>

definition same_proc :: "proc \<Rightarrow> proc \<Rightarrow> bool" where
  "same_proc p q \<longleftrightarrow> q = p\<lparr>p_state := p_state q, p_chan := p_chan q\<rparr>"

definition bio_frame :: "'a bio_state_scheme \<Rightarrow> 'a bio_state_scheme \<Rightarrow> bool" where
  "bio_frame s s' \<longleftrightarrow> s' = s\<lparr>procs := procs s', slocks := slocks s', bufs := bufs s', disk := disk s', dwrites := dwrites s'\<rparr> \<and>
     (\<forall>p. same_proc (procs s p) (procs s' p)) \<and> (\<forall>k. (\<forall>i. k \<noteq> BufSl i) \<longrightarrow> slocks s' k = slocks s k)"

text \<open>The locks the operations take.\<close>

definition bio_free :: "lockid set \<Rightarrow> bool" where
  "bio_free L \<longleftrightarrow> BcacheLock \<notin> L \<and> (\<forall>k. SleepLk k \<notin> L) \<and> (\<forall>p. ProcLock p \<notin> L)"

lemma bio_free_empty [simp]: "bio_free {}" by (simp add: bio_free_def)

lemma same_proc_refl [simp]: "same_proc p p" by (simp add: same_proc_def)

lemma same_proc_woken [simp]: "same_proc (P p) (woken_all c P p)"
  by (simp add: same_proc_def woken_all_def woken_def)

lemma same_proc_trans: "same_proc p q \<Longrightarrow> same_proc q r \<Longrightarrow> same_proc p r"
  by (cases p; cases q; cases r) (simp add: same_proc_def)

lemma bio_frame_refl [simp]: "bio_frame s s" by (simp add: bio_frame_def)

lemma bio_frame_trans:
  assumes "bio_frame s t" "bio_frame t u"
  shows "bio_frame s u"
proof -
  have t: "t = s\<lparr>procs := procs t, slocks := slocks t, bufs := bufs t, disk := disk t, dwrites := dwrites t\<rparr>"
    and u: "u = t\<lparr>procs := procs u, slocks := slocks u, bufs := bufs u, disk := disk u, dwrites := dwrites u\<rparr>"
    using assms by (auto simp: bio_frame_def)
  have "t\<lparr>procs := procs u, slocks := slocks u, bufs := bufs u, disk := disk u, dwrites := dwrites u\<rparr> =
      s\<lparr>procs := procs u, slocks := slocks u, bufs := bufs u, disk := disk u, dwrites := dwrites u\<rparr>"
    by (subst t) simp
  with u have "u = s\<lparr>procs := procs u, slocks := slocks u, bufs := bufs u, disk := disk u, dwrites := dwrites u\<rparr>" by (rule trans)
  moreover have "same_proc (procs s p) (procs u p)" for p using assms same_proc_trans unfolding bio_frame_def by blast
  moreover have "slocks u k = slocks s k" if "\<forall>i. k \<noteq> BufSl i" for k using assms that by (simp add: bio_frame_def)
  ultimately show ?thesis by (simp add: bio_frame_def)
qed

lemma bio_frame_facts:
  assumes "bio_frame s t"
  shows "calm L s \<Longrightarrow> calm L t" "myp t = myp s"
proof -
  have t: "t = s\<lparr>procs := procs t, slocks := slocks t, bufs := bufs t, disk := disk t, dwrites := dwrites t\<rparr>"
    using assms by (simp add: bio_frame_def)
  show "calm L t" if "calm L s" by (subst t) (simp add: that)
  show "myp t = myp s" by (subst t) simp
qed

section \<open>Looking up blocks\<close>

lemma bio_okD:
  assumes "bio_ok d H s"
  shows "\<exists>xs. lru (bufs s) xs" "i < NBUF \<Longrightarrow> slot_ok d H s i" "uniq d s" "i \<in> H \<Longrightarrow> i < NBUF"
    "i \<in> H \<Longrightarrow> sl_mine s (BufSl i) \<and> b_refcnt (bufs s i) \<noteq> 0 \<and> b_dev (bufs s i) = d \<and> b_valid (bufs s i)"
    "i < NBUF \<Longrightarrow> i \<notin> H \<Longrightarrow> \<not> sl_locked (slocks s (BufSl i))"
  using assms by (auto simp: bio_ok_def slot_ok_def buf_ok_def split: if_splits)

lemmas bio_ok_uniq = bio_okD(3)

lemma find_unique:
  "x \<in> set xs \<Longrightarrow> P x \<Longrightarrow> \<forall>y\<in>set xs. P y \<longrightarrow> y = x \<Longrightarrow> List.find P xs = Some x"
proof -
  assume x: "x \<in> set xs" "P x" and u: "\<forall>y\<in>set xs. P y \<longrightarrow> y = x"
  obtain z where z: "List.find P xs = Some z" using x by (metis find_None_iff not_Some_eq)
  then have "z \<in> set xs" "P z" by (metis find_Some_iff nth_mem)+
  with u z show ?thesis by blast
qed

lemma find_absent: "(\<And>y. y \<in> set xs \<Longrightarrow> \<not> P y) \<Longrightarrow> List.find P xs = None"
  by (induction xs) auto

lemma find_upt:
  fixes N :: nat
  shows "x < N \<Longrightarrow> P x \<Longrightarrow> \<forall>y<N. P y \<longrightarrow> y = x \<Longrightarrow> List.find P [0..<N] = Some x"
    and "\<forall>y<N. \<not> P y \<Longrightarrow> List.find P [0..<N] = None"
    and "List.find P [0..<N] = Some x \<Longrightarrow> x < N \<and> P x"
    and "List.find P [0..<N] = None \<Longrightarrow> y < N \<Longrightarrow> \<not> P y"
proof -
  show "List.find P [0..<N] = Some x" if "x < N" "P x" "\<forall>y<N. P y \<longrightarrow> y = x"
  proof (rule find_unique)
    show "x \<in> set [0..<N]" using that(1) by simp
    show "\<forall>y\<in>set [0..<N]. P y \<longrightarrow> y = x" unfolding set_upt using that(3) by (meson atLeastLessThan_iff)
  qed (rule that(2))
  show "List.find P [0..<N] = None" if "\<forall>y<N. \<not> P y"
    by (rule find_absent, unfold set_upt) (meson that atLeastLessThan_iff)
  show "x < N \<and> P x" if "List.find P [0..<N] = Some x"
    using that by (auto simp: find_Some_iff)
  show "\<not> P y" if "List.find P [0..<N] = None" "y < N"
    using that by (auto simp: find_None_iff)
qed

lemma cached_Some: "uniq d s \<Longrightarrow> i < NBUF \<Longrightarrow> bkey d s i n \<Longrightarrow> cached d s n = Some i"
  unfolding cached_def uniq_def by (rule find_upt(1)) blast+

lemma cached_None: "(\<And>i. i < NBUF \<Longrightarrow> \<not> bkey d s i n) \<Longrightarrow> cached d s n = None"
  unfolding cached_def by (rule find_upt(2)) blast

lemma cached_SomeD: "cached d s n = Some i \<Longrightarrow> i < NBUF \<and> bkey d s i n"
  unfolding cached_def by (rule find_upt(3))

lemma cached_NoneD: "cached d s n = None \<Longrightarrow> i < NBUF \<Longrightarrow> \<not> bkey d s i n"
  unfolding cached_def by (rule find_upt(4))

lemma lru_find:
  assumes "lru (bufs s) xs" "uniq d s"
  shows "List.find (\<lambda>i. b_dev (bufs s i) = d \<and> b_blockno (bufs s i) = n) xs = cached d s n"
proof (cases "cached d s n")
  case None
  then show ?thesis using assms(1) cached_NoneD [OF None] by (auto simp: lru_def bkey_def intro!: find_absent)
next
  case (Some i)
  then show ?thesis using assms cached_SomeD [OF Some]
    by (auto simp: lru_def bkey_def uniq_def intro!: find_unique)
qed

section \<open>Reading a block\<close>

definition bread_post :: "uint \<Rightarrow> uint \<Rightarrow> nat \<Rightarrow> 'a bio_state_scheme \<Rightarrow> 'a bio_state_scheme" where
  "bread_post d n b s = s\<lparr>slocks := (slocks s)(BufSl b := (slocks s (BufSl b))\<lparr>sl_locked := True, sl_pid := p_pid (procs s (myp s))\<rparr>),
     bufs := (bufs s)(b := (bufs s b)\<lparr>b_dev := d, b_blockno := n, b_valid := True,
       b_refcnt := b_refcnt (bufs s b) + 1, b_data := blk d s n\<rparr>)\<rparr>"

text \<open>The buffer \<open>bget\<close> picks: the one that caches the block, or else one that is not in use.\<close>

definition picks :: "uint \<Rightarrow> uint \<Rightarrow> 'a bio_state_scheme \<Rightarrow> nat \<Rightarrow> bool" where
  "picks d n s b \<longleftrightarrow> b < NBUF \<and> (cached d s n = Some b \<or> cached d s n = None \<and> b_refcnt (bufs s b) = 0)"

lemma bget_run:
  assumes "calm L s" "bio_free L" "bio_ok d H s" "\<forall>i\<in>H. b_blockno (bufs s i) \<noteq> n"
    and "cached d s n \<noteq> None \<or> (\<exists>i<NBUF. b_refcnt (bufs s i) = 0)"
  shows "\<exists>b. picks d n s b \<and> b \<notin> H \<and> bget d n s e = (Ret b, sl_take (BufSl b) (s\<lparr>bufs := (bufs s)(b :=
     if cached d s n = None then (bufs s b)\<lparr>b_dev := d, b_blockno := n, b_valid := False, b_refcnt := 1\<rparr>
     else (bufs s b)\<lparr>b_refcnt := b_refcnt (bufs s b) + 1\<rparr>)\<rparr>), e)"
proof -
  obtain xs where xs: "lru (bufs s) xs" using bio_okD(1) [OF assms(3)] by blast
  then have h: "HEAD \<notin> set xs" "HEAD \<notin> set (rev xs)" by (auto simp: lru_def)
  let ?a = "acquired BcacheLock"
  have L: "BcacheLock \<notin> L" "SleepLk k \<notin> L" for k using assms(2) by (auto simp: bio_free_def)
  have c: "bget_cached d n (b_next (bufs s HEAD)) (?a s) e = (Ret (cached d s n), ?a s, e)"
    using bget_cached_run [of "?a s" HEAD xs d n e] xs h lru_find [OF xs bio_ok_uniq [OF assms(3)], of n] by (simp add: lru_def)
  have rel: "release BcacheLock (?a t) e = (Ret (), t, e)" if "calm L t" for t :: "'a bio_state_scheme"
    using that L by (intro release_calm [where L = L]) simp_all
  have acq: "acquiresleep (BufSl b) t e = (Ret (), sl_take (BufSl b) t, e)" if "calm L t" "\<not> sl_locked (slocks t (BufSl b))" for t :: "'a bio_state_scheme" and b
    using that L by (intro acquiresleep_free)
  show ?thesis
  proof (cases "cached d s n")
    case (Some b)
    then have b: "b < NBUF" "bkey d s b n" using cached_SomeD by blast+
    then have nh: "b \<notin> H" using assms(4) by (auto simp: bkey_def)
    then have "\<not> sl_locked (slocks s (BufSl b))" using bio_okD(6) [OF assms(3)] b by simp
    then have "bget d n s e = (Ret b, sl_take (BufSl b) (s\<lparr>bufs := (bufs s)(b := (bufs s b)\<lparr>b_refcnt := b_refcnt (bufs s b) + 1\<rparr>)\<rparr>), e)"
      unfolding bget_def using assms(1) Some L
      by (simp add: acquire_calm [OF assms(1)] kbind_Ret c rel acq kret_run)
    then show ?thesis using Some b nh by (intro exI [of _ b]) (simp add: picks_def)
  next
    case None
    then obtain i where i: "i < NBUF" "b_refcnt (bufs s i) = 0" using assms(5) by auto
    let ?f = "List.find (\<lambda>b. b_refcnt (bufs s b) = 0) (rev xs)"
    have "?f \<noteq> None" using i xs by (auto simp: find_None_iff lru_def)
    then obtain b where f: "?f = Some b" by auto
    then have b: "b_refcnt (bufs s b) = 0" "b < NBUF" using xs by (auto simp: find_Some_iff lru_def) (metis lessThan_iff nth_mem set_rev length_rev)
    then have nh: "b \<notin> H" using bio_okD(5) [OF assms(3)] by blast
    then have sl: "\<not> sl_locked (slocks s (BufSl b))" using bio_okD(6) [OF assms(3)] b by simp
    have u: "bget_unused (b_prev (bufs s HEAD)) (?a s) e = (Ret (Some b), ?a s, e)"
      using bget_unused_run [of "?a s" HEAD "rev xs" e] xs h f by (simp add: lru_def)
    have "bget d n s e = (Ret b, sl_take (BufSl b) (s\<lparr>bufs := (bufs s)(b :=
        (bufs s b)\<lparr>b_dev := d, b_blockno := n, b_valid := False, b_refcnt := 1\<rparr>)\<rparr>), e)"
      unfolding bget_def using assms(1) None L sl
      by (simp add: acquire_calm [OF assms(1)] kbind_Ret c u rel acq kret_run)
    then show ?thesis using None b nh by (intro exI [of _ b]) (simp add: picks_def)
  qed
qed

lemma buf_order:
  "x\<lparr>b_data := y, b_valid := v\<rparr> = x\<lparr>b_valid := v, b_data := y\<rparr>"
  "x\<lparr>b_refcnt := r, b_valid := v\<rparr> = x\<lparr>b_valid := v, b_refcnt := r\<rparr>"
  by (cases x; simp)+

lemma buf_key_eta: "b_dev x = d \<Longrightarrow> b_blockno x = n \<Longrightarrow> x\<lparr>b_dev := d, b_blockno := n\<rparr> = x"
  by (cases x) simp

lemma buf_read_eta: "b_dev x = d \<Longrightarrow> b_blockno x = n \<Longrightarrow> b_valid x \<Longrightarrow>
    x\<lparr>b_dev := d, b_blockno := n, b_valid := True, b_refcnt := r, b_data := b_data x\<rparr> = x\<lparr>b_refcnt := r\<rparr>"
  by (cases x) simp

lemma bread_run:
  assumes "calm L s" "bio_free L" "bio_ok d H s" "\<forall>i\<in>H. b_blockno (bufs s i) \<noteq> n"
    and "cached d s n \<noteq> None \<or> (\<exists>i<NBUF. b_refcnt (bufs s i) = 0)"
  shows "\<exists>b. picks d n s b \<and> b \<notin> H \<and> bread d n s e = (Ret b, bread_post d n b s, e)"
proof -
  obtain b where b: "picks d n s b" "b \<notin> H" and g: "bget d n s e = (Ret b, sl_take (BufSl b) (s\<lparr>bufs := (bufs s)(b :=
     if cached d s n = None then (bufs s b)\<lparr>b_dev := d, b_blockno := n, b_valid := False, b_refcnt := 1\<rparr>
     else (bufs s b)\<lparr>b_refcnt := b_refcnt (bufs s b) + 1\<rparr>)\<rparr>), e)"
    using bget_run [OF assms, of e] by blast
  have "bread d n s e = (Ret b, bread_post d n b s, e)"
  proof (cases "cached d s n")
    case None
    then have "blk d s n = disk s n" "b_refcnt (bufs s b) = 0" using b by (auto simp: blk_def picks_def)
    then show ?thesis using None g
      by (simp add: bread_def kbind_Ret kret_run disk_rw_def sl_take_def bread_post_def buf_order)
  next
    case (Some i)
    then have i: "i = b" "b_dev (bufs s b) = d" "b_blockno (bufs s b) = n" using b cached_SomeD [OF Some]
      by (auto simp: picks_def bkey_def)
    show ?thesis
    proof (cases "b_valid (bufs s b)")
      case True
      then have "blk d s n = b_data (bufs s b)" using Some i by (simp add: blk_def)
      then show ?thesis using Some g True i
        by (simp add: bread_def kbind_Ret kret_run sl_take_def bread_post_def buf_read_eta [OF i(2,3) True])
    next
      case False
      then have "blk d s n = disk s n" using Some i by (simp add: blk_def)
      then show ?thesis using Some g False i
        by (simp add: bread_def kbind_Ret kret_run disk_rw_def sl_take_def bread_post_def buf_order buf_key_eta [OF i(2,3)])
    qed
  qed
  with b show ?thesis by blast
qed

lemma bread_post_fields [simp]:
  "bufs (bread_post d n b s) i = (if i = b then (bufs s b)\<lparr>b_dev := d, b_blockno := n, b_valid := True,
       b_refcnt := b_refcnt (bufs s b) + 1, b_data := blk d s n\<rparr> else bufs s i)"
  "disk (bread_post d n b s) = disk s" "dwrites (bread_post d n b s) = dwrites s" "procs (bread_post d n b s) = procs s"
  "myp (bread_post d n b s) = myp s"
  "slocks (bread_post d n b s) (BufSl i) = (if i = b then (slocks s (BufSl b))\<lparr>sl_locked := True, sl_pid := p_pid (procs s (myp s))\<rparr>
     else slocks s (BufSl i))"
  "calm L (bread_post d n b s) = calm L s" "bio_frame s (bread_post d n b s)"
  by (simp_all add: bread_post_def bio_frame_def)

lemma bread_post_cached:
  assumes "picks d n s b" "uniq d s"
  shows "uniq d (bread_post d n b s)" "cached d (bread_post d n b s) n = Some b"
    "m \<noteq> n \<Longrightarrow> cached d (bread_post d n b s) m = (if cached d s m = Some b then None else cached d s m)"
proof -
  let ?t = "bread_post d n b s"
  have b: "b < NBUF" using assms(1) by (simp add: picks_def)
  have k: "bkey d ?t i m = (if i = b then m = n else bkey d s i m)" for i m by (auto simp: bkey_def)
  have o: "i = b" if "i < NBUF" "bkey d s i n" for i
    using that assms b cached_NoneD [of d s n i] cached_SomeD [of d s n b] unfolding picks_def uniq_def by blast
  show u: "uniq d ?t" unfolding uniq_def k using assms(2) o unfolding uniq_def by metis
  show "cached d ?t n = Some b" using cached_Some [OF u b] by (simp add: k)
  show "cached d ?t m = (if cached d s m = Some b then None else cached d s m)" if "m \<noteq> n"
  proof (cases "cached d s m")
    case None
    then have "cached d ?t m = None" using that cached_NoneD [OF None] by (intro cached_None) (simp add: k)
    then show ?thesis using None by simp
  next
    case (Some i)
    note i = cached_SomeD [OF Some]
    show ?thesis
    proof (cases "i = b")
      case True
      have "\<not> bkey d ?t j m" if "j < NBUF" for j
        using that \<open>m \<noteq> n\<close> assms(2) i True unfolding k uniq_def by metis
      then show ?thesis using Some True by (simp add: cached_None)
    next
      case False
      then show ?thesis using Some i cached_Some [OF u, of i m] by (simp add: k)
    qed
  qed
qed

lemma bread_post_view:
  assumes "picks d n s b" "bio_ok d H s" "b \<notin> H"
  shows "blk d (bread_post d n b s) = blk d s" "pins d (insert b H) (bread_post d n b s) = pins d H s"
proof -
  let ?t = "bread_post d n b s"
  note c = bread_post_cached [OF assms(1) bio_ok_uniq [OF assms(2)]]
  have ev: "b_refcnt (bufs s b) = 0 \<and> (b_valid (bufs s b) \<longrightarrow> b_data (bufs s b) = disk s m)" if "m \<noteq> n" "cached d s m = Some b" for m
    using that cached_SomeD [of d s m b] cached_SomeD [of d s n b] assms(1) bio_okD(2) [OF assms(2), of b]
    by (auto simp: picks_def bkey_def slot_ok_def buf_ok_def)
  show "blk d ?t = blk d s"
  proof
    fix m show "blk d ?t m = blk d s m"
      using c(2) c(3) [of m] ev [of m] by (cases "m = n") (auto simp: blk_def split: option.splits)
  qed
  show "pins d (insert b H) ?t = pins d H s"
  proof
    fix m show "pins d (insert b H) ?t m = pins d H s m"
    proof (cases "m = n")
      case True
      then show ?thesis using c(2) assms(1,3) by (auto simp: pins_def picks_def)
    next
      case False
      then show ?thesis using c(3) [of m] ev [of m] assms(3) by (auto simp: pins_def split: option.splits)
    qed
  qed
qed

lemma bread_post_ok:
  assumes "picks d n s b" "bio_ok d H s" "b \<notin> H" "pins d H s n + 1 \<noteq> 0"
  shows "bio_ok d (insert b H) (bread_post d n b s)"
proof -
  let ?t = "bread_post d n b s"
  have b: "b < NBUF" using assms(1) by (simp add: picks_def)
  have rc: "b_refcnt (bufs s b) + 1 \<noteq> 0" using assms by (auto simp: pins_def picks_def split: if_splits)
  obtain xs where xs: "lru (bufs s) xs" using bio_okD(1) [OF assms(2)] by blast
  have "(\<lambda>i. b_next (bufs ?t i)) = (\<lambda>i. b_next (bufs s i))" "(\<lambda>i. b_prev (bufs ?t i)) = (\<lambda>i. b_prev (bufs s i))" by auto
  then have "lru (bufs ?t) xs" using xs by (simp only: lru_def)
  moreover have "slot_ok d (insert b H) ?t i" if "i < NBUF" for i
    using bio_okD(2) [OF assms(2) that] rc by (auto simp: slot_ok_def buf_ok_def sl_mine_def)
  ultimately show ?thesis using assms(2) b bread_post_cached(1) [OF assms(1) bio_ok_uniq [OF assms(2)]] unfolding bio_ok_def by blast
qed

section \<open>Room for another block\<close>

definition pinned :: "uint \<Rightarrow> nat set \<Rightarrow> 'a bio_state_scheme \<Rightarrow> uint set" where
  "pinned d H s = {n. pins d H s n \<noteq> 0}"

lemma pinned_sub: "pinned d H s \<subseteq> (\<lambda>i. b_blockno (bufs s i)) ` {..<NBUF}"
proof
  fix n assume "n \<in> pinned d H s"
  then obtain i where "cached d s n = Some i" by (auto simp: pinned_def pins_def split: option.splits)
  from cached_SomeD [OF this] show "n \<in> (\<lambda>i. b_blockno (bufs s i)) ` {..<NBUF}"
    unfolding bkey_def by (intro image_eqI [of _ _ i]) auto
qed

lemma bio_room:
  assumes "bio_ok d H s" "card H + card (pinned d H s) < NBUF"
  shows "\<exists>i<NBUF. b_refcnt (bufs s i) = 0"
proof (rule ccontr)
  assume "\<not> ?thesis"
  then have r: "b_refcnt (bufs s i) \<noteq> 0" if "i < NBUF" for i using that by blast
  let ?f = "\<lambda>i. b_blockno (bufs s i)"
  have k: "bkey d s i (?f i)" if "i < NBUF" for i
    using bio_okD(2) [OF assms(1) that] r [OF that] by (simp add: bkey_def slot_ok_def buf_ok_def)
  have "inj_on ?f ({..<NBUF} - H)"
    using k bio_ok_uniq [OF assms(1)] unfolding uniq_def inj_on_def by (metis DiffD1 lessThan_iff)
  moreover have "?f ` ({..<NBUF} - H) \<subseteq> pinned d H s"
  proof
    fix n assume "n \<in> ?f ` ({..<NBUF} - H)"
    then obtain i where i: "i < NBUF" "i \<notin> H" "n = ?f i" by blast
    then have "cached d s n = Some i" using cached_Some [OF bio_ok_uniq [OF assms(1)] i(1)] k by simp
    then show "n \<in> pinned d H s" using i r by (simp add: pinned_def pins_def)
  qed
  moreover have "finite (pinned d H s)" by (rule finite_subset [OF pinned_sub]) simp
  ultimately have "card ({..<NBUF} - H) \<le> card (pinned d H s)" by (rule card_inj_on_le)
  moreover have "card ({..<NBUF} - H) = NBUF - card H"
    using assms(1) by (subst card_Diff_subset) (auto simp: bio_ok_def intro: finite_subset)
  ultimately show False using assms(2) by simp
qed

lemma pins_cached: "pins d H s n \<noteq> 0 \<Longrightarrow> cached d s n \<noteq> None"
  by (auto simp: pins_def split: option.splits)

section \<open>Changing buffers in place\<close>

lemma cached_same:
  assumes "\<And>i. i < NBUF \<Longrightarrow> b_dev (bufs t i) = b_dev (bufs s i) \<and> b_blockno (bufs t i) = b_blockno (bufs s i)"
  shows "cached d t = cached d s" "uniq d t = uniq d s"
proof -
  have k: "bkey d t i n = bkey d s i n" if "i < NBUF" for i n using assms [OF that] by (simp add: bkey_def)
  show "uniq d t = uniq d s" unfolding uniq_def using k by blast
  show "cached d t = cached d s" unfolding cached_def using k by (intro ext find_cong refl) (simp only: set_upt atLeastLessThan_iff)
qed

lemma held_cached: "bio_ok d H s \<Longrightarrow> b \<in> H \<Longrightarrow> cached d s (b_blockno (bufs s b)) = Some b"
  using bio_okD(4,5) [of d H s b] by (intro cached_Some bio_ok_uniq) (auto simp: bkey_def)

lemma held_data: "bio_ok d H s \<Longrightarrow> b \<in> H \<Longrightarrow> b_data (bufs s b) = blk d s (b_blockno (bufs s b))"
  using held_cached bio_okD(5) by (fastforce simp: blk_def)

lemma held_other: "bio_ok d H s \<Longrightarrow> b \<in> H \<Longrightarrow> n \<noteq> b_blockno (bufs s b) \<Longrightarrow> cached d s n \<noteq> Some b"
  using cached_SomeD [of d s n b] by (auto simp: bkey_def)

text \<open>An operation that changes buffer \<open>b\<close> but not the block it stands for.\<close>

lemma in_place:
  fixes s t :: "'a bio_state_scheme"
  assumes "bio_ok d H s" "b \<in> H" "\<And>i. i \<noteq> b \<Longrightarrow> bufs t i = bufs s i" "slocks t = slocks s" "procs t = procs s" "myp t = myp s"
    and "disk t = (disk s)(b_blockno (bufs s b) := D)"
    and "bufs t b = (bufs s b)\<lparr>b_refcnt := r, b_data := x\<rparr>" "r \<noteq> 0"
  shows "bio_ok d H t" "blk d t = (blk d s)(b_blockno (bufs s b) := x)"
    "pins d H t = (pins d H s)(b_blockno (bufs s b) := r - 1)"
proof -
  let ?n = "b_blockno (bufs s b)"
  have b: "b < NBUF" using bio_okD(4) [OF assms(1,2)] .
  have st: "b_dev (bufs t i) = b_dev (bufs s i) \<and> b_blockno (bufs t i) = b_blockno (bufs s i)" for i
    using assms(3,8) by (cases "i = b") auto
  note c = cached_same [of t s, OF st]
  note hb = bio_okD(5) [OF assms(1,2)]
  have ne: "b_blockno (bufs s i) \<noteq> ?n" if "i < NBUF" "i \<noteq> b" "b_dev (bufs s i) = d" for i
    using that hb b bio_ok_uniq [OF assms(1)] unfolding uniq_def bkey_def by blast
  obtain xs where xs: "lru (bufs s) xs" using bio_okD(1) [OF assms(1)] by blast
  have "b_next (bufs t i) = b_next (bufs s i)" "b_prev (bufs t i) = b_prev (bufs s i)" for i
    using assms(3,8) by (cases "i = b"; simp)+
  then have "lru (bufs t) xs" using xs by (simp only: lru_def)
  moreover have "slot_ok d H t i" if i: "i < NBUF" for i
    using bio_okD(2) [OF assms(1) i] hb assms ne [OF i] by (cases "i = b") (auto simp: slot_ok_def buf_ok_def sl_mine_def)
  ultimately show "bio_ok d H t" using assms(1) c unfolding bio_ok_def by blast
  show "blk d t = (blk d s)(?n := x)"
  proof
    fix m show "blk d t m = ((blk d s)(?n := x)) m"
    proof (cases "m = ?n")
      case True
      then show ?thesis using held_cached [OF assms(1,2)] hb assms(8) by (simp add: blk_def c)
    next
      case False
      then show ?thesis using held_other [OF assms(1,2) False] assms(3,7) by (auto simp: blk_def c split: option.splits)
    qed
  qed
  show "pins d H t = (pins d H s)(?n := r - 1)"
  proof
    fix m show "pins d H t m = ((pins d H s)(?n := r - 1)) m"
    proof (cases "m = ?n")
      case True
      then show ?thesis using held_cached [OF assms(1,2)] assms(2,8) by (simp add: pins_def c)
    next
      case False
      then show ?thesis using held_other [OF assms(1,2) False] assms(3) by (auto simp: pins_def c split: option.splits)
    qed
  qed
qed

lemma pins_held: "bio_ok d H s \<Longrightarrow> b \<in> H \<Longrightarrow> pins d H s (b_blockno (bufs s b)) = b_refcnt (bufs s b) - 1"
  using held_cached [of d H s b] by (simp add: pins_def)

section \<open>Releasing a block\<close>

definition front :: "nat \<Rightarrow> (unit, 'a bio_state_scheme) K" where
  "front b = kseq [
     kmod (\<lambda>s. set_buf (b_next (bufs s b)) (\<lambda>x. x\<lparr>b_prev := b_prev (bufs s b)\<rparr>) s),
     kmod (\<lambda>s. set_buf (b_prev (bufs s b)) (\<lambda>x. x\<lparr>b_next := b_next (bufs s b)\<rparr>) s),
     kmod (\<lambda>s. set_buf b (\<lambda>x. x\<lparr>b_next := b_next (bufs s HEAD)\<rparr>) s),
     kmod (set_buf b (\<lambda>x. x\<lparr>b_prev := HEAD\<rparr>)),
     kmod (\<lambda>s. set_buf (b_next (bufs s HEAD)) (\<lambda>x. x\<lparr>b_prev := b\<rparr>) s),
     kmod (set_buf HEAD (\<lambda>x. x\<lparr>b_next := b\<rparr>))]"

lemma front_run: "front b t e = (Ret (), t\<lparr>bufs := to_front b (bufs t)\<rparr>, e)"
  by (simp add: front_def kbind_Ret kmod_run kret_run set_next_def [symmetric] set_prev_def [symmetric] to_front_def Let_def del: link_fields)

definition brelse_bufs :: "nat \<Rightarrow> (nat \<Rightarrow> buf) \<Rightarrow> nat \<Rightarrow> buf" where
  "brelse_bufs b B = (let B1 = B(b := (B b)\<lparr>b_refcnt := b_refcnt (B b) - 1\<rparr>)
     in if b_refcnt (B b) = 1 then to_front b B1 else B1)"

definition brelse_post :: "nat \<Rightarrow> 'a bio_state_scheme \<Rightarrow> 'a bio_state_scheme" where
  "brelse_post b s = (sl_drop (BufSl b) s)\<lparr>bufs := brelse_bufs b (bufs s)\<rparr>"

lemma brelse_run:
  fixes s :: "'a bio_state_scheme"
  assumes "calm L s" "bio_free L" "sl_mine s (BufSl b)"
  shows "brelse b s e = (Ret (), brelse_post b s, e)"
proof -
  have L: "BcacheLock \<notin> L" "SleepLk k \<notin> L" "\<forall>p. ProcLock p \<notin> L" for k using assms(2) by (auto simp: bio_free_def)
  let ?a = "acquired BcacheLock" and ?t = "sl_drop (BufSl b) s"
  have ct: "calm L ?t" using assms(1) by (simp add: sl_drop_def)
  have hold: "holdingsleep (BufSl b) s e = (Ret True, s, e)" using holdingsleep_run [OF assms(1) L(2), of "BufSl b" e] assms(3) by simp
  have rs: "releasesleep (BufSl b) s e = (Ret (), ?t, e)" by (rule releasesleep_run [OF assms(1) L(2,3)])
  have bt: "bufs ?t = bufs s" by (simp add: sl_drop_def)
  have rel: "release BcacheLock (?a u) e = (Ret (), u, e)" if "calm L u" for u :: "'a bio_state_scheme"
    using that L by (intro release_calm [where L = L]) simp_all
  show ?thesis unfolding brelse_def front_def [symmetric]
    using ct L by (simp add: hold rs kbind_Ret acquire_calm [OF ct] rel bt kwhen_def front_run brelse_post_def brelse_bufs_def Let_def)
qed

lemma brelse_bufs_content:
  "same_content (brelse_bufs b B i) (if i = b then (B b)\<lparr>b_refcnt := b_refcnt (B b) - 1\<rparr> else B i)"
  using to_front_content [of b "B(b := (B b)\<lparr>b_refcnt := b_refcnt (B b) - 1\<rparr>)" i]
  by (auto simp: brelse_bufs_def Let_def same_content_def)

lemma brelse_bufs_lru: "lru B xs \<Longrightarrow> b < NBUF \<Longrightarrow> \<exists>ys. lru (brelse_bufs b B) ys"
proof -
  assume x: "lru B xs" "b < NBUF"
  let ?B = "B(b := (B b)\<lparr>b_refcnt := b_refcnt (B b) - 1\<rparr>)"
  have "b_next (?B i) = b_next (B i)" "b_prev (?B i) = b_prev (B i)" for i by simp_all
  then have l: "lru ?B xs" using x(1) by (simp only: lru_def)
  have "b \<in> set xs" using x by (simp add: lru_def)
  then obtain us vs where "xs = us @ b # vs" by (metis split_list)
  with l lru_to_front [of ?B us b vs] show ?thesis unfolding brelse_bufs_def Let_def by (auto simp del: fun_upd_apply)
qed

lemma brelse_post_fields:
  "disk (brelse_post b s) = disk s" "dwrites (brelse_post b s) = dwrites s" "myp (brelse_post b s) = myp s"
  "bufs (brelse_post b s) = brelse_bufs b (bufs s)" "p_pid (procs (brelse_post b s) p) = p_pid (procs s p)"
  "slocks (brelse_post b s) = (slocks s)(BufSl b := (slocks s (BufSl b))\<lparr>sl_locked := False, sl_pid := 0\<rparr>)"
  "calm L (brelse_post b s) = calm L s" "bio_frame s (brelse_post b s)"
  by (simp_all add: brelse_post_def sl_drop_def bio_frame_def woken_all_def woken_def same_proc_def)

lemma brelse_post_ok:
  fixes s :: "'a bio_state_scheme"
  assumes "bio_ok d H s" "b \<in> H" "pins d H s (b_blockno (bufs s b)) \<noteq> 0 \<or> b_data (bufs s b) = disk s (b_blockno (bufs s b))"
  shows "bio_ok d (H - {b}) (brelse_post b s)" "blk d (brelse_post b s) = blk d s"
    "pins d (H - {b}) (brelse_post b s) = pins d H s" "\<forall>i. b_blockno (bufs (brelse_post b s) i) = b_blockno (bufs s i)"
proof -
  let ?t = "brelse_post b s"
  have b: "b < NBUF" using bio_okD(4) [OF assms(1,2)] .
  note hb = bio_okD(5) [OF assms(1,2)]
  note ct = brelse_bufs_content [of b "bufs s", folded brelse_post_fields(4)]
  have f: "b_dev (bufs ?t i) = b_dev (bufs s i)" "b_blockno (bufs ?t i) = b_blockno (bufs s i)" "b_valid (bufs ?t i) = b_valid (bufs s i)"
    "b_data (bufs ?t i) = b_data (bufs s i)" "b_refcnt (bufs ?t i) = (if i = b then b_refcnt (bufs s b) - 1 else b_refcnt (bufs s i))" for i
    using ct [of i] by (auto simp: same_content_def split: if_splits)
  note c = cached_same [of ?t s]
  have k: "cached d ?t = cached d s" "uniq d ?t = uniq d s" by (rule c; simp add: f)+
  show "\<forall>i. b_blockno (bufs ?t i) = b_blockno (bufs s i)" by (simp add: f)
  show "blk d ?t = blk d s" by (intro ext) (simp add: blk_def k f brelse_post_fields(1) split: option.split)
  show "pins d (H - {b}) ?t = pins d H s"
    using assms(2) by (intro ext) (simp add: pins_def k f split: option.split)
  have "slot_ok d (H - {b}) ?t i" if i: "i < NBUF" for i
  proof (cases "i = b")
    case True
    then show ?thesis using hb assms(3) pins_held [OF assms(1,2)]
      by (auto simp: slot_ok_def buf_ok_def f brelse_post_fields(1,3,5,6))
  next
    case False
    then show ?thesis using bio_okD(2) [OF assms(1) i]
      by (auto simp: slot_ok_def buf_ok_def f brelse_post_fields(1,3,5,6) sl_mine_def)
  qed
  moreover have "\<exists>xs. lru (bufs ?t) xs" using bio_okD(1) [OF assms(1)] brelse_bufs_lru [OF _ b] brelse_post_fields(4) [of b s] by metis
  ultimately show "bio_ok d (H - {b}) ?t" using assms(1) k unfolding bio_ok_def by blast
qed

section \<open>The contract\<close>

record bview =
  bv_blk :: "uint \<Rightarrow> uchar list"
  bv_pins :: "uint \<Rightarrow> uint"
  bv_disk :: "uint \<Rightarrow> uchar list"
  bv_writes :: "(uint \<times> uchar list) list"

definition roomy :: "nat \<Rightarrow> bview \<Rightarrow> uint \<Rightarrow> bool" where
  "roomy k v n \<longleftrightarrow> bv_pins v n + 1 \<noteq> 0 \<and> (bv_pins v n \<noteq> 0 \<or> k + card {m. bv_pins v m \<noteq> 0} < NBUF)"

definition settled :: "bview \<Rightarrow> uint \<Rightarrow> bool" where
  "settled v n \<longleftrightarrow> bv_pins v n \<noteq> 0 \<or> bv_blk v n = bv_disk v n"

definition written :: "uint \<Rightarrow> uchar list \<Rightarrow> bview \<Rightarrow> bview" where
  "written n x v = v\<lparr>bv_blk := (bv_blk v)(n := x), bv_disk := (bv_disk v)(n := x), bv_writes := (n, x) # bv_writes v\<rparr>"

definition copied :: "bool \<Rightarrow> uint \<Rightarrow> uint \<Rightarrow> bview \<Rightarrow> bview" where
  "copied u a b v = (let w = written b (bv_blk v a) v in if u then w\<lparr>bv_pins := (bv_pins v)(b := bv_pins v b - 1)\<rparr> else w)"

text \<open>
  A store of blocks: \<open>rd\<close> gives a handle on a block, through which its content is read and
  changed (\<open>put\<close>), written to the disk (\<open>wr\<close>) and unpinned; \<open>rel\<close> gives the handle back.  A block
  that is given back is pinned or agrees with the disk.
\<close>

locale block_store =
  fixes ok :: "nat set \<Rightarrow> 's \<Rightarrow> bool"
    and view :: "nat set \<Rightarrow> 's \<Rightarrow> bview"
    and num :: "'s \<Rightarrow> nat \<Rightarrow> uint"
    and data :: "'s \<Rightarrow> nat \<Rightarrow> uchar list"
    and frame :: "'s \<Rightarrow> 's \<Rightarrow> bool"
    and rd :: "uint \<Rightarrow> (nat, 's) K"
    and put :: "nat \<Rightarrow> uchar list \<Rightarrow> 's \<Rightarrow> 's"
    and wr :: "nat \<Rightarrow> (unit, 's) K"
    and unpin :: "nat \<Rightarrow> (unit, 's) K"
    and rel :: "nat \<Rightarrow> (unit, 's) K"
  assumes frame_refl: "frame s s"
    and frame_trans: "frame s t \<Longrightarrow> frame t u \<Longrightarrow> frame s u"
    and data_view: "ok H s \<Longrightarrow> h \<in> H \<Longrightarrow> data s h = bv_blk (view H s) (num s h)"
    and rd_law: "ok H s \<Longrightarrow> n \<notin> num s ` H \<Longrightarrow> roomy (card H) (view H s) n \<Longrightarrow>
      \<exists>h t. rd n s e = (Ret h, t, e) \<and> h \<notin> H \<and> ok (insert h H) t \<and> view (insert h H) t = view H s \<and>
        num t h = n \<and> (\<forall>g\<in>H. num t g = num s g) \<and> frame s t"
    and put_law: "ok H s \<Longrightarrow> h \<in> H \<Longrightarrow> ok H (put h x s) \<and> num (put h x s) = num s \<and> frame s (put h x s) \<and>
        view H (put h x s) = (view H s)\<lparr>bv_blk := (bv_blk (view H s))(num s h := x)\<rparr>"
    and wr_law: "ok H s \<Longrightarrow> h \<in> H \<Longrightarrow> \<exists>t. wr h s e = (Ret (), t, e) \<and> ok H t \<and> num t = num s \<and> frame s t \<and>
        view H t = written (num s h) (bv_blk (view H s) (num s h)) (view H s)"
    and unpin_law: "ok H s \<Longrightarrow> h \<in> H \<Longrightarrow> bv_pins (view H s) (num s h) \<noteq> 0 \<Longrightarrow>
      \<exists>t. unpin h s e = (Ret (), t, e) \<and> ok H t \<and> num t = num s \<and> frame s t \<and>
        view H t = (view H s)\<lparr>bv_pins := (bv_pins (view H s))(num s h := bv_pins (view H s) (num s h) - 1)\<rparr>"
    and rel_law: "ok H s \<Longrightarrow> h \<in> H \<Longrightarrow> settled (view H s) (num s h) \<Longrightarrow>
      \<exists>t. rel h s e = (Ret (), t, e) \<and> ok (H - {h}) t \<and> num t = num s \<and> frame s t \<and> view (H - {h}) t = view H s"
begin

lemma read_block:
  assumes "ok {} s" "roomy 0 (view {} s) n" "settled (view {} s) n"
  shows "\<exists>h t u. rd n s e = (Ret h, t, e) \<and> data t h = bv_blk (view {} s) n \<and>
    rel h t e = (Ret (), u, e) \<and> ok {} u \<and> view {} u = view {} s \<and> frame s u \<and> frame s t"
proof -
  obtain h t where t: "rd n s e = (Ret h, t, e)" "ok {h} t" "view {h} t = view {} s" "num t h = n" "frame s t"
    using rd_law [OF assms(1), of n e] assms(2) by auto
  obtain u where u: "rel h t e = (Ret (), u, e)" "ok {} u" "view {} u = view {} s" "frame t u"
    using rel_law [OF t(2), of h e] t assms(3) by auto
  moreover have "data t h = bv_blk (view {} s) n" using t data_view [OF t(2), of h] by simp
  moreover have "frame s u" by (rule frame_trans [OF t(5) u(4)])
  ultimately show ?thesis using t by blast
qed

lemma write_block:
  assumes "ok {} s" "roomy 0 (view {} s) n"
  shows "\<exists>t. kbind (rd n) (\<lambda>h. kbind (kmod (\<lambda>s. put h (f s (data s h)) s)) (\<lambda>_. kbind (wr h) (\<lambda>_. rel h))) s e = (Ret (), t, e) \<and>
    ok {} t \<and> frame s t \<and> (\<exists>u. frame s u \<and> view {} t = written n (f u (bv_blk (view {} s) n)) (view {} s))"
proof -
  obtain h t1 where t1: "rd n s e = (Ret h, t1, e)" "ok {h} t1" "view {h} t1 = view {} s" "num t1 h = n" "frame s t1"
    using rd_law [OF assms(1), of n e] assms(2) by auto
  have d: "data t1 h = bv_blk (view {} s) n" using data_view [OF t1(2), of h] t1 by simp
  let ?x = "f t1 (bv_blk (view {} s) n)" let ?t2 = "put h ?x t1"
  have t2: "ok {h} ?t2" "num ?t2 h = n" "frame t1 ?t2" "view {h} ?t2 = (view {} s)\<lparr>bv_blk := (bv_blk (view {} s))(n := ?x)\<rparr>"
    using put_law [OF t1(2), of h ?x] t1 by simp_all
  obtain t3 where t3: "wr h ?t2 e = (Ret (), t3, e)" "ok {h} t3" "num t3 h = n" "frame ?t2 t3"
      "view {h} t3 = written n ?x (view {} s)"
    using wr_law [OF t2(1), of h e] t2 by (auto simp: written_def)
  obtain t4 where t4: "rel h t3 e = (Ret (), t4, e)" "ok {} t4" "frame t3 t4" "view {} t4 = written n ?x (view {} s)"
    using rel_law [OF t3(2), of h e] t3 by (auto simp: settled_def written_def)
  have "frame s t4" by (rule frame_trans [OF frame_trans [OF t1(5) t2(3)] frame_trans [OF t3(4) t4(3)]])
  moreover have "kbind (rd n) (\<lambda>h. kbind (kmod (\<lambda>s. put h (f s (data s h)) s)) (\<lambda>_. kbind (wr h) (\<lambda>_. rel h))) s e = (Ret (), t4, e)"
    using t3(1) t4(1) by (simp add: kbind_Ret kmod_run t1(1) d)
  ultimately show ?thesis using t1(5) t4(2,4) by blast
qed

lemma copy_tail:
  assumes "ok {p, q} s" "p \<noteq> q" "num s p = a" "num s q = b" "a \<noteq> b" "view {p, q} s = v" "settled v a" "u \<Longrightarrow> bv_pins v b \<noteq> 0"
  shows "\<exists>t. kbind (kmod (\<lambda>s. put q (data s p) s)) (\<lambda>_. kbind (wr q) (\<lambda>_. kbind (kwhen u (unpin q)) (\<lambda>_.
      kbind (rel p) (\<lambda>_. rel q)))) s e = (Ret (), t, e) \<and> ok {} t \<and> frame s t \<and> view {} t = copied u a b v"
proof -
  let ?H = "{p, q}" let ?x = "bv_blk v a"
  have d: "data s p = ?x" using data_view [OF assms(1), of p] assms by simp
  let ?t1 = "put q ?x s"
  have t1: "ok ?H ?t1" "num ?t1 = num s" "frame s ?t1" "view ?H ?t1 = v\<lparr>bv_blk := (bv_blk v)(b := ?x)\<rparr>"
    using put_law [OF assms(1), of q ?x] assms by simp_all
  obtain t2 where t2: "wr q ?t1 e = (Ret (), t2, e)" "ok ?H t2" "num t2 = num s" "frame ?t1 t2" "view ?H t2 = written b ?x v"
    using wr_law [OF t1(1), of q e] t1 assms(4) by (auto simp: written_def)
  have "\<exists>t3. kwhen u (unpin q) t2 e = (Ret (), t3, e) \<and> ok ?H t3 \<and> num t3 = num s \<and> frame t2 t3 \<and> view ?H t3 = copied u a b v"
  proof (cases u)
    case True
    then show ?thesis using unpin_law [OF t2(2), of q e] t2 assms(4,8) by (simp add: kwhen_def copied_def written_def)
  next
    case False
    then show ?thesis using t2 frame_refl by (simp add: kwhen_def kret_run copied_def)
  qed
  then obtain t3 where t3: "kwhen u (unpin q) t2 e = (Ret (), t3, e)" "ok ?H t3" "num t3 = num s" "frame t2 t3" "view ?H t3 = copied u a b v"
    by blast
  have sa: "settled (copied u a b v) a" "settled (copied u a b v) b"
    using assms(5,7) by (auto simp: copied_def written_def settled_def Let_def)
  obtain t4 where t4: "rel p t3 e = (Ret (), t4, e)" "ok {q} t4" "num t4 = num s" "frame t3 t4" "view {q} t4 = copied u a b v"
    using rel_law [OF t3(2), of p e] t3 sa assms(2,3) by (auto simp: insert_Diff_if)
  obtain t5 where t5: "rel q t4 e = (Ret (), t5, e)" "ok {} t5" "frame t4 t5" "view {} t5 = copied u a b v"
    using rel_law [OF t4(2), of q e] t4 sa assms(4) by auto
  have "frame s t5" by (rule frame_trans [OF frame_trans [OF t1(3) t2(4)] frame_trans [OF frame_trans [OF t3(4) t4(4)] t5(3)]])
  moreover have "kbind (kmod (\<lambda>s. put q (data s p) s)) (\<lambda>_. kbind (wr q) (\<lambda>_. kbind (kwhen u (unpin q)) (\<lambda>_.
      kbind (rel p) (\<lambda>_. rel q)))) s e = (Ret (), t5, e)"
    by (simp add: kbind_Ret kmod_run d t2(1) t3(1) t4(1) t5(1))
  ultimately show ?thesis using t5 by blast
qed

lemma two_blocks:
  assumes "ok {} s" "a \<noteq> b" "roomy 0 (view {} s) a" "roomy 1 (view {} s) b"
  shows "\<exists>p q t1 t2. rd a s e = (Ret p, t1, e) \<and> rd b t1 e = (Ret q, t2, e) \<and> p \<noteq> q \<and> ok {p, q} t2 \<and>
    num t2 p = a \<and> num t2 q = b \<and> view {p, q} t2 = view {} s \<and> frame s t1 \<and> frame s t2"
proof -
  obtain p t1 where t1: "rd a s e = (Ret p, t1, e)" "ok {p} t1" "view {p} t1 = view {} s" "num t1 p = a" "frame s t1"
    using rd_law [OF assms(1), of a e] assms(3) by auto
  have "roomy (card {p}) (view {} s) b" using assms(4) by simp
  then obtain q t2 where t2: "rd b t1 e = (Ret q, t2, e)" "q \<noteq> p" "ok {q, p} t2" "view {q, p} t2 = view {} s"
      "num t2 q = b" "num t2 p = a" "frame t1 t2"
    using rd_law [OF t1(2), of b e] t1 assms(2) by auto
  have "frame s t2" by (rule frame_trans [OF t1(5) t2(7)])
  then show ?thesis using t1 t2
    by (intro exI [of _ p] exI [of _ q] exI [of _ t1] exI [of _ t2]) (simp add: insert_commute)
qed

end

section \<open>The buffer cache is a block store\<close>

definition bview_of :: "uint \<Rightarrow> nat set \<Rightarrow> 'a bio_state_scheme \<Rightarrow> bview" where
  "bview_of d H s = \<lparr>bv_blk = blk d s, bv_pins = pins d H s, bv_disk = disk s, bv_writes = dwrites s\<rparr>"

definition bput :: "nat \<Rightarrow> uchar list \<Rightarrow> 'a bio_state_scheme \<Rightarrow> 'a bio_state_scheme" where
  "bput b x s = set_buf b (\<lambda>y. y\<lparr>b_data := x\<rparr>) s"

lemma bput_law:
  assumes "bio_ok d H s" "b \<in> H"
  shows "bio_ok d H (bput b x s)" "blk d (bput b x s) = (blk d s)(b_blockno (bufs s b) := x)" "pins d H (bput b x s) = pins d H s"
    "\<forall>i. b_blockno (bufs (bput b x s) i) = b_blockno (bufs s i)" "bio_frame s (bput b x s)"
proof -
  let ?t = "bput b x s"
  have u: "bufs ?t b = (bufs s b)\<lparr>b_refcnt := b_refcnt (bufs s b), b_data := x\<rparr>" by (simp add: bput_def)
  have e: "slocks ?t = slocks s" "procs ?t = procs s" "myp ?t = myp s"
    "disk ?t = (disk s)(b_blockno (bufs s b) := disk s (b_blockno (bufs s b)))" by (simp_all add: bput_def)
  have n: "bufs ?t i = bufs s i" if "i \<noteq> b" for i using that by (simp add: bput_def)
  note i = in_place [OF assms n e u] bio_okD(5) [OF assms]
  show "bio_ok d H ?t" "blk d ?t = (blk d s)(b_blockno (bufs s b) := x)" using i by simp_all
  show "pins d H ?t = pins d H s" using i pins_held [OF assms] by (simp add: fun_upd_idem)
  show "\<forall>i. b_blockno (bufs ?t i) = b_blockno (bufs s i)" by (simp add: bput_def)
  show "bio_frame s ?t" by (simp add: bput_def bio_frame_def)
qed

lemma bwrite_law:
  fixes s :: "'a bio_state_scheme"
  assumes "calm L s" "bio_free L" "bio_ok d H s" "b \<in> H" "n = b_blockno (bufs s b)" "x = b_data (bufs s b)"
  defines "t \<equiv> s\<lparr>disk := (disk s)(n := x), dwrites := (n, x) # dwrites s\<rparr>"
  shows "bwrite b s e = (Ret (), t, e)" "bio_ok d H t" "blk d t = blk d s" "pins d H t = pins d H s" "bio_frame s t"
proof -
  have L: "SleepLk k \<notin> L" for k using assms(2) by (auto simp: bio_free_def)
  have "holdingsleep (BufSl b) s e = (Ret True, s, e)"
    using holdingsleep_run [OF assms(1) L, of "BufSl b" e] bio_okD(5) [OF assms(3,4)] by simp
  then show "bwrite b s e = (Ret (), t, e)" using assms(5,6) by (simp add: bwrite_def kbind_Ret disk_rw_def t_def kmod_run)
  have u: "bufs t b = (bufs s b)\<lparr>b_refcnt := b_refcnt (bufs s b), b_data := x\<rparr>" using assms(6) by (simp add: t_def)
  have e: "slocks t = slocks s" "procs t = procs s" "myp t = myp s" "disk t = (disk s)(b_blockno (bufs s b) := x)"
    using assms(5) by (simp_all add: t_def)
  have n: "bufs t i = bufs s i" if "i \<noteq> b" for i by (simp add: t_def)
  note i = in_place [OF assms(3,4) n e u] bio_okD(5) [OF assms(3,4)]
  show "bio_ok d H t" using i by simp
  show "blk d t = blk d s" using i held_data [OF assms(3,4)] assms(6) by (simp add: fun_upd_idem)
  show "pins d H t = pins d H s" using i pins_held [OF assms(3,4)] by (simp add: fun_upd_idem)
  show "bio_frame s t" by (simp add: t_def bio_frame_def)
qed

lemma pin_law:
  fixes s :: "'a bio_state_scheme"
  assumes "calm L s" "bio_free L" "bio_ok d H s" "b \<in> H" "n = b_blockno (bufs s b)"
  defines "t \<equiv> \<lambda>r. s\<lparr>bufs := (bufs s)(b := (bufs s b)\<lparr>b_refcnt := r\<rparr>)\<rparr>"
  shows "bpin b s e = (Ret (), t (b_refcnt (bufs s b) + 1), e)" "bunpin b s e = (Ret (), t (b_refcnt (bufs s b) - 1), e)"
    "r \<noteq> 0 \<Longrightarrow> bio_ok d H (t r)" "r \<noteq> 0 \<Longrightarrow> blk d (t r) = blk d s" "r \<noteq> 0 \<Longrightarrow> pins d H (t r) = (pins d H s)(n := r - 1)"
    "bio_frame s (t r)" "\<forall>i. b_blockno (bufs (t r) i) = b_blockno (bufs s i)"
proof -
  have L: "BcacheLock \<notin> L" using assms(2) by (auto simp: bio_free_def)
  have "release BcacheLock (acquired BcacheLock u) e = (Ret (), u, e)" if "calm L u" for u :: "'a bio_state_scheme"
    using that L by (intro release_calm [where L = L]) simp_all
  then show "bpin b s e = (Ret (), t (b_refcnt (bufs s b) + 1), e)" "bunpin b s e = (Ret (), t (b_refcnt (bufs s b) - 1), e)"
    using assms(1) by (simp_all add: bpin_def bunpin_def acquire_calm [OF assms(1) L] kbind_Ret kret_run t_def)
  have u: "bufs (t r) b = (bufs s b)\<lparr>b_refcnt := r, b_data := b_data (bufs s b)\<rparr>" for r by (simp add: t_def)
  have e: "slocks (t r) = slocks s" "procs (t r) = procs s" "myp (t r) = myp s"
    "disk (t r) = (disk s)(b_blockno (bufs s b) := disk s (b_blockno (bufs s b)))" for r
    by (simp_all add: t_def)
  have n: "bufs (t r) i = bufs s i" if "i \<noteq> b" for i r using that by (simp add: t_def)
  note i = in_place [OF assms(3,4) n e u]
  show "r \<noteq> 0 \<Longrightarrow> bio_ok d H (t r)" "r \<noteq> 0 \<Longrightarrow> pins d H (t r) = (pins d H s)(n := r - 1)" using i assms(5) by simp_all
  show "r \<noteq> 0 \<Longrightarrow> blk d (t r) = blk d s" using i held_data [OF assms(3,4)] by (simp add: fun_upd_idem)
  show "bio_frame s (t r)" "\<forall>i. b_blockno (bufs (t r) i) = b_blockno (bufs s i)" by (simp_all add: t_def bio_frame_def)
qed

definition bs_ok :: "uint \<Rightarrow> nat set \<Rightarrow> 'a bio_state_scheme \<Rightarrow> bool" where
  "bs_ok d H s \<longleftrightarrow> calm {} s \<and> bio_ok d H s"

abbreviation (input) bnum :: "'a bio_state_scheme \<Rightarrow> nat \<Rightarrow> uint" where
  "bnum s \<equiv> \<lambda>h. b_blockno (bufs s h)"

lemma bs_bread:
  assumes "bs_ok d H s" "n \<notin> bnum s ` H" "roomy (card H) (bview_of d H s) n"
  shows "\<exists>h t. bread d n s e = (Ret h, t, e) \<and> h \<notin> H \<and> bs_ok d (insert h H) t \<and> bview_of d (insert h H) t = bview_of d H s \<and>
    bnum t h = n \<and> (\<forall>g\<in>H. bnum t g = bnum s g) \<and> bio_frame s t"
proof -
  have c: "calm {} s" and k: "bio_ok d H s" using assms(1) by (simp_all add: bs_ok_def)
  have "cached d s n \<noteq> None \<or> (\<exists>i<NBUF. b_refcnt (bufs s i) = 0)"
    using assms(3) pins_cached bio_room [OF k] by (auto simp: roomy_def bview_of_def pinned_def)
  then obtain b where b: "picks d n s b" "b \<notin> H" "bread d n s e = (Ret b, bread_post d n b s, e)"
    using bread_run [OF c _ k, of n e] assms(2) by (metis bio_free_empty image_eqI)
  let ?t = "bread_post d n b s"
  have "pins d H s n + 1 \<noteq> 0" using assms(3) by (simp add: roomy_def bview_of_def)
  from bread_post_ok [OF b(1) k b(2) this] bread_post_view [OF b(1) k b(2)] b c show ?thesis
    by (intro exI [of _ b] exI [of _ ?t]) (auto simp: bs_ok_def bview_of_def)
qed

lemma bs_brelse:
  assumes "bs_ok d H s" "h \<in> H" "settled (bview_of d H s) (bnum s h)"
  shows "\<exists>t. brelse h s e = (Ret (), t, e) \<and> bs_ok d (H - {h}) t \<and> bnum t = bnum s \<and> bio_frame s t \<and> bview_of d (H - {h}) t = bview_of d H s"
proof -
  have c: "calm {} s" and k: "bio_ok d H s" using assms(1) by (simp_all add: bs_ok_def)
  have "pins d H s (bnum s h) \<noteq> 0 \<or> b_data (bufs s h) = disk s (bnum s h)"
    using assms(3) held_data [OF k assms(2)] by (simp add: settled_def bview_of_def)
  from brelse_post_ok [OF k assms(2) this] brelse_run [OF c bio_free_empty] bio_okD(5) [OF k assms(2)] c show ?thesis
    by (intro exI [of _ "brelse_post h s"]) (simp add: bs_ok_def bview_of_def brelse_post_fields(1,2,7,8))
qed

interpretation bs: block_store "bs_ok d" "bview_of d" bnum "\<lambda>s h. b_data (bufs s h)" bio_frame "bread d" bput bwrite bunpin brelse
  for d :: uint
proof unfold_locales
  fix s t u :: "'a bio_state_scheme" and H h n x e
  show "bio_frame s s" by simp
  show "bio_frame s t \<Longrightarrow> bio_frame t u \<Longrightarrow> bio_frame s u" by (rule bio_frame_trans)
  show "bs_ok d H s \<Longrightarrow> n \<notin> bnum s ` H \<Longrightarrow> roomy (card H) (bview_of d H s) n \<Longrightarrow>
      \<exists>h t. bread d n s e = (Ret h, t, e) \<and> h \<notin> H \<and> bs_ok d (insert h H) t \<and> bview_of d (insert h H) t = bview_of d H s \<and>
        bnum t h = n \<and> (\<forall>g\<in>H. bnum t g = bnum s g) \<and> bio_frame s t"
    by (rule bs_bread)
  assume k: "bs_ok d H s" and h: "h \<in> H"
  then have c: "calm {} s" and b: "bio_ok d H s" by (simp_all add: bs_ok_def)
  show "b_data (bufs s h) = bv_blk (bview_of d H s) (bnum s h)" using held_data [OF b h] by (simp add: bview_of_def)
  show "bs_ok d H (bput h x s) \<and> bnum (bput h x s) = bnum s \<and> bio_frame s (bput h x s) \<and>
      bview_of d H (bput h x s) = (bview_of d H s)\<lparr>bv_blk := (bv_blk (bview_of d H s))(bnum s h := x)\<rparr>"
    using bput_law [OF b h] bio_frame_facts(1) [OF bput_law(5) [OF b h] c] by (simp add: bs_ok_def bview_of_def) (simp add: bput_def)
  show "\<exists>t. bwrite h s e = (Ret (), t, e) \<and> bs_ok d H t \<and> bnum t = bnum s \<and> bio_frame s t \<and>
      bview_of d H t = written (bnum s h) (bv_blk (bview_of d H s) (bnum s h)) (bview_of d H s)"
    using bwrite_law [OF c bio_free_empty b h refl refl] held_data [OF b h] c
    by (intro exI conjI) (auto simp: bs_ok_def bview_of_def written_def fun_upd_idem)
  show "\<exists>t. brelse h s e = (Ret (), t, e) \<and> bs_ok d (H - {h}) t \<and> bnum t = bnum s \<and> bio_frame s t \<and>
      bview_of d (H - {h}) t = bview_of d H s" if "settled (bview_of d H s) (bnum s h)"
    using bs_brelse [OF k h that] by blast
  show "\<exists>t. bunpin h s e = (Ret (), t, e) \<and> bs_ok d H t \<and> bnum t = bnum s \<and> bio_frame s t \<and>
      bview_of d H t = (bview_of d H s)\<lparr>bv_pins := (bv_pins (bview_of d H s))(bnum s h := bv_pins (bview_of d H s) (bnum s h) - 1)\<rparr>"
    if "bv_pins (bview_of d H s) (bnum s h) \<noteq> 0"
  proof -
    have r: "b_refcnt (bufs s h) - 1 \<noteq> 0" using that pins_held [OF b h] by (simp add: bview_of_def)
    show ?thesis using pin_law(2) [OF c bio_free_empty b h refl] pin_law(3-7) [OF c bio_free_empty b h refl, of "b_refcnt (bufs s h) - 1"] r
        pins_held [OF b h] c
      by (intro exI conjI) (auto simp: bs_ok_def bview_of_def)
  qed
qed

end
