(* ===== verification/LogProps.thy ===== *)
theory LogProps
  imports BlockStore States
begin

text \<open>
  Crash safety of the log.  \<open>commit\<close> is described by the exact sequence of block writes it
  issues, recovery by the disk it produces; together they give atomicity of a transaction for a
  crash between any two of those writes.
\<close>

section \<open>Bookkeeping\<close>

lemma acquired_log_state [simp, calm_simps]:
  "(acquired lk s)\<lparr>log_start := x_log_start\<rparr> = acquired lk (s\<lparr>log_start := x_log_start\<rparr>)"
  "log_start (acquired lk s) = log_start s"
  "(acquired lk s)\<lparr>log_outstanding := x_log_outstanding\<rparr> = acquired lk (s\<lparr>log_outstanding := x_log_outstanding\<rparr>)"
  "log_outstanding (acquired lk s) = log_outstanding s"
  "(acquired lk s)\<lparr>log_committing := x_log_committing\<rparr> = acquired lk (s\<lparr>log_committing := x_log_committing\<rparr>)"
  "log_committing (acquired lk s) = log_committing s"
  "(acquired lk s)\<lparr>log_dev := x_log_dev\<rparr> = acquired lk (s\<lparr>log_dev := x_log_dev\<rparr>)"
  "log_dev (acquired lk s) = log_dev s"
  "(acquired lk s)\<lparr>log_ncommit := x_log_ncommit\<rparr> = acquired lk (s\<lparr>log_ncommit := x_log_ncommit\<rparr>)"
  "log_ncommit (acquired lk s) = log_ncommit s"
  "(acquired lk s)\<lparr>lh_n := x_lh_n\<rparr> = acquired lk (s\<lparr>lh_n := x_lh_n\<rparr>)"
  "lh_n (acquired lk s) = lh_n s"
  "(acquired lk s)\<lparr>lh_block := x_lh_block\<rparr> = acquired lk (s\<lparr>lh_block := x_lh_block\<rparr>)"
  "lh_block (acquired lk s) = lh_block s"
  by (cases s; simp add: acquired_def pushed_def noff_def sie_on_def)+

lemma myp_log_state [simp]:
  "myp (s\<lparr>log_start := x_log_start\<rparr>) = myp s"
  "myp (s\<lparr>log_outstanding := x_log_outstanding\<rparr>) = myp s"
  "myp (s\<lparr>log_committing := x_log_committing\<rparr>) = myp s"
  "myp (s\<lparr>log_dev := x_log_dev\<rparr>) = myp s"
  "myp (s\<lparr>log_ncommit := x_log_ncommit\<rparr>) = myp s"
  "myp (s\<lparr>lh_n := x_lh_n\<rparr>) = myp s"
  "myp (s\<lparr>lh_block := x_lh_block\<rparr>) = myp s"
  by (simp_all add: myp_def curproc_def)

lemma calm_log_start [simp]: "calm L (s\<lparr>log_start := x\<rparr>) = calm L s"
  by (rule calm_upd_iff [where u = "\<lambda>x s. s\<lparr>log_start := x\<rparr>" and sel = log_start])
    (simp_all add: cs_comm_def log_state.splits)

lemma calm_log_outstanding [simp]: "calm L (s\<lparr>log_outstanding := x\<rparr>) = calm L s"
  by (rule calm_upd_iff [where u = "\<lambda>x s. s\<lparr>log_outstanding := x\<rparr>" and sel = log_outstanding])
    (simp_all add: cs_comm_def log_state.splits)

lemma calm_log_committing [simp]: "calm L (s\<lparr>log_committing := x\<rparr>) = calm L s"
  by (rule calm_upd_iff [where u = "\<lambda>x s. s\<lparr>log_committing := x\<rparr>" and sel = log_committing])
    (simp_all add: cs_comm_def log_state.splits)

lemma calm_log_dev [simp]: "calm L (s\<lparr>log_dev := x\<rparr>) = calm L s"
  by (rule calm_upd_iff [where u = "\<lambda>x s. s\<lparr>log_dev := x\<rparr>" and sel = log_dev])
    (simp_all add: cs_comm_def log_state.splits)

lemma calm_log_ncommit [simp]: "calm L (s\<lparr>log_ncommit := x\<rparr>) = calm L s"
  by (rule calm_upd_iff [where u = "\<lambda>x s. s\<lparr>log_ncommit := x\<rparr>" and sel = log_ncommit])
    (simp_all add: cs_comm_def log_state.splits)

lemma calm_lh_n [simp]: "calm L (s\<lparr>lh_n := x\<rparr>) = calm L s"
  by (rule calm_upd_iff [where u = "\<lambda>x s. s\<lparr>lh_n := x\<rparr>" and sel = lh_n])
    (simp_all add: cs_comm_def log_state.splits)

lemma calm_lh_block [simp]: "calm L (s\<lparr>lh_block := x\<rparr>) = calm L s"
  by (rule calm_upd_iff [where u = "\<lambda>x s. s\<lparr>lh_block := x\<rparr>" and sel = lh_block])
    (simp_all add: cs_comm_def log_state.splits)

definition same_log :: "'a log_state_scheme \<Rightarrow> 'a log_state_scheme \<Rightarrow> bool" where
  "same_log s t \<longleftrightarrow> log_start t = log_start s \<and> log_dev t = log_dev s \<and> lh_n t = lh_n s \<and> lh_block t = lh_block s \<and>
     log_outstanding t = log_outstanding s \<and> log_committing t = log_committing s \<and> log_ncommit t = log_ncommit s \<and>
     uart_in t = uart_in s \<and> panicked t = panicked s"

lemma same_log_refl [simp]: "same_log s s"
  by (simp add: same_log_def)

lemma same_log_trans: "same_log s t \<Longrightarrow> same_log t u \<Longrightarrow> same_log s u"
  by (simp add: same_log_def)

lemma frame_log:
  assumes "bio_frame s t" shows "same_log s t"
proof -
  have t: "t = s\<lparr>procs := procs t, slocks := slocks t, bufs := bufs t, disk := disk t, dwrites := dwrites t\<rparr>"
    using assms by (simp add: bio_frame_def)
  show ?thesis by (subst t) (simp add: same_log_def)
qed

lemma bio_transfer:
  assumes "bufs t = bufs s" "slocks t = slocks s" "disk t = disk s" "procs t = procs s" "myp t = myp s"
  shows "bio_ok d H t = bio_ok d H s" "blk d t = blk d s" "pins d H t = pins d H s"
proof -
  have k: "bkey d t = bkey d s" by (intro ext) (simp add: bkey_def assms)
  then have c: "cached d t = cached d s" by (intro ext) (simp add: cached_def)
  have "slot_ok d H t = slot_ok d H s" by (intro ext) (simp add: slot_ok_def sl_mine_def assms)
  then show "bio_ok d H t = bio_ok d H s" using assms k by (simp add: bio_ok_def uniq_def)
  show "blk d t = blk d s" "pins d H t = pins d H s" by (simp_all add: blk_def pins_def c assms fun_eq_iff split: option.split)
qed

lemma bs_transfer:
  assumes "bufs t = bufs s" "slocks t = slocks s" "disk t = disk s" "procs t = procs s" "myp t = myp s" "dwrites t = dwrites s" "calm {} t = calm {} s"
  shows "bs_ok d H t = bs_ok d H s" "bview_of d H t = bview_of d H s"
  using assms(3,6,7) bio_transfer [OF assms(1-5)] by (simp_all add: bs_ok_def bview_of_def)

lemma bs_log_fields [simp]:
  "bs_ok d H (s\<lparr>lh_n := x\<rparr>) = bs_ok d H s" "bview_of d H (s\<lparr>lh_n := x\<rparr>) = bview_of d H s"
  "bs_ok d H (s\<lparr>lh_block := y\<rparr>) = bs_ok d H s" "bview_of d H (s\<lparr>lh_block := y\<rparr>) = bview_of d H s"
  by (rule bs_transfer; simp)+

section \<open>Copying blocks, as a function on views\<close>

primrec copies :: "bool \<Rightarrow> (uint \<times> uint) list \<Rightarrow> bview \<Rightarrow> bview" where
  "copies u [] v = v"
| "copies u (p # ps) v = copies u ps (copied u (fst p) (snd p) v)"

lemma copied_fields [simp]:
  "bv_blk (copied u a b v) = (bv_blk v)(b := bv_blk v a)" "bv_disk (copied u a b v) = (bv_disk v)(b := bv_blk v a)"
  "bv_writes (copied u a b v) = (b, bv_blk v a) # bv_writes v"
  "bv_pins (copied u a b v) = (if u then (bv_pins v)(b := bv_pins v b - 1) else bv_pins v)"
  by (simp_all add: copied_def written_def Let_def)

definition apply_writes :: "(uint \<times> uchar list) list \<Rightarrow> (uint \<Rightarrow> uchar list) \<Rightarrow> uint \<Rightarrow> uchar list" where
  "apply_writes ws D = foldl (\<lambda>D w. D(fst w := snd w)) D ws"

lemma apply_writes_simps [simp]:
  "apply_writes [] D = D" "apply_writes (w # ws) D = apply_writes ws (D(fst w := snd w))"
  by (simp_all add: apply_writes_def)

lemma apply_writes_append: "apply_writes (xs @ ys) D = apply_writes ys (apply_writes xs D)"
  by (simp add: apply_writes_def)

lemma apply_writes_other: "m \<notin> fst ` set ws \<Longrightarrow> apply_writes ws D m = D m"
  unfolding apply_writes_def by (induction ws arbitrary: D) auto

lemma apply_writes_map:
  "distinct (map f xs) \<Longrightarrow> x \<in> set xs \<Longrightarrow> apply_writes (map (\<lambda>x. (f x, g x)) xs) D (f x) = g x"
proof (induction xs arbitrary: D)
  case (Cons y ys)
  show ?case
  proof (cases "x = y")
    case True
    then have "f x \<notin> fst ` set (map (\<lambda>x. (f x, g x)) ys)" using Cons.prems by force
    from apply_writes_other [OF this] True show ?thesis by (simp add: apply_writes_def)
  next
    case False
    then show ?thesis using Cons by (simp add: apply_writes_def)
  qed
qed simp

text \<open>The copies of distinct blocks to distinct blocks that are not themselves copied.\<close>

lemma copies_view:
  assumes "distinct (map snd ps)" "fst ` set ps \<inter> snd ` set ps = {}"
  shows "bv_writes (copies u ps v) = rev (map (\<lambda>(a, b). (b, bv_blk v a)) ps) @ bv_writes v"
    "bv_blk (copies u ps v) = apply_writes (map (\<lambda>(a, b). (b, bv_blk v a)) ps) (bv_blk v)"
    "bv_disk (copies u ps v) = apply_writes (map (\<lambda>(a, b). (b, bv_blk v a)) ps) (bv_disk v)"
    "bv_pins (copies u ps v) = (\<lambda>m. if u \<and> m \<in> snd ` set ps then bv_pins v m - 1 else bv_pins v m)"
  using assms
proof (induction ps arbitrary: v)
  case Nil
  case 1 show ?case by simp
  case 2 show ?case by (simp add: apply_writes_def)
  case 3 show ?case by (simp add: apply_writes_def)
  case 4 show ?case by simp
next
  case (Cons p ps)
  obtain a b where p: "p = (a, b)" by (cases p)
  have d: "distinct (map snd ps)" "fst ` set ps \<inter> snd ` set ps = {}" "b \<notin> snd ` set ps" "b \<notin> fst ` set ps"
    if "distinct (map snd (p # ps))" "fst ` set (p # ps) \<inter> snd ` set (p # ps) = {}" using that p by auto
  have e: "map (\<lambda>(x, y). (y, bv_blk (copied u a b v) x)) ps = map (\<lambda>(x, y). (y, bv_blk v x)) ps" if "b \<notin> fst ` set ps" for v
    using that by (intro map_cong refl) force
  case 1
  have "bv_writes (copies u ps (copied u a b v)) = rev (map (\<lambda>(a, b). (b, bv_blk v a)) ps) @ bv_writes (copied u a b v)"
    using Cons.IH(1) [OF d(1,2) [OF 1], of "copied u a b v"] unfolding e [OF d(4) [OF 1]] by blast
  then show ?case by (simp add: p)
  case 2
  have "bv_blk (copies u ps (copied u a b v)) = apply_writes (map (\<lambda>(a, b). (b, bv_blk v a)) ps) (bv_blk (copied u a b v))"
    using Cons.IH(2) [OF d(1,2) [OF 2], of "copied u a b v"] unfolding e [OF d(4) [OF 2]] by blast
  then show ?case by (simp add: p apply_writes_def)
  case 3
  have "bv_disk (copies u ps (copied u a b v)) = apply_writes (map (\<lambda>(a, b). (b, bv_blk v a)) ps) (bv_disk (copied u a b v))"
    using Cons.IH(3) [OF d(1,2) [OF 3], of "copied u a b v"] unfolding e [OF d(4) [OF 3]] by blast
  then show ?case by (simp add: p apply_writes_def)
  case 4 show ?case using Cons.IH(4) [OF d(1,2) [OF 4], of "copied u a b v"] d [OF 4] p by (auto simp: fun_eq_iff)
qed

section \<open>The steps of a commit\<close>

lemma set_data_bput: "set_data = bput"
  by (intro ext) (simp add: set_data_def bput_def)

lemma bv_of_fields [simp]:
  "bv_blk (bview_of d H s) = blk d s" "bv_pins (bview_of d H s) = pins d H s"
  "bv_disk (bview_of d H s) = disk s" "bv_writes (bview_of d H s) = dwrites s"
  by (simp_all add: bview_of_def)

lemma blk_lh_n [simp]: "blk d (s\<lparr>lh_n := x\<rparr>) = blk d s" "pins d H (s\<lparr>lh_n := x\<rparr>) = pins d H s"
  using arg_cong [OF bs_log_fields(2) [where d = d and H = H and s = s and x = x], of bv_blk] arg_cong [OF bs_log_fields(2) [where d = d and H = H and s = s and x = x], of bv_pins]
  unfolding bv_of_fields by blast+

lemma write_log_one_run:
  assumes "bs_ok d {} s" "log_dev s = d" "a = log_start s + of_nat i + 1" "b = lh_block s i" "a \<noteq> b"
    and "roomy 0 (bview_of d {} s) a" "roomy 1 (bview_of d {} s) b" "settled (bview_of d {} s) b"
  shows "\<exists>t. write_log_one i s e = (Ret (), t, e) \<and> bs_ok d {} t \<and> same_log s t \<and> bview_of d {} t = copied False b a (bview_of d {} s)"
proof -
  obtain p q t1 t2 where t: "bread d a s e = (Ret p, t1, e)" "bread d b t1 e = (Ret q, t2, e)" "p \<noteq> q" "bs_ok d {p, q} t2"
      "b_blockno (bufs t2 p) = a" "b_blockno (bufs t2 q) = b" "bview_of d {p, q} t2 = bview_of d {} s" "bio_frame s t1" "bio_frame s t2"
    using bs.two_blocks [OF assms(1,5,6,7), of e] by blast
  obtain u where u: "kbind (kmod (\<lambda>s. bput p (b_data (bufs s q)) s)) (\<lambda>_. kbind (bwrite p) (\<lambda>_. kbind (kwhen False (bunpin p)) (\<lambda>_.
      kbind (brelse q) (\<lambda>_. brelse p)))) t2 e = (Ret (), u, e)" "bs_ok d {} u" "bio_frame t2 u" "bview_of d {} u = copied False b a (bview_of d {} s)"
    using bs.copy_tail [of d q p t2 b a "bview_of d {} s" False e] t assms(5,8) by (auto simp: insert_commute)
  have f: "lh_block t1 i = b" using frame_log [OF t(8)] assms(4) by (simp add: same_log_def)
  have "write_log_one i s e = (Ret (), u, e)"
    unfolding write_log_one_def set_data_bput using u(1) assms(2,3) t(1,2) f by (simp add: kbind_Ret)
  then show ?thesis using u same_log_trans [OF frame_log [OF t(9)] frame_log [OF u(3)]] by blast
qed

lemma install_one_run:
  fixes s :: "'a log_state_scheme"
  assumes "bs_ok d {} s" "log_dev s = d" "a = log_start s + of_nat i + 1" "b = lh_block s i" "a \<noteq> b"
    and "roomy 0 (bview_of d {} s) a" "roomy 1 (bview_of d {} s) b" "settled (bview_of d {} s) a"
    and "r \<Longrightarrow> tx_ok {} s" "\<not> r \<Longrightarrow> pins d {} s b \<noteq> 0"
  shows "\<exists>t. install_one r i s e = (Ret (), t, e) \<and> bs_ok d {} t \<and> same_log s t \<and> bview_of d {} t = copied (\<not> r) a b (bview_of d {} s)"
proof -
  let ?msg = "if r then printk (''recovering tail %d dst %d'' @ [CHR 0x0A]) [ArgInt (of_nat i), ArgInt (ucast b)] else kret 0"
  have "\<exists>s0. ?msg s e = (Ret 0, s0, e) \<and> bs_ok d {} s0 \<and> same_log s s0 \<and> bview_of d {} s0 = bview_of d {} s"
  proof (cases r)
    case True
    have "\<exists>bs. render (''recovering tail %d dst %d'' @ [CHR 0x0A]) [ArgInt (of_nat i), ArgInt (ucast b)] = Some bs"
      by (simp add: num_dir_def num_dirs_def)
    then obtain bs s0 where p: "printk (''recovering tail %d dst %d'' @ [CHR 0x0A]) [ArgInt (of_nat i), ArgInt (ucast b)] s e = (Ret 0, s0, e)"
        "sends bs s s0"
      using printk_sends [OF assms(9) [OF True], of "''recovering tail %d dst %d'' @ [CHR 0x0A]" "[ArgInt (of_nat i), ArgInt (ucast b)]" _ e]
      by auto
    have s0: "s0 = s\<lparr>uart_pos := uart_pos s0, uart_w := map (Pair THR) (rev bs) @ uart_w s\<rparr>" using p(2) by (simp add: sends_def)
    have "bs_ok d {} s0 = bs_ok d {} s" "bview_of d {} s0 = bview_of d {} s"
      by (rule bs_transfer; subst s0; simp)+
    moreover have "same_log s s0" by (subst s0) (simp add: same_log_def)
    ultimately show ?thesis using p(1) True assms(1) by simp
  next
    case False
    then show ?thesis using assms(1) by (simp add: kret_run)
  qed
  then obtain s0 where s0: "?msg s e = (Ret 0, s0, e)" "bs_ok d {} s0" "same_log s s0" "bview_of d {} s0 = bview_of d {} s" by blast
  obtain p q t1 t2 where t: "bread d a s0 e = (Ret p, t1, e)" "bread d b t1 e = (Ret q, t2, e)" "p \<noteq> q" "bs_ok d {p, q} t2"
      "b_blockno (bufs t2 p) = a" "b_blockno (bufs t2 q) = b" "bview_of d {p, q} t2 = bview_of d {} s" "bio_frame s0 t1" "bio_frame s0 t2"
    using bs.two_blocks [OF s0(2) assms(5), of e] assms(6,7) s0(4) by auto
  obtain u where u: "kbind (kmod (\<lambda>s. bput q (b_data (bufs s p)) s)) (\<lambda>_. kbind (bwrite q) (\<lambda>_. kbind (kwhen (\<not> r) (bunpin q)) (\<lambda>_.
      kbind (brelse p) (\<lambda>_. brelse q)))) t2 e = (Ret (), u, e)" "bs_ok d {} u" "bio_frame t2 u" "bview_of d {} u = copied (\<not> r) a b (bview_of d {} s)"
    using bs.copy_tail [of d p q t2 a b "bview_of d {} s" "\<not> r" e] t assms(5,8,10) by auto
  have m: "kbind ?msg g s e = g 0 s0 e" for g :: "int \<Rightarrow> (unit, 'a log_state_scheme) K"
    by (rule kbind_Ret) (rule s0(1))
  have "install_one r i s e = (Ret (), u, e)"
    unfolding install_one_def set_data_bput kbind_kget assms(4) [symmetric] m
    using u(1) assms(2,3) t(1,2) s0(3) by (simp add: kbind_Ret same_log_def)
  then show ?thesis using u same_log_trans [OF s0(3) same_log_trans [OF frame_log [OF t(9)] frame_log [OF u(3)]]] by blast
qed

section \<open>The loops\<close>

lemma copies_append: "copies u (ps @ qs) v = copies u qs (copies u ps v)"
  by (induction ps arbitrary: v) simp_all

lemma copies_settled: "settled v m \<Longrightarrow> m \<notin> snd ` set ps \<Longrightarrow> settled (copies u ps v) m"
  by (induction ps arbitrary: v) (auto simp: settled_def)

lemma copies_False_pins: "bv_pins (copies False ps v) = bv_pins v"
  by (induction ps arbitrary: v) simp_all

lemma roomy_pins: "bv_pins w = bv_pins v \<Longrightarrow> roomy k w n = roomy k v n"
  by (simp add: roomy_def)

lemma roomy_few:
  assumes "bv_pins v = (\<lambda>m. if m \<in> A then 1 else 0)" "finite A" "n \<in> A \<or> k + card A < NBUF"
  shows "roomy k v n"
proof -
  have "{m. bv_pins v m \<noteq> 0} = A" by (auto simp: assms(1))
  then show ?thesis using assms(3) by (auto simp: roomy_def assms(1))
qed

text \<open>The layout of the log: the header at block \<open>st\<close>, then \<open>LOGBLOCKS\<close> slots.\<close>

definition slot :: "uint \<Rightarrow> nat \<Rightarrow> uint" where
  "slot st i = st + of_nat i + 1"

definition log_area :: "uint \<Rightarrow> uint set" where
  "log_area st = insert st (slot st ` {..<LOGBLOCKS})"

lemma log_slot_unat: "unat st + LOGBLOCKS < 2 ^ 32 \<Longrightarrow> i < LOGBLOCKS \<Longrightarrow> unat (slot st i) = unat st + i + 1"
proof -
  assume a: "unat st + LOGBLOCKS < 2 ^ 32" "i < LOGBLOCKS"
  have "slot st i = st + of_nat (i + 1)" by (simp add: slot_def)
  moreover have "unat (of_nat (i + 1) :: uint) = i + 1" using a by (intro unat_of_nat_less) simp
  ultimately have "unat (slot st i) = (unat st + (i + 1)) mod 2 ^ LENGTH(32)" by (simp only: unat_word_ariths(1))
  then show ?thesis using a by simp
qed

lemma slots_distinct:
  assumes "unat st + LOGBLOCKS < 2 ^ 32" "n \<le> LOGBLOCKS"
  shows "distinct (map (slot st) [0..<n])" "\<And>i. i < n \<Longrightarrow> slot st i \<noteq> st" "\<And>i. i < n \<Longrightarrow> slot st i \<in> log_area st"
proof -
  have u: "unat (slot st i) = unat st + i + 1" if "i < n" for i using log_slot_unat [OF assms(1)] that assms(2) by simp
  show "distinct (map (slot st) [0..<n])"
    by (auto simp: distinct_map inj_on_def dest!: arg_cong [where f = unat] simp: u)
  show "\<And>i. i < n \<Longrightarrow> slot st i \<noteq> st" using u by fastforce
  show "\<And>i. i < n \<Longrightarrow> slot st i \<in> log_area st" using assms(2) by (auto simp: log_area_def)
qed

definition log_geom :: "uint \<Rightarrow> (nat \<Rightarrow> uint) \<Rightarrow> nat \<Rightarrow> bool" where
  "log_geom st t n \<longleftrightarrow> unat st + LOGBLOCKS < 2 ^ 32 \<and> n \<le> LOGBLOCKS \<and> distinct (map t [0..<n]) \<and> (\<forall>i<n. t i \<notin> log_area st)"

definition to_log :: "uint \<Rightarrow> (nat \<Rightarrow> uint) \<Rightarrow> nat \<Rightarrow> (uint \<times> uint) list" where
  "to_log st t n = map (\<lambda>i. (t i, slot st i)) [0..<n]"

definition from_log :: "uint \<Rightarrow> (nat \<Rightarrow> uint) \<Rightarrow> nat \<Rightarrow> (uint \<times> uint) list" where
  "from_log st t n = map (\<lambda>i. (slot st i, t i)) [0..<n]"

lemma log_pairs_sets:
  "fst ` set (to_log st t k) = t ` {..<k}" "snd ` set (to_log st t k) = slot st ` {..<k}"
  "fst ` set (from_log st t k) = slot st ` {..<k}" "snd ` set (from_log st t k) = t ` {..<k}"
  by (auto simp: to_log_def from_log_def image_image atLeast0LessThan)

lemma geom_facts:
  assumes "log_geom st t n" "k \<le> n"
  shows "distinct (map snd (to_log st t k))" "fst ` set (to_log st t k) \<inter> snd ` set (to_log st t k) = {}"
    "distinct (map snd (from_log st t k))" "fst ` set (from_log st t k) \<inter> snd ` set (from_log st t k) = {}"
    "i < n \<Longrightarrow> j < n \<Longrightarrow> slot st i \<noteq> t j" "i < n \<Longrightarrow> t i \<noteq> st" "i < n \<Longrightarrow> slot st i \<noteq> st" "i < n \<Longrightarrow> slot st i \<in> log_area st"
    "i < n \<Longrightarrow> j < n \<Longrightarrow> t i = t j \<Longrightarrow> i = j"
proof -
  have g: "unat st + LOGBLOCKS < 2 ^ 32" "n \<le> LOGBLOCKS" "distinct (map t [0..<n])" "\<forall>i<n. t i \<notin> log_area st"
    using assms(1) by (auto simp: log_geom_def)
  note sl = slots_distinct [OF g(1,2)]
  have c: "map snd (to_log st t k) = take k (map (slot st) [0..<n])" "map snd (from_log st t k) = take k (map t [0..<n])"
    using assms(2) by (auto simp: to_log_def from_log_def take_map)
  show "distinct (map snd (to_log st t k))" "distinct (map snd (from_log st t k))" unfolding c using distinct_take [OF sl(1)] distinct_take [OF g(3)] by blast+
  show ne: "slot st i \<noteq> t j" if "i < n" "j < n" for i j using sl(3) [OF that(1)] g(4) that(2) by metis
  then have "t ` {..<k} \<inter> slot st ` {..<k} = {}" using assms(2) by (auto simp: image_iff) (metis order_less_le_trans)
  then show "fst ` set (to_log st t k) \<inter> snd ` set (to_log st t k) = {}" "fst ` set (from_log st t k) \<inter> snd ` set (from_log st t k) = {}"
    by (simp_all add: log_pairs_sets Int_commute)
  show "t i \<noteq> st" if "i < n" using g(4) that by (auto simp: log_area_def)
  show "slot st i \<noteq> st" "slot st i \<in> log_area st" if "i < n" using sl that by blast+
  show "i = j" if "i < n" "j < n" "t i = t j" using g(3) that by (simp add: distinct_map inj_on_def)
qed

lemma write_log_loop:
  assumes "bs_ok d {} s" "log_dev s = d" "log_geom (log_start s) (lh_block s) n" "n < NBUF"
    and "pins d {} s = (\<lambda>m. if m \<in> lh_block s ` {..<n} then 1 else 0)" "k \<le> n"
  shows "\<exists>t. kfor [0..<k] write_log_one s e = (Ret (), t, e) \<and> bs_ok d {} t \<and> same_log s t \<and>
    bview_of d {} t = copies False (to_log (log_start s) (lh_block s) k) (bview_of d {} s)"
  using assms(6)
proof (induction k)
  case 0
  then show ?case using assms(1) by (simp add: kret_run to_log_def)
next
  case (Suc k)
  let ?v = "bview_of d {} s"
  obtain t where t: "kfor [0..<k] write_log_one s e = (Ret (), t, e)" "bs_ok d {} t" "same_log s t"
      "bview_of d {} t = copies False (to_log (log_start s) (lh_block s) k) ?v"
    using Suc by auto
  let ?a = "slot (log_start s) k" and ?b = "lh_block s k"
  have p: "bv_pins (bview_of d {} t) = (\<lambda>m. if m \<in> lh_block s ` {..<n} then 1 else 0)"
    by (simp only: t(4) copies_False_pins) (simp add: assms(5))
  have card: "card (lh_block s ` {..<n}) < NBUF" using card_image_le [of "{..<n}" "lh_block s"] assms(4) by simp
  have "?b \<in> lh_block s ` {..<n}" using Suc.prems by simp
  then have r: "roomy 0 (bview_of d {} t) ?a" "roomy 1 (bview_of d {} t) ?b" "settled (bview_of d {} t) ?b"
    using card roomy_few [OF p] p unfolding settled_def by auto
  have "?a \<noteq> ?b" using geom_facts(5) [OF assms(3) order_refl] Suc.prems by simp
  then obtain u where u: "write_log_one k t e = (Ret (), u, e)" "bs_ok d {} u" "same_log t u"
      "bview_of d {} u = copied False ?b ?a (bview_of d {} t)"
    using write_log_one_run [OF t(2), of ?a k ?b e] r t(3) assms(2) by (auto simp: same_log_def slot_def)
  have "kfor [0..<Suc k] write_log_one s e = (Ret (), u, e)"
    using t(1) u(1) by (simp add: kfor_append kbind_Ret kbind_kret_unit)
  moreover have "to_log (log_start s) (lh_block s) (Suc k) = to_log (log_start s) (lh_block s) k @ [(?b, ?a)]" by (simp add: to_log_def)
  ultimately show ?case using u t(4) same_log_trans [OF t(3) u(3)] by (auto simp: copies_append)
qed

lemma install_loop:
  assumes "bs_ok d {} s" "log_dev s = d" "log_geom (log_start s) (lh_block s) n" "n < NBUF \<or> r" "r \<Longrightarrow> tx_ok {} s"
    and "pins d {} s = (\<lambda>m. if \<not> r \<and> m \<in> lh_block s ` {..<n} then 1 else 0)" "k \<le> n"
    and "\<forall>i<n. settled (bview_of d {} s) (slot (log_start s) i)"
  shows "\<exists>t. kfor [0..<k] (install_one r) s e = (Ret (), t, e) \<and> bs_ok d {} t \<and> same_log s t \<and>
    bview_of d {} t = copies (\<not> r) (from_log (log_start s) (lh_block s) k) (bview_of d {} s)"
  using assms(7)
proof (induction k)
  case 0
  then show ?case using assms(1) by (simp add: kret_run from_log_def)
next
  case (Suc k)
  let ?v = "bview_of d {} s" and ?L = "from_log (log_start s) (lh_block s)"
  obtain t where t: "kfor [0..<k] (install_one r) s e = (Ret (), t, e)" "bs_ok d {} t" "same_log s t"
      "bview_of d {} t = copies (\<not> r) (?L k) ?v"
    using Suc by auto
  let ?a = "slot (log_start s) k" and ?b = "lh_block s k"
  note g = geom_facts [OF assms(3), of k]
  have sn: "snd ` set (?L k) = lh_block s ` {..<k}" by (rule log_pairs_sets(4))
  let ?A = "if r then {} else lh_block s ` {k..<n}"
  have "bv_pins (bview_of d {} t) m = (if m \<in> ?A then 1 else 0)" for m
  proof -
    have "{..<n} = {..<k} \<union> {k..<n}" using Suc.prems by auto
    then have "m \<in> lh_block s ` {..<n} \<longleftrightarrow> m \<in> lh_block s ` {..<k} \<or> m \<in> lh_block s ` {k..<n}"
      by (simp only: image_Un Un_iff)
    moreover have "\<not> (m \<in> lh_block s ` {..<k} \<and> m \<in> lh_block s ` {k..<n})"
    proof
      assume m: "m \<in> lh_block s ` {..<k} \<and> m \<in> lh_block s ` {k..<n}"
      obtain i where i: "m = lh_block s i" "i < k" using m by auto
      obtain j where "m = lh_block s j" "k \<le> j" "j < n" using m by auto
      with i g(9) [of i j] Suc.prems show False by simp
    qed
    ultimately show ?thesis
      using Suc.prems by (simp add: t(4) copies_view(4) [OF g(3,4)] sn assms(6))
  qed
  then have p: "bv_pins (bview_of d {} t) = (\<lambda>m. if m \<in> ?A then 1 else 0)" by (simp add: fun_eq_iff)
  have card: "card (lh_block s ` {k..<n}) \<le> n - k" using card_image_le [of "{k..<n}" "lh_block s"] by simp
  have r: "roomy 0 (bview_of d {} t) ?a" "roomy 1 (bview_of d {} t) ?b"
    by (rule roomy_few [OF p]; use card assms(4) Suc.prems in auto)+
  have "?a \<notin> snd ` set (?L k)" using g(5) Suc.prems unfolding sn by auto
  then have st: "settled (bview_of d {} t) ?a" unfolding t(4) using assms(8) Suc.prems by (intro copies_settled) simp_all
  have pb: "pins d {} t ?b \<noteq> 0" if "\<not> r" using p that Suc.prems by (auto simp: fun_eq_iff)
  have tx: "tx_ok {} t" if r using assms(5) [OF that] t(2,3) by (simp add: tx_ok_def tx_live_def same_log_def bs_ok_def)
  have "?a \<noteq> ?b" using g(5) Suc.prems by simp
  then obtain u where u: "install_one r k t e = (Ret (), u, e)" "bs_ok d {} u" "same_log t u"
      "bview_of d {} u = copied (\<not> r) ?a ?b (bview_of d {} t)"
    using install_one_run [OF t(2), of ?a k ?b r e] r st pb tx t(3) assms(2) by (auto simp: same_log_def slot_def)
  have "kfor [0..<Suc k] (install_one r) s e = (Ret (), u, e)"
    using t(1) u(1) by (simp add: kfor_append kbind_Ret kbind_kret_unit)
  moreover have "?L (Suc k) = ?L k @ [(?a, ?b)]" by (simp add: from_log_def)
  ultimately show ?case using u t(4) same_log_trans [OF t(3) u(3)] by (auto simp: copies_append)
qed

section \<open>The header block\<close>

lemma head_put_fields:
  fixes t :: "nat \<Rightarrow> uint" and w :: uint
  assumes "124 \<le> length bs" "k \<le> LOGBLOCKS"
  defines "hs \<equiv> \<lambda>k. foldl (\<lambda>bs i. put32 bs (4 + 4 * i) (t i)) (put32 bs 0 w) [0..<k]"
  shows "length (hs k) = length bs" "get32 (hs k) 0 = w" "\<forall>i<k. get32 (hs k) (4 + 4 * i) = t i"
proof -
  have "length (hs k) = length bs \<and> get32 (hs k) 0 = w \<and> (\<forall>i<k. get32 (hs k) (4 + 4 * i) = t i)"
    using assms(2)
  proof (induction k)
    case 0
    then show ?case using assms(1) by (simp add: hs_def)
  next
    case (Suc k)
    have h: "hs (Suc k) = put32 (hs k) (4 + 4 * k) (t k)" by (simp add: hs_def)
    have l: "4 + 4 * i + 4 \<le> length (hs k)" if "i \<le> k" for i using Suc that assms(1) by simp
    have "get32 (hs (Suc k)) (4 + 4 * i) = t i" if i: "i < Suc k" for i
    proof (cases "i = k")
      case True
      then show ?thesis unfolding h using l by simp
    next
      case False
      then show ?thesis unfolding h using i l [of i] l [of k] Suc by (subst get_put_other(2)) auto
    qed
    moreover have "get32 (hs (Suc k)) 0 = w" unfolding h using l [of k] Suc by (subst get_put_other(2)) auto
    ultimately show ?case using Suc l [of k] by (simp add: h)
  qed
  then show "length (hs k) = length bs" "get32 (hs k) 0 = w" "\<forall>i<k. get32 (hs k) (4 + 4 * i) = t i" by blast+
qed

lemma head_roundtrip:
  assumes "124 \<le> length bs" "n \<le> LOGBLOCKS"
  shows "head_n (head_put (int n) t bs) = int n" "i < n \<Longrightarrow> head_block (head_put (int n) t bs) i = t i"
    "length (head_put (int n) t bs) = length bs"
proof -
  note h = head_put_fields [OF assms, of t "of_int (int n)"]
  have "sint (of_int (int n) :: uint) = int n" 
    using assms(2) by (simp only: int_word_sint) simp
  then show "head_n (head_put (int n) t bs) = int n" using h(2) by (simp add: head_n_def head_put_def)
  show "head_block (head_put (int n) t bs) i = t i" if "i < n" using h(3) that by (simp add: head_block_def head_put_def)
  show "length (head_put (int n) t bs) = length bs" using h(1) by (simp add: head_put_def)
qed

lemma write_head_run:
  assumes "bs_ok d {} s" "log_dev s = d" "roomy 0 (bview_of d {} s) (log_start s)"
  shows "\<exists>t. write_head s e = (Ret (), t, e) \<and> bs_ok d {} t \<and> same_log s t \<and>
    bview_of d {} t = written (log_start s) (head_put (lh_n s) (lh_block s) (blk d s (log_start s))) (bview_of d {} s)"
proof -
  obtain t u where t: "kbind (bread d (log_start s)) (\<lambda>h. kbind (kmod (\<lambda>s. bput h (head_put (lh_n s) (lh_block s) (b_data (bufs s h))) s))
      (\<lambda>_. kbind (bwrite h) (\<lambda>_. brelse h))) s e = (Ret (), t, e)" "bs_ok d {} t" "bio_frame s t" "bio_frame s u"
      "bview_of d {} t = written (log_start s) (head_put (lh_n u) (lh_block u) (blk d s (log_start s))) (bview_of d {} s)"
    using bs.write_block [OF assms(1,3), of "\<lambda>s. head_put (lh_n s) (lh_block s)" e] by auto
  have "write_head s e = (Ret (), t, e)" unfolding write_head_def set_data_bput using t(1) assms(2) by simp
  then show ?thesis using t(2,5) frame_log [OF t(3)] frame_log [OF t(4)] by (auto simp: same_log_def)
qed

lemma kfor_lh_block:
  "kfor [0..<k] (\<lambda>i. kmod (\<lambda>s. s\<lparr>lh_block := (lh_block s)(i := f i)\<rparr>)) s e =
     (Ret (), s\<lparr>lh_block := (\<lambda>i. if i < k then f i else lh_block s i)\<rparr>, e)"
proof (induction k)
  case (Suc k)
  show ?case using Suc
    by (simp add: kfor_append kbind_Ret kbind_kret_unit kmod_run)
      (rule arg_cong [where f = "\<lambda>g. s\<lparr>lh_block := g\<rparr>"], rule ext, auto)
qed (simp add: kret_run)

lemma read_head_run:
  assumes "bs_ok d {} s" "log_dev s = d" "roomy 0 (bview_of d {} s) (log_start s)" "settled (bview_of d {} s) (log_start s)"
    and "h = blk d s (log_start s)" "head_n h \<le> int LOGBLOCKS"
  shows "\<exists>t. read_head s e = (Ret (), t, e) \<and> bs_ok d {} t \<and> bview_of d {} t = bview_of d {} s \<and>
    same_log (s\<lparr>lh_n := head_n h, lh_block := (\<lambda>i. if i < nat (head_n h) then head_block h i else lh_block s i)\<rparr>) t"
proof -
  obtain b t1 where t1: "bread d (log_start s) s e = (Ret b, t1, e)" "b \<notin> {}" "bs_ok d {b} t1" "bview_of d {b} t1 = bview_of d {} s"
      "b_blockno (bufs t1 b) = log_start s" "bio_frame s t1"
    using bs.rd_law [OF assms(1), of "log_start s" e] assms(3) by auto
  have bd: "b_data (bufs t1 b) = h" using bs.data_view [OF t1(3), of b] t1(4,5) assms(5) by simp
  let ?f = "\<lambda>s. s\<lparr>lh_n := head_n h, lh_block := (\<lambda>i. if i < nat (head_n h) then head_block h i else lh_block s i)\<rparr>"
  let ?t2 = "?f t1"
  have "bs_ok d {b} ?t2" "bview_of d {b} ?t2 = bview_of d {} s" "b_blockno (bufs ?t2 b) = log_start s" using t1 by simp_all
  then obtain u where u: "brelse b ?t2 e = (Ret (), u, e)" "bs_ok d {} u" "bio_frame ?t2 u" "bview_of d {} u = bview_of d {} s"
    using bs.rel_law [of d "{b}" ?t2 b e] assms(4) by auto
  have "read_head s e = (Ret (), u, e)"
    unfolding read_head_def using t1(1) u(1) assms(2,6) by (simp add: kbind_Ret bd kfor_lh_block cong: if_cong)
  moreover have "same_log (?f s) ?t2" using frame_log [OF t1(6)] by (auto simp: same_log_def)
  ultimately show ?thesis using u same_log_trans [OF _ frame_log [OF u(3)]] by blast
qed

section \<open>Commit\<close>

definition commit_writes :: "uint \<Rightarrow> (nat \<Rightarrow> uint) \<Rightarrow> nat \<Rightarrow> (uint \<Rightarrow> uchar list) \<Rightarrow> (uint \<times> uchar list) list" where
  "commit_writes st t n B =
     map (\<lambda>i. (slot st i, B (t i))) [0..<n] @ (st, head_put (int n) t (B st)) #
     map (\<lambda>i. (t i, B (t i))) [0..<n] @ [(st, head_put 0 t (head_put (int n) t (B st)))]"

definition commit_view :: "uint \<Rightarrow> (nat \<Rightarrow> uint) \<Rightarrow> nat \<Rightarrow> bview \<Rightarrow> bview" where
  "commit_view st t n v =
     (let v1 = copies False (to_log st t n) v;
          v2 = written st (head_put (int n) t (bv_blk v1 st)) v1;
          v3 = copies True (from_log st t n) v2
      in written st (head_put 0 t (bv_blk v3 st)) v3)"

lemma written_fields [simp]:
  "bv_blk (written n x v) = (bv_blk v)(n := x)" "bv_disk (written n x v) = (bv_disk v)(n := x)"
  "bv_writes (written n x v) = (n, x) # bv_writes v" "bv_pins (written n x v) = bv_pins v"
  by (simp_all add: written_def)

lemma apply_writes_same: "m \<in> fst ` set ws \<Longrightarrow> apply_writes ws D m = apply_writes ws E m"
proof (induction ws arbitrary: D E)
  case (Cons w ws)
  show ?case
  proof (cases "m \<in> fst ` set ws")
    case True
    then show ?thesis by (simp only: apply_writes_simps) (rule Cons.IH)
  next
    case False
    then show ?thesis using Cons.prems by (auto simp: apply_writes_other)
  qed
qed simp

lemma copies_settled_dst:
  assumes "distinct (map snd ps)" "fst ` set ps \<inter> snd ` set ps = {}" "m \<in> snd ` set ps"
  shows "bv_blk (copies u ps v) m = bv_disk (copies u ps v) m"
  unfolding copies_view(2,3) [OF assms(1,2)] using assms(3) by (intro apply_writes_same) force

lemma log_view_facts:
  assumes g: "log_geom st t n" and v: "w = copies False (to_log st t n) v"
  shows "bv_blk w st = bv_blk v st" "i < n \<Longrightarrow> bv_blk w (slot st i) = bv_blk v (t i)"
    "bv_writes w = rev (map (\<lambda>i. (slot st i, bv_blk v (t i))) [0..<n]) @ bv_writes v"
    "m \<notin> log_area st \<Longrightarrow> bv_blk w m = bv_blk v m" "i < n \<Longrightarrow> bv_disk w (slot st i) = bv_blk w (slot st i)"
    "bv_disk w = apply_writes (map (\<lambda>i. (slot st i, bv_blk v (t i))) [0..<n]) (bv_disk v)"
proof -
  note f = geom_facts [OF g order_refl]
  have e: "map (\<lambda>(a, b). (b, bv_blk v a)) (to_log st t n) = map (\<lambda>i. (slot st i, bv_blk v (t i))) [0..<n]"
    by (simp add: to_log_def)
  note c = copies_view [OF f(1,2), where u = False and v = v, folded v, unfolded e]
  have d: "distinct (map (slot st) [0..<n])" using f(1) by (simp add: to_log_def comp_def)
  show "bv_writes w = rev (map (\<lambda>i. (slot st i, bv_blk v (t i))) [0..<n]) @ bv_writes v" by (rule c(1))
  show "bv_disk w = apply_writes (map (\<lambda>i. (slot st i, bv_blk v (t i))) [0..<n]) (bv_disk v)" by (rule c(3))
  show "bv_blk w st = bv_blk v st" unfolding c(2) using f(7) by (intro apply_writes_other) (auto dest: sym)
  show "bv_blk w m = bv_blk v m" if "m \<notin> log_area st" unfolding c(2) using that f(8) by (intro apply_writes_other) auto
  show "bv_blk w (slot st i) = bv_blk v (t i)" if "i < n" unfolding c(2) by (rule apply_writes_map [OF d]) (use that in simp)
  show "bv_disk w (slot st i) = bv_blk w (slot st i)" if "i < n"
    unfolding v by (rule copies_settled_dst [OF f(1,2), symmetric]) (use that in \<open>simp add: log_pairs_sets\<close>)
qed

lemma commit_view_facts:
  assumes "log_geom st t n" "bv_pins v = (\<lambda>m. if m \<in> t ` {..<n} then 1 else 0)" "w = commit_view st t n v"
  shows "bv_writes w = rev (commit_writes st t n (bv_blk v)) @ bv_writes v" "bv_pins w = (\<lambda>_. 0)"
    "m \<notin> log_area st \<Longrightarrow> bv_blk w m = bv_blk v m" "bv_disk w = apply_writes (commit_writes st t n (bv_blk v)) (bv_disk v)"
proof -
  note f = geom_facts [OF assms(1) order_refl]
  define v1 where "v1 = copies False (to_log st t n) v"
  define v2 where "v2 = written st (head_put (int n) t (bv_blk v1 st)) v1"
  define v3 where "v3 = copies True (from_log st t n) v2"
  have w: "w = written st (head_put 0 t (bv_blk v3 st)) v3" by (simp add: assms(3) commit_view_def v1_def v2_def v3_def Let_def)
  note l = log_view_facts [OF assms(1) v1_def]
  have b2: "bv_blk v2 (slot st i) = bv_blk v (t i)" if "i < n" for i using l(2) [OF that] f(7) [OF that] by (simp add: v2_def)
  have e: "map (\<lambda>(a, b). (b, bv_blk v2 a)) (from_log st t n) = map (\<lambda>i. (t i, bv_blk v (t i))) [0..<n]"
    by (simp add: from_log_def b2)
  note c = copies_view [OF f(3,4), where u = True and v = v2, folded v3_def, unfolded e]
  have d: "distinct (map t [0..<n])" using assms(1) by (simp add: log_geom_def)
  have st3: "bv_blk v3 st = head_put (int n) t (bv_blk v st)"
  proof -
    have "st \<notin> t ` {..<n}" using f(6) by auto
    then show ?thesis unfolding c(2) using l(1) by (subst apply_writes_other) (auto simp: v2_def)
  qed
  show "bv_writes w = rev (commit_writes st t n (bv_blk v)) @ bv_writes v"
    by (simp add: w c(1) v2_def l(1,3) st3 commit_writes_def)
  show "bv_disk w = apply_writes (commit_writes st t n (bv_blk v)) (bv_disk v)"
    by (simp add: w c(3) v2_def l(1,6) st3 commit_writes_def apply_writes_append)
  show "bv_pins w = (\<lambda>_. 0)"
    by (auto simp: w c(4) fun_eq_iff v2_def v1_def copies_False_pins assms(2) log_pairs_sets)
  show "bv_blk w m = bv_blk v m" if m: "m \<notin> log_area st"
  proof (cases "m \<in> t ` {..<n}")
    case True
    then obtain i where i: "i < n" "m = t i" by auto
    then have "bv_blk v3 m = bv_blk v (t i)" unfolding c(2) i(2) by (intro apply_writes_map [OF d]) simp
    then show ?thesis using i m by (auto simp: w log_area_def)
  next
    case False
    then have "bv_blk v3 m = bv_blk v2 m" unfolding c(2) by (intro apply_writes_other) auto
    then show ?thesis using l(4) [OF m] m by (auto simp: w v2_def log_area_def)
  qed
qed

lemma commit_run:
  assumes "bs_ok d {} s" "log_dev s = d" "lh_n s = int n" "0 < n" "n < NBUF" "log_geom (log_start s) (lh_block s) n"
    and "pins d {} s = (\<lambda>m. if m \<in> lh_block s ` {..<n} then 1 else 0)"
  shows "\<exists>t. commit s e = (Ret (), t, e) \<and> bs_ok d {} t \<and> same_log (s\<lparr>lh_n := 0\<rparr>) t \<and>
    bview_of d {} t = commit_view (log_start s) (lh_block s) n (bview_of d {} s)"
proof -
  let ?st = "log_start s" and ?t = "lh_block s" and ?v = "bview_of d {} s"
  have n: "n \<le> LOGBLOCKS" using assms(6) by (simp add: log_geom_def)
  obtain s1 where s1: "write_log s e = (Ret (), s1, e)" "bs_ok d {} s1" "same_log s s1" "bview_of d {} s1 = copies False (to_log ?st ?t n) ?v"
    using write_log_loop [OF assms(1,2,6,5,7) order_refl, of e] assms(3) n by (auto simp: write_log_def)
  have p1: "bv_pins (bview_of d {} s1) = (\<lambda>m. if m \<in> ?t ` {..<n} then 1 else 0)"
    by (simp only: s1(4) copies_False_pins) (simp add: assms(7))
  have card: "card (?t ` {..<n}) < NBUF" using card_image_le [of "{..<n}" ?t] assms(5) by simp
  have "roomy 0 (bview_of d {} s1) (log_start s1)" using roomy_few [OF p1] card by simp
  then obtain s2 where s2: "write_head s1 e = (Ret (), s2, e)" "bs_ok d {} s2" "same_log s1 s2"
      "bview_of d {} s2 = written ?st (head_put (int n) ?t (bv_blk (bview_of d {} s1) ?st)) (bview_of d {} s1)"
    using write_head_run [OF s1(2), of e] s1(3) assms(2,3) by (auto simp: same_log_def)
  have l2: "same_log s s2" by (rule same_log_trans [OF s1(3) s2(3)])
  then have e2: "log_start s2 = ?st" "lh_block s2 = ?t" "log_dev s2 = d" "lh_n s2 = int n" using assms(2,3) by (auto simp: same_log_def)
  have p2: "pins d {} s2 = (\<lambda>m. if m \<in> ?t ` {..<n} then 1 else 0)"
    using arg_cong [OF s2(4), of bv_pins] p1 by simp
  have "settled (bview_of d {} s2) (slot ?st i)" if "i < n" for i
    using log_view_facts(5) [OF assms(6) s1(4) that] geom_facts(7) [OF assms(6) order_refl that] by (simp add: settled_def s2(4))
  then obtain s3 where s3: "install_trans False s2 e = (Ret (), s3, e)" "bs_ok d {} s3" "same_log s2 s3"
      "bview_of d {} s3 = copies True (from_log ?st ?t n) (bview_of d {} s2)"
    using install_loop [OF s2(2), of n False n e] e2 assms(5,6) p2 n by (auto simp: install_trans_def)
  let ?s4 = "s3\<lparr>lh_n := 0\<rparr>"
  have p3: "bv_pins (bview_of d {} ?s4) = (\<lambda>m. if m \<in> {} then 1 else 0)"
    by (auto simp: s3(4) copies_view(4) [OF geom_facts(3,4) [OF assms(6) order_refl]] p2 log_pairs_sets fun_eq_iff simp del: bv_of_fields)
      (auto simp: p2)
  have e3: "log_start s3 = ?st" "lh_block s3 = ?t" "log_dev s3 = d" using s3(3) e2 by (auto simp: same_log_def)
  have "roomy 0 (bview_of d {} ?s4) (log_start ?s4)" by (rule roomy_few [OF p3]) simp_all
  then obtain s5 where s5: "write_head ?s4 e = (Ret (), s5, e)" "bs_ok d {} s5" "same_log ?s4 s5"
      "bview_of d {} s5 = written ?st (head_put 0 ?t (bv_blk (bview_of d {} s3) ?st)) (bview_of d {} s3)"
    using write_head_run [of d ?s4 e] s3(2) e3 by auto
  have "commit s e = (Ret (), s5, e)"
    unfolding commit_def using assms(3,4) by (simp add: kbind_Ret s1(1) s2(1) s3(1) s5(1) kbind_kret_unit)
  moreover have "same_log (s\<lparr>lh_n := 0\<rparr>) s5" using l2 s3(3) s5(3) by (simp add: same_log_def)
  moreover have "bview_of d {} s5 = commit_view ?st ?t n ?v"
    unfolding commit_view_def Let_def by (simp only: s5(4) s3(4) s2(4) s1(4))
  ultimately show ?thesis using s5(2) by blast
qed

section \<open>Recovery\<close>

lemma unpinned_clean:
  assumes "bs_ok d {} s" "pins d {} s m = 0"
  shows "blk d s m = disk s m"
proof (cases "cached d s m")
  case (Some i)
  note i = cached_SomeD [OF Some]
  have "slot_ok d {} s i" using assms(1) i bio_okD(2) [of d "{}" s i] by (simp add: bs_ok_def)
  then show ?thesis using assms(2) i Some by (auto simp: pins_def blk_def slot_ok_def buf_ok_def bkey_def split: if_splits)
qed (simp add: blk_def)

lemma recover_run:
  assumes "bs_ok d {} s" "log_dev s = d" "tx_ok {} s" "pins d {} s = (\<lambda>_. 0)" "log_start s = st" "h = disk s st"
    and "head_n h = int n" "log_geom st (head_block h) n" "124 \<le> length h"
  shows "\<exists>t. recover_from_log s e = (Ret (), t, e) \<and> bs_ok d {} t \<and> lh_n t = 0 \<and> head_n (disk t st) = 0 \<and>
    (\<forall>m. m \<noteq> st \<longrightarrow> disk t m = apply_writes (map (\<lambda>i. (head_block h i, disk s (slot st i))) [0..<n]) (disk s) m)"
proof -
  let ?v = "bview_of d {} s"
  have n: "n \<le> LOGBLOCKS" using assms(8) by (simp add: log_geom_def)
  have clean: "blk d s m = disk s m" for m using unpinned_clean [OF assms(1)] assms(4) by simp
  have rm: "roomy k (bview_of d {} u) m" if "pins d {} u = (\<lambda>_. 0)" "k < NBUF" for k m and u :: "'a log_state_scheme"
    using that by (simp add: roomy_def)
  let ?f = "\<lambda>s :: 'a log_state_scheme. s\<lparr>lh_n := head_n h, lh_block := (\<lambda>i. if i < nat (head_n h) then head_block h i else lh_block s i)\<rparr>"
  obtain s1 where s1: "read_head s e = (Ret (), s1, e)" "bs_ok d {} s1" "bview_of d {} s1 = ?v" "same_log (?f s) s1"
    using read_head_run [OF assms(1,2), of h e] rm [OF assms(4)] clean assms(5-7) n by (auto simp: settled_def)
  have e1: "log_start s1 = st" "log_dev s1 = d" "lh_n s1 = int n" "i < n \<Longrightarrow> lh_block s1 i = head_block h i" for i
    using s1(4) assms(2,5,7) by (auto simp: same_log_def)
  have tx1: "tx_ok {} s1" using assms(3) s1(2,4) by (simp add: tx_ok_def tx_live_def same_log_def bs_ok_def)
  have g1: "log_geom (log_start s1) (lh_block s1) n"
  proof -
    have "map (lh_block s1) [0..<n] = map (head_block h) [0..<n]" using e1(4) by simp
    then show ?thesis using assms(8) e1 by (simp only: log_geom_def) simp
  qed
  have fl: "from_log st (lh_block s1) n = from_log st (head_block h) n" using e1(4) by (simp add: from_log_def)
  have p1: "pins d {} s1 = (\<lambda>_. 0)" using arg_cong [OF s1(3), of bv_pins] assms(4) by simp
  have "blk d s1 = disk s1" using unpinned_clean [OF s1(2)] p1 by (simp add: fun_eq_iff)
  then have "\<forall>i<n. settled (bview_of d {} s1) (slot (log_start s1) i)" by (simp add: settled_def)
  then obtain s2 where s2: "install_trans True s1 e = (Ret (), s2, e)" "bs_ok d {} s2" "same_log s1 s2"
      "bview_of d {} s2 = copies False (from_log st (head_block h) n) ?v"
    using install_loop [OF s1(2) e1(2) g1, of True n e] tx1 p1 s1(3) e1 n by (auto simp: install_trans_def fl)
  note g = geom_facts [OF assms(8) order_refl]
  have ws: "map (\<lambda>(a, b). (b, bv_blk ?v a)) (from_log st (head_block h) n) = map (\<lambda>i. (head_block h i, disk s (slot st i))) [0..<n]"
    by (simp add: from_log_def clean)
  note c = copies_view [OF g(3,4), where u = False and v = ?v, folded s2(4), unfolded ws]
  let ?s3 = "s2\<lparr>lh_n := 0\<rparr>"
  have p2: "pins d {} s2 = (\<lambda>_. 0)" using c(4) assms(4) by simp
  have st: "blk d s2 st = h"
  proof -
    have "st \<notin> head_block h ` {..<n}" using g(6) by auto
    then show ?thesis using c(2) clean assms(6) by (simp add: apply_writes_other image_image atLeast0LessThan)
  qed
  have e2: "log_start s2 = st" "log_dev s2 = d" using s2(3) e1 by (auto simp: same_log_def)
  obtain s4 where s4: "write_head ?s3 e = (Ret (), s4, e)" "bs_ok d {} s4" "same_log ?s3 s4"
      "bview_of d {} s4 = written st (head_put 0 (lh_block s2) h) (bview_of d {} s2)"
    using write_head_run [of d ?s3 e] s2(2) e2 rm [OF p2, of 0] st by (auto simp: roomy_def)
  have "recover_from_log s e = (Ret (), s4, e)"
    unfolding recover_from_log_def by (simp add: kbind_Ret s1(1) s2(1) s4(1) kbind_kret_unit)
  moreover have d4: "disk s4 = (disk s2)(st := head_put 0 (lh_block s2) h)" using arg_cong [OF s4(4), of bv_disk] by simp
  moreover have "head_n (disk s4 st) = 0" using head_roundtrip(1) [of h 0] assms(9) by (simp add: d4)
  moreover have "disk s2 = apply_writes (map (\<lambda>i. (head_block h i, disk s (slot st i))) [0..<n]) (disk s)" using c(3) by simp
  ultimately show ?thesis using s4(2,3) by (auto simp: same_log_def)
qed

section \<open>Crashes\<close>

text \<open>The disk after the first \<open>k\<close> writes of a commit.\<close>

definition crash_disk :: "nat \<Rightarrow> uint \<Rightarrow> (nat \<Rightarrow> uint) \<Rightarrow> nat \<Rightarrow> (uint \<Rightarrow> uchar list) \<Rightarrow> (uint \<Rightarrow> uchar list) \<Rightarrow> uint \<Rightarrow> uchar list" where
  "crash_disk k st t n B D = apply_writes (take k (commit_writes st t n B)) D"

lemma crash_before:
  assumes "log_geom st t n" "k \<le> n"
  shows "crash_disk k st t n B D st = D st" "m \<notin> log_area st \<Longrightarrow> crash_disk k st t n B D m = D m"
proof -
  note g = geom_facts [OF assms(1) order_refl]
  have "take k (commit_writes st t n B) = take k (map (\<lambda>i. (slot st i, B (t i))) [0..<n])"
    using assms(2) by (simp add: commit_writes_def)
  then have s: "fst ` set (take k (commit_writes st t n B)) \<subseteq> slot st ` {..<n}" by (auto dest!: in_set_takeD)
  have "st \<notin> slot st ` {..<n}" using g(7) by (auto dest: sym)
  then show "crash_disk k st t n B D st = D st" unfolding crash_disk_def using s by (intro apply_writes_other) blast
  have "slot st ` {..<n} \<subseteq> log_area st" using g(8) by blast
  then show "crash_disk k st t n B D m = D m" if "m \<notin> log_area st"
    unfolding crash_disk_def using s that by (intro apply_writes_other) blast
qed

lemma crash_after:
  assumes "log_geom st t n" "n < k" "k \<le> 2 * n + 1"
  shows "crash_disk k st t n B D st = head_put (int n) t (B st)" "i < n \<Longrightarrow> crash_disk k st t n B D (slot st i) = B (t i)"
    "m \<notin> log_area st \<Longrightarrow> m \<notin> t ` {..<n} \<Longrightarrow> crash_disk k st t n B D m = D m"
proof -
  note g = geom_facts [OF assms(1) order_refl]
  let ?A = "map (\<lambda>i. (slot st i, B (t i))) [0..<n]" and ?C = "take (k - n - 1) (map (\<lambda>i. (t i, B (t i))) [0..<n])"
  have "take k (commit_writes st t n B) = ?A @ (st, head_put (int n) t (B st)) # ?C"
    using assms(2,3) by (simp add: commit_writes_def take_Cons' )
  then have c: "crash_disk k st t n B D = apply_writes ?C ((apply_writes ?A D)(st := head_put (int n) t (B st)))"
    by (simp add: crash_disk_def apply_writes_append)
  have C: "fst ` set ?C \<subseteq> t ` {..<n}" by (auto dest!: in_set_takeD)
  have d: "distinct (map (slot st) [0..<n])" using g(1) by (simp add: to_log_def comp_def)
  have "st \<notin> t ` {..<n}" using g(6) by auto
  then show "crash_disk k st t n B D st = head_put (int n) t (B st)" using C by (subst c, subst apply_writes_other) auto
  show "crash_disk k st t n B D (slot st i) = B (t i)" if i: "i < n"
  proof -
    have "slot st i \<notin> t ` {..<n}" using g(5) [OF i] by auto
    then have "crash_disk k st t n B D (slot st i) = apply_writes ?A D (slot st i)"
      using C g(7) [OF i] by (subst c, subst apply_writes_other) auto
    also have "\<dots> = B (t i)" by (rule apply_writes_map [OF d]) (use i in simp)
    finally show ?thesis .
  qed
  show "crash_disk k st t n B D m = D m" if m: "m \<notin> log_area st" "m \<notin> t ` {..<n}"
  proof -
    have "m \<notin> fst ` set ?A" using m(1) g(8) by auto
    moreover have "m \<noteq> st" using m(1) by (auto simp: log_area_def)
    moreover have "m \<notin> fst ` set ?C" using C m(2) by blast
    ultimately show ?thesis unfolding c by (simp add: apply_writes_other)
  qed
qed

lemma crash_done:
  assumes "log_geom st t n" "k = 2 * n + 2"
  shows "crash_disk k st t n B D st = head_put 0 t (head_put (int n) t (B st))" "i < n \<Longrightarrow> crash_disk k st t n B D (t i) = B (t i)"
    "m \<notin> log_area st \<Longrightarrow> m \<notin> t ` {..<n} \<Longrightarrow> crash_disk k st t n B D m = D m"
proof -
  note g = geom_facts [OF assms(1) order_refl]
  let ?C = "map (\<lambda>i. (t i, B (t i))) [0..<n]" and ?h = "head_put 0 t (head_put (int n) t (B st))"
  let ?D = "crash_disk (2 * n + 1) st t n B D"
  have take: "take k (commit_writes st t n B) = take (2 * n + 1) (commit_writes st t n B) @ [(st, ?h)]"
    using assms(2) by (simp add: commit_writes_def take_Cons')
  then have c: "crash_disk k st t n B D = ?D(st := ?h)" by (simp add: crash_disk_def apply_writes_append)
  then show "crash_disk k st t n B D st = ?h" by simp
  show "crash_disk k st t n B D m = D m" if "m \<notin> log_area st" "m \<notin> t ` {..<n}"
    using crash_after(3) [OF assms(1), of "2 * n + 1" m B D] that by (auto simp: c log_area_def)
  show "crash_disk k st t n B D (t i) = B (t i)" if i: "i < n"
  proof -
    have d: "distinct (map t [0..<n])" using assms(1) by (simp add: log_geom_def)
    have "take (2 * n + 1) (commit_writes st t n B) = map (\<lambda>i. (slot st i, B (t i))) [0..<n] @ (st, head_put (int n) t (B st)) # ?C"
      by (simp add: commit_writes_def take_Cons')
    then have "?D (t i) = B (t i)"
      unfolding crash_disk_def by (simp only: apply_writes_append apply_writes_simps) (rule apply_writes_map [OF d], use i in simp)
    then show ?thesis using g(6) [OF i] by (simp add: c)
  qed
qed

lemma recover_crash:
  assumes "log_geom st t n" "B st = D st" "head_n (D st) = 0" "124 \<le> length (D st)" "k \<le> 2 * n + 2"
    and "\<And>m. m \<notin> log_area st \<Longrightarrow> m \<notin> t ` {..<n} \<Longrightarrow> B m = D m"
    and "bs_ok d {} u" "log_dev u = d" "log_start u = st" "tx_ok {} u" "pins d {} u = (\<lambda>_. 0)" "disk u = crash_disk k st t n B D"
  shows "\<exists>u'. recover_from_log u e = (Ret (), u', e) \<and> bs_ok d {} u' \<and>
    (\<forall>m. m \<notin> log_area st \<longrightarrow> disk u' m = (if k \<le> n then D m else B m))"
proof -
  have n: "n \<le> LOGBLOCKS" and d: "distinct (map t [0..<n])" using assms(1) by (simp_all add: log_geom_def)
  note hr = head_roundtrip [OF assms(4)]
  have g0: "log_geom st b 0" for b using assms(1) by (simp add: log_geom_def)
  have ns: "m \<noteq> st" if "m \<notin> log_area st" for m using that by (auto simp: log_area_def)
  consider "k \<le> n" | "n < k" "k \<le> 2 * n + 1" | "k = 2 * n + 2" using assms(5) by linarith
  then show ?thesis
  proof cases
    case 1
    note c = crash_before [OF assms(1) 1, where B = B and D = D, folded assms(12)]
    show ?thesis using recover_run [OF assms(7,8,10,11,9) refl, of 0 e] c assms(3,4) g0 ns 1 by auto
  next
    case 2
    note c = crash_after [OF assms(1) 2, where B = B and D = D, folded assms(12)]
    let ?h = "head_put (int n) t (D st)"
    have h: "disk u st = ?h" using c(1) assms(2) by simp
    have hb: "map (\<lambda>i. (head_block ?h i, disk u (slot st i))) [0..<n] = map (\<lambda>i. (t i, B (t i))) [0..<n]"
      using hr(2) [OF n] c(2) by simp
    have "map (head_block ?h) [0..<n] = map t [0..<n]" using hr(2) [OF n] by simp
    then have g: "log_geom st (head_block ?h) n" using assms(1) hr(2) [OF n] by (simp only: log_geom_def) simp
    obtain u' where u': "recover_from_log u e = (Ret (), u', e)" "bs_ok d {} u'"
        "\<forall>m. m \<noteq> st \<longrightarrow> disk u' m = apply_writes (map (\<lambda>i. (t i, B (t i))) [0..<n]) (disk u) m"
      using recover_run [OF assms(7,8,10,11,9) h [symmetric], of n e] hr(1,3) [OF n] g assms(4) by (auto simp: hb)
    have "disk u' m = B m" if m: "m \<notin> log_area st" for m
    proof (cases "m \<in> t ` {..<n}")
      case True
      then obtain i where i: "i < n" "m = t i" by auto
      then show ?thesis using u'(3) ns [OF m] apply_writes_map [OF d, of i "\<lambda>i. B (t i)" "disk u"] by simp
    next
      case False
      then have "apply_writes (map (\<lambda>i. (t i, B (t i))) [0..<n]) (disk u) m = disk u m"
        by (intro apply_writes_other) (auto simp: image_iff)
      then show ?thesis using u'(3) ns [OF m] c(3) [OF m False] assms(6) [OF m False] by simp
    qed
    then show ?thesis using u'(1,2) 2 by auto
  next
    case 3
    note c = crash_done [OF assms(1) 3, where B = B and D = D, folded assms(12)]
    have h: "disk u st = head_put (int 0) t (head_put (int n) t (D st))" using c(1) assms(2) by simp
    have hz: "head_n (disk u st) = 0" "124 \<le> length (disk u st)"
      unfolding h using head_roundtrip(1,3) [of "head_put (int n) t (D st)" 0 t] hr(3) [OF n] assms(4) by simp_all
    have "disk u m = B m" if "m \<notin> log_area st" for m using c(2,3) assms(6) that by (cases "m \<in> t ` {..<n}") auto
    then show ?thesis using recover_run [OF assms(7,8,10,11,9) refl, of 0 e] hz g0 ns 3 by auto
  qed
qed

section \<open>A concrete transaction\<close>

lemma calm_bio_bufs: "bufs calm_bio i = idle_buf\<lparr>b_prev := (if i = 0 then HEAD else i - 1), b_next := (if i = HEAD then 0 else i + 1)\<rparr>"
  by (simp add: calm_bio_def cons_state.extend_def bio_state.fields_def)

lemma calm_bio_lru: "lru (bufs calm_bio) [0..<NBUF]"
  unfolding lru_def
proof (intro conjI)
  show "set [0..<NBUF] = {..<NBUF}" by (simp only: set_upt atLeast0LessThan)
  show "linked (\<lambda>i. b_next (bufs calm_bio i)) HEAD [0..<NBUF] HEAD" by (simp add: calm_bio_bufs upt_rec)
  show "linked (\<lambda>i. b_prev (bufs calm_bio i)) HEAD (rev [0..<NBUF]) HEAD" by (simp add: calm_bio_bufs upt_rec)
qed simp

text \<open>Block 50 changed in the cache and put in the log by an open transaction.\<close>

definition demo_dirty :: buf where
  "demo_dirty = (bufs calm_bio 0)\<lparr>b_valid := True, b_dev := 1, b_blockno := 50, b_refcnt := 1, b_data := replicate 1024 7\<rparr>"

definition demo_log :: log_state where
  "demo_log = calm_log\<lparr>bufs := (bufs calm_bio)(0 := demo_dirty), lh_n := 1, lh_block := (\<lambda>_. 50)\<rparr>"

lemma demo_lru:
  assumes "B = (bufs calm_bio)(0 := x)" "b_next x = 1" "b_prev x = HEAD"
  shows "lru B [0..<NBUF]"
proof -
  have "(\<lambda>i. b_next (B i)) = (\<lambda>i. b_next (bufs calm_bio i))" "(\<lambda>i. b_prev (B i)) = (\<lambda>i. b_prev (bufs calm_bio i))"
    using assms by (auto simp: fun_eq_iff calm_bio_bufs)
  then show ?thesis using calm_bio_lru by (simp only: lru_def)
qed

lemma calm_log_ok:
  assumes "bufs s = bufs calm_bio" "calm {} s" "\<And>k. \<not> sl_locked (slocks s k)"
  shows "bs_ok 1 {} s" "pins 1 {} s = (\<lambda>_. 0)" "blk 1 s = disk s"
proof -
  have c: "cached 1 s n = None" for n by (rule cached_None) (simp add: bkey_def assms(1) calm_bio_bufs idle_buf_def)
  show "pins 1 {} s = (\<lambda>_. 0)" "blk 1 s = disk s" by (simp_all add: pins_def blk_def c fun_eq_iff)
  have "slot_ok 1 {} s i" for i by (simp add: slot_ok_def buf_ok_def assms calm_bio_bufs idle_buf_def)
  moreover have "uniq 1 s" by (simp add: uniq_def bkey_def assms(1) calm_bio_bufs idle_buf_def)
  ultimately show "bs_ok 1 {} s" using calm_bio_lru assms(1,2) by (auto simp: bs_ok_def bio_ok_def)
qed

lemma calm_log_tx: "tx_ok {} calm_log"
proof -
  have "uart_in calm_log = uart_in calm_uart" "panicked calm_log = panicked calm_uart" by (simp_all add: calm_defs extend_defs)
  then show ?thesis using calm_uart(1) [of "{}"] by (simp add: tx_ok_def tx_live_def)
qed

lemma demo_log_ok:
  "bs_ok 1 {} demo_log" "pins 1 {} demo_log = (\<lambda>m. if m \<in> lh_block demo_log ` {..<Suc 0} then 1 else 0)"
  "blk 1 demo_log 50 = replicate 1024 7" "log_geom 2 (lh_block demo_log) (Suc 0)"
proof -
  have b: "bufs demo_log = (bufs calm_bio)(0 := demo_dirty)" by (simp add: demo_log_def)
  have k: "bkey 1 demo_log i n \<longleftrightarrow> i = 0 \<and> n = 50" for i n
    by (auto simp: bkey_def b demo_dirty_def calm_bio_bufs idle_buf_def)
  have u: "uniq 1 demo_log" by (simp add: uniq_def k)
  have c: "cached 1 demo_log n = (if n = 50 then Some 0 else None)" for n
    using cached_Some [OF u, of 0 50] cached_None [of 1 demo_log n] by (auto simp: k)
  have "lh_block demo_log = (\<lambda>_. 50)" by (simp add: demo_log_def)
  then show "pins 1 {} demo_log = (\<lambda>m. if m \<in> lh_block demo_log ` {..<Suc 0} then 1 else 0)"
    by (auto simp: pins_def c b demo_dirty_def fun_eq_iff)
  show "blk 1 demo_log 50 = replicate 1024 7" by (simp add: blk_def c b demo_dirty_def)
  have lr: "lru (bufs demo_log) [0..<NBUF]"
    using b by (rule demo_lru) (simp_all add: demo_dirty_def calm_bio_bufs)
  have "\<not> sl_locked (slocks demo_log (BufSl i))" for i by (simp add: demo_log_def)
  then have so: "slot_ok 1 {} demo_log i" for i
    by (auto simp: slot_ok_def buf_ok_def b demo_dirty_def calm_bio_bufs idle_buf_def)
  have "calm {} demo_log" by (simp add: demo_log_def)
  then show "bs_ok 1 {} demo_log" using u so lr by (auto simp: bs_ok_def bio_ok_def)
  have "50 \<noteq> slot 2 i" if "i < LOGBLOCKS" for i using log_slot_unat [of 2 i] that by (auto dest: arg_cong [where f = unat])
  then show "log_geom 2 (lh_block demo_log) (Suc 0)" by (auto simp: log_geom_def log_area_def demo_log_def)
qed

section \<open>Properties\<close>

text \<open>
  C1: a transaction is atomic under crashes.  \<open>commit\<close> issues a fixed sequence of block
  writes; if the machine stops after any number of them, a reboot whose
  recovery runs on the disk as it is then finds, outside the log, the disk as it was before the
  commit when fewer writes than the header write were done, and the disk with every block of the
  transaction otherwise.  When \<open>commit\<close> returns, the disk holds what the buffer cache held.
\<close>

theorem commit_crash_atomic:
  fixes s :: "'a log_state_scheme"
  assumes "bs_ok d {} s" "log_dev s = d" "log_start s = st" "lh_n s = int n" "0 < n" "n < NBUF"
    and "log_geom st (lh_block s) n" "pins d {} s = (\<lambda>m. if m \<in> lh_block s ` {..<n} then 1 else 0)"
    and "head_n (disk s st) = 0" "length (disk s st) = BSIZE"
  shows "\<exists>t ws. commit s e = (Ret (), t, e) \<and> dwrites t = rev ws @ dwrites s \<and> disk t = apply_writes ws (disk s) \<and> length ws = 2 * n + 2 \<and>
    (\<forall>m. m \<notin> log_area st \<longrightarrow> disk t m = blk d s m) \<and>
    (\<forall>k (u :: 'a log_state_scheme) e'. k \<le> length ws \<and> bs_ok d {} u \<and> log_dev u = d \<and> log_start u = st \<and> tx_ok {} u \<and>
        pins d {} u = (\<lambda>_. 0) \<and> disk u = apply_writes (take k ws) (disk s) \<longrightarrow>
      (\<exists>u'. recover_from_log u e' = (Ret (), u', e') \<and>
         (\<forall>m. m \<notin> log_area st \<longrightarrow> disk u' m = (if k \<le> n then disk s m else blk d s m))))"
proof -
  let ?ws = "commit_writes st (lh_block s) n (blk d s)"
  obtain t where t: "commit s e = (Ret (), t, e)" "bs_ok d {} t" "bview_of d {} t = commit_view st (lh_block s) n (bview_of d {} s)"
    using commit_run [OF assms(1,2,4,5,6), of e] assms(3,7,8) by auto
  note f = commit_view_facts [OF assms(7) _ t(3)]
  have b: "dwrites t = rev ?ws @ dwrites s" "disk t = apply_writes ?ws (disk s)" "pins d {} t = (\<lambda>_. 0)"
    "\<And>m. m \<notin> log_area st \<Longrightarrow> blk d t m = blk d s m"
    using f assms(8) by simp_all
  have dt: "disk t m = blk d s m" if "m \<notin> log_area st" for m using unpinned_clean [OF t(2), of m] b(3) b(4) [OF that] by simp
  have st: "st \<notin> lh_block s ` {..<n}" using geom_facts(6) [OF assms(7) order_refl] by auto
  then have "blk d s st = disk s st" using unpinned_clean [OF assms(1)] assms(8) by simp
  moreover have "blk d s m = disk s m" if "m \<notin> lh_block s ` {..<n}" for m using unpinned_clean [OF assms(1)] assms(8) that by simp
  moreover have l: "length ?ws = 2 * n + 2" by (simp add: commit_writes_def)
  ultimately have "\<exists>u'. recover_from_log u e' = (Ret (), u', e') \<and>
      (\<forall>m. m \<notin> log_area st \<longrightarrow> disk u' m = (if k \<le> n then disk s m else blk d s m))"
    if "k \<le> length ?ws" "bs_ok d {} u" "log_dev u = d" "log_start u = st" "tx_ok {} u" "pins d {} u = (\<lambda>_. 0)"
      "disk u = apply_writes (take k ?ws) (disk s)" for k u e'
    using recover_crash [OF assms(7), of "blk d s" "disk s" k d u e'] that assms(9,10) by (auto simp: crash_disk_def)
  with t(1) b dt l show ?thesis by blast
qed

theorem commit_crash_atomic_witness:
  "\<exists>t u'. commit demo_log [] = (Ret (), t, []) \<and> disk t 50 = replicate 1024 7 \<and>
     recover_from_log (calm_log\<lparr>disk := apply_writes (take 2 (rev (dwrites t))) (disk demo_log)\<rparr>) [] = (Ret (), u', []) \<and>
     disk u' 50 = replicate 1024 7"
proof -
  have f: "log_dev demo_log = 1" "log_start demo_log = 2" "lh_n demo_log = int (Suc 0)" "dwrites demo_log = []"
    "disk demo_log = (\<lambda>_. replicate 1024 0)" "log_dev calm_log = 1" "log_start calm_log = 2"
    by (simp_all add: demo_log_def) (simp_all add: calm_log_def virtio_state.extend_def log_state.fields_def)
  have h: "head_n (replicate 1024 0) = 0" unfolding head_n_def get32_def slice_def by code_simp
  have a: "0 < Suc 0" "Suc 0 < NBUF" "head_n (disk demo_log 2) = 0" "length (disk demo_log 2) = BSIZE" by (simp_all add: f h)
  obtain t ws where t: "commit demo_log [] = (Ret (), t, [])" "dwrites t = rev ws @ dwrites demo_log" "length ws = 2 * Suc 0 + 2"
      "\<forall>m. m \<notin> log_area 2 \<longrightarrow> disk t m = blk 1 demo_log m"
    and r: "\<forall>k (u :: log_state) e'. k \<le> length ws \<and> bs_ok 1 {} u \<and> log_dev u = 1 \<and> log_start u = 2 \<and> tx_ok {} u \<and>
        pins 1 {} u = (\<lambda>_. 0) \<and> disk u = apply_writes (take k ws) (disk demo_log) \<longrightarrow>
      (\<exists>u'. recover_from_log u e' = (Ret (), u', e') \<and>
         (\<forall>m. m \<notin> log_area 2 \<longrightarrow> disk u' m = (if k \<le> Suc 0 then disk demo_log m else blk 1 demo_log m)))"
    using commit_crash_atomic [OF demo_log_ok(1) f(1,2,3) a(1,2) demo_log_ok(4,2) a(3,4), of "[]"] by blast
  have m: "50 \<notin> log_area 2" using demo_log_ok(4) by (simp add: log_geom_def demo_log_def)
  let ?u = "calm_log\<lparr>disk := apply_writes (take 2 ws) (disk demo_log)\<rparr>"
  have "bs_ok 1 {} ?u" "pins 1 {} ?u = (\<lambda>_. 0)" by (rule calm_log_ok; simp)+
  moreover have "tx_ok {} ?u" using calm_log_tx by (simp add: tx_ok_def tx_live_def)
  ultimately obtain u' where "recover_from_log ?u [] = (Ret (), u', [])" "\<forall>m. m \<notin> log_area 2 \<longrightarrow> disk u' m = blk 1 demo_log m"
    using r [rule_format, of 2 ?u "[]"] t(3) f by auto
  then show ?thesis using t f m demo_log_ok(3) by auto
qed

end
