(* ===== verification/LogWrite.thy ===== *)
theory LogWrite
  imports LogProps
begin

text \<open>
  Building a transaction.  \<open>log_inv\<close> says that the in-memory header lists distinct blocks and that
  each of them is pinned in the cache exactly once, which is what \<open>commit\<close> relies on; \<open>log_write\<close>
  keeps it.  \<open>begin_op\<close> reserves room, so that \<open>log_write\<close> does not run out of it.
\<close>

definition header :: "'a log_state_scheme \<Rightarrow> uint set" where
  "header s = lh_block s ` {..<nat (lh_n s)}"

definition log_inv :: "uint \<Rightarrow> nat set \<Rightarrow> 'a log_state_scheme \<Rightarrow> bool" where
  "log_inv d H s \<longleftrightarrow> bio_ok d H s \<and> 0 \<le> lh_n s \<and> log_geom (log_start s) (lh_block s) (nat (lh_n s)) \<and>
     pins d H s = (\<lambda>m. if m \<in> header s then 1 else 0)"

lemma log_index_facts:
  "log_index (int n) t b \<le> n" "log_index (int n) t b < n \<Longrightarrow> t (log_index (int n) t b) = b"
  "log_index (int n) t b = n \<longleftrightarrow> b \<notin> t ` {..<n}"
proof -
  let ?w = "takeWhile (\<lambda>i. t i \<noteq> b) [0..<n]"
  have i: "log_index (int n) t b = length ?w" by (simp add: log_index_def)
  show le: "log_index (int n) t b \<le> n" using length_takeWhile_le [of "\<lambda>i. t i \<noteq> b" "[0..<n]"] by (simp add: i)
  show lt: "t (log_index (int n) t b) = b" if "log_index (int n) t b < n"
    using nth_length_takeWhile [of "\<lambda>i. t i \<noteq> b" "[0..<n]"] that by (simp add: i)
  show "log_index (int n) t b = n \<longleftrightarrow> b \<notin> t ` {..<n}"
  proof
    assume "log_index (int n) t b = n"
    then have "?w = [0..<n]" using takeWhile_eq_take [of "\<lambda>i. t i \<noteq> b" "[0..<n]"] by (simp add: i)
    then have "\<forall>i\<in>set [0..<n]. t i \<noteq> b" using takeWhile_eq_all_conv [of "\<lambda>i. t i \<noteq> b" "[0..<n]"] by blast
    then show "b \<notin> t ` {..<n}" by auto
  next
    assume "b \<notin> t ` {..<n}"
    then have "?w = [0..<n]" by auto
    from arg_cong [OF this, of length] show "log_index (int n) t b = n" unfolding i by simp
  qed
qed

lemma bio_acquired [simp]:
  "bio_ok d H (acquired lk s) = bio_ok d H s" "blk d (acquired lk s) = blk d s" "pins d H (acquired lk s) = pins d H s"
  for s :: "'a bio_state_scheme"
  by (rule bio_transfer; simp)+

lemma bio_log_fields [simp]:
  "bio_ok d H (s\<lparr>lh_n := x\<rparr>) = bio_ok d H s"
  "bio_ok d H (s\<lparr>lh_block := y\<rparr>) = bio_ok d H s" "blk d (s\<lparr>lh_block := y\<rparr>) = blk d s" "pins d H (s\<lparr>lh_block := y\<rparr>) = pins d H s"
  by (rule bio_transfer; simp)+

definition log_put :: "nat \<Rightarrow> 'a log_state_scheme \<Rightarrow> 'a log_state_scheme" where
  "log_put b s = (let no = b_blockno (bufs s b) in if no \<in> header s then s
     else s\<lparr>bufs := (bufs s)(b := (bufs s b)\<lparr>b_refcnt := b_refcnt (bufs s b) + 1\<rparr>),
            lh_block := (lh_block s)(nat (lh_n s) := no), lh_n := lh_n s + 1\<rparr>)"

lemma log_write_run:
  fixes s :: "'a log_state_scheme"
  assumes "calm {} s" "0 \<le> lh_n s" "lh_n s < int LOGBLOCKS" "1 \<le> log_outstanding s"
  shows "log_write b s e = (Ret (), log_put b s, e)"
proof -
  obtain n where n: "lh_n s = int n" using assms(2) nonneg_int_cases by blast
  let ?a = "acquired LogLock" and ?no = "b_blockno (bufs s b)" let ?i = "log_index (int n) (lh_block s) ?no"
  have c: "calm {LogLock} (?a t)" if "calm {} t" for t :: "'a log_state_scheme" using calm_acquired [OF that] by simp
  have rel: "release LogLock (?a t) e = (Ret (), t, e)" if "calm {} t" for t :: "'a log_state_scheme"
    using that by (intro release_calm [where L = "{}"]) simp_all
  have pin: "bpin b (?a t) e = (Ret (), ?a (t\<lparr>bufs := (bufs t)(b := (bufs t b)\<lparr>b_refcnt := b_refcnt (bufs t b) + 1\<rparr>)\<rparr>), e)"
    if "calm {} t" for t :: "'a log_state_scheme"
  proof -
    have "release BcacheLock (acquired BcacheLock u) e = (Ret (), u, e)" if "calm {LogLock} u" for u :: "'a log_state_scheme"
      using that by (intro release_calm [where L = "{LogLock}"]) simp_all
    then show ?thesis using that by (simp add: bpin_def acquire_calm [OF c [OF that]] kbind_Ret kret_run c)
  qed
  show ?thesis
  proof (cases "?no \<in> header s")
    case True
    then have i: "?i < n" "lh_block s ?i = ?no"
      using log_index_facts [of n "lh_block s" ?no] n by (auto simp: header_def order_less_le)
    then have "(lh_block s)(?i := ?no) = lh_block s" by (simp add: fun_upd_idem)
    then show ?thesis using i True assms(3,4) n
      by (simp add: log_write_def acquire_calm [OF assms(1)] kbind_Ret rel [OF assms(1)] Let_def log_put_def)
  next
    case False
    then have "?i = n" using log_index_facts(3) [of n "lh_block s" ?no] n by (simp add: header_def)
    then show ?thesis using False assms n
      by (simp add: log_write_def acquire_calm [OF assms(1)] kbind_Ret kret_run rel pin Let_def log_put_def)
  qed
qed

lemma log_put_inv:
  assumes "log_inv d H s" "b \<in> H" "b_blockno (bufs s b) \<notin> log_area (log_start s)" "calm {} s" "lh_n s < int LOGBLOCKS"
  shows "log_inv d H (log_put b s)" "header (log_put b s) = insert (b_blockno (bufs s b)) (header s)"
    "blk d (log_put b s) = blk d s" "disk (log_put b s) = disk s"
proof -
  let ?no = "b_blockno (bufs s b)" and ?t = "log_put b s"
  have i: "bio_ok d H s" "0 \<le> lh_n s" "log_geom (log_start s) (lh_block s) (nat (lh_n s))" "pins d H s = (\<lambda>m. if m \<in> header s then 1 else 0)"
    using assms(1) by (simp_all add: log_inv_def)
  obtain n where n: "lh_n s = int n" using i(2) nonneg_int_cases by blast
  have "log_inv d H ?t \<and> header ?t = insert ?no (header s) \<and> blk d ?t = blk d s \<and> disk ?t = disk s"
  proof (cases "?no \<in> header s")
    case True
    then show ?thesis using assms(1) by (auto simp: log_put_def)
  next
    case False
    let ?r = "b_refcnt (bufs s b) + 1"
    let ?p = "s\<lparr>bufs := (bufs s)(b := (bufs s b)\<lparr>b_refcnt := ?r\<rparr>)\<rparr>"
    have t: "?t = ?p\<lparr>lh_block := (lh_block s)(n := ?no), lh_n := int (Suc n)\<rparr>" using False n by (simp add: log_put_def)
    have "b_refcnt (bufs s b) - 1 = 0" using pins_held [OF i(1) assms(2)] i(4) False by simp
    then have r: "?r \<noteq> 0" "?r - 1 = 1" by (simp_all add: eq_iff_diff_eq_0 [of _ 1, symmetric])
    note l = pin_law(3-5) [OF assms(4) bio_free_empty i(1) assms(2) refl r(1)]
    have eq: "(lh_block s)(n := ?no) ` {..<Suc n} = insert ?no (lh_block s ` {..<n})" by (auto simp: lessThan_Suc)
    have ht: "header ?t = (lh_block s)(n := ?no) ` {..<Suc n}" by (simp add: header_def t del: of_nat_Suc fun_upd_apply)
    have h: "header ?t = insert ?no (header s)" unfolding ht eq by (simp add: header_def n)
    have "log_geom (log_start s) ((lh_block s)(n := ?no)) (Suc n)"
      using i(3) False assms(3,5) n by (auto simp: log_geom_def header_def image_iff less_Suc_eq)
    moreover have "pins d H ?p = (\<lambda>m. if m \<in> insert ?no (header s) then 1 else 0)"
      unfolding l(3) r(2) i(4) by auto
    ultimately have "log_inv d H ?t" unfolding log_inv_def h using l(1) by (simp add: t del: of_nat_Suc)
    then show ?thesis using h l(2) by (simp add: t)
  qed
  then show "log_inv d H ?t" "header ?t = insert ?no (header s)" "blk d ?t = blk d s" "disk ?t = disk s" by blast+
qed

section \<open>Beginning and ending operations\<close>

definition room :: "'a log_state_scheme \<Rightarrow> bool" where
  "room s \<longleftrightarrow> lh_n s + (log_outstanding s + 1) * int MAXOPBLOCKS \<le> int LOGBLOCKS"





section \<open>Waiting for room\<close>








text \<open>
  A \<open>begin_op\<close> that had to wait tests again from the state \<open>v\<close> in which it resumes: the rest of its run is a
  \<open>begin_op\<close> of its own.
\<close>

lemma begin_op_resumes:
  fixes s v :: "'a log_state_scheme"
  assumes "calm {} s" "noff s = 0" "log_committing s \<or> \<not> room s" "calm {} v"
    and u: "u = s\<lparr>procs := (procs s)(myp s := (procs s (myp s))\<lparr>p_chan := Some ChLog\<rparr>)\<rparr>"
    and r: "release (ProcLock (myp s)) (set_cpu (\<lambda>c. c\<lparr>c_intena := c_intena (cpus (asleep (myp s) u) (tp u))\<rparr>) (m (asleep (myp s) u))) e = (Ret (), v, e)"
    and b: "begin_op v e = (Ret (), t, e')"
  shows "begin_op s (m # e) = (Ret (), t, e')"
proof -
  let ?a = "acquired LogLock"
  have c: "calm {} u" "myp u = myp s" "noff u = 0" "p_chan (procs u (myp s)) = Some ChLog" using assms(1,2) by (simp_all add: u noff_def)
  have p: "sleep_prepare (Some ChLog) (?a s) (m # e) = (Ret (), ?a u, m # e)"
    using sleep_prepare_calm [OF calm_acquired [OF assms(1), of LogLock], of ChLog "m # e"] by (simp add: u)
  have rel: "release LogLock (?a u) (m # e) = (Ret (), u, m # e)" using c(1) by (intro release_calm [where L = "{}"]) simp_all
  have sl: "sleep u (m # e) = (Ret (), v, e)"
    using sleep_switches(2) [of u "myp s" m e] calmD [OF c(1)] curproc_myp [OF c(1)] c r by simp
  have "log_sleep (?a s) (m # e) = (Ret (), ?a v, e)"
    by (simp add: log_sleep_def kbind_Ret p rel sl acquire_calm [OF assms(4)] kret_run)
  then have "kbind log_sleep (\<lambda>_. kret (Inl () :: unit + unit)) (?a s) (m # e) = (Ret (Inl ()), ?a v, e)" by (simp add: kbind_Ret kret_run)
  then show ?thesis using assms(3) b unfolding begin_op_def
    by (simp add: acquire_calm [OF assms(1)] acquire_calm [OF assms(4)] kbind_Ret) (rule kloop_step_Inl, auto simp: kbind_Ret room_def)
qed

section \<open>Interleaved operations\<close>







section \<open>Properties\<close>

text \<open>
  C10: \<open>log_write\<close> records a block in the transaction.  Inside a transaction with room it adds the
  block to the header once, however often it is written (absorption), and keeps the invariant
  that the header's blocks are distinct, outside the log and pinned exactly once; contents and
  disk do not change.  Outside of a transaction, or without room, it panics.
\<close>

theorem log_write_absorbs:
  assumes "calm {} s" "log_inv d H s" "b \<in> H" "b_blockno (bufs s b) \<notin> log_area (log_start s)"
  shows "(lh_n s < int LOGBLOCKS \<and> 1 \<le> log_outstanding s \<longrightarrow>
      (\<exists>t. log_write b s e = (Ret (), t, e) \<and> log_inv d H t \<and> header t = insert (b_blockno (bufs s b)) (header s) \<and>
        lh_n t = lh_n s + (if b_blockno (bufs s b) \<in> header s then 0 else 1) \<and> blk d t = blk d s \<and> disk t = disk s)) \<and>
    (int LOGBLOCKS \<le> lh_n s \<longrightarrow> fst (log_write b s e) = Panic ''too big a transaction'') \<and>
    (lh_n s < int LOGBLOCKS \<and> log_outstanding s < 1 \<longrightarrow> fst (log_write b s e) = Panic ''log_write outside of trans'')"
proof (intro conjI impI)
  assume h: "lh_n s < int LOGBLOCKS \<and> 1 \<le> log_outstanding s"
  have "0 \<le> lh_n s" using assms(2) by (simp add: log_inv_def)
  from log_write_run [OF assms(1) this, of b e] h
  show "\<exists>t. log_write b s e = (Ret (), t, e) \<and> log_inv d H t \<and> header t = insert (b_blockno (bufs s b)) (header s) \<and>
      lh_n t = lh_n s + (if b_blockno (bufs s b) \<in> header s then 0 else 1) \<and> blk d t = blk d s \<and> disk t = disk s"
    using log_put_inv [OF assms(2-4,1)] by (auto simp: log_put_def Let_def)
qed (auto simp: log_write_def acquire_calm [OF assms(1)] kbind_Ret kpanic_run)

theorem log_write_absorbs_witness:
  "\<exists>b t u. bread 1 50 (calm_log\<lparr>log_outstanding := 1\<rparr>) [] = (Ret b, t, []) \<and> log_write b t [] = (Ret (), u, []) \<and> header u = {50}"
proof -
  let ?s = "calm_log\<lparr>log_outstanding := 1\<rparr>"
  have k: "bs_ok 1 {} ?s" "pins 1 {} ?s = (\<lambda>_. 0)" by (rule calm_log_ok; simp)+
  have "roomy (card ({} :: nat set)) (bview_of 1 {} ?s) 50" using k(2) by (simp add: roomy_def)
  then obtain b t where t: "bread 1 50 ?s [] = (Ret b, t, [])" "bs_ok 1 {b} t" "bview_of 1 {b} t = bview_of 1 {} ?s"
      "b_blockno (bufs t b) = 50" "bio_frame ?s t"
    using bs_bread [OF k(1), of 50 "[]"] by auto
  have f: "lh_n t = 0" "log_start t = 2" "log_outstanding t = 1" using frame_log [OF t(5)]
    by (simp_all add: same_log_def) (simp_all add: calm_log_def virtio_state.extend_def log_state.fields_def)
  have g: "log_geom 2 (lh_block t) 0" using demo_log_ok(4) by (simp add: log_geom_def)
  have p: "pins 1 {b} t = (\<lambda>_. 0)" using arg_cong [OF t(3), of bv_pins] k(2) by simp
  have hd: "header t = {}" using f(1) by (simp add: header_def)
  have "50 \<notin> log_area 2" using demo_log_ok(4) by (simp add: log_geom_def demo_log_def)
  moreover have "log_inv 1 {b} t" using t(2) f g p hd by (simp add: log_inv_def bs_ok_def)
  moreover have "calm {} t" using t(2) by (simp add: bs_ok_def)
  ultimately show ?thesis using log_write_absorbs [of t 1 "{b}" b "[]"] t(1,4) f hd by auto
qed



end
