(* ===== verification/FileData.thy ===== *)
theory FileData
  imports LogWrite
begin

unbundle bit_operations_syntax

text \<open>
  Files as sequences of bytes.  The contents of a file is read off the inode, its indirect block
  and its data blocks, as the buffer cache shows them; \<open>readi\<close> delivers a slice of it.  Where the
  bytes go, to the kernel's stack or to user memory, is behind the interface \<open>sink\<close>, which both
  destinations of \<open>either_copyout\<close> implement.
\<close>

section \<open>Contents\<close>

definition faddr :: "uint \<Rightarrow> 'a fs_state_scheme \<Rightarrow> nat \<Rightarrow> nat \<Rightarrow> uint" where
  "faddr d s ip i = (if i < NDIRECT then i_addrs (inodes s ip) i
     else get32 (blk d s (i_addrs (inodes s ip) NDIRECT)) (4 * (i - NDIRECT)))"

definition fbyte :: "uint \<Rightarrow> 'a fs_state_scheme \<Rightarrow> nat \<Rightarrow> nat \<Rightarrow> uchar" where
  "fbyte d s ip k = blk d s (faddr d s ip (k div BSIZE)) ! (k mod BSIZE)"

definition fdata :: "uint \<Rightarrow> 'a fs_state_scheme \<Rightarrow> nat \<Rightarrow> uchar list" where
  "fdata d s ip = map (fbyte d s ip) [0..<unat (i_size (inodes s ip))]"

text \<open>A file without holes, on a device whose blocks have the size of a block.\<close>

definition file_ok :: "uint \<Rightarrow> 'a fs_state_scheme \<Rightarrow> nat \<Rightarrow> bool" where
  "file_ok d s ip \<longleftrightarrow> i_dev (inodes s ip) = d \<and> unat (i_size (inodes s ip)) \<le> MAXFILE * BSIZE \<and>
     (\<forall>i<MAXFILE. i * BSIZE < unat (i_size (inodes s ip)) \<longrightarrow>
        faddr d s ip i \<noteq> 0 \<and> (NDIRECT \<le> i \<longrightarrow> i_addrs (inodes s ip) NDIRECT \<noteq> 0)) \<and>
     (\<forall>n. length (blk d s n) = BSIZE)"

text \<open>No buffer is held and there is always one for the next block.\<close>

definition fs_ready :: "uint \<Rightarrow> 'a fs_state_scheme \<Rightarrow> bool" where
  "fs_ready d s \<longleftrightarrow> bs_ok d {} s \<and> (\<forall>n. roomy 0 (bview_of d {} s) n)"

lemma fdata_length [simp]: "length (fdata d s ip) = unat (i_size (inodes s ip))"
  by (simp add: fdata_def)

lemma faddr_same: "blk d t = blk d s \<Longrightarrow> inodes t ip = inodes s ip \<Longrightarrow> faddr d t ip = faddr d s ip"
  by (simp add: faddr_def fun_eq_iff)

lemma fdata_same:
  assumes "blk d t = blk d s" "inodes t ip = inodes s ip"
  shows "fdata d t ip = fdata d s ip" "file_ok d t ip = file_ok d s ip"
  using assms faddr_same [OF assms] by (simp_all add: fdata_def fbyte_def file_ok_def cong: map_cong)

text \<open>What reading through the cache may change: buffers, sleep locks and waiting processes.\<close>

definition rd_frame :: "uint \<Rightarrow> 'a fs_state_scheme \<Rightarrow> 'a fs_state_scheme \<Rightarrow> bool" where
  "rd_frame d s t \<longleftrightarrow> bio_frame s t \<and> bs_ok d {} t \<and> bview_of d {} t = bview_of d {} s"

lemma bio_frame_inodes:
  assumes "bio_frame s t" shows "inodes t = inodes s" "sb t = sb s" "lbuf t = lbuf s" "mem t = mem s" "same_mem s t"
proof -
  have t: "t = s\<lparr>procs := procs t, slocks := slocks t, bufs := bufs t, disk := disk t, dwrites := dwrites t\<rparr>"
    using assms by (simp add: bio_frame_def)
  show "inodes t = inodes s" "sb t = sb s" "lbuf t = lbuf s" "mem t = mem s" "same_mem s t"
    by (subst t, simp add: same_mem_def)+
qed

lemma bview_blk: "bview_of d H t = bview_of d G s \<Longrightarrow> blk d t = blk d s"
  by (simp add: bview_of_def)

lemma rd_frame_facts:
  assumes "rd_frame d s t"
  shows "inodes t = inodes s" "blk d t = blk d s" "fdata d t ip = fdata d s ip" "file_ok d t ip = file_ok d s ip"
    "faddr d t ip = faddr d s ip" "fs_ready d s \<Longrightarrow> fs_ready d t"
  using assms bio_frame_inodes(1) [of s t] bview_blk [of d "{}" t "{}" s] fdata_same [of d t s ip] faddr_same [of d t s ip]
  by (simp_all add: rd_frame_def fs_ready_def)

lemma rd_frame_trans: "rd_frame d s t \<Longrightarrow> rd_frame d t u \<Longrightarrow> rd_frame d s u"
  by (auto simp: rd_frame_def intro: bio_frame_trans)

lemma rd_frame_refl: "fs_ready d s \<Longrightarrow> rd_frame d s s"
  by (simp add: rd_frame_def fs_ready_def)

text \<open>A block whose buffer is not held is pinned or agrees with the disk.\<close>

lemma settled_other:
  assumes "bio_ok d H s" "n \<notin> bnum s ` H"
  shows "settled (bview_of d H s) n"
proof (cases "cached d s n")
  case None
  then show ?thesis by (simp add: settled_def bview_of_def blk_def)
next
  case (Some i)
  then have "slot_ok d H s i" "b_dev (bufs s i) = d" "b_blockno (bufs s i) = n"
    using bio_okD(2) [OF assms(1), of i] cached_SomeD [OF Some] by (simp_all add: bkey_def)
  moreover from this(3) have "i \<notin> H" using assms(2) by blast
  ultimately show ?thesis using Some by (auto simp: settled_def bview_of_def blk_def pins_def slot_ok_def buf_ok_def split: if_splits)
qed

lemmas settled_free = settled_other [where H = "{}", simplified]

text \<open>Reading one value out of a block.\<close>

lemma read_value:
  assumes "fs_ready d s"
  shows "\<exists>h t u. bread d n s e = (Ret h, t, e) \<and> b_data (bufs t h) = blk d s n \<and> brelse h t e = (Ret (), u, e) \<and> rd_frame d s u"
  using bs.read_block [of d s n e] assms settled_free [of d s n]
  by (auto simp: fs_ready_def bs_ok_def rd_frame_def bview_of_def)

lemma bmap_run:
  assumes "fs_ready d s" "i_dev (inodes s ip) = d" "unat bn < MAXFILE" "faddr d s ip (unat bn) \<noteq> 0"
    and "NDIRECT \<le> unat bn \<Longrightarrow> i_addrs (inodes s ip) NDIRECT \<noteq> 0"
  shows "\<exists>t. bmap ip bn s e = (Ret (faddr d s ip (unat bn)), t, e) \<and> rd_frame d s t"
proof (cases "unat bn < NDIRECT")
  case True
  then show ?thesis using assms(4) rd_frame_refl [OF assms(1)]
    by (simp add: bmap_def bmap_alloc_def faddr_def kret_run)
next
  case False
  let ?n = "i_addrs (inodes s ip) NDIRECT" let ?o = "4 * (unat bn - NDIRECT)"
  obtain h t u where r: "bread d ?n s e = (Ret h, t, e)" "b_data (bufs t h) = blk d s ?n" "brelse h t e = (Ret (), u, e)" "rd_frame d s u"
    using read_value [OF assms(1)] by blast
  have a: "get32 (b_data (bufs t h)) ?o = faddr d s ip (unat bn)" using False by (simp add: faddr_def r(2))
  have l: "unat bn - NDIRECT < NINDIRECT" "\<not> unat bn < NDIRECT" using assms(3) False by simp_all
  show ?thesis using assms(4,5) r(1,3,4) l
    by (simp add: bmap_def bmap_alloc_def kbind_Ret kret_run Let_def a assms(2))
qed

text \<open>One transfer of \<open>readi\<close> and \<open>writei\<close> stays within a block.\<close>

lemma chunk_unat:
  assumes "tot \<le> n"
  shows "unat (chunk n tot off) = min (unat n - unat tot) (BSIZE - unat off mod BSIZE)"
proof -
  have o: "unat (off mod 1024) = unat off mod 1024" by (simp add: unat_mod_distrib)
  have "off mod 1024 \<le> 1024" by (simp add: word_le_nat_alt o less_imp_le_nat)
  then have "unat (1024 - off mod 1024) = 1024 - unat off mod 1024" by (simp add: unat_sub o)
  moreover have "unat (n - tot) = unat n - unat tot" using assms by (rule unat_sub)
  ultimately show ?thesis by (auto simp: chunk_def word_less_nat_alt min_def)
qed

lemma fdata_slice:
  assumes "file_ok d s ip" "k \<le> BSIZE - off mod BSIZE" "off + k \<le> unat (i_size (inodes s ip))"
  shows "slice (blk d s (faddr d s ip (off div BSIZE))) (off mod BSIZE) k = slice (fdata d s ip) off k"
proof (rule nth_equalityI)
  have l: "length (blk d s n) = 1024" for n using assms(1) by (simp add: file_ok_def)
  have m: "off mod 1024 < 1024" by simp
  show len: "length (slice (blk d s (faddr d s ip (off div BSIZE))) (off mod BSIZE) k) = length (slice (fdata d s ip) off k)"
    using assms(2,3) m by (simp add: slice_def l min_absorb2)
  fix i assume "i < length (slice (blk d s (faddr d s ip (off div BSIZE))) (off mod BSIZE) k)"
  then have i: "i < k" by (simp add: slice_def)
  have "off mod 1024 + i < 1024" using i assms(2) m by linarith
  then have "(off + i) div 1024 = off div 1024" "(off + i) mod 1024 = off mod 1024 + i"
    by (metis add.assoc div_mult_mod_eq div_mult_self3 div_less add_0_right zero_neq_numeral, metis mod_add_left_eq mod_less)
  then show "slice (blk d s (faddr d s ip (off div BSIZE))) (off mod BSIZE) k ! i = slice (fdata d s ip) off k ! i"
    using i assms(3) m by (simp add: slice_def fdata_def fbyte_def l)
qed

lemma slice_append: "slice xs i m @ slice xs (i + m) k = slice xs i (m + k)"
  using take_add [of m k "drop i xs"] by (simp add: slice_def add.commute)

lemma sint_eq_uint_small: "unat x < 2 ^ 31 \<Longrightarrow> sint x = int (unat x)" for x :: uint
proof -
  assume "unat x < 2 ^ 31"
  then have u: "uint x < 2 ^ 31" using uint_nat [of x] by (metis of_nat_less_iff of_nat_numeral of_nat_power)
  have "- (2 ^ 31) \<le> uint x" by (rule order_trans [OF _ uint_ge_0]) simp
  then have "sint x = uint x" using signed_take_bit_int_eq_self [OF _ u] by (simp add: sint_uint)
  then show ?thesis by simp
qed

section \<open>Destinations\<close>

text \<open>
  A destination of \<open>either_copyout\<close> is a part of the state, \<open>content\<close>, that the block layer neither
  reads nor writes.  \<open>fits s x n\<close>: there is room for \<open>n\<close> bytes at \<open>x\<close>.  \<open>holds s x bs c\<close>: \<open>c\<close> is the
  contents of \<open>s\<close> with \<open>bs\<close> delivered at \<open>x\<close>.
\<close>

locale sink =
  fixes fits :: "'a fs_state_scheme \<Rightarrow> dst \<Rightarrow> nat \<Rightarrow> bool"
    and content :: "'a fs_state_scheme \<Rightarrow> 'c"
    and upd :: "'c \<Rightarrow> 'a fs_state_scheme \<Rightarrow> 'a fs_state_scheme"
    and holds :: "'a fs_state_scheme \<Rightarrow> dst \<Rightarrow> uchar list \<Rightarrow> 'c \<Rightarrow> bool"
  assumes copy: "calm {} s \<Longrightarrow> fits s x (length bs) \<Longrightarrow> \<exists>c. either_copyout x bs s e = (Ret 0, upd c s, e) \<and> holds s x bs c"
    and bio: "calm {} s \<Longrightarrow> bio_frame s t \<Longrightarrow> fits t x n = fits s x n \<and> holds t x bs c = holds s x bs c \<and> content t = content s"
    and upd_frame: "bio_frame s t \<Longrightarrow> bio_frame (upd c s) (upd c t)"
    and upd_ok: "bs_ok d H (upd c s) = bs_ok d H s" and upd_view: "bview_of d H (upd c s) = bview_of d H s"
    and upd_inodes: "inodes (upd c s) = inodes s" and upd_num: "bnum (upd c s) = bnum s"
    and upd_upd: "upd c (upd c' s) = upd c s" and upd_same: "upd (content s) s = s" and get_upd: "content (upd c s) = c"
    and empty: "fits s x 0 \<Longrightarrow> holds s x [] (content s)"
    and append: "holds s x bs c \<Longrightarrow> holds (upd c s) (dst_add x (length bs)) cs c' \<Longrightarrow> fits s x (length bs + length cs) \<Longrightarrow>
      holds s x (bs @ cs) c'"
    and rest: "holds s x bs c \<Longrightarrow> fits s x (length bs + k) \<Longrightarrow> fits (upd c s) (dst_add x (length bs)) k"
    and prefix: "fits s x n \<Longrightarrow> k \<le> n \<Longrightarrow> fits s x k"
begin

lemma upd_rd_frame: "rd_frame d s t \<Longrightarrow> rd_frame d (upd c s) (upd c t)"
  by (simp add: rd_frame_def upd_frame upd_ok upd_view)

lemma upd_fs_ready: "fs_ready d (upd c s) = fs_ready d s"
  by (simp add: fs_ready_def upd_ok upd_view)

lemma upd_file: "fdata d (upd c s) ip = fdata d s ip" "file_ok d (upd c s) ip = file_ok d s ip" "blk d (upd c s) = blk d s"
  using fdata_same [of d "upd c s" s ip] bview_blk [OF upd_view [of d "{}" c s]] by (simp_all add: upd_inodes)

text \<open>Delivering part of a block.\<close>

lemma copy_block:
  assumes "fs_ready d s" "fits s x (length (F (blk d s n)))"
  shows "\<exists>c t. (\<forall>g. kbind (bread d n) (\<lambda>bp. kbind (kget (\<lambda>s. b_data (bufs s bp))) (\<lambda>data.
      kbind (either_copyout x (F data)) (\<lambda>r. kbind (brelse bp) (\<lambda>_. g r)))) s e = g 0 (upd c t) e) \<and>
    rd_frame d s t \<and> holds s x (F (blk d s n)) c"
proof -
  have k: "bs_ok d {} s" "calm {} s" "roomy 0 (bview_of d {} s) n" using assms(1) by (simp_all add: fs_ready_def bs_ok_def)
  obtain h t where t: "bread d n s e = (Ret h, t, e)" "bs_ok d {h} t" "bview_of d {h} t = bview_of d {} s" "bnum t h = n" "bio_frame s t"
    using bs_bread [OF k(1), of n e] k(3) by auto
  have dt: "b_data (bufs t h) = blk d s n" using held_data [of d "{h}" t h] t(2,4) bview_blk [OF t(3)] by (simp add: bs_ok_def)
  obtain c where c: "either_copyout x (F (blk d s n)) t e = (Ret 0, upd c t, e)" "holds s x (F (blk d s n)) c"
    using copy [of t x "F (blk d s n)" e] bio [OF k(2) t(5)] assms(2) t(2) by (auto simp: bs_ok_def)
  let ?t = "upd c t"
  have o: "bs_ok d {h} ?t" "bview_of d {h} ?t = bview_of d {} s" "bnum ?t h = n" using t fun_cong [OF upd_num] by (auto simp: upd_ok upd_view)
  have "settled (bview_of d {h} ?t) (bnum ?t h)" using settled_free [of d s n] k(1) o by (simp add: bs_ok_def)
  then obtain u where u: "brelse h ?t e = (Ret (), u, e)" "bs_ok d {} u" "bview_of d {} u = bview_of d {} s" "bio_frame ?t u"
    using bs_brelse [OF o(1), of h e] o(2) by auto
  have ct: "content t = content s" using bio [OF k(2) t(5)] by simp
  let ?u = "upd (content s) u"
  have "bio_frame t ?u" using upd_frame [OF u(4), of "content s"] upd_same [of t] by (simp add: upd_upd ct)
  then have f: "rd_frame d s ?u" using u t(5) by (auto simp: rd_frame_def upd_ok upd_view intro: bio_frame_trans)
  have "content u = c" using bio [OF _ u(4), of x 0 "[]" c] o(1) by (simp add: get_upd bs_ok_def)
  then have "u = upd c ?u" using upd_same [of u] by (simp add: upd_upd)
  then have "kbind (bread d n) (\<lambda>bp. kbind (kget (\<lambda>s. b_data (bufs s bp))) (\<lambda>data.
      kbind (either_copyout x (F data)) (\<lambda>r. kbind (brelse bp) (\<lambda>_. g r)))) s e = g 0 (upd c ?u) e" for g :: "int \<Rightarrow> ('b, 'a fs_state_scheme) K"
    by (simp add: kbind_Ret t(1) dt c(1) u(1))
  then show ?thesis using f c(2) by blast
qed

lemma readi_step:
  assumes "fs_ready d s" "file_ok d s ip" "tot < n" "unat off + (unat n - unat tot) \<le> unat (i_size (inodes s ip))"
    and "fits s x (unat n - unat tot)"
  defines "m \<equiv> chunk n tot off"
  shows "\<exists>c t. readi_round ip n (tot, off, x) s e = (Ret (Inl (tot + m, off + m, dst_add x (unat m))), upd c t, e) \<and>
    rd_frame d s t \<and> holds s x (slice (fdata d s ip) (unat off) (unat m)) c"
proof -
  let ?b = "off div 1024"
  have u: "unat ?b = unat off div BSIZE" "unat (off mod 1024) = unat off mod BSIZE" by (simp_all add: unat_div_distrib unat_mod_distrib)
  have t: "tot \<le> n" "unat tot < unat n" using assms(3) by (auto simp: word_less_nat_alt word_le_nat_alt)
  have m: "unat m \<le> BSIZE - unat off mod BSIZE" "unat m \<le> unat n - unat tot" using chunk_unat [OF t(1), of off] by (simp_all add: m_def)
  have sz: "unat off < unat (i_size (inodes s ip))" "unat (i_size (inodes s ip)) \<le> MAXFILE * BSIZE" "i_dev (inodes s ip) = d"
    using assms(2,4) t(2) by (auto simp: file_ok_def)
  then have b: "unat ?b < MAXFILE" "unat ?b * BSIZE < unat (i_size (inodes s ip))" unfolding u(1) by linarith+
  then have nz: "faddr d s ip (unat ?b) \<noteq> 0" "NDIRECT \<le> unat ?b \<Longrightarrow> i_addrs (inodes s ip) NDIRECT \<noteq> 0"
    using assms(2) unfolding file_ok_def by blast+
  obtain t1 where t1: "bmap ip ?b s e = (Ret (faddr d s ip (unat ?b)), t1, e)" "rd_frame d s t1"
    using bmap_run [OF assms(1) sz(3) b(1) nz] by blast
  let ?a = "faddr d s ip (unat ?b)" let ?F = "\<lambda>data. slice data (unat (off mod 1024)) (unat m)"
  note f = rd_frame_facts [OF t1(2)]
  have sl: "?F (blk d s ?a) = slice (fdata d s ip) (unat off) (unat m)"
    using fdata_slice [OF assms(2) m(1)] m(2) assms(4) by (simp add: u)
  have len: "length (slice (fdata d s ip) (unat off) (unat m)) = unat m" using m(2) assms(4) by (simp add: slice_def)
  have "fits s x (unat m)" using prefix assms(5) m(2) by blast
  moreover have "fits t1 x (unat m) = fits s x (unat m)" "holds t1 x bs c = holds s x bs c" for bs c
    using bio [of s t1 x] assms(1) t1(2) by (auto simp: fs_ready_def bs_ok_def rd_frame_def)
  ultimately obtain c t2 where r: "\<And>g :: int \<Rightarrow> ((uint \<times> uint \<times> dst) + uint, 'a fs_state_scheme) K. kbind (bread d ?a) (\<lambda>bp. kbind (kget (\<lambda>s. b_data (bufs s bp))) (\<lambda>data.
      kbind (either_copyout x (?F data)) (\<lambda>r. kbind (brelse bp) (\<lambda>_. g r)))) t1 e = g 0 (upd c t2) e"
    and t2: "rd_frame d t1 t2" "holds s x (slice (fdata d s ip) (unat off) (unat m)) c"
    using copy_block [OF f(6) [OF assms(1)], of x ?F ?a e] by (auto simp: f(2) sl len)
  have "readi_round ip n (tot, off, x) s e = (Ret (Inl (tot + m, off + m, dst_add x (unat m))), upd c t2, e)"
    using assms(3) t1(1) nz by (simp add: readi_round_def kbind_Ret f(1) sz(3) Let_def m_def [symmetric] kret_run r)
  then show ?thesis using t2 rd_frame_trans [OF t1(2) t2(1)] by blast
qed

lemma readi_loop:
  assumes "fs_ready d s" "file_ok d s ip" "tot \<le> n" "unat off + (unat n - unat tot) \<le> unat (i_size (inodes s ip))"
    and "fits s x (unat n - unat tot)"
  shows "\<exists>c t. kloop (readi_round ip n) (tot, off, x) s e = (Ret n, upd c t, e) \<and>
    rd_frame d s t \<and> holds s x (slice (fdata d s ip) (unat off) (unat n - unat tot)) c"
  using assms
proof (induction "unat n - unat tot" arbitrary: tot off x s rule: less_induct)
  case less
  show ?case
  proof (cases "tot < n")
    case False
    with less.prems(3) have "tot = n" by simp
    moreover have "kloop (readi_round ip n) (n, off, x) s e = (Ret n, upd (content s) s, e)"
      by (rule kloop_step_Inr) (simp add: readi_round_def kret_run upd_same)
    moreover have "holds s x [] (content s)" using empty [of s x] less.prems(5) \<open>tot = n\<close> by simp
    ultimately show ?thesis using rd_frame_refl [OF less.prems(1)] by (auto simp: slice_def)
  next
    case True
    define m where "m = chunk n tot off"
    have tn: "unat tot < unat n" using True by (simp add: word_less_nat_alt)
    have m: "unat m = min (unat n - unat tot) (1024 - unat off mod 1024)" using chunk_unat [OF less.prems(3)] by (simp add: m_def)
    have "0 < 1024 - unat off mod 1024" by simp
    then have m0: "0 < unat m" "unat m \<le> unat n - unat tot" using m tn by simp_all
    have w: "unat (tot + m) = unat tot + unat m" "unat (off + m) = unat off + unat m"
      using m0 tn less.prems(4) unat32_less [of n] unat32_less [of "i_size (inodes s ip)"] by (simp_all add: unat_word_ariths)
    obtain c t where st: "readi_round ip n (tot, off, x) s e = (Ret (Inl (tot + m, off + m, dst_add x (unat m))), upd c t, e)"
      "rd_frame d s t" "holds s x (slice (fdata d s ip) (unat off) (unat m)) c"
      using readi_step [OF less.prems(1,2) True less.prems(4,5), of e] by (auto simp: m_def)
    have len: "length (slice (fdata d s ip) (unat off) (unat m)) = unat m" using m0 less.prems(4) by (simp add: slice_def)
    let ?s = "upd c t" and ?r = "unat n - unat (tot + m)"
    let ?bs = "slice (fdata d s ip) (unat off) (unat m)" and ?cs = "slice (fdata d s ip) (unat off + unat m) ?r"
    have lr: "length ?cs = ?r" using m0 less.prems(4) by (simp add: slice_def w)
    note f = rd_frame_facts [OF st(2)]
    have r: "unat m + ?r = unat n - unat tot" using m0 by (simp add: w)
    then have lt: "?r < unat n - unat tot" using m0 by linarith
    have ct: "fits t = fits s" "holds t = holds s" "content t = content s"
      using bio [of s t] less.prems(1) st(2) by (auto simp: fs_ready_def bs_ok_def rd_frame_def fun_eq_iff)
    have "fits ?s (dst_add x (unat m)) ?r" using rest [of t x "slice (fdata d s ip) (unat off) (unat m)" c ?r] st(3) less.prems(5)
      by (simp add: len r ct)
    moreover have "fs_ready d ?s" "file_ok d ?s ip" "inodes ?s ip = inodes s ip" using f less.prems(1,2) by (simp_all add: upd_fs_ready upd_file upd_inodes)
    moreover have "tot + m \<le> n" "unat (off + m) + ?r \<le> unat (i_size (inodes s ip))" using m0 w less.prems(4) tn by (auto simp: word_le_nat_alt)
    ultimately obtain c2 t2 where ih: "kloop (readi_round ip n) (tot + m, off + m, dst_add x (unat m)) ?s e = (Ret n, upd c2 t2, e)"
      "rd_frame d ?s t2" "holds ?s (dst_add x (unat m)) (slice (fdata d s ip) (unat off + unat m) ?r) c2"
      using less.hyps [OF lt, of ?s "off + m" "dst_add x (unat m)"] by (auto simp: w(2) upd_file f)
    have "rd_frame d t (upd (content s) t2)" using upd_rd_frame [OF ih(2), of "content s"] upd_same [of t] by (simp add: upd_upd ct)
    then have "rd_frame d s (upd (content s) t2)" using rd_frame_trans [OF st(2)] by blast
    moreover have "holds s x (slice (fdata d s ip) (unat off) (unat n - unat tot)) c2"
      using append [of t x ?bs c ?cs c2] st(3) ih(3) less.prems(5) r by (simp add: ct len lr slice_append)
    moreover have "upd c2 t2 = upd c2 (upd (content s) t2)" by (simp add: upd_upd)
    ultimately show ?thesis using kloop_step_Inl [where b = "readi_round ip n", OF st(1) ih(1)] by metis
  qed
qed

lemma readi_run:
  assumes "fs_ready d s" "file_ok d s ip" "unat off + unat n < 2 ^ 32"
  defines "k \<equiv> min (unat n) (unat (i_size (inodes s ip)) - unat off)"
  assumes "fits s x k"
  shows "\<exists>c t. readi ip x off n s e = (Ret (int k), upd c t, e) \<and> rd_frame d s t \<and> holds s x (slice (fdata d s ip) (unat off) k) c"
proof -
  let ?sz = "i_size (inodes s ip)"
  have on: "unat (off + n) = unat off + unat n" using assms(3) by (simp add: unat_word_ariths)
  then have no: "\<not> off + n < off" by (simp add: word_less_nat_alt)
  show ?thesis
  proof (cases "?sz < off")
    case True
    then have "k = 0" by (simp add: k_def word_less_nat_alt)
    then show ?thesis using True empty [of s x] assms(4,5) rd_frame_refl [OF assms(1)]
      by (intro exI [of _ "content s"] exI [of _ s]) (simp add: readi_def kret_run upd_same slice_def)
  next
    case False
    then have so: "off \<le> ?sz" "unat off \<le> unat ?sz" by (auto simp: word_le_nat_alt word_less_nat_alt)
    define n' where "n' = (if off + n > ?sz then ?sz - off else n)"
    have n': "unat n' = k" using so unat_sub [OF so(1)] by (auto simp: n'_def k_def word_less_nat_alt on)
    have "k \<le> MAXFILE * BSIZE" using assms(2) by (auto simp: k_def file_ok_def)
    then have "sint n' = int k" using n' by (simp add: sint_eq_uint_small)
    moreover have ok: "unat off + k \<le> unat ?sz" using so(2) by (simp add: k_def)
    moreover obtain c t where "kloop (readi_round ip n') (0, off, x) s e = (Ret n', upd c t, e)" "rd_frame d s t"
        "holds s x (slice (fdata d s ip) (unat off) k) c"
      using readi_loop [OF assms(1,2), of 0 n' off x e] assms(5) ok by (auto simp: n')
    ultimately show ?thesis using False no by (auto simp: readi_def kbind_Ret kret_run n'_def [symmetric])
  qed
qed

end

text \<open>The kernel's local buffer.\<close>

definition local_fits :: "'a fs_state_scheme \<Rightarrow> dst \<Rightarrow> nat \<Rightarrow> bool" where
  "local_fits s x n \<longleftrightarrow> (\<exists>i. x = DstLocal i)"

definition local_holds :: "'a fs_state_scheme \<Rightarrow> dst \<Rightarrow> uchar list \<Rightarrow> (nat \<Rightarrow> uchar) \<Rightarrow> bool" where
  "local_holds s x bs c \<longleftrightarrow> (\<exists>i. x = DstLocal i \<and> c = overlay (lbuf s) i bs)"

lemma bs_same:
  assumes "bufs t = bufs s" "slocks t = slocks s" "disk t = disk s" "dwrites t = dwrites s" "procs t = procs s" "myp t = myp s"
    and "\<And>L. calm L t = calm L s"
  shows "bs_ok d H t = bs_ok d H s" "bview_of d H t = bview_of d H s"
  using bio_transfer [of t s] assms by (simp_all add: bs_ok_def bview_of_def)

lemma overlay_append: "overlay (overlay f i bs) (i + length bs) cs = overlay f i (bs @ cs)"
  by (auto simp: overlay_def nth_append fun_eq_iff)

lemma bio_frame_upd:
  assumes "bio_frame s t"
  shows "bio_frame (s\<lparr>lbuf := c\<rparr>) (t\<lparr>lbuf := c\<rparr>)" "bio_frame (s\<lparr>mem := m\<rparr>) (t\<lparr>mem := m\<rparr>)"
proof -
  let ?F = "\<lambda>s. s\<lparr>procs := procs t, slocks := slocks t, bufs := bufs t, disk := disk t, dwrites := dwrites t\<rparr>"
  have t: "t = ?F s" and p: "\<forall>p. same_proc (procs s p) (procs t p)" "\<forall>k. (\<forall>i. k \<noteq> BufSl i) \<longrightarrow> slocks t k = slocks s k"
    using assms by (simp_all add: bio_frame_def)
  have "(?F s)\<lparr>lbuf := c\<rparr> = ?F (s\<lparr>lbuf := c\<rparr>)" "(?F s)\<lparr>mem := m\<rparr> = ?F (s\<lparr>mem := m\<rparr>)" by (cases s; simp)+
  then have "t\<lparr>lbuf := c\<rparr> = ?F (s\<lparr>lbuf := c\<rparr>)" "t\<lparr>mem := m\<rparr> = ?F (s\<lparr>mem := m\<rparr>)" using t by metis+
  then show "bio_frame (s\<lparr>lbuf := c\<rparr>) (t\<lparr>lbuf := c\<rparr>)" "bio_frame (s\<lparr>mem := m\<rparr>) (t\<lparr>mem := m\<rparr>)"
    using p by (simp_all add: bio_frame_def)
qed

interpretation ls: sink local_fits lbuf "\<lambda>c s. s\<lparr>lbuf := c\<rparr>" local_holds
proof
  fix s t :: "'a fs_state_scheme" and x bs cs n k d H c c' and e :: "('a fs_state_scheme \<Rightarrow> 'a fs_state_scheme) list"
  show "\<exists>c. either_copyout x bs s e = (Ret 0, s\<lparr>lbuf := c\<rparr>, e) \<and> local_holds s x bs c" if "calm {} s" "local_fits s x (length bs)"
    using that by (auto simp: local_fits_def local_holds_def either_copyout_def myproc_calm [OF that(1)] kbind_Ret kmod_run kret_run)
  show "local_fits t x n = local_fits s x n \<and> local_holds t x bs c = local_holds s x bs c \<and> lbuf t = lbuf s" if "bio_frame s t"
    using bio_frame_inodes(3) [OF that] by (simp add: local_fits_def local_holds_def)
  show "bs_ok d H (s\<lparr>lbuf := c\<rparr>) = bs_ok d H s" "bview_of d H (s\<lparr>lbuf := c\<rparr>) = bview_of d H s" by (rule bs_same; simp)+
  show "local_holds s x (bs @ cs) c'" if "local_holds s x bs c" "local_holds (s\<lparr>lbuf := c\<rparr>) (dst_add x (length bs)) cs c'"
    using that by (auto simp: local_holds_def overlay_append)
qed (auto simp: local_fits_def local_holds_def overlay_def fun_eq_iff bio_frame_upd)

text \<open>The memory of the current process.\<close>

definition upagetable :: "'a proc_state_scheme \<Rightarrow> uint64" where
  "upagetable s = p_pagetable (procs s (myp s))"

definition user_fits :: "'a fs_state_scheme \<Rightarrow> dst \<Rightarrow> nat \<Rightarrow> bool" where
  "user_fits s x n \<longleftrightarrow> (\<exists>a. x = DstUser a \<and> vm_wf s (upagetable s) \<and> wrange s (upagetable s) a n)"

definition user_holds :: "'a fs_state_scheme \<Rightarrow> dst \<Rightarrow> uchar list \<Rightarrow> memory \<Rightarrow> bool" where
  "user_holds s x bs m \<longleftrightarrow> (\<exists>a. x = DstUser a \<and> ustored s (upagetable s) a bs m)"

lemma upagetable_bio:
  assumes "bio_frame s t" shows "upagetable t = upagetable s"
proof -
  have "same_proc (procs s (myp s)) (procs t (myp s))" using assms by (simp add: bio_frame_def)
  then have "p_pagetable (procs t (myp s)) = p_pagetable (procs s (myp s))" unfolding same_proc_def by (metis (no_types, lifting) proc.select_convs proc.surjective proc.update_convs)
  then show ?thesis using bio_frame_facts(2) [OF assms] by (simp add: upagetable_def)
qed

lemma user_bio:
  assumes "calm {} s" "bio_frame s t"
  shows "user_fits t x n = user_fits s x n" "user_holds t x bs m = user_holds s x bs m"
proof -
  have c: "calm {} t" using bio_frame_facts(1) [OF assms(2,1)] .
  have sm: "same_mem s t" using bio_frame_inodes(5) [OF assms(2)] .
  have k: "kmem_ready s" "kmem_ready t" "kmem_ready (s\<lparr>mem := m\<rparr>)" "kmem_ready (t\<lparr>mem := m\<rparr>)"
    using assms(1) c by (auto intro: kmem_ready_calm [of "{}"])
  show "user_fits t x n = user_fits s x n"
    using vm_wf_same [OF sm k(2)] vm_wf_same [OF same_mem_sym [OF sm] k(1)] range_same(3) [OF sm] by (auto simp: user_fits_def upagetable_bio [OF assms(2)])
  show "user_holds t x bs m = user_holds s x bs m"
    using ustored_same [OF sm k(4)] ustored_same [OF same_mem_sym [OF sm] k(3)] by (auto simp: user_holds_def upagetable_bio [OF assms(2)])
qed

lemma upagetable_mem [simp]: "upagetable (s\<lparr>mem := m\<rparr>) = upagetable s"
  by (simp add: upagetable_def)

interpretation us: sink user_fits mem "\<lambda>c s. s\<lparr>mem := c\<rparr>" user_holds
proof
  fix s t :: "'a fs_state_scheme" and x bs cs n k d H c c' and e :: "('a fs_state_scheme \<Rightarrow> 'a fs_state_scheme) list"
  show "\<exists>c. either_copyout x bs s e = (Ret 0, s\<lparr>mem := c\<rparr>, e) \<and> user_holds s x bs c" if h: "calm {} s" "user_fits s x (length bs)"
  proof -
    obtain a where a: "x = DstUser a" "vm_wf s (upagetable s)" "wrange s (upagetable s) a (length bs)" using h(2) by (auto simp: user_fits_def)
    from copyout_run [OF a(2,3), of "p_sz (procs s (myp s))" e] show ?thesis
      by (auto simp: a(1) user_holds_def either_copyout_def myproc_calm [OF h(1)] kbind_Ret upagetable_def)
  qed
  show "user_fits t x n = user_fits s x n \<and> user_holds t x bs c = user_holds s x bs c \<and> mem t = mem s" if "calm {} s" "bio_frame s t"
    using user_bio [OF that] bio_frame_inodes(4) [OF that(2)] by simp
  show "bs_ok d H (s\<lparr>mem := c\<rparr>) = bs_ok d H s" "bview_of d H (s\<lparr>mem := c\<rparr>) = bview_of d H s" by (rule bs_same; simp)+
  show "user_holds s x (bs @ cs) c'" if "user_holds s x bs c" "user_holds (s\<lparr>mem := c\<rparr>) (dst_add x (length bs)) cs c'" "user_fits s x (length bs + length cs)"
    using that by (auto simp: user_holds_def user_fits_def intro: ustored_append)
  show "user_fits (s\<lparr>mem := c\<rparr>) (dst_add x (length bs)) k" if "user_holds s x bs c" "user_fits s x (length bs + k)"
    using that range_sub(2) [of "length bs" k "length bs + k" s "upagetable s"] ustored_facts [of s "upagetable s" _ bs c] by (auto simp: user_holds_def user_fits_def)
  show "user_holds s x [] (mem s)" if "user_fits s x 0" using that by (auto simp: user_holds_def user_fits_def intro: ustored_Nil)
  show "user_fits s x k" if "user_fits s x n" "k \<le> n" using that by (auto simp: user_fits_def intro: range_prefix)
qed (simp_all add: bio_frame_upd)

section \<open>A file\<close>

text \<open>A disk whose blocks are filled with their number, and a file of 1500 bytes in blocks 60 and 61.\<close>

definition demo_inode :: inode where
  "demo_inode = \<lparr>i_dev = 1, i_inum = 7, i_ref = 1, i_valid = True, i_type = 2, i_major = 0, i_minor = 0, i_nlink = 1,
     i_size = 1500, i_addrs = (\<lambda>i. 60 + of_nat i)\<rparr>"

definition demo_fs :: fs_state where
  "demo_fs = calm_fs\<lparr>disk := (\<lambda>n. replicate 1024 (ucast n)), inodes := (inodes calm_fs)(2 := demo_inode)\<rparr>"

lemma demo_fs_ready:
  assumes "bufs s = bufs calm_bio" "calm {} s" "\<And>k. \<not> sl_locked (slocks s k)"
  shows "fs_ready 1 s"
  using calm_log_ok [OF assms] by (simp add: fs_ready_def roomy_def bview_of_def)

lemma demo_file:
  assumes "blk 1 s = (\<lambda>n. replicate 1024 (ucast n))" "inodes s 2 = demo_inode"
  shows "file_ok 1 s 2" "fdata 1 s 2 = replicate 1024 60 @ replicate 476 61"
proof -
  have a: "faddr 1 s 2 i = 60 + of_nat i" if "i < 12" for i using that by (simp add: faddr_def assms(2) demo_inode_def)
  have i: "i = 0 \<or> i = 1" if "i * 1024 < 1500" for i :: nat using that by arith
  show "file_ok 1 s 2" using i a by (force simp: file_ok_def assms demo_inode_def)
  have "fbyte 1 s 2 k = (if k < 1024 then 60 else 61)" if "k < 1500" for k
  proof (cases "k < 1024")
    case True
    then show ?thesis using a [of 0] by (simp add: fbyte_def assms(1))
  next
    case False
    then have "k div 1024 = 1" using that by arith
    then show ?thesis using False a [of 1] by (simp add: fbyte_def assms(1))
  qed
  then have "fdata 1 s 2 = map (\<lambda>k. if k < 1024 then 60 else 61) [0..<1500]" by (simp add: fdata_def assms(2) demo_inode_def)
  also have "\<dots> = replicate 1024 60 @ replicate 476 61" by (rule nth_equalityI) (auto simp: nth_append)
  finally show "fdata 1 s 2 = replicate 1024 60 @ replicate 476 61" .
qed

section \<open>Properties\<close>

text \<open>
  C6: reading a file into user memory delivers its bytes.  On a file without holes \<open>readi\<close> returns
  the number of bytes between the offset and the end of the file, or the number requested when that
  is less; the user's buffer then holds exactly those bytes of the file, across the boundaries of
  blocks and of the direct and indirect parts; no other memory and no file and no disk block
  changes.
\<close>

theorem readi_reads_file:
  fixes s :: "'a fs_state_scheme" and off n :: uint
  assumes "fs_ready d s" "file_ok d s ip" "unat off + unat n < 2 ^ 32"
    and "pt = p_pagetable (procs s (myp s))" "vm_wf s pt" "k = min (unat n) (length (fdata d s ip) - unat off)" "wrange s pt a k"
  shows "\<exists>t. readi ip (DstUser a) off n s e = (Ret (int k), t, e) \<and> ubytes t pt a k = slice (fdata d s ip) (unat off) k \<and>
    (\<forall>x. (\<forall>i<k. x \<noteq> upa s pt (a + of_nat i)) \<longrightarrow> mem t x = mem s x) \<and> (\<forall>jp. fdata d t jp = fdata d s jp) \<and> disk t = disk s"
proof -
  have pt: "pt = upagetable s" using assms(4) by (simp add: upagetable_def)
  have "user_fits s (DstUser a) (min (unat n) (unat (i_size (inodes s ip)) - unat off))"
    using assms(5-7) pt by (simp add: user_fits_def)
  from us.readi_run [OF assms(1-3) this, of e] obtain c t where
    r: "readi ip (DstUser a) off n s e = (Ret (int k), t\<lparr>mem := c\<rparr>, e)" "rd_frame d s t"
    and h: "ustored s pt a (slice (fdata d s ip) (unat off) k) c"
    using assms(6) pt by (auto simp: user_holds_def)
  have len: "length (slice (fdata d s ip) (unat off) k) = k" using assms(6) by (auto simp: slice_def)
  have f: "fdata d (t\<lparr>mem := c\<rparr>) jp = fdata d s jp" for jp using rd_frame_facts(3) [OF r(2)] us.upd_file(1) [of d c t jp] by simp
  have "disk t = disk s" using r(2) by (simp add: rd_frame_def bview_of_def)
  moreover have sm: "same_mem (s\<lparr>mem := c\<rparr>) (t\<lparr>mem := c\<rparr>)" using r(2) bio_frame_inodes(5) [of s t] by (simp add: rd_frame_def same_mem_def)
  moreover have "ubytes (t\<lparr>mem := c\<rparr>) pt a k = slice (fdata d s ip) (unat off) k"
    using range_same(1) [OF sm] h len by (simp add: ustored_def)
  moreover have "\<forall>x. (\<forall>i<k. x \<noteq> upa s pt (a + of_nat i)) \<longrightarrow> c x = mem s x" using h len by (simp add: ustored_def)
  ultimately show ?thesis using r(1) f by auto
qed

theorem readi_reads_file_witness:
  "\<exists>(s :: fs_state) pt t. readi 2 (DstUser 0) 1022 4 s [] = (Ret (int 4), t, []) \<and> ubytes t pt 0 4 = [60, 60, 61, 61]"
proof -
  obtain m fl ke pt where up: "\<And>t :: fs_state. mem t = m \<Longrightarrow> freelist t = fl \<Longrightarrow> kend t = ke \<Longrightarrow> kmem_ready t \<Longrightarrow>
      vm_wf t pt \<and> rrange t pt 0 4096 \<and> wrange t pt 0 4096"
    using user_page by metis
  define s where "s = demo_fs\<lparr>mem := m, freelist := fl, kend := ke, procs := (procs demo_fs)(3 := (procs calm_proc 3)\<lparr>p_pagetable := pt\<rparr>)\<rparr>"
  have c: "calm {} s" "myp s = 3" using calm_transfer [OF calm_states(5), of s] by (simp_all add: s_def demo_fs_def)
  have u: "vm_wf s pt" "wrange s pt 0 4096" using up [of s] kmem_ready_calm [OF c(1)] by (simp_all add: s_def)
  have b: "bufs s = bufs calm_bio" "\<And>k. \<not> sl_locked (slocks s k)" "inodes s 2 = demo_inode" by (simp_all add: s_def demo_fs_def)
  have k: "blk 1 s = (\<lambda>n. replicate 1024 (ucast n))" using calm_log_ok(3) [OF b(1) c(1) b(2)] by (simp add: s_def demo_fs_def)
  have d: "fdata 1 s 2 = replicate 1024 60 @ replicate 476 61" using demo_file(2) [OF k b(3)] .
  have sl: "slice (fdata 1 s 2) (unat (1022 :: uint)) 4 = [60, 60, 61, 61]" 
    by (simp add: d slice_def min_def) (simp add: numeral_2_eq_2)
  have n: "4 = min (unat (4 :: uint)) (length (fdata 1 s 2) - unat (1022 :: uint))" by (simp add: d)
  have p: "pt = p_pagetable (procs s (myp s))" "wrange s pt 0 4" using c(2) range_prefix(2) [OF u(2), of 4] by (simp_all add: s_def)
  have "unat (1022 :: uint) + unat (4 :: uint) < 2 ^ 32" by simp
  from readi_reads_file [OF demo_fs_ready [OF b(1) c(1) b(2)] demo_file(1) [OF k b(3)] this p(1) u(1) n p(2), of "[]"]
  show ?thesis unfolding sl by blast
qed

end
