(* ===== verification/BlockTx.thy ===== *)
theory BlockTx
  imports FileData
begin

unbundle bit_operations_syntax

text \<open>
  Changing blocks inside a transaction: the pattern \<open>bread\<close>, change, \<open>log_write\<close>, \<open>brelse\<close> that every
  writer of the file system follows.  \<open>tx d k s\<close> says that a transaction is open with room for
  \<open>k\<close> more calls of \<open>log_write\<close>.
\<close>

definition tx :: "uint \<Rightarrow> nat \<Rightarrow> 'a log_state_scheme \<Rightarrow> bool" where
  "tx d k s \<longleftrightarrow> calm {} s \<and> log_inv d {} s \<and> 1 \<le> log_outstanding s \<and> lh_n s + int k \<le> int LOGBLOCKS"

text \<open>The same while the buffers in \<open>H\<close> are held, each of which takes a place in the cache.\<close>

definition txh :: "uint \<Rightarrow> nat set \<Rightarrow> nat \<Rightarrow> 'a log_state_scheme \<Rightarrow> bool" where
  "txh d H k s \<longleftrightarrow> calm {} s \<and> log_inv d H s \<and> finite H \<and> 1 \<le> log_outstanding s \<and> lh_n s + int (k + card H) \<le> int LOGBLOCKS"

lemma txh_empty: "txh d {} k s = tx d k s"
  by (simp add: txh_def tx_def)

definition tx_frame :: "'a log_state_scheme \<Rightarrow> 'a log_state_scheme \<Rightarrow> bool" where
  "tx_frame s t \<longleftrightarrow> t = s\<lparr>procs := procs t, slocks := slocks t, bufs := bufs t, lh_n := lh_n t, lh_block := lh_block t\<rparr> \<and>
     (\<forall>p. same_proc (procs s p) (procs t p)) \<and> (\<forall>k. (\<forall>i. k \<noteq> BufSl i) \<longrightarrow> slocks t k = slocks s k)"

lemma tx_frame_refl [simp]: "tx_frame s s" by (simp add: tx_frame_def)

lemma tx_frame_trans:
  assumes "tx_frame s t" "tx_frame t u"
  shows "tx_frame s u"
proof -
  have t: "t = s\<lparr>procs := procs t, slocks := slocks t, bufs := bufs t, lh_n := lh_n t, lh_block := lh_block t\<rparr>"
    and u: "u = t\<lparr>procs := procs u, slocks := slocks u, bufs := bufs u, lh_n := lh_n u, lh_block := lh_block u\<rparr>"
    using assms by (auto simp: tx_frame_def)
  have "u = s\<lparr>procs := procs u, slocks := slocks u, bufs := bufs u, lh_n := lh_n u, lh_block := lh_block u\<rparr>"
    by (subst u, subst t) simp
  moreover have "same_proc (procs s p) (procs u p)" for p using assms unfolding tx_frame_def by (blast intro: same_proc_trans)
  moreover have "slocks u k = slocks s k" if "\<forall>i. k \<noteq> BufSl i" for k using assms that by (simp add: tx_frame_def)
  ultimately show ?thesis by (simp add: tx_frame_def)
qed

lemma tx_frame_bio:
  assumes "bio_frame s t" "disk t = disk s" "dwrites t = dwrites s" shows "tx_frame s t"
proof -
  have t: "t = s\<lparr>procs := procs t, slocks := slocks t, bufs := bufs t, disk := disk t, dwrites := dwrites t\<rparr>"
    and p: "\<forall>p. same_proc (procs s p) (procs t p)" "\<forall>k. (\<forall>i. k \<noteq> BufSl i) \<longrightarrow> slocks t k = slocks s k" using assms(1) by (simp_all add: bio_frame_def)
  have l: "lh_n t = lh_n s" "lh_block t = lh_block s" using frame_log [OF assms(1)] by (simp_all add: same_log_def)
  have "s\<lparr>procs := procs t, slocks := slocks t, bufs := bufs t, disk := disk t, dwrites := dwrites t\<rparr> =
      s\<lparr>procs := procs t, slocks := slocks t, bufs := bufs t, lh_n := lh_n t, lh_block := lh_block t\<rparr>"
    unfolding assms(2,3) l by (cases s) simp
  with t p show ?thesis unfolding tx_frame_def by simp
qed

lemma tx_frame_facts:
  assumes "tx_frame s t"
  shows "log_start t = log_start s" "log_outstanding t = log_outstanding s" "disk t = disk s" "myp t = myp s" "same_mem s t"
    "same_proc (procs s p) (procs t p)"
proof -
  have t: "t = s\<lparr>procs := procs t, slocks := slocks t, bufs := bufs t, lh_n := lh_n t, lh_block := lh_block t\<rparr>"
    and p: "same_proc (procs s p) (procs t p)" using assms by (simp_all add: tx_frame_def)
  show "log_start t = log_start s" "log_outstanding t = log_outstanding s" "disk t = disk s" "myp t = myp s" "same_mem s t"
    by (subst t, simp add: same_mem_def)+
  show "same_proc (procs s p) (procs t p)" by (rule p)
qed

lemma tx_frame_fs:
  assumes "tx_frame s t" shows "inodes t = inodes s" "sb t = sb s" "lbuf t = lbuf s" "slocks t (InodeSl ip) = slocks s (InodeSl ip)"
proof -
  have t: "t = s\<lparr>procs := procs t, slocks := slocks t, bufs := bufs t, lh_n := lh_n t, lh_block := lh_block t\<rparr>"
    using assms by (simp add: tx_frame_def)
  show "inodes t = inodes s" "sb t = sb s" "lbuf t = lbuf s" by (subst t, simp)+
  show "slocks t (InodeSl ip) = slocks s (InodeSl ip)" using assms by (simp add: tx_frame_def)
qed

lemma tx_weaken: "tx d k s \<Longrightarrow> j \<le> k \<Longrightarrow> tx d j s"
  by (simp add: tx_def)

lemma txh_bs: "txh d H k s \<Longrightarrow> bs_ok d H s"
  by (simp add: txh_def bs_ok_def log_inv_def)

lemma txh_roomy:
  assumes "txh d H (Suc k) s"
  shows "roomy (card H) (bview_of d H s) n"
proof -
  have i: "pins d H s = (\<lambda>m. if m \<in> header s then 1 else 0)" "0 \<le> lh_n s" "lh_n s + int (card H) < int NBUF" using assms by (auto simp: txh_def log_inv_def)
  have "card (header s) \<le> nat (lh_n s)" using card_image_le [of "{..<nat (lh_n s)}" "lh_block s"] by (simp add: header_def)
  then have "card H + card (header s) < NBUF" using i(2,3) by linarith
  moreover have "{m. pins d H s m \<noteq> 0} = header s" by (simp add: i(1))
  ultimately show ?thesis by (simp add: roomy_def bview_of_def i(1))
qed

lemmas tx_bs = txh_bs [where H = "{}", unfolded txh_empty]

lemmas tx_roomy = txh_roomy [where H = "{}", unfolded txh_empty, simplified]

lemma tx_ready: "tx d (Suc k) s \<Longrightarrow> fs_ready d s"
  using tx_bs tx_roomy by (auto simp: fs_ready_def)

lemma tx_rd_frame:
  assumes "rd_frame d s t" "tx d k s"
  shows "tx d k t" "tx_frame s t" "header t = header s"
proof -
  have f: "bio_frame s t" "bs_ok d {} t" "bview_of d {} t = bview_of d {} s" using assms(1) by (simp_all add: rd_frame_def)
  have l: "same_log s t" using frame_log [OF f(1)] .
  show h: "header t = header s" using l by (simp add: header_def same_log_def)
  have p: "pins d {} t = pins d {} s" "disk t = disk s" "dwrites t = dwrites s" using f(3) by (simp_all add: bview_of_def)
  show "tx_frame s t" using tx_frame_bio [OF f(1) p(2,3)] .
  show "tx d k t" using assms(2) f(2) l p(1) by (auto simp: tx_def log_inv_def bs_ok_def h same_log_def)
qed

lemma bview_eqD: "bview_of d H t = bview_of d G s \<Longrightarrow> pins d H t = pins d G s \<and> blk d t = blk d s \<and> disk t = disk s \<and> dwrites t = dwrites s"
  by (simp add: bview_of_def)

text \<open>From a buffer that is held, through the change, to its release.\<close>

lemma txh_put:
  fixes t :: "'a log_state_scheme"
  assumes "txh d (insert h H) k t" "h \<notin> H" "bnum t h \<notin> log_area (log_start t)"
  shows "\<exists>u. kseq [kmod (set_data h x), log_write h, brelse h] t e = (Ret (), u, e) \<and>
    txh d H k u \<and> blk d u = (blk d t)(bnum t h := x) \<and> header u = insert (bnum t h) (header t) \<and> tx_frame t u \<and> bnum u = bnum t"
proof -
  let ?u = "bput h x t" and ?H = "insert h H" and ?n = "bnum t h"
  have si: "bio_ok d ?H t" "calm {} t" "0 \<le> lh_n t" "log_geom (log_start t) (lh_block t) (nat (lh_n t))" "pins d ?H t = (\<lambda>m. if m \<in> header t then 1 else 0)"
    "lh_n t < int LOGBLOCKS" "1 \<le> log_outstanding t" "lh_n t + int (k + Suc (card H)) \<le> int LOGBLOCKS" "finite H" using assms(1,2) by (auto simp: txh_def log_inv_def)
  note pl = bput_law [OF si(1) insertI1, of x]
  have c: "calm {} ?u" using si(2) by (simp add: bput_def)
  have lu: "lh_n ?u = lh_n t" "lh_block ?u = lh_block t" "log_start ?u = log_start t" "log_outstanding ?u = log_outstanding t" "disk ?u = disk t" "dwrites ?u = dwrites t"
    "b_blockno (bufs ?u h) = ?n" by (simp_all add: bput_def)
  have hu: "header ?u = header t" by (simp add: header_def lu)
  have i: "log_inv d ?H ?u" using pl si by (simp add: log_inv_def lu hu)
  have w: "log_write h ?u e = (Ret (), log_put h ?u, e)" using log_write_run [OF c, of h e] si lu by simp
  let ?w = "log_put h ?u"
  have "b_blockno (bufs ?u h) \<notin> log_area (log_start ?u)" "lh_n ?u < int LOGBLOCKS" using assms(3) si(6) by (simp_all add: lu)
  note q = log_put_inv [OF i insertI1 this(1) c this(2)]
  have wf: "lh_n ?w \<le> lh_n t + 1" "log_start ?w = log_start t" "log_outstanding ?w = log_outstanding t" "calm {} ?w" "bnum ?w = bnum t" "dwrites ?w = dwrites t"
    using c pl(4) by (auto simp: log_put_def Let_def lu fun_eq_iff)
  have hw: "header ?w = insert ?n (header t)" using q(2) by (simp add: lu hu)
  have kw: "bs_ok d ?H ?w" using q(1) wf(4) by (simp add: bs_ok_def log_inv_def)
  have nw: "bnum ?w h = ?n" by (rule fun_cong [OF wf(5)])
  have pw: "pins d ?H ?w = (\<lambda>m. if m \<in> header ?w then 1 else 0)" using q(1) by (simp add: log_inv_def)
  then have "settled (bview_of d ?H ?w) (bnum ?w h)" by (simp add: settled_def bview_of_def nw hw)
  then obtain z where z: "brelse h ?w e = (Ret (), z, e)" "bs_ok d H z" "bio_frame ?w z" "bview_of d H z = bview_of d ?H ?w" "bnum z = bnum ?w"
    using bs_brelse [OF kw insertI1, of e] assms(2) by auto
  note vz = bview_eqD [OF z(4)] and lz = frame_log [OF z(3)]
  have hz: "header z = insert ?n (header t)" using lz hw by (simp add: header_def same_log_def)
  have "txh d H k z" using q(1) z(2) lz vz hz hw wf si by (auto simp: txh_def bs_ok_def log_inv_def same_log_def)
  moreover have "blk d z = (blk d t)(?n := x)" using vz q(3) pl by simp
  moreover have "tx_frame ?w z" using tx_frame_bio [OF z(3)] vz by blast
  moreover have "tx_frame t ?w" by (simp add: tx_frame_def log_put_def bput_def Let_def)
  moreover have "set_data h x t = ?u" by (simp add: bput_def set_data_def)
  then have "kseq [kmod (set_data h x), log_write h, brelse h] t e = (Ret (), z, e)" by (simp add: kbind_Ret w z(1) kret_run)
  ultimately show ?thesis using hz tx_frame_trans z(5) wf(5) by metis
qed

text \<open>A buffer more is held, and a place less is left.\<close>

lemma txh_hold:
  assumes "txh d H (Suc k) s" "h \<notin> H" "bs_ok d (insert h H) t" "bview_of d (insert h H) t = bview_of d H s" "bio_frame s t"
  shows "txh d (insert h H) k t" "tx_frame s t" "header t = header s" "log_start t = log_start s"
proof -
  note v = bview_eqD [OF assms(4)] and l = frame_log [OF assms(5)]
  show h: "header t = header s" "log_start t = log_start s" using l by (simp_all add: header_def same_log_def)
  show "tx_frame s t" using tx_frame_bio [OF assms(5)] v by blast
  show "txh d (insert h H) k t" using assms(1-3) v l by (auto simp: txh_def log_inv_def bs_ok_def h same_log_def)
qed

lemma txh_store:
  fixes t :: "'a log_state_scheme"
  assumes "txh d H (Suc k) s" "n \<notin> log_area (log_start s)"
    and t: "h \<notin> H" "bs_ok d (insert h H) t" "bview_of d (insert h H) t = bview_of d H s" "bnum t h = n" "bio_frame s t"
  shows "\<exists>u. kseq [kmod (set_data h x), log_write h, brelse h] t e = (Ret (), u, e) \<and>
    txh d H k u \<and> blk d u = (blk d s)(n := x) \<and> header u = insert n (header s) \<and> tx_frame s u \<and> bnum u = bnum t"
proof -
  note f = txh_hold [OF assms(1) t(1-3,5)]
  have "bnum t h \<notin> log_area (log_start t)" using assms(2) f(4) t(4) by simp
  from txh_put [OF f(1) t(1) this, of x e] show ?thesis using tx_frame_trans [OF f(2)] f(3) t(4) bview_blk [OF t(3)] by auto
qed

lemma tx_store:
  fixes t :: "'a log_state_scheme"
  assumes "tx d (Suc k) s" "n \<notin> log_area (log_start s)"
    and t: "bs_ok d {h} t" "bview_of d {h} t = bview_of d {} s" "bnum t h = n" "bio_frame s t"
  shows "\<exists>u. kseq [kmod (set_data h x), log_write h, brelse h] t e = (Ret (), u, e) \<and>
    tx d k u \<and> blk d u = (blk d s)(n := x) \<and> header u = insert n (header s) \<and> tx_frame s u"
  using txh_store [of d "{}" k s n h t x e] assms unfolding txh_empty by blast

lemma txh_write:
  assumes "txh d H (Suc k) s" "n \<notin> log_area (log_start s)" "n \<notin> bnum s ` H"
  shows "\<exists>t. kbind (bread d n) (\<lambda>bp. kseq [kmod (\<lambda>s. set_data bp (F (b_data (bufs s bp))) s), log_write bp, brelse bp]) s e = (Ret (), t, e) \<and>
    txh d H k t \<and> blk d t = (blk d s)(n := F (blk d s n)) \<and> header t = insert n (header s) \<and> tx_frame s t \<and> (\<forall>g\<in>H. bnum t g = bnum s g)"
proof -
  obtain h t where t: "bread d n s e = (Ret h, t, e)" "h \<notin> H" "bs_ok d (insert h H) t" "bview_of d (insert h H) t = bview_of d H s" "bnum t h = n"
      "bio_frame s t" "\<forall>g\<in>H. bnum t g = bnum s g"
    using bs_bread [OF txh_bs [OF assms(1)] assms(3) txh_roomy [OF assms(1)], of e] by blast
  have dt: "b_data (bufs t h) = blk d s n" using held_data [of d "insert h H" t h] t(3,5) bview_blk [OF t(4)] by (simp add: bs_ok_def)
  obtain u where u: "kseq [kmod (set_data h (F (blk d s n))), log_write h, brelse h] t e = (Ret (), u, e)" "txh d H k u" "blk d u = (blk d s)(n := F (blk d s n))"
      "header u = insert n (header s)" "tx_frame s u" "bnum u = bnum t"
    using txh_store [OF assms(1,2) t(2-6), of "F (blk d s n)" e] by blast
  have "\<forall>g\<in>H. bnum u g = bnum s g" using t(7) fun_cong [OF u(6)] by simp
  then show ?thesis using u(1-5) by (simp add: kbind_Ret t(1) dt kmod_run)
qed

lemma txh_bread:
  assumes "txh d H (Suc k) s" "n \<notin> bnum s ` H"
  shows "\<exists>h t. bread d n s e = (Ret h, t, e) \<and> h \<notin> H \<and> txh d (insert h H) k t \<and> bnum t h = n \<and> (\<forall>g\<in>H. bnum t g = bnum s g) \<and>
    b_data (bufs t h) = blk d s n \<and> blk d t = blk d s \<and> tx_frame s t"
proof -
  obtain h t where t: "bread d n s e = (Ret h, t, e)" "h \<notin> H" "bs_ok d (insert h H) t" "bview_of d (insert h H) t = bview_of d H s" "bnum t h = n"
      "bio_frame s t" "\<forall>g\<in>H. bnum t g = bnum s g"
    using bs_bread [OF txh_bs [OF assms(1)] assms(2) txh_roomy [OF assms(1)], of e] by blast
  have "b_data (bufs t h) = blk d s n" using held_data [of d "insert h H" t h] t(3,5) bview_blk [OF t(4)] by (simp add: bs_ok_def)
  then show ?thesis using t txh_hold [OF assms(1) t(2-4,6)] bview_blk [OF t(4)] by blast
qed

lemma tx_write:
  assumes "tx d (Suc k) s" "n \<notin> log_area (log_start s)"
  shows "\<exists>t. kbind (bread d n) (\<lambda>bp. kseq [kmod (\<lambda>s. set_data bp (F (b_data (bufs s bp))) s), log_write bp, brelse bp]) s e = (Ret (), t, e) \<and>
    tx d k t \<and> blk d t = (blk d s)(n := F (blk d s n)) \<and> header t = insert n (header s) \<and> tx_frame s t"
  using txh_write [of d "{}" k s n F e] assms unfolding txh_empty by (simp del: kseq.simps)

section \<open>Inodes on the disk\<close>

lemma iupdate_run:
  assumes "tx d (Suc k) s" "i_dev (inodes s ip) = d" "n = IBLOCK (i_inum (inodes s ip)) (sb s)" "n \<notin> log_area (log_start s)"
  shows "\<exists>t. iupdate ip s e = (Ret (), t, e) \<and> tx d k t \<and>
    blk d t = (blk d s)(n := put_dinode (blk d s n) (unat (i_inum (inodes s ip) mod IPB)) (dinode_of (inodes s ip))) \<and>
    header t = insert n (header s) \<and> tx_frame s t"
  using tx_write [OF assms(1,4), of "\<lambda>x. put_dinode x (unat (i_inum (inodes s ip) mod IPB)) (dinode_of (inodes s ip))" e]
  by (simp add: iupdate_def assms(2,3))

lemma ifree_run:
  assumes "tx d (Suc k) s" "n = IBLOCK inum (sb s)" "n \<notin> log_area (log_start s)"
  shows "\<exists>t. ifree d inum s e = (Ret (), t, e) \<and> tx d k t \<and>
    blk d t = (blk d s)(n := put16 (blk d s n) (64 * unat (inum mod IPB)) 0) \<and> header t = insert n (header s) \<and> tx_frame s t"
  using tx_write [OF assms(1,3), of "\<lambda>x. put16 x (64 * unat (inum mod IPB)) 0" e] by (simp add: ifree_def assms(2))

lemma bzero_run:
  assumes "txh d H (Suc k) s" "n \<notin> log_area (log_start s)" "n \<notin> bnum s ` H"
  shows "\<exists>t. bzero d n s e = (Ret (), t, e) \<and> txh d H k t \<and> blk d t = (blk d s)(n := replicate BSIZE 0) \<and>
    tx_frame s t \<and> (\<forall>g\<in>H. bnum t g = bnum s g)"
  using txh_write [OF assms, of "\<lambda>_. replicate BSIZE 0" e] by (auto simp: bzero_def)

lemma demo_tx:
  assumes "bufs s = bufs calm_bio" "calm {} s" "\<And>k. \<not> sl_locked (slocks s k)" "lh_n s = 0" "log_start s = 2" "log_outstanding s = 1"
  shows "tx 1 LOGBLOCKS s"
proof -
  have k: "bs_ok 1 {} s" "pins 1 {} s = (\<lambda>_. 0)" using calm_log_ok [OF assms(1-3)] by simp_all
  have "log_geom 2 (lh_block s) 0" using demo_log_ok(4) by (simp add: log_geom_def)
  then show ?thesis using k assms(2,4-6) by (simp add: tx_def log_inv_def bs_ok_def header_def)
qed

lemma log_area_2: "n \<in> log_area 2 \<Longrightarrow> n \<le> 32"
  by (auto simp: log_area_def slot_def word_le_nat_alt unat_word_ariths unat_of_nat)

end
