(* ===== verification/InodeProps.thy ===== *)
theory InodeProps
  imports BlockTx
begin

unbundle bit_operations_syntax

text \<open>
  Inodes between memory and disk: \<open>iupdate\<close> stores an inode in its slot of an inode block, \<open>ilock\<close>
  loads it, and neither touches the other slots of the block.
\<close>

section \<open>The new fields and the locks\<close>

lemma acquired_fs_state [simp, calm_simps]:
  "(acquired lk s)\<lparr>sb := x_sb\<rparr> = acquired lk (s\<lparr>sb := x_sb\<rparr>)"
  "sb (acquired lk s) = sb s"
  "(acquired lk s)\<lparr>inodes := x_inodes\<rparr> = acquired lk (s\<lparr>inodes := x_inodes\<rparr>)"
  "inodes (acquired lk s) = inodes s"
  by (cases s; simp add: acquired_def pushed_def noff_def sie_on_def)+

lemma myp_fs_state [simp]:
  "myp (s\<lparr>sb := x_sb\<rparr>) = myp s"
  "myp (s\<lparr>inodes := x_inodes\<rparr>) = myp s"
  by (simp_all add: myp_def curproc_def)

lemma calm_sb [simp]: "calm L (s\<lparr>sb := x\<rparr>) = calm L s"
  by (rule calm_upd_iff [where u = "\<lambda>x s. s\<lparr>sb := x\<rparr>" and sel = sb])
    (simp_all add: cs_comm_def fs_state.splits)

lemma calm_inodes [simp]: "calm L (s\<lparr>inodes := x\<rparr>) = calm L s"
  by (rule calm_upd_iff [where u = "\<lambda>x s. s\<lparr>inodes := x\<rparr>" and sel = inodes])
    (simp_all add: cs_comm_def fs_state.splits)

section \<open>Slots of an inode block\<close>

lemma slice_put_in:
  assumes "off + length xs \<le> length bs" "off \<le> i" "i + n \<le> off + length xs"
  shows "slice (put_at bs off xs) i n = slice xs (i - off) n"
  using assms by (intro nth_equalityI) (auto simp: slice_def nth_put_at)

lemma slice_app1: "i + n \<le> length xs \<Longrightarrow> slice (xs @ ys) i n = slice xs i n"
  and slice_app2: "length xs \<le> i \<Longrightarrow> slice (xs @ ys) i n = slice ys (i - length xs) n"
  and slice_full: "n = length xs \<Longrightarrow> slice xs 0 n = xs"
  by (simp_all add: slice_def)

lemma concat_words_length [simp]: "length (concat (map (\<lambda>i. bytes_of 4 (a i)) xs)) = 4 * length xs"
  by (induction xs) simp_all

lemma slice_words: "i < n \<Longrightarrow> slice (concat (map (\<lambda>i. bytes_of 4 (a i)) [0..<n])) (4 * i) 4 = bytes_of 4 (a i)"
proof (induction n)
  case (Suc n)
  show ?case
  proof (cases "i = n")
    case True
    then show ?thesis by (simp add: slice_app2 slice_full)
  next
    case False
    then show ?thesis using Suc by (simp add: slice_app1)
  qed
qed simp

definition dinode_bytes :: "dinode \<Rightarrow> uchar list" where
  "dinode_bytes d = bytes_of 2 (d_type d) @ bytes_of 2 (d_major d) @ bytes_of 2 (d_minor d) @
     bytes_of 2 (d_nlink d) @ bytes_of 4 (d_size d) @ concat (map (\<lambda>i. bytes_of 4 (d_addrs d i)) [0..<13])"

lemma dinode_bytes_length [simp]: "length (dinode_bytes d) = 64"
  by (simp add: dinode_bytes_def)

lemma dinode_bytes_fields:
  "slice (dinode_bytes d) 0 2 = bytes_of 2 (d_type d)" "slice (dinode_bytes d) 2 2 = bytes_of 2 (d_major d)"
  "slice (dinode_bytes d) 4 2 = bytes_of 2 (d_minor d)" "slice (dinode_bytes d) 6 2 = bytes_of 2 (d_nlink d)"
  "slice (dinode_bytes d) 8 4 = bytes_of 4 (d_size d)" "i < 13 \<Longrightarrow> slice (dinode_bytes d) (12 + 4 * i) 4 = bytes_of 4 (d_addrs d i)"
  using slice_words [of i 13 "d_addrs d"] by (simp_all add: dinode_bytes_def slice_app1 slice_app2 slice_full)

definition same_dinode :: "dinode \<Rightarrow> dinode \<Rightarrow> bool" where
  "same_dinode d e \<longleftrightarrow> d_type d = d_type e \<and> d_major d = d_major e \<and> d_minor d = d_minor e \<and> d_nlink d = d_nlink e \<and>
     d_size d = d_size e \<and> (\<forall>i<13. d_addrs d i = d_addrs e i)"

lemma put_dinode_bytes: "put_dinode bs k d = put_at bs (64 * k) (dinode_bytes d)"
  by (simp add: put_dinode_def dinode_bytes_def)

lemma get_put_dinode:
  assumes "length bs = BSIZE" "k < 16"
  shows "same_dinode (get_dinode (put_dinode bs k d) k) d"
    and "j < 16 \<Longrightarrow> j \<noteq> k \<Longrightarrow> same_dinode (get_dinode (put_dinode bs k d) j) (get_dinode bs j)"
proof -
  have l: "64 * k + length (dinode_bytes d) \<le> length bs" using assms by simp
  have s: "slice (put_at bs (64 * k) (dinode_bytes d)) (64 * k + i) n = slice (dinode_bytes d) i n" if "i + n \<le> 64" for i n
    using slice_put_in [OF l, of "64 * k + i" n] that by simp
  show "same_dinode (get_dinode (put_dinode bs k d) k) d"
    using s [of 0 2] s [of 2 2] by (simp add: same_dinode_def get_dinode_def put_dinode_bytes get16_def get32_def s dinode_bytes_fields add.assoc)
  assume j: "j < 16" "j \<noteq> k"
  have "64 * j + i + n \<le> 64 * k \<or> 64 * k + 64 \<le> 64 * j + i" if "i + n \<le> 64" for i n
    using j(2) that by (cases "j < k") linarith+
  then have o: "slice (put_at bs (64 * k) (dinode_bytes d)) (64 * j + i) n = slice bs (64 * j + i) n" if "i + n \<le> 64" for i n
    using slice_put_other [OF l, of "64 * j + i" n] that j(1) assms(1) by simp
  show "same_dinode (get_dinode (put_dinode bs k d) j) (get_dinode bs j)"
    using o [of 0 2] o [of 2 2] by (simp add: same_dinode_def get_dinode_def put_dinode_bytes get16_def get32_def o add.assoc)
qed

section \<open>Loading an inode\<close>

lemma bio_ok_slocks:
  assumes "bufs t = bufs s" "\<And>i. slocks t (BufSl i) = slocks s (BufSl i)" "disk t = disk s" "dwrites t = dwrites s" "procs t = procs s" "myp t = myp s"
  shows "bio_ok d H t = bio_ok d H s" "bview_of d H t = bview_of d H s"
proof -
  have k: "bkey d t = bkey d s" by (intro ext) (simp add: bkey_def assms)
  then have c: "cached d t = cached d s" by (intro ext) (simp add: cached_def)
  have "slot_ok d H t = slot_ok d H s" by (intro ext) (simp add: slot_ok_def sl_mine_def assms)
  then show "bio_ok d H t = bio_ok d H s" using assms k by (simp add: bio_ok_def uniq_def)
  have "blk d t = blk d s" "pins d H t = pins d H s" by (simp_all add: blk_def pins_def c assms fun_eq_iff split: option.split)
  then show "bview_of d H t = bview_of d H s" by (simp add: bview_of_def assms)
qed

lemma fs_ready_inodes: "fs_ready d (s\<lparr>inodes := f\<rparr>) = fs_ready d s" "bview_of d H (s\<lparr>inodes := f\<rparr>) = bview_of d H s"
  using bio_ok_slocks [of "s\<lparr>inodes := f\<rparr>" s] by (simp_all add: fs_ready_def bs_ok_def)

lemma fs_ready_take:
  fixes s :: "'a fs_state_scheme"
  shows "fs_ready d (sl_take (InodeSl ip) s) = fs_ready d s" "bview_of d H (sl_take (InodeSl ip) s) = bview_of d H s"
    "inodes (sl_take (InodeSl ip) s) = inodes s" "sb (sl_take (InodeSl ip) s) = sb s"
  using bio_ok_slocks [of "sl_take (InodeSl ip) s" s] by (simp_all add: fs_ready_def bs_ok_def sl_take_def)

lemma ilock_run:
  fixes s :: "'a fs_state_scheme"
  assumes "fs_ready d s" "inodes s ip = x" "i_dev x = d" "1 \<le> i_ref x" "\<not> i_valid x" "\<not> sl_locked (slocks s (InodeSl ip))"
  defines "D \<equiv> get_dinode (blk d s (IBLOCK (i_inum x) (sb s))) (unat (i_inum x mod IPB))"
  assumes "d_type D \<noteq> 0"
  shows "\<exists>t. ilock ip s e = (Ret (), t, e) \<and> fs_ready d t \<and> bview_of d {} t = bview_of d {} s \<and>
    inodes t = (inodes s)(ip := (load_dinode D x)\<lparr>i_valid := True\<rparr>)"
proof -
  let ?s = "sl_take (InodeSl ip) s" let ?n = "IBLOCK (i_inum x) (sb s)"
  have c: "calm {} s" using assms(1) by (simp add: fs_ready_def bs_ok_def)
  have a: "acquiresleep (InodeSl ip) s e = (Ret (), ?s, e)" using acquiresleep_free [OF c] assms(6) by simp
  have r: "fs_ready d ?s" "blk d ?s = blk d s" using assms(1) fs_ready_take(1) [of d ip s] bview_blk [OF fs_ready_take(2) [of d "{}" ip s]] by simp_all
  have k: "bs_ok d {} ?s" "roomy 0 (bview_of d {} ?s) ?n" using r(1) by (simp_all add: fs_ready_def)
  obtain h t where t: "bread d ?n ?s e = (Ret h, t, e)" "bs_ok d {h} t" "bview_of d {h} t = bview_of d {} ?s" "bnum t h = ?n" "bio_frame ?s t"
    using bs_bread [OF k(1), of ?n e] k(2) by auto
  have dt: "b_data (bufs t h) = blk d s ?n" using held_data [of d "{h}" t h] t(2,4) bview_blk [OF t(3)] r(2) by (simp add: bs_ok_def)
  have it: "inodes t = inodes s" using bio_frame_inodes(1) [OF t(5)] fs_ready_take(3) by metis
  let ?t = "t\<lparr>inodes := (inodes s)(ip := load_dinode D x)\<rparr>"
  have o: "bs_ok d {h} ?t" "bview_of d {h} ?t = bview_of d {} s" "bnum ?t h = ?n"
    using t(2-4) bio_ok_slocks [of ?t t d "{h}"] fs_ready_take(2) [of d "{}" ip s] by (simp_all add: bs_ok_def)
  have "settled (bview_of d {h} ?t) (bnum ?t h)" using settled_free [of d s ?n] assms(1) unfolding o(2,3) by (simp add: fs_ready_def bs_ok_def)
  then obtain u where u: "brelse h ?t e = (Ret (), u, e)" "bs_ok d {} u" "bio_frame ?t u" "bview_of d {} u = bview_of d {} s"
    using bs_brelse [OF o(1) singletonI, of e] o(2) by auto
  have iu: "inodes u = (inodes s)(ip := load_dinode D x)" using bio_frame_inodes(1) [OF u(3)] by simp
  let ?u = "u\<lparr>inodes := (inodes s)(ip := (load_dinode D x)\<lparr>i_valid := True\<rparr>)\<rparr>"
  have "fs_ready d u" using assms(1) u(2,4) by (simp add: fs_ready_def)
  then have "fs_ready d ?u" "bview_of d {} ?u = bview_of d {} s" using u(4) by (simp_all add: fs_ready_inodes)
  moreover have "ilock ip s e = (Ret (), ?u, e)"
    using assms(2-5,8) iu by (simp add: ilock_def a kbind_Ret t(1) fs_ready_take dt D_def [symmetric] u(1) it kret_run)
  ultimately show ?thesis by (intro exI [of _ ?u]) simp
qed

section \<open>Properties\<close>

text \<open>
  C16: an inode written with \<open>iupdate\<close> is what \<open>ilock\<close> loads.  Inside a transaction \<open>iupdate\<close> returns;
  after it, any entry of the inode table that refers to the same inode and has no valid copy loads
  the type, device numbers, link count, size and all block addresses that were written, and the other
  inodes of the same block are as before.
\<close>

theorem iupdate_ilock:
  fixes s :: "'a fs_state_scheme"
  assumes "tx d (Suc (Suc k)) s" "inodes s ip = x" "i_dev x = d" "n = IBLOCK (i_inum x) (sb s)" "n \<notin> log_area (log_start s)"
    and "length (blk d s n) = BSIZE" "i_type x \<noteq> 0"
    and "inodes s jp = y" "jp \<noteq> ip" "i_dev y = d" "i_inum y = i_inum x" "1 \<le> i_ref y" "\<not> i_valid y" "\<not> sl_locked (slocks s (InodeSl jp))"
  shows "\<exists>t u. iupdate ip s e = (Ret (), t, e) \<and> ilock jp t e = (Ret (), u, e) \<and> i_valid (inodes u jp) \<and>
    same_dinode (dinode_of (inodes u jp)) (dinode_of x) \<and>
    (\<forall>j<16. j \<noteq> unat (i_inum x mod IPB) \<longrightarrow> same_dinode (get_dinode (blk d u n) j) (get_dinode (blk d s n) j))"
proof -
  let ?k = "unat (i_inum x mod IPB)"
  have k: "?k < 16" using word_mod_less_divisor [of 16 "i_inum x"] by (simp add: word_less_nat_alt)
  obtain t where t: "iupdate ip s e = (Ret (), t, e)" "tx d (Suc k) t" "blk d t = (blk d s)(n := put_dinode (blk d s n) ?k (dinode_of x))" "tx_frame s t"
    using iupdate_run [OF assms(1), of ip n e] assms(2-5) by auto
  let ?D = "get_dinode (blk d t n) ?k"
  have D: "same_dinode ?D (dinode_of x)" using get_put_dinode(1) [OF assms(6) k] by (simp add: t(3))
  then have "d_type ?D \<noteq> 0" using assms(7) by (simp add: same_dinode_def dinode_of_def)
  moreover note f = tx_frame_fs [OF t(4)]
  moreover have "\<not> sl_locked (slocks t (InodeSl jp))" using f(4) assms(14) by simp
  ultimately obtain u where u: "ilock jp t e = (Ret (), u, e)" "bview_of d {} u = bview_of d {} t" "inodes u = (inodes t)(jp := (load_dinode ?D y)\<lparr>i_valid := True\<rparr>)"
    using ilock_run [OF tx_ready [OF t(2)], of jp y e] assms(4,8,10-13) by auto
  have "same_dinode (dinode_of (inodes u jp)) (dinode_of x)" using D by (simp add: u(3) same_dinode_def dinode_of_def load_dinode_def)
  moreover have "same_dinode (get_dinode (blk d u n) j) (get_dinode (blk d s n) j)" if "j < 16" "j \<noteq> ?k" for j
    using get_put_dinode(2) [OF assms(6) k that] by (simp add: bview_blk [OF u(2)] t(3))
  ultimately show ?thesis using t(1) u(1,3) by auto
qed

definition demo_ifs :: fs_state where
  "demo_ifs = demo_fs\<lparr>log_outstanding := 1, inodes := (inodes demo_fs)(5 := demo_inode\<lparr>i_valid := False, i_type := 0, i_size := 3\<rparr>)\<rparr>"

theorem iupdate_ilock_witness:
  "\<exists>t u. iupdate 2 demo_ifs [] = (Ret (), t, []) \<and> ilock 5 t [] = (Ret (), u, []) \<and> i_size (inodes u 5) = 1500 \<and> i_type (inodes u 5) = 2"
proof -
  let ?s = demo_ifs
  have c: "bufs ?s = bufs calm_bio" "calm {} ?s" "\<And>k. \<not> sl_locked (slocks ?s k)"
    by (simp_all add: demo_ifs_def demo_fs_def)
  have l: "lh_n ?s = 0" "log_start ?s = 2" "log_outstanding ?s = 1"
    by (simp_all add: demo_ifs_def demo_fs_def calm_defs extend_defs fields_defs)
  have i: "inodes ?s 2 = demo_inode" "inodes ?s 5 = demo_inode\<lparr>i_valid := False, i_type := 0, i_size := 3\<rparr>"
    by (simp_all add: demo_ifs_def demo_fs_def)
  have b: "IBLOCK (i_inum demo_inode) (sb ?s) = 33"
    by (simp add: IBLOCK_def demo_inode_def demo_ifs_def demo_fs_def calm_fs_def log_state.extend_def fs_state.fields_def)
  have k: "blk 1 ?s = (\<lambda>n. replicate 1024 (ucast n))" using calm_log_ok(3) [OF c] by (simp add: demo_ifs_def demo_fs_def)
  have "tx 1 (Suc (Suc 28)) ?s" using demo_tx [OF c l] by simp
  moreover have "33 \<notin> log_area (log_start ?s)" using log_area_2 [of 33] l(2) by auto
  ultimately obtain t u where "iupdate 2 ?s [] = (Ret (), t, [])" "ilock 5 t [] = (Ret (), u, [])"
    "same_dinode (dinode_of (inodes u 5)) (dinode_of demo_inode)"
    using iupdate_ilock [of 1 28 ?s 2 demo_inode 33 5 "demo_inode\<lparr>i_valid := False, i_type := 0, i_size := 3\<rparr>" "[]"] i b c(3) k
    by (auto simp: demo_inode_def)
  then show ?thesis by (auto simp: same_dinode_def dinode_of_def demo_inode_def)
qed

end
