(* ===== verification/BitmapProps.thy ===== *)
theory BitmapProps
  imports InodeProps
begin

unbundle bit_operations_syntax

text \<open>
  The free bitmap: \<open>balloc\<close> takes the first block whose bit is clear, sets the bit and zeroes the block;
  \<open>bfree\<close> clears the bit of a block that is in use.
\<close>

definition used :: "uint \<Rightarrow> 'a fs_state_scheme \<Rightarrow> uint \<Rightarrow> bool" where
  "used d s b = (let k = unat (b mod BPB) in bit (blk d s (BBLOCK b (sb s)) ! (k div 8)) (k mod 8))"

text \<open>The bitmap covers the disk, and the blocks of the log and of the bitmap itself are in use.\<close>

definition bitmap_ok :: "uint \<Rightarrow> 'a fs_state_scheme \<Rightarrow> bool" where
  "bitmap_ok d s \<longleftrightarrow> (\<forall>b < sb_size (sb s). let n = BBLOCK b (sb s) in
      n < sb_size (sb s) \<and> n \<notin> log_area (log_start s) \<and> length (blk d s n) = BSIZE \<and> used d s n) \<and>
     (\<forall>n\<in>log_area (log_start s). n < sb_size (sb s) \<and> used d s n)"

lemma bmask_one: "bit (bmask i) j \<longleftrightarrow> j = i mod 8"
proof -
  have "i mod 8 < 8" by simp
  then show ?thesis by (auto simp: bmask_def bit_exp_iff)
qed

lemma bmask_clear: "x AND bmask i = 0 \<longleftrightarrow> \<not> bit x (i mod 8)" for x :: uchar
proof
  assume "x AND bmask i = 0"
  then have "\<not> bit (x AND bmask i) (i mod 8)" by simp
  then show "\<not> bit x (i mod 8)" by (simp add: bit_and_iff bmask_one)
next
  assume "\<not> bit x (i mod 8)"
  then show "x AND bmask i = 0" by (intro bit_word_eqI) (auto simp: bit_and_iff bmask_one)
qed

lemma bmask_bit: "bit (x OR bmask i) j = (j = i mod 8 \<or> bit x j)" "bit (x AND NOT (bmask i)) j = (j \<noteq> i mod 8 \<and> bit x j)" for x :: uchar
  by (auto simp: bit_or_iff bit_and_iff bit_not_iff bmask_one dest: bit_imp_le_length)

text \<open>Setting or clearing one bit of a bitmap block.\<close>

lemma bitmap_update:
  fixes xs :: "uchar list"
  assumes "length xs = BSIZE" "i < 8192" "j < 8192"
  shows "bit (xs[i div 8 := xs ! (i div 8) OR bmask i] ! (j div 8)) (j mod 8) = (j = i \<or> bit (xs ! (j div 8)) (j mod 8))"
    and "bit (xs[i div 8 := xs ! (i div 8) AND NOT (bmask i)] ! (j div 8)) (j mod 8) = (j \<noteq> i \<and> bit (xs ! (j div 8)) (j mod 8))"
proof -
  have l: "i div 8 < length xs" using assms by simp
  have e: "j = i \<longleftrightarrow> j div 8 = i div 8 \<and> j mod 8 = i mod 8" by (metis div_mult_mod_eq)
  show "bit (xs[i div 8 := xs ! (i div 8) OR bmask i] ! (j div 8)) (j mod 8) = (j = i \<or> bit (xs ! (j div 8)) (j mod 8))"
    using l by (auto simp: nth_list_update e bmask_bit)
  show "bit (xs[i div 8 := xs ! (i div 8) AND NOT (bmask i)] ! (j div 8)) (j mod 8) = (j \<noteq> i \<and> bit (xs ! (j div 8)) (j mod 8))"
    using l by (auto simp: nth_list_update e bmask_bit)
qed

text \<open>The bit number of a block within its bitmap block, and the blocks of one bitmap block.\<close>

lemma bitno_less: "unat (b mod BPB) < 8192"
  using word_mod_less_divisor [of 8192 b] by (simp add: word_less_nat_alt)

lemma bitno_eq: "b div BPB = c div BPB \<Longrightarrow> unat (b mod BPB) = unat (c mod BPB) \<Longrightarrow> b = c" for b c :: uint
  by (metis word_unat_eq_iff word_mod_div_equality)

lemma BBLOCK_eq: "BBLOCK b x = BBLOCK c x \<longleftrightarrow> b div BPB = c div BPB"
  by (simp add: BBLOCK_def)

lemma used_update:
  assumes "length (blk d s (BBLOCK b (sb s))) = BSIZE" "i = unat (b mod BPB)" "sb t = sb s" "x = blk d s (BBLOCK b (sb s))"
    and "blk d t (BBLOCK c (sb s)) = ((blk d s)(BBLOCK b (sb s) := y)) (BBLOCK c (sb s))"
  shows "y = x[i div 8 := x ! (i div 8) OR bmask i] \<Longrightarrow> used d t c = (c = b \<or> used d s c)"
    and "y = x[i div 8 := x ! (i div 8) AND NOT (bmask i)] \<Longrightarrow> used d t c = (c \<noteq> b \<and> used d s c)"
proof -
  have "(y = x[i div 8 := x ! (i div 8) OR bmask i] \<longrightarrow> used d t c = (c = b \<or> used d s c)) \<and>
    (y = x[i div 8 := x ! (i div 8) AND NOT (bmask i)] \<longrightarrow> used d t c = (c \<noteq> b \<and> used d s c))"
  proof (cases "c div BPB = b div BPB")
    case True
    then have q: "BBLOCK c (sb s) = BBLOCK b (sb s)" "c = b \<longleftrightarrow> unat (c mod BPB) = i" using bitno_eq [OF True] assms(2) by (auto simp: BBLOCK_eq)
    note u = bitmap_update [of x i "unat (c mod BPB)"]
    show ?thesis using u assms bitno_less [of b] bitno_less [of c] unfolding used_def Let_def assms(3) q by simp
  next
    case False
    then show ?thesis using assms by (auto simp: used_def BBLOCK_eq)
  qed
  then show "y = x[i div 8 := x ! (i div 8) OR bmask i] \<Longrightarrow> used d t c = (c = b \<or> used d s c)"
    "y = x[i div 8 := x ! (i div 8) AND NOT (bmask i)] \<Longrightarrow> used d t c = (c \<noteq> b \<and> used d s c)" by blast+
qed

section \<open>Freeing\<close>

lemma used_raw: "used d s b \<longleftrightarrow> (let k = unat (b mod BPB) in blk d s (BBLOCK b (sb s)) ! (k div 8) AND bmask k \<noteq> 0)"
  by (simp add: used_def Let_def bmask_clear)

lemma bfree_run:
  assumes "tx d (Suc k) s" "bitmap_ok d s" "b < sb_size (sb s)"
  shows "used d s b \<Longrightarrow> \<exists>t. bfree d b s e = (Ret (), t, e) \<and> tx d k t \<and> tx_frame s t \<and>
      (\<forall>c. used d t c = (c \<noteq> b \<and> used d s c)) \<and> (\<forall>n. n \<noteq> BBLOCK b (sb s) \<longrightarrow> blk d t n = blk d s n) \<and>
      length (blk d t (BBLOCK b (sb s))) = BSIZE"
    and "\<not> used d s b \<Longrightarrow> fst (bfree d b s e) = Panic ''freeing free block''"
proof -
  let ?n = "BBLOCK b (sb s)" let ?i = "unat (b mod BPB)" let ?x = "blk d s ?n"
  let ?y = "?x[?i div 8 := ?x ! (?i div 8) AND NOT (bmask ?i)]"
  have n: "?n \<notin> log_area (log_start s)" "length ?x = BSIZE" using assms(2,3) by (auto simp: bitmap_ok_def Let_def)
  obtain h t where t: "bread d ?n s e = (Ret h, t, e)" "bs_ok d {h} t" "bview_of d {h} t = bview_of d {} s" "bnum t h = ?n" "bio_frame s t"
    using bs_bread [OF tx_bs [OF assms(1)], of ?n e] tx_roomy [OF assms(1), of ?n] by auto
  have dt: "b_data (bufs t h) = ?x" using held_data [of d "{h}" t h] t(2,4) bview_blk [OF t(3)] by (simp add: bs_ok_def)
  have run: "bfree d b s e = (if ?x ! (?i div 8) AND bmask ?i = 0 then kpanic ''freeing free block''
      else kseq [kmod (set_data h ?y), log_write h, brelse h]) t e"
    by (simp add: bfree_def kbind_Ret t(1) dt Let_def)
  show "fst (bfree d b s e) = Panic ''freeing free block''" if "\<not> used d s b"
    using that by (simp add: run used_raw Let_def kpanic_run)
  assume u: "used d s b"
  obtain w where w: "kseq [kmod (set_data h ?y), log_write h, brelse h] t e = (Ret (), w, e)" "tx d k w" "blk d w = (blk d s)(?n := ?y)" "tx_frame s w"
    using tx_store [OF assms(1) n(1) t(2-5), of ?y e] by blast
  have "sb w = sb s" using tx_frame_fs(2) [OF w(4)] .
  then have "used d w c = (c \<noteq> b \<and> used d s c)" for c
    using used_update(2) [OF n(2) refl _ refl, of w c ?y] w(3) by simp
  then show "\<exists>t. bfree d b s e = (Ret (), t, e) \<and> tx d k t \<and> tx_frame s t \<and>
      (\<forall>c. used d t c = (c \<noteq> b \<and> used d s c)) \<and> (\<forall>n. n \<noteq> ?n \<longrightarrow> blk d t n = blk d s n) \<and> length (blk d t ?n) = BSIZE"
    using u w n(2) by (intro exI [of _ w]) (simp add: run used_raw Let_def)
qed

section \<open>Allocating\<close>

lemma takeWhile_upt: "(\<And>i. i < n \<Longrightarrow> P i \<longleftrightarrow> i < m) \<Longrightarrow> takeWhile P [0..<n] = [0..<min n m]"
proof -
  assume h: "\<And>i. i < n \<Longrightarrow> P i \<longleftrightarrow> i < m"
  have e: "[0..<n] = [0..<min n m] @ [min n m..<n]" using upt_add_eq_append [of 0 "min n m" "n - min n m"] by simp
  have "takeWhile P ([0..<min n m] @ [min n m..<n]) = [0..<min n m] @ takeWhile P [min n m..<n]"
    by (rule takeWhile_append2) (use h in auto)
  moreover have "takeWhile P [min n m..<n] = []" using h [of m] by (cases "min n m < n") (auto simp: upt_conv_Cons min_def split: if_splits)
  ultimately show ?thesis using e by simp
qed

lemma free_bit_spec:
  assumes "unat b + 8192 < 2 ^ 32"
  shows "free_bit data b lim = Some i \<Longrightarrow> i < 8192 \<and> unat b + i < unat lim \<and> \<not> bit (data ! (i div 8)) (i mod 8) \<and>
      (\<forall>j<i. bit (data ! (j div 8)) (j mod 8))"
    and "free_bit data b lim = None \<Longrightarrow> j < 8192 \<Longrightarrow> unat b + j < unat lim \<Longrightarrow> bit (data ! (j div 8)) (j mod 8)"
proof -
  have "takeWhile (\<lambda>bi. b + of_nat bi < lim) [0..<8192] = [0..<min 8192 (unat lim - unat b)]"
    using assms by (intro takeWhile_upt) (auto simp: word_less_nat_alt unat_word_ariths unat_of_nat)
  then have f: "free_bit data b lim = List.find (\<lambda>bi. \<not> bit (data ! (bi div 8)) (bi mod 8)) [0..<min 8192 (unat lim - unat b)]"
    by (simp add: free_bit_def bmask_clear)
  show "free_bit data b lim = Some i \<Longrightarrow> i < 8192 \<and> unat b + i < unat lim \<and> \<not> bit (data ! (i div 8)) (i mod 8) \<and>
      (\<forall>j<i. bit (data ! (j div 8)) (j mod 8))"
    unfolding f find_Some_iff by auto
  show "free_bit data b lim = None \<Longrightarrow> j < 8192 \<Longrightarrow> unat b + j < unat lim \<Longrightarrow> bit (data ! (j div 8)) (j mod 8)"
    unfolding f find_None_iff by auto
qed

text \<open>Block \<open>8192 q + j\<close> is bit \<open>j\<close> of the bitmap block of block \<open>8192 q\<close>.\<close>

lemma block_pos:
  fixes q j :: nat
  assumes "8192 * q + j < 2 ^ 32" "j < 8192"
  defines "c \<equiv> of_nat (8192 * q) + (of_nat j :: uint)"
  shows "unat c = 8192 * q + j" "unat (c mod BPB) = j" "BBLOCK c x = BBLOCK (of_nat (8192 * q)) x"
proof -
  show u: "unat c = 8192 * q + j" unfolding c_def of_nat_add [symmetric] by (rule unat_of_nat_less) (use assms(1) in simp)
  show "unat (c mod BPB) = j" using assms(2) by (simp add: unat_mod_distrib u)
  have "unat (of_nat (8192 * q) :: uint) = 8192 * q" using assms(1) by (intro unat_of_nat_less) simp
  then have "unat (c div BPB) = unat ((of_nat (8192 * q) :: uint) div BPB)" using assms(2) u by (simp only: unat_div_distrib) simp
  then have "c div BPB = of_nat (8192 * q) div BPB" by (simp only: word_unat_eq_iff)
  then show "BBLOCK c x = BBLOCK (of_nat (8192 * q)) x" by (simp add: BBLOCK_eq)
qed

lemma unat_split: "\<exists>q j. unat c = 8192 * q + j \<and> j < 8192 \<and> c = of_nat (8192 * q) + of_nat j" for c :: uint
  by (intro exI [of _ "unat c div 8192"] exI [of _ "unat c mod 8192"]) (simp add: of_nat_add [symmetric] del: of_nat_add of_nat_mult)

text \<open>The blocks whose buffers are held are in use and not part of the bitmap.\<close>

definition held_used :: "uint \<Rightarrow> nat set \<Rightarrow> 'a fs_state_scheme \<Rightarrow> bool" where
  "held_used d H s \<longleftrightarrow> (\<forall>g\<in>H. used d s (bnum s g) \<and> (\<forall>c < sb_size (sb s). bnum s g \<noteq> BBLOCK c (sb s)))"

lemma held_bitmap:
  assumes "held_used d H s" "c < sb_size (sb s)" shows "BBLOCK c (sb s) \<notin> bnum s ` H"
proof
  assume "BBLOCK c (sb s) \<in> bnum s ` H"
  then obtain g where "g \<in> H" "bnum s g = BBLOCK c (sb s)" by auto
  then show False using assms unfolding held_used_def by blast
qed

definition allocated :: "uint \<Rightarrow> nat set \<Rightarrow> nat \<Rightarrow> 'a fs_state_scheme \<Rightarrow> uint \<Rightarrow> 'a fs_state_scheme \<Rightarrow> bool" where
  "allocated d H k s b t \<longleftrightarrow> b < sb_size (sb s) \<and> \<not> used d s b \<and> (\<forall>c<b. used d s c) \<and>
     (\<forall>c < sb_size (sb s). used d t c = (c = b \<or> used d s c)) \<and> blk d t b = replicate BSIZE 0 \<and>
     (\<forall>n. n \<noteq> b \<and> n \<noteq> BBLOCK b (sb s) \<longrightarrow> blk d t n = blk d s n) \<and> txh d H k t \<and> tx_frame s t \<and> bitmap_ok d t \<and>
     (\<forall>g\<in>H. bnum t g = bnum s g)"

lemma balloc_found:
  assumes "txh d H (Suc (Suc k)) s" "bitmap_ok d s" "held_used d H s" "b < sb_size (sb s)" "\<not> used d s b" "\<forall>c<b. used d s c"
    and t: "h \<notin> H" "bs_ok d (insert h H) t" "bview_of d (insert h H) t = bview_of d H s" "bnum t h = BBLOCK b (sb s)" "bio_frame s t" "\<forall>g\<in>H. bnum t g = bnum s g"
    and i: "i = unat (b mod BPB)" "x = blk d s (BBLOCK b (sb s))"
  shows "\<exists>w. kseq [kmod (set_data h (x[i div 8 := x ! (i div 8) OR bmask i])), log_write h, brelse h, bzero d b] t e = (Ret (), w, e) \<and> allocated d H k s b w"
proof -
  let ?n = "BBLOCK b (sb s)" let ?y = "x[i div 8 := x ! (i div 8) OR bmask i]"
  have n: "?n \<notin> log_area (log_start s)" "length x = BSIZE" "used d s ?n" using assms(2,4) i(2) by (auto simp: bitmap_ok_def Let_def)
  have bn: "b \<noteq> ?n" "b \<notin> log_area (log_start s)" using assms(2,5) n(3) by (auto simp: bitmap_ok_def)
  obtain v where v: "kseq [kmod (set_data h ?y), log_write h, brelse h] t e = (Ret (), v, e)" "txh d H (Suc k) v" "blk d v = (blk d s)(?n := ?y)" "tx_frame s v" "bnum v = bnum t"
    using txh_store [OF assms(1) n(1) t(1-5), of ?y e] by blast
  have hv: "\<forall>g\<in>H. bnum v g = bnum s g" using t(6) fun_cong [OF v(5)] by simp
  then have bh: "b \<notin> bnum v ` H" using assms(3,5) by (auto simp: held_used_def)
  note fv = tx_frame_facts [OF v(4)] tx_frame_fs [OF v(4)]
  obtain w where w: "bzero d b v e = (Ret (), w, e)" "txh d H k w" "blk d w = (blk d v)(b := replicate BSIZE 0)" "tx_frame v w" "\<forall>g\<in>H. bnum w g = bnum v g"
    using bzero_run [OF v(2) _ bh, of e] bn(2) fv(1) by auto
  have f: "tx_frame s w" using tx_frame_trans [OF v(4) w(4)] .
  note fw = tx_frame_facts [OF f] tx_frame_fs [OF f]
  have bb: "BBLOCK c (sb s) \<noteq> b" if "c < sb_size (sb s)" for c using assms(2,5) that by (auto simp: bitmap_ok_def Let_def)
  have u: "used d w c = (c = b \<or> used d s c)" if "c < sb_size (sb s)" for c
    using used_update(1) [of d s b i w x c ?y] n(2) i fw(8) w(3) v(3) bb [OF that] by (auto simp: fun_upd_def)
  have "length (blk d w (BBLOCK c (sb s))) = BSIZE" if "c < sb_size (sb s)" for c
    using assms(2) that w(3) v(3) n(2) bb [OF that] i(2) by (auto simp: bitmap_ok_def Let_def)
  then have "bitmap_ok d w" using assms(2) u fw by (auto simp: bitmap_ok_def Let_def)
  then have "allocated d H k s b w" using assms(4-6) u w(2,3,5) v(3) f hv by (auto simp: allocated_def)
  moreover have "kseq [kmod (set_data h ?y), log_write h, brelse h, bzero d b] t e = (Ret (), w, e)"
  proof -
    have "kseq [kmod (set_data h ?y), log_write h, brelse h, bzero d b] t e =
        kbind (kseq [kmod (set_data h ?y), log_write h, brelse h]) (\<lambda>_. kseq [bzero d b]) t e"
      by (simp add: kbind_assoc)
    moreover have "kbind (kseq [kmod (set_data h ?y), log_write h, brelse h]) (\<lambda>_. kseq [bzero d b]) t e = kseq [bzero d b] v e"
      by (rule kbind_Ret) (rule v(1))
    moreover have "kseq [bzero d b] v e = (Ret (), w, e)" by (simp add: kbind_Ret w(1) kret_run)
    ultimately show ?thesis by (simp only:)
  qed
  ultimately show ?thesis by blast
qed

text \<open>Looking at a block and releasing it, while other buffers are held.\<close>

lemma read_release:
  assumes "txh d H (Suc k) s" "n \<notin> bnum s ` H"
    and t: "h \<notin> H" "bs_ok d (insert h H) t" "bview_of d (insert h H) t = bview_of d H s" "bnum t h = n" "bio_frame s t" "\<forall>g\<in>H. bnum t g = bnum s g"
  shows "\<exists>u. brelse h t e = (Ret (), u, e) \<and> txh d H (Suc k) u \<and> tx_frame s u \<and> blk d u = blk d s \<and> (\<forall>g\<in>H. bnum u g = bnum s g)"
proof -
  have "settled (bview_of d H s) n" by (rule settled_other) (use txh_bs [OF assms(1)] assms(2) in \<open>simp_all add: bs_ok_def\<close>)
  then have "settled (bview_of d (insert h H) t) (bnum t h)" by (simp only: t(3,4))
  then obtain u where u: "brelse h t e = (Ret (), u, e)" "bs_ok d H u" "bio_frame t u" "bview_of d H u = bview_of d H s" "bnum u = bnum t"
    using bs_brelse [OF t(2) insertI1, of e] t(1,3) by auto
  have fr: "bio_frame s u" using bio_frame_trans [OF t(5) u(3)] .
  note v = bview_eqD [OF u(4)]
  have l: "same_log s u" by (rule frame_log [OF fr])
  have h: "header u = header s" using l by (simp add: header_def same_log_def)
  have "txh d H (Suc k) u" using assms(1) u(2) l v by (auto simp: txh_def log_inv_def bs_ok_def h same_log_def)
  moreover have "tx_frame s u" using tx_frame_bio [OF fr] v by blast
  ultimately show ?thesis using u(1) v t(6) fun_cong [OF u(5)] by auto
qed

lemma balloc_loop:
  fixes s :: "'a fs_state_scheme"
  assumes "txh d H (Suc (Suc k)) s" "bitmap_ok d s" "unat (sb_size (sb s)) + 8192 < 2 ^ 32" "c < sb_size (sb s)" "\<not> used d s c"
    and "8192 * q \<le> unat c" "\<forall>x. unat x < 8192 * q \<longrightarrow> used d s x" "held_used d H s"
  shows "\<exists>b t. kloop (balloc_round d) (of_nat (8192 * q)) s e = (Ret b, t, e) \<and> allocated d H k s b t"
  using assms
proof (induction "unat c div 8192 - q" arbitrary: q s rule: less_induct)
  case less
  define b where "b = (of_nat (8192 * q) :: uint)"
  let ?n = "BBLOCK b (sb s)" let ?x = "blk d s ?n"
  have c: "unat c < unat (sb_size (sb s))" using less.prems(4) by (simp add: word_less_nat_alt)
  have q: "8192 * q + j < 2 ^ 32" if "j < 8192" for j using that less.prems(3,6) c by linarith
  note pos = block_pos [of q, folded b_def]
  have ub: "unat b = 8192 * q" using pos(1) [of 0] q [of 0] by simp
  have b: "b < sb_size (sb s)" "unat b + 8192 < 2 ^ 32" using less.prems(3,6) c by (simp_all only: word_less_nat_alt ub)
  have us: "used d s (b + of_nat j) = bit (?x ! (j div 8)) (j mod 8)" if "j < 8192" for j
    using pos(2,3) [OF q [OF that] that] by (simp add: used_def Let_def)
  have at: "\<exists>j<m. x = b + of_nat j \<and> unat x = 8192 * q + j" if "8192 * q \<le> unat x" "unat x < 8192 * q + m" "m \<le> 8192" for x m
  proof -
    define j where "j = unat x - 8192 * q"
    have j: "unat x = 8192 * q + j" and "j < m" "j < 8192" using that unfolding j_def by linarith+
    then have "unat (b + of_nat j) = 8192 * q + j" using pos(1) [OF q] by blast
    then have "x = b + of_nat j" by (simp only: word_unat_eq_iff j)
    then show ?thesis using j \<open>j < m\<close> by blast
  qed
  have nh: "?n \<notin> bnum s ` H" by (rule held_bitmap [OF less.prems(8) b(1)])
  obtain h t where r: "bread d ?n s e = (Ret h, t, e)" and t: "h \<notin> H" "bs_ok d (insert h H) t" "bview_of d (insert h H) t = bview_of d H s" "bnum t h = ?n" "bio_frame s t"
      "\<forall>g\<in>H. bnum t g = bnum s g"
    using bs_bread [OF txh_bs [OF less.prems(1)] nh txh_roomy [OF less.prems(1)], of e] by blast
  have dt: "b_data (bufs t h) = ?x" using held_data [of d "insert h H" t h] t(2,4) bview_blk [OF t(3)] by (simp add: bs_ok_def)
  show ?case
  proof (cases "free_bit ?x b (sb_size (sb s))")
    case (Some i)
    note fs = free_bit_spec(1) [OF b(2) Some]
    let ?a = "b + of_nat i"
    have i: "i < 8192" and p: "unat ?a = 8192 * q + i" "unat (?a mod BPB) = i" "BBLOCK ?a (sb s) = ?n"
      using fs pos [OF q, of i] by auto
    have a: "?a < sb_size (sb s)" "\<not> used d s ?a" using fs us [OF i] by (auto simp: word_less_nat_alt p(1) ub)
    have "used d s x" if xa: "x < ?a" for x
    proof (cases "unat x < 8192 * q")
      case False
      then obtain j where "j < i" "x = b + of_nat j" using at [of x i] xa i by (auto simp: word_less_nat_alt p(1))
      then show ?thesis using fs us [of j] i by auto
    qed (use less.prems(7) in blast)
    then obtain w where "kseq [kmod (set_data h (?x[i div 8 := ?x ! (i div 8) OR bmask i])), log_write h, brelse h, bzero d ?a] t e = (Ret (), w, e)"
      "allocated d H k s ?a w"
      using balloc_found [OF less.prems(1,2,8) a _ t(1-3) _ t(5,6), of i ?x e] t(4) p by auto
    moreover from this(1) have "balloc_round d b s e = (Ret (Inr ?a), w, e)"
      using b(1) by (simp add: balloc_round_def kbind_Ret r dt Some kret_run del: kseq.simps)
    ultimately show ?thesis using kloop_step_Inr [of "balloc_round d"] unfolding b_def by blast
  next
    case None
    have ne: "8192 * q + 8192 \<le> unat c"
    proof (rule ccontr)
      assume "\<not> ?thesis"
      then obtain j where j: "unat c = 8192 * q + j" "j < 8192" "c = b + of_nat j" using less.prems(6) at [of c 8192] by auto
      then show False using free_bit_spec(2) [OF b(2) None j(2)] us [OF j(2)] less.prems(5) c j by (simp add: ub)
    qed
    obtain u where u: "brelse h t e = (Ret (), u, e)" "txh d H (Suc (Suc k)) u" "tx_frame s u" "blk d u = blk d s" "\<forall>g\<in>H. bnum u g = bnum s g"
      using read_release [OF less.prems(1) nh t, of e] by blast
    note g = u(4)
    note ff = tx_frame_fs [OF u(3)] tx_frame_facts [OF u(3)]
    have uu: "used d u = used d s" by (simp add: used_def g ff fun_eq_iff)
    have bo: "bitmap_ok d u = bitmap_ok d s" by (simp add: bitmap_ok_def g ff uu)
    have hu: "held_used d H u" using less.prems(8) u(5) by (simp add: held_used_def uu ff)
    have "\<forall>x. unat x < 8192 * Suc q \<longrightarrow> used d s x"
    proof (intro allI impI)
      fix x :: uint assume x: "unat x < 8192 * Suc q"
      show "used d s x"
      proof (cases "unat x < 8192 * q")
        case False
        then obtain j where j: "unat x = 8192 * q + j" "j < 8192" "x = b + of_nat j" using x at [of x 8192] by auto
        then show ?thesis using free_bit_spec(2) [OF b(2) None j(2)] us [OF j(2)] ne c j by (simp add: ub)
      qed (use less.prems(7) in blast)
    qed
    moreover have "q < unat c div 8192" using ne by linarith
    then have "unat c div 8192 - Suc q < unat c div 8192 - q" by linarith
    ultimately obtain a w where "kloop (balloc_round d) (of_nat (8192 * Suc q)) u e = (Ret a, w, e)" "allocated d H k u a w"
      using less.hyps [of "Suc q" u] ne u(2) bo hu less.prems(2-5) uu ff by auto
    moreover have "balloc_round d b s e = (Ret (Inl (of_nat (8192 * Suc q))), u, e)"
      using b(1) by (simp add: balloc_round_def kbind_Ret r dt None kret_run u(1)) (simp add: b_def add.commute)
    moreover have "allocated d H k u a w \<Longrightarrow> allocated d H k s a w" using tx_frame_trans [OF u(3)] u(5) by (auto simp: allocated_def uu ff g)
    ultimately show ?thesis using kloop_step_Inl [of "balloc_round d"] unfolding b_def by blast
  qed
qed

lemma balloc_run:
  fixes s :: "'a fs_state_scheme"
  assumes "txh d H (Suc (Suc k)) s" "bitmap_ok d s" "unat (sb_size (sb s)) + 8192 < 2 ^ 32" "held_used d H s" "c < sb_size (sb s)" "\<not> used d s c"
  shows "\<exists>b t. balloc d s e = (Ret b, t, e) \<and> allocated d H k s b t"
proof -
  obtain b t where r: "kloop (balloc_round d) (of_nat (8192 * 0)) s e = (Ret b, t, e)" and a: "allocated d H k s b t"
    using balloc_loop [OF assms(1-3,5,6), of 0 e] assms(4) by auto
  then show ?thesis by (intro exI [of _ b] exI [of _ t]) (simp add: balloc_def)
qed

section \<open>Properties\<close>

text \<open>
  C7: \<open>balloc\<close> is first fit and never hands out a block twice.  Inside a transaction with room for two
  more blocks, and with a free block on the disk, it returns the lowest-numbered block whose bit was
  clear; afterwards that bit is set and no other bit of the bitmap has changed, the block is zero, and
  every block other than it and its bitmap block has its old contents.
\<close>

theorem balloc_first_fit:
  fixes s :: "'a fs_state_scheme"
  assumes "tx d (Suc (Suc k)) s" "bitmap_ok d s" "unat (sb_size (sb s)) + 8192 < 2 ^ 32" "c < sb_size (sb s)" "\<not> used d s c"
  shows "\<exists>b t. balloc d s e = (Ret b, t, e) \<and> b \<le> c \<and> \<not> used d s b \<and> (\<forall>x<b. used d s x) \<and>
    (\<forall>x < sb_size (sb s). used d t x = (x = b \<or> used d s x)) \<and> blk d t b = replicate BSIZE 0 \<and>
    (\<forall>n. n \<noteq> b \<and> n \<noteq> BBLOCK b (sb s) \<longrightarrow> blk d t n = blk d s n) \<and> bitmap_ok d t \<and> tx d k t"
proof -
  obtain b t where r: "balloc d s e = (Ret b, t, e)" and a: "allocated d {} k s b t"
    using balloc_run [of d "{}" k s c e] assms by (auto simp: txh_empty held_used_def)
  have "b \<le> c" using a assms(5) by (meson allocated_def not_le)
  then show ?thesis using r a by (intro exI [of _ b] exI [of _ t]) (simp add: allocated_def txh_empty)
qed

text \<open>
  C17: \<open>bfree\<close> clears exactly the bit of the block it is given and changes no other block than the
  bitmap's; freeing a block that is free, a double free, panics.
\<close>

theorem bfree_clears:
  fixes s :: "'a fs_state_scheme"
  assumes "tx d (Suc k) s" "bitmap_ok d s" "b < sb_size (sb s)"
  shows "(used d s b \<longrightarrow> (\<exists>t. bfree d b s e = (Ret (), t, e) \<and> tx d k t \<and> (\<forall>c. used d t c = (c \<noteq> b \<and> used d s c)) \<and>
      (\<forall>n. n \<noteq> BBLOCK b (sb s) \<longrightarrow> blk d t n = blk d s n))) \<and>
    (\<not> used d s b \<longrightarrow> fst (bfree d b s e) = Panic ''freeing free block'')"
  using bfree_run [OF assms, of e] by blast

text \<open>A disk of 2000 blocks of which the first 64 are in use.\<close>

definition demo_bfs :: fs_state where
  "demo_bfs = demo_ifs\<lparr>disk := (disk demo_ifs)(46 := replicate 8 255 @ replicate 1016 0)\<rparr>"

lemma demo_bitmap:
  assumes c: "bufs s = bufs calm_bio" "calm {} s" "\<And>k. \<not> sl_locked (slocks s k)"
    and l: "lh_n s = 0" "log_start s = 2" "log_outstanding s = 1"
    and d: "disk s = disk demo_bfs" "sb s = sb demo_bfs"
  shows "tx 1 LOGBLOCKS s" "bitmap_ok 1 s" "sb_size (sb s) = 2000" "c < 2000 \<Longrightarrow> used 1 s c = (c < 64)" "c < 2000 \<Longrightarrow> BBLOCK c (sb s) = 46"
    "blk 1 s = (\<lambda>n. replicate 1024 (ucast n))(46 := replicate 8 255 @ replicate 1016 0)"
proof -
  let ?s = s
  show "tx 1 LOGBLOCKS ?s" using demo_tx [OF c l] .
  have b: "blk 1 ?s = (\<lambda>n. replicate 1024 (ucast n))(46 := replicate 8 255 @ replicate 1016 0)"
    using calm_log_ok(3) [OF c] by (simp add: d demo_bfs_def demo_ifs_def demo_fs_def)
  then show "blk 1 ?s = (\<lambda>n. replicate 1024 (ucast n))(46 := replicate 8 255 @ replicate 1016 0)" .
  have sb: "sb_size (sb ?s) = 2000" "sb_bmapstart (sb ?s) = 46"
    by (simp_all add: d demo_bfs_def demo_ifs_def demo_fs_def calm_fs_def log_state.extend_def fs_state.fields_def)
  then show "sb_size (sb ?s) = 2000" by simp
  show n: "BBLOCK c (sb ?s) = 46" if "c < 2000" for c
  proof -
    have "unat (c div 8192) = 0" using that by (simp add: unat_div_distrib word_less_nat_alt)
    then show ?thesis by (simp add: BBLOCK_def sb unat_eq_zero)
  qed
  show u: "used 1 ?s c = (c < 64)" if "c < 2000" for c
  proof -
    have "unat (c mod 8192) = unat c" "unat c < 2000" using that by (simp_all add: unat_mod_distrib word_less_nat_alt)
    moreover have "(255 :: uchar) = mask 8" by (simp add: mask_eq_exp_minus_1)
    then have "bit (255 :: uchar) (k mod 8)" for k by (simp only: bit_mask_iff) simp
    ultimately show ?thesis by (auto simp: used_def Let_def n [OF that] b nth_append word_less_nat_alt)
  qed
  have "n < 2000 \<and> used 1 ?s n" if "n \<in> log_area 2" for n using log_area_2 [OF that] u [of n] by (auto simp: word_less_nat_alt word_le_nat_alt)
  moreover have "46 \<notin> log_area 2" using log_area_2 [of 46] by auto
  ultimately show "bitmap_ok 1 ?s" using u [of 46] by (simp add: bitmap_ok_def sb n l b)
qed

lemma demo_bfs_ok:
  "tx 1 LOGBLOCKS demo_bfs" "bitmap_ok 1 demo_bfs" "sb_size (sb demo_bfs) = 2000" "c < 2000 \<Longrightarrow> used 1 demo_bfs c = (c < 64)"
proof -
  have "bufs demo_bfs = bufs calm_bio" "calm {} demo_bfs" "\<And>k. \<not> sl_locked (slocks demo_bfs k)"
    by (simp_all add: demo_bfs_def demo_ifs_def demo_fs_def)
  moreover have "lh_n demo_bfs = 0" "log_start demo_bfs = 2" "log_outstanding demo_bfs = 1"
    by (simp_all add: demo_bfs_def demo_ifs_def demo_fs_def calm_defs extend_defs fields_defs)
  ultimately show "tx 1 LOGBLOCKS demo_bfs" "bitmap_ok 1 demo_bfs" "sb_size (sb demo_bfs) = 2000" "c < 2000 \<Longrightarrow> used 1 demo_bfs c = (c < 64)"
    by (rule demo_bitmap [OF _ _ _ _ _ _ refl refl], assumption?)+
qed

theorem balloc_first_fit_witness:
  "\<exists>t. balloc 1 demo_bfs [] = (Ret 64, t, []) \<and> used 1 t 64 \<and> \<not> used 1 t 65 \<and> blk 1 t 64 = replicate 1024 0"
proof -
  obtain b t where t: "balloc 1 demo_bfs [] = (Ret b, t, [])" "b \<le> 64" "\<not> used 1 demo_bfs b"
    "\<forall>x<2000. used 1 t x = (x = b \<or> used 1 demo_bfs x)" "blk 1 t b = replicate 1024 0"
    using balloc_first_fit [of 1 28 demo_bfs 64 "[]"] demo_bfs_ok by auto
  have "b < 2000" using t(2) by (rule le_less_trans) simp
  then have "b = 64" using demo_bfs_ok(4) [of b] t(2,3) by auto
  then show ?thesis using t demo_bfs_ok(4) [of 65] by auto
qed

theorem bfree_clears_witness:
  "(\<exists>t. bfree 1 50 demo_bfs [] = (Ret (), t, []) \<and> \<not> used 1 t 50 \<and> used 1 t 51) \<and> fst (bfree 1 100 demo_bfs []) = Panic ''freeing free block''"
  using bfree_clears [of 1 29 demo_bfs 50 "[]"] bfree_clears [of 1 29 demo_bfs 100 "[]"] demo_bfs_ok demo_bfs_ok(4) [of 50] demo_bfs_ok(4) [of 51]
    demo_bfs_ok(4) [of 100] by auto

end
