(* ===== verification/BmapProps.thy ===== *)
theory BmapProps
  imports BitmapProps
begin

unbundle bit_operations_syntax

text \<open>
  The blocks of a file, and how \<open>bmap\<close> adds one at the end: a direct block, or an entry of the indirect block, which is
  itself allocated with the first such entry.
\<close>

section \<open>Where the blocks of a file are\<close>

text \<open>
  The file has exactly \<open>m\<close> blocks: each is a block of its own outside the log, and so is the indirect block if there is
  one; the other addresses are zero.
\<close>

definition file_has :: "uint \<Rightarrow> 'a fs_state_scheme \<Rightarrow> nat \<Rightarrow> nat \<Rightarrow> bool" where
  "file_has d s ip m \<longleftrightarrow> i_dev (inodes s ip) = d \<and> m \<le> MAXFILE \<and> inj_on (faddr d s ip) {..<m} \<and>
     (\<forall>i<m. faddr d s ip i \<noteq> 0 \<and> faddr d s ip i \<notin> log_area (log_start s)) \<and>
     (\<forall>i. m \<le> i \<and> i < NDIRECT \<longrightarrow> i_addrs (inodes s ip) i = 0) \<and>
     (NDIRECT < m \<longrightarrow> i_addrs (inodes s ip) NDIRECT \<noteq> 0) \<and>
     (i_addrs (inodes s ip) NDIRECT \<noteq> 0 \<longrightarrow> i_addrs (inodes s ip) NDIRECT \<notin> faddr d s ip ` {..<m} \<and>
        i_addrs (inodes s ip) NDIRECT \<notin> log_area (log_start s) \<and> (\<forall>i. m \<le> i \<and> NDIRECT \<le> i \<and> i < MAXFILE \<longrightarrow> faddr d s ip i = 0)) \<and>
     (\<forall>n. length (blk d s n) = BSIZE)"

definition fblocks :: "uint \<Rightarrow> 'a fs_state_scheme \<Rightarrow> nat \<Rightarrow> nat \<Rightarrow> uint set" where
  "fblocks d s ip m = faddr d s ip ` {..<m} \<union> (if i_addrs (inodes s ip) NDIRECT = 0 then {} else {i_addrs (inodes s ip) NDIRECT})"

definition bitmap_block :: "'a fs_state_scheme \<Rightarrow> uint \<Rightarrow> bool" where
  "bitmap_block s b \<longleftrightarrow> (\<exists>c < sb_size (sb s). b = BBLOCK c (sb s))"

text \<open>The bitmap is in order, block 0 is not for files, and the blocks in \<open>F\<close> are in use and not of the bitmap.\<close>

definition space_ok :: "uint \<Rightarrow> 'a fs_state_scheme \<Rightarrow> uint set \<Rightarrow> bool" where
  "space_ok d s F \<longleftrightarrow> bitmap_ok d s \<and> unat (sb_size (sb s)) + 8192 < 2 ^ 32 \<and> 0 < sb_size (sb s) \<and> used d s 0 \<and>
     (\<forall>b\<in>F. b < sb_size (sb s) \<and> used d s b \<and> \<not> bitmap_block s b)"

definition nfree :: "uint \<Rightarrow> 'a fs_state_scheme \<Rightarrow> nat" where
  "nfree d s = card {c. c < sb_size (sb s) \<and> \<not> used d s c}"

lemma same_proc_table: "same_proc p q \<Longrightarrow> p_pagetable q = p_pagetable p"
  unfolding same_proc_def by (metis (no_types, lifting) proc.select_convs proc.surjective proc.update_convs)

section \<open>Allocating a block\<close>

text \<open>\<open>b\<close> is a free block of \<open>s\<close> that is allocated and zeroed in \<open>t\<close>; apart from it and the bitmap only blocks in \<open>X\<close> differ.\<close>

definition took :: "uint \<Rightarrow> uint set \<Rightarrow> 'a fs_state_scheme \<Rightarrow> uint \<Rightarrow> 'a fs_state_scheme \<Rightarrow> bool" where
  "took d X s b t \<longleftrightarrow> b \<noteq> 0 \<and> b < sb_size (sb s) \<and> \<not> used d s b \<and> \<not> bitmap_block s b \<and> b \<notin> log_area (log_start s) \<and>
     (\<forall>c < sb_size (sb s). used d t c = (c = b \<or> used d s c)) \<and> blk d t b = replicate BSIZE 0 \<and>
     (\<forall>n. n \<noteq> b \<and> n \<notin> X \<and> \<not> bitmap_block s n \<longrightarrow> blk d t n = blk d s n) \<and> nfree d s = Suc (nfree d t)"

lemma alloc_step:
  fixes s :: "'a fs_state_scheme"
  assumes "txh d H (Suc (Suc k)) s" "space_ok d s F" "\<forall>g\<in>H. bnum s g \<in> F" "0 < nfree d s"
  shows "\<exists>b t. balloc d s e = (Ret b, t, e) \<and> took d {} s b t \<and> txh d H k t \<and> tx_frame s t \<and> space_ok d t (insert b F) \<and> b \<notin> F \<and>
    (\<forall>g\<in>H. bnum t g = bnum s g) \<and> ((\<forall>n. length (blk d s n) = BSIZE) \<longrightarrow> (\<forall>n. length (blk d t n) = BSIZE))"
proof -
  have sp: "bitmap_ok d s" "unat (sb_size (sb s)) + 8192 < 2 ^ 32" "used d s 0" "\<And>b. b \<in> F \<Longrightarrow> b < sb_size (sb s) \<and> used d s b \<and> \<not> bitmap_block s b"
    using assms(2) by (auto simp: space_ok_def)
  have "{c. c < sb_size (sb s) \<and> \<not> used d s c} \<noteq> {}" using assms(4) by (auto simp: nfree_def simp del: Collect_empty_eq)
  then obtain c where c: "c < sb_size (sb s)" "\<not> used d s c" by blast
  have "held_used d H s" using assms(3) sp(4) by (auto simp: held_used_def bitmap_block_def)
  from balloc_run [OF assms(1) sp(1,2) this c, of e] obtain b t where r: "balloc d s e = (Ret b, t, e)" and a: "allocated d H k s b t" by blast
  have f: "tx_frame s t" and sb: "sb t = sb s" and ls: "log_start t = log_start s" using a tx_frame_fs(2) [of s t] tx_frame_facts(1) [of s t] by (auto simp: allocated_def)
  have b: "b < sb_size (sb s)" "\<not> used d s b" "\<And>c. c < sb_size (sb s) \<Longrightarrow> used d t c = (c = b \<or> used d s c)" "blk d t b = replicate 1024 0"
    "\<And>n. n \<noteq> b \<Longrightarrow> n \<noteq> BBLOCK b (sb s) \<Longrightarrow> blk d t n = blk d s n" "bitmap_ok d t" using a by (auto simp: allocated_def)
  have bb: "\<not> bitmap_block s b" "bitmap_block s (BBLOCK b (sb s))" using sp(1) b(1,2) by (auto simp: bitmap_ok_def bitmap_block_def Let_def)
  have bl: "b \<notin> log_area (log_start s)" "b \<noteq> 0" using sp(1,3) b(2) by (auto simp: bitmap_ok_def)
  have "{c. c < sb_size (sb s) \<and> \<not> used d t c} = {c. c < sb_size (sb s) \<and> \<not> used d s c} - {b}" using b(3) by blast
  then have nf: "nfree d s = Suc (nfree d t)" by (simp only: nfree_def sb, intro card.remove) (simp_all add: b(1,2))
  have "0 < sb_size (sb s)" using b(1) by (cases "sb_size (sb s) = 0") (simp_all add: word_gt_0)
  with sp have "space_ok d t (insert b F)" using b(1,3,6) bb(1) unfolding space_ok_def bitmap_block_def sb by blast
  moreover have "took d {} s b t" using nf b bb bl by (auto simp: took_def)
  moreover have "length (blk d t n) = BSIZE" if "\<forall>n. length (blk d s n) = BSIZE" for n
    using that b(1,4,5) b(6) by (cases "n = b \<or> n = BBLOCK b (sb s)") (auto simp: bitmap_ok_def Let_def sb)
  ultimately show ?thesis using r a f sp(4) b(2) by (auto simp: allocated_def)
qed

section \<open>Files that grow\<close>

definition ext_frame :: "nat \<Rightarrow> 'a fs_state_scheme \<Rightarrow> 'a fs_state_scheme \<Rightarrow> bool" where
  "ext_frame ip s t \<longleftrightarrow> tx_frame (s\<lparr>inodes := inodes t\<rparr>) t \<and> (\<exists>A. inodes t = (inodes s)(ip := (inodes s ip)\<lparr>i_addrs := A\<rparr>))"

lemma tx_frame_inodes:
  assumes "tx_frame s t" shows "tx_frame (s\<lparr>inodes := f\<rparr>) (t\<lparr>inodes := f\<rparr>)"
proof -
  have t: "t = s\<lparr>procs := procs t, slocks := slocks t, bufs := bufs t, lh_n := lh_n t, lh_block := lh_block t\<rparr>" using assms by (simp add: tx_frame_def)
  have "t\<lparr>inodes := f\<rparr> = s\<lparr>inodes := f, procs := procs t, slocks := slocks t, bufs := bufs t, lh_n := lh_n t, lh_block := lh_block t\<rparr>"
    by (subst t) simp
  then show ?thesis using assms by (simp add: tx_frame_def)
qed

lemma ext_frame_trans:
  assumes "ext_frame ip s t" "ext_frame ip t u" shows "ext_frame ip s u"
proof -
  have "tx_frame (s\<lparr>inodes := inodes u\<rparr>) (t\<lparr>inodes := inodes u\<rparr>)" using tx_frame_inodes [of "s\<lparr>inodes := inodes t\<rparr>" t "inodes u"] assms(1) by (simp add: ext_frame_def)
  then have "tx_frame (s\<lparr>inodes := inodes u\<rparr>) u" using assms(2) tx_frame_trans by (auto simp: ext_frame_def)
  moreover obtain A B where "inodes t = (inodes s)(ip := (inodes s ip)\<lparr>i_addrs := A\<rparr>)" "inodes u = (inodes t)(ip := (inodes t ip)\<lparr>i_addrs := B\<rparr>)"
    using assms by (auto simp: ext_frame_def)
  then have "inodes u = (inodes s)(ip := (inodes s ip)\<lparr>i_addrs := B\<rparr>)" by simp
  ultimately show ?thesis by (auto simp: ext_frame_def)
qed

lemma ext_frame_tx: "tx_frame s t \<Longrightarrow> ext_frame ip s t"
  using tx_frame_fs(1) [of s t] by (auto simp: ext_frame_def intro!: exI [of _ "i_addrs (inodes s ip)"])

lemma ext_frame_refl [simp]: "ext_frame ip s s"
  by (simp add: ext_frame_tx)

lemma ext_frame_set:
  assumes "tx_frame s t"
  shows "ext_frame ip s (set_inode ip (\<lambda>y. y\<lparr>i_addrs := F (i_addrs y)\<rparr>) t)"
  using tx_frame_inodes [OF assms] tx_frame_fs(1) [OF assms] by (auto simp: ext_frame_def)

lemma ext_frame_facts:
  assumes "ext_frame ip s t"
  shows "log_start t = log_start s" "disk t = disk s" "sb t = sb s" "same_mem s t" "upagetable t = upagetable s"
    "i_dev (inodes t ip) = i_dev (inodes s ip)" "i_size (inodes t ip) = i_size (inodes s ip)" "i_inum (inodes t ip) = i_inum (inodes s ip)"
    "jp \<noteq> ip \<Longrightarrow> inodes t jp = inodes s jp"
proof -
  have f: "tx_frame (s\<lparr>inodes := inodes t\<rparr>) t" and i: "\<exists>A. inodes t = (inodes s)(ip := (inodes s ip)\<lparr>i_addrs := A\<rparr>)" using assms by (auto simp: ext_frame_def)
  note g = tx_frame_facts [OF f] tx_frame_fs(2) [OF f]
  show "log_start t = log_start s" "disk t = disk s" "sb t = sb s" "same_mem s t" using g by (simp_all add: same_mem_def)
  show "upagetable t = upagetable s" using g(4) g(6) [of "myp s"] same_proc_table [of "procs s (myp s)" "procs t (myp s)"] by (simp add: upagetable_def)
  show "i_dev (inodes t ip) = i_dev (inodes s ip)" "i_size (inodes t ip) = i_size (inodes s ip)" "i_inum (inodes t ip) = i_inum (inodes s ip)"
    "jp \<noteq> ip \<Longrightarrow> inodes t jp = inodes s jp" using i by auto
qed

text \<open>
  \<open>t\<close> is \<open>s\<close> with \<open>bs\<close> stored at offset \<open>off\<close> of the file, which has grown from \<open>m\<close> to
  \<open>m'\<close> blocks.  The blocks it has gained were free, they and no others are in use now that were not before, and what
  is not written of them is zero.
\<close>

definition wrote :: "uint \<Rightarrow> 'a fs_state_scheme \<Rightarrow> nat \<Rightarrow> nat \<Rightarrow> nat \<Rightarrow> uchar list \<Rightarrow> 'a fs_state_scheme \<Rightarrow> nat \<Rightarrow> bool" where
  "wrote d s ip m off bs t m' \<longleftrightarrow> m \<le> m' \<and> file_has d t ip m' \<and> ext_frame ip s t \<and>
     (\<forall>k<m' * BSIZE. fbyte d t ip k = (if off \<le> k \<and> k < off + length bs then bs ! (k - off) else if k < m * BSIZE then fbyte d s ip k else 0)) \<and>
     (\<forall>n. n \<notin> fblocks d t ip m' \<and> \<not> bitmap_block s n \<longrightarrow> blk d t n = blk d s n) \<and>
     fblocks d s ip m \<subseteq> fblocks d t ip m' \<and>
     (\<forall>b \<in> fblocks d t ip m' - fblocks d s ip m. b < sb_size (sb s) \<and> \<not> used d s b \<and> \<not> bitmap_block s b) \<and>
     (\<forall>c < sb_size (sb s). used d t c \<longleftrightarrow> used d s c \<or> c \<in> fblocks d t ip m') \<and>
     (i_addrs (inodes s ip) NDIRECT \<noteq> 0 \<longrightarrow> i_addrs (inodes t ip) NDIRECT = i_addrs (inodes s ip) NDIRECT) \<and>
     nfree d s = nfree d t + (m' - m) + (if i_addrs (inodes s ip) NDIRECT = 0 \<and> i_addrs (inodes t ip) NDIRECT \<noteq> 0 then 1 else 0)"

lemma bitmap_block_cong: "sb t = sb s \<Longrightarrow> bitmap_block t = bitmap_block s"
  by (simp add: bitmap_block_def fun_eq_iff)

lemma wrote_trans:
  assumes "wrote d s ip m off bs t m'" "wrote d t ip m' (off + length bs) cs u m''" "bs = [] \<or> off + length bs \<le> m' * BSIZE"
  shows "wrote d s ip m off (bs @ cs) u m''"
proof -
  note sb = ext_frame_facts(3) [of ip s t] and bb = bitmap_block_cong [of t s]
  have f: "ext_frame ip s t" "ext_frame ip t u" "sb t = sb s" "bitmap_block t = bitmap_block s" using assms(1,2) sb bb by (auto simp: wrote_def)
  have m: "m \<le> m'" "m' \<le> m''" using assms by (simp_all add: wrote_def)
  then have le: "m * 1024 \<le> m' * 1024" by simp
  have b: "fbyte d u ip k = (if off \<le> k \<and> k < off + length (bs @ cs) then (bs @ cs) ! (k - off) else if k < m * 1024 then fbyte d s ip k else 0)"
    if k: "k < m'' * 1024" for k
  proof -
    have "fbyte d u ip k = (if off + length bs \<le> k \<and> k < off + length bs + length cs then cs ! (k - (off + length bs)) else if k < m' * 1024 then fbyte d t ip k else 0)"
      using assms(2) k by (simp add: wrote_def)
    moreover have "fbyte d t ip k = (if off \<le> k \<and> k < off + length bs then bs ! (k - off) else if k < m * 1024 then fbyte d s ip k else 0)" if "k < m' * 1024"
      using assms(1) that by (simp add: wrote_def)
    ultimately show ?thesis using assms(3) le by (auto simp: nth_append)
  qed
  have g: "fblocks d s ip m \<subseteq> fblocks d t ip m'" "fblocks d t ip m' \<subseteq> fblocks d u ip m''" using assms(1,2) by (simp_all add: wrote_def)
  have k: "blk d u n = blk d s n" if "n \<notin> fblocks d u ip m''" "\<not> bitmap_block s n" for n using assms(1,2) that g(2) f(4) unfolding wrote_def by auto
  have ust: "used d t c \<longleftrightarrow> used d s c \<or> c \<in> fblocks d t ip m'" if "c < sb_size (sb s)" for c using assms(1) that by (simp add: wrote_def)
  have us: "used d u c \<longleftrightarrow> used d s c \<or> c \<in> fblocks d u ip m''" if "c < sb_size (sb s)" for c using assms(2) ust [OF that] that g(2) f(3) by (auto simp: wrote_def)
  have nw: "b < sb_size (sb s) \<and> \<not> used d s b \<and> \<not> bitmap_block s b" if "b \<in> fblocks d u ip m'' - fblocks d s ip m" for b
  proof (cases "b \<in> fblocks d t ip m'")
    case True then show ?thesis using assms(1) that by (simp add: wrote_def)
  next
    case False then show ?thesis using assms(2) that ust [of b] f(3,4) by (simp add: wrote_def)
  qed
  have n: "i_addrs (inodes s ip) NDIRECT \<noteq> 0 \<longrightarrow> i_addrs (inodes u ip) NDIRECT = i_addrs (inodes s ip) NDIRECT"
    "nfree d s = nfree d u + (m'' - m) + (if i_addrs (inodes s ip) NDIRECT = 0 \<and> i_addrs (inodes u ip) NDIRECT \<noteq> 0 then 1 else 0)"
    using assms(1,2) m by (auto simp: wrote_def)
  show ?thesis unfolding wrote_def using assms(2) m ext_frame_trans [OF f(1,2)] b k g us nw n by (auto simp: wrote_def)
qed

lemma wrote_off:
  assumes "wrote d s ip m off [] t m'" shows "wrote d s ip m off' [] t m'"
proof -
  have n: "(a \<le> k \<and> k < a + length ([] :: uchar list)) = False" for a k :: nat by auto
  show ?thesis using assms unfolding wrote_def n if_False .
qed

lemma wrote_refl:
  assumes "file_has d s ip m" "space_ok d s (fblocks d s ip m)"
  shows "wrote d s ip m off [] s m"
  using assms by (auto simp: wrote_def space_ok_def)

lemma wrote_space:
  assumes "wrote d s ip m off bs t m'" "space_ok d s (F \<union> fblocks d s ip m)"
  shows "space_ok d t (F \<union> fblocks d t ip m')"
proof -
  have f: "sb t = sb s" "log_start t = log_start s" "bitmap_block t = bitmap_block s"
    using assms(1) ext_frame_facts(1,3) [of ip s t] bitmap_block_cong [of t s] by (auto simp: wrote_def)
  have l: "length (blk d t n) = BSIZE" for n using assms(1) by (simp add: wrote_def file_has_def)
  have u: "used d t c \<longleftrightarrow> used d s c \<or> c \<in> fblocks d t ip m'" if "c < sb_size (sb s)" for c using assms(1) that by (simp add: wrote_def)
  have sp: "bitmap_ok d s" "unat (sb_size (sb s)) + 8192 < 2 ^ 32" "used d s 0" "\<And>b. b \<in> F \<union> fblocks d s ip m \<Longrightarrow> b < sb_size (sb s) \<and> used d s b \<and> \<not> bitmap_block s b"
    "0 < sb_size (sb s)" using assms(2) by (auto simp: space_ok_def)
  have "bitmap_ok d t" using sp(1) l u by (auto simp: bitmap_ok_def f Let_def)
  moreover have "used d t 0" using u [of 0] sp(3,5) by simp
  moreover have "b < sb_size (sb s) \<and> used d t b \<and> \<not> bitmap_block s b" if "b \<in> F \<union> fblocks d t ip m'" for b
    using assms(1) sp(4) [of b] u [of b] that by (cases "b \<in> F \<union> fblocks d s ip m") (auto simp: wrote_def)
  ultimately show ?thesis using sp(2,5) by (simp add: space_ok_def f)
qed

text \<open>A data block is gained.\<close>

lemma faddr_used:
  assumes "file_has d s ip m" "space_ok d s (fblocks d s ip m)" "took d X s b t"
  shows "b \<notin> fblocks d s ip m" "i < m \<Longrightarrow> faddr d s ip i \<noteq> b" "i_addrs (inodes s ip) NDIRECT \<noteq> b"
    "i < m \<Longrightarrow> \<not> bitmap_block s (faddr d s ip i)" "i_addrs (inodes s ip) NDIRECT \<noteq> 0 \<Longrightarrow> \<not> bitmap_block s (i_addrs (inodes s ip) NDIRECT)"
  using assms by (auto simp: took_def space_ok_def fblocks_def)

lemma fbyte_grow:
  assumes "faddr d t ip (k div BSIZE) = a" "blk d t a = (if z then replicate BSIZE 0 else blk d s (faddr d s ip (k div BSIZE)))"
  shows "fbyte d t ip k = (if z then 0 else fbyte d s ip k)"
  using assms by (simp add: fbyte_def)

lemma gain_data:
  assumes "file_has d s ip m" "space_ok d s (fblocks d s ip m)" "m < MAXFILE" "NDIRECT \<le> m \<Longrightarrow> i_addrs (inodes s ip) NDIRECT \<noteq> 0"
    and t: "took d X s b t" "X \<subseteq> (if i_addrs (inodes s ip) NDIRECT = 0 then {} else {i_addrs (inodes s ip) NDIRECT})" "\<And>n. length (blk d t n) = BSIZE" "ext_frame ip s t"
    and a: "i_addrs (inodes t ip) NDIRECT = i_addrs (inodes s ip) NDIRECT" "\<And>i. i < NDIRECT \<Longrightarrow> i_addrs (inodes t ip) i = ((i_addrs (inodes s ip))(m := b)) i"
      "\<And>i. i_addrs (inodes s ip) NDIRECT \<noteq> 0 \<Longrightarrow> NDIRECT \<le> i \<Longrightarrow> i < MAXFILE \<Longrightarrow> faddr d t ip i = ((faddr d s ip)(m := b)) i"
  shows "wrote d s ip m off [] t (Suc m)"
proof -
  note fu = faddr_used [OF assms(1,2) t(1)]
  note ef = ext_frame_facts [OF t(4)]
  let ?n = "i_addrs (inodes s ip) NDIRECT"
  have fa: "faddr d t ip i = ((faddr d s ip)(m := b)) i" if "i \<le> m" for i
    using a(2) [of i] a(3) [of i] that assms(3,4) by (cases "i < NDIRECT") (auto simp: faddr_def)
  have fl: "faddr d t ip i = faddr d s ip i" if "i < m" for i using fa [of i] that by simp
  have fm: "faddr d t ip m = b" using fa [of m] by simp
  have im: "faddr d t ip ` {..<m} = faddr d s ip ` {..<m}" by (rule image_cong) (simp_all add: fl)
  then have iS: "faddr d t ip ` {..<Suc m} = insert b (faddr d s ip ` {..<m})" using fm by (simp add: lessThan_Suc)
  then have fb: "fblocks d t ip (Suc m) = insert b (fblocks d s ip m)" by (simp add: fblocks_def a(1))
  have bd: "b \<noteq> 0" "b < sb_size (sb s)" "\<not> used d s b" "\<not> bitmap_block s b" "b \<notin> log_area (log_start s)" "blk d t b = replicate 1024 0"
    "\<And>c. c < sb_size (sb s) \<Longrightarrow> used d t c = (c = b \<or> used d s c)" "nfree d s = Suc (nfree d t)"
    "\<And>n. n \<noteq> b \<Longrightarrow> ?n = 0 \<or> n \<noteq> ?n \<Longrightarrow> \<not> bitmap_block s n \<Longrightarrow> blk d t n = blk d s n" using t(1,2) by (auto simp: took_def split: if_splits)
  have hs: "inj_on (faddr d s ip) {..<m}" "?n \<noteq> 0 \<Longrightarrow> ?n \<notin> faddr d s ip ` {..<m}" using assms(1) by (auto simp: file_has_def)
  have "inj_on (faddr d t ip) {..<m}" using hs(1) fl by (simp add: inj_on_def)
  then have "inj_on (faddr d t ip) {..<Suc m}" using fu(2) by (auto simp: lessThan_Suc fm im)
  moreover have "\<forall>i<Suc m. faddr d t ip i \<noteq> 0 \<and> faddr d t ip i \<notin> log_area (log_start t)"
    using assms(1) bd(1,5) fl fm by (auto simp: file_has_def less_Suc_eq ef(1))
  ultimately have h: "file_has d t ip (Suc m)" using assms(1,3,4) a t(3) fu(3) unfolding file_has_def iS ef(1,6) by (auto simp: not_less)
  have by0: "fbyte d t ip k = (if off \<le> k \<and> k < off + length [] then [] ! (k - off) else if k < m * 1024 then fbyte d s ip k else 0)" if "k < Suc m * 1024" for k
  proof -
    have q: "k div 1024 = m \<or> k div 1024 < m" "k < m * 1024 \<longleftrightarrow> k div 1024 < m" using that by (auto simp: div_less_iff_less_mult less_Suc_eq [symmetric])
    have "blk d t (faddr d s ip i) = blk d s (faddr d s ip i)" if "i < m" for i using bd(9) [of "faddr d s ip i"] fu(2,4) [OF that] hs(2) that by (metis imageI lessThan_iff)
    then show ?thesis using fbyte_grow [OF refl, of d t ip k "k div 1024 = m" s] q fl fm bd(6) by auto
  qed
  have "blk d t n = blk d s n" if "n \<notin> insert b (fblocks d s ip m)" "\<not> bitmap_block s n" for n
    using bd(9) [of n] that by (auto simp: fblocks_def split: if_splits)
  moreover have "\<forall>c < sb_size (sb s). used d t c = (used d s c \<or> c \<in> insert b (fblocks d s ip m))" using bd(7) assms(2) by (auto simp: space_ok_def)
  ultimately show ?thesis using h t(4) by0 bd(2-4,8) a(1) unfolding wrote_def fb by auto
qed

text \<open>The indirect block is gained.\<close>

lemma get32_zero: "get32 (replicate BSIZE 0) (4 * i) = 0"
proof -
  have "slice (replicate 1024 (0 :: uchar)) (4 * i) 4 = replicate (min 4 (1024 - 4 * i)) 0" by (simp add: slice_def)
  moreover have "of_bytes (replicate n 0) = (0 :: uint)" for n by (induction n) simp_all
  ultimately show ?thesis by (simp add: get32_def)
qed

lemma gain_indirect:
  assumes "file_has d s ip m" "space_ok d s (fblocks d s ip m)" "i_addrs (inodes s ip) NDIRECT = 0"
    and t: "took d {} s b t" "\<And>n. length (blk d t n) = BSIZE" "ext_frame ip s t"
    and a: "i_addrs (inodes t ip) = (i_addrs (inodes s ip))(NDIRECT := b)"
  shows "wrote d s ip m off [] t m"
proof -
  note fu = faddr_used [OF assms(1,2) t(1)]
  note ef = ext_frame_facts [OF t(3)]
  have m: "m \<le> NDIRECT" using assms(1,3) by (auto simp: file_has_def not_less)
  have bd: "b \<noteq> 0" "b < sb_size (sb s)" "\<not> used d s b" "\<not> bitmap_block s b" "b \<notin> log_area (log_start s)" "blk d t b = replicate 1024 0"
    "\<And>c. c < sb_size (sb s) \<Longrightarrow> used d t c = (c = b \<or> used d s c)" "nfree d s = Suc (nfree d t)"
    "\<And>n. n \<noteq> b \<Longrightarrow> \<not> bitmap_block s n \<Longrightarrow> blk d t n = blk d s n" using t(1) by (auto simp: took_def)
  have fl: "faddr d t ip i = faddr d s ip i" if "i < m" for i using that m by (simp add: faddr_def a)
  have fz: "faddr d t ip i = 0" if "NDIRECT \<le> i" for i using that get32_zero [of "i - 12"] by (simp add: faddr_def a bd(6))
  have im: "faddr d t ip ` {..<m} = faddr d s ip ` {..<m}" by (rule image_cong) (simp_all add: fl)
  have fb: "fblocks d t ip m = insert b (fblocks d s ip m)" by (simp add: fblocks_def a bd(1) assms(3) im)
  have "inj_on (faddr d t ip) {..<m}" using assms(1) fl by (simp add: inj_on_def file_has_def)
  then have h: "file_has d t ip m" using assms(1) m fl fz bd(1,5) t(2) fu(2) unfolding file_has_def im ef(1,6) by (auto simp: a)
  have "fbyte d t ip k = fbyte d s ip k" if "k < m * 1024" for k
  proof -
    have q: "k div 1024 < m" using that by (simp add: less_mult_imp_div_less)
    then show ?thesis using bd(9) [OF fu(2,4) [OF q]] fl by (simp add: fbyte_def)
  qed
  moreover have "blk d t n = blk d s n" if "n \<notin> insert b (fblocks d s ip m)" "\<not> bitmap_block s n" for n using bd(9) [of n] that by simp
  moreover have "\<forall>c < sb_size (sb s). used d t c = (used d s c \<or> c \<in> insert b (fblocks d s ip m))" using bd(7) assms(2) by (auto simp: space_ok_def)
  ultimately show ?thesis using h t(3) bd(1-4,8) unfolding wrote_def fb by (auto simp: a assms(3))
qed

section \<open>bmap\<close>

lemma tx_inodes: "txh d H k (t\<lparr>inodes := f\<rparr>) = txh d H k t" "blk d (t\<lparr>inodes := f\<rparr>) = blk d t" "used d (t\<lparr>inodes := f\<rparr>) = used d t" "nfree d (t\<lparr>inodes := f\<rparr>) = nfree d t"
proof -
  show b: "blk d (t\<lparr>inodes := f\<rparr>) = blk d t" using bio_transfer(2) [of "t\<lparr>inodes := f\<rparr>" t] by simp
  then show u: "used d (t\<lparr>inodes := f\<rparr>) = used d t" by (simp add: used_def fun_eq_iff)
  then show "nfree d (t\<lparr>inodes := f\<rparr>) = nfree d t" by (simp add: nfree_def)
  show "txh d H k (t\<lparr>inodes := f\<rparr>) = txh d H k t" using bio_transfer(1,3) [of "t\<lparr>inodes := f\<rparr>" t] by (simp add: txh_def log_inv_def header_def)
qed

lemma took_inodes: "took d X s b (t\<lparr>inodes := f\<rparr>) = took d X s b t"
  by (simp add: took_def tx_inodes)

lemma bmap_alloc_run:
  fixes s :: "'a fs_state_scheme"
  assumes "tx d (Suc (Suc k)) s" "space_ok d s F" "0 < nfree d s" "\<forall>n. length (blk d s n) = BSIZE"
  shows "\<exists>b t. bmap_alloc d (\<lambda>a. set_inode ip (\<lambda>y. y\<lparr>i_addrs := (i_addrs y)(j := a)\<rparr>)) 0 s e = (Ret b, t, e) \<and> took d {} s b t \<and> tx d k t \<and> ext_frame ip s t \<and>
    i_addrs (inodes t ip) = (i_addrs (inodes s ip))(j := b) \<and> (\<forall>n. length (blk d t n) = BSIZE)"
proof -
  obtain b t where b: "balloc d s e = (Ret b, t, e)" "took d {} s b t" "txh d {} k t" "tx_frame s t" "\<forall>n. length (blk d t n) = BSIZE"
    using alloc_step [of d "{}" k s F e] assms unfolding txh_empty [symmetric] by auto
  let ?t = "t\<lparr>inodes := (inodes t)(ip := (inodes t ip)\<lparr>i_addrs := (i_addrs (inodes t ip))(j := b)\<rparr>)\<rparr>"
  have "b \<noteq> 0" using b(2) by (simp add: took_def)
  then have "bmap_alloc d (\<lambda>a. set_inode ip (\<lambda>y. y\<lparr>i_addrs := (i_addrs y)(j := a)\<rparr>)) 0 s e = (Ret b, ?t, e)"
    by (simp add: bmap_alloc_def kbind_Ret b(1) kmod_run kret_run)
  moreover have "ext_frame ip s ?t" using ext_frame_set [OF b(4), of ip "\<lambda>A. A(j := b)"] by simp
  moreover have "i_addrs (inodes ?t ip) = (i_addrs (inodes s ip))(j := b)" using tx_frame_fs(1) [OF b(4)] by simp
  ultimately show ?thesis using b(2,3,5) by (intro exI [of _ b] exI [of _ ?t]) (simp add: took_inodes tx_inodes txh_empty [symmetric])
qed

lemma bmap_direct:
  fixes s :: "'a fs_state_scheme"
  assumes "tx d (Suc (Suc k)) s" "file_has d s ip m" "space_ok d s (fblocks d s ip m)" "0 < nfree d s" "unat bn = m" "m < NDIRECT"
  shows "\<exists>t. bmap ip bn s e = (Ret (faddr d t ip m), t, e) \<and> tx d k t \<and> wrote d s ip m off [] t (Suc m) \<and>
    i_addrs (inodes t ip) NDIRECT = i_addrs (inodes s ip) NDIRECT"
proof -
  have h: "i_dev (inodes s ip) = d" "\<forall>n. length (blk d s n) = BSIZE" "i_addrs (inodes s ip) m = 0"
    "\<And>i. i_addrs (inodes s ip) NDIRECT \<noteq> 0 \<Longrightarrow> NDIRECT \<le> i \<Longrightarrow> i < MAXFILE \<Longrightarrow> faddr d s ip i = 0" using assms(2,6) by (auto simp: file_has_def)
  obtain b t where b: "bmap_alloc d (\<lambda>a. set_inode ip (\<lambda>y. y\<lparr>i_addrs := (i_addrs y)(m := a)\<rparr>)) 0 s e = (Ret b, t, e)" "took d {} s b t" "tx d k t" "ext_frame ip s t"
      "i_addrs (inodes t ip) = (i_addrs (inodes s ip))(m := b)" "\<forall>n. length (blk d t n) = BSIZE"
    using bmap_alloc_run [OF assms(1,3,4) h(2), of ip m e] by blast
  note fu = faddr_used [OF assms(2,3) b(2)]
  have "wrote d s ip m off [] t (Suc m)"
  proof (rule gain_data [OF assms(2,3) _ _ b(2) _ _ b(4)])
    show "faddr d t ip i = ((faddr d s ip)(m := b)) i" if "i_addrs (inodes s ip) NDIRECT \<noteq> 0" "NDIRECT \<le> i" for i
    proof -
      have "blk d t (i_addrs (inodes s ip) NDIRECT) = blk d s (i_addrs (inodes s ip) NDIRECT)" using b(2) fu(3) fu(5) [OF that(1)] by (simp add: took_def)
      then show ?thesis using that(2) assms(6) by (simp add: faddr_def b(5))
    qed
  qed (use assms(6) b(5,6) in auto)
  moreover have "bmap ip bn s e = (Ret (faddr d t ip m), t, e)" using b(1) assms(5,6) by (simp add: bmap_def h(1,3) faddr_def b(5))
  moreover have "i_addrs (inodes t ip) NDIRECT = i_addrs (inodes s ip) NDIRECT" using assms(6) by (simp add: b(5))
  ultimately show ?thesis using b(3) by blast
qed

lemma space_same:
  assumes "sb t = sb s" "log_start t = log_start s" "\<And>n. bitmap_block s n \<Longrightarrow> blk d t n = blk d s n"
  shows "c < sb_size (sb s) \<Longrightarrow> used d t c = used d s c" "nfree d t = nfree d s" "space_ok d s F \<Longrightarrow> space_ok d t F" "bitmap_block t = bitmap_block s"
proof -
  have bk: "blk d t (BBLOCK b (sb s)) = blk d s (BBLOCK b (sb s))" if "b < sb_size (sb s)" for b by (rule assms(3)) (use that in \<open>auto simp: bitmap_block_def\<close>)
  have u: "used d t c = used d s c" if "c < sb_size (sb s)" for c using bk [OF that] by (simp add: used_def assms(1))
  show "c < sb_size (sb s) \<Longrightarrow> used d t c = used d s c" by (rule u)
  show "nfree d t = nfree d s" unfolding nfree_def assms(1) by (rule arg_cong [of _ _ card]) (auto simp: u)
  show b: "bitmap_block t = bitmap_block s" by (rule bitmap_block_cong [OF assms(1)])
  show "space_ok d s F \<Longrightarrow> space_ok d t F" using u bk unfolding space_ok_def bitmap_ok_def b assms(1,2) by (auto simp: Let_def)
qed

lemma took_put:
  assumes "took d {} s b t" "blk d u = (blk d t)(n := x)" "sb t = sb s" "sb u = sb s" "log_start u = log_start t" "\<not> bitmap_block s n" "n \<noteq> b"
  shows "took d {n} s b u"
proof -
  have b: "bitmap_block t = bitmap_block s" using assms(3) by (rule bitmap_block_cong)
  have e: "blk d u c = blk d t c" if "bitmap_block t c" for c using that assms(2,6) b by auto
  have "sb u = sb t" using assms(3,4) by simp
  note q = space_same [OF this assms(5) e]
  have "used d u c = used d t c" if "c < sb_size (sb s)" for c using q(1) that assms(3) by simp
  moreover have "nfree d u = nfree d t" by (rule q(2))
  ultimately show ?thesis using assms(1,2,7) by (auto simp: took_def)
qed

lemma kseq_tail:
  assumes "kseq [x, y, z] s e = (Ret (), t, e)"
  shows "kbind (kbind (kseq [x, y]) (\<lambda>_. kret a)) (\<lambda>a. kbind z (\<lambda>_. kret a)) s e = (Ret a, t, e)"
proof -
  have "kbind (kbind (kseq [x, y]) (\<lambda>_. kret a)) (\<lambda>a. kbind z (\<lambda>_. kret a)) s e = kbind (kseq [x, y, z]) (\<lambda>_. kret a) s e" by (simp add: kbind_assoc)
  moreover have "kbind (kseq [x, y, z]) (\<lambda>_. kret a) s e = kret a t e" by (rule kbind_Ret) (rule assms)
  ultimately show ?thesis by (simp only: kret_run)
qed

lemma bmap_entry:
  fixes s :: "'a fs_state_scheme"
  assumes "tx d (Suc (Suc (Suc k))) s" "file_has d s ip m" "space_ok d s (fblocks d s ip m)" "0 < nfree d s" "unat bn = m" "NDIRECT \<le> m" "m < MAXFILE"
    and n: "n = i_addrs (inodes s ip) NDIRECT" "n \<noteq> 0"
  shows "\<exists>t. bmap ip bn s e = (Ret (faddr d t ip m), t, e) \<and> tx d k t \<and> wrote d s ip m off [] t (Suc m)"
proof -
  let ?o = "4 * (m - NDIRECT)"
  have h: "i_dev (inodes s ip) = d" "\<forall>n. length (blk d s n) = BSIZE" "faddr d s ip m = 0" "n \<notin> log_area (log_start s)"
    using assms(2,6,7) n by (auto simp: file_has_def)
  obtain h t1 where t1: "bread d n s e = (Ret h, t1, e)" "txh d {h} (Suc (Suc k)) t1" "bnum t1 h = n" "b_data (bufs t1 h) = blk d s n" "blk d t1 = blk d s" "tx_frame s t1"
    using txh_bread [of d "{}" "Suc (Suc k)" s n e] assms(1) unfolding txh_empty by auto
  note f1 = tx_frame_fs(2) [OF t1(6)] tx_frame_facts(1) [OF t1(6)]
  note q1 = space_same [OF f1, of d, OF fun_cong [OF t1(5)]]
  have nF: "n \<in> fblocks d s ip m" using n by (simp add: fblocks_def)
  obtain b t2 where t2: "balloc d t1 e = (Ret b, t2, e)" "took d {} t1 b t2" "txh d {h} k t2" "tx_frame t1 t2" "bnum t2 h = n" "\<forall>n. length (blk d t2 n) = BSIZE"
    using alloc_step [OF t1(2) q1(3) [OF assms(3)], of e] t1(3,5) nF q1(2) assms(4) h(2) by auto
  have tk: "took d {} s b t2" using t2(2) q1(1,2,4) f1 t1(5) by (auto simp: took_def)
  have b: "b \<noteq> 0" using tk by (simp add: took_def)
  note fu = faddr_used [OF assms(2,3) tk]
  have f2: "tx_frame s t2" by (rule tx_frame_trans [OF t1(6) t2(4)])
  have d2: "b_data (bufs t2 h) = blk d t2 n" using held_data [of d "{h}" t2 h] t2(3,5) by (simp add: txh_def log_inv_def)
  have k2: "blk d t2 n = blk d s n" using tk fu(3,5) n by (simp add: took_def)
  let ?x = "put32 (blk d s n) ?o b"
  obtain t3 where t3: "kseq [kmod (set_data h ?x), log_write h, brelse h] t2 e = (Ret (), t3, e)" "txh d {} k t3" "blk d t3 = (blk d t2)(n := ?x)" "tx_frame t2 t3"
    using txh_put [of d h "{}" k t2 ?x e] t2(3,5) h(4) tx_frame_facts(1) [OF f2] by auto
  have f3: "tx_frame s t3" by (rule tx_frame_trans [OF f2 t3(4)])
  have ol: "?o + 4 \<le> length (blk d s n)" using assms(6,7) h(2) by simp
  have ip3: "inodes t3 ip = inodes s ip" using tx_frame_fs(1) [OF f3] by simp
  have tk3: "took d {n} s b t3"
    by (rule took_put [OF tk t3(3)]) (use tx_frame_fs(2) [OF f2] tx_frame_fs(2) [OF f3] tx_frame_facts(1) [OF t3(4)] fu(3,5) n in auto)
  have fa: "faddr d t3 ip i = ((faddr d s ip)(m := b)) i" if "NDIRECT \<le> i" "i < MAXFILE" for i
  proof (cases "i = m")
    case False
    then have "4 * (i - 12) + 4 \<le> ?o \<or> ?o + 4 \<le> 4 * (i - 12)" "4 * (i - 12) + 4 \<le> length (blk d s n)" using that assms(6) h(2) by auto
    then show ?thesis using get_put_other(2) [OF ol] that(1) False by (simp add: faddr_def ip3 t3(3) n(1) [symmetric])
  qed (use that ol in \<open>simp add: faddr_def ip3 t3(3) n(1) [symmetric]\<close>)
  have "wrote d s ip m off [] t3 (Suc m)"
    by (rule gain_data [OF assms(2,3,7) _ tk3 _ _ ext_frame_tx [OF f3]])
      (use n ip3 assms(6) t2(6) ol h(2) fa in \<open>auto simp: t3(3) put32_def\<close>)
  moreover have "bmap ip bn s e = (Ret (faddr d t3 ip m), t3, e)"
  proof -
    have "get32 (blk d s n) ?o = 0" using h(3) assms(6) by (simp add: faddr_def n(1))
    moreover have "\<not> m < 12" "m - 12 < 256" using assms(6,7) by simp_all
    moreover have "kseq [kmod (\<lambda>s. set_data h (put32 (b_data (bufs s h)) ?o b) s), log_write h, brelse h] t2 e = (Ret (), t3, e)" using t3(1) by (simp add: d2 k2)
    then have "kbind (kbind (kseq [kmod (\<lambda>s. set_data h (put32 (b_data (bufs s h)) ?o b) s), log_write h]) (\<lambda>_. kret b)) (\<lambda>a. kbind (brelse h) (\<lambda>_. kret a)) t2 e = (Ret b, t3, e)"
      by (rule kseq_tail)
    ultimately show ?thesis using b n(2) fa [OF assms(6,7)]
      by (simp add: bmap_def bmap_alloc_def Let_def assms(5) h(1) n(1) [symmetric] kbind_Ret kret_run t1(1,4) t2(1) kwhen_def kbind_assoc del: kseq.simps)
  qed
  ultimately show ?thesis using t3(2) unfolding txh_empty by blast
qed

text \<open>The first entry of the indirect block: the indirect block is allocated, and \<open>bmap\<close> goes on as if it had been there.\<close>

lemma bmap_first_entry:
  fixes s :: "'a fs_state_scheme"
  assumes "tx d (Suc (Suc k)) s" "file_has d s ip m" "space_ok d s (fblocks d s ip m)" "0 < nfree d s" "NDIRECT \<le> unat bn" "unat bn < MAXFILE"
    and "i_addrs (inodes s ip) NDIRECT = 0"
  shows "\<exists>t. bmap ip bn s e = bmap ip bn t e \<and> i_addrs (inodes t ip) NDIRECT \<noteq> 0 \<and> tx d k t \<and> wrote d s ip m off [] t m"
proof -
  have h: "i_dev (inodes s ip) = d" "\<forall>n. length (blk d s n) = BSIZE" using assms(2) by (auto simp: file_has_def)
  obtain b t where b: "bmap_alloc d (\<lambda>a. set_inode ip (\<lambda>y. y\<lparr>i_addrs := (i_addrs y)(NDIRECT := a)\<rparr>)) 0 s e = (Ret b, t, e)" "took d {} s b t" "tx d k t" "ext_frame ip s t"
      "i_addrs (inodes t ip) = (i_addrs (inodes s ip))(NDIRECT := b)" "\<forall>n. length (blk d t n) = BSIZE"
    using bmap_alloc_run [OF assms(1,3,4) h(2), of ip NDIRECT e] by blast
  have nz: "b \<noteq> 0" using b(2) by (simp add: took_def)
  have c: "\<not> unat bn < 12" "unat bn - 12 < 256" using assms(5,6) by simp_all
  have "bmap ip bn s e = bmap ip bn t e"
    using nz c b(1) by (simp add: bmap_def assms(7) h(1) ext_frame_facts(6) [OF b(4)] b(5) bmap_alloc_def [of _ _ b] kbind_Ret cong: if_cong)
  then show ?thesis using gain_indirect [OF assms(2,3,7) b(2) _ b(4,5)] b(3,5,6) nz by auto
qed

definition need :: "'a fs_state_scheme \<Rightarrow> nat \<Rightarrow> nat \<Rightarrow> nat \<Rightarrow> nat" where
  "need s ip m m' = (m' - m) + (if i_addrs (inodes s ip) NDIRECT = 0 \<and> NDIRECT < m' then 1 else 0)"

lemma bmap_grow:
  fixes s :: "'a fs_state_scheme"
  assumes "tx d (k + 5) s" "file_has d s ip m" "space_ok d s (fblocks d s ip m)" "need s ip m (Suc m) \<le> nfree d s" "unat bn = m" "m < MAXFILE"
  shows "\<exists>t. bmap ip bn s e = (Ret (faddr d t ip m), t, e) \<and> tx d k t \<and> wrote d s ip m off [] t (Suc m) \<and>
    (m < NDIRECT \<longrightarrow> i_addrs (inodes t ip) NDIRECT = i_addrs (inodes s ip) NDIRECT)"
proof (cases "m < NDIRECT \<or> i_addrs (inodes s ip) NDIRECT \<noteq> 0")
  case True
  have n: "0 < nfree d s" using assms(4) by (simp add: need_def)
  show ?thesis
  proof (cases "m < NDIRECT")
    case True
    show ?thesis using bmap_direct [OF tx_weaken [OF assms(1)] assms(2,3) n assms(5) True, of k e off] by auto
  next
    case False
    then have c: "NDIRECT \<le> m" "i_addrs (inodes s ip) NDIRECT \<noteq> 0" using True by simp_all
    show ?thesis using bmap_entry [OF tx_weaken [OF assms(1)] assms(2,3) n assms(5) c(1) assms(6) refl c(2), of k e off] c(1) by auto
  qed
next
  case False
  have m: "NDIRECT \<le> m" "0 < nfree d s" "2 \<le> nfree d s" "i_addrs (inodes s ip) NDIRECT = 0" using False assms(4) by (auto simp: need_def)
  have x: "tx d (Suc (Suc (Suc (Suc (Suc k))))) s" using assms(1) by (simp add: eval_nat_numeral)
  obtain t where t: "bmap ip bn s e = bmap ip bn t e" "i_addrs (inodes t ip) NDIRECT \<noteq> 0" "tx d (Suc (Suc (Suc k))) t" "wrote d s ip m off [] t m"
    using bmap_first_entry [OF x assms(2,3) m(2) _ _ m(4), of bn e off] assms(5,6) m(1) by blast
  have ft: "file_has d t ip m" "nfree d s = nfree d t + 1" using t(2,4) False by (auto simp: wrote_def)
  have "space_ok d t (fblocks d t ip m)" using wrote_space [OF t(4), of "{}"] assms(3) by simp
  from bmap_entry [OF t(3) ft(1) this _ assms(5) m(1) assms(6) refl t(2), of e off] ft(2) m(3) obtain u where
    u: "bmap ip bn t e = (Ret (faddr d u ip m), u, e)" "tx d k u" "wrote d t ip m off [] u (Suc m)" by auto
  then show ?thesis using t(1) wrote_trans [OF t(4), of "[]" u "Suc m"] m(1) by auto
qed

end
