(* ===== verification/WriteProps.thy ===== *)
theory WriteProps
  imports BmapProps
begin

unbundle bit_operations_syntax

text \<open>
  Writing to a file.  The mirror image of the interface \<open>sink\<close> is \<open>source\<close>: where the bytes come from,
  user memory or a kernel buffer.
\<close>

section \<open>Storing inside one block\<close>

lemma faddr_block:
  assumes "file_has d s ip m" "b < m" "blk d t = (blk d s)(faddr d s ip b := y)" "inodes t ip = inodes s ip"
    and "i < m \<or> i_addrs (inodes s ip) NDIRECT \<noteq> 0"
  shows "faddr d t ip i = faddr d s ip i"
proof (cases "i < NDIRECT")
  case False
  then have "i_addrs (inodes s ip) NDIRECT \<noteq> faddr d s ip b" using assms(1,2,5) by (auto simp: file_has_def)
  then show ?thesis using False assms(3,4) by (simp add: faddr_def)
qed (use assms(4) in \<open>simp add: faddr_def\<close>)

lemma fbyte_block:
  assumes "file_has d s ip m" "off div BSIZE < m" "off mod BSIZE + length bs \<le> BSIZE" "a = faddr d s ip (off div BSIZE)"
    and "blk d t = (blk d s)(a := put_at (blk d s a) (off mod BSIZE) bs)" "\<And>i. i < m \<Longrightarrow> faddr d t ip i = faddr d s ip i" "k < m * BSIZE"
  shows "fbyte d t ip k = (if off \<le> k \<and> k < off + length bs then bs ! (k - off) else fbyte d s ip k)"
proof -
  have l: "length (blk d s n) = 1024" for n using assms(1) by (simp add: file_has_def)
  have k: "k div 1024 < m" using assms(7) by (simp add: less_mult_imp_div_less)
  note f = assms(6) [OF k]
  show ?thesis
  proof (cases "k div 1024 = off div 1024")
    case True
    have "off = 1024 * (k div 1024) + off mod 1024" unfolding True by simp
    moreover have "k = 1024 * (k div 1024) + k mod 1024" by simp
    ultimately have q: "off \<le> k \<longleftrightarrow> off mod 1024 \<le> k mod 1024" "k < off + length bs \<longleftrightarrow> k mod 1024 < off mod 1024 + length bs" "k - off = k mod 1024 - off mod 1024"
      by linarith+
    show ?thesis using nth_put_at [of "off mod 1024" bs "blk d s a" "k mod 1024"] assms(3,4) f
      unfolding q by (simp add: fbyte_def True assms(5) l)
  next
    case False
    then have "faddr d s ip (k div 1024) \<noteq> a" using assms(1,2,4) k by (auto simp: file_has_def inj_on_def)
    moreover have "\<not> (off \<le> k \<and> k < off + length bs)"
    proof
      assume h: "off \<le> k \<and> k < off + length bs"
      then have "off div 1024 \<le> k div 1024" by (intro div_le_mono) simp
      moreover have "k < 1024 * (off div 1024) + 1024" using h assms(3) div_mult_mod_eq [of off 1024] by linarith
      ultimately show False using False by linarith
    qed
    ultimately show ?thesis using f by (auto simp: fbyte_def assms(5))
  qed
qed

lemma wrote_store:
  assumes "file_has d s ip m" "space_ok d s (fblocks d s ip m)" "off div BSIZE < m" "off mod BSIZE + length bs \<le> BSIZE" "a = faddr d s ip (off div BSIZE)"
    and "blk d t = (blk d s)(a := put_at (blk d s a) (off mod BSIZE) bs)" "tx_frame s t"
  shows "wrote d s ip m off bs t m"
proof -
  have ip: "inodes t ip = inodes s ip" and sb: "sb t = sb s" "log_start t = log_start s" using tx_frame_fs(1,2) [OF assms(7)] tx_frame_facts(1) [OF assms(7)] by simp_all
  have k: "blk d t = (blk d s)(faddr d s ip (off div BSIZE) := put_at (blk d s a) (off mod BSIZE) bs)" using assms(5,6) by simp
  note f = faddr_block [OF assms(1,3) k ip]
  have l: "length (blk d s n) = 1024" for n using assms(1) by (simp add: file_has_def)
  have im: "faddr d t ip ` {..<m} = faddr d s ip ` {..<m}" by (rule image_cong) (simp_all add: f)
  have fb: "fblocks d t ip m = fblocks d s ip m" by (simp add: fblocks_def im ip)
  have "inj_on (faddr d t ip) {..<m}" using assms(1) by (auto simp: file_has_def inj_on_def f)
  moreover have "length (blk d t n) = 1024" for n using assms(4) by (simp add: assms(6) l)
  ultimately have h: "file_has d t ip m" using assms(1) f unfolding file_has_def im ip sb by (auto simp: l)
  have "a \<in> fblocks d s ip m" using assms(3,5) by (simp add: fblocks_def)
  then have na: "\<not> bitmap_block s a" using assms(2) by (simp add: space_ok_def)
  have bk: "blk d t n = blk d s n" if "bitmap_block s n" for n using that na assms(6) by auto
  note q = space_same [OF sb bk]
  have "blk d t n = blk d s n" if "n \<notin> fblocks d s ip m" for n using that assms(6) \<open>a \<in> fblocks d s ip m\<close> by auto
  then show ?thesis unfolding wrote_def fb using h ext_frame_tx [OF assms(7)] fbyte_block [OF assms(1,3-6) f] q(1,2) assms(2)
    by (auto simp: ip space_ok_def)
qed

section \<open>Which block a write is at\<close>

text \<open>How many blocks a write of \<open>r\<close> bytes at \<open>off\<close> touches.\<close>

definition nblks :: "nat \<Rightarrow> nat \<Rightarrow> nat" where
  "nblks off r = (if r = 0 then 0 else (off mod BSIZE + r + (BSIZE - 1)) div BSIZE)"

lemma nblks_step:
  assumes "0 < r" "m = min r (BSIZE - off mod BSIZE)"
  shows "nblks off r = Suc (nblks (off + m) (r - m))"
proof (cases "m = r")
  case True
  then have "off mod 1024 + r \<le> 1024" using assms(2) by (simp add: min_def split: if_splits)
  then have "(off mod 1024 + r + 1023) div 1024 = 1" using assms(1) by (intro div_nat_eqI) auto
  then show ?thesis using True assms(1) by (simp add: nblks_def)
next
  case False
  then have m: "m = 1024 - off mod 1024" "m < r" using assms(2) by (auto simp: min_def split: if_splits)
  have "off mod 1024 < 1024" by simp
  then have "off + m = off div 1024 * 1024 + 1024" using m(1) div_mult_mod_eq [of off 1024] by linarith
  then have a: "(off + m) mod 1024 = 0" by (simp del: div_mult_mod_eq)
  have "off mod 1024 + r + 1023 = (r - m + 1023) + 1024" using m \<open>off mod 1024 < 1024\<close> by linarith
  then show ?thesis using m(2) assms(1) by (simp add: nblks_def a)
qed

text \<open>How many blocks the file has after it.\<close>

definition grown :: "nat \<Rightarrow> nat \<Rightarrow> nat \<Rightarrow> nat" where
  "grown m off r = max m ((off + r + (BSIZE - 1)) div BSIZE)"

lemma grown_le: "m \<le> n \<Longrightarrow> off + r \<le> n * BSIZE \<Longrightarrow> grown m off r \<le> n"
  unfolding grown_def using div_le_mono [of "off + r + 1023" "n * 1024 + 1023" 1024] by simp

lemma grown_bound: "off + r \<le> grown m off r * BSIZE"
proof -
  have "off + r \<le> (off + r + 1023) div 1024 * 1024" using div_mult_mod_eq [of "off + r + 1023" 1024] mod_less_divisor [of 1024 "off + r + 1023"] by linarith
  also have "\<dots> \<le> grown m off r * 1024" by (simp add: grown_def)
  finally show ?thesis by simp
qed

lemma grown_step:
  assumes "0 < r" "c = min r (BSIZE - off mod BSIZE)" "off \<le> m * BSIZE"
  defines "m' \<equiv> max m (Suc (off div BSIZE))"
  shows "grown m off r = grown m' (off + c) (r - c)" "m' \<le> grown m off r" "off + c \<le> m' * BSIZE" "off div BSIZE < m'" "off div BSIZE \<le> m"
proof -
  have q: "off = 1024 * (off div 1024) + off mod 1024" "off mod 1024 < 1024" by simp_all
  have c: "c \<le> r" "off mod 1024 + c \<le> 1024" using assms(2) q(2) by (auto simp: min_def)
  have "1024 * Suc (off div 1024) \<le> off + r + 1023" using q assms(1) by (subst q(1)) simp
  then have s: "Suc (off div 1024) \<le> (off + r + 1023) div 1024" by (simp add: less_eq_div_iff_mult_less_eq mult.commute)
  show "grown m off r = grown m' (off + c) (r - c)" using s c by (simp add: grown_def m'_def max.assoc max_absorb2)
  show "m' \<le> grown m off r" using s by (auto simp: grown_def m'_def)
  show "off div BSIZE < m'" by (simp add: m'_def)
  have "off + c \<le> Suc (off div 1024) * 1024" using q(1) c(2) by (simp only: mult_Suc)
  also have "\<dots> \<le> m' * 1024" by (rule mult_le_mono1) (simp add: m'_def)
  finally show "off + c \<le> m' * BSIZE" by simp
  show "off div BSIZE \<le> m" using div_le_mono [OF assms(3), of 1024] by simp
qed

text \<open>The block a write is at, whether the file has it or not.\<close>

lemma bmap_any:
  fixes s :: "'a fs_state_scheme"
  assumes "tx d (Suc k + 5 * (m' - m)) s" "file_has d s ip m" "space_ok d s (fblocks d s ip m)" "unat bn \<le> m" "m' = max m (Suc (unat bn))" "m' \<le> MAXFILE"
    and "m' \<le> M" "need s ip m M \<le> nfree d s"
  shows "\<exists>t. bmap ip bn s e = (Ret (faddr d t ip (unat bn)), t, e) \<and> tx d (Suc k) t \<and> wrote d s ip m off [] t m' \<and> need t ip m' M \<le> nfree d t"
proof (cases "unat bn < m")
  case True
  then have m: "m' = m" using assms(5) by simp
  have h: "i_dev (inodes s ip) = d" "unat bn < MAXFILE" "faddr d s ip (unat bn) \<noteq> 0" "NDIRECT \<le> unat bn \<Longrightarrow> i_addrs (inodes s ip) NDIRECT \<noteq> 0"
    using assms(2,6) True m by (auto simp: file_has_def)
  have x: "tx d (Suc k) s" using assms(1) m by simp
  obtain t where t: "bmap ip bn s e = (Ret (faddr d s ip (unat bn)), t, e)" "rd_frame d s t"
    using bmap_run [OF tx_ready [OF x] h(1-4)] by blast
  note f = tx_rd_frame [OF t(2) x] and g = rd_frame_facts [OF t(2)]
  have "wrote d s ip m (unat bn * 1024) [] t m"
    by (rule wrote_store [OF assms(2,3) _ _ refl _ f(2)]) (use True in \<open>simp_all add: g(2) put_at_def\<close>)
  then have w: "wrote d s ip m off [] t m" by (rule wrote_off)
  then have "nfree d t = nfree d s" by (auto simp: wrote_def g(1))
  then show ?thesis using t(1) f(1) w assms(8) m by (auto simp: g(1,5) need_def)
next
  case False
  then have b: "unat bn = m" "m' = Suc m" "m < MAXFILE" using assms(4-6) by auto
  have "need s ip m (Suc m) \<le> nfree d s" using assms(7,8) b(2) by (auto simp: need_def split: if_splits)
  then obtain t where t: "bmap ip bn s e = (Ret (faddr d t ip m), t, e)" "tx d (Suc k) t" "wrote d s ip m off [] t (Suc m)"
      "m < NDIRECT \<longrightarrow> i_addrs (inodes t ip) NDIRECT = i_addrs (inodes s ip) NDIRECT"
    using bmap_grow [of d "Suc k" s ip m bn e off] assms(1-3) b by auto
  have n: "nfree d s = nfree d t + 1 + (if i_addrs (inodes s ip) NDIRECT = 0 \<and> i_addrs (inodes t ip) NDIRECT \<noteq> 0 then 1 else 0)"
    "i_addrs (inodes s ip) NDIRECT \<noteq> 0 \<Longrightarrow> i_addrs (inodes t ip) NDIRECT \<noteq> 0" using t(3) by (simp_all add: wrote_def)
  have "need t ip (Suc m) M \<le> nfree d t" using n t(4) assms(7,8) b(2) by (auto simp: need_def split: if_splits)
  then show ?thesis using t(1-3) b by auto
qed

text \<open>The inode is written to its block, which is none of the file's and none of the bitmap's.\<close>

lemma file_inode:
  assumes "file_has d t ip m" "sb w = sb t" "log_start w = log_start t" "blk d w = (blk d t)(ib := x)" "length x = BSIZE" "ib \<notin> fblocks d t ip m" "\<not> bitmap_block t ib"
    and "i_addrs (inodes w ip) = i_addrs (inodes t ip)" "i_dev (inodes w ip) = i_dev (inodes t ip)"
  shows "file_has d w ip m" "fblocks d w ip m = fblocks d t ip m" "k < m * BSIZE \<Longrightarrow> fbyte d w ip k = fbyte d t ip k"
    "c < sb_size (sb t) \<Longrightarrow> used d w c = used d t c"
proof -
  have f: "faddr d w ip i = faddr d t ip i" if "i < m \<or> i_addrs (inodes t ip) NDIRECT \<noteq> 0" for i
    using that assms(1,4,6,8) by (auto simp: faddr_def fblocks_def file_has_def split: if_splits)
  have im: "faddr d w ip ` {..<m} = faddr d t ip ` {..<m}" by (rule image_cong) (simp_all add: f)
  have "inj_on (faddr d w ip) {..<m}" using assms(1) by (auto simp: file_has_def inj_on_def f)
  moreover have "length (blk d w n) = BSIZE" for n using assms(1,4,5) by (simp add: file_has_def)
  ultimately show "file_has d w ip m" using assms(1,3,8,9) f unfolding file_has_def im by auto
  show "fblocks d w ip m = fblocks d t ip m" by (simp add: fblocks_def im assms(8))
  show "fbyte d w ip k = fbyte d t ip k" if "k < m * BSIZE"
  proof -
    have "k div 1024 < m" using that by (simp add: less_mult_imp_div_less)
    then show ?thesis using f [of "k div 1024"] assms(6) by (auto simp: fbyte_def assms(4) fblocks_def)
  qed
  show "c < sb_size (sb t) \<Longrightarrow> used d w c = used d t c" by (rule space_same(1) [OF assms(2,3)]) (use assms(4,7) in auto)
qed

text \<open>
  \<open>t\<close> is \<open>s\<close> after a write that has taken the file from \<open>m\<close> to \<open>m'\<close> blocks: the inode on the disk (in
  block \<open>ib\<close>) is the one in memory; the file has kept its blocks and gained free ones, which are now in use; no other
  inode, and no block but those of the file, the bitmap and the inode's, has changed.
\<close>

definition written :: "uint \<Rightarrow> 'a fs_state_scheme \<Rightarrow> nat \<Rightarrow> nat \<Rightarrow> uint \<Rightarrow> 'a fs_state_scheme \<Rightarrow> nat \<Rightarrow> bool" where
  "written d s ip m ib t m' \<longleftrightarrow>
     same_dinode (get_dinode (blk d t ib) (unat (i_inum (inodes s ip) mod IPB))) (dinode_of (inodes t ip)) \<and>
     file_has d t ip m' \<and> fblocks d s ip m \<subseteq> fblocks d t ip m' \<and> (\<forall>b \<in> fblocks d t ip m' - fblocks d s ip m. \<not> used d s b) \<and>
     (\<forall>c < sb_size (sb s). used d t c \<longleftrightarrow> used d s c \<or> c \<in> fblocks d t ip m') \<and> (\<forall>jp. jp \<noteq> ip \<longrightarrow> inodes t jp = inodes s jp) \<and>
     (\<forall>b. b \<noteq> ib \<and> b \<notin> fblocks d t ip m' \<and> \<not> bitmap_block s b \<longrightarrow> blk d t b = blk d s b) \<and> disk t = disk s"

section \<open>Sources\<close>

locale source =
  fixes gives :: "'a fs_state_scheme \<Rightarrow> src \<Rightarrow> uchar list \<Rightarrow> bool"
  assumes copy: "calm {} s \<Longrightarrow> gives s x bs \<Longrightarrow> n \<le> length bs \<Longrightarrow> either_copyin x n s e = (Ret (0, take n bs), s, e)"
    and rest: "gives s x bs \<Longrightarrow> n \<le> length bs \<Longrightarrow> gives s (src_add x n) (drop n bs)"
    and frame: "calm {} s \<Longrightarrow> calm {} t \<Longrightarrow> ext_frame ip s t \<Longrightarrow> gives s x bs \<Longrightarrow> gives t x bs"
begin

lemma writei_step:
  assumes "tx d (Suc k + 5 * (m' - m)) s" "file_has d s ip m" "space_ok d s (fblocks d s ip m)" "tot < n" "m' = max m (Suc (unat off div BSIZE))"
    and "unat off div BSIZE \<le> m" "m' \<le> MAXFILE" "m' \<le> M" "need s ip m M \<le> nfree d s" "gives s x bs" "length bs = unat n - unat tot"
  defines "c \<equiv> chunk n tot off"
  shows "\<exists>t. writei_round ip n (tot, off, x) s e = (Ret (Inl (tot + c, off + c, src_add x (unat c))), t, e) \<and>
    tx d k t \<and> wrote d s ip m (unat off) (take (unat c) bs) t m' \<and> need t ip m' M \<le> nfree d t \<and> gives t (src_add x (unat c)) (drop (unat c) bs)"
proof -
  let ?b = "off div 1024"
  have u: "unat ?b = unat off div BSIZE" "unat (off mod 1024) = unat off mod BSIZE" by (simp_all add: unat_div_distrib unat_mod_distrib)
  have t: "tot \<le> n" using assms(4) by simp
  have c: "unat c \<le> BSIZE - unat off mod BSIZE" "unat c \<le> length bs" using chunk_unat [OF t, of off] assms(11) by (simp_all add: c_def)
  obtain s1 where s1: "bmap ip ?b s e = (Ret (faddr d s1 ip (unat ?b)), s1, e)" "tx d (Suc k) s1" "wrote d s ip m (unat off) [] s1 m'" "need s1 ip m' M \<le> nfree d s1"
    using bmap_any [OF assms(1-3) _ _ assms(7-9), of ?b e "unat off"] assms(5,6) u(1) by auto
  let ?a = "faddr d s1 ip (unat ?b)"
  have h1: "file_has d s1 ip m'" "unat off div 1024 < m'" using s1(3) assms(5) by (auto simp: wrote_def)
  then have a: "?a \<noteq> 0" "?a \<notin> log_area (log_start s1)" "i_dev (inodes s1 ip) = d" using u(1) by (auto simp: file_has_def)
  have sp: "space_ok d s1 (fblocks d s1 ip m')" using wrote_space [OF s1(3), of "{}"] assms(3) by simp
  obtain h s2 where s2: "bread d ?a s1 e = (Ret h, s2, e)" "bs_ok d {h} s2" "bview_of d {h} s2 = bview_of d {} s1" "bnum s2 h = ?a" "bio_frame s1 s2"
    using bs_bread [OF tx_bs [OF s1(2)], of ?a e] tx_roomy [OF s1(2), of ?a] by auto
  have ds: "b_data (bufs s2 h) = blk d s1 ?a" using held_data [of d "{h}" s2 h] s2(2,4) bview_blk [OF s2(3)] by (simp add: bs_ok_def)
  have f2: "ext_frame ip s1 s2" using tx_frame_bio [OF s2(5)] bview_eqD [OF s2(3)] by (intro ext_frame_tx) blast
  have cs: "calm {} s" "calm {} s2" using assms(1) s2(2) by (simp_all add: tx_def bs_ok_def)
  have f1: "ext_frame ip s s1" using s1(3) by (simp add: wrote_def)
  note cp = copy [OF cs(2) frame [OF cs ext_frame_trans [OF f1 f2] assms(10)] c(2), of e]
  let ?y = "put_at (blk d s1 ?a) (unat off mod BSIZE) (take (unat c) bs)"
  obtain s3 where s3: "kseq [kmod (set_data h ?y), log_write h, brelse h] s2 e = (Ret (), s3, e)" "tx d k s3" "blk d s3 = (blk d s1)(?a := ?y)" "tx_frame s1 s3"
    using tx_store [OF s1(2) a(2) s2(2-5), of ?y e] by blast
  have w1: "wrote d s1 ip m' (unat off) (take (unat c) bs) s3 m'"
    by (rule wrote_store [OF h1(1) sp h1(2) _ refl _ s3(4)]) (use c s3(3) u in simp_all)
  then have w: "wrote d s ip m (unat off) (take (unat c) bs) s3 m'" using wrote_trans [OF s1(3), of "take (unat c) bs" s3 m'] by simp
  have "gives s3 (src_add x (unat c)) (drop (unat c) bs)"
    using rest [OF frame [OF cs(1) _ ext_frame_trans [OF f1 ext_frame_tx [OF s3(4)]] assms(10)] c(2)] s3(2) by (simp add: tx_def)
  moreover have "need s3 ip m' M \<le> nfree d s3" using s1(4) w1 tx_frame_fs(1) [OF s3(4)]
    by (auto simp: wrote_def need_def split: if_splits)
  moreover have "writei_round ip n (tot, off, x) s e = (Ret (Inl (tot + c, off + c, src_add x (unat c))), s3, e)"
  proof -
    have "kseq [kmod (\<lambda>s. set_data h (put_at (b_data (bufs s h)) (unat (off mod 1024)) (take (unat c) bs)) s), log_write h, brelse h] s2 e = (Ret (), s3, e)"
      using s3(1) by (simp add: ds u)
    then show ?thesis using assms(4) a(1) by (simp add: writei_round_def kbind_Ret s1(1) a(3) s2(1) Let_def c_def [symmetric] cp kret_run del: kseq.simps)
  qed
  ultimately show ?thesis using s3(2) w by blast
qed

lemma writei_loop:
  assumes "tx d (k + nblks (unat off) (unat n - unat tot) + 5 * (M - m)) s" "file_has d s ip m" "space_ok d s (fblocks d s ip m)" "tot \<le> n"
    and "M = grown m (unat off) (unat n - unat tot)" "M \<le> MAXFILE" "unat off \<le> m * BSIZE" "need s ip m M \<le> nfree d s"
    and "gives s x bs" "length bs = unat n - unat tot"
  shows "\<exists>t. kloop (writei_round ip n) (tot, off, x) s e = (Ret (n, off + (n - tot)), t, e) \<and> tx d k t \<and> wrote d s ip m (unat off) bs t M"
  using assms
proof (induction "unat n - unat tot" arbitrary: tot off x bs s m rule: less_induct)
  case less
  show ?case
  proof (cases "tot < n")
    case False
    with less.prems(4) have e: "tot = n" by simp
    moreover have "kloop (writei_round ip n) (n, off, x) s e = (Ret (n, off), s, e)"
      by (rule kloop_step_Inr) (simp add: writei_round_def kret_run)
    moreover have "M = m" using grown_le [of m m "unat off" 0] less.prems(5,7) e by (simp add: grown_def max_def split: if_splits)
    ultimately show ?thesis using less.prems(1,10) wrote_refl [OF less.prems(2,3)] by (auto simp: nblks_def)
  next
    case True
    define c where "c = chunk n tot off"
    define m' where "m' = max m (Suc (unat off div 1024))"
    have tn: "0 < unat n - unat tot" using True by (simp add: word_less_nat_alt)
    have c: "unat c = min (unat n - unat tot) (1024 - unat off mod 1024)" using chunk_unat [OF less.prems(4)] by (simp add: c_def)
    have "0 < 1024 - unat off mod 1024" by simp
    then have c0: "0 < unat c" "unat c \<le> unat n - unat tot" using c tn by simp_all
    note gs = grown_step [OF tn c less.prems(7), folded m'_def less.prems(5)]
    have "unat off + (unat n - unat tot) \<le> M * 1024" using grown_bound [of "unat off" _ m] less.prems(5) by simp
    moreover have "M * 1024 \<le> 268 * 1024" using less.prems(6) by simp
    ultimately have w: "unat (tot + c) = unat tot + unat c" "unat (off + c) = unat off + unat c"
      using c0 tn unat32_less [of n] by (simp_all add: unat_word_ariths)
    let ?r = "unat n - unat (tot + c)"
    have r: "?r = unat n - unat tot - unat c" "?r < unat n - unat tot" "?r = length (drop (unat c) bs)" using w(1) c0 tn less.prems(10) by simp_all
    have nb: "nblks (unat off) (unat n - unat tot) = Suc (nblks (unat (off + c)) ?r)"
      using nblks_step [of "unat n - unat tot" "unat c" "unat off"] tn c by (simp add: w(2) r(1))
    let ?k = "k + nblks (unat (off + c)) ?r + 5 * (M - m')"
    have "5 * (M - m) = 5 * (M - m') + 5 * (m' - m)" using gs(2) max.cobounded1 [of m "Suc (unat off div 1024)", folded m'_def] by linarith
    then have x: "tx d (Suc ?k + 5 * (m' - m)) s" using less.prems(1) nb by (simp add: ac_simps)
    have mm: "m' \<le> MAXFILE" using gs(2) less.prems(6) by simp
    obtain t where t: "writei_round ip n (tot, off, x) s e = (Ret (Inl (tot + c, off + c, src_add x (unat c))), t, e)"
      "tx d ?k t" "wrote d s ip m (unat off) (take (unat c) bs) t m'" "need t ip m' M \<le> nfree d t" "gives t (src_add x (unat c)) (drop (unat c) bs)"
      using writei_step [OF x less.prems(2,3) True m'_def [simplified] gs(5) mm gs(2) less.prems(8-10), of e] by (auto simp: c_def)
    have tf: "file_has d t ip m'" "space_ok d t (fblocks d t ip m')" using t(3) wrote_space [OF t(3), of "{}"] less.prems(3) by (simp_all add: wrote_def)
    have le: "tot + c \<le> n" "M = grown m' (unat (off + c)) ?r" "unat (off + c) \<le> m' * 1024" using c0 w tn gs(1,3) r(1) by (auto simp: word_le_nat_alt)
    obtain u where u: "kloop (writei_round ip n) (tot + c, off + c, src_add x (unat c)) t e = (Ret (n, off + c + (n - (tot + c))), u, e)"
      "tx d k u" "wrote d t ip m' (unat (off + c)) (drop (unat c) bs) u M"
      using less.hyps [OF r(2) t(2) tf le(1,2) less.prems(6) le(3) t(4,5)] r(3) by auto
    have "wrote d s ip m (unat off) (take (unat c) bs @ drop (unat c) bs) u M"
      by (rule wrote_trans [OF t(3)]) (use u(3) c0 less.prems(10) le(3) in \<open>simp_all add: w(2) min_absorb2\<close>)
    then show ?thesis using kloop_step_Inl [where b = "writei_round ip n", OF t(1) u(1)] u(2) by (auto simp: algebra_simps)
  qed
qed

lemma writei_run:
  assumes "tx d (Suc (k + nblks (unat off) (length bs) + 5 * (M - m))) s" "file_has d s ip m" "space_ok d s (insert ib (fblocks d s ip m))"
    and "M = grown m (unat off) (length bs)" "need s ip m M \<le> nfree d s" "gives s x bs" "length bs = unat n"
    and "off \<le> i_size (inodes s ip)" "unat (i_size (inodes s ip)) \<le> m * BSIZE" "unat off + unat n \<le> MAXFILE * BSIZE"
    and "ib = IBLOCK (i_inum (inodes s ip)) (sb s)" "ib \<notin> log_area (log_start s)" "ib \<notin> fblocks d s ip m"
  shows "\<exists>t. writei ip x off n s e = (Ret (int (unat n)), t, e) \<and> tx d k t \<and> fdata d t ip = put_at (fdata d s ip) (unat off) bs \<and> written d s ip m ib t M"
proof -
  let ?sz = "i_size (inodes s ip)"
  have o: "unat off \<le> unat ?sz" using assms(8) by (simp add: word_le_nat_alt)
  have on: "unat (off + n) = unat off + unat n" using assms(10) by (simp add: unat_word_ariths)
  have gd: "\<not> ?sz < off" "\<not> off + n < off" "\<not> of_nat (MAXFILE * BSIZE) < off + n"
    using assms(8,10) on by (auto simp: word_less_nat_alt word_le_nat_alt)
  have sp: "space_ok d s (fblocks d s ip m)" using assms(3) by (simp add: space_ok_def)
  have ms: "m \<le> MAXFILE" using assms(2) by (simp add: file_has_def)
  obtain t where t: "kloop (writei_round ip n) (0, off, x) s e = (Ret (n, off + n), t, e)" "tx d (Suc k) t" "wrote d s ip m (unat off) bs t M"
    using writei_loop [of d "Suc k" off n 0 M m s ip x bs e] assms(1,2,4-7,9,10) sp o grown_le [OF ms, of "unat off" "unat n"] by auto
  have te: "ext_frame ip s t" using t(3) by (simp add: wrote_def)
  note ft = ext_frame_facts [OF te]
  define y where "y = (let y = inodes t ip in if off + n > i_size y then y\<lparr>i_size := off + n\<rparr> else y)"
  let ?u = "t\<lparr>inodes := (inodes t)(ip := y)\<rparr>"
  have yf: "i_dev y = i_dev (inodes s ip)" "i_inum y = i_inum (inodes s ip)" "i_addrs y = i_addrs (inodes t ip)" "unat (i_size y) = max (unat ?sz) (unat off + unat n)"
    using ft(6-8) by (auto simp: y_def Let_def on word_less_nat_alt)
  have bu: "blk d ?u = blk d t" "tx d (Suc k) ?u" using t(2) by (simp_all add: tx_inodes txh_empty [symmetric])
  have ds: "i_dev (inodes s ip) = d" using assms(2) by (simp add: file_has_def)
  obtain w where w: "iupdate ip ?u e = (Ret (), w, e)" "tx d k w" "blk d w = (blk d t)(ib := put_dinode (blk d t ib) (unat (i_inum y mod IPB)) (dinode_of y))" "tx_frame ?u w"
    using iupdate_run [OF bu(2), of ip ib e] assms(11,12) ft(1,3) yf bu(1) ds by auto
  note fw = tx_frame_fs [OF w(4)] tx_frame_facts [OF w(4)]
  have run: "writei ip x off n s e = (Ret (int (unat n)), w, e)"
  proof -
    have "unat n < 2 ^ 31" using assms(10) by simp
    then show ?thesis using gd w(1) sint_eq_uint_small [of n] by (simp add: writei_def kbind_Ret t(1) y_def Let_def kret_run split del: if_split cong: if_cong)
  qed
  have iw: "inodes w = (inodes t)(ip := y)" using fw(1) by simp
  have im: "unat (i_inum y mod IPB) < 16" using word_mod_less_divisor [of 16 "i_inum y"] by (simp add: word_less_nat_alt)
  have lt: "length (blk d t ib) = BSIZE" using t(3) by (simp add: wrote_def file_has_def)
  note gp = get_put_dinode(1) [OF lt im, of "dinode_of y"]
  have ib: "ib \<notin> fblocks d t ip M" "\<not> bitmap_block t ib" using t(3) assms(3,13) bitmap_block_cong [OF ft(3)] by (auto simp: wrote_def space_ok_def)
  have ht: "file_has d t ip M" using t(3) by (simp add: wrote_def)
  have lx: "length (put_dinode (blk d t ib) (unat (i_inum y mod IPB)) (dinode_of y)) = BSIZE" using lt im by (simp add: put_dinode_bytes)
  have wt: "sb w = sb t" "log_start w = log_start t" "i_addrs (inodes w ip) = i_addrs (inodes t ip)" "i_dev (inodes w ip) = i_dev (inodes t ip)"
    using fw(2,5) yf(1,3) ft(6) by (simp_all add: iw)
  note fi = file_inode [OF ht wt(1,2) w(3) lx ib wt(3,4)]
  have "fdata d w ip = put_at (fdata d s ip) (unat off) bs"
  proof (rule nth_equalityI)
    show l: "length (fdata d w ip) = length (put_at (fdata d s ip) (unat off) bs)" using o assms(7) by (simp add: iw yf(4) put_at_def max_def)
    fix j assume "j < length (fdata d w ip)"
    then have j: "j < max (unat ?sz) (unat off + unat n)" by (simp add: iw yf(4))
    have "m * 1024 \<le> M * 1024" using assms(4) by (simp add: grown_def)
    then have jM: "j < M * 1024" using j assms(9) grown_bound [of "unat off" "unat n" m] assms(4,7) by (simp add: max_def split: if_splits)
    have "fbyte d w ip j = (if unat off \<le> j \<and> j < unat off + unat n then bs ! (j - unat off) else fbyte d s ip j)"
      using t(3) fi(3) [OF jM] jM j assms(7,9) o by (auto simp: wrote_def)
    then show "fdata d w ip ! j = put_at (fdata d s ip) (unat off) bs ! j"
      using o j assms(7) by (auto simp: fdata_def iw yf(4) put_at_def nth_append)
  qed
  moreover have "written d s ip m ib w M"
    using t(3) fi(1,2,4) ft(3) gp iw yf(2) fw(7) ft(2,9) w(3) unfolding written_def wrote_def by auto
  ultimately show ?thesis using run w(2) by blast
qed

end

definition kern_gives :: "'a fs_state_scheme \<Rightarrow> src \<Rightarrow> uchar list \<Rightarrow> bool" where
  "kern_gives s x bs \<longleftrightarrow> x = SrcKern bs"

definition user_gives :: "'a fs_state_scheme \<Rightarrow> src \<Rightarrow> uchar list \<Rightarrow> bool" where
  "user_gives s x bs \<longleftrightarrow> (\<exists>a. x = SrcUser a \<and> vm_wf s (upagetable s) \<and> rrange s (upagetable s) a (length bs) \<and>
     bs = ubytes s (upagetable s) a (length bs))"

interpretation ks: source kern_gives
  by unfold_locales (auto simp: kern_gives_def either_copyin_def kbind_Ret myproc_calm kret_run)

interpretation usrc: source user_gives
proof
  fix s t :: "'a fs_state_scheme" and x bs n and e :: "('a fs_state_scheme \<Rightarrow> 'a fs_state_scheme) list"
  show "either_copyin x n s e = (Ret (0, take n bs), s, e)" if h: "calm {} s" "user_gives s x bs" "n \<le> length bs"
  proof -
    obtain a where a: "x = SrcUser a" "vm_wf s (upagetable s)" "rrange s (upagetable s) a (length bs)" "bs = ubytes s (upagetable s) a (length bs)"
      using h(2) by (auto simp: user_gives_def)
    have "take n bs = ubytes s (upagetable s) a n" using h(3) by (subst a(4)) (simp add: ubytes_def take_map)
    then show ?thesis using copyin_run [OF a(2) range_prefix(1) [OF a(3) h(3)], of "p_sz (procs s (myp s))" e]
      by (simp add: a(1) either_copyin_def myproc_calm [OF h(1)] kbind_Ret upagetable_def)
  qed
  show "user_gives s (src_add x n) (drop n bs)" if h: "user_gives s x bs" "n \<le> length bs"
  proof -
    obtain a where a: "x = SrcUser a" "vm_wf s (upagetable s)" "rrange s (upagetable s) a (length bs)" "bs = ubytes s (upagetable s) a (length bs)"
      using h(1) by (auto simp: user_gives_def)
    have "drop n bs = ubytes s (upagetable s) (a + of_nat n) (length bs - n)"
      by (subst a(4), rule nth_equalityI) (auto simp: ubytes_def add.assoc nth_upt)
    then show ?thesis using a range_sub(1) [of n "length bs - n" "length bs" s "upagetable s" a] h(2) by (simp add: user_gives_def)
  qed
  show "user_gives t x bs" if "calm {} s" "calm {} t" "ext_frame ip s t" "user_gives s x bs" for ip
  proof -
    note sm = ext_frame_facts(4) [OF that(3)]
    show ?thesis using ext_frame_facts(5) [OF that(3)] that(4) vm_wf_same [OF sm kmem_ready_calm [OF that(2)]] range_same(1,2) [OF sm] by (auto simp: user_gives_def)
  qed
qed

section \<open>Properties\<close>

text \<open>
  C2: writing to a file from user memory stores exactly the user's bytes and extends the file as needed.
  The file has \<open>m\<close> blocks and the write, which starts within the file and ends within the largest file
  there can be, takes it to \<open>M\<close>; the disk has as many free blocks as that takes, one more when it needs
  its indirect block, and the transaction has room for the calls of \<open>log_write\<close>.  Then \<open>writei\<close>
  returns the number of bytes, and the contents of the file is the old contents with the user's bytes at
  the offset, longer if the write goes past the old end.  The file now has exactly \<open>M\<close> blocks: those it
  had and others that were free; these are now in use, and no other block is that was not before.  The
  inode on the disk is the one in memory; other inodes, and all blocks but those of the file, the bitmap
  and the inode's, are as before.
\<close>

theorem writei_writes_file:
  fixes s :: "'a fs_state_scheme" and off n :: uint
  assumes "tx d (Suc (k + nblks (unat off) (unat n) + 5 * (M - m))) s" "file_has d s ip m" "space_ok d s (insert ib (fblocks d s ip m))"
    and "M = grown m (unat off) (unat n)" "need s ip m M \<le> nfree d s"
    and "pt = p_pagetable (procs s (myp s))" "vm_wf s pt" "rrange s pt a (unat n)"
    and "off \<le> i_size (inodes s ip)" "unat (i_size (inodes s ip)) \<le> m * BSIZE" "unat off + unat n \<le> MAXFILE * BSIZE"
    and "ib = IBLOCK (i_inum (inodes s ip)) (sb s)" "ib \<notin> log_area (log_start s)" "ib \<notin> fblocks d s ip m"
  shows "\<exists>t. writei ip (SrcUser a) off n s e = (Ret (int (unat n)), t, e) \<and> tx d k t \<and>
    fdata d t ip = put_at (fdata d s ip) (unat off) (ubytes s pt a (unat n)) \<and>
    same_dinode (get_dinode (blk d t ib) (unat (i_inum (inodes s ip) mod IPB))) (dinode_of (inodes t ip)) \<and>
    file_has d t ip M \<and> fblocks d s ip m \<subseteq> fblocks d t ip M \<and> (\<forall>b \<in> fblocks d t ip M - fblocks d s ip m. \<not> used d s b) \<and>
    (\<forall>c < sb_size (sb s). used d t c \<longleftrightarrow> used d s c \<or> c \<in> fblocks d t ip M) \<and> (\<forall>jp. jp \<noteq> ip \<longrightarrow> inodes t jp = inodes s jp) \<and>
    (\<forall>b. b \<noteq> ib \<and> b \<notin> fblocks d t ip M \<and> \<not> bitmap_block s b \<longrightarrow> blk d t b = blk d s b) \<and> disk t = disk s"
proof -
  have "user_gives s (SrcUser a) (ubytes s pt a (unat n))" using assms(6-8) by (simp add: user_gives_def upagetable_def)
  then show ?thesis using usrc.writei_run [OF _ assms(2,3) _ assms(5) _ _ assms(9-14), of k "ubytes s pt a (unat n)" "SrcUser a" e] assms(1,4)
    by (simp add: written_def)
qed

text \<open>A file of 1500 bytes in two blocks, to which 2000 bytes are written at its end: two blocks are allocated.\<close>

definition demo_short :: inode where
  "demo_short = demo_inode\<lparr>i_addrs := (\<lambda>i. if i < 2 then 60 + of_nat i else 0)\<rparr>"

lemma demo_short_file:
  fixes s :: fs_state
  assumes "blk 1 s = (\<lambda>n. replicate 1024 (ucast n))(46 := replicate 8 255 @ replicate 1016 0)" "inodes s 2 = demo_short" "log_start s = 2"
  shows "file_has 1 s 2 2" "fblocks 1 s 2 2 = {60, 61}" "fdata 1 s 2 = replicate 1024 60 @ replicate 476 61"
proof -
  have two: "{..<2 :: nat} = {0, 1}" "(\<forall>i<2. P i) \<longleftrightarrow> P 0 \<and> P 1" for P :: "nat \<Rightarrow> bool" by (auto simp: less_2_cases_iff)
  have f: "faddr 1 s 2 0 = 60" "faddr 1 s 2 (Suc 0) = 61" "i_addrs (inodes s 2) 12 = 0" by (simp_all add: faddr_def assms(2) demo_short_def)
  have nl: "60 \<notin> log_area 2" "61 \<notin> log_area 2" using log_area_2 [of 60] log_area_2 [of 61] by auto
  show "file_has 1 s 2 2" using nl f by (auto simp: file_has_def two assms demo_short_def demo_inode_def)
  show "fblocks 1 s 2 2 = {60, 61}" by (simp add: fblocks_def two f)
  show "fdata 1 s 2 = replicate 1024 60 @ replicate 476 61"
  proof (rule nth_equalityI)
    show "length (fdata 1 s 2) = length (replicate 1024 60 @ replicate 476 (61 :: uchar))" by (simp add: fdata_def assms(2) demo_short_def demo_inode_def)
    fix j assume "j < length (fdata 1 s 2)"
    then have j: "j < 1500" by (simp add: fdata_def assms(2) demo_short_def demo_inode_def)
    then have "j div 1024 = (if j < 1024 then 0 else Suc 0)" by auto
    then have "fbyte 1 s 2 j = (if j < 1024 then 60 else 61)" by (simp add: fbyte_def f assms(1))
    then show "fdata 1 s 2 ! j = (replicate 1024 60 @ replicate 476 61) ! j" using j by (simp add: fdata_def assms(2) demo_short_def demo_inode_def nth_append)
  qed
qed

theorem writei_writes_file_witness:
  "\<exists>(s :: fs_state) pt t. file_has 1 s 2 2 \<and> writei 2 (SrcUser 0) 1500 2000 s [] = (Ret 2000, t, []) \<and>
     fdata 1 t 2 = replicate 1024 60 @ replicate 476 61 @ ubytes s pt 0 2000 \<and> file_has 1 t 2 4"
proof -
  obtain m fl ke pt where up: "\<And>t :: fs_state. mem t = m \<Longrightarrow> freelist t = fl \<Longrightarrow> kend t = ke \<Longrightarrow> kmem_ready t \<Longrightarrow>
      vm_wf t pt \<and> rrange t pt 0 4096 \<and> wrange t pt 0 4096"
    using user_page by metis
  define s where "s = demo_bfs\<lparr>mem := m, freelist := fl, kend := ke, procs := (procs demo_fs)(3 := (procs calm_proc 3)\<lparr>p_pagetable := pt\<rparr>),
    inodes := (inodes calm_fs)(2 := demo_short)\<rparr>"
  have c: "calm {} s" "myp s = 3" using calm_transfer [OF calm_states(5), of s] by (simp_all add: s_def demo_bfs_def demo_ifs_def demo_fs_def)
  have u: "vm_wf s pt" "rrange s pt 0 4096" using up [of s] kmem_ready_calm [OF c(1)] by (simp_all add: s_def)
  have b: "bufs s = bufs calm_bio" "\<And>k. \<not> sl_locked (slocks s k)" "inodes s 2 = demo_short" "IBLOCK 7 (sb s) = 33" "disk s = disk demo_bfs" "sb s = sb demo_bfs"
    by (simp_all add: s_def demo_bfs_def demo_ifs_def demo_fs_def IBLOCK_def calm_fs_def log_state.extend_def fs_state.fields_def)
  have l: "lh_n s = 0" "log_start s = 2" "log_outstanding s = 1" by (simp_all add: s_def demo_bfs_def demo_ifs_def demo_fs_def calm_defs extend_defs fields_defs)
  note k = demo_bitmap [OF b(1) c(1) b(2) l b(5,6)]
  note f = demo_short_file [OF k(6) b(3) l(2)]
  have "{64, 65} \<subseteq> {x. x < sb_size (sb s) \<and> \<not> used 1 s x}" using k(4) [of 64] k(4) [of 65] by (auto simp: k(3))
  then have "card {64, 65 :: uint} \<le> nfree 1 s" unfolding nfree_def by (rule card_mono [OF finite_class.finite])
  then have n: "need s 2 2 4 \<le> nfree 1 s" by (simp add: need_def)
  have g: "grown 2 (unat (1500 :: uint)) (unat (2000 :: uint)) = 4" "nblks (unat (1500 :: uint)) (unat (2000 :: uint)) = 3" by (simp_all add: grown_def nblks_def)
  have nb: "\<not> bitmap_block s x" if "x \<noteq> 46" for x using k(5) that by (auto simp: bitmap_block_def k(3))
  have sp: "space_ok 1 s (insert 33 (fblocks 1 s 2 2))" using k(2-4) nb by (auto simp: space_ok_def f(2))
  have nl: "33 \<notin> log_area (log_start s)" using log_area_2 [of 33] l(2) by auto
  have x: "tx 1 (Suc (16 + nblks (unat (1500 :: uint)) (unat (2000 :: uint)) + 5 * (4 - 2))) s" unfolding g by (rule tx_weaken [OF k(1)]) simp
  have p: "pt = p_pagetable (procs s (myp s))" "rrange s pt 0 (unat (2000 :: uint))" using range_prefix(1) [OF u(2), of "unat (2000 :: uint)"] c(2) by (simp_all add: s_def)
  have i: "1500 \<le> i_size (inodes s 2)" "unat (i_size (inodes s 2)) \<le> 2 * BSIZE" "33 = IBLOCK (i_inum (inodes s 2)) (sb s)" "33 \<notin> fblocks 1 s 2 2"
    using b(4) by (simp_all add: b(3) f(2) demo_short_def demo_inode_def)
  have z: "unat (1500 :: uint) + unat (2000 :: uint) \<le> MAXFILE * BSIZE" by simp
  from writei_writes_file [OF x f(1) sp g(1) [symmetric] n p(1) u(1) p(2) i(1,2) z i(3) nl i(4), of "[]"]
  have "\<exists>t. writei 2 (SrcUser 0) 1500 2000 s [] = (Ret (int (unat (2000 :: uint))), t, []) \<and>
      fdata 1 t 2 = put_at (fdata 1 s 2) (unat (1500 :: uint)) (ubytes s pt 0 (unat (2000 :: uint))) \<and> file_has 1 t 2 4" by blast
  then show ?thesis using f(1) by (auto simp: f(3) put_at_def)
qed

end
