(* ===== verification/DirProps.thy ===== *)
theory DirProps
  imports InodeProps
begin

unbundle bit_operations_syntax

text \<open>
  Directories: a directory is a file of 16-byte entries, an inode number and a name.  \<open>dirlookup\<close> refines the
  search for the first entry in use with the given name.
\<close>

section \<open>Directory entries\<close>

definition dent_inum :: "uchar list \<Rightarrow> nat \<Rightarrow> ushort" where
  "dent_inum bs i = of_bytes (slice bs (16 * i) 2)"

definition dent_name :: "uchar list \<Rightarrow> nat \<Rightarrow> uchar list" where
  "dent_name bs i = cstr (rd (slice bs (16 * i + 2) 14)) DIRSIZ"

definition fname :: "uchar list \<Rightarrow> uchar list" where
  "fname nm = cstr (rd nm) DIRSIZ"

definition dent_hit :: "uchar list \<Rightarrow> uchar list \<Rightarrow> nat \<Rightarrow> bool" where
  "dent_hit nm bs i \<longleftrightarrow> dent_inum bs i \<noteq> 0 \<and> dent_name bs i = fname nm"

definition dir_find :: "uchar list \<Rightarrow> uchar list \<Rightarrow> nat option" where
  "dir_find nm bs = List.find (dent_hit nm bs) [0..<length bs div 16]"

lemma namecmp_iff: "namecmp nm u = 0 \<longleftrightarrow> fname nm = cstr (rd u) DIRSIZ"
  by (simp add: namecmp_def strncmp_eq_iff fname_def)

text \<open>The entry in the local buffer after a read.\<close>

lemma overlay_drop: "map (overlay f 0 bs) [a..<length bs] = drop a bs"
  by (intro nth_equalityI) (auto simp: overlay_def)

lemma overlay_entry:
  assumes "length bs = 16"
  shows "de_inum (overlay f 0 bs) = of_bytes (take 2 bs)" "de_name (overlay f 0 bs) = drop 2 bs"
proof -
  have "map (overlay f 0 bs) [0..<2] = take 2 bs" using assms by (intro nth_equalityI) (auto simp: overlay_def)
  then show "de_inum (overlay f 0 bs) = of_bytes (take 2 bs)" by (simp add: de_inum_def)
  show "de_name (overlay f 0 bs) = drop 2 bs" using overlay_drop [of f bs 2] unfolding assms de_name_def .
qed

section \<open>What a search changes\<close>

text \<open>Reading into the local buffer, any number of times.\<close>

definition look :: "uint \<Rightarrow> 'a fs_state_scheme \<Rightarrow> 'a fs_state_scheme \<Rightarrow> bool" where
  "look d s t \<longleftrightarrow> (\<exists>u c. t = u\<lparr>lbuf := c\<rparr> \<and> rd_frame d s u)"

lemma look_trans: "look d s t \<Longrightarrow> look d t v \<Longrightarrow> look d s v"
proof -
  assume "look d s t" "look d t v"
  then obtain u c w c' where u: "t = u\<lparr>lbuf := c\<rparr>" "rd_frame d s u" and w: "v = w\<lparr>lbuf := c'\<rparr>" "rd_frame d t w" by (auto simp: look_def)
  have "rd_frame d (t\<lparr>lbuf := lbuf u\<rparr>) (w\<lparr>lbuf := lbuf u\<rparr>)" by (rule ls.upd_rd_frame [OF w(2)])
  then have "rd_frame d s (w\<lparr>lbuf := lbuf u\<rparr>)" using u rd_frame_trans [OF u(2)] by simp
  then show ?thesis unfolding look_def w(1) by (intro exI [of _ "w\<lparr>lbuf := lbuf u\<rparr>"] exI [of _ c']) simp
qed

lemma look_refl: "fs_ready d s \<Longrightarrow> look d s s"
  unfolding look_def by (intro exI [of _ s] exI [of _ "lbuf s"]) (simp add: rd_frame_refl)

lemma look_facts:
  assumes "look d s t"
  shows "inodes t = inodes s" "blk d t = blk d s" "fdata d t ip = fdata d s ip" "file_ok d t ip = file_ok d s ip" "fs_ready d s \<Longrightarrow> fs_ready d t"
    "disk t = disk s" "fs_ready d s \<Longrightarrow> calm {} t"
proof -
  obtain u c where u: "t = u\<lparr>lbuf := c\<rparr>" "rd_frame d s u" using assms by (auto simp: look_def)
  note f = rd_frame_facts [OF u(2)]
  show "inodes t = inodes s" "blk d t = blk d s" "fdata d t ip = fdata d s ip" "file_ok d t ip = file_ok d s ip"
    using f ls.upd_file [of d c u] by (simp_all add: u(1))
  show r: "fs_ready d s \<Longrightarrow> fs_ready d t" using f(6) ls.upd_fs_ready [of d c u] by (simp add: u(1))
  show "disk t = disk s" using u by (simp add: rd_frame_def bview_of_def)
  show "fs_ready d s \<Longrightarrow> calm {} t" using r by (simp add: fs_ready_def bs_ok_def)
qed

lemma read_entry:
  assumes "fs_ready d s" "file_ok d s dp" "16 * i + 16 \<le> unat (i_size (inodes s dp))"
  shows "\<exists>t. readi dp (DstLocal 0) (of_nat (16 * i)) 16 s e = (Ret 16, t, e) \<and> look d s t \<and>
    de_inum (lbuf t) = dent_inum (fdata d s dp) i \<and> cstr (rd (de_name (lbuf t))) DIRSIZ = dent_name (fdata d s dp) i"
proof -
  let ?bs = "slice (fdata d s dp) (16 * i) 16"
  have u: "unat (of_nat (16 * i) :: uint) = 16 * i" using assms(3) unat32_less [of "i_size (inodes s dp)"] by (subst unat_of_nat) simp
  have len: "length ?bs = 16" using assms(3) by (simp add: slice_def)
  have "unat (of_nat (16 * i) :: uint) + unat (16 :: uint) < 2 ^ 32" using u assms(2,3) by (simp add: file_ok_def)
  from ls.readi_run [OF assms(1,2) this, of "DstLocal 0" e] obtain c t where
    r: "readi dp (DstLocal 0) (of_nat (16 * i)) 16 s e = (Ret 16, t\<lparr>lbuf := c\<rparr>, e)" "rd_frame d s t" "c = overlay (lbuf s) 0 ?bs"
    using u assms(3) by (auto simp: local_fits_def local_holds_def)
  have "take 2 ?bs = slice (fdata d s dp) (16 * i) 2" "drop 2 ?bs = slice (fdata d s dp) (16 * i + 2) 14"
    by (simp_all add: slice_def take_drop add.commute)
  then have "de_inum c = dent_inum (fdata d s dp) i" "cstr (rd (de_name c)) DIRSIZ = dent_name (fdata d s dp) i"
    using overlay_entry [OF len, of "lbuf s"] r(3) by (simp_all add: dent_inum_def dent_name_def)
  then show ?thesis using r(1,2) by (auto simp: look_def)
qed

section \<open>The inode table\<close>

text \<open>The entry \<open>iget\<close> takes: the one of this inode, or else the first that is free.\<close>

definition itable_slot :: "uint \<Rightarrow> uint \<Rightarrow> 'a fs_state_scheme \<Rightarrow> nat option" where
  "itable_slot d n s =
     (case List.find (\<lambda>i. i_ref (inodes s i) > 0 \<and> i_dev (inodes s i) = d \<and> i_inum (inodes s i) = n) [0..<NINODE] of
        Some ip \<Rightarrow> Some ip
      | None \<Rightarrow> List.find (\<lambda>i. i_ref (inodes s i) = 0) [0..<NINODE])"

definition taken :: "uint \<Rightarrow> uint \<Rightarrow> inode \<Rightarrow> inode" where
  "taken d n x = (if i_ref x > 0 then x\<lparr>i_ref := i_ref x + 1\<rparr> else x\<lparr>i_dev := d, i_inum := n, i_ref := 1, i_valid := False\<rparr>)"

lemma taken_fields:
  "i_ref x > 0 \<Longrightarrow> i_dev x = d \<Longrightarrow> i_inum x = n \<Longrightarrow> i_dev (taken d n x) = d \<and> i_inum (taken d n x) = n \<and> i_ref (taken d n x) = i_ref x + 1"
  "i_ref x = 0 \<Longrightarrow> i_dev (taken d n x) = d \<and> i_inum (taken d n x) = n \<and> i_ref (taken d n x) = i_ref x + 1"
  by (simp_all add: taken_def)

lemma itable_slot_taken:
  assumes "itable_slot d n s = Some ip"
  shows "i_dev (taken d n (inodes s ip)) = d" "i_inum (taken d n (inodes s ip)) = n" "i_ref (taken d n (inodes s ip)) = i_ref (inodes s ip) + 1"
    "ip < NINODE"
  using assms taken_fields [of "inodes s ip"]
  by (auto simp: itable_slot_def find_Some_iff split: option.splits)

lemma iget_run:
  assumes "calm {} s" "itable_slot d n s = Some ip"
  shows "iget d n s e = (Ret ip, s\<lparr>inodes := (inodes s)(ip := taken d n (inodes s ip))\<rparr>, e)"
proof (cases "List.find (\<lambda>i. i_ref (inodes s i) > 0 \<and> i_dev (inodes s i) = d \<and> i_inum (inodes s i) = n) [0..<NINODE]")
  case None
  then have f: "List.find (\<lambda>i. i_ref (inodes s i) = 0) [0..<NINODE] = Some ip" using assms(2) by (simp add: itable_slot_def)
  then have "i_ref (inodes s ip) = 0" by (auto simp: find_Some_iff)
  then show ?thesis using None f assms(1) unfolding iget_def taken_def
    by (simp add: kbind_Ret acquire_calm [OF assms(1)] kget_def kmod_def kret_def release_calm [where L = "{}"])
next
  case (Some jp)
  then have "jp = ip" using assms(2) by (simp add: itable_slot_def)
  moreover have "i_ref (inodes s jp) > 0" using Some by (auto simp: find_Some_iff)
  ultimately show ?thesis using Some assms(1) unfolding iget_def taken_def
    by (simp add: kbind_Ret acquire_calm [OF assms(1)] kget_def kmod_def kret_def release_calm [where L = "{}"])
qed

lemma look_slot: "look d s t \<Longrightarrow> itable_slot d' n t = itable_slot d' n s"
  unfolding itable_slot_def by (drule look_facts(1)) (simp only:)

lemma blk_inodes: "blk d (s\<lparr>inodes := f\<rparr>) = blk d s"
  using fs_ready_inodes(2) [of d "{}" f s] by (simp add: bview_of_def)

section \<open>The search\<close>

definition is_dir :: "uint \<Rightarrow> 'a fs_state_scheme \<Rightarrow> nat \<Rightarrow> bool" where
  "is_dir d s dp \<longleftrightarrow> file_ok d s dp \<and> i_type (inodes s dp) = T_DIR \<and> 16 dvd unat (i_size (inodes s dp))"

lemma entry_off:
  assumes "is_dir d s dp" "i \<le> unat (i_size (inodes s dp)) div 16"
  shows "unat (of_nat (16 * i) :: uint) = 16 * i" "(of_nat (16 * i) :: uint) < i_size (inodes s dp) \<longleftrightarrow> i < unat (i_size (inodes s dp)) div 16"
    "i < unat (i_size (inodes s dp)) div 16 \<Longrightarrow> 16 * i + 16 \<le> unat (i_size (inodes s dp))"
proof -
  obtain k where k: "unat (i_size (inodes s dp)) = 16 * k" using assms(1) by (auto simp: is_dir_def)
  show u: "unat (of_nat (16 * i) :: uint) = 16 * i" using assms(2) k unat32_less [of "i_size (inodes s dp)"] by (subst unat_of_nat) simp
  show "(of_nat (16 * i) :: uint) < i_size (inodes s dp) \<longleftrightarrow> i < unat (i_size (inodes s dp)) div 16"
    unfolding word_less_nat_alt u k by simp
  show "i < unat (i_size (inodes s dp)) div 16 \<Longrightarrow> 16 * i + 16 \<le> unat (i_size (inodes s dp))" using k by simp
qed

lemma look_is_dir: "look d s t \<Longrightarrow> is_dir d t dp = is_dir d s dp"
  by (simp add: is_dir_def look_facts)

lemma dirlookup_round_miss:
  assumes "fs_ready d s" "is_dir d s dp" "i < unat (i_size (inodes s dp)) div 16" "\<not> dent_hit nm (fdata d s dp) i"
  shows "\<exists>t. dirlookup_round dp nm (of_nat (16 * i)) s e = (Ret (Inl (of_nat (16 * Suc i))), t, e) \<and> look d s t"
proof -
  note o = entry_off [OF assms(2) less_imp_le [OF assms(3)]]
  obtain t where t: "readi dp (DstLocal 0) (of_nat (16 * i)) 16 s e = (Ret 16, t, e)" "look d s t"
    "de_inum (lbuf t) = dent_inum (fdata d s dp) i" "cstr (rd (de_name (lbuf t))) DIRSIZ = dent_name (fdata d s dp) i"
    using read_entry [OF assms(1) _ o(3) [OF assms(3)], of e] assms(2) by (auto simp: is_dir_def)
  have n: "(of_nat (16 * Suc i) :: uint) = of_nat (16 * i) + 16" by simp
  have "dirlookup_round dp nm (of_nat (16 * i)) s e = (Ret (Inl (of_nat (16 * Suc i))), t, e)"
    using assms(3,4) o(2) t(3,4) unfolding dirlookup_round_def n
    by (auto simp del: of_nat_mult simp: kbind_Ret kget_def t(1) kret_def namecmp_iff dent_hit_def)
  then show ?thesis using t(2) by blast
qed

lemma dirlookup_round_hit:
  assumes "fs_ready d s" "is_dir d s dp" "i < unat (i_size (inodes s dp)) div 16" "dent_hit nm (fdata d s dp) i"
    "itable_slot d (ucast (dent_inum (fdata d s dp) i)) s = Some ip"
  shows "\<exists>t. dirlookup_round dp nm (of_nat (16 * i)) s e =
      (Ret (Inr (Some (ip, of_nat (16 * i)))), t\<lparr>inodes := (inodes s)(ip := taken d (ucast (dent_inum (fdata d s dp) i)) (inodes s ip))\<rparr>, e) \<and> look d s t"
proof -
  note o = entry_off [OF assms(2) less_imp_le [OF assms(3)]]
  obtain t where t: "readi dp (DstLocal 0) (of_nat (16 * i)) 16 s e = (Ret 16, t, e)" "look d s t"
    "de_inum (lbuf t) = dent_inum (fdata d s dp) i" "cstr (rd (de_name (lbuf t))) DIRSIZ = dent_name (fdata d s dp) i"
    using read_entry [OF assms(1) _ o(3) [OF assms(3)], of e] assms(2) by (auto simp: is_dir_def)
  have g: "iget d (ucast (dent_inum (fdata d s dp) i)) t e = (Ret ip, t\<lparr>inodes := (inodes s)(ip := taken d (ucast (dent_inum (fdata d s dp) i)) (inodes s ip))\<rparr>, e)"
    using iget_run [of t d "ucast (dent_inum (fdata d s dp) i)" ip e] look_facts(1,7) [OF t(2)] look_slot [OF t(2)] assms(1,5) by simp
  have "i_dev (inodes t dp) = d" using assms(2) look_facts(1) [OF t(2)] by (simp add: is_dir_def file_ok_def)
  then show ?thesis using assms(3,4) o(2) t unfolding dirlookup_round_def
    by (intro exI [of _ t]) (simp del: of_nat_mult add: kbind_Ret kget_def kret_def namecmp_iff dent_hit_def g)
qed

lemma dirlookup_scan:
  assumes "fs_ready d s" "is_dir d s dp" "i \<le> j" "j \<le> unat (i_size (inodes s dp)) div 16" "\<forall>k\<in>{i..<j}. \<not> dent_hit nm (fdata d s dp) k"
  shows "\<exists>t. look d s t \<and> (\<forall>a v f. kloop (dirlookup_round dp nm) (of_nat (16 * j)) t e = (Ret a, v, f) \<longrightarrow>
    kloop (dirlookup_round dp nm) (of_nat (16 * i)) s e = (Ret a, v, f))"
  using assms
proof (induction "j - i" arbitrary: i s)
  case 0
  then have "i = j" by simp
  then show ?case using look_refl [OF 0(2)] by blast
next
  case (Suc n)
  have "i < unat (i_size (inodes s dp)) div 16" "\<not> dent_hit nm (fdata d s dp) i" using Suc.hyps(2) Suc.prems by auto
  then obtain t where t: "dirlookup_round dp nm (of_nat (16 * i)) s e = (Ret (Inl (of_nat (16 * Suc i))), t, e)" "look d s t"
    using dirlookup_round_miss [OF Suc.prems(1,2)] by blast
  note f = look_facts [OF t(2)]
  have "\<exists>u. look d t u \<and> (\<forall>a v f. kloop (dirlookup_round dp nm) (of_nat (16 * j)) u e = (Ret a, v, f) \<longrightarrow>
      kloop (dirlookup_round dp nm) (of_nat (16 * Suc i)) t e = (Ret a, v, f))"
    using Suc.hyps(2) Suc.prems by (intro Suc.hyps(1)) (simp_all add: f(1,3,5) look_is_dir [OF t(2)])
  then show ?case using look_trans [OF t(2)] kloop_step_Inl [of "dirlookup_round dp nm" "of_nat (16 * i)" s e, OF t(1)] by blast
qed

lemma dir_find_upt:
  "List.find P [0..<n] = Some i \<Longrightarrow> i < n \<and> P i \<and> (\<forall>k<i. \<not> P k)"
  "List.find P [0..<n] = None \<Longrightarrow> \<forall>k<n. \<not> P k"
  by (auto simp: find_Some_iff find_None_iff)

text \<open>
  C38: on a directory, \<open>dirlookup\<close> returns the first entry in use whose name is the one asked for up to
  \<open>DIRSIZ\<close> characters: its byte offset and an entry of the inode table that now names this device and
  the inode number found, with one more reference.  Without such an entry it returns null.  In both cases
  the disk, the contents of every block and the other inodes are as before.
\<close>

theorem dirlookup_first_entry:
  assumes "fs_ready d s" "is_dir d s dp"
  shows "case dir_find nm (fdata d s dp) of
      None \<Rightarrow> \<exists>t. dirlookup dp nm s e = (Ret None, t, e) \<and> inodes t = inodes s \<and> disk t = disk s \<and> blk d t = blk d s
    | Some i \<Rightarrow> (\<forall>ip. itable_slot d (ucast (dent_inum (fdata d s dp) i)) s = Some ip \<longrightarrow>
        (\<exists>t. dirlookup dp nm s e = (Ret (Some (ip, of_nat (16 * i))), t, e) \<and>
          i_dev (inodes t ip) = d \<and> i_inum (inodes t ip) = ucast (dent_inum (fdata d s dp) i) \<and> i_ref (inodes t ip) = i_ref (inodes s ip) + 1 \<and>
          (\<forall>jp. jp \<noteq> ip \<longrightarrow> inodes t jp = inodes s jp) \<and> disk t = disk s \<and> blk d t = blk d s))"
proof (cases "dir_find nm (fdata d s dp)")
  case None
  let ?n = "unat (i_size (inodes s dp)) div 16"
  have "\<forall>k\<in>{0..<?n}. \<not> dent_hit nm (fdata d s dp) k" using dir_find_upt(2) [OF None [unfolded dir_find_def]] by simp
  from dirlookup_scan [OF assms le0 order_refl this, of e] obtain t where t: "look d s t"
    "\<And>a v f. kloop (dirlookup_round dp nm) (of_nat (16 * ?n)) t e = (Ret a, v, f) \<Longrightarrow> dirlookup dp nm s e = (Ret a, v, f)"
    using assms(2) by (auto simp: dirlookup_def kbind_Ret kget_def is_dir_def)
  have "dirlookup_round dp nm (of_nat (16 * ?n)) t e = (Ret (Inr None), t, e)"
    using entry_off(2) [OF assms(2) order_refl] look_facts(1) [OF t(1)]
    by (simp del: of_nat_mult add: dirlookup_round_def kbind_Ret kget_def kret_def)
  then show ?thesis using None t(2) [OF kloop_step_Inr] look_facts(1,2,6) [OF t(1)] by auto
next
  case (Some i)
  let ?n = "ucast (dent_inum (fdata d s dp) i) :: uint"
  have i: "i < unat (i_size (inodes s dp)) div 16" "dent_hit nm (fdata d s dp) i" "\<forall>k\<in>{0..<i}. \<not> dent_hit nm (fdata d s dp) k"
    using dir_find_upt(1) [OF Some [unfolded dir_find_def]] by auto
  from dirlookup_scan [OF assms le0 less_imp_le [OF i(1)] i(3), of e] obtain t where t: "look d s t"
    "\<And>a v f. kloop (dirlookup_round dp nm) (of_nat (16 * i)) t e = (Ret a, v, f) \<Longrightarrow> dirlookup dp nm s e = (Ret a, v, f)"
    using assms(2) by (auto simp: dirlookup_def kbind_Ret kget_def is_dir_def)
  note l = look_facts [OF t(1)]
  have "\<exists>v. dirlookup dp nm s e = (Ret (Some (ip, of_nat (16 * i))), v\<lparr>inodes := (inodes s)(ip := taken d ?n (inodes s ip))\<rparr>, e) \<and> look d s v"
    if "itable_slot d ?n s = Some ip" for ip
  proof -
    have "\<exists>v. dirlookup_round dp nm (of_nat (16 * i)) t e =
        (Ret (Inr (Some (ip, of_nat (16 * i)))), v\<lparr>inodes := (inodes s)(ip := taken d ?n (inodes s ip))\<rparr>, e) \<and> look d t v"
      using dirlookup_round_hit [of d t dp i nm ip e] assms i(1,2) that by (simp add: l look_is_dir [OF t(1)] look_slot [OF t(1)])
    then show ?thesis using t(2) [OF kloop_step_Inr] look_trans [OF t(1)] by blast
  qed
  then show ?thesis using Some itable_slot_taken(1-3) look_facts(2,6) [of d s] by (fastforce simp: blk_inodes)
qed

text \<open>A directory in block 60: a free entry, then two entries of the same name.\<close>

definition demo_dir :: "uchar list" where
  "demo_dir = [0, 0, 98] @ replicate 13 0 @ [5, 0, 98] @ replicate 13 0 @ [6, 0, 98] @ replicate 13 0"

definition demo_dfs :: fs_state where
  "demo_dfs = calm_fs\<lparr>disk := (\<lambda>n. if n = 60 then demo_dir @ replicate 976 0 else replicate 1024 0),
     inodes := (inodes calm_fs)(2 := demo_inode\<lparr>i_type := T_DIR, i_size := 48\<rparr>)\<rparr>"

lemma demo_dir_length: "length demo_dir = 48"
  by (simp add: demo_dir_def)

lemma demo_dfs_blk: "blk 1 demo_dfs = disk demo_dfs"
proof -
  have c: "bufs demo_dfs = bufs calm_bio" "calm {} demo_dfs" "\<And>k. \<not> sl_locked (slocks demo_dfs k)" by (simp_all add: demo_dfs_def)
  show ?thesis using calm_log_ok(3) [OF c] by simp
qed

lemma demo_dfs_ready: "fs_ready 1 demo_dfs"
  by (rule demo_fs_ready) (simp_all add: demo_dfs_def)

lemma demo_dfs_dir: "is_dir 1 demo_dfs 2" "fdata 1 demo_dfs 2 = demo_dir"
proof -
  have x: "inodes demo_dfs 2 = demo_inode\<lparr>i_type := T_DIR, i_size := 48\<rparr>" by (simp add: demo_dfs_def)
  have b: "blk 1 demo_dfs 60 = demo_dir @ replicate 976 0" by (simp add: demo_dfs_blk) (simp add: demo_dfs_def)
  have l: "length (blk 1 demo_dfs n) = 1024" for n by (simp add: demo_dfs_blk) (simp add: demo_dfs_def demo_dir_length)
  have a: "faddr 1 demo_dfs 2 0 = 60" by (simp add: faddr_def x demo_inode_def)
  have "faddr 1 demo_dfs 2 i \<noteq> 0 \<and> i < 12" if "i * 1024 < 48" for i
  proof -
    have "i = 0" using that by arith
    then show ?thesis using a by simp
  qed
  then have "\<forall>i<MAXFILE. i * BSIZE < 48 \<longrightarrow> faddr 1 demo_dfs 2 i \<noteq> 0 \<and> (NDIRECT \<le> i \<longrightarrow> i_addrs (inodes demo_dfs 2) NDIRECT \<noteq> 0)"
    by (metis (no_types, lifting) not_le)
  then show "is_dir 1 demo_dfs 2" using l by (simp add: is_dir_def file_ok_def x demo_inode_def)
  have "fbyte 1 demo_dfs 2 k = demo_dir ! k" if "k < 48" for k using that a by (simp add: fbyte_def b nth_append demo_dir_length)
  then have "fdata 1 demo_dfs 2 = map (\<lambda>k. demo_dir ! k) [0..<length demo_dir]"
    by (simp add: fdata_def x demo_inode_def demo_dir_length del: upt_rec_numeral)
  then show "fdata 1 demo_dfs 2 = demo_dir" by (simp only: map_nth)
qed

theorem dirlookup_first_entry_witness:
  "\<exists>t. dirlookup 2 [98, 0] demo_dfs [] = (Ret (Some (0, 16)), t, []) \<and> i_inum (inodes t 0) = 5 \<and> i_ref (inodes t 0) = 1"
proof -
  have f: "dir_find [98, 0] demo_dir = Some 1" by code_simp
  have n: "dent_inum demo_dir (Suc 0) = 5" by code_simp
  have z: "i_ref (inodes demo_dfs i) = 0" "inodes demo_dfs 2 = demo_inode\<lparr>i_type := T_DIR, i_size := 48\<rparr>" if "i \<noteq> 2" for i
    using that by (simp_all add: demo_dfs_def calm_defs extend_defs fields_defs)
  have "\<not> (i_ref (inodes demo_dfs i) > 0 \<and> i_dev (inodes demo_dfs i) = 1 \<and> i_inum (inodes demo_dfs i) = 5)" for i
    using z [of i] z(2) [of 0] by (cases "i = 2") (simp_all add: demo_inode_def)
  then have "List.find (\<lambda>i. i_ref (inodes demo_dfs i) > 0 \<and> i_dev (inodes demo_dfs i) = 1 \<and> i_inum (inodes demo_dfs i) = 5) [0..<NINODE] = None"
    by (simp add: find_None_iff)
  moreover have "List.find (\<lambda>i. i_ref (inodes demo_dfs i) = 0) [0..<NINODE] = Some 0" using z(1) [of 0] by (subst upt_conv_Cons) simp_all
  ultimately have i: "itable_slot 1 5 demo_dfs = Some 0" "i_ref (inodes demo_dfs 0) = 0" using z(1) [of 0] by (simp_all add: itable_slot_def)
  show ?thesis using dirlookup_first_entry [OF demo_dfs_ready demo_dfs_dir(1), of "[98, 0]" "[]"] by (auto simp: demo_dfs_dir(2) f n i)
qed

end
