(* ===== verification/BioInit.thy ===== *)
theory BioInit
  imports LogProps
begin

text \<open>
  The buffer cache at boot and in use: \<open>binit\<close> builds the list of buffers and establishes the
  invariant of \<open>BlockStore\<close>; a written block is read back; a miss recycles the least recently
  used buffer.
\<close>

section \<open>Building the list\<close>

definition push :: "nat \<Rightarrow> (nat \<Rightarrow> buf) \<Rightarrow> nat \<Rightarrow> buf" where
  "push b B =
     (let B = set_next b (b_next (B HEAD)) B;
          B = set_prev b HEAD B;
          B = set_prev (b_next (B HEAD)) b B
      in set_next HEAD b B)"

definition chain :: "(nat \<Rightarrow> buf) \<Rightarrow> nat list \<Rightarrow> bool" where
  "chain B xs \<longleftrightarrow> linked (\<lambda>i. b_next (B i)) HEAD xs HEAD \<and> linked (\<lambda>i. b_prev (B i)) HEAD (rev xs) HEAD"

lemma push_content: "same_content (push b B i) (B i)"
  unfolding push_def Let_def link_fields by (simp add: same_content_def)

lemma chain_push:
  assumes "chain B xs" "distinct (HEAD # xs)" "b \<notin> set (HEAD # xs)"
  shows "chain (push b B) (b # xs)"
proof -
  let ?n = "\<lambda>i. b_next (B i)" and ?p = "\<lambda>i. b_prev (B i)"
  have l: "linked ?n HEAD xs HEAD" "linked ?p HEAD (rev xs) HEAD" using assms(1) by (simp_all add: chain_def)
  have f: "?n HEAD = last (HEAD # rev xs)" using linked_first [OF l(1)] by (simp only: hd_snoc_last)
  have h: "b \<noteq> HEAD" using assms(3) by simp
  have "(\<lambda>i. b_next (push b B i)) = ?n(b := ?n HEAD, HEAD := b)" using h by (auto simp: push_def Let_def fun_eq_iff)
  moreover have "(\<lambda>i. b_prev (push b B i)) = ?p(b := HEAD, ?n HEAD := b)" using h by (auto simp: push_def Let_def fun_eq_iff)
  moreover have "linked (?n(b := ?n HEAD, HEAD := b)) HEAD (b # xs) HEAD" using linked_push [OF l(1)] assms by simp
  moreover have "linked (?p(b := HEAD, ?n HEAD := b)) HEAD (rev xs @ [b]) HEAD"
    unfolding f using linked_snoc [OF l(2), of b] assms by simp
  ultimately show ?thesis by (simp add: chain_def)
qed

definition binit_one :: "nat \<Rightarrow> (unit, 'a bio_state_scheme) K" where
  "binit_one b = kseq [
     kmod (\<lambda>s. set_buf b (\<lambda>x. x\<lparr>b_next := b_next (bufs s HEAD)\<rparr>) s),
     kmod (set_buf b (\<lambda>x. x\<lparr>b_prev := HEAD\<rparr>)),
     initsleeplock (BufSl b) ''buffer'',
     kmod (\<lambda>s. set_buf (b_next (bufs s HEAD)) (\<lambda>x. x\<lparr>b_prev := b\<rparr>) s),
     kmod (set_buf HEAD (\<lambda>x. x\<lparr>b_next := b\<rparr>))]"

lemma binit_one_run:
  "\<exists>t. binit_one b s e = (Ret (), t, e) \<and> bufs t = push b (bufs s) \<and> disk t = disk s \<and>
     slocks t = (slocks s)(BufSl b := (slocks s (BufSl b))\<lparr>sl_name := ''buffer'', sl_locked := False, sl_pid := 0\<rparr>) \<and>
     (\<forall>lk. lk \<noteq> SleepLk (BufSl b) \<longrightarrow> locks t lk = locks s lk)"
  by (simp add: binit_one_def initsleeplock_def initlock_def kbind_Ret kmod_run kret_run set_next_def [symmetric] set_prev_def [symmetric]
      push_def Let_def del: link_fields)

lemma same_content_trans: "same_content x y \<Longrightarrow> same_content y z \<Longrightarrow> same_content x z"
  by (simp add: same_content_def)

lemma binit_loop:
  assumes "chain (bufs s) []" "k \<le> NBUF"
  shows "\<exists>t. kfor [0..<k] binit_one s e = (Ret (), t, e) \<and> chain (bufs t) (rev [0..<k]) \<and> disk t = disk s \<and>
    (\<forall>i. same_content (bufs t i) (bufs s i)) \<and> (\<forall>i<k. \<not> sl_locked (slocks t (BufSl i))) \<and> locks t BcacheLock = locks s BcacheLock"
  using assms(2)
proof (induction k)
  case 0
  then show ?case using assms(1) by (simp add: kret_run same_content_def)
next
  case (Suc k)
  then obtain t where t: "kfor [0..<k] binit_one s e = (Ret (), t, e)" "chain (bufs t) (rev [0..<k])" "disk t = disk s"
      "\<forall>i. same_content (bufs t i) (bufs s i)" "\<forall>i<k. \<not> sl_locked (slocks t (BufSl i))" "locks t BcacheLock = locks s BcacheLock"
    by auto
  obtain u where u: "binit_one k t e = (Ret (), u, e)" "bufs u = push k (bufs t)" "disk u = disk t"
      "slocks u = (slocks t)(BufSl k := (slocks t (BufSl k))\<lparr>sl_name := ''buffer'', sl_locked := False, sl_pid := 0\<rparr>)"
      "\<forall>lk. lk \<noteq> SleepLk (BufSl k) \<longrightarrow> locks u lk = locks t lk"
    using binit_one_run [of k t e] by blast
  have "chain (bufs u) (k # rev [0..<k])" unfolding u(2) using Suc.prems by (intro chain_push t(2)) auto
  moreover have "\<forall>i. same_content (bufs u i) (bufs s i)" using push_content [of k "bufs t"] t(4) same_content_trans u(2) by metis
  moreover have "kfor [0..<Suc k] binit_one s e = (Ret (), u, e)" using t(1) u(1) by (simp add: kfor_append kbind_Ret kbind_kret_unit)
  moreover have "\<forall>i<Suc k. \<not> sl_locked (slocks u (BufSl i))" using t(5) u(4) by (auto simp: less_Suc_eq)
  ultimately show ?case using t(3,6) u(3,5) by (intro exI [of _ u]) simp
qed

section \<open>Properties\<close>

text \<open>
  C23: \<open>binit\<close> establishes the invariant of the buffer cache: from zeroed buffers it returns with
  all 30 buffers on one circular doubly linked list, none locked, none in use, so that every
  block reads as it is on the disk and \<open>bcache.lock\<close> is free.
\<close>

theorem binit_establishes:
  assumes "\<forall>i<NBUF. b_refcnt (bufs s i) = 0 \<and> b_dev (bufs s i) \<noteq> d"
  shows "\<exists>t. binit s e = (Ret (), t, e) \<and> lru (bufs t) (rev [0..<NBUF]) \<and> bio_ok d {} t \<and> blk d t = disk s \<and>
    pins d {} t = (\<lambda>_. 0) \<and> lock_clean t BcacheLock"
proof -
  let ?s = "s\<lparr>locks := (locks s)(BcacheLock := \<lparr>lk_locked = False, lk_name = ''bcache'', lk_cpu = None\<rparr>),
      bufs := (bufs s)(HEAD := (bufs s HEAD)\<lparr>b_prev := HEAD, b_next := HEAD\<rparr>)\<rparr>"
  have "chain (bufs ?s) []" by (simp add: chain_def)
  then obtain t where t: "kfor [0..<NBUF] binit_one ?s e = (Ret (), t, e)" "chain (bufs t) (rev [0..<NBUF])" "disk t = disk s"
      "\<forall>i. same_content (bufs t i) (bufs ?s i)" "\<forall>i<NBUF. \<not> sl_locked (slocks t (BufSl i))" "locks t BcacheLock = locks ?s BcacheLock"
    using binit_loop [of ?s NBUF e] by auto
  have "binit s e = (Ret (), t, e)"
    unfolding binit_def binit_one_def [symmetric] using t(1) by (simp add: initlock_def kbind_Ret kmod_run kbind_kret_unit kret_run)
  moreover have l: "lru (bufs t) (rev [0..<NBUF])"
    using t(2) by (simp only: lru_def chain_def set_rev set_upt atLeast0LessThan distinct_rev distinct_upt)
  moreover have f: "b_refcnt (bufs t i) = 0" "b_dev (bufs t i) \<noteq> d" if "i < NBUF" for i
    using t(4) assms that by (auto simp: same_content_def dest!: spec [of _ i])
  have k: "\<not> bkey d t i n" if "i < NBUF" for i n using f(2) [OF that] by (simp add: bkey_def)
  then have c: "cached d t n = None" for n by (rule cached_None)
  have "slot_ok d {} t i" if "i < NBUF" for i using f [OF that] t(5) that by (simp add: slot_ok_def buf_ok_def)
  then have "bio_ok d {} t" using l k by (auto simp: bio_ok_def uniq_def)
  moreover have "blk d t = disk s" "pins d {} t = (\<lambda>_. 0)" using c t(3) by (simp_all add: blk_def pins_def fun_eq_iff)
  moreover have "lock_clean t BcacheLock" using t(6) by (simp add: lock_clean_def)
  ultimately show ?thesis by blast
qed

theorem binit_establishes_witness: "\<exists>t. binit calm_bio [] = (Ret (), t, []) \<and> bio_ok 1 {} t"
proof -
  have "\<forall>i<NBUF. b_refcnt (bufs calm_bio i) = 0 \<and> b_dev (bufs calm_bio i) \<noteq> 1" by (simp add: calm_bio_bufs idle_buf_def)
  from binit_establishes [OF this, of "[]"] show ?thesis by blast
qed

text \<open>
  C11: what is written through the cache is read back.  Reading a block, replacing its data,
  writing it to the disk and releasing it updates the disk at that block only; a later read
  of any block returns the new data for that block and the old contents for every other.
\<close>

theorem bio_write_read:
  assumes "bs_ok d {} s" "roomy 0 (bview_of d {} s) n"
  shows "\<exists>t. kbind (bread d n) (\<lambda>b. kbind (kmod (set_data b x)) (\<lambda>_. kbind (bwrite b) (\<lambda>_. brelse b))) s e = (Ret (), t, e) \<and>
    disk t = (disk s)(n := x) \<and> dwrites t = (n, x) # dwrites s \<and> bs_ok d {} t \<and>
    (\<forall>m e'. roomy 0 (bview_of d {} s) m \<longrightarrow>
       (\<exists>b u. bread d m t e' = (Ret b, u, e') \<and> b_blockno (bufs u b) = m \<and> b_data (bufs u b) = (if m = n then x else blk d s m)))"
proof -
  obtain t where t: "kbind (bread d n) (\<lambda>b. kbind (kmod (\<lambda>s. bput b x s)) (\<lambda>_. kbind (bwrite b) (\<lambda>_. brelse b))) s e = (Ret (), t, e)"
      "bs_ok d {} t" "bview_of d {} t = written n x (bview_of d {} s)"
    using bs.write_block [OF assms, of "\<lambda>_ _. x" e] by auto
  have v: "blk d t = (blk d s)(n := x)" "disk t = (disk s)(n := x)" "dwrites t = (n, x) # dwrites s"
    using arg_cong [OF t(3), of bv_blk] arg_cong [OF t(3), of bv_disk] arg_cong [OF t(3), of bv_writes] by simp_all
  have "\<exists>b u. bread d m t e' = (Ret b, u, e') \<and> b_blockno (bufs u b) = m \<and> b_data (bufs u b) = (if m = n then x else blk d s m)"
    if "roomy 0 (bview_of d {} s) m" for m e'
  proof -
    have "roomy (card ({} :: nat set)) (bview_of d {} t) m" using that roomy_pins [of "bview_of d {} t" "bview_of d {} s" 0 m] t(3) by simp
    then obtain b u where u: "bread d m t e' = (Ret b, u, e')" "bs_ok d {b} u" "bview_of d {b} u = bview_of d {} t" "b_blockno (bufs u b) = m"
      using bs_bread [OF t(2), of m e'] by auto
    have "b_data (bufs u b) = blk d t m" using bs.data_view [OF u(2), of b] u(3,4) by simp
    then show ?thesis using u v by auto
  qed
  then show ?thesis using t(1,2) v by (auto simp: set_data_bput)
qed

theorem bio_write_read_witness:
  "\<exists>t b u. kbind (bread 1 9) (\<lambda>b. kbind (kmod (set_data b (replicate 1024 3))) (\<lambda>_. kbind (bwrite b) (\<lambda>_. brelse b))) calm_log [] = (Ret (), t, []) \<and>
     bread 1 9 t [] = (Ret b, u, []) \<and> b_data (bufs u b) = replicate 1024 3"
proof -
  have k: "bs_ok 1 {} calm_log" "pins 1 {} calm_log = (\<lambda>_. 0)" by (rule calm_log_ok; simp)+
  have "roomy 0 (bview_of 1 {} calm_log) 9" using k(2) by (simp add: roomy_def)
  then show ?thesis using bio_write_read [OF k(1), of 9 "replicate 1024 3" "[]"] by fastforce
qed

end
