(* ===== verification/ConsoleProps.thy ===== *)
theory ConsoleProps
  imports States
begin

text \<open>
  The line discipline of the console.  Behind the ring buffer and its three counters there
  are two lists: the bytes committed to readers and the line that is still edited.
  \<open>consoleintr\<close> acts on them as \<open>line_char\<close> says, \<open>consoleread\<close> takes from the first.
\<close>

section \<open>Bookkeeping\<close>

lemma acquired_cons_state [simp, calm_simps]:
  "(acquired lk s)\<lparr>cons_buf := x_cons_buf\<rparr> = acquired lk (s\<lparr>cons_buf := x_cons_buf\<rparr>)"
  "cons_buf (acquired lk s) = cons_buf s"
  "(acquired lk s)\<lparr>cons_r := x_cons_r\<rparr> = acquired lk (s\<lparr>cons_r := x_cons_r\<rparr>)"
  "cons_r (acquired lk s) = cons_r s"
  "(acquired lk s)\<lparr>cons_w := x_cons_w\<rparr> = acquired lk (s\<lparr>cons_w := x_cons_w\<rparr>)"
  "cons_w (acquired lk s) = cons_w s"
  "(acquired lk s)\<lparr>cons_e := x_cons_e\<rparr> = acquired lk (s\<lparr>cons_e := x_cons_e\<rparr>)"
  "cons_e (acquired lk s) = cons_e s"
  "(acquired lk s)\<lparr>devsw_read := x_devsw_read\<rparr> = acquired lk (s\<lparr>devsw_read := x_devsw_read\<rparr>)"
  "devsw_read (acquired lk s) = devsw_read s"
  "(acquired lk s)\<lparr>devsw_write := x_devsw_write\<rparr> = acquired lk (s\<lparr>devsw_write := x_devsw_write\<rparr>)"
  "devsw_write (acquired lk s) = devsw_write s"
  by (cases s; simp add: acquired_def pushed_def noff_def sie_on_def)+

lemma myp_cons_state [simp]:
  "myp (s\<lparr>cons_buf := x_cons_buf\<rparr>) = myp s"
  "myp (s\<lparr>cons_r := x_cons_r\<rparr>) = myp s"
  "myp (s\<lparr>cons_w := x_cons_w\<rparr>) = myp s"
  "myp (s\<lparr>cons_e := x_cons_e\<rparr>) = myp s"
  "myp (s\<lparr>devsw_read := x_devsw_read\<rparr>) = myp s"
  "myp (s\<lparr>devsw_write := x_devsw_write\<rparr>) = myp s"
  by (simp_all add: myp_def curproc_def)

lemma calm_cons_buf [simp]: "calm L (s\<lparr>cons_buf := x\<rparr>) = calm L s"
  by (rule calm_upd_iff [where u = "\<lambda>x s. s\<lparr>cons_buf := x\<rparr>" and sel = cons_buf])
    (simp_all add: cs_comm_def cons_state.splits)

lemma calm_cons_r [simp]: "calm L (s\<lparr>cons_r := x\<rparr>) = calm L s"
  by (rule calm_upd_iff [where u = "\<lambda>x s. s\<lparr>cons_r := x\<rparr>" and sel = cons_r])
    (simp_all add: cs_comm_def cons_state.splits)

lemma calm_cons_w [simp]: "calm L (s\<lparr>cons_w := x\<rparr>) = calm L s"
  by (rule calm_upd_iff [where u = "\<lambda>x s. s\<lparr>cons_w := x\<rparr>" and sel = cons_w])
    (simp_all add: cs_comm_def cons_state.splits)

lemma calm_cons_e [simp]: "calm L (s\<lparr>cons_e := x\<rparr>) = calm L s"
  by (rule calm_upd_iff [where u = "\<lambda>x s. s\<lparr>cons_e := x\<rparr>" and sel = cons_e])
    (simp_all add: cs_comm_def cons_state.splits)

lemma calm_devsw_read [simp]: "calm L (s\<lparr>devsw_read := x\<rparr>) = calm L s"
  by (rule calm_upd_iff [where u = "\<lambda>x s. s\<lparr>devsw_read := x\<rparr>" and sel = devsw_read])
    (simp_all add: cs_comm_def cons_state.splits)

lemma calm_devsw_write [simp]: "calm L (s\<lparr>devsw_write := x\<rparr>) = calm L s"
  by (rule calm_upd_iff [where u = "\<lambda>x s. s\<lparr>devsw_write := x\<rparr>" and sel = devsw_write])
    (simp_all add: cs_comm_def cons_state.splits)


section \<open>The two lists\<close>

definition committed :: "'a cons_state_scheme \<Rightarrow> uchar list" where
  "committed s = ring_list INPUT_BUF_SIZE (cons_buf s) (cons_r s) (cons_w s)"

definition editing :: "'a cons_state_scheme \<Rightarrow> uchar list" where
  "editing s = ring_list INPUT_BUF_SIZE (cons_buf s) (cons_w s) (cons_e s)"

definition cons_ok :: "'a cons_state_scheme \<Rightarrow> bool" where
  "cons_ok s \<longleftrightarrow> unat (cons_w s - cons_r s) \<le> unat (cons_e s - cons_r s) \<and> unat (cons_e s - cons_r s) \<le> 128"

lemma ring_split:
  fixes r w e :: uint
  assumes "unat (w - r) \<le> unat (e - r)"
  shows "unat (e - r) = unat (w - r) + unat (e - w)" "ring_list N d r e = ring_list N d r w @ ring_list N d w e"
proof -
  have "w - r \<le> e - r" using assms by (simp add: word_le_nat_alt)
  then have "unat (e - r - (w - r)) = unat (e - r) - unat (w - r)" by (rule unat_sub)
  moreover have "e - r - (w - r) = e - w" by simp
  ultimately show u: "unat (e - r) = unat (w - r) + unat (e - w)" using assms by simp
  have w: "r + of_nat (unat (w - r)) = w" by simp
  have "map (\<lambda>i. d (unat ((r + of_nat i) mod N))) [unat (w - r)..<unat (w - r) + unat (e - w)] =
      map (\<lambda>i. d (unat ((w + of_nat i) mod N))) [0..<unat (e - w)]"
    by (rule nth_equalityI) (simp_all add: add.assoc [symmetric] w)
  then show "ring_list N d r e = ring_list N d r w @ ring_list N d w e"
    unfolding ring_list_def u upt_add_eq_append [OF le0] map_append by (rule arg_cong)
qed

lemma cons_ok_lists:
  assumes "cons_ok s"
  shows "ring_list INPUT_BUF_SIZE (cons_buf s) (cons_r s) (cons_e s) = committed s @ editing s"
    "unat (cons_e s - cons_r s) = length (committed s) + length (editing s)"
  using assms ring_split [of "cons_w s" "cons_r s" "cons_e s"] by (simp_all add: cons_ok_def committed_def editing_def)

text \<open>A character that is typed, with the echo of the editing keys.\<close>

definition line_char :: "int \<Rightarrow> uchar list \<times> uchar list \<Rightarrow> uchar list \<times> uchar list" where
  "line_char c = (\<lambda>(com, ed).
     if c = 0x15 then (com, rev (dropWhile (\<lambda>b. b \<noteq> 10) (rev ed)))
     else if c = 8 \<or> c = 0x7f then (com, butlast ed)
     else if c = 0 \<or> 128 \<le> length com + length ed then (com, ed)
     else
       let b = (if c = 13 then 10 else of_int c) in
       if b = 10 \<or> b = 4 \<or> length com + length ed = 127 then (com @ ed @ [b], []) else (com, ed @ [b]))"

definition line_echo :: "int \<Rightarrow> uchar list \<times> uchar list \<Rightarrow> uchar list" where
  "line_echo c = (\<lambda>(com, ed).
     if c = 0x15 then concat (map (\<lambda>_. [8, 32, 8]) (takeWhile (\<lambda>b. b \<noteq> 10) (rev ed)))
     else if c = 8 \<or> c = 0x7f then (if ed = [] then [] else [8, 32, 8])
     else if c = 0 \<or> 128 \<le> length com + length ed then []
     else [if c = 13 then 10 else of_int c])"

section \<open>Editing\<close>

lemma cons_rub:
  fixes s :: "'a cons_state_scheme"
  assumes "cons_ok s" "cons_e s \<noteq> cons_w s"
  defines "t \<equiv> s\<lparr>cons_e := cons_e s - 1\<rparr>"
  shows "cons_ok t" "committed t = committed s" "editing s = editing t @ [cons_buf s (unat ((cons_e s - 1) mod INPUT_BUF_SIZE))]"
proof -
  show e: "editing s = editing t @ [cons_buf s (unat ((cons_e s - 1) mod INPUT_BUF_SIZE))]"
    using ring_unput [of "cons_w s" "cons_e s"] assms(2) by (simp add: editing_def t_def)
  show "committed t = committed s" by (simp add: committed_def t_def)
  have l: "unat (cons_e s - cons_r s) = unat (cons_w s - cons_r s) + Suc (length (editing t))"
    using cons_ok_lists(2) [OF assms(1)] by (simp add: e committed_def)
  then have "cons_e s - cons_r s \<noteq> 0" by (metis add_Suc_right nat.distinct(1) unat_0)
  from unat_minus_one [OF this] have "unat (cons_e s - 1 - cons_r s) = unat (cons_e s - cons_r s) - 1" by (simp add: algebra_simps)
  then show "cons_ok t" using assms(1) l by (simp add: cons_ok_def t_def)
qed

lemma cons_type:
  fixes s :: "'a cons_state_scheme" and b :: uchar
  assumes "cons_ok s" "unat (cons_e s - cons_r s) < 128"
  defines "t \<equiv> s\<lparr>cons_buf := (cons_buf s)(unat (cons_e s mod INPUT_BUF_SIZE) := b), cons_e := cons_e s + 1\<rparr>"
  shows "cons_ok t" "committed t = committed s" "editing t = editing s @ [b]" "unat (cons_e t - cons_r t) = Suc (unat (cons_e s - cons_r s))"
proof -
  have u: "unat (cons_e s + 1 - cons_r s) = Suc (unat (cons_e s - cons_r s))"
  proof -
    have "cons_e s + 1 - cons_r s = (cons_e s - cons_r s) + 1" by simp
    moreover have "unat ((cons_e s - cons_r s) + 1) = Suc (unat (cons_e s - cons_r s))"
      using unat_add_of_nat [of "cons_e s - cons_r s" 1] assms(2) by simp
    ultimately show ?thesis by (simp only:)
  qed
  then show "unat (cons_e t - cons_r t) = Suc (unat (cons_e s - cons_r s))" by (simp add: t_def)
  show ok: "cons_ok t" using assms(1,2) u by (simp add: cons_ok_def t_def)
  have "ring_list INPUT_BUF_SIZE (cons_buf t) (cons_r t) (cons_e t) = ring_list INPUT_BUF_SIZE (cons_buf s) (cons_r s) (cons_e s) @ [b]"
    using ring_put [of "cons_e s" "cons_r s" INPUT_BUF_SIZE "cons_buf s" b] assms(2) by (simp add: t_def)
  then have "committed t @ editing t = committed s @ editing s @ [b]"
    using cons_ok_lists(1) [OF ok] cons_ok_lists(1) [OF assms(1)] by simp
  moreover have "length (committed t) = length (committed s)" by (simp add: committed_def t_def)
  ultimately show "committed t = committed s" "editing t = editing s @ [b]" by simp_all
qed

lemma cons_commit:
  fixes s :: "'a cons_state_scheme"
  assumes "cons_ok s"
  defines "t \<equiv> s\<lparr>cons_w := cons_e s\<rparr>"
  shows "cons_ok t" "committed t = committed s @ editing s" "editing t = []"
  using assms(1) cons_ok_lists(1) [OF assms(1)] by (simp_all add: t_def cons_ok_def committed_def editing_def)

section \<open>Running the interrupt handler\<close>

text \<open>A state that differs in the serial port only has the same lists.\<close>

lemma sends_cons:
  assumes "sends bs s t"
  shows "cons_e t = cons_e s" "cons_w t = cons_w s" "cons_r t = cons_r s" "cons_buf t = cons_buf s" "procs t = procs s"
    "committed t = committed s" "editing t = editing s" "cons_ok t = cons_ok s"
proof -
  have t: "t = s\<lparr>uart_pos := uart_pos t, uart_w := map (Pair THR) (rev bs) @ uart_w s\<rparr>" using assms by (simp add: sends_def)
  show f: "cons_e t = cons_e s" "cons_w t = cons_w s" "cons_r t = cons_r s" "cons_buf t = cons_buf s" "procs t = procs s"
    by (subst t, simp)+
  show "committed t = committed s" "editing t = editing s" "cons_ok t = cons_ok s"
    by (simp_all add: committed_def editing_def cons_ok_def f)
qed

lemma sends_upds:
  "sends bs s t \<Longrightarrow> sends bs (s\<lparr>cons_e := x\<rparr>) (t\<lparr>cons_e := x\<rparr>)"
  "sends bs s t \<Longrightarrow> sends bs (s\<lparr>cons_w := y\<rparr>) (t\<lparr>cons_w := y\<rparr>)"
  "sends bs s t \<Longrightarrow> sends bs (s\<lparr>cons_buf := z, cons_e := x\<rparr>) (t\<lparr>cons_buf := z, cons_e := x\<rparr>)"
  "sends bs s t \<Longrightarrow> sends bs (s\<lparr>procs := p\<rparr>) (t\<lparr>procs := p\<rparr>)"
  unfolding sends_def by (drule arg_cong [where f = "\<lambda>u. u\<lparr>cons_e := x\<rparr>"], simp)
    (drule arg_cong [where f = "\<lambda>u. u\<lparr>cons_w := y\<rparr>"], simp, drule arg_cong [where f = "\<lambda>u. u\<lparr>cons_buf := z, cons_e := x\<rparr>"], simp,
     drule arg_cong [where f = "\<lambda>u. u\<lparr>procs := p\<rparr>"], simp)

lemma consputc_locked:
  assumes "tx_ok {} s"
  shows "\<exists>t. consputc c (acquired ConsLock s) e = (Ret (), acquired ConsLock t, e) \<and> sends (con_bytes c) s t"
proof -
  have "tx_ok {ConsLock} (acquired ConsLock s)" using assms calm_acquired [of "{}" s ConsLock] by (simp add: tx_ok_def tx_live_def)
  then obtain u where u: "consputc c (acquired ConsLock s) e = (Ret (), u, e)" "sends (con_bytes c) (acquired ConsLock s) u"
    using senderD [OF sender_consputc] by blast
  let ?t = "s\<lparr>uart_pos := uart_pos u, uart_w := map (Pair THR) (rev (con_bytes c)) @ uart_w s\<rparr>"
  have "u = acquired ConsLock ?t" using u(2) by (simp add: sends_def)
  then show ?thesis using u(1) by (intro exI [of _ ?t]) (simp add: sends_def)
qed

lemma rubout_locked:
  fixes s :: "'a cons_state_scheme"
  assumes "tx_ok {} s"
  shows "\<exists>t. cons_rubout (acquired ConsLock s) e = (Ret (), acquired ConsLock t, e) \<and> sends [8, 32, 8] (s\<lparr>cons_e := cons_e s - 1\<rparr>) t"
proof -
  let ?s = "s\<lparr>cons_e := cons_e s - 1\<rparr>"
  have "tx_ok {} ?s" using assms by (simp add: tx_ok_def tx_live_def)
  then obtain t where t: "consputc BACKSPACE (acquired ConsLock ?s) e = (Ret (), acquired ConsLock t, e)" "sends (con_bytes BACKSPACE) ?s t"
    using consputc_locked by blast
  then have "cons_rubout (acquired ConsLock s) e = (Ret (), acquired ConsLock t, e)"
    by (simp add: cons_rubout_def kbind_Ret kret_run kbind_kret_unit)
  then show ?thesis using t(2) by (auto simp: con_bytes_def)
qed

lemma cons_kill_stop:
  "cons_e s = cons_w s \<or> cons_buf s (unat ((cons_e s - 1) mod INPUT_BUF_SIZE)) = 10 \<Longrightarrow> cons_kill_line s e = (Ret (), s, e)"
  unfolding cons_kill_line_def by (rule kloop_step_Inr) (auto simp: kret_run)

lemma cons_kill_go:
  assumes "cons_e s \<noteq> cons_w s" "cons_buf s (unat ((cons_e s - 1) mod INPUT_BUF_SIZE)) \<noteq> 10"
    and "cons_rubout s e = (Ret (), t, e)" "cons_kill_line t e = (Ret (), u, e)"
  shows "cons_kill_line s e = (Ret (), u, e)"
  unfolding cons_kill_line_def
  by (rule kloop_step_Inl [OF _ assms(4) [unfolded cons_kill_line_def]]) (use assms in \<open>simp add: kbind_Ret kret_run\<close>)

lemma kill_locked:
  fixes s :: "'a cons_state_scheme"
  assumes "tx_ok {} s" "cons_ok s" "n = length (takeWhile (\<lambda>b. b \<noteq> 10) (rev (editing s)))"
  shows "\<exists>t. cons_kill_line (acquired ConsLock s) e = (Ret (), acquired ConsLock t, e) \<and>
    sends (concat (replicate n [8, 32, 8])) (s\<lparr>cons_e := cons_e s - of_nat n\<rparr>) t \<and>
    cons_ok t \<and> committed t = committed s \<and> editing t = rev (dropWhile (\<lambda>b. b \<noteq> 10) (rev (editing s)))"
  using assms
proof (induction n arbitrary: s)
  case 0
  then have "editing s = [] \<or> last (editing s) = 10" by (cases "rev (editing s)") (auto split: if_splits simp: last_rev [symmetric])
  then have "cons_e s = cons_w s \<or> cons_buf s (unat ((cons_e s - 1) mod INPUT_BUF_SIZE)) = 10"
    using cons_rub(3) [OF 0(2)] by (metis last_snoc snoc_eq_iff_butlast)
  then have "cons_kill_line (acquired ConsLock s) e = (Ret (), acquired ConsLock s, e)" by (intro cons_kill_stop) simp
  moreover have "dropWhile (\<lambda>b. b \<noteq> 10) (rev (editing s)) = rev (editing s)" using 0(3) by (cases "rev (editing s)") (auto split: if_splits)
  ultimately show ?case using 0 by (intro exI [of _ s]) simp
next
  case (Suc n)
  then obtain b bs where r: "rev (editing s) = b # bs" "b \<noteq> 10" by (cases "rev (editing s)") (auto split: if_splits)
  then have ed: "editing s = rev bs @ [b]" by (metis rev.simps(2) rev_rev_ident)
  then have "editing s \<noteq> []" by simp
  then have ne: "cons_e s \<noteq> cons_w s" unfolding editing_def ring_list_empty by auto
  let ?s1 = "s\<lparr>cons_e := cons_e s - 1\<rparr>"
  note rb = cons_rub [OF Suc.prems(2) ne]
  obtain t1 where t1: "cons_rubout (acquired ConsLock s) e = (Ret (), acquired ConsLock t1, e)" "sends [8, 32, 8] ?s1 t1"
    using rubout_locked [OF Suc.prems(1)] by blast
  have e1: "editing t1 = rev bs" "cons_buf s (unat ((cons_e s - 1) mod INPUT_BUF_SIZE)) = b"
    using rb(3) ed sends_cons(7) [OF t1(2)] by auto
  have c1: "cons_ok t1" "committed t1 = committed s" "tx_ok {} t1" "cons_e t1 = cons_e s - 1"
    using rb sends_cons [OF t1(2)] sends_tx_ok [OF t1(2), of "{}"] Suc.prems(1) by (simp_all add: tx_ok_def tx_live_def)
  have "n = length (takeWhile (\<lambda>b. b \<noteq> 10) (rev (editing t1)))" using Suc.prems(3) r e1 by simp
  from Suc.IH [OF c1(3,1) this] obtain t where t: "cons_kill_line (acquired ConsLock t1) e = (Ret (), acquired ConsLock t, e)"
      "sends (concat (replicate n [8, 32, 8])) (t1\<lparr>cons_e := cons_e t1 - of_nat n\<rparr>) t" "cons_ok t" "committed t = committed t1"
      "editing t = rev (dropWhile (\<lambda>b. b \<noteq> 10) (rev (editing t1)))" by blast
  have "sends [8, 32, 8] (s\<lparr>cons_e := cons_e s - of_nat (Suc n)\<rparr>) (t1\<lparr>cons_e := cons_e t1 - of_nat n\<rparr>)"
    using sends_upds(1) [OF t1(2), of "cons_e s - of_nat (Suc n)"] unfolding c1(4) by (simp add: diff_diff_eq)
  from sends_trans [OF this t(2)] have "sends (concat (replicate (Suc n) [8, 32, 8])) (s\<lparr>cons_e := cons_e s - of_nat (Suc n)\<rparr>) t" by simp
  moreover have "cons_kill_line (acquired ConsLock s) e = (Ret (), acquired ConsLock t, e)"
    using ne e1(2) r(2) by (intro cons_kill_go [OF _ _ t1(1) t(1)]) simp_all
  moreover have "editing t = rev (dropWhile (\<lambda>b. b \<noteq> 10) (rev (editing s)))" using t(5) e1(1) r by simp
  ultimately show ?case using t(3,4) c1(2) by auto
qed

lemma char_locked:
  fixes s :: "'a cons_state_scheme"
  assumes "tx_ok {} s" "cons_ok s" "unat (cons_e s - cons_r s) < 128" "0 \<le> c" "c < 256"
  shows "\<exists>t. cons_char c (acquired ConsLock s) e = (Ret (), acquired ConsLock t, e) \<and> cons_ok t \<and> tx_ok {} t \<and>
    sent t = sent s @ [of_int c] \<and>
    (committed t, editing t) = (if c = 10 \<or> c = 4 \<or> length (committed s) + length (editing s) = 127
       then (committed s @ editing s @ [of_int c], []) else (committed s, editing s @ [of_int c]))"
proof -
  obtain t1 where t1: "consputc c (acquired ConsLock s) e = (Ret (), acquired ConsLock t1, e)" "sends (con_bytes c) s t1"
    using consputc_locked [OF assms(1)] by blast
  note f1 = sends_cons [OF t1(2)]
  have tx1: "tx_ok {} t1" using sends_tx_ok [OF t1(2)] assms(1) by simp
  let ?t2 = "t1\<lparr>cons_buf := (cons_buf t1)(unat (cons_e t1 mod INPUT_BUF_SIZE) := of_int c), cons_e := cons_e t1 + 1\<rparr>"
  have l1: "cons_ok t1" "unat (cons_e t1 - cons_r t1) < 128" using f1 assms(2,3) by simp_all
  note ty = cons_type [OF l1, of "of_int c"]
  have full: "cons_e ?t2 - cons_r ?t2 = 128 \<longleftrightarrow> length (committed s) + length (editing s) = 127"
  proof -
    have "cons_e ?t2 - cons_r ?t2 = 128 \<longleftrightarrow> unat (cons_e ?t2 - cons_r ?t2) = unat (128 :: uint)" by (rule word_unat_eq_iff)
    also have "\<dots> \<longleftrightarrow> length (committed t1) + length (editing t1) = 127" unfolding ty(4) cons_ok_lists(2) [OF l1(1)] by simp
    finally show ?thesis using f1(6,7) by simp
  qed
  have s1: "sent t1 = sent s @ [of_int c]" using sends_sent [OF t1(2)] assms(5) by (simp add: con_bytes_def)
  show ?thesis
  proof (cases "c = 10 \<or> c = 4 \<or> length (committed s) + length (editing s) = 127")
    case True
    let ?t3 = "?t2\<lparr>cons_w := cons_e ?t2\<rparr>"
    let ?t4 = "?t3\<lparr>procs := woken_all ChConsRead (procs t1)\<rparr>"
    note cm = cons_commit [OF ty(1)]
    have "calm {ConsLock} (acquired ConsLock ?t3)" using tx1 calm_acquired [of "{}" ?t3 ConsLock] by (simp add: tx_ok_def)
    from wakeup_calm [OF this, of ChConsRead e] have w: "wakeup ChConsRead (acquired ConsLock ?t3) e = (Ret (), acquired ConsLock ?t4, e)" by simp
    have "cons_char c (acquired ConsLock s) e = (Ret (), acquired ConsLock ?t4, e)"
      unfolding cons_char_def using True full w by (simp add: kbind_Ret t1(1) kret_run)
    moreover have "cons_ok ?t4" "committed ?t4 = committed s @ editing s @ [of_int c]" "editing ?t4 = []"
      using cm ty f1 by (simp_all add: cons_ok_def committed_def editing_def)
    moreover have "tx_ok {} ?t4" "sent ?t4 = sent s @ [of_int c]" using tx1 s1 by (simp_all add: tx_ok_def tx_live_def sent_def)
    ultimately show ?thesis using True by (intro exI [of _ ?t4]) simp
  next
    case False
    then have "cons_char c (acquired ConsLock s) e = (Ret (), acquired ConsLock ?t2, e)"
      unfolding cons_char_def using full by (simp add: kbind_Ret t1(1) kret_run)
    moreover have "tx_ok {} ?t2" "sent ?t2 = sent s @ [of_int c]" using tx1 s1 by (simp_all add: tx_ok_def tx_live_def sent_def)
    ultimately show ?thesis using False ty f1 by (intro exI [of _ ?t2]) simp
  qed
qed

lemma intr_locked:
  fixes s :: "'a cons_state_scheme"
  assumes "tx_ok {} s" "cons_ok s" "0 \<le> c" "c < 256"
  shows "\<exists>t. (if c = 0x15 then cons_kill_line
            else if c = 8 \<or> c = 0x7f then kbind (kget (\<lambda>s. cons_e s \<noteq> cons_w s)) (\<lambda>b. kwhen b cons_rubout)
            else kbind (kget (\<lambda>s. c \<noteq> 0 \<and> cons_e s - cons_r s < INPUT_BUF_SIZE)) (\<lambda>b.
              kwhen b (cons_char (if c = 13 then 10 else c)))) (acquired ConsLock s) e = (Ret (), acquired ConsLock t, e) \<and>
    cons_ok t \<and> tx_ok {} t \<and> (committed t, editing t) = line_char c (committed s, editing s) \<and>
    sent t = sent s @ line_echo c (committed s, editing s)"
proof -
  have len: "unat (cons_e s - cons_r s) = length (committed s) + length (editing s)" by (rule cons_ok_lists(2) [OF assms(2)])
  consider "c = 0x15" | "c = 8 \<or> c = 0x7f" "editing s = []" | "c = 8 \<or> c = 0x7f" "editing s \<noteq> []"
    | "c \<notin> {0x15, 8, 0x7f}" "c = 0 \<or> 128 \<le> length (committed s) + length (editing s)"
    | "c \<notin> {0x15, 8, 0x7f}" "\<not> (c = 0 \<or> 128 \<le> length (committed s) + length (editing s))" by blast
  then show ?thesis
  proof cases
    case 1
    obtain t where t: "cons_kill_line (acquired ConsLock s) e = (Ret (), acquired ConsLock t, e)"
        "sends (concat (replicate (length (takeWhile (\<lambda>b. b \<noteq> 10) (rev (editing s)))) [8, 32, 8]))
           (s\<lparr>cons_e := cons_e s - of_nat (length (takeWhile (\<lambda>b. b \<noteq> 10) (rev (editing s))))\<rparr>) t"
        "cons_ok t" "committed t = committed s" "editing t = rev (dropWhile (\<lambda>b. b \<noteq> 10) (rev (editing s)))"
      using kill_locked [OF assms(1,2) refl, of e] by blast
    have "sent t = sent s @ concat (map (\<lambda>_. [8, 32, 8]) (takeWhile (\<lambda>b. b \<noteq> 10) (rev (editing s))))"
      using sends_sent [OF t(2)] by (simp add: sent_def map_replicate_const)
    moreover have "tx_ok {} t" using sends_tx_ok [OF t(2), of "{}"] assms(1) by (simp add: tx_ok_def tx_live_def)
    ultimately show ?thesis using 1 t by (intro exI [of _ t]) (simp add: line_char_def line_echo_def)
  next
    case 2
    then have "cons_e s = cons_w s" by (simp add: editing_def)
    then show ?thesis using 2 assms(1,2) by (intro exI [of _ s]) (auto simp: kret_run line_char_def line_echo_def)
  next
    case 3
    then have ne: "cons_e s \<noteq> cons_w s" by (auto simp: editing_def)
    obtain t where t: "cons_rubout (acquired ConsLock s) e = (Ret (), acquired ConsLock t, e)" "sends [8, 32, 8] (s\<lparr>cons_e := cons_e s - 1\<rparr>) t"
      using rubout_locked [OF assms(1)] by blast
    note r = cons_rub [OF assms(2) ne]
    have "editing t = butlast (editing s)" using r(3) sends_cons(7) [OF t(2)] by simp
    moreover have "sent t = sent s @ [8, 32, 8]" using sends_sent [OF t(2)] by (simp add: sent_def)
    moreover have "tx_ok {} t" using sends_tx_ok [OF t(2), of "{}"] assms(1) by (simp add: tx_ok_def tx_live_def)
    ultimately show ?thesis using 3 ne t(1) r sends_cons [OF t(2)]
      by (intro exI [of _ t]) (auto simp: line_char_def line_echo_def)
  next
    case 4
    then have "\<not> (c \<noteq> 0 \<and> cons_e s - cons_r s < 128)" using len by (auto simp: word_less_nat_alt)
    then show ?thesis using 4 assms(1,2) by (intro exI [of _ s]) (auto simp: kret_run line_char_def line_echo_def)
  next
    case 5
    then have g: "c \<noteq> 0 \<and> cons_e s - cons_r s < 128" "unat (cons_e s - cons_r s) < 128" using len by (auto simp: word_less_nat_alt)
    define b where "b = (if c = 13 then 10 else c)"
    have rng: "0 \<le> b" "b < 256" using assms(3,4) by (simp_all add: b_def)
    obtain t where t: "cons_char b (acquired ConsLock s) e = (Ret (), acquired ConsLock t, e)" "cons_ok t" "tx_ok {} t" "sent t = sent s @ [of_int b]"
        "(committed t, editing t) = (if b = 10 \<or> b = 4 \<or> length (committed s) + length (editing s) = 127
           then (committed s @ editing s @ [of_int b], []) else (committed s, editing s @ [of_int b]))"
      using char_locked [OF assms(1,2) g(2) rng, of e] by blast
    have eq: "(of_int b :: uchar) = 10 \<longleftrightarrow> b = 10" "(of_int b :: uchar) = 4 \<longleftrightarrow> b = 4"
    proof -
      have "uint (of_int b :: uchar) = b" using rng by (simp add: uint_word_of_int)
      then show "(of_int b :: uchar) = 10 \<longleftrightarrow> b = 10" "(of_int b :: uchar) = 4 \<longleftrightarrow> b = 4"
        unfolding word_uint_eq_iff by simp_all
    qed
    have bi: "(if c = 13 then 10 else of_int c) = (of_int b :: uchar)" by (simp add: b_def)
    have "line_char c (committed s, editing s) = (committed t, editing t)"
      using 5 t(5) eq by (simp add: line_char_def bi Let_def del: of_int_eq_iff)
    moreover have "line_echo c (committed s, editing s) = [of_int b]" using 5 bi by (simp add: line_echo_def)
    ultimately show ?thesis using 5 g t(1-4) by (intro exI [of _ t]) (simp add: b_def [symmetric])
  qed
qed

section \<open>Properties\<close>

text \<open>
  C12: the console's input side refines a line editor.  For every typed character other than the
  dump key, the interrupt handler returns with the lock free, keeps the ring invariant, and
  changes the committed bytes and the edited line as the editor does: backspace and kill edit
  only the current line, newline, control-D and a full buffer commit it, a full buffer drops the
  character; it echoes exactly the editor's echo.
\<close>

theorem consoleintr_refines:
  fixes s :: "'a cons_state_scheme"
  assumes "tx_ok {} s" "cons_ok s" "0 \<le> c" "c < 256" "c \<noteq> 0x10"
  shows "\<exists>t. consoleintr c s e = (Ret (), t, e) \<and> cons_ok t \<and> tx_ok {} t \<and>
    (committed t, editing t) = line_char c (committed s, editing s) \<and> sent t = sent s @ line_echo c (committed s, editing s)"
proof -
  have cs: "calm {} s" using assms(1) by (simp add: tx_ok_def)
  let ?m = "if c = 0x15 then cons_kill_line
      else if c = 8 \<or> c = 0x7f then kbind (kget (\<lambda>s. cons_e s \<noteq> cons_w s)) (\<lambda>b. kwhen b cons_rubout)
      else kbind (kget (\<lambda>s. c \<noteq> 0 \<and> cons_e s - cons_r s < INPUT_BUF_SIZE)) (\<lambda>b. kwhen b (cons_char (if c = 13 then 10 else c)))"
  obtain t where t: "?m (acquired ConsLock s) e = (Ret (), acquired ConsLock t, e)" "cons_ok t" "tx_ok {} t"
      "(committed t, editing t) = line_char c (committed s, editing s)" "sent t = sent s @ line_echo c (committed s, editing s)"
    using intr_locked [OF assms(1-4), of e] by blast
  have "release ConsLock (acquired ConsLock t) e = (Ret (), t, e)"
    using t(3) by (intro release_calm [where L = "{}"]) (simp_all add: tx_ok_def)
  moreover have "kbind ?m g (acquired ConsLock s) e = g () (acquired ConsLock t) e" for g :: "unit \<Rightarrow> (unit, 'a cons_state_scheme) K"
    by (rule kbind_Ret) (rule t(1))
  moreover have "consoleintr c s e = kbind (acquire ConsLock) (\<lambda>_. kbind ?m (\<lambda>_. release ConsLock)) s e"
    using assms(5) unfolding consoleintr_def by simp
  moreover have "kbind (acquire ConsLock) g s e = g () (acquired ConsLock s) e" for g :: "unit \<Rightarrow> (unit, 'a cons_state_scheme) K"
    using acquire_calm [OF cs, of ConsLock e] by (simp add: kbind_Ret)
  ultimately have "consoleintr c s e = (Ret (), t, e)" by (simp only:)
  then show ?thesis using t by blast
qed

theorem consoleintr_refines_witness:
  "\<exists>t. consoleintr 104 calm_cons [] = (Ret (), t, []) \<and> editing t = [104] \<and> committed t = [] \<and> sent t = [104]"
proof -
  have l: "committed calm_cons = []" "editing calm_cons = []" by (simp_all add: committed_def editing_def)
  have u: "uart_in calm_cons = uart_in calm_uart" "panicked calm_cons = panicked calm_uart" "uart_w calm_cons = uart_w calm_uart"
    by (simp_all add: calm_cons_def uart_state.extend_def)
  have s: "sent calm_cons = []" using calm_uart(3) by (simp add: sent_def u)
  have "tx_ok {} calm_cons" using calm_uart(1) [of "{}"] u by (simp add: tx_ok_def tx_live_def)
  moreover have "cons_ok calm_cons" by (simp add: cons_ok_def)
  ultimately show ?thesis using consoleintr_refines [of calm_cons 104 "[]"] by (auto simp: l s line_char_def line_echo_def)
qed

end
