(* ===== verification/ULib.thy ===== *)
theory ULib
  imports PrintkProps
begin

unbundle bit_operations_syntax

text \<open>
  The C library of user programs (\<open>user/ulib.c\<close>) and the system call stubs that \<open>user/usys.pl\<close>
  generates.  A user program is seen from its own side of the \<open>ecall\<close> boundary: its state records
  the system calls it has made, in order, and holds the replies that the kernel will give.  A reply
  is the value returned in \<open>a0\<close> and the bytes the kernel stored in the buffer passed to the call.
  Theorems quantify over the replies, so they hold for every kernel.  A program whose replies run
  out is \<open>Stuck\<close>: it waits in the kernel.  \<open>exit\<close> does not return; it is the outcome
  \<open>Panic ''exit''\<close> after the call has been recorded.
\<close>

section \<open>System calls\<close>

type_synonym cstring = "uchar list"

datatype ucall =
    UFork | UExit int | UWait bool | UPipe | URead int nat | UWrite int "uchar list" | UClose int | UKill int
  | UExec cstring "cstring list" | UOpen cstring int | UMknod cstring int int | UUnlink cstring | UFstat int
  | ULink cstring cstring | UMkdir cstring | UChdir cstring | UDup int | UGetpid | USbrk int int | UPause int
  | UUptime | USync

record ustate =
  ucalls :: "ucall list"
  ureplies :: "(int \<times> uchar list) list"

definition ecall :: "ucall \<Rightarrow> (int \<times> uchar list, 'a ustate_scheme) K" where
  "ecall c s e =
     (let t = s\<lparr>ucalls := ucalls s @ [c]\<rparr> in
      case ureplies s of
        [] \<Rightarrow> (Stuck, t, e)
      | r # rs \<Rightarrow> (Ret r, t\<lparr>ureplies := rs\<rparr>, e))"

definition usys :: "ucall \<Rightarrow> (int, 'a ustate_scheme) K" where
  "usys c = kbind (ecall c) (\<lambda>(r, _). kret r)"

definition exit_u :: "int \<Rightarrow> ('r, 'a ustate_scheme) K" where
  "exit_u n = kbind (kmod (\<lambda>s. s\<lparr>ucalls := ucalls s @ [UExit n]\<rparr>)) (\<lambda>_. kpanic ''exit'')"

text \<open>A read of at most \<open>n\<close> bytes: the count, and the bytes now at the start of the buffer.\<close>

definition read_u :: "int \<Rightarrow> nat \<Rightarrow> (int \<times> uchar list, 'a ustate_scheme) K" where
  "read_u fd n = ecall (URead fd n)"

definition write_u :: "int \<Rightarrow> uchar list \<Rightarrow> (int, 'a ustate_scheme) K" where
  "write_u fd bs = usys (UWrite fd bs)"

definition start_u :: "(int, 'a ustate_scheme) K \<Rightarrow> ('r, 'a ustate_scheme) K" where
  "start_u prog = kbind prog exit_u"

abbreviation (input) O_RDONLY_u :: int where "O_RDONLY_u \<equiv> 0"
abbreviation (input) SBRK_EAGER_u :: int where "SBRK_EAGER_u \<equiv> 1"
abbreviation (input) SBRK_LAZY_u :: int where "SBRK_LAZY_u \<equiv> 2"

section \<open>Strings\<close>

partial_function (option) strcpy_u :: "memory \<Rightarrow> uint64 \<Rightarrow> uint64 \<Rightarrow> memory option" where
  "strcpy_u m s t = (let c = m t; m = m(s := c) in if c = 0 then Some m else strcpy_u m (s + 1) (t + 1))"

partial_function (option) strcmp_u :: "(nat \<Rightarrow> uchar) \<Rightarrow> (nat \<Rightarrow> uchar) \<Rightarrow> int option" where
  "strcmp_u p q =
     (if p 0 \<noteq> 0 \<and> p 0 = q 0 then strcmp_u (\<lambda>i. p (Suc i)) (\<lambda>i. q (Suc i))
      else Some (uint (p 0) - uint (q 0)))"

text \<open>
  \<open>strlen\<close> counts in an \<open>int\<close>, a 32-bit word whose increment wraps, indexes the string with its signed value
  and returns it as \<open>uint\<close>.  \<open>None\<close> is the loop that never ends.
\<close>

partial_function (option) strlen_u_from :: "memory \<Rightarrow> uint64 \<Rightarrow> 32 word \<Rightarrow> uint option" where
  "strlen_u_from m s n = (if m (s + scast n) = 0 then Some n else strlen_u_from m s (n + 1))"

definition strlen_u :: "memory \<Rightarrow> uint64 \<Rightarrow> uint option" where
  "strlen_u m s = strlen_u_from m s 0"

definition memset_u :: "memory \<Rightarrow> uint64 \<Rightarrow> int \<Rightarrow> uint \<Rightarrow> memory" where
  "memset_u m dst c n = fold (\<lambda>i m. m(dst + of_nat i := of_int c)) [0..<unat n] m"

text \<open>\<open>strchr\<close>: the offset of the first \<open>c\<close> before the NUL, if there is one.\<close>

partial_function (option) strchr_from :: "(nat \<Rightarrow> uchar) \<Rightarrow> uchar \<Rightarrow> nat \<Rightarrow> nat option option" where
  "strchr_from s c i = (if s i = 0 then Some None else if s i = c then Some (Some i) else strchr_from s c (Suc i))"

definition strchr_u :: "(nat \<Rightarrow> uchar) \<Rightarrow> uchar \<Rightarrow> nat option option" where
  "strchr_u s c = strchr_from s c 0"

text \<open>\<open>gets\<close> reads a byte at a time until a line end, the end of the input or \<open>max - 1\<close> bytes.\<close>

definition gets_round :: "int \<Rightarrow> uchar list \<Rightarrow> (uchar list + uchar list, 'a ustate_scheme) K" where
  "gets_round mx buf =
     (if \<not> int (length buf) + 1 < mx then kret (Inr buf)
      else
        kbind (read_u 0 1) (\<lambda>(cc, bs).
        if cc < 1 then kret (Inr buf)
        else
          (let c = rd bs 0; buf = buf @ [c] in
           if c = 10 \<or> c = 13 then kret (Inr buf) else kret (Inl buf))))"

definition gets_u :: "int \<Rightarrow> (uchar list, 'a ustate_scheme) K" where
  "gets_u mx = kloop (gets_round mx) []"

definition stat_u :: "cstring \<Rightarrow> (int \<times> uchar list, 'a ustate_scheme) K" where
  "stat_u n =
     kbind (usys (UOpen n O_RDONLY_u)) (\<lambda>fd.
     if fd < 0 then kret (- 1, [])
     else
       kbind (ecall (UFstat fd)) (\<lambda>(r, st).
       kbind (usys (UClose fd)) (\<lambda>_.
       kret (r, st))))"

text \<open>\<open>atoi\<close> on the bytes of the string; an \<open>int\<close> is a 32-bit word, and an overflow wraps as the instructions do.\<close>

fun atoi_loop :: "32 word \<Rightarrow> cstring \<Rightarrow> 32 word" where
  "atoi_loop n [] = n"
| "atoi_loop n (c # s) = (if 48 \<le> c \<and> c \<le> 57 then atoi_loop (n * 10 + ucast c - 48) s else n)"

definition atoi_u :: "cstring \<Rightarrow> int" where
  "atoi_u s = sint (atoi_loop 0 s)"

section \<open>Blocks of memory\<close>

definition memmove_u :: "memory \<Rightarrow> uint64 \<Rightarrow> uint64 \<Rightarrow> int \<Rightarrow> memory" where
  "memmove_u m vdst vsrc n =
     (if vsrc > vdst then copy_forward m vdst vsrc (nat n) else copy_backward m vdst vsrc (nat n))"

fun memcmp_u :: "(nat \<Rightarrow> uchar) \<Rightarrow> (nat \<Rightarrow> uchar) \<Rightarrow> nat \<Rightarrow> int" where
  "memcmp_u p1 p2 0 = 0"
| "memcmp_u p1 p2 (Suc n) =
     (if p1 0 \<noteq> p2 0 then uint (p1 0) - uint (p2 0) else memcmp_u (\<lambda>i. p1 (Suc i)) (\<lambda>i. p2 (Suc i)) n)"

definition memcpy_u :: "memory \<Rightarrow> uint64 \<Rightarrow> uint64 \<Rightarrow> uint \<Rightarrow> memory" where
  "memcpy_u m dst src n = memmove_u m dst src (sint n)"

definition sbrk_u :: "int \<Rightarrow> (int, 'a ustate_scheme) K" where
  "sbrk_u n = usys (USbrk n SBRK_EAGER_u)"

definition sbrklazy_u :: "int \<Rightarrow> (int, 'a ustate_scheme) K" where
  "sbrklazy_u n = usys (USbrk n SBRK_LAZY_u)"

section \<open>Formatted output\<close>

definition digits_u :: "uchar list" where
  "digits_u = chars ''0123456789ABCDEF''"

definition putc_u :: "int \<Rightarrow> uchar \<Rightarrow> (unit, 'a ustate_scheme) K" where
  "putc_u fd c = kbind (write_u fd [c]) (\<lambda>_. kret ())"

definition printint_digits_u :: "uint64 \<Rightarrow> uint64 \<Rightarrow> (uchar list, 's) K" where
  "printint_digits_u x base =
     kloop (\<lambda>(x, buf).
       kbind (putbuf (digits_u ! unat (x mod base)) buf) (\<lambda>buf.
       if x div base \<noteq> 0 then kret (Inl (x div base, buf)) else kret (Inr buf))) (x, [])"

definition printint_u :: "int \<Rightarrow> uint64 \<Rightarrow> uint64 \<Rightarrow> bool \<Rightarrow> (unit, 'a ustate_scheme) K" where
  "printint_u fd xx base sg =
     (let neg = (sg \<and> sint xx < 0); x = (if neg then - xx else xx) in
      kbind (printint_digits_u x base) (\<lambda>buf.
      kbind (if neg then putbuf (of_char CHR ''-'') buf else kret buf) (\<lambda>buf.
      kfor (rev buf) (putc_u fd))))"

definition printptr_u :: "int \<Rightarrow> uint64 \<Rightarrow> (unit, 'a ustate_scheme) K" where
  "printptr_u fd x = kseq [
     putc_u fd (of_char CHR ''0''),
     putc_u fd (of_char CHR ''x''),
     kfor [0..<16] (\<lambda>i. putc_u fd (digits_u ! unat (drop_bit 60 (push_bit (4 * i) x))))]"

definition vprintf_num :: "int \<Rightarrow> arg list \<Rightarrow> (uint64 \<Rightarrow> uint64) \<Rightarrow> uint64 \<Rightarrow> bool \<Rightarrow> nat \<Rightarrow> (nat \<times> arg list, 'a ustate_scheme) K" where
  "vprintf_num fd as cv base sg k =
     kbind (va_int as) (\<lambda>(v, as). kbind (printint_u fd (cv v) base sg) (\<lambda>_. kret (k, as)))"

text \<open>One conversion: how far \<open>i\<close> moves beyond the conversion character, and the arguments left.\<close>

definition vprintf_conv :: "int \<Rightarrow> char \<Rightarrow> char \<Rightarrow> char \<Rightarrow> arg list \<Rightarrow> (nat \<times> arg list, 'a ustate_scheme) K" where
  "vprintf_conv fd c0 c1 c2 as =
     (if c0 = CHR ''d'' then vprintf_num fd as as_int 10 True 0
      else if c0 = CHR ''l'' \<and> c1 = CHR ''d'' then vprintf_num fd as id 10 True 1
      else if c0 = CHR ''l'' \<and> c1 = CHR ''l'' \<and> c2 = CHR ''d'' then vprintf_num fd as id 10 True 2
      else if c0 = CHR ''u'' then vprintf_num fd as as_uint 10 False 0
      else if c0 = CHR ''l'' \<and> c1 = CHR ''u'' then vprintf_num fd as id 10 False 1
      else if c0 = CHR ''l'' \<and> c1 = CHR ''l'' \<and> c2 = CHR ''u'' then vprintf_num fd as id 10 False 2
      else if c0 = CHR ''x'' then vprintf_num fd as as_uint 16 False 0
      else if c0 = CHR ''l'' \<and> c1 = CHR ''x'' then vprintf_num fd as id 16 False 1
      else if c0 = CHR ''l'' \<and> c1 = CHR ''l'' \<and> c2 = CHR ''x'' then vprintf_num fd as id 16 False 2
      else if c0 = CHR ''p'' then kbind (va_int as) (\<lambda>(v, as). kbind (printptr_u fd v) (\<lambda>_. kret (0, as)))
      else if c0 = CHR ''c'' then kbind (va_int as) (\<lambda>(v, as). kbind (putc_u fd (ucast v)) (\<lambda>_. kret (0, as)))
      else if c0 = CHR ''s'' then
        kbind (va_str as) (\<lambda>(p, as).
        kbind (kfor (case p of None \<Rightarrow> chars ''(null)'' | Some t \<Rightarrow> takeWhile (\<lambda>c. c \<noteq> 0) t) (putc_u fd)) (\<lambda>_.
        kret (0, as)))
      else if c0 = CHR ''%'' then kbind (putc_u fd (of_char CHR ''%'')) (\<lambda>_. kret (0, as))
      else kbind (kseq [putc_u fd (of_char CHR ''%''), putc_u fd (of_char c0)]) (\<lambda>_. kret (0, as)))"

text \<open>The scan of the format: \<open>st\<close> is the variable \<open>state\<close>, true after a \<open>%\<close>.\<close>

function vprintf_loop :: "int \<Rightarrow> bool \<Rightarrow> string \<Rightarrow> arg list \<Rightarrow> (unit, 'a ustate_scheme) K" where
  "vprintf_loop fd st [] as = kret ()"
| "vprintf_loop fd False (c0 # fs) as =
     (if c0 = CHR ''%'' then vprintf_loop fd True fs as
      else kbind (putc_u fd (of_char c0)) (\<lambda>_. vprintf_loop fd False fs as))"
| "vprintf_loop fd True (c0 # fs) as =
     (let c1 = fmt_at fs 0; c2 = (if c1 \<noteq> CHR 0x00 then fmt_at fs 1 else CHR 0x00)
      in kbind (vprintf_conv fd c0 c1 c2 as) (\<lambda>(k, as). vprintf_loop fd False (drop k fs) as))"
  by pat_completeness auto
termination by (relation "measure (\<lambda>(fd, st, fs, as). length fs)") auto

definition vprintf_u :: "int \<Rightarrow> string \<Rightarrow> arg list \<Rightarrow> (unit, 'a ustate_scheme) K" where
  "vprintf_u fd fmt as = vprintf_loop fd False fmt as"

definition fprintf_u :: "int \<Rightarrow> string \<Rightarrow> arg list \<Rightarrow> (unit, 'a ustate_scheme) K" where
  "fprintf_u fd fmt as = vprintf_u fd fmt as"

definition printf_u :: "string \<Rightarrow> arg list \<Rightarrow> (unit, 'a ustate_scheme) K" where
  "printf_u fmt as = vprintf_u 1 fmt as"

end
