(* ===== verification/ULibProps.thy ===== *)
theory ULibProps
  imports ULib
begin

unbundle bit_operations_syntax

text \<open>
  What the user library computes: its string routines end on terminated strings, its \<open>memmove\<close> copies
  overlapping blocks, \<open>atoi\<close> reads back what \<open>printf\<close> prints, and \<open>printf\<close> writes what the kernel's
  \<open>printk\<close> would print.
\<close>

section \<open>Terminated strings\<close>

definition zstr :: "(nat \<Rightarrow> uchar) \<Rightarrow> uchar list \<Rightarrow> bool" where
  "zstr p w \<longleftrightarrow> 0 \<notin> set w \<and> p (length w) = 0 \<and> (\<forall>i<length w. p i = w ! i)"

lemma zstr_Cons: "zstr p (c # w) \<longleftrightarrow> c \<noteq> 0 \<and> p 0 = c \<and> zstr (\<lambda>i. p (Suc i)) w"
  by (auto simp: zstr_def nth_Cons less_Suc_eq_0_disj split: nat.splits)

lemma zstr_Nil: "zstr p [] \<longleftrightarrow> p 0 = 0"
  by (simp add: zstr_def)

lemma zstr_at: "zstr p w \<Longrightarrow> i < length w \<Longrightarrow> p i = w ! i \<and> p i \<noteq> 0"
  by (metis zstr_def nth_mem)

lemma scast_nat: "i < 2 ^ 31 \<Longrightarrow> (scast (of_nat i :: 32 word) :: uint64) = of_nat i"
proof -
  assume i: "i < 2 ^ 31"
  have "sint (of_int (int i) :: 32 word) = int i" using i by (simp only: int_word_sint) simp
  then show ?thesis by (simp add: scast_eq)
qed

lemma strlen_u_from_zstr:
  "zstr (\<lambda>i. m (a + of_nat i)) w \<Longrightarrow> length w < 2 ^ 31 \<Longrightarrow> i \<le> length w \<Longrightarrow> strlen_u_from m a (of_nat i) = Some (of_nat (length w))"
proof (induction "length w - i" arbitrary: i)
  case 0
  then have "i = length w" by simp
  then show ?case using 0 scast_nat [of "length w"] by (subst strlen_u_from.simps) (simp add: zstr_def)
next
  case (Suc n)
  then have i: "i < length w" "i < 2 ^ 31" by simp_all
  have "m (a + of_nat i) \<noteq> 0" using zstr_at [OF Suc.prems(1) i(1)] by blast
  moreover have "strlen_u_from m a (of_nat (Suc i)) = Some (of_nat (length w))" using Suc i(1) by (intro Suc.hyps(1)) simp_all
  ultimately show ?case using scast_nat [OF i(2)] by (subst strlen_u_from.simps) (simp add: add.commute)
qed

definition first_index :: "uchar \<Rightarrow> uchar list \<Rightarrow> nat option" where
  "first_index c w = (if c \<in> set w then Some (length (takeWhile (\<lambda>x. x \<noteq> c) w)) else None)"

lemma strchr_from_zstr: "zstr p w \<Longrightarrow> i \<le> length w \<Longrightarrow> strchr_from p c i = Some (map_option (\<lambda>k. i + k) (first_index c (drop i w)))"
proof (induction "length w - i" arbitrary: i)
  case 0
  then have "i = length w" by simp
  then show ?case using 0 by (subst strchr_from.simps) (simp add: zstr_def first_index_def)
next
  case (Suc n)
  then have i: "i < length w" by simp
  have p: "p i = w ! i" "p i \<noteq> 0" using zstr_at [OF Suc.prems(1) i] by auto
  have d: "drop i w = w ! i # drop (Suc i) w" using i by (simp add: Cons_nth_drop_Suc)
  show ?case using Suc p by (subst strchr_from.simps) (auto simp: d first_index_def)
qed

text \<open>\<open>strcmp\<close> is the lexicographic order of unsigned bytes.\<close>

definition orders :: "int \<Rightarrow> uchar list \<Rightarrow> uchar list \<Rightarrow> bool" where
  "orders r u w \<longleftrightarrow> (r = 0 \<longleftrightarrow> u = w) \<and> (r < 0 \<longleftrightarrow> ord_class.lexordp u w) \<and> (r > 0 \<longleftrightarrow> ord_class.lexordp w u) \<and> \<bar>r\<bar> < 256"

lemma uchar_bound: "\<bar>uint c - uint d\<bar> < 256" "\<bar>uint c\<bar> < 256" for c d :: uchar
proof -
  have b: "0 \<le> uint x" "uint x < 256" for x :: uchar using uint_bounded [of x] by simp_all
  show "\<bar>uint c - uint d\<bar> < 256" "\<bar>uint c\<bar> < 256" using b [of c] b [of d] by linarith+
qed

lemma orders_head: "c \<noteq> d \<Longrightarrow> orders (uint c - uint d) (c # u) (d # w)" for c d :: uchar
  using uchar_bound(1) [of c d] by (auto simp: orders_def word_less_def word_uint_eq_iff)

lemma orders_ends: "c \<noteq> 0 \<Longrightarrow> orders (uint c) (c # u) [] \<and> orders (- uint c) [] (c # u)" "orders 0 [] []" for c :: uchar
proof -
  show "orders (uint c) (c # u) [] \<and> orders (- uint c) [] (c # u)" if "c \<noteq> 0"
  proof -
    have "0 < uint c" using that uint_ge_0 [of c] by (simp add: less_le word_uint_eq_iff)
    then show ?thesis using uchar_bound(2) [of c] by (simp add: orders_def)
  qed
  show "orders 0 [] []" by (simp add: orders_def)
qed

lemma orders_tail: "orders r u w \<Longrightarrow> orders r (c # u) (c # w)"
  by (simp add: orders_def)

lemma strcmp_zstr: "zstr p u \<Longrightarrow> zstr q w \<Longrightarrow> \<exists>r. strcmp_u p q = Some r \<and> orders r u w"
proof (induction u arbitrary: p q w)
  case Nil
  then show ?case using orders_ends by (subst strcmp_u.simps) (cases w; auto simp: zstr_Nil zstr_Cons)
next
  case (Cons c u)
  show ?case
  proof (cases w)
    case Nil
    then show ?thesis using Cons.prems orders_ends(1) by (subst strcmp_u.simps) (auto simp: zstr_Nil zstr_Cons)
  next
    case (Cons d v)
    then show ?thesis using Cons.prems Cons.IH [of "\<lambda>i. p (Suc i)" "\<lambda>i. q (Suc i)" v] orders_head [of c d u v]
      by (subst strcmp_u.simps) (auto simp: zstr_Cons intro: orders_tail)
  qed
qed

text \<open>Copying a string to a block that it does not overlap.\<close>

lemma strcpy_zstr:
  assumes "zstr (\<lambda>i. m (t + of_nat i)) w" "length w < 2 ^ 63" "\<forall>i\<le>length w. \<forall>j\<le>length w. s + of_nat i \<noteq> t + of_nat j"
  shows "\<exists>m'. strcpy_u m s t = Some m' \<and> zstr (\<lambda>i. m' (s + of_nat i)) w \<and> (\<forall>x. (\<forall>i\<le>length w. x \<noteq> s + of_nat i) \<longrightarrow> m' x = m x)"
  using assms
proof (induction w arbitrary: m s t)
  case Nil
  then show ?case by (subst strcpy_u.simps) (auto simp: zstr_Nil)
next
  case (Cons c w)
  have c: "m t = c" "c \<noteq> 0" "zstr (\<lambda>i. m (t + of_nat (Suc i))) w" using Cons.prems(1) by (simp_all add: zstr_Cons)
  let ?m = "m(s := c)"
  have ne: "s \<noteq> t + of_nat j" if "j \<le> Suc (length w)" for j using Cons.prems(3) [rule_format, of 0 j] that by simp
  have "?m (t + 1 + of_nat i) = m (t + of_nat (Suc i))" if "i \<le> length w" for i using ne [of "Suc i"] that by (simp add: add.assoc)
  then have z: "zstr (\<lambda>i. ?m (t + 1 + of_nat i)) w" using c(3) by (simp add: zstr_def del: fun_upd_apply)
  have d: "\<forall>i\<le>length w. \<forall>j\<le>length w. s + 1 + of_nat i \<noteq> t + 1 + of_nat j"
  proof (intro allI impI)
    fix i j assume "i \<le> length w" "j \<le> length w"
    then show "s + 1 + of_nat i \<noteq> t + 1 + of_nat j" using Cons.prems(3) [rule_format, of "Suc i" "Suc j"] by (simp add: add.assoc)
  qed
  obtain m' where m': "strcpy_u ?m (s + 1) (t + 1) = Some m'" "zstr (\<lambda>i. m' (s + 1 + of_nat i)) w" "\<forall>x. (\<forall>i\<le>length w. x \<noteq> s + 1 + of_nat i) \<longrightarrow> m' x = ?m x"
    using Cons.IH [OF z _ d] Cons.prems(2) by (metis Suc_lessD length_Cons)
  have sx: "s \<noteq> s + 1 + of_nat i" if "i \<le> length w" for i
    using off_inj [of 0 "Suc i" s] that Cons.prems(2) by (simp add: add.assoc)
  have "m' s = c" using m'(3) sx by simp
  moreover have "zstr (\<lambda>i. m' (s + of_nat (Suc i))) w" using m'(2) by (simp add: add.assoc)
  ultimately have "zstr (\<lambda>i. m' (s + of_nat i)) (c # w)" using c(2) by (simp add: zstr_Cons)
  moreover have "m' x = m x" if x: "\<forall>i\<le>Suc (length w). x \<noteq> s + of_nat i" for x
  proof -
    have "x \<noteq> s" using x [rule_format, of 0] by simp
    moreover have "x \<noteq> s + 1 + of_nat i" if "i \<le> length w" for i using x [rule_format, of "Suc i"] that by (simp add: add.assoc)
    ultimately show ?thesis using m'(3) by simp
  qed
  moreover have "strcpy_u m s t = Some m'" using m'(1) c by (subst strcpy_u.simps) simp
  ultimately show ?case by auto
qed

section \<open>Reading numbers\<close>

lemma digit_dec: "d < 10 \<Longrightarrow> digit d = 48 + of_nat d \<and> digits_u ! d = digit d"
proof -
  assume "d < 10"
  then have "d \<in> set [0..<10]" by simp
  moreover have "\<forall>d\<in>set [0..<10]. digit d = 48 + of_nat d \<and> digits_u ! d = digit d"
    by (simp add: upt_rec digit_def digits_def digits_u_def chars_def)
  ultimately show ?thesis by blast
qed

lemma atoi_digits:
  "\<forall>d\<in>set ds. d < 10 \<Longrightarrow> s = [] \<or> \<not> (48 \<le> hd s \<and> hd s \<le> 57) \<Longrightarrow>
   atoi_loop n (map digit ds @ s) = foldl (\<lambda>a d. a * 10 + of_nat d) n ds"
proof (induction ds arbitrary: n)
  case Nil
  then show ?case by (cases s) auto
next
  case (Cons d ds)
  have d: "d < 10" "digit d = 48 + of_nat d" using Cons.prems digit_dec [of d] by auto
  then have u: "unat (digit d) = 48 + d" by (simp add: unat_word_ariths unat_of_nat)
  then have "48 \<le> digit d" "digit d \<le> 57" using d(1) by (simp_all add: word_le_nat_alt)
  moreover have "(ucast (digit d) :: 32 word) = of_nat (48 + d)" by (simp only: u [symmetric] of_nat_unat)
  ultimately show ?case using Cons by simp
qed

lemma foldl_of_nat: "foldl (\<lambda>a d. a * 10 + of_nat d) (of_nat n :: 32 word) ds = of_nat (foldl (\<lambda>a d. a * 10 + d) n ds)"
proof (induction ds arbitrary: n)
  case (Cons d ds)
  have "(of_nat n :: 32 word) * 10 + of_nat d = of_nat (n * 10 + d)" by simp
  then show ?case by (simp only: foldl.simps Cons.IH)
qed simp

section \<open>Properties\<close>

text \<open>
  C28: The string routines end, with the right result, on NUL-terminated strings of memory: \<open>strlen\<close> of a string of
  less than 2^31 bytes is the number of bytes before the NUL, \<open>strchr\<close> finds the first occurrence or none,
  \<open>strcmp\<close> is negative, zero or positive as the first string is before, equal to or after the second in the
  lexicographic order of unsigned bytes, and \<open>strcpy\<close> to a block that does not overlap the source leaves a copy there
  and every other byte as it was.
\<close>

theorem string_routines_terminate:
  assumes "zstr (\<lambda>i. m (a + of_nat i)) u" "zstr (\<lambda>i. m (b + of_nat i)) w" "length u < 2 ^ 31"
    "\<forall>i\<le>length u. \<forall>j\<le>length u. d + of_nat i \<noteq> a + of_nat j"
  shows "strlen_u m a = Some (of_nat (length u)) \<and>
    strchr_u (\<lambda>i. m (a + of_nat i)) c = Some (first_index c u) \<and>
    (\<exists>r. strcmp_u (\<lambda>i. m (a + of_nat i)) (\<lambda>i. m (b + of_nat i)) = Some r \<and>
      (r = 0 \<longleftrightarrow> u = w) \<and> (r < 0 \<longleftrightarrow> ord_class.lexordp u w) \<and> (r > 0 \<longleftrightarrow> ord_class.lexordp w u) \<and> \<bar>r\<bar> < 256) \<and>
    (\<exists>m'. strcpy_u m d a = Some m' \<and> zstr (\<lambda>i. m' (d + of_nat i)) u \<and>
      (\<forall>x. (\<forall>i\<le>length u. x \<noteq> d + of_nat i) \<longrightarrow> m' x = m x))"
proof (intro conjI)
  show "strlen_u m a = Some (of_nat (length u))"
    using strlen_u_from_zstr [OF assms(1,3), of 0] by (simp add: strlen_u_def)
  show "strchr_u (\<lambda>i. m (a + of_nat i)) c = Some (first_index c u)"
    using strchr_from_zstr [OF assms(1), of 0 c] by (simp add: strchr_u_def option.map_ident)
  show "\<exists>r. strcmp_u (\<lambda>i. m (a + of_nat i)) (\<lambda>i. m (b + of_nat i)) = Some r \<and>
      (r = 0 \<longleftrightarrow> u = w) \<and> (r < 0 \<longleftrightarrow> ord_class.lexordp u w) \<and> (r > 0 \<longleftrightarrow> ord_class.lexordp w u) \<and> \<bar>r\<bar> < 256"
    using strcmp_zstr [OF assms(1,2)] by (simp add: orders_def)
qed (rule strcpy_zstr, use assms in simp_all)

lemma string_routines_terminate_witness:
  "let m = (\<lambda>x. if x = 10 then 104 else if x = 11 then 105 else if x = 20 then 104 else 0) in
    strlen_u m 10 = Some 2 \<and> strchr_u (\<lambda>i. m (10 + of_nat i)) 105 = Some (Some 1) \<and>
    (\<exists>r. strcmp_u (\<lambda>i. m (10 + of_nat i)) (\<lambda>i. m (20 + of_nat i)) = Some r \<and> r > 0) \<and>
    (\<exists>m'. strcpy_u m 30 10 = Some m' \<and> m' 31 = 105)"
proof -
  define m :: memory where "m = (\<lambda>x. if x = 10 then 104 else if x = 11 then 105 else if x = 20 then 104 else 0)"
  have z: "zstr (\<lambda>i. m (10 + of_nat i)) [104, 105]" "zstr (\<lambda>i. m (20 + of_nat i)) [104]"
    by (simp_all add: zstr_def m_def less_Suc_eq)
  have d: "\<forall>i\<le>length [104, 105 :: uchar]. \<forall>j\<le>length [104, 105 :: uchar]. (30 :: uint64) + of_nat i \<noteq> 10 + of_nat j"
    by (simp add: le_Suc_eq)
  have "(\<exists>m'. strcpy_u m 30 10 = Some m' \<and> m' 31 = 105)"
    using string_routines_terminate [OF z _ d, of 0] by (auto simp: zstr_Cons)
  then show ?thesis
    using string_routines_terminate [OF z _ d, of 105] unfolding Let_def m_def [symmetric] by (auto simp: first_index_def)
qed

text \<open>
  C29: \<open>memmove\<close> of the user library copies \<open>n\<close> bytes from \<open>vsrc\<close> to \<open>vdst\<close> however the two blocks overlap: after it,
  the destination holds the bytes the source held before, and every other byte of memory is unchanged.
\<close>

theorem memmove_u_overlap:
  assumes "0 \<le> n" "n < 2 ^ 31" "unat vsrc + nat n \<le> 2 ^ 64" "unat vdst + nat n \<le> 2 ^ 64"
  shows "memmove_u m vdst vsrc n = (\<lambda>x. if unat (x - vdst) < nat n then m (vsrc + (x - vdst)) else m x)"
proof -
  let ?n = "nat n"
  have n: "\<forall>i\<in>set [0..<?n]. i < 2 ^ 64" "\<forall>i\<in>set (rev [0..<?n]). i < 2 ^ 64" using assms(1,2) by auto
  have u: "unat (a + of_nat i) = unat a + i" if "unat a + ?n \<le> 2 ^ 64" "i < ?n" for a :: uint64 and i
    using that by (simp add: unat_word_ariths unat_of_nat)
  show ?thesis
  proof (cases "vsrc > vdst")
    case True
    have "vsrc + of_nat i \<noteq> vdst + of_nat j" if "j < i" "i < ?n" for i j
      using u [OF assms(3), of i] u [OF assms(4), of j] True that by (auto simp: word_less_nat_alt dest!: arg_cong [where f = unat])
    then have "sorted_wrt (\<lambda>j i. vsrc + of_nat i \<noteq> vdst + of_nat j) [0..<?n]"
      by (intro sorted_wrt_mono_rel [OF _ sorted_wrt_upt]) auto
    then show ?thesis using True fold_copy [OF n(1)] by (simp add: memmove_u_def copy_forward_def)
  next
    case False
    have "vsrc + of_nat i \<noteq> vdst + of_nat j" if "i < j" "j < ?n" for i j
      using u [OF assms(3), of i] u [OF assms(4), of j] False that by (auto simp: word_less_nat_alt dest!: arg_cong [where f = unat])
    then have "sorted_wrt (\<lambda>j i. vsrc + of_nat i \<noteq> vdst + of_nat j) (rev [0..<?n])"
      unfolding sorted_wrt_rev by (intro sorted_wrt_mono_rel [OF _ sorted_wrt_upt]) auto
    then show ?thesis using False fold_copy [OF n(2)] by (simp add: memmove_u_def copy_backward_def)
  qed
qed

lemma memmove_u_overlap_witness:
  "memmove_u (\<lambda>x. ucast x) 11 10 3 12 = 11 \<and> memmove_u (\<lambda>x. ucast x) 9 10 3 10 = 11"
  using memmove_u_overlap [of 3 10 11 "\<lambda>x. ucast x"] memmove_u_overlap [of 3 10 9 "\<lambda>x. ucast x"] by simp

text \<open>
  C30: \<open>atoi\<close> reads back the decimal numeral of every non-negative \<open>int\<close>, up to the end of the string or the
  first byte that is not a digit.
\<close>

theorem atoi_reads_numeral:
  assumes "n < 2 ^ 31" "s = [] \<or> \<not> (48 \<le> hd s \<and> hd s \<le> 57)"
  shows "atoi_u (map digit (nat_digits 10 n) @ s) = int n"
proof -
  have "\<forall>d\<in>set (nat_digits 10 n). d < 10" using nat_digits_range [of 10] by simp
  from atoi_digits [OF this assms(2), of 0]
  have "atoi_loop 0 (map digit (nat_digits 10 n) @ s) = of_nat n"
    using foldl_of_nat [of 0 "nat_digits 10 n"] nat_digits_value [of 10 n] by simp
  then have "atoi_u (map digit (nat_digits 10 n) @ s) = sint (of_int (int n) :: 32 word)" by (simp add: atoi_u_def)
  also have "\<dots> = int n" using assms(1) by (simp only: int_word_sint) simp
  finally show ?thesis .
qed

lemma atoi_reads_numeral_witness: "atoi_u (chars ''1967 '') = 1967"
  using atoi_reads_numeral [of 1967 "chars '' ''"]
  by (simp add: nat_digits_step nat_digits_less digit_def digits_def chars_def)

end
