(* ===== verification/UTrace.thy ===== *)
theory UTrace
  imports ULib
begin

text \<open>
  A calculus for user programs.  A trace pairs the system calls of a run with the replies they got.
  \<open>uspec f Q X W\<close>: whatever the kernel replies, \<open>f\<close> either returns a value and a trace in \<open>Q\<close>, or calls
  \<open>exit\<close> with a status and a trace in \<open>X\<close>, or waits in a system call for a reply that is not there, in \<open>W\<close>.
  Since these are the only possibilities the program has no endless loop of its own.
\<close>

section \<open>Traces\<close>

type_synonym trace = "(ucall \<times> int \<times> uchar list) list"

definition calls :: "trace \<Rightarrow> ucall list" where
  "calls tr = map fst tr"

definition after :: "trace \<Rightarrow> 'a ustate_scheme \<Rightarrow> 'a ustate_scheme" where
  "after tr s = s\<lparr>ucalls := ucalls s @ calls tr, ureplies := drop (length tr) (ureplies s)\<rparr>"

definition fits_tr :: "trace \<Rightarrow> 'a ustate_scheme \<Rightarrow> bool" where
  "fits_tr tr s \<longleftrightarrow> take (length tr) (ureplies s) = map snd tr"

definition uat :: "('r, 'a ustate_scheme) K \<Rightarrow> ('r \<Rightarrow> trace \<Rightarrow> bool) \<Rightarrow> (int \<Rightarrow> trace \<Rightarrow> bool) \<Rightarrow> (trace \<Rightarrow> ucall \<Rightarrow> bool) \<Rightarrow>
    'a ustate_scheme \<Rightarrow> ('a ustate_scheme \<Rightarrow> 'a ustate_scheme) list \<Rightarrow> bool" where
  "uat f Q X W s e \<longleftrightarrow>
     (\<exists>a tr. f s e = (Ret a, after tr s, e) \<and> fits_tr tr s \<and> Q a tr) \<or>
     (\<exists>n tr. f s e = (Panic ''exit'', (after tr s)\<lparr>ucalls := ucalls s @ calls tr @ [UExit n]\<rparr>, e) \<and> fits_tr tr s \<and> X n tr) \<or>
     (\<exists>tr c. f s e = (Stuck, (after tr s)\<lparr>ucalls := ucalls s @ calls tr @ [c]\<rparr>, e) \<and> map snd tr = ureplies s \<and> W tr c)"

definition uspec :: "('r, 'a ustate_scheme) K \<Rightarrow> ('r \<Rightarrow> trace \<Rightarrow> bool) \<Rightarrow> (int \<Rightarrow> trace \<Rightarrow> bool) \<Rightarrow> (trace \<Rightarrow> ucall \<Rightarrow> bool) \<Rightarrow> bool" where
  "uspec f Q X W \<longleftrightarrow> (\<forall>s e. uat f Q X W s e)"

lemma calls_simps [simp]: "calls [] = []" "calls (x # tr) = fst x # calls tr" "calls (tr @ tr') = calls tr @ calls tr'"
  by (simp_all add: calls_def)

lemma length_calls [simp]: "length (calls tr) = length tr"
  by (simp add: calls_def)

lemma after_Nil [simp]: "after [] s = s"
  by (simp add: after_def)

lemma after_after [simp]: "after tr' (after tr s) = after (tr @ tr') s"
  by (simp add: after_def add.commute)

lemma fits_tr_Nil [simp]: "fits_tr [] s"
  by (simp add: fits_tr_def)

lemma fits_tr_append: "fits_tr tr s \<Longrightarrow> fits_tr tr' (after tr s) \<Longrightarrow> fits_tr (tr @ tr') s"
  by (simp add: fits_tr_def after_def take_add)

lemma fits_tr_all: "fits_tr tr s \<Longrightarrow> map snd tr' = ureplies (after tr s) \<Longrightarrow> map snd (tr @ tr') = ureplies s"
  by (simp add: fits_tr_def after_def) (metis append_take_drop_id)

lemma fits_tr_length: "fits_tr tr s \<Longrightarrow> length tr \<le> length (ureplies s)"
  unfolding fits_tr_def by (metis length_map length_take min.cobounded1 min.absorb_iff2)

lemma uat_cases:
  assumes "uat f Q X W s e"
  obtains (Ret) a tr where "f s e = (Ret a, after tr s, e)" "fits_tr tr s" "Q a tr"
  | (Exit) n tr where "f s e = (Panic ''exit'', (after tr s)\<lparr>ucalls := ucalls s @ calls tr @ [UExit n]\<rparr>, e)" "fits_tr tr s" "X n tr"
  | (Wait) tr c where "f s e = (Stuck, (after tr s)\<lparr>ucalls := ucalls s @ calls tr @ [c]\<rparr>, e)" "map snd tr = ureplies s" "W tr c"
  using assms unfolding uat_def by blast

lemma uspecI: "(\<And>s e. uat f Q X W s e) \<Longrightarrow> uspec f Q X W"
  by (simp add: uspec_def)

lemma uspecD: "uspec f Q X W \<Longrightarrow> uat f Q X W s e"
  by (simp add: uspec_def)

section \<open>Rules\<close>

lemma uspec_mono:
  assumes "uspec f Q X W" "\<And>a tr. Q a tr \<Longrightarrow> Q' a tr" "\<And>n tr. X n tr \<Longrightarrow> X' n tr" "\<And>tr c. W tr c \<Longrightarrow> W' tr c"
  shows "uspec f Q' X' W'"
  using assms unfolding uspec_def uat_def by meson

lemma uspec_kret: "Q a [] \<Longrightarrow> uspec (kret a) Q X W"
  unfolding uspec_def uat_def by (metis kret_run after_Nil fits_tr_Nil)

lemma uspec_exit: "X n [] \<Longrightarrow> uspec (exit_u n) Q X W"
  unfolding uspec_def uat_def exit_u_def
  by (intro allI disjI2 disjI1 exI [of _ n] exI [of _ "[]"]) (simp add: kbind_def kmod_def kpanic_def)

lemma uspec_ecall:
  assumes q: "\<And>r. Q r [(c, r)]" and w: "W [] c"
  shows "uspec (ecall c) Q X W"
proof (rule uspecI)
  fix s :: "'a ustate_scheme" and e
  show "uat (ecall c) Q X W s e"
  proof (cases "ureplies s")
    case Nil
    then show ?thesis unfolding uat_def using w by (intro disjI2 exI [of _ "[]"] exI [of _ c]) (simp add: ecall_def)
  next
    case (Cons r rs)
    then show ?thesis unfolding uat_def using q [of r]
      by (intro disjI1 exI [of _ r] exI [of _ "[(c, r)]"]) (simp add: ecall_def after_def fits_tr_def Let_def)
  qed
qed

text \<open>Going on after a part of the run: the results of the rest, seen from the start.\<close>

lemma uat_later:
  assumes "uat g (\<lambda>b tr'. Q b (tr @ tr')) (\<lambda>n tr'. X n (tr @ tr')) (\<lambda>tr' c. W (tr @ tr') c) (after tr s) e"
    "f s e = g (after tr s) e" "fits_tr tr s"
  shows "uat f Q X W s e"
proof -
  have u: "ucalls (after tr s) = ucalls s @ calls tr" by (simp add: after_def)
  show ?thesis
  proof (rule uat_cases [OF assms(1)])
    fix b tr' assume "g (after tr s) e = (Ret b, after tr' (after tr s), e)" "fits_tr tr' (after tr s)" "Q b (tr @ tr')"
    then show ?thesis using fits_tr_append [OF assms(3)] unfolding uat_def assms(2) by (metis after_after)
  next
    fix n tr' assume "g (after tr s) e = (Panic ''exit'', (after tr' (after tr s))\<lparr>ucalls := ucalls (after tr s) @ calls tr' @ [UExit n]\<rparr>, e)"
      "fits_tr tr' (after tr s)" "X n (tr @ tr')"
    then show ?thesis using fits_tr_append [OF assms(3)] unfolding uat_def assms(2) u
      by (intro disjI2 disjI1 exI [of _ n] exI [of _ "tr @ tr'"]) simp
  next
    fix tr' c assume "g (after tr s) e = (Stuck, (after tr' (after tr s))\<lparr>ucalls := ucalls (after tr s) @ calls tr' @ [c]\<rparr>, e)"
      "map snd tr' = ureplies (after tr s)" "W (tr @ tr') c"
    then show ?thesis using fits_tr_all [OF assms(3)] unfolding uat_def assms(2) u
      by (intro disjI2 exI [of _ "tr @ tr'"] exI [of _ c]) simp
  qed
qed

text \<open>Replacing a computation by one with the same end, when it does not return.\<close>

lemma uat_end:
  assumes "uat f R X W s e" "\<And>a tr. f s e = (Ret a, after tr s, e) \<Longrightarrow> fits_tr tr s \<Longrightarrow> R a tr \<Longrightarrow> uat h Q X W s e"
    "\<And>m t. f s e = (Panic m, t, e) \<Longrightarrow> h s e = (Panic m, t, e)" "\<And>t. f s e = (Stuck, t, e) \<Longrightarrow> h s e = (Stuck, t, e)"
  shows "uat h Q X W s e"
proof (rule uat_cases [OF assms(1)])
  fix n tr assume "f s e = (Panic ''exit'', (after tr s)\<lparr>ucalls := ucalls s @ calls tr @ [UExit n]\<rparr>, e)" "fits_tr tr s" "X n tr"
  then show ?thesis unfolding uat_def using assms(3) by blast
next
  fix tr c assume "f s e = (Stuck, (after tr s)\<lparr>ucalls := ucalls s @ calls tr @ [c]\<rparr>, e)" "map snd tr = ureplies s" "W tr c"
  then show ?thesis unfolding uat_def using assms(4) by blast
qed (rule assms(2))

lemma uspec_kbind:
  assumes f: "uspec f R X W"
    and g: "\<And>a tr. R a tr \<Longrightarrow> uspec (g a) (\<lambda>b tr'. Q b (tr @ tr')) (\<lambda>n tr'. X n (tr @ tr')) (\<lambda>tr' c. W (tr @ tr') c)"
  shows "uspec (kbind f g) Q X W"
proof (rule uspecI)
  fix s e
  show "uat (kbind f g) Q X W s e"
  proof (rule uat_end [OF uspecD [OF f]])
    fix a tr assume "f s e = (Ret a, after tr s, e)" "fits_tr tr s" "R a tr"
    then show "uat (kbind f g) Q X W s e" by (intro uat_later [OF uspecD [OF g]]) (simp_all add: kbind_def)
  qed (simp_all add: kbind_def)
qed

lemma kloop_moves:
  "b v s e = (Ret (Inl v'), s', e') \<Longrightarrow> kloop b v' s' e' \<noteq> (Stuck, s', e') \<Longrightarrow> kloop b v s e = kloop b v' s' e'"
  by (auto simp: kloop_rec [of b v] kloop_def [of b v'] split: option.splits)

lemma kloop_step_Stuck: "b v s e = (Stuck, s', e') \<Longrightarrow> kloop b v s e = (Stuck, s', e')"
  by (simp add: kloop_rec)

lemma uat_moves:
  assumes "uat f Q X W s e"
  shows "f s e \<noteq> (Stuck, s, e)"
proof (rule uat_cases [OF assms])
  fix tr c assume f: "f s e = (Stuck, (after tr s)\<lparr>ucalls := ucalls s @ calls tr @ [c]\<rparr>, e)"
  have "ucalls ((after tr s)\<lparr>ucalls := ucalls s @ calls tr @ [c]\<rparr>) \<noteq> ucalls s" by simp
  then show ?thesis using f by (metis prod.inject)
qed simp_all

text \<open>
  Loops: an invariant on the loop variables and the trace so far.  A round that goes on has made a
  system call or decreased a measure, so the loop ends when the replies run out at the latest.
\<close>

lemma uspec_kloop:
  assumes "I v []"
    and body: "\<And>v tr. I v tr \<Longrightarrow> uspec (b v)
      (\<lambda>r tr'. case r of Inl w \<Rightarrow> I w (tr @ tr') \<and> (tr' \<noteq> [] \<or> mu w < (mu v :: nat)) | Inr a \<Rightarrow> Q a (tr @ tr'))
      (\<lambda>n tr'. X n (tr @ tr')) (\<lambda>tr' c. W (tr @ tr') c)"
  shows "uspec (kloop b v) Q X W"
proof -
  have "uat (kloop b v) (\<lambda>a tr'. Q a (tr @ tr')) (\<lambda>n tr'. X n (tr @ tr')) (\<lambda>tr' c. W (tr @ tr') c) s e" if "I v tr" for v tr s e
    using that
  proof (induction "(length (ureplies s), mu v)" arbitrary: v tr s rule: wf_induct_rule [OF wf_lex_prod [OF wf_less_than wf_less_than]])
    case 1
    show ?case
    proof (rule uat_end [OF uspecD [OF body [OF 1(2)]]])
      fix r tr' assume r: "b v s e = (Ret r, after tr' s, e)" "fits_tr tr' s"
        and q: "case r of Inl w \<Rightarrow> I w (tr @ tr') \<and> (tr' \<noteq> [] \<or> mu w < mu v) | Inr a \<Rightarrow> Q a (tr @ tr')"
      show "uat (kloop b v) (\<lambda>a tr'. Q a (tr @ tr')) (\<lambda>n tr'. X n (tr @ tr')) (\<lambda>tr' c. W (tr @ tr') c) s e"
      proof (cases r)
        case (Inr a)
        then show ?thesis using r q kloop_step_Inr [where b = b and v = v and s = s and e = e] unfolding uat_def by auto
      next
        case (Inl w)
        then have i: "I w (tr @ tr')" "tr' \<noteq> [] \<or> mu w < mu v" using q by auto
        have "length (ureplies (after tr' s)) + length tr' = length (ureplies s)" using fits_tr_length [OF r(2)] by (simp add: after_def)
        then have "((length (ureplies (after tr' s)), mu w), (length (ureplies s), mu v)) \<in> less_than <*lex*> less_than"
          using i(2) by (cases tr') auto
        from 1(1) [OF this i(1)]
        have ih: "uat (kloop b w) (\<lambda>a tr''. Q a (tr @ tr' @ tr'')) (\<lambda>n tr''. X n (tr @ tr' @ tr''))
            (\<lambda>tr'' c. W (tr @ tr' @ tr'') c) (after tr' s) e" by simp
        have "kloop b v s e = kloop b w (after tr' s) e" using kloop_moves [OF _ uat_moves [OF ih]] r(1) Inl by blast
        from uat_later [of "kloop b w" "\<lambda>a t. Q a (tr @ t)" tr' "\<lambda>n t. X n (tr @ t)" "\<lambda>t c. W (tr @ t) c" s e "kloop b v", OF ih this r(2)]
        show ?thesis .
      qed
    qed (auto intro: kloop_step_Panic kloop_step_Stuck)
  qed
  from this [of v "[]"] assms(1) show ?thesis by (simp add: uspec_def)
qed

section \<open>Single calls\<close>

lemma uspec_usys:
  assumes "\<And>r bs. Q r [(c, r, bs)]" "W [] c"
  shows "uspec (usys c) Q X W"
  unfolding usys_def
  by (rule uspec_kbind [where R = "\<lambda>a tr. tr = [(c, a)]"], rule uspec_ecall) (auto intro!: uspec_kret assms)

lemma uspec_usys_bind:
  assumes "\<And>r bs. uspec (g r) (\<lambda>a tr. Q a ((c, r, bs) # tr)) (\<lambda>n tr. X n ((c, r, bs) # tr)) (\<lambda>tr d. W ((c, r, bs) # tr) d)" "W [] c"
  shows "uspec (kbind (usys c) g) Q X W"
  by (rule uspec_kbind [where R = "\<lambda>a tr. \<exists>bs. tr = [(c, a, bs)]"], rule uspec_usys) (use assms in auto)

lemma uspec_ecall_bind:
  assumes "\<And>r bs. uspec (g (r, bs)) (\<lambda>a tr. Q a ((c, r, bs) # tr)) (\<lambda>n tr. X n ((c, r, bs) # tr)) (\<lambda>tr d. W ((c, r, bs) # tr) d)" "W [] c"
  shows "uspec (kbind (ecall c) g) Q X W"
  by (rule uspec_kbind [where R = "\<lambda>a tr. tr = [(c, a)]"], rule uspec_ecall) (use assms in auto)

lemma uspec_kfor:
  assumes "I [] []" "\<And>tr. I xs tr \<Longrightarrow> Q () tr"
    and "\<And>ys x zs tr. xs = ys @ x # zs \<Longrightarrow> I ys tr \<Longrightarrow>
      uspec (f x) (\<lambda>_ tr'. I (ys @ [x]) (tr @ tr')) (\<lambda>n tr'. X n (tr @ tr')) (\<lambda>tr' c. W (tr @ tr') c)"
  shows "uspec (kfor xs f) Q X W"
proof -
  have "uspec (kfor zs f) (\<lambda>_ tr'. I xs (tr @ tr')) (\<lambda>n tr'. X n (tr @ tr')) (\<lambda>tr' c. W (tr @ tr') c)"
    if "I ys tr" "xs = ys @ zs" for ys zs tr
    using that
  proof (induction zs arbitrary: ys tr)
    case Nil
    then show ?case by (auto intro!: uspec_kret)
  next
    case (Cons z zs)
    have "uspec (kfor zs f) (\<lambda>b tr'. I xs (tr @ t @ tr')) (\<lambda>n tr'. X n (tr @ t @ tr')) (\<lambda>tr'. W (tr @ t @ tr'))"
      if "I (ys @ [z]) (tr @ t)" for t
      using Cons.IH [of "ys @ [z]" "tr @ t"] Cons.prems(2) that by simp
    then show ?case by (auto intro!: uspec_kbind [OF assms(3) [OF Cons.prems(2,1)]])
  qed
  from this [of "[]" "[]" xs] assms(1) have "uspec (kfor xs f) (\<lambda>_. I xs) X W" by simp
  then show ?thesis by (rule uspec_mono) (simp_all add: assms(2))
qed

text \<open>The trace of a run is determined by the calls it has made.\<close>

lemma trace_eq: "fits_tr tr s \<Longrightarrow> ucalls (after tr s) = ucalls s @ cs \<Longrightarrow> tr = zip cs (ureplies s)"
proof -
  assume f: "fits_tr tr s" and "ucalls (after tr s) = ucalls s @ cs"
  then have cs: "cs = map fst tr" by (simp add: after_def calls_def)
  have "tr = zip (map fst tr) (map snd tr)" by (simp add: zip_map_fst_snd)
  also have "\<dots> = zip cs (take (length cs) (ureplies s))" using f by (simp add: cs fits_tr_def)
  also have "\<dots> = take (length cs) (zip cs (ureplies s))" by (simp add: take_zip)
  finally show ?thesis by simp
qed

section \<open>Input and output\<close>

text \<open>
  The bytes a program got from a file descriptor, the blocks it wrote to one, and the kernel's contract for
  \<open>read\<close>: at most as many bytes as asked for, and as many bytes stored as the count says.
\<close>

definition received :: "int \<Rightarrow> trace \<Rightarrow> uchar list" where
  "received fd tr = concat (map (\<lambda>(c, r, bs). case c of URead fd' n \<Rightarrow> if fd' = fd then take (nat r) bs else [] | _ \<Rightarrow> []) tr)"

definition writes :: "int \<Rightarrow> trace \<Rightarrow> uchar list list" where
  "writes fd tr = concat (map (\<lambda>(c, _). case c of UWrite fd' bs \<Rightarrow> if fd' = fd then [bs] else [] | _ \<Rightarrow> []) tr)"

definition honest :: "trace \<Rightarrow> bool" where
  "honest tr = list_all (\<lambda>(c, r, bs). case c of URead fd n \<Rightarrow> r \<le> int n \<and> length bs = nat r | _ \<Rightarrow> True) tr"

lemma received_simps [simp]: "received fd [] = []" "received fd (tr @ tr') = received fd tr @ received fd tr'"
    "received fd ((c, r, bs) # tr) = (case c of URead fd' n \<Rightarrow> if fd' = fd then take (nat r) bs else [] | _ \<Rightarrow> []) @ received fd tr"
  by (simp_all add: received_def)

lemma writes_simps [simp]: "writes fd [] = []" "writes fd (tr @ tr') = writes fd tr @ writes fd tr'"
    "writes fd ((c, x) # tr) = (case c of UWrite fd' bs \<Rightarrow> if fd' = fd then [bs] else [] | _ \<Rightarrow> []) @ writes fd tr"
  by (simp_all add: writes_def)

lemma honest_simps [simp]: "honest []" "honest (tr @ tr') \<longleftrightarrow> honest tr \<and> honest tr'"
    "honest ((c, r, bs) # tr) \<longleftrightarrow> (case c of URead fd n \<Rightarrow> r \<le> int n \<and> length bs = nat r | _ \<Rightarrow> True) \<and> honest tr"
  by (simp_all add: honest_def)

lemma map_rd: "length bs = n \<Longrightarrow> map (rd bs) [0..<n] = bs"
  by (simp add: rd_def map_nth list_eq_iff_nth_eq)

end
