(* ===== verification/UPrintfProps.thy ===== *)
theory UPrintfProps
  imports ULibProps UTrace
begin

unbundle bit_operations_syntax

text \<open>
  What \<open>printf\<close> of user programs writes: the bytes that its format string and arguments stand for,
  one \<open>write\<close> call for each, whatever the kernel answers.
\<close>

section \<open>Writing bytes\<close>

definition wcalls :: "int \<Rightarrow> uchar list \<Rightarrow> ucall list" where
  "wcalls fd bs = map (\<lambda>b. UWrite fd [b]) bs"

definition says :: "int \<Rightarrow> uchar list \<Rightarrow> 'r \<Rightarrow> ('r, 'a ustate_scheme) K \<Rightarrow> bool" where
  "says fd bs r f \<longleftrightarrow>
     uspec f (\<lambda>a tr. a = r \<and> calls tr = wcalls fd bs) (\<lambda>_ _. False) (\<lambda>tr c. prefix (calls tr @ [c]) (wcalls fd bs))"

lemma wcalls_simps [simp]: "wcalls fd [] = []" "wcalls fd (b # bs) = UWrite fd [b] # wcalls fd bs"
    "wcalls fd (bs @ cs) = wcalls fd bs @ wcalls fd cs" "length (wcalls fd bs) = length bs"
  by (simp_all add: wcalls_def)

lemma says_uspec:
  "says fd bs r f \<Longrightarrow> (\<And>tr. calls tr = wcalls fd bs \<Longrightarrow> Q r tr) \<Longrightarrow>
   (\<And>tr c. prefix (calls tr @ [c]) (wcalls fd bs) \<Longrightarrow> W tr c) \<Longrightarrow> uspec f Q X W"
  unfolding says_def by (erule uspec_mono) auto

lemma says_run:
  assumes "says fd bs r f" "length bs \<le> length (ureplies s)"
  shows "f s e = (Ret r, s\<lparr>ucalls := ucalls s @ wcalls fd bs, ureplies := drop (length bs) (ureplies s)\<rparr>, e)"
proof (rule uat_cases [OF uspecD [OF assms(1) [unfolded says_def], of s e]])
  fix a tr assume "f s e = (Ret a, after tr s, e)" "a = r \<and> calls tr = wcalls fd bs"
  then show ?thesis by (simp add: after_def) (metis length_calls wcalls_simps(4))
next
  fix tr c assume m: "map snd tr = ureplies s" and p: "prefix (calls tr @ [c]) (wcalls fd bs)"
  have "length tr = length (ureplies s)" using arg_cong [OF m, of length] by simp
  then have "length (ureplies s) < length bs" using prefix_length_le [OF p] by simp
  then show ?thesis using assms(2) by simp
qed simp

lemma says_kret: "says fd [] r (kret r)"
  unfolding says_def by (rule uspec_kret) simp

lemma says_kbind: "says fd bs q f \<Longrightarrow> says fd cs r (g q) \<Longrightarrow> says fd (bs @ cs) r (kbind f g)"
  unfolding says_def
proof (rule uspec_kbind [where R = "\<lambda>a tr. a = q \<and> calls tr = wcalls fd bs"], erule uspec_mono)
  fix a tr assume g: "uspec (g q) (\<lambda>a tr. a = r \<and> calls tr = wcalls fd cs) (\<lambda>_ _. False) (\<lambda>tr c. prefix (calls tr @ [c]) (wcalls fd cs))"
    and "a = q \<and> calls tr = wcalls fd bs"
  then show "uspec (g a) (\<lambda>b tr'. b = r \<and> calls (tr @ tr') = wcalls fd (bs @ cs)) (\<lambda>n tr'. False)
      (\<lambda>tr' c. prefix (calls (tr @ tr') @ [c]) (wcalls fd (bs @ cs)))"
    by (auto intro: uspec_mono [OF g])
qed auto

lemma says_map: "says fd bs q f \<Longrightarrow> says fd bs r (kbind f (\<lambda>_. kret r))"
  by (metis append_Nil2 says_kbind says_kret)

lemma says_putc: "says fd [c] () (putc_u fd c)"
  unfolding says_def putc_u_def write_u_def by (rule uspec_usys_bind) (auto intro: uspec_kret)

lemma says_kfor: "(\<And>x. x \<in> set xs \<Longrightarrow> says fd (h x) () (f x)) \<Longrightarrow> says fd (concat (map h xs)) () (kfor xs f)"
  by (induction xs) (auto intro: says_kret says_kbind)

lemma says_string: "says fd bs () (kfor bs (putc_u fd))"
proof -
  have "says fd (concat (map (\<lambda>c. [c]) bs)) () (kfor bs (putc_u fd))" by (rule says_kfor) (rule says_putc)
  then show ?thesis by simp
qed

section \<open>Numerals\<close>

text \<open>The digits of user programs are those of the kernel in upper case.\<close>

definition upper :: "uchar \<Rightarrow> uchar" where
  "upper c = (if 97 \<le> c \<and> c \<le> 102 then c - 32 else c)"

lemma digits_u_upper: "d < 16 \<Longrightarrow> digits_u ! d = upper (digit d)"
proof -
  assume "d < 16"
  then have "d \<in> set [0..<16]" by simp
  moreover have "\<forall>d\<in>set [0..<16]. digits_u ! d = upper (digit d)"
    by (simp add: upt_rec digit_def digits_def digits_u_def chars_def upper_def)
  ultimately show ?thesis by blast
qed

definition printint_round_u :: "uint64 \<Rightarrow> uint64 \<times> uchar list \<Rightarrow> (uint64 \<times> uchar list + uchar list, 's) K" where
  "printint_round_u b = (\<lambda>(x, buf). kbind (putbuf (digits_u ! unat (x mod b)) buf) (\<lambda>buf.
     if x div b \<noteq> 0 then kret (Inl (x div b, buf)) else kret (Inr buf)))"

lemma printint_loop_u:
  assumes "2 \<le> unat b" "unat b \<le> 16" "length buf + length (nat_digits (unat b) (unat x)) \<le> 20"
  shows "kloop (printint_round_u b) (x, buf) s e =
     (Ret (buf @ map (\<lambda>d. upper (digit d)) (rev (nat_digits (unat b) (unat x)))), s, e)"
  using assms(3)
proof (induction "unat x" arbitrary: x buf rule: less_induct)
  case less
  have m: "unat (x mod b) < 16" using assms(1,2) by (simp add: unat_mod) (meson less_le_trans mod_less_divisor zero_less_numeral)
  have "length (nat_digits (unat b) (unat x)) \<noteq> 0" by (subst nat_digits.simps) simp
  then have l: "length buf < 20" using less.prems by linarith
  show ?case
  proof (cases "unat x < unat b")
    case True
    then have "x div b = 0" "x mod b = x" by (simp_all add: word_unat_eq_iff unat_div unat_mod)
    then show ?thesis
      using l True m digits_u_upper [OF m]
      by (intro kloop_step_Inr) (simp add: printint_round_u_def putbuf_def kret_run nat_digits_less)
  next
    case False
    have ne: "x div b \<noteq> 0" using False assms(1) by (simp add: word_unat_eq_iff unat_div div_eq_0_iff)
    have d: "nat_digits (unat b) (unat x) = nat_digits (unat b) (unat x div unat b) @ [unat x mod unat b]"
      using False assms(1) by (intro nat_digits_step) simp_all
    have lt: "unat (x div b) < unat x" using assms(1) False by (simp add: unat_div)
    let ?buf = "buf @ [upper (digit (unat x mod unat b))]"
    have "printint_round_u b (x, buf) s e = (Ret (Inl (x div b, ?buf)), s, e)"
      using ne l digits_u_upper [OF m] by (simp add: printint_round_u_def putbuf_def kret_run unat_mod)
    moreover have "kloop (printint_round_u b) (x div b, ?buf) s e =
        (Ret (?buf @ map (\<lambda>d. upper (digit d)) (rev (nat_digits (unat b) (unat (x div b))))), s, e)"
      using less.prems d by (intro less.hyps [OF lt]) (simp add: unat_div)
    ultimately show ?thesis by (simp add: kloop_step_Inl d unat_div)
  qed
qed

definition numeral_u :: "uint64 \<Rightarrow> nat \<Rightarrow> bool \<Rightarrow> uchar list" where
  "numeral_u xx b sg = map upper (pr_numeral xx b sg)"

lemma says_printint:
  assumes "b = 10 \<or> b = 16"
  shows "says fd (numeral_u xx (unat b) sg) () (printint_u fd xx b sg)"
proof -
  let ?neg = "sg \<and> sint xx < 0" and ?x = "if sg \<and> sint xx < 0 then - xx else xx"
  let ?ds = "map (\<lambda>d. upper (digit d)) (nat_digits (unat b) (unat ?x))"
  have b: "2 \<le> unat b" "unat b \<le> 16" "unat b = 10 \<or> unat b = 16" using assms by auto
  have neg: "pr_value xx sg < 0 \<longleftrightarrow> ?neg" by (auto simp: pr_value_def not_less)
  have n: "numeral_u xx (unat b) sg = (if ?neg then [of_char CHR ''-''] else []) @ ?ds"
    unfolding numeral_u_def pr_numeral_def pr_value_abs neg by (simp add: upper_def)
  have len: "length ((if ?neg then [of_char CHR ''-'' :: uchar] else []) @ ?ds) \<le> 20"
    using pr_numeral_fits [OF b(3), of xx sg] unfolding n [symmetric] by (simp add: numeral_u_def)
  then have d: "printint_digits_u ?x b s e = (Ret (rev ?ds), s, e)" for s :: "'a ustate_scheme" and e
    using printint_loop_u [OF b(1,2), of "[]" ?x s e] by (simp add: printint_digits_u_def printint_round_u_def rev_map)
  have "printint_u fd xx b sg s e = kfor (numeral_u xx (unat b) sg) (putc_u fd) s e" for s :: "'a ustate_scheme" and e
    unfolding printint_u_def Let_def n using len by (auto simp: kbind_Ret [OF d] putbuf_def)
  then have "printint_u fd xx b sg = (kfor (numeral_u xx (unat b) sg) (putc_u fd) :: (unit, 'a ustate_scheme) K)" by blast
  then show ?thesis using says_string by metis
qed

lemma says_printptr: "says fd (chars ''0x'' @ map upper (hex16 v)) () (printptr_u fd v)"
proof -
  have u: "unat (drop_bit 60 (push_bit (4 * i) v)) < 16" for i
  proof -
    have "unat (drop_bit 60 (push_bit (4 * i) v)) = unat (push_bit (4 * i) v) div 2 ^ 60" by (simp add: drop_bit_eq_div unat_div)
    moreover have "unat (push_bit (4 * i) v) < 2 ^ 64" by (rule unat64_less)
    ultimately show ?thesis by (simp add: less_mult_imp_div_less)
  qed
  have "says fd (concat (map (\<lambda>i. [digits_u ! unat (drop_bit 60 (push_bit (4 * i) v))]) [0..<16])) ()
      (kfor [0..<16] (\<lambda>i. putc_u fd (digits_u ! unat (drop_bit 60 (push_bit (4 * i) v)))))"
    by (rule says_kfor) (rule says_putc)
  then have h: "says fd (map upper (hex16 v)) () (kfor [0..<16] (\<lambda>i. putc_u fd (digits_u ! unat (drop_bit 60 (push_bit (4 * i) v)))))"
    by (simp add: digits_u_upper [OF u] hex16_def comp_def concat_map_singleton del: upt_Suc)
  have "says fd ([of_char CHR ''0''] @ [of_char CHR ''x''] @ map upper (hex16 v) @ []) () (printptr_u fd v)"
    unfolding printptr_u_def kseq.simps by (intro says_kbind [where q = "()"] says_putc h says_kret)
  then show ?thesis by (simp add: chars_def)
qed

section \<open>Format strings\<close>

fun one_dir_u :: "char \<Rightarrow> arg list \<Rightarrow> (uchar list \<times> arg list) option" where
  "one_dir_u c as =
     (if c = CHR ''p'' then case as of ArgInt v # as \<Rightarrow> Some (chars ''0x'' @ map upper (hex16 v), as) | _ \<Rightarrow> None
      else if c = CHR ''c'' then case as of ArgInt v # as \<Rightarrow> Some ([ucast v], as) | _ \<Rightarrow> None
      else if c = CHR ''s'' then case as of
          ArgStr (Some t) # as \<Rightarrow> Some (takeWhile (\<lambda>c. c \<noteq> 0) t, as)
        | ArgStr None # as \<Rightarrow> Some (chars ''(null)'', as) | _ \<Rightarrow> None
      else if c = CHR ''%'' then Some (chars ''%'', as)
      else Some (chars [CHR ''%'', c], as))"

fun render_u :: "string \<Rightarrow> arg list \<Rightarrow> uchar list option" where
  "render_u [] as = Some []"
| "render_u (c # fs) as =
     (if c \<noteq> CHR ''%'' then map_option (\<lambda>bs. of_char c # bs) (render_u fs as)
      else case num_dir fs of
        Some (p, cv, b, sg) \<Rightarrow>
          (case as of
             ArgInt v # as \<Rightarrow> map_option (\<lambda>bs. numeral_u (cv v) (unat b) sg @ bs) (render_u (drop (length p) fs) as)
           | _ \<Rightarrow> None)
      | None \<Rightarrow>
          (case fs of
             [] \<Rightarrow> Some []
           | c0 # fs' \<Rightarrow>
               (case one_dir_u c0 as of
                  None \<Rightarrow> None
                | Some (bs, as) \<Rightarrow> map_option (\<lambda>cs. bs @ cs) (render_u fs' as))))"

lemma conv_num_u:
  assumes "num_dir fs = Some (p, cv, b, sg)"
  shows "p \<noteq> []" "b = 10 \<or> b = 16"
    "vprintf_conv fd (fmt_at fs 0) (fmt_at fs 1) (fmt_at fs 2) (ArgInt v # as) =
       kbind (printint_u fd (cv v) b sg) (\<lambda>_. kret (length p - 1, as))"
proof -
  have f: "(p, cv, b, sg) \<in> set num_dirs" and "prefix p fs"
    using assms unfolding num_dir_def find_Some_iff by (auto simp: in_set_conv_nth)
  show "p \<noteq> []" "b = 10 \<or> b = 16" using f unfolding num_dirs_def by auto
  obtain gs where fs: "fs = p @ gs" using \<open>prefix p fs\<close> by (auto simp: prefix_def)
  show "vprintf_conv fd (fmt_at fs 0) (fmt_at fs 1) (fmt_at fs 2) (ArgInt v # as) =
       kbind (printint_u fd (cv v) b sg) (\<lambda>_. kret (length p - 1, as))"
    using f unfolding num_dirs_def fs
    by (auto simp only: list.set insert_iff empty_iff prod.inject)
      (simp_all add: fmt_at_def vprintf_conv_def vprintf_num_def numeral_2_eq_2)
qed

lemma conv_none_u:
  assumes "num_dir (c0 # fs) = None" "one_dir_u c0 as = Some (bs, as')"
  shows "says fd bs (0, as') (vprintf_conv fd c0 (fmt_at (c0 # fs) 1) (fmt_at (c0 # fs) 2) as)"
proof -
  have no: "\<not> prefix q (c0 # fs)" if "(q, z) \<in> set num_dirs" for q z
    using assms(1) that by (cases z rule: prod_cases3) (auto simp: num_dir_def find_None_iff)
  have "c0 \<notin> {CHR ''d'', CHR ''u'', CHR ''x''}"
    using no [of "''d''"] no [of "''u''"] no [of "''x''"] by (auto simp: num_dirs_def)
  moreover have "c0 = CHR ''l'' \<Longrightarrow> fmt_at (c0 # fs) 1 \<notin> {CHR ''d'', CHR ''u'', CHR ''x''}"
    using no [of "''ld''"] no [of "''lu''"] no [of "''lx''"]
    by (cases fs) (auto simp: num_dirs_def fmt_at_def)
  moreover have "c0 = CHR ''l'' \<Longrightarrow> fmt_at (c0 # fs) 1 = CHR ''l'' \<Longrightarrow> fmt_at (c0 # fs) 2 \<notin> {CHR ''d'', CHR ''u'', CHR ''x''}"
    using no [of "''lld''"] no [of "''llu''"] no [of "''llx''"]
    by (cases fs; cases "tl fs") (auto simp: num_dirs_def fmt_at_def)
  ultimately have conv: "vprintf_conv fd c0 (fmt_at (c0 # fs) 1) (fmt_at (c0 # fs) 2) as =
      (if c0 = CHR ''p'' then kbind (va_int as) (\<lambda>(v, as). kbind (printptr_u fd v) (\<lambda>_. kret (0, as)))
      else if c0 = CHR ''c'' then kbind (va_int as) (\<lambda>(v, as). kbind (putc_u fd (ucast v)) (\<lambda>_. kret (0, as)))
      else if c0 = CHR ''s'' then
        kbind (va_str as) (\<lambda>(p, as).
        kbind (kfor (case p of None \<Rightarrow> chars ''(null)'' | Some t \<Rightarrow> takeWhile (\<lambda>c. c \<noteq> 0) t) (putc_u fd)) (\<lambda>_.
        kret (0, as)))
      else if c0 = CHR ''%'' then kbind (putc_u fd (of_char CHR ''%'')) (\<lambda>_. kret (0, as))
      else kbind (kseq [putc_u fd (of_char CHR ''%''), putc_u fd (of_char c0)]) (\<lambda>_. kret (0, as)))"
    unfolding vprintf_conv_def by auto
  show ?thesis
  proof (cases "c0 \<in> {CHR ''p'', CHR ''c'', CHR ''s''}")
    case True
    then show ?thesis
      using assms(2) unfolding conv
      by (auto split: list.splits arg.splits option.splits
          intro!: says_map [where q = "()"] says_printptr says_putc says_string)
  next
    case False
    have "says fd ([of_char CHR ''%''] @ [of_char c0] @ []) () (kseq [putc_u fd (of_char CHR ''%''), putc_u fd (of_char c0)])"
      unfolding kseq.simps by (intro says_kbind [where q = "()"] says_putc says_kret)
    then show ?thesis
      using assms(2) False unfolding conv
      by (auto simp: chars_def simp del: of_char_Char split: if_splits intro!: says_map [where q = "()"] says_putc)
  qed
qed

lemma vprintf_loop_conv:
  assumes "CHR 0x00 \<notin> set (c0 # fs)"
  shows "vprintf_loop fd True (c0 # fs) as =
    kbind (vprintf_conv fd (fmt_at (c0 # fs) 0) (fmt_at (c0 # fs) 1) (fmt_at (c0 # fs) 2) as)
      (\<lambda>(k, as). vprintf_loop fd False (drop k fs) as)"
proof -
  have "(if fmt_at fs 0 \<noteq> CHR 0x00 then fmt_at fs 1 else CHR 0x00) = fmt_at fs 1"
    using assms by (cases fs) (auto simp: fmt_at_def)
  moreover have "fmt_at (c0 # fs) 0 = c0" "fmt_at (c0 # fs) 1 = fmt_at fs 0" "fmt_at (c0 # fs) 2 = fmt_at fs 1"
    by (simp_all add: fmt_at_def numeral_2_eq_2)
  ultimately show ?thesis by (simp only: vprintf_loop.simps Let_def)
qed

lemma says_vprintf_loop:
  "render_u fmt as = Some bs \<Longrightarrow> CHR 0x00 \<notin> set fmt \<Longrightarrow>
   says fd bs () (vprintf_loop fd False fmt as :: (unit, 'a ustate_scheme) K)"
proof (induction fmt as arbitrary: bs rule: render_u.induct)
  case (1 as)
  then show ?case by (simp add: says_kret)
next
  case (2 c fs as)
  show ?case
  proof (cases "c = CHR ''%''")
    case False
    then obtain cs where "render_u fs as = Some cs" "bs = [of_char c] @ cs" using "2.prems"(1) by auto
    then show ?thesis using "2.IH"(1) [OF False, of cs] "2.prems"(2) False
      by (simp del: append.simps) (intro says_kbind [where q = "()"] says_putc)
  next
    case True
    have nz: "CHR 0x00 \<notin> set fs" using "2.prems"(2) by simp
    have loop: "vprintf_loop fd False (c # fs) as = (vprintf_loop fd True fs as :: (unit, 'a ustate_scheme) K)" using True by simp
    show ?thesis
    proof (cases fs)
      case Nil
      then show ?thesis using "2.prems"(1) True by (simp add: says_kret)
    next
      case (Cons c0 fs')
      note conv = vprintf_loop_conv [OF nz [unfolded Cons]]
      show ?thesis
      proof (cases "num_dir fs")
        case (Some d)
        obtain p cv b sg where d: "d = (p, cv, b, sg)" by (cases d)
        have nd: "num_dir fs = Some (p, cv, b, sg)" using Some d by simp
        obtain v as' cs where as: "as = ArgInt v # as'" "render_u (drop (length p) fs) as' = Some cs"
            "bs = numeral_u (cv v) (unat b) sg @ cs"
          using "2.prems"(1) True nd by (auto split: list.splits arg.splits)
        have "says fd cs () (vprintf_loop fd False (drop (length p) fs) as' :: (unit, 'a ustate_scheme) K)"
          using "2.IH"(3) [OF _ nd refl refl refl as(1) refl as(2)] nz True by (auto dest: in_set_dropD)
        then have tl: "says fd cs () (vprintf_loop fd False (drop (length p - 1) fs') as' :: (unit, 'a ustate_scheme) K)"
          using conv_num_u(1) [OF nd] Cons by (cases p) auto
        show ?thesis
          unfolding loop unfolding as(1,3) unfolding Cons conv unfolding Cons [symmetric] conv_num_u(3) [OF nd]
          by (rule says_kbind [OF says_map [OF says_printint [OF conv_num_u(2) [OF nd]]]]) (use tl in simp)
      next
        case None
        obtain bs0 as' cs where o: "one_dir_u c0 as = Some (bs0, as')" "render_u fs' as' = Some cs" "bs = bs0 @ cs"
          using "2.prems"(1) True None Cons by (auto split: option.splits)
        have "says fd cs () (vprintf_loop fd False fs' as' :: (unit, 'a ustate_scheme) K)"
          using "2.IH"(2) [OF _ None Cons o(1) refl o(2)] nz True Cons by auto
        moreover have "fmt_at (c0 # fs') 0 = c0" by (simp add: fmt_at_def)
        ultimately show ?thesis
          unfolding loop o(3) unfolding Cons conv using conv_none_u [of c0 fs' as bs0 as' fd] None Cons o(1)
          by (auto intro!: says_kbind [where q = "(0, as')"])
      qed
    qed
  qed
qed

section \<open>What printf writes\<close>

text \<open>
  C31: \<open>fprintf\<close> of user programs writes what its format string and arguments stand for: decimal,
  hexadecimal (upper case) and pointer numerals, strings, characters and literal text, byte by byte
  and in order, on the given file descriptor, whatever the kernel answers to each \<open>write\<close>; it then
  returns, having made no other call.
\<close>

theorem fprintf_renders:
  assumes "CHR 0x00 \<notin> set fmt" "render_u fmt as = Some bs" "length bs \<le> length (ureplies s)"
  shows "fprintf_u fd fmt as s e =
    (Ret (), s\<lparr>ucalls := ucalls s @ map (\<lambda>b. UWrite fd [b]) bs, ureplies := drop (length bs) (ureplies s)\<rparr>, e)"
  using says_run [OF says_vprintf_loop [OF assms(2,1)] assms(3), of fd e] by (simp add: fprintf_u_def vprintf_u_def wcalls_def)

lemma fprintf_renders_witness:
  "fprintf_u 2 ''%s: %x'' [ArgStr (Some [104, 105, 0, 7]), ArgInt 43] \<lparr>ucalls = [], ureplies = replicate 6 (1, [])\<rparr> [] =
    (Ret (), \<lparr>ucalls = map (\<lambda>b. UWrite 2 [b]) (chars ''hi: 2B''), ureplies = []\<rparr>, [])"
proof -
  have "as_uint 43 = 43" unfolding as_uint_def by code_simp
  moreover have "nat_digits 16 43 = [2, 11]" by (simp add: nat_digits_step nat_digits_less)
  ultimately have r: "render_u ''%s: %x'' [ArgStr (Some [104, 105, 0, 7]), ArgInt 43] = Some (chars ''hi: 2B'')"
    by (simp add: num_dir_def num_dirs_def numeral_u_def pr_numeral_def pr_value_def digit_def digits_def chars_def upper_def)
  show ?thesis using fprintf_renders [OF _ r, of "\<lparr>ucalls = [], ureplies = replicate 6 (1, [])\<rparr>" 2 "[]"] by (simp add: chars_def)
qed

end
