(* ===== verification/Grep.thy ===== *)
theory Grep
  imports UPrintfProps Layout
begin

text \<open>
  \<open>user/grep.c\<close>: the regular expression matcher and the program around it.  Patterns and texts are the bytes
  of C strings; reading beyond the end gives the terminating NUL.
\<close>

section \<open>The matcher\<close>

function matchhere :: "cstring \<Rightarrow> cstring \<Rightarrow> bool" and matchstar :: "uchar \<Rightarrow> cstring \<Rightarrow> cstring \<Rightarrow> bool" where
  "matchhere re text =
     (if rd re 0 = 0 then True
      else if rd re 1 = of_char CHR ''*'' then matchstar (rd re 0) (drop 2 re) text
      else if rd re 0 = of_char CHR ''$'' \<and> rd re 1 = 0 then rd text 0 = 0
      else if rd text 0 \<noteq> 0 \<and> (rd re 0 = of_char CHR ''.'' \<or> rd re 0 = rd text 0) then matchhere (drop 1 re) (drop 1 text)
      else False)"
| "matchstar c re text =
     (if matchhere re text then True
      else if rd text 0 \<noteq> 0 \<and> (rd text 0 = c \<or> c = of_char CHR ''.'') then matchstar c re (drop 1 text)
      else False)"
  by pat_completeness auto
termination
  by (relation "measures [case_sum (\<lambda>(re, t). length re) (\<lambda>(c, re, t). length re),
        case_sum (\<lambda>(re, t). length t) (\<lambda>(c, re, t). length t), case_sum (\<lambda>_. 0) (\<lambda>_. 1)]")
    (auto simp: rd_def split: if_splits)

function match_from :: "cstring \<Rightarrow> cstring \<Rightarrow> bool" where
  "match_from re text = (if matchhere re text then True else if rd text 0 \<noteq> 0 then match_from re (drop 1 text) else False)"
  by pat_completeness auto
termination by (relation "measure (\<lambda>(re, t). length t)") (auto simp: rd_def split: if_splits)

declare matchhere.simps [simp del] matchstar.simps [simp del] match_from.simps [simp del]

definition match :: "cstring \<Rightarrow> cstring \<Rightarrow> bool" where
  "match re text = (if rd re 0 = of_char CHR ''^'' then matchhere (drop 1 re) text else match_from re text)"

section \<open>The program\<close>

text \<open>
  \<open>buf\<close> holds the bytes before \<open>buf[m]\<close>, where the code has stored a NUL; \<open>p\<close> is the offset of the pointer
  \<open>p\<close>.  One round of the inner loop finds the next line, terminates it in place and tries it.
\<close>

definition grep_line_round :: "cstring \<Rightarrow> uchar list \<times> nat \<Rightarrow> ((uchar list \<times> nat) + (uchar list \<times> nat), 'a ustate_scheme) K" where
  "grep_line_round pattern = (\<lambda>(buf, p).
     case strchr_from (rd buf) 10 p of
       None \<Rightarrow> kstuck
     | Some None \<Rightarrow> kret (Inr (buf, p))
     | Some (Some q) \<Rightarrow>
         (let buf = buf[q := 0] in
          if match pattern (drop p buf) then
            (let buf = buf[q := 10] in
             kbind (write_u 1 (slice buf p (q + 1 - p))) (\<lambda>_. kret (Inl (buf, q + 1))))
          else kret (Inl (buf, q + 1))))"

text \<open>One read; \<open>m\<close> is positive after it, so the rest of the last line always moves to the front.\<close>

definition grep_round :: "cstring \<Rightarrow> int \<Rightarrow> uchar list \<Rightarrow> (uchar list + unit, 'a ustate_scheme) K" where
  "grep_round pattern fd buf =
     kbind (read_u fd (1024 - length buf - 1)) (\<lambda>(n, bs).
     if \<not> n > 0 then kret (Inr ())
     else
       kbind (kloop (grep_line_round pattern) (buf @ map (rd bs) [0..<nat n], 0)) (\<lambda>(buf, p).
       kret (Inl (drop p buf))))"

definition grep :: "cstring \<Rightarrow> int \<Rightarrow> (unit, 'a ustate_scheme) K" where
  "grep pattern fd = kloop (grep_round pattern fd) []"

definition grep_main :: "cstring list \<Rightarrow> (int, 'a ustate_scheme) K" where
  "grep_main argv =
     (if length argv \<le> 1 then
        kbind (fprintf_u 2 (''usage: grep pattern [file ...]'' @ [CHR 0x0A]) []) (\<lambda>_. exit_u 1)
      else
        (let pattern = argv ! 1 in
         if length argv \<le> 2 then kbind (grep pattern 0) (\<lambda>_. exit_u 0)
         else
           kbind (kfor (drop 2 argv) (\<lambda>arg.
             kbind (usys (UOpen arg O_RDONLY_u)) (\<lambda>fd.
             if fd < 0 then
               kbind (printf_u (''grep: cannot open %s'' @ [CHR 0x0A]) [ArgStr (Some arg)]) (\<lambda>_. exit_u 1)
             else
               kbind (grep pattern fd) (\<lambda>_.
               kbind (usys (UClose fd)) (\<lambda>_. kret ()))))) (\<lambda>_.
           exit_u 0)))"

section \<open>What patterns mean\<close>

text \<open>A pattern is a sequence of items; \<open>.\<close> stands for any byte.\<close>

datatype item = One uchar | Many uchar | Last

fun items :: "cstring \<Rightarrow> item list" where
  "items [] = []"
| "items (c # d # re) = (if d = of_char CHR ''*'' then Many c # items re else One c # items (d # re))"
| "items [c] = (if c = of_char CHR ''$'' then [Last] else [One c])"

definition fits_byte :: "uchar \<Rightarrow> uchar \<Rightarrow> bool" where
  "fits_byte c x \<longleftrightarrow> c = of_char CHR ''.'' \<or> c = x"

text \<open>\<open>denotes is\<close> is the set of pairs of a piece of text and what may follow it.\<close>

primrec denotes :: "item list \<Rightarrow> (cstring \<times> cstring) set" where
  "denotes [] = {(u, v). u = []}"
| "denotes (i # is) = (case i of
       One c \<Rightarrow> {(x # u, v) | x u v. fits_byte c x \<and> (u, v) \<in> denotes is}
     | Many c \<Rightarrow> {(w @ u, v) | w u v. list_all (fits_byte c) w \<and> (u, v) \<in> denotes is}
     | Last \<Rightarrow> {([], [])})"

definition here :: "cstring \<Rightarrow> cstring \<Rightarrow> bool" where
  "here re text \<longleftrightarrow> (\<exists>u v. text = u @ v \<and> (u, v) \<in> denotes (items re))"

lemma here_Nil: "here [] t"
  by (simp add: here_def)

lemma here_one: "items (c # re) = One c # items re \<Longrightarrow> here (c # re) t \<longleftrightarrow> (\<exists>x t'. t = x # t' \<and> fits_byte c x \<and> here re t')"
  by (simp add: here_def) (metis append_Cons)

definition star :: "uchar \<Rightarrow> cstring \<Rightarrow> cstring \<Rightarrow> bool" where
  "star c re t \<longleftrightarrow> (\<exists>w r. t = w @ r \<and> list_all (fits_byte c) w \<and> here re r)"

lemma here_star: "here (c # of_char CHR ''*'' # re) t \<longleftrightarrow> star c re t"
  by (simp add: here_def star_def) (metis append.assoc)

lemma star_rec: "star c re t \<longleftrightarrow> here re t \<or> (\<exists>x t'. t = x # t' \<and> fits_byte c x \<and> star c re t')"
proof
  assume "star c re t"
  then obtain w r where w: "t = w @ r" "list_all (fits_byte c) w" "here re r" by (auto simp: star_def)
  then show "here re t \<or> (\<exists>x t'. t = x # t' \<and> fits_byte c x \<and> star c re t')"
    by (cases w) (auto simp: star_def)
next
  assume "here re t \<or> (\<exists>x t'. t = x # t' \<and> fits_byte c x \<and> star c re t')"
  then show "star c re t"
  proof
    assume "here re t"
    then have "t = [] @ t \<and> list_all (fits_byte c) [] \<and> here re t" by simp
    then show ?thesis unfolding star_def by blast
  next
    assume "\<exists>x t'. t = x # t' \<and> fits_byte c x \<and> star c re t'"
    then obtain x w r where "t = (x # w) @ r" "list_all (fits_byte c) (x # w)" "here re r" by (auto simp: star_def)
    then show ?thesis unfolding star_def by blast
  qed
qed

lemma rd_0_Cons [simp]: "rd (x # xs) 0 = x" "rd [] i = 0" "rd (x # xs) (Suc i) = rd xs i"
  by (simp_all add: rd_def)

lemma matchhere_matches:
  "0 \<notin> set re \<Longrightarrow> 0 \<notin> set t \<Longrightarrow> matchhere re t \<longleftrightarrow> here re t"
  "0 \<notin> set re \<Longrightarrow> 0 \<notin> set t \<Longrightarrow> matchstar c re t \<longleftrightarrow> star c re t"
proof (induction re t and c re t rule: matchhere_matchstar.induct)
  case (1 re t)
  show ?case
  proof (cases re)
    case Nil
    then show ?thesis by (subst matchhere.simps) (simp add: here_Nil)
  next
    case (Cons c re')
    have c: "c \<noteq> 0" "0 \<notin> set re'" using 1 Cons by auto
    consider re'' where "re' = of_char CHR ''*'' # re''" | "rd re' 0 \<noteq> of_char CHR ''*''" by (cases re') auto
    then show ?thesis
    proof cases
      case 1
      then show ?thesis using "1.IH"(1) "1.prems" Cons c by (subst matchhere.simps) (simp add: here_star [simplified])
    next
      case 2
      show ?thesis
      proof (cases "c = of_char CHR ''$'' \<and> re' = []")
        case True
        then show ?thesis using Cons "1.prems" by (subst matchhere.simps) (cases t; auto simp: here_def)
      next
        case False
        then have i: "items (c # re') = One c # items re'" using 2 by (cases re') auto
        have m: "matchhere re t \<longleftrightarrow> rd t 0 \<noteq> 0 \<and> fits_byte c (rd t 0) \<and> matchhere re' (drop 1 t)"
          using Cons c 2 False by (subst matchhere.simps) (cases re'; auto simp: fits_byte_def)
        show ?thesis
        proof (cases t)
          case Nil
          then show ?thesis using m Cons here_one [OF i] by simp
        next
          case (Cons x t')
          have "fits_byte c x \<Longrightarrow> matchhere re' t' \<longleftrightarrow> here re' t'"
            using "1.IH"(2) "1.prems" \<open>re = c # re'\<close> c 2 False Cons by (cases re') (auto simp: fits_byte_def)
          then show ?thesis using m Cons \<open>re = c # re'\<close> here_one [OF i] "1.prems" by auto
        qed
      qed
    qed
  qed
next
  case (2 c re t)
  have h: "matchhere re t \<longleftrightarrow> here re t" using 2 by blast
  show ?case
  proof (cases t)
    case Nil
    then show ?thesis using h by (subst matchstar.simps, subst star_rec) simp
  next
    case (Cons x t')
    have x: "x \<noteq> 0" using 2 Cons by simp
    have "\<not> here re t \<Longrightarrow> fits_byte c x \<Longrightarrow> matchstar c re t' \<longleftrightarrow> star c re t'"
      using "2.IH"(2) "2.prems" Cons h x by (auto simp: fits_byte_def)
    then show ?thesis using Cons x h by (subst matchstar.simps, subst star_rec) (auto simp: fits_byte_def)
  qed
qed

lemma match_from_suffix: "0 \<notin> set re \<Longrightarrow> 0 \<notin> set t \<Longrightarrow> match_from re t \<longleftrightarrow> (\<exists>p r. t = p @ r \<and> here re r)"
proof (induction re t rule: match_from.induct)
  case (1 re t)
  show ?case
  proof (cases t)
    case Nil
    then show ?thesis using matchhere_matches(1) [OF "1.prems"] by (subst match_from.simps) simp
  next
    case (Cons x t')
    have "(\<exists>p r. x # t' = p @ r \<and> here re r) \<longleftrightarrow> here re (x # t') \<or> (\<exists>p r. t' = p @ r \<and> here re r)"
      by (metis append_Cons append_Nil append_eq_Cons_conv)
    then show ?thesis using 1 Cons matchhere_matches(1) [OF "1.prems"] by (subst match_from.simps) auto
  qed
qed

end
