(* ===== verification/GrepProps.thy ===== *)
theory GrepProps
  imports Grep
begin

text \<open>
  What \<open>grep\<close> prints.  The matcher decides the language of the pattern, and the program writes the lines of
  its input that match, each with one \<open>write\<close>, however the kernel cuts the input into reads.
\<close>

section \<open>Texts end at the NUL\<close>

abbreviation (input) to_nul :: "uchar list \<Rightarrow> uchar list" where
  "to_nul \<equiv> takeWhile (\<lambda>c. c \<noteq> 0)"

lemma rd_to_nul: "rd (to_nul t) 0 = rd t 0"
  by (cases t) auto

lemma drop_to_nul: "rd t 0 \<noteq> 0 \<Longrightarrow> drop (Suc 0) (to_nul t) = to_nul (drop (Suc 0) t)"
  by (cases t) auto

lemma match_to_nul:
  "matchhere re (to_nul t) = matchhere re t" "matchstar c re (to_nul t) = matchstar c re t"
proof (induction re t and c re t rule: matchhere_matchstar.induct)
  case (1 re t)
  then show ?case by (subst (1 2) matchhere.simps) (auto simp: rd_to_nul drop_to_nul)
next
  case (2 c re t)
  then show ?case by (subst (1 2) matchstar.simps) (auto simp: rd_to_nul drop_to_nul)
qed

lemma match_from_to_nul: "match_from re (to_nul t) = match_from re t"
proof (induction re t rule: match_from.induct)
  case (1 re t)
  then show ?case by (subst (1 2) match_from.simps) (auto simp: rd_to_nul drop_to_nul match_to_nul(1))
qed

lemma match_line: "0 \<notin> set l \<Longrightarrow> match re (l @ 0 # r) = match re l"
proof -
  assume "0 \<notin> set l"
  then have "to_nul (l @ 0 # r) = l" by (induction l) auto
  then show ?thesis unfolding match_def by (metis match_to_nul(1) match_from_to_nul)
qed

section \<open>Lines\<close>

definition line_step :: "uchar list list \<times> uchar list \<Rightarrow> uchar \<Rightarrow> uchar list list \<times> uchar list" where
  "line_step = (\<lambda>(ls, cur) b. if b = 10 then (ls @ [cur], []) else (ls, cur @ [b]))"

text \<open>The complete lines of a text and the rest after the last of them.\<close>

definition lines_of :: "uchar list \<Rightarrow> uchar list list \<times> uchar list" where
  "lines_of d = foldl line_step ([], []) d"

lemma line_step_ls: "foldl line_step (ls @ ks, cur) d = (ls @ fst (foldl line_step (ks, cur) d), snd (foldl line_step (ks, cur) d))"
  by (induction d arbitrary: ks cur) (simp_all add: line_step_def)

lemma line_step_free: "10 \<notin> set l \<Longrightarrow> foldl line_step (ls, cur) l = (ls, cur @ l)"
  by (induction l arbitrary: cur) (auto simp: line_step_def)

lemma lines_of_append: "lines_of (d @ d') = (fst (lines_of d) @ fst (lines_of (snd (lines_of d) @ d')), snd (lines_of (snd (lines_of d) @ d')))"
proof -
  obtain ls r where d: "lines_of d = (ls, r)" by (cases "lines_of d")
  have "10 \<notin> set (snd (foldl line_step (ks, cur) d))" if "10 \<notin> set cur" for ks cur
    using that by (induction d arbitrary: ks cur) (auto simp: line_step_def)
  then have "10 \<notin> set r" using d by (metis lines_of_def list.set(1) empty_iff snd_conv)
  then have "lines_of (r @ d') = foldl line_step ([], r) d'" by (simp add: lines_of_def line_step_free)
  moreover have "lines_of (d @ d') = foldl line_step (ls @ [], r) d'" using d by (simp add: lines_of_def)
  ultimately show ?thesis by (simp only: line_step_ls d fst_conv snd_conv)
qed

lemma lines_of_line: "lines_of d = (ls, []) \<Longrightarrow> 10 \<notin> set l \<Longrightarrow> lines_of (d @ l @ [10]) = (ls @ [l], [])"
  by (simp add: lines_of_def line_step_free) (simp add: line_step_def)

lemma lines_of_rest: "lines_of d = (ls, []) \<Longrightarrow> 10 \<notin> set l \<Longrightarrow> lines_of (d @ l) = (ls, l)"
  by (simp add: lines_of_def line_step_free)

lemma strchr_from_rd: "strchr_from (rd buf) c p = Some (map_option (\<lambda>k. p + k) (first_index c (to_nul (drop p buf))))"
proof (induction "length buf - p" arbitrary: p)
  case 0
  then show ?case by (subst strchr_from.simps) (simp add: rd_def first_index_def)
next
  case (Suc n)
  then have p: "p < length buf" by simp
  then have d: "drop p buf = rd buf p # drop (Suc p) buf" by (simp add: rd_def Cons_nth_drop_Suc)
  show ?case using Suc by (subst strchr_from.simps) (auto simp: d first_index_def)
qed

lemma first_index_found: "first_index c w = Some k \<Longrightarrow> \<exists>u v. w = u @ c # v \<and> length u = k \<and> c \<notin> set u"
proof -
  assume f: "first_index c w = Some k"
  then have "c \<in> set w" by (metis first_index_def option.distinct(1))
  then obtain u v where w: "w = u @ c # v" "c \<notin> set u" using split_list_first by fastforce
  have "c \<notin> set u \<Longrightarrow> takeWhile (\<lambda>x. x \<noteq> c) (u @ c # v) = u" by (induction u) auto
  then have "takeWhile (\<lambda>x. x \<noteq> c) w = u" using w by simp
  then show ?thesis using f w by (auto simp: first_index_def)
qed

section \<open>The loops\<close>

definition hits :: "cstring \<Rightarrow> uchar list list \<Rightarrow> uchar list list" where
  "hits pattern ls = map (\<lambda>l. l @ [10]) (filter (match pattern) ls)"

lemma hits_append [simp]: "hits pattern (ls @ ks) = hits pattern ls @ hits pattern ks"
  by (simp add: hits_def)

text \<open>Every read has delivered something.\<close>

definition reading :: "trace \<Rightarrow> bool" where
  "reading tr = list_all (\<lambda>(c, r, bs). case c of URead fd n \<Rightarrow> r > 0 | _ \<Rightarrow> True) tr"

lemma reading_simps [simp]: "reading []" "reading (tr @ tr') \<longleftrightarrow> reading tr \<and> reading tr'"
    "reading ((c, r, bs) # tr) \<longleftrightarrow> (case c of URead fd n \<Rightarrow> r > 0 | _ \<Rightarrow> True) \<and> reading tr"
  by (simp_all add: reading_def)

definition quiet :: "trace \<Rightarrow> bool" where
  "quiet tr \<longleftrightarrow> honest tr \<and> reading tr \<and> (\<forall>fd. received fd tr = [])"

definition line_inv :: "cstring \<Rightarrow> uchar list \<Rightarrow> uchar list \<times> nat \<Rightarrow> trace \<Rightarrow> bool" where
  "line_inv pattern buf0 = (\<lambda>(buf, p) tr. quiet tr \<and> length buf = length buf0 \<and> p \<le> length buf0 \<and> drop p buf = drop p buf0 \<and>
     (0 \<notin> set buf0 \<longrightarrow> (\<exists>ls. lines_of (take p buf0) = (ls, []) \<and> writes 1 tr = hits pattern ls)))"

lemma line_found:
  assumes "drop p buf = u @ 10 # v" "p \<le> length buf"
  shows "drop p (buf[p + length u := 0]) = u @ 0 # v" "slice (buf[p + length u := 0, p + length u := 10]) p (Suc (length u)) = u @ [10]"
    "drop (Suc (p + length u)) (buf[p + length u := x]) = v" "take (Suc (p + length u)) buf = take p buf @ u @ [10]" "p + length u < length buf"
proof -
  obtain h where h: "buf = h @ u @ 10 # v" "length h = p" using assms by (metis append_take_drop_id length_take min.absorb2)
  show "drop p (buf[p + length u := 0]) = u @ 0 # v" "slice (buf[p + length u := 0, p + length u := 10]) p (Suc (length u)) = u @ [10]"
    "drop (Suc (p + length u)) (buf[p + length u := x]) = v" "take (Suc (p + length u)) buf = take p buf @ u @ [10]" "p + length u < length buf"
    using h(2) unfolding h(1) by (simp_all add: list_update_append slice_def)
qed

lemma grep_line_round_spec:
  assumes "line_inv pattern buf0 (buf, p) tr"
  shows "uspec (grep_line_round pattern (buf, p))
    (\<lambda>r tr'. case r of Inl w \<Rightarrow> line_inv pattern buf0 w (tr @ tr') \<and> (tr' \<noteq> [] \<or> length buf0 - snd w < length buf0 - p)
       | Inr (b, q) \<Rightarrow> quiet (tr @ tr') \<and> (0 \<notin> set buf0 \<longrightarrow> drop q b = snd (lines_of buf0) \<and> writes 1 (tr @ tr') = hits pattern (fst (lines_of buf0))))
    X (\<lambda>_ _. True)"
proof (cases "first_index 10 (to_nul (drop p buf))")
  case None
  note i = assms [unfolded line_inv_def split]
  have "lines_of buf0 = (ls, drop p buf0)" if z: "0 \<notin> set buf0" and l: "lines_of (take p buf0) = (ls, [])" for ls
  proof -
    have "to_nul (drop p buf) = drop p buf0" using i z by (auto simp: takeWhile_eq_all_conv dest: in_set_dropD)
    then have "10 \<notin> set (drop p buf0)" using None by (auto simp: first_index_def split: if_splits)
    then show ?thesis using lines_of_rest [OF l] by (metis append_take_drop_id)
  qed
  then show ?thesis using None assms
    by (auto simp: grep_line_round_def strchr_from_rd line_inv_def intro!: uspec_kret)
next
  case (Some k)
  obtain u v where uv: "to_nul (drop p buf) = u @ 10 # v" "length u = k" "10 \<notin> set u" using first_index_found [OF Some] by blast
  have "0 \<notin> set (to_nul (drop p buf))" by (auto dest: set_takeWhileD)
  then have u0: "0 \<notin> set u" unfolding uv(1) by simp
  define w where "w = v @ dropWhile (\<lambda>c. c \<noteq> 0) (drop p buf)"
  have w: "drop p buf = u @ 10 # w" using takeWhile_dropWhile_id [of "\<lambda>c. c \<noteq> 0" "drop p buf"] unfolding uv(1) w_def by simp
  note i = assms [unfolded line_inv_def split]
  have pl: "p \<le> length buf" using i by simp
  note f = line_found [OF w pl]
  have "drop p buf0 = u @ 10 # w" using w i by simp
  note f0 = line_found [OF this]
  have d0: "drop (Suc (p + k)) buf0 = w" using f0(3) [of "buf0 ! (p + k)"] i uv(2) by simp
  have t0: "take (Suc (p + k)) buf0 = take p buf0 @ u @ [10]" using f0(4) i uv(2) by simp
  let ?b = "buf[p + k := 0]"
  have m: "match pattern (drop p ?b) = match pattern u" using f(1) match_line [OF u0] uv(2) by simp
  have nxt: "line_inv pattern buf0 (buf[p + k := x], Suc (p + k)) (tr @ tr')"
    if "quiet tr'" "writes 1 tr' = hits pattern [u]" for x tr'
  proof -
    have "\<exists>ls. lines_of (take (Suc (p + k)) buf0) = (ls, []) \<and> writes 1 (tr @ tr') = hits pattern ls" if "0 \<notin> set buf0"
      using i that \<open>writes 1 tr' = _\<close> lines_of_line [OF _ uv(3)] unfolding t0 by fastforce
    then show ?thesis using i f(3) [of x] f(5) d0 uv(2) \<open>quiet tr'\<close> by (simp add: line_inv_def quiet_def)
  qed
  have less: "length buf0 - Suc (p + k) < length buf0 - p" using f(5) i by simp
  show ?thesis
  proof (cases "match pattern u")
    case True
    have "uspec (kbind (write_u 1 (u @ [10])) (\<lambda>_. kret (Inl (buf[p + k := 0, p + k := 10], Suc (p + k)))))
      (\<lambda>r tr'. case r of Inl w \<Rightarrow> line_inv pattern buf0 w (tr @ tr') \<and> (tr' \<noteq> [] \<or> length buf0 - snd w < length buf0 - p)
         | Inr (b, q) \<Rightarrow> quiet (tr @ tr') \<and> (0 \<notin> set buf0 \<longrightarrow> drop q b = snd (lines_of buf0) \<and> writes 1 (tr @ tr') = hits pattern (fst (lines_of buf0))))
      X (\<lambda>_ _. True)"
      unfolding write_u_def using nxt [of "[(UWrite 1 (u @ [10]), r, bs)]" 10 for r bs] True
      by (intro uspec_usys_bind uspec_kret) (auto simp: quiet_def hits_def)
    then show ?thesis using True Some f(2) m uv(2) by (simp add: grep_line_round_def strchr_from_rd)
  next
    case False
    have "line_inv pattern buf0 (?b, Suc (p + k)) (tr @ [])" by (rule nxt) (use False in \<open>simp_all add: quiet_def hits_def\<close>)
    then show ?thesis using False Some m less by (auto simp: grep_line_round_def strchr_from_rd intro!: uspec_kret)
  qed
qed

lemma grep_lines_spec:
  "uspec (kloop (grep_line_round pattern) (buf, 0))
    (\<lambda>(b, q) tr. quiet tr \<and> (0 \<notin> set buf \<longrightarrow> drop q b = snd (lines_of buf) \<and> writes 1 tr = hits pattern (fst (lines_of buf))))
    X (\<lambda>_ _. True)"
proof (rule uspec_kloop [where I = "line_inv pattern buf" and mu = "\<lambda>w. length buf - snd w"])
  show "line_inv pattern buf (buf, 0) []" by (simp add: line_inv_def quiet_def lines_of_def hits_def)
  fix v tr assume "line_inv pattern buf v tr"
  then show "uspec (grep_line_round pattern v)
    (\<lambda>r tr'. case r of Inl w \<Rightarrow> line_inv pattern buf w (tr @ tr') \<and> (tr' \<noteq> [] \<or> length buf - snd w < length buf - snd v)
       | Inr a \<Rightarrow> (case a of (b, q) \<Rightarrow> \<lambda>tr. quiet tr \<and> (0 \<notin> set buf \<longrightarrow> drop q b = snd (lines_of buf) \<and> writes 1 tr = hits pattern (fst (lines_of buf)))) (tr @ tr'))
    (\<lambda>n tr'. X n (tr @ tr')) (\<lambda>tr' c. True)"
    using grep_line_round_spec [of pattern buf "fst v" "snd v" tr "\<lambda>n tr'. X n (tr @ tr')"]
    by (cases v) (auto elim!: uspec_mono split: sum.splits)
qed

lemma lines_of_sub: "set (snd (lines_of d)) \<subseteq> set d"
proof -
  have "set (snd (foldl line_step (ls, cur) d)) \<subseteq> set cur \<union> set d" for ls cur
  proof (induction d arbitrary: ls cur)
    case (Cons a d)
    then show ?case using Cons.IH [of "ls @ [cur]" "[]"] Cons.IH [of ls "cur @ [a]"] by (auto simp: line_step_def)
  qed simp
  from this [of "[]" "[]"] show ?thesis by (simp add: lines_of_def)
qed

definition grep_inv :: "cstring \<Rightarrow> int \<Rightarrow> uchar list \<Rightarrow> trace \<Rightarrow> bool" where
  "grep_inv pattern fd buf tr \<longleftrightarrow> reading tr \<and> (honest tr \<and> 0 \<notin> set (received fd tr) \<longrightarrow>
     buf = snd (lines_of (received fd tr)) \<and> writes 1 tr = hits pattern (fst (lines_of (received fd tr))))"

lemma grep_inv_step:
  assumes "grep_inv pattern fd buf tr" "quiet tr'" "r > 0"
    "0 \<notin> set (buf @ map (rd bs) [0..<nat r]) \<longrightarrow> rest = snd (lines_of (buf @ map (rd bs) [0..<nat r])) \<and>
      writes 1 tr' = hits pattern (fst (lines_of (buf @ map (rd bs) [0..<nat r])))"
  shows "grep_inv pattern fd rest (tr @ (URead fd k, r, bs) # tr')"
  unfolding grep_inv_def
proof (intro conjI impI)
  show "reading (tr @ (URead fd k, r, bs) # tr')" using assms(1-3) by (simp add: grep_inv_def quiet_def)
  assume h: "honest (tr @ (URead fd k, r, bs) # tr') \<and> 0 \<notin> set (received fd (tr @ (URead fd k, r, bs) # tr'))"
  then have b: "length bs = nat r" by simp
  have rc: "received fd (tr @ (URead fd k, r, bs) # tr') = received fd tr @ bs" using assms(2) b by (simp add: quiet_def)
  have "honest tr" "0 \<notin> set (received fd tr)" "0 \<notin> set bs" using h rc by auto
  then have i: "buf = snd (lines_of (received fd tr))" "writes 1 tr = hits pattern (fst (lines_of (received fd tr)))"
    using assms(1) by (auto simp: grep_inv_def)
  have "0 \<notin> set (buf @ bs)" using i lines_of_sub \<open>0 \<notin> set (received fd tr)\<close> \<open>0 \<notin> set bs\<close> by fastforce
  then show "rest = snd (lines_of (received fd (tr @ (URead fd k, r, bs) # tr')))"
      "writes 1 (tr @ (URead fd k, r, bs) # tr') = hits pattern (fst (lines_of (received fd (tr @ (URead fd k, r, bs) # tr'))))"
    using assms(4) i map_rd [OF b] unfolding rc by (simp_all add: lines_of_append [of "received fd tr" bs])
qed

lemma grep_round_spec:
  assumes i: "grep_inv pattern fd buf tr"
  shows "uspec (grep_round pattern fd buf)
    (\<lambda>r tr'. case r of Inl w \<Rightarrow> grep_inv pattern fd w (tr @ tr') \<and> (tr' \<noteq> [] \<or> (0::nat) < 0)
      | Inr a \<Rightarrow> \<exists>tr0 r bs. tr @ tr' = tr0 @ [(URead fd (1023 - length buf), r, bs)] \<and> r \<le> 0 \<and> grep_inv pattern fd buf tr0)
    (\<lambda>_ _. False) (\<lambda>_ _. True)"
  unfolding grep_round_def read_u_def
proof (rule uspec_ecall_bind)
  fix r bs
  let ?c = "URead fd (1024 - length buf - 1)" and ?buf = "buf @ map (rd bs) [0..<nat r]"
  let ?Q = "\<lambda>q tr'. case q of Inl w \<Rightarrow> grep_inv pattern fd w (tr @ tr') \<and> (tr' \<noteq> [] \<or> (0::nat) < 0)
      | Inr a \<Rightarrow> \<exists>tr0 r bs. tr @ tr' = tr0 @ [(URead fd (1023 - length buf), r, bs)] \<and> r \<le> 0 \<and> grep_inv pattern fd buf tr0"
  have "uspec (kbind (kloop (grep_line_round pattern) (?buf, 0)) (\<lambda>(buf, p). kret (Inl (drop p buf))))
      (\<lambda>a tr'. ?Q a ((?c, r, bs) # tr')) (\<lambda>_ _. False) (\<lambda>_ _. True)" if "r > 0"
    by (rule uspec_kbind [OF grep_lines_spec]) (auto intro!: uspec_kret grep_inv_step [OF i _ that])
  moreover have "?Q (Inr ()) [(?c, r, bs)]" if "\<not> r > 0" using i that by auto
  ultimately show "uspec (case (r, bs) of (n, bs) \<Rightarrow> if \<not> n > 0 then kret (Inr ())
      else kbind (kloop (grep_line_round pattern) (buf @ map (rd bs) [0..<nat n], 0)) (\<lambda>(buf, p). kret (Inl (drop p buf))))
    (\<lambda>a tr'. ?Q a ((?c, r, bs) # tr')) (\<lambda>_ _. False) (\<lambda>_ _. True)"
    by (auto intro: uspec_kret)
qed simp

lemma grep_spec:
  "uspec (grep pattern fd)
    (\<lambda>_ tr. \<exists>tr0 buf r bs. tr = tr0 @ [(URead fd (1023 - length buf), r, bs)] \<and> r \<le> 0 \<and> grep_inv pattern fd buf tr0)
    (\<lambda>_ _. False) (\<lambda>_ _. True)"
  unfolding grep_def
  by (rule uspec_kloop [where I = "grep_inv pattern fd" and mu = "\<lambda>_. 0"])
    (auto simp: grep_inv_def [of _ _ "[]" "[]"] lines_of_def hits_def intro!: uspec_mono [OF grep_round_spec] split: sum.splits, blast)

section \<open>Properties\<close>

text \<open>
  C32: The matcher decides the language of the pattern: a pattern that starts with \<open>^\<close> matches exactly the
  texts with a beginning that its items denote, any other pattern the texts with such a piece anywhere,
  where \<open>c*\<close> denotes any number of \<open>c\<close>, \<open>.\<close> any byte and a final \<open>$\<close> the end of the text.
\<close>

theorem match_decides:
  assumes "0 \<notin> set re" "0 \<notin> set t"
  shows "match re t \<longleftrightarrow>
    (if re \<noteq> [] \<and> hd re = of_char CHR ''^'' then \<exists>u v. t = u @ v \<and> (u, v) \<in> denotes (items (tl re))
     else \<exists>p u v. t = p @ u @ v \<and> (u, v) \<in> denotes (items re))"
proof (cases "re \<noteq> [] \<and> hd re = of_char CHR ''^''")
  case True
  then obtain re' where re: "re = of_char CHR ''^'' # re'" by (metis list.collapse)
  then have "0 \<notin> set re'" using assms(1) by simp
  then show ?thesis using matchhere_matches(1) [of re' t] assms(2) unfolding re by (simp add: match_def here_def)
next
  case False
  then have "match re t = match_from re t" by (cases re) (auto simp: match_def)
  then show ?thesis unfolding match_from_suffix [OF assms] using False by (auto simp: here_def)
qed

lemma match_decides_witness: "match (chars ''^ab*.$'') (chars ''abbc'') \<and> \<not> match (chars ''^b'') (chars ''abbc'')"
proof -
  have "([99], []) \<in> denotes [One 46, Last]" "list_all (fits_byte 98) [98, 98]" by (simp_all add: fits_byte_def)
  then have "([98, 98] @ [99], []) \<in> denotes [Many 98, One 46, Last]"
    unfolding denotes.simps(2) [of "Many 98"] item.case by blast
  then have "(chars ''abbc'', []) \<in> denotes (items (chars ''ab*.$''))" by (simp add: chars_def fits_byte_def)
  then have "match (chars ''^ab*.$'') (chars ''abbc'')"
    using match_decides [of "chars ''^ab*.$''" "chars ''abbc''"] by (simp add: chars_def del: denotes.simps) (metis append_Nil2)
  moreover have "\<not> match (chars ''^b'') (chars ''abbc'')"
    using match_decides [of "chars ''^b''" "chars ''abbc''"] by (auto simp: chars_def fits_byte_def)
  ultimately show ?thesis ..
qed

text \<open>
  C33: \<open>grep\<close> returns, or waits in the kernel.  It returns only when a read reports no more data, and every read
  before has delivered some.  If the kernel kept the contract of \<open>read\<close> and sent no NUL byte, it has then
  written to standard output exactly the complete lines of its input that match, in order and each with its newline in a
  single \<open>write\<close>, however the input was cut into reads; and the last read asked for the room that an incomplete last
  line leaves in the 1023 bytes of the buffer.  So an unfinished line of 1023 bytes, for which that room is 0, ends
  \<open>grep\<close> before the end of its input; otherwise it has seen all of it.
\<close>

theorem grep_prints_matching_lines:
  "(\<exists>tr k r bs. let tr' = tr @ [(URead fd k, r, bs)] in
      grep pattern fd s e = (Ret (), after tr' s, e) \<and> fits_tr tr' s \<and> r \<le> 0 \<and> reading tr \<and>
      (honest tr \<and> 0 \<notin> set (received fd tr) \<longrightarrow>
        k = 1023 - length (snd (lines_of (received fd tr))) \<and>
        writes 1 tr' = map (\<lambda>l. l @ [10]) (filter (match pattern) (fst (lines_of (received fd tr)))))) \<or>
   (\<exists>tr c. grep pattern fd s e = (Stuck, (after tr s)\<lparr>ucalls := ucalls s @ calls tr @ [c]\<rparr>, e) \<and> map snd tr = ureplies s)"
proof (rule uat_cases [OF uspecD [OF grep_spec, of pattern fd s e]])
  fix a tr assume r: "grep pattern fd s e = (Ret a, after tr s, e)" "fits_tr tr s"
    "\<exists>tr0 buf r bs. tr = tr0 @ [(URead fd (1023 - length buf), r, bs)] \<and> r \<le> 0 \<and> grep_inv pattern fd buf tr0"
  then obtain tr0 buf r bs where t: "tr = tr0 @ [(URead fd (1023 - length buf), r, bs)]" "r \<le> 0" "grep_inv pattern fd buf tr0" by blast
  show ?thesis using r(1,2) t unfolding Let_def grep_inv_def hits_def
    by (intro disjI1 exI [of _ tr0] exI [of _ "1023 - length buf"] exI [of _ r] exI [of _ bs]) auto
qed auto

definition grep_demo :: ustate where
  "grep_demo = \<lparr>ucalls = [], ureplies = [(9, chars ''foo'' @ [10] @ chars ''bar'' @ [10] @ chars ''o''), (4, []), (0, [])]\<rparr>"

lemmas grep_eval = grep_def kloop_def while_option_unfold grep_round_def read_u_def ecall_def kbind_def kret_def strchr_from_rd
  first_index_def grep_line_round_def match_def match_from.simps matchhere.simps matchstar.simps write_u_def usys_def slice_def chars_def

lemma grep_demo_run:
  "fst (grep (chars ''o'') 0 grep_demo []) = Ret ()"
  "ucalls (fst (snd (grep (chars ''o'') 0 grep_demo []))) = [URead 0 1023, UWrite 1 (chars ''foo'' @ [10]), URead 0 1022]"
  by (simp_all add: grep_demo_def grep_eval upt_rec rd_def)

lemma grep_prints_matching_lines_witness:
  "\<exists>tr r bs. let tr' = tr @ [(URead 0 1022, r, bs)] in grep (chars ''o'') 0 grep_demo [] = (Ret (), after tr' grep_demo, []) \<and>
     received 0 tr = chars ''foo'' @ [10] @ chars ''bar'' @ [10] @ chars ''o'' \<and> writes 1 tr' = [chars ''foo'' @ [10]]"
proof -
  obtain tr k r bs where q: "grep (chars ''o'') 0 grep_demo [] = (Ret (), after (tr @ [(URead 0 k, r, bs)]) grep_demo, [])"
      "fits_tr (tr @ [(URead 0 k, r, bs)]) grep_demo" and
    w: "honest tr \<and> 0 \<notin> set (received 0 tr) \<longrightarrow> k = 1023 - length (snd (lines_of (received 0 tr))) \<and>
        writes 1 (tr @ [(URead 0 k, r, bs)]) = map (\<lambda>l. l @ [10]) (filter (match (chars ''o'')) (fst (lines_of (received 0 tr))))"
    using grep_prints_matching_lines [of 0 "chars ''o''" grep_demo "[]"] grep_demo_run(1) by (auto simp: Let_def)
  have z: "tr @ [(URead 0 k, r, bs)] = zip [URead 0 1023, UWrite 1 (chars ''foo'' @ [10]), URead 0 1022] (ureplies grep_demo)"
    using grep_demo_run(2) trace_eq [OF q(2)] unfolding q(1) by (simp add: grep_demo_def)
  also have "\<dots> = [(URead 0 1023, 9, chars ''foo'' @ [10] @ chars ''bar'' @ [10] @ chars ''o''), (UWrite 1 (chars ''foo'' @ [10]), 4, [])] @ [(URead 0 1022, 0, [])]"
    by (simp add: grep_demo_def)
  finally have t: "tr = [(URead 0 1023, 9, chars ''foo'' @ [10] @ chars ''bar'' @ [10] @ chars ''o''), (UWrite 1 (chars ''foo'' @ [10]), 4, [])]"
      "k = 1022" "r = 0" "bs = []" unfolding append1_eq_conv by simp_all
  show ?thesis using q(1) unfolding t Let_def
    by (intro exI [of _ "[(URead 0 1023, 9, chars ''foo'' @ [10] @ chars ''bar'' @ [10] @ chars ''o''), (UWrite 1 (chars ''foo'' @ [10]), 4, [])]"]
      exI [of _ 0] exI [of _ "[]"]) (simp add: chars_def)
qed

end
