(* ===== verification/Sh.thy ===== *)
theory Sh
  imports UPrintfProps Layout
begin

text \<open>
  The shell, \<open>user/sh.c\<close>.  The command line is a buffer of bytes; the pointers of the code (\<open>*ps\<close>, \<open>q\<close>, \<open>eq\<close>) are
  offsets into it, and reading at its end gives the terminating NUL.  The nodes of a command are values: \<open>malloc\<close>, with the
  \<open>sbrk\<close> calls it makes to get memory and the null pointer it returns when there is none (which the code does not
  check), is left out.  Without it the parser makes no system call but through \<open>panic\<close>, so it is a function that
  returns a command or the message of the panic.
\<close>

section \<open>Commands\<close>

abbreviation (input) MAXARGS :: nat where "MAXARGS \<equiv> 10"

text \<open>Arguments and file names are the pairs of pointers \<open>argv[i], eargv[i]\<close> and \<open>file, efile\<close>.\<close>

datatype cmd =
    EXEC "(nat \<times> nat) list"
  | REDIR cmd "nat \<times> nat" int int
  | PIPE cmd cmd
  | LIST cmd cmd
  | BACK cmd

definition execcmd :: cmd where
  "execcmd = EXEC []"

definition redircmd :: "cmd \<Rightarrow> nat \<times> nat \<Rightarrow> int \<Rightarrow> int \<Rightarrow> cmd" where
  "redircmd subcmd file mode fd = REDIR subcmd file mode fd"

definition pipecmd :: "cmd \<Rightarrow> cmd \<Rightarrow> cmd" where
  "pipecmd left right = PIPE left right"

definition listcmd :: "cmd \<Rightarrow> cmd \<Rightarrow> cmd" where
  "listcmd left right = LIST left right"

definition backcmd :: "cmd \<Rightarrow> cmd" where
  "backcmd subcmd = BACK subcmd"

section \<open>Tokens\<close>

definition whitespace :: "uchar list" where
  "whitespace = [32, 9, 13, 10, 11]"

definition symbols :: "uchar list" where
  "symbols = chars ''<|>&;()''"

function skip_ws :: "uchar list \<Rightarrow> nat \<Rightarrow> nat" where
  "skip_ws s p = (if p < length s \<and> rd s p \<in> set whitespace then skip_ws s (Suc p) else p)"
  by pat_completeness auto
termination by (relation "measure (\<lambda>(s, p). length s - p)") auto

function skip_word :: "uchar list \<Rightarrow> nat \<Rightarrow> nat" where
  "skip_word s p =
     (if p < length s \<and> rd s p \<notin> set whitespace \<and> rd s p \<notin> set symbols then skip_word s (Suc p) else p)"
  by pat_completeness auto
termination by (relation "measure (\<lambda>(s, p). length s - p)") auto

declare skip_ws.simps [simp del] skip_word.simps [simp del]

text \<open>The token, where it starts and ends, and where the next one starts.\<close>

definition gettoken :: "uchar list \<Rightarrow> nat \<Rightarrow> uchar \<times> nat \<times> nat \<times> nat" where
  "gettoken s ps =
     (let q = skip_ws s ps; c = rd s q;
          (ret, eq) =
            (if c = 0 then (c, q)
             else if c \<in> set (chars ''|();&<'') then (c, Suc q)
             else if c = of_char CHR ''>'' then
               (if rd s (Suc q) = of_char CHR ''>'' then (of_char CHR ''+'', Suc (Suc q)) else (c, Suc q))
             else (of_char CHR ''a'', skip_word s q))
      in (ret, q, eq, skip_ws s eq))"

definition peek :: "uchar list \<Rightarrow> nat \<Rightarrow> string \<Rightarrow> bool \<times> nat" where
  "peek s ps toks = (let p = skip_ws s ps in (rd s p \<noteq> 0 \<and> rd s p \<in> set (chars toks), p))"

section \<open>The parser\<close>

datatype 'a parse = Parsed 'a | Bad string | NoFuel

definition pbind :: "'a parse \<Rightarrow> ('a \<Rightarrow> 'b parse) \<Rightarrow> 'b parse" where
  "pbind r f = (case r of Parsed a \<Rightarrow> f a | Bad m \<Rightarrow> Bad m | NoFuel \<Rightarrow> NoFuel)"

abbreviation (input) O_WRONLY_u :: int where "O_WRONLY_u \<equiv> 0x001"
abbreviation (input) O_CREATE_u :: int where "O_CREATE_u \<equiv> 0x200"
abbreviation (input) O_TRUNC_u :: int where "O_TRUNC_u \<equiv> 0x400"

text \<open>
  A redirection is applied to a command that may still be filled in (\<open>parseexec\<close> stores the arguments
  through the pointer \<open>cmd\<close> while \<open>ret\<close> already wraps it), so the loop gives the list of wrappers.
\<close>

type_synonym redir = "(nat \<times> nat) \<times> int \<times> int"

definition redir_of :: "uchar \<Rightarrow> nat \<Rightarrow> nat \<Rightarrow> redir list" where
  "redir_of tok q eq =
     (if tok = of_char CHR ''<'' then [((q, eq), O_RDONLY_u, 0)]
      else if tok = of_char CHR ''>'' then [((q, eq), O_WRONLY_u + O_CREATE_u + O_TRUNC_u, 1)]
      else if tok = of_char CHR ''+'' then [((q, eq), O_WRONLY_u + O_CREATE_u, 1)]
      else [])"

definition wrap :: "cmd \<Rightarrow> redir list \<Rightarrow> cmd" where
  "wrap cmd rs = foldl (\<lambda>c (file, mode, fd). redircmd c file mode fd) cmd rs"

text \<open>Progress of the scanner, for the termination of the loops.\<close>

lemma skip_ws_ge: "p \<le> skip_ws s p"
proof (induction s p rule: skip_ws.induct)
  case (1 s p)
  then show ?case by (subst skip_ws.simps) (auto intro: Suc_leD)
qed

lemma skip_ws_stop: "skip_ws s p < length s \<Longrightarrow> rd s (skip_ws s p) \<notin> set whitespace"
proof (induction s p rule: skip_ws.induct)
  case (1 s p)
  then show ?case by (cases "p < length s \<and> rd s p \<in> set whitespace") (simp_all add: skip_ws.simps [of s p] split: if_splits)
qed

lemma skip_ws_idem [simp]: "skip_ws s (skip_ws s p) = skip_ws s p"
  using skip_ws_stop [of s p] by (subst skip_ws.simps) auto

lemma skip_word_ge: "p \<le> skip_word s p"
proof (induction s p rule: skip_word.induct)
  case (1 s p)
  then show ?case by (subst skip_word.simps) (auto intro: Suc_leD)
qed

lemma rd_nonzero: "rd s p \<noteq> 0 \<Longrightarrow> p < length s"
  by (simp add: rd_def split: if_splits)

lemma gettoken_progress: "gettoken s p = (t, q, eq, p') \<Longrightarrow> t \<noteq> 0 \<Longrightarrow> p \<le> q \<and> q < eq \<and> q < length s \<and> eq \<le> p'"
proof -
  assume g: "gettoken s p = (t, q, eq, p')" "t \<noteq> 0"
  have q: "q = skip_ws s p" using g by (auto simp: gettoken_def Let_def split: prod.splits if_splits)
  have ne: "rd s q \<noteq> 0" using g q by (auto simp: gettoken_def Let_def split: if_splits)
  have "skip_word s q > q" if "rd s q \<noteq> of_char CHR ''>''" "rd s q \<notin> set (chars ''|();&<'')"
  proof -
    have "rd s q \<notin> set whitespace" using skip_ws_stop [of s p] rd_nonzero [OF ne] q by simp
    moreover have "rd s q \<notin> set symbols" using that by (auto simp: symbols_def chars_def)
    ultimately show ?thesis using rd_nonzero [OF ne] skip_word_ge [of "Suc q" s] by (subst skip_word.simps) simp
  qed
  then have "q < eq \<and> p' = skip_ws s eq" using g q ne by (auto simp: gettoken_def Let_def split: if_splits)
  then show ?thesis using q skip_ws_ge rd_nonzero [OF ne] by metis
qed

lemma peek_progress: "peek s p toks = (b, p') \<Longrightarrow> p \<le> p'"
  using skip_ws_ge [of p s] by (auto simp: peek_def Let_def)

lemma peek_gettoken: "peek s p toks = (True, p') \<Longrightarrow> gettoken s p' = (t, q, eq, p'') \<Longrightarrow> t \<noteq> 0"
proof -
  assume k: "peek s p toks = (True, p')" and g: "gettoken s p' = (t, q, eq, p'')"
  show ?thesis using k g by (auto simp: peek_def gettoken_def Let_def split: if_splits)
qed

text \<open>\<open>while (peek(ps, es, "<>"))\<close> of \<open>parseredirs\<close>.\<close>

function parseredirs_loop :: "uchar list \<Rightarrow> nat \<Rightarrow> (redir list \<times> nat) parse" where
  "parseredirs_loop s ps =
     (let (b, ps1) = peek s ps ''<>'' in
      if \<not> b then Parsed ([], ps1)
      else
        (let (tok, _, _, ps2) = gettoken s ps1; (t, q, eq, ps3) = gettoken s ps2 in
         if t \<noteq> of_char CHR ''a'' then Bad ''missing file for redirection''
         else pbind (parseredirs_loop s ps3) (\<lambda>(rs, ps). Parsed (redir_of tok q eq @ rs, ps))))"
  by pat_completeness auto
termination
proof (relation "measure (\<lambda>(s, p). length s - p)")
  fix s ps x b ps1 y tok z q0 w eq0 ps2 y' t z' q w' eq ps3
  assume "x = peek s ps ''<>''" "(b, ps1) = x" "\<not> \<not> b" "y = gettoken s ps1" "(tok, z) = y" "(q0, w) = z" "(eq0, ps2) = w"
    "y' = gettoken s ps2" "(t, z') = y'" "(q, w') = z'" "(eq, ps3) = w'" "\<not> t \<noteq> of_char CHR ''a''"
  then have k: "peek s ps ''<>'' = (True, ps1)" and g: "gettoken s ps1 = (tok, q0, eq0, ps2)" and g': "gettoken s ps2 = (t, q, eq, ps3)" and "t \<noteq> 0"
    by auto
  from gettoken_progress [OF g peek_gettoken [OF k g]] gettoken_progress [OF g' \<open>t \<noteq> 0\<close>] peek_progress [OF k]
  show "((s, ps3), s, ps) \<in> measure (\<lambda>(s, p). length s - p)" by auto
qed simp

declare parseredirs_loop.simps [simp del]

definition parseredirs :: "cmd \<Rightarrow> uchar list \<Rightarrow> nat \<Rightarrow> (cmd \<times> nat) parse" where
  "parseredirs cmd s ps = pbind (parseredirs_loop s ps) (\<lambda>(rs, ps). Parsed (wrap cmd rs, ps))"

text \<open>The loop of \<open>parseexec\<close> over the arguments, with the redirections between them.\<close>

function parseexec_loop :: "uchar list \<Rightarrow> nat \<Rightarrow> (nat \<times> nat) list \<Rightarrow> redir list \<Rightarrow> ((nat \<times> nat) list \<times> redir list \<times> nat) parse" where
  "parseexec_loop s ps argv rs =
     (let (b, ps1) = peek s ps ''|)&;'' in
      if b then Parsed (argv, rs, ps1)
      else
        (let (tok, q, eq, ps2) = gettoken s ps1 in
         if tok = 0 then Parsed (argv, rs, ps2)
         else if tok \<noteq> of_char CHR ''a'' then Bad ''syntax''
         else if Suc (length argv) \<ge> MAXARGS then Bad ''too many args''
         else
           pbind (parseredirs_loop s ps2) (\<lambda>(rs', ps3). parseexec_loop s ps3 (argv @ [(q, eq)]) (rs @ rs'))))"
  by pat_completeness auto
termination by (relation "measure (\<lambda>(s, ps, argv, rs). MAXARGS - length argv)") auto

declare parseexec_loop.simps [simp del]

text \<open>\<open>while (peek(ps, es, "&"))\<close> of \<open>parseline\<close>.\<close>

function back_loop :: "uchar list \<Rightarrow> cmd \<Rightarrow> nat \<Rightarrow> cmd \<times> nat" where
  "back_loop s cmd ps =
     (let (b, ps1) = peek s ps ''&'' in
      if b then (let (_, _, _, ps2) = gettoken s ps1 in back_loop s (backcmd cmd) ps2) else (cmd, ps1))"
  by pat_completeness auto
termination
proof (relation "measure (\<lambda>(s, c, p). length s - p)")
  fix s :: "uchar list" and cmd ps x b ps1 y tok z q w eq ps2
  assume "x = peek s ps ''&''" "(b, ps1) = x" b "y = gettoken s ps1" "(tok, z) = y" "(q, w) = z" "(eq, ps2) = w"
  then have k: "peek s ps ''&'' = (True, ps1)" and g: "gettoken s ps1 = (tok, q, eq, ps2)" by auto
  from gettoken_progress [OF g peek_gettoken [OF k g]] peek_progress [OF k]
  show "((s, backcmd cmd, ps2), s, cmd, ps) \<in> measure (\<lambda>(s, c, p). length s - p)" by auto
qed simp

declare back_loop.simps [simp del]

text \<open>
  The recursive descent.  Every nested call uses one unit of fuel; \<open>parse_fuel\<close> below is enough for every
  line, since each round of the recursion consumes a symbol.
\<close>

fun parseline :: "nat \<Rightarrow> uchar list \<Rightarrow> nat \<Rightarrow> (cmd \<times> nat) parse"
  and parsepipe :: "nat \<Rightarrow> uchar list \<Rightarrow> nat \<Rightarrow> (cmd \<times> nat) parse"
  and parseexec :: "nat \<Rightarrow> uchar list \<Rightarrow> nat \<Rightarrow> (cmd \<times> nat) parse"
  and parseblock :: "nat \<Rightarrow> uchar list \<Rightarrow> nat \<Rightarrow> (cmd \<times> nat) parse" where
  "parseline 0 s ps = NoFuel"
| "parseline (Suc n) s ps =
     pbind (parsepipe n s ps) (\<lambda>(cmd, ps).
     let (cmd, ps) = back_loop s cmd ps; (b, ps) = peek s ps '';'' in
     if b then
       (let (_, _, _, ps) = gettoken s ps in
        pbind (parseline n s ps) (\<lambda>(right, ps). Parsed (listcmd cmd right, ps)))
     else Parsed (cmd, ps))"
| "parsepipe 0 s ps = NoFuel"
| "parsepipe (Suc n) s ps =
     pbind (parseexec n s ps) (\<lambda>(cmd, ps).
     let (b, ps) = peek s ps ''|'' in
     if b then
       (let (_, _, _, ps) = gettoken s ps in
        pbind (parsepipe n s ps) (\<lambda>(right, ps). Parsed (pipecmd cmd right, ps)))
     else Parsed (cmd, ps))"
| "parseexec 0 s ps = NoFuel"
| "parseexec (Suc n) s ps =
     (let (b, ps) = peek s ps ''('' in
      if b then parseblock n s ps
      else
        pbind (parseredirs_loop s ps) (\<lambda>(rs, ps).
        pbind (parseexec_loop s ps [] rs) (\<lambda>(argv, rs, ps).
        Parsed (wrap (EXEC argv) rs, ps))))"
| "parseblock 0 s ps = NoFuel"
| "parseblock (Suc n) s ps =
     (let (b, ps) = peek s ps ''('' in
      if \<not> b then Bad ''parseblock''
      else
        (let (_, _, _, ps) = gettoken s ps in
         pbind (parseline n s ps) (\<lambda>(cmd, ps).
         let (b, ps) = peek s ps '')'' in
         if \<not> b then Bad ''syntax - missing )''
         else (let (_, _, _, ps) = gettoken s ps in parseredirs cmd s ps))))"

primrec nulterminate :: "cmd \<Rightarrow> uchar list \<Rightarrow> uchar list" where
  "nulterminate (EXEC argv) s = fold (\<lambda>(_, eq) s. s[eq := 0]) argv s"
| "nulterminate (REDIR c file mode fd) s = (nulterminate c s)[snd file := 0]"
| "nulterminate (PIPE l r) s = nulterminate r (nulterminate l s)"
| "nulterminate (LIST l r) s = nulterminate r (nulterminate l s)"
| "nulterminate (BACK c) s = nulterminate c s"

definition panic_u :: "string \<Rightarrow> ('r, 'a ustate_scheme) K" where
  "panic_u msg = kbind (fprintf_u 2 (''%s'' @ [CHR 0x0A]) [ArgStr (Some (chars msg))]) (\<lambda>_. exit_u 1)"

definition parse_fuel :: "uchar list \<Rightarrow> nat" where
  "parse_fuel s = 4 * length s + 4"

text \<open>The string ends at its NUL (\<open>es\<close>); the result is the command and the buffer with its NULs.\<close>

definition parsecmd :: "uchar list \<Rightarrow> (cmd \<times> uchar list, 'a ustate_scheme) K" where
  "parsecmd buf =
     (let s = takeWhile (\<lambda>c. c \<noteq> 0) buf in
      case parseline (parse_fuel s) s 0 of
        NoFuel \<Rightarrow> kstuck
      | Bad m \<Rightarrow> panic_u m
      | Parsed (cmd, ps) \<Rightarrow>
          (let (_, ps) = peek s ps [] in
           if ps \<noteq> length s then
             kbind (fprintf_u 2 (''leftovers: %s'' @ [CHR 0x0A]) [ArgStr (Some (drop ps s))]) (\<lambda>_. panic_u ''syntax'')
           else kret (cmd, nulterminate cmd s)))"

section \<open>Running commands\<close>

text \<open>The C string at an offset of the buffer.\<close>

definition str_at :: "uchar list \<Rightarrow> nat \<Rightarrow> cstring" where
  "str_at b p = takeWhile (\<lambda>c. c \<noteq> 0) (drop p b)"

definition fork1 :: "(int, 'a ustate_scheme) K" where
  "fork1 = kbind (usys UFork) (\<lambda>pid. if pid = - 1 then panic_u ''fork'' else kret pid)"

text \<open>
  \<open>exec\<close> returns only when it fails.  \<open>pipe\<close> stores the two descriptors in the array \<open>p\<close>.  \<open>runcmd\<close> does not
  return: every path ends in \<open>exit\<close>.
\<close>

primrec runcmd :: "cmd \<Rightarrow> uchar list \<Rightarrow> (unit, 'a ustate_scheme) K" where
  "runcmd (EXEC argv) b =
     (if argv = [] then exit_u 1
      else
        kbind (usys (UExec (str_at b (fst (hd argv))) (map (\<lambda>(q, _). str_at b q) argv))) (\<lambda>_.
        kbind (fprintf_u 2 (''exec %s failed'' @ [CHR 0x0A]) [ArgStr (Some (str_at b (fst (hd argv))))]) (\<lambda>_.
        exit_u 0)))"
| "runcmd (REDIR c file mode fd) b =
     kbind (usys (UClose fd)) (\<lambda>_.
     kbind (usys (UOpen (str_at b (fst file)) mode)) (\<lambda>r.
     if r < 0 then
       kbind (fprintf_u 2 (''open %s failed'' @ [CHR 0x0A]) [ArgStr (Some (str_at b (fst file)))]) (\<lambda>_. exit_u 1)
     else kbind (runcmd c b) (\<lambda>_. exit_u 0)))"
| "runcmd (PIPE left right) b =
     kbind (ecall UPipe) (\<lambda>(r, bs).
     if r < 0 then panic_u ''pipe''
     else
       (let p0 = sint (get32 bs 0); p1 = sint (get32 bs 4) in
        kbind fork1 (\<lambda>pid.
        kbind (if pid = 0 then
                 kbind (usys (UClose 1)) (\<lambda>_. kbind (usys (UDup p1)) (\<lambda>_.
                 kbind (usys (UClose p0)) (\<lambda>_. kbind (usys (UClose p1)) (\<lambda>_. runcmd left b))))
               else kret ()) (\<lambda>_.
        kbind fork1 (\<lambda>pid.
        kbind (if pid = 0 then
                 kbind (usys (UClose 0)) (\<lambda>_. kbind (usys (UDup p0)) (\<lambda>_.
                 kbind (usys (UClose p0)) (\<lambda>_. kbind (usys (UClose p1)) (\<lambda>_. runcmd right b))))
               else kret ()) (\<lambda>_.
        kbind (usys (UClose p0)) (\<lambda>_.
        kbind (usys (UClose p1)) (\<lambda>_.
        kbind (usys (UWait False)) (\<lambda>_.
        kbind (usys (UWait False)) (\<lambda>_.
        exit_u 0))))))))))"
| "runcmd (LIST left right) b =
     kbind fork1 (\<lambda>pid.
     kbind (if pid = 0 then runcmd left b else kret ()) (\<lambda>_.
     kbind (usys (UWait False)) (\<lambda>_.
     kbind (runcmd right b) (\<lambda>_. exit_u 0))))"
| "runcmd (BACK c) b =
     kbind fork1 (\<lambda>pid.
     kbind (if pid = 0 then runcmd c b else kret ()) (\<lambda>_. exit_u 0))"

section \<open>The command loop\<close>

definition getcmd :: "int \<Rightarrow> (int \<times> uchar list, 'a ustate_scheme) K" where
  "getcmd nbuf =
     kbind (write_u 2 (chars ''$ '')) (\<lambda>_.
     kbind (gets_u nbuf) (\<lambda>buf.
     kret (if rd buf 0 = 0 then - 1 else 0, buf)))"

function skip_blank :: "uchar list \<Rightarrow> nat \<Rightarrow> nat" where
  "skip_blank buf p = (if rd buf p = 32 \<or> rd buf p = 9 then skip_blank buf (Suc p) else p)"
  by pat_completeness auto
termination by (relation "measure (\<lambda>(buf, p). length buf - p)") (auto simp: rd_def split: if_splits)

declare skip_blank.simps [simp del]

definition sh_open_round :: "unit \<Rightarrow> (unit + unit, 'a ustate_scheme) K" where
  "sh_open_round = (\<lambda>_.
     kbind (usys (UOpen (chars ''console'') 2)) (\<lambda>fd.
     if fd \<ge> 0 then
       (if fd \<ge> 3 then kbind (usys (UClose fd)) (\<lambda>_. kret (Inr ())) else kret (Inl ()))
     else kret (Inr ())))"

definition sh_round :: "unit \<Rightarrow> (unit + unit, 'a ustate_scheme) K" where
  "sh_round = (\<lambda>_.
     kbind (getcmd 100) (\<lambda>(r, buf).
     if \<not> r \<ge> 0 then kret (Inr ())
     else
       (let cmd = skip_blank buf 0 in
        if rd buf cmd = 10 then kret (Inl ())
        else if rd buf cmd = of_char CHR ''c'' \<and> rd buf (cmd + 1) = of_char CHR ''d'' \<and> rd buf (cmd + 2) = 32 then
          (let buf = buf[cmd + (length (str_at buf cmd) - 1) := 0]; path = str_at buf (cmd + 3) in
           kbind (usys (UChdir path)) (\<lambda>r.
           kbind (kwhen (r < 0) (fprintf_u 2 (''cannot cd %s'' @ [CHR 0x0A]) [ArgStr (Some path)])) (\<lambda>_.
           kret (Inl ()))))
        else
          kbind fork1 (\<lambda>pid.
          kbind (if pid = 0 then kbind (parsecmd (drop cmd buf)) (\<lambda>(c, b). runcmd c b) else kret ()) (\<lambda>_.
          kbind (usys (UWait False)) (\<lambda>_.
          kret (Inl ())))))))"

definition sh_main :: "(int, 'a ustate_scheme) K" where
  "sh_main =
     kbind (kloop sh_open_round ()) (\<lambda>_.
     kbind (kloop sh_round ()) (\<lambda>_.
     exit_u 0))"

end
