(* ===== verification/ShLex.thy ===== *)
theory ShLex
  imports Sh
begin

text \<open>
  The scanner of the shell against a description of its tokens that does not mention offsets: words and symbols,
  separated by white space.
\<close>

section \<open>Tokens\<close>

definition wsb :: "uchar \<Rightarrow> bool" where
  "wsb c \<longleftrightarrow> c \<in> set whitespace"

definition symb :: "uchar \<Rightarrow> bool" where
  "symb c \<longleftrightarrow> c \<in> set symbols"

definition wordb :: "uchar \<Rightarrow> bool" where
  "wordb c \<longleftrightarrow> c \<noteq> 0 \<and> \<not> wsb c \<and> \<not> symb c"

datatype tok = Sym uchar | Word cstring

abbreviation (input) GT :: uchar where "GT \<equiv> 62"
abbreviation (input) APPEND :: uchar where "APPEND \<equiv> 43"

function tokens :: "uchar list \<Rightarrow> tok list" where
  "tokens s = (case dropWhile wsb s of
       [] \<Rightarrow> []
     | c # r \<Rightarrow>
         if c = GT then (if r \<noteq> [] \<and> hd r = GT then Sym APPEND # tokens (tl r) else Sym GT # tokens r)
         else if symb c then Sym c # tokens r
         else Word (c # takeWhile wordb r) # tokens (dropWhile wordb r))"
  by pat_completeness auto
termination
proof (relation "measure length")
  fix s c r
  assume d: "dropWhile wsb s = c # r"
  have "length (c # r) \<le> length s" unfolding d [symmetric] by (rule length_dropWhile_le)
  then have l: "length r < length s" by simp
  then show "(r, s) \<in> measure length" "(r, s) \<in> measure length" by simp_all
  show "(tl r, s) \<in> measure length" using l by simp
  show "(dropWhile wordb r, s) \<in> measure length" using le_less_trans [OF length_dropWhile_le l] by simp
qed simp

declare tokens.simps [simp del]

text \<open>Offsets into the line: what is left of it.\<close>

lemma rd_drop: "rd s p = (case drop p s of [] \<Rightarrow> 0 | c # _ \<Rightarrow> c)"
  by (auto simp: rd_def drop_eq_Nil Cons_nth_drop_Suc [symmetric] split: list.splits)

lemma skip_ws_drop: "p \<le> length s \<Longrightarrow> drop (skip_ws s p) s = dropWhile wsb (drop p s) \<and> skip_ws s p \<le> length s"
proof (induction s p rule: skip_ws.induct)
  case (1 s p)
  show ?case
  proof (cases "p < length s")
    case True
    then have d: "drop p s = rd s p # drop (Suc p) s" by (simp add: rd_def Cons_nth_drop_Suc)
    then show ?thesis using 1 True by (subst (1 2) skip_ws.simps) (auto simp: wsb_def [symmetric])
  next
    case False
    then show ?thesis using 1 by (subst (1 2) skip_ws.simps) auto
  qed
qed

lemma skip_word_drop: "p \<le> length s \<Longrightarrow> 0 \<notin> set s \<Longrightarrow>
  drop (skip_word s p) s = dropWhile wordb (drop p s) \<and> slice s p (skip_word s p - p) = takeWhile wordb (drop p s) \<and> p \<le> skip_word s p \<and> skip_word s p \<le> length s"
proof (induction s p rule: skip_word.induct)
  case (1 s p)
  show ?case
  proof (cases "p < length s")
    case True
    then have d: "drop p s = rd s p # drop (Suc p) s" by (simp add: rd_def Cons_nth_drop_Suc)
    have "rd s p \<noteq> 0" using True 1(3) by (metis rd_def nth_mem)
    then have w: "wordb (rd s p) \<longleftrightarrow> rd s p \<notin> set whitespace \<and> rd s p \<notin> set symbols" by (simp add: wordb_def wsb_def symb_def)
    show ?thesis
    proof (cases "wordb (rd s p)")
      case True
      note ih = 1(1) [OF _ _ 1(3)]
      have e: "skip_word s p = skip_word s (Suc p)" using True w \<open>p < length s\<close> by (subst skip_word.simps) simp
      have "Suc p \<le> skip_word s (Suc p)" by (rule skip_word_ge)
      then have "skip_word s (Suc p) - p = Suc (skip_word s (Suc p) - Suc p)" by simp
      then show ?thesis using ih True w \<open>p < length s\<close> unfolding e by (auto simp: d slice_def)
    next
      case False
      then show ?thesis using w \<open>p < length s\<close> d by (subst (1 2 3 4) skip_word.simps) (auto simp: slice_def)
    qed
  next
    case False
    then show ?thesis using 1 by (subst (1 2 3 4) skip_word.simps) (auto simp: slice_def)
  qed
qed

lemma tokens_ws [simp]: "tokens (dropWhile wsb s) = tokens s"
  by (subst (1 2) tokens.simps) simp

lemma symb_alt: "symb c \<longleftrightarrow> c = GT \<or> c \<in> set (chars ''|();&<'')"
  by (auto simp: symb_def symbols_def chars_def)

lemma symb_no_letter: "symb c \<Longrightarrow> c \<noteq> 97 \<and> c \<noteq> 0"
  by (auto simp: symb_def symbols_def chars_def)

definition token_ok :: "uchar list \<Rightarrow> nat \<times> nat \<Rightarrow> bool" where
  "token_ok s = (\<lambda>(q, eq). q < eq \<and> eq \<le> length s \<and> list_all wordb (slice s q (eq - q)) \<and> \<not> wordb (rd s eq))"

text \<open>What the scanner sees at an offset: the first token of the rest of the line.\<close>

definition sees :: "uchar list \<Rightarrow> nat \<Rightarrow> tok list \<Rightarrow> bool" where
  "sees s p ts \<longleftrightarrow> p \<le> length s \<and> tokens (drop p s) = ts"

lemma sees_skip: "p \<le> length s \<Longrightarrow> sees s (skip_ws s p) (tokens (drop p s))"
  using skip_ws_drop [of p s] by (simp add: sees_def)

lemma gettoken_tokens:
  assumes z: "0 \<notin> set s" and see: "sees s p ts" and g: "gettoken s p = (t, q, eq, p')"
  shows "case ts of
      [] \<Rightarrow> t = 0 \<and> sees s p' [] \<and> p' = length s
    | Sym c # us \<Rightarrow> t = c \<and> c \<noteq> 97 \<and> c \<noteq> 0 \<and> sees s p' us
    | Word w # us \<Rightarrow> t = 97 \<and> token_ok s (q, eq) \<and> slice s q (eq - q) = w \<and> sees s p' us"
proof -
  have p: "p \<le> length s" and ts: "ts = tokens (drop p s)" using see by (auto simp: sees_def)
  have q: "q = skip_ws s p" and p': "p' = skip_ws s eq" using g by (auto simp: gettoken_def Let_def split: if_splits)
  have d: "drop q s = dropWhile wsb (drop p s)" "q \<le> length s" using skip_ws_drop [OF p] q by auto
  have tk: "ts = tokens (drop q s)" using d ts by simp
  show ?thesis
  proof (cases "drop q s")
    case Nil
    then have "rd s q = 0" "q = length s" using d(2) by (simp_all add: rd_def)
    then have "t = 0" "eq = q" using g q by (auto simp: gettoken_def Let_def)
    moreover have "skip_ws s q = length s" using \<open>q = length s\<close> by (subst skip_ws.simps) simp
    moreover have "ts = []" using tk Nil by (simp add: tokens.simps)
    ultimately show ?thesis using p' by (simp add: sees_def tokens.simps)
  next
    case (Cons c r)
    have c: "rd s q = c" "drop (Suc q) s = r" using Cons by (simp_all add: rd_drop drop_Suc tl_drop [symmetric])
    have ql: "q < length s" using Cons by (metis drop_all leI list.distinct(1))
    have cs: "c \<in> set s" using Cons by (metis in_set_dropD list.set_intros(1))
    then have c0: "c \<noteq> 0" using z by auto
    have "dropWhile wsb (drop p s) = c # r" using d Cons by simp
    then have nw: "\<not> wsb c" by (metis hd_dropWhile list.distinct(1) list.sel(1))
    have dw: "dropWhile wsb (drop q s) = c # r" using Cons nw by simp
    have after: "sees s p' (tokens (drop eq s))" if "eq \<le> length s" using sees_skip [OF that] p' by simp
    have tu: "ts = (if c = GT then (if r \<noteq> [] \<and> hd r = GT then Sym APPEND # tokens (tl r) else Sym GT # tokens r)
        else if symb c then Sym c # tokens r else Word (c # takeWhile wordb r) # tokens (dropWhile wordb r))"
      unfolding tk by (subst tokens.simps) (simp add: dw)
    consider "c = GT" "r \<noteq> [] \<and> hd r = GT" | "c = GT" "\<not> (r \<noteq> [] \<and> hd r = GT)" | "c \<noteq> GT" "symb c" | "\<not> symb c" by blast
    then show ?thesis
    proof cases
      case 1
      then have r1: "rd s (Suc q) = GT" "drop (Suc (Suc q)) s = tl r" "Suc q < length s"
        using c(2) by (cases r; simp add: rd_drop drop_Suc tl_drop [symmetric]; metis drop_all leI list.distinct(1))+
      then have "t = APPEND" "eq = Suc (Suc q)" using 1 g q c by (auto simp: gettoken_def Let_def chars_def)
      then show ?thesis using tu 1 after r1 by simp
    next
      case 2
      then have "rd s (Suc q) \<noteq> GT" using c(2) by (cases r) (auto simp: rd_drop)
      then have "t = GT" "eq = Suc q" using 2 g q c by (auto simp: gettoken_def Let_def chars_def)
      then show ?thesis using tu 2 after c ql by simp
    next
      case 3
      then have "c \<in> set (chars ''|();&<'')" by (simp add: symb_alt)
      then have "t = c" "eq = Suc q" using 3 g q c c0 by (auto simp: gettoken_def Let_def)
      then show ?thesis using tu 3 after c ql symb_no_letter [OF 3(2)] by simp
    next
      case 4
      then have n: "c \<noteq> GT" "c \<notin> set (chars ''|();&<'')" by (auto simp: symb_alt)
      then have e: "t = 97" "eq = skip_word s q" using g q c c0 by (auto simp: gettoken_def Let_def)
      have w: "wordb c" using 4 nw c0 by (simp add: wordb_def)
      note k = skip_word_drop [OF less_imp_le [OF ql] z]
      have sl: "slice s q (eq - q) = c # takeWhile wordb r" using k Cons w e by simp
      have dr: "drop eq s = dropWhile wordb r" using k Cons w e by simp
      have "\<not> wordb (rd s eq)"
      proof (cases "drop eq s")
        case Nil
        then show ?thesis by (simp add: rd_drop wordb_def)
      next
        case (Cons x y)
        then show ?thesis using dr by (simp add: rd_drop) (metis hd_dropWhile list.distinct(1) list.sel(1))
      qed
      moreover have "q < eq" "eq \<le> length s" using sl k e by (auto simp: slice_def intro!: le_neq_implies_less)
      moreover have "list_all wordb (c # takeWhile wordb r)" using w by (auto simp: list_all_iff dest: set_takeWhileD)
      ultimately have "token_ok s (q, eq)" using sl by (simp add: token_ok_def)
      then show ?thesis using tu n 4 e sl after dr \<open>eq \<le> length s\<close> by simp
    qed
  qed
qed

lemma peek_tokens:
  assumes z: "0 \<notin> set s" and see: "sees s p ts" and k: "peek s p toks = (b, p')" and sy: "list_all symb (chars toks)"
  shows "sees s p' ts" "b \<longleftrightarrow> (case ts of Sym c # _ \<Rightarrow> (if c = APPEND then GT else c) \<in> set (chars toks) | _ \<Rightarrow> False)"
proof -
  have p: "p \<le> length s" and ts: "ts = tokens (drop p s)" using see by (auto simp: sees_def)
  have p': "p' = skip_ws s p" and b: "b \<longleftrightarrow> rd s p' \<noteq> 0 \<and> rd s p' \<in> set (chars toks)" using k by (auto simp: peek_def Let_def)
  show "sees s p' ts" using sees_skip [OF p] ts p' by simp
  have d: "drop p' s = dropWhile wsb (drop p s)" using skip_ws_drop [OF p] p' by simp
  show "b \<longleftrightarrow> (case ts of Sym c # _ \<Rightarrow> (if c = APPEND then GT else c) \<in> set (chars toks) | _ \<Rightarrow> False)"
  proof (cases "drop p' s")
    case Nil
    then have "rd s p' = 0" by (simp add: rd_drop)
    moreover have "ts = []" unfolding ts by (subst tokens.simps) (simp only: d [symmetric] Nil list.case)
    ultimately show ?thesis using b by simp
  next
    case (Cons c r)
    have "c \<in> set s" using Cons by (metis in_set_dropD list.set_intros(1))
    then have c0: "c \<noteq> 0" using z by auto
    have "dropWhile wsb (drop p s) = c # r" using d Cons by simp
    then have tu: "ts = (if c = GT then (if r \<noteq> [] \<and> hd r = GT then Sym APPEND # tokens (tl r) else Sym GT # tokens r)
        else if symb c then Sym c # tokens r else Word (c # takeWhile wordb r) # tokens (dropWhile wordb r))"
      unfolding ts by (subst tokens.simps) simp
    have "symb APPEND = False" by (simp add: symb_def symbols_def chars_def)
    then show ?thesis using b tu c0 Cons sy by (auto simp: rd_drop list_all_iff)
  qed
qed

end
