(* ===== verification/ShParse.thy ===== *)
theory ShParse
  imports ShLex
begin

text \<open>
  The parser on every line: it ends within its fuel, and what it returns is a well-formed command whose strings,
  after \<open>nulterminate\<close>, are exactly the words of the line.
\<close>

section \<open>Well-formed commands\<close>

definition redir_ok :: "uchar list \<Rightarrow> redir \<Rightarrow> bool" where
  "redir_ok s = (\<lambda>(file, mode, fd). token_ok s file \<and> (mode, fd) \<in> {(0, 0), (0x601, 1), (0x201, 1)})"

primrec good_cmd :: "uchar list \<Rightarrow> cmd \<Rightarrow> bool" where
  "good_cmd s (EXEC argv) \<longleftrightarrow> length argv < MAXARGS \<and> list_all (token_ok s) argv"
| "good_cmd s (REDIR c file mode fd) \<longleftrightarrow> good_cmd s c \<and> redir_ok s (file, mode, fd)"
| "good_cmd s (PIPE l r) \<longleftrightarrow> good_cmd s l \<and> good_cmd s r"
| "good_cmd s (LIST l r) \<longleftrightarrow> good_cmd s l \<and> good_cmd s r"
| "good_cmd s (BACK c) \<longleftrightarrow> good_cmd s c"

lemma good_wrap: "good_cmd s c \<Longrightarrow> list_all (redir_ok s) rs \<Longrightarrow> good_cmd s (wrap c rs)"
  by (induction rs arbitrary: c) (auto simp: wrap_def redircmd_def)

section \<open>Parser results\<close>

definition pok :: "('a \<Rightarrow> bool) \<Rightarrow> 'a parse \<Rightarrow> bool" where
  "pok P r \<longleftrightarrow> (case r of Parsed a \<Rightarrow> P a | Bad m \<Rightarrow> True | NoFuel \<Rightarrow> False)"

lemma pok_simps [simp]: "pok P (Parsed a) = P a" "pok P (Bad m)" "\<not> pok P NoFuel"
  by (simp_all add: pok_def)

lemma pbind_simps [simp]: "pbind (Parsed a) f = f a" "pbind (Bad m) f = Bad m" "pbind NoFuel f = NoFuel"
  by (simp_all add: pbind_def)

lemma pok_pbind: "pok P r \<Longrightarrow> (\<And>a. P a \<Longrightarrow> pok Q (f a)) \<Longrightarrow> pok Q (pbind r f)"
  by (cases r) auto

lemma pok_mono: "pok P r \<Longrightarrow> (\<And>a. P a \<Longrightarrow> Q a) \<Longrightarrow> pok Q r"
  by (cases r) auto

text \<open>At most \<open>k\<close> tokens are left at offset \<open>p\<close>.\<close>

definition left :: "uchar list \<Rightarrow> nat \<Rightarrow> nat \<Rightarrow> bool" where
  "left s k p \<longleftrightarrow> (\<exists>ts. sees s p ts \<and> length ts \<le> k)"

lemma left_mono: "left s k p \<Longrightarrow> k \<le> k' \<Longrightarrow> left s k' p"
  by (auto simp: left_def)

lemma peek_left:
  assumes "0 \<notin> set s" "left s k p" "list_all symb (chars toks)"
  obtains b p' where "peek s p toks = (b, p')" "left s k p'" "b \<longrightarrow> 0 < k \<and> (\<forall>t q eq p''. gettoken s p' = (t, q, eq, p'') \<longrightarrow> left s (k - 1) p'')"
proof -
  obtain ts where ts: "sees s p ts" "length ts \<le> k" using assms(2) by (auto simp: left_def)
  obtain b p' where pk: "peek s p toks = (b, p')" by fastforce
  note q = peek_tokens [OF assms(1) ts(1) pk assms(3)]
  have "0 < k \<and> left s (k - 1) p''" if b: b and g: "gettoken s p' = (t, q, eq, p'')" for t q eq p''
  proof -
    obtain c us where u: "ts = Sym c # us" using q(2) b by (auto split: list.splits tok.splits)
    then have "sees s p'' us" using gettoken_tokens [OF assms(1) q(1) g] by simp
    then show ?thesis using u ts(2) by (auto simp: left_def)
  qed
  then show thesis using that pk q(1) ts(2) by (metis left_def prod_cases4)
qed

lemma gettoken_left:
  assumes "0 \<notin> set s" "left s k p"
  obtains t q eq p' where "gettoken s p = (t, q, eq, p')" "left s k p'" "t = 97 \<longrightarrow> token_ok s (q, eq)" "t \<noteq> 0 \<longrightarrow> 0 < k \<and> left s (k - 1) p'"
proof -
  obtain ts where ts: "sees s p ts" "length ts \<le> k" using assms(2) by (auto simp: left_def)
  obtain t q eq p' where g: "gettoken s p = (t, q, eq, p')" by (metis prod_cases4)
  have "left s k p' \<and> (t = 97 \<longrightarrow> token_ok s (q, eq)) \<and> (t \<noteq> 0 \<longrightarrow> 0 < k \<and> left s (k - 1) p')"
    using gettoken_tokens [OF assms(1) ts(1) g] ts(2)
    by (cases ts; cases "hd ts") (auto simp: left_def intro: Suc_leD)
  then show thesis using that [OF g] by blast
qed

lemma symb_toks [simp]: "list_all symb (chars ''<>'')" "list_all symb (chars ''|)&;'')" "list_all symb (chars ''&'')"
    "list_all symb (chars '';'')" "list_all symb (chars ''|'')" "list_all symb (chars ''('')" "list_all symb (chars '')'')" "list_all symb (chars [])"
  by (simp_all add: symb_def symbols_def chars_def)

section \<open>The loops\<close>

lemma redir_of_ok: "token_ok s (q, eq) \<Longrightarrow> list_all (redir_ok s) (redir_of tok q eq)"
  by (simp add: redir_of_def redir_ok_def)

lemma parseredirs_loop_ok:
  assumes "0 \<notin> set s"
  shows "left s k p \<Longrightarrow> pok (\<lambda>(rs, p'). list_all (redir_ok s) rs \<and> left s k p') (parseredirs_loop s p)"
  using assms
proof (induction s p rule: parseredirs_loop.induct)
  case (1 s p)
  obtain b p1 where pk: "peek s p ''<>'' = (b, p1)" "left s k p1" "b \<longrightarrow> 0 < k \<and> (\<forall>t q eq p''. gettoken s p1 = (t, q, eq, p'') \<longrightarrow> left s (k - 1) p'')"
    by (rule peek_left [OF "1.prems"(2,1) symb_toks(1)])
  show ?case
  proof (cases b)
    case False
    then show ?thesis using pk by (subst parseredirs_loop.simps) simp
  next
    case True
    obtain tok q0 e0 p2 where g: "gettoken s p1 = (tok, q0, e0, p2)" by (metis prod_cases4)
    have l2: "left s k p2" using pk(3) True g left_mono by fastforce
    obtain t q eq p3 where g2: "gettoken s p2 = (t, q, eq, p3)" "left s k p3" "t = 97 \<longrightarrow> token_ok s (q, eq)"
        "t \<noteq> 0 \<longrightarrow> 0 < k \<and> left s (k - 1) p3"
      by (rule gettoken_left [OF "1.prems"(2) l2])
    have "pok (\<lambda>(rs, p'). list_all (redir_ok s) rs \<and> left s k p') (parseredirs_loop s p3)" if "t = 97"
      using "1.IH" [of "(b, p1)" b p1 "(tok, q0, e0, p2)" tok "(q0, e0, p2)" q0 "(e0, p2)" e0 p2 "(t, q, eq, p3)" t "(q, eq, p3)" q "(eq, p3)" eq p3]
        pk True g g2 that "1.prems" by simp
    then show ?thesis using pk True g g2 redir_of_ok [of s q eq tok]
      by (subst parseredirs_loop.simps) (auto intro!: pok_pbind [where P = "\<lambda>(rs, p'). list_all (redir_ok s) rs \<and> left s k p'"])
  qed
qed

lemma parseexec_loop_ok:
  assumes "0 \<notin> set s"
  shows "left s k p \<Longrightarrow> length argv < MAXARGS \<Longrightarrow> list_all (token_ok s) argv \<Longrightarrow> list_all (redir_ok s) rs \<Longrightarrow>
    pok (\<lambda>(argv, rs, p'). length argv < MAXARGS \<and> list_all (token_ok s) argv \<and> list_all (redir_ok s) rs \<and> left s k p') (parseexec_loop s p argv rs)"
  using assms
proof (induction s p argv rs rule: parseexec_loop.induct)
  case (1 s p argv rs)
  note z = "1.prems"(5)
  let ?P = "\<lambda>(argv, rs, p'). length argv < MAXARGS \<and> list_all (token_ok s) argv \<and> list_all (redir_ok s) rs \<and> left s k p'"
  obtain b p1 where pk: "peek s p ''|)&;'' = (b, p1)" "left s k p1"
      "b \<longrightarrow> 0 < k \<and> (\<forall>t q eq p''. gettoken s p1 = (t, q, eq, p'') \<longrightarrow> left s (k - 1) p'')"
    by (rule peek_left [OF z "1.prems"(1) symb_toks(2)])
  obtain t q eq p2 where g: "gettoken s p1 = (t, q, eq, p2)" "left s k p2" "t = 97 \<longrightarrow> token_ok s (q, eq)"
      "t \<noteq> 0 \<longrightarrow> 0 < k \<and> left s (k - 1) p2"
    by (rule gettoken_left [OF z pk(2)])
  have "pok ?P (pbind (parseredirs_loop s p2) (\<lambda>(rs', p3). parseexec_loop s p3 (argv @ [(q, eq)]) (rs @ rs')))"
    if c: "\<not> b" "t = 97" "Suc (length argv) < MAXARGS"
  proof (rule pok_pbind [OF parseredirs_loop_ok [OF z g(2)]])
    fix a :: "redir list \<times> nat"
    obtain rs' p3 where a: "a = (rs', p3)" by (cases a)
    assume "case a of (rs, p') \<Rightarrow> list_all (redir_ok s) rs \<and> left s k p'"
    then show "pok ?P (case a of (rs', p3) \<Rightarrow> parseexec_loop s p3 (argv @ [(q, eq)]) (rs @ rs'))"
      using "1.IH" [of "(b, p1)" b p1 "(t, q, eq, p2)" t "(q, eq, p2)" q "(eq, p2)" eq p2 p3 rs'] a c pk g "1.prems" by simp
  qed
  then show ?case using pk g "1.prems" by (subst parseexec_loop.simps) (auto simp: not_le)
qed

lemma back_loop_ok:
  assumes "0 \<notin> set s"
  shows "left s k p \<Longrightarrow> good_cmd s c \<Longrightarrow> back_loop s c p = (c', p') \<Longrightarrow> good_cmd s c' \<and> left s k p'"
  using assms
proof (induction s c p rule: back_loop.induct)
  case (1 s c p)
  obtain b p1 where pk: "peek s p ''&'' = (b, p1)" "left s k p1" "b \<longrightarrow> 0 < k \<and> (\<forall>t q eq p''. gettoken s p1 = (t, q, eq, p'') \<longrightarrow> left s (k - 1) p'')"
    by (rule peek_left [OF "1.prems"(4,1) symb_toks(3)])
  obtain t q e p2 where g: "gettoken s p1 = (t, q, e, p2)" by (metis prod_cases4)
  show ?case
  proof (cases b)
    case True
    have "left s k p2" using pk(3) True g left_mono by fastforce
    moreover have "back_loop s (backcmd c) p2 = (c', p')" using "1.prems"(3) pk g True by (subst (asm) back_loop.simps) simp
    ultimately show ?thesis
      using "1.IH" [of "(b, p1)" b p1 "(t, q, e, p2)" t "(q, e, p2)" q "(e, p2)" e p2] pk g True "1.prems" by (simp add: backcmd_def)
  next
    case False
    then show ?thesis using "1.prems" pk by (subst (asm) back_loop.simps) auto
  qed
qed

lemma parseredirs_ok:
  assumes "0 \<notin> set s" "left s k p" "good_cmd s c"
  shows "pok (\<lambda>(c, p'). good_cmd s c \<and> left s k p') (parseredirs c s p)"
  unfolding parseredirs_def using good_wrap [OF assms(3)] by (auto intro!: pok_pbind [OF parseredirs_loop_ok [OF assms(1,2)]])

section \<open>The recursive descent\<close>

abbreviation (input) cmd_left :: "uchar list \<Rightarrow> nat \<Rightarrow> cmd \<times> nat \<Rightarrow> bool" where
  "cmd_left s k \<equiv> \<lambda>(c, p). good_cmd s c \<and> left s k p"

lemma cmd_left_mono: "pok (cmd_left s k) r \<Longrightarrow> k \<le> k' \<Longrightarrow> pok (cmd_left s k') r"
  by (erule pok_mono) (auto intro: left_mono)

lemma parseblock_step:
  assumes "0 \<notin> set s" "left s k p" and line: "\<And>j p. left s j p \<Longrightarrow> j < k \<Longrightarrow> pok (cmd_left s j) (parseline n s p)"
  shows "pok (cmd_left s k) (parseblock (Suc n) s p)"
proof -
  obtain b p1 where pk: "peek s p ''('' = (b, p1)" "left s k p1" "b \<longrightarrow> 0 < k \<and> (\<forall>t q eq p''. gettoken s p1 = (t, q, eq, p'') \<longrightarrow> left s (k - 1) p'')"
    by (rule peek_left [OF assms(1,2) symb_toks(6)])
  obtain t q e p2 where g: "gettoken s p1 = (t, q, e, p2)" by (metis prod_cases4)
  let ?rest = "\<lambda>(cmd, ps). let (b, ps) = peek s ps '')'' in if \<not> b then Bad ''syntax - missing )''
      else (let (_, _, _, ps) = gettoken s ps in parseredirs cmd s ps)"
  have "pok (cmd_left s k) (pbind (parseline n s p2) ?rest)" if b
  proof (rule pok_pbind)
    have l: "left s (k - 1) p2" "k - 1 < k" using pk(3) that g by auto
    show "pok (cmd_left s (k - 1)) (parseline n s p2)" by (rule line [OF l])
    fix a assume a: "cmd_left s (k - 1) a"
    obtain c p3 where cp: "a = (c, p3)" by (cases a)
    obtain b' p4 where pk': "peek s p3 '')'' = (b', p4)" "left s (k - 1) p4"
        "b' \<longrightarrow> 0 < k - 1 \<and> (\<forall>t q eq p''. gettoken s p4 = (t, q, eq, p'') \<longrightarrow> left s (k - 1 - 1) p'')"
      using peek_left [OF assms(1) _ symb_toks(7), of "k - 1" p3] a cp by auto
    obtain t' q' e' p5 where g': "gettoken s p4 = (t', q', e', p5)" by (metis prod_cases4)
    have "left s k p5" if b' using pk'(3) that g' left_mono [of s "k - 1 - 1" p5 k] by auto
    then show "pok (cmd_left s k) (?rest a)" using a cp pk' g' parseredirs_ok [OF assms(1)] by auto
  qed
  then show ?thesis using pk g by simp
qed

lemma parseexec_step:
  assumes "0 \<notin> set s" "left s k p" and block: "\<And>p. left s k p \<Longrightarrow> pok (cmd_left s k) (parseblock n s p)"
  shows "pok (cmd_left s k) (parseexec (Suc n) s p)"
proof -
  obtain b p1 where pk: "peek s p ''('' = (b, p1)" "left s k p1" "b \<longrightarrow> 0 < k \<and> (\<forall>t q eq p''. gettoken s p1 = (t, q, eq, p'') \<longrightarrow> left s (k - 1) p'')"
    by (rule peek_left [OF assms(1,2) symb_toks(6)])
  have "pok (cmd_left s k) (pbind (parseredirs_loop s p1) (\<lambda>(rs, ps). pbind (parseexec_loop s ps [] rs) (\<lambda>(argv, rs, ps). Parsed (wrap (EXEC argv) rs, ps))))"
  proof (rule pok_pbind [OF parseredirs_loop_ok [OF assms(1) pk(2)]])
    fix a :: "redir list \<times> nat" assume "case a of (rs, p') \<Rightarrow> list_all (redir_ok s) rs \<and> left s k p'"
    then show "pok (cmd_left s k) (case a of (rs, ps) \<Rightarrow> pbind (parseexec_loop s ps [] rs) (\<lambda>(argv, rs, ps). Parsed (wrap (EXEC argv) rs, ps)))"
      using parseexec_loop_ok [OF assms(1), of k "snd a" "[]" "fst a"]
      by (cases a) (auto elim!: pok_pbind intro!: good_wrap)
  qed
  then show ?thesis using pk block by simp
qed

lemma parsepipe_step:
  assumes "0 \<notin> set s" "left s k p" and exec: "\<And>p. left s k p \<Longrightarrow> pok (cmd_left s k) (parseexec n s p)"
    and pipe: "\<And>j p. left s j p \<Longrightarrow> j < k \<Longrightarrow> pok (cmd_left s j) (parsepipe n s p)"
  shows "pok (cmd_left s k) (parsepipe (Suc n) s p)"
  unfolding parsepipe.simps
proof (rule pok_pbind [OF exec [OF assms(2)]])
  fix a assume a: "cmd_left s k a"
  obtain c p1 where cp: "a = (c, p1)" by (cases a)
  obtain b p2 where pk: "peek s p1 ''|'' = (b, p2)" "left s k p2" "b \<longrightarrow> 0 < k \<and> (\<forall>t q eq p''. gettoken s p2 = (t, q, eq, p'') \<longrightarrow> left s (k - 1) p'')"
    using peek_left [OF assms(1) _ symb_toks(5), of k p1] a cp by auto
  obtain t q e p3 where g: "gettoken s p2 = (t, q, e, p3)" by (metis prod_cases4)
  have "pok (cmd_left s k) (pbind (parsepipe n s p3) (\<lambda>(right, ps). Parsed (pipecmd c right, ps)))" if b
  proof (rule pok_pbind)
    have l: "left s (k - 1) p3" "k - 1 < k" using pk(3) that g by auto
    show "pok (cmd_left s (k - 1)) (parsepipe n s p3)" by (rule pipe [OF l])
  qed (use a cp left_mono [of s "k - 1" _ k] in \<open>auto simp: pipecmd_def\<close>)
  then show "pok (cmd_left s k) (case a of (cmd, ps) \<Rightarrow> let (b, ps) = peek s ps ''|'' in
     if b then (let (_, _, _, ps) = gettoken s ps in pbind (parsepipe n s ps) (\<lambda>(right, ps). Parsed (pipecmd cmd right, ps)))
     else Parsed (cmd, ps))"
    using a cp pk g by simp
qed

lemma parseline_step:
  assumes "0 \<notin> set s" "left s k p" and pipe: "\<And>p. left s k p \<Longrightarrow> pok (cmd_left s k) (parsepipe n s p)"
    and line: "\<And>j p. left s j p \<Longrightarrow> j < k \<Longrightarrow> pok (cmd_left s j) (parseline n s p)"
  shows "pok (cmd_left s k) (parseline (Suc n) s p)"
  unfolding parseline.simps
proof (rule pok_pbind [OF pipe [OF assms(2)]])
  fix a assume a: "cmd_left s k a"
  obtain c p0 where cp: "a = (c, p0)" by (cases a)
  obtain c1 p1 where bl: "back_loop s c p0 = (c1, p1)" by fastforce
  have c1: "good_cmd s c1" "left s k p1" using back_loop_ok [OF assms(1) _ _ bl] a cp by auto
  obtain b p2 where pk: "peek s p1 '';'' = (b, p2)" "left s k p2" "b \<longrightarrow> 0 < k \<and> (\<forall>t q eq p''. gettoken s p2 = (t, q, eq, p'') \<longrightarrow> left s (k - 1) p'')"
    by (rule peek_left [OF assms(1) c1(2) symb_toks(4)])
  obtain t q e p3 where g: "gettoken s p2 = (t, q, e, p3)" by (metis prod_cases4)
  have "pok (cmd_left s k) (pbind (parseline n s p3) (\<lambda>(right, ps). Parsed (listcmd c1 right, ps)))" if b
  proof (rule pok_pbind)
    have l: "left s (k - 1) p3" "k - 1 < k" using pk(3) that g by auto
    show "pok (cmd_left s (k - 1)) (parseline n s p3)" by (rule line [OF l])
  qed (use c1 left_mono [of s "k - 1" _ k] in \<open>auto simp: listcmd_def\<close>)
  then show "pok (cmd_left s k) (case a of (cmd, ps) \<Rightarrow> let (cmd, ps) = back_loop s cmd ps; (b, ps) = peek s ps '';'' in
     if b then (let (_, _, _, ps) = gettoken s ps in pbind (parseline n s ps) (\<lambda>(right, ps). Parsed (listcmd cmd right, ps)))
     else Parsed (cmd, ps))"
    using cp bl c1 pk g by simp
qed

lemma parse_ok:
  assumes "0 \<notin> set s"
  shows "left s k p \<Longrightarrow> 4 * k + 4 \<le> n \<Longrightarrow> pok (cmd_left s k) (parseline n s p)"
    "left s k p \<Longrightarrow> 4 * k + 3 \<le> n \<Longrightarrow> pok (cmd_left s k) (parsepipe n s p)"
    "left s k p \<Longrightarrow> 4 * k + 2 \<le> n \<Longrightarrow> pok (cmd_left s k) (parseexec n s p)"
    "left s k p \<Longrightarrow> 4 * k + 1 \<le> n \<Longrightarrow> pok (cmd_left s k) (parseblock n s p)"
proof (induction n arbitrary: k p)
  case (Suc n)
  {
    case 1
    then show ?case using Suc.IH(1,2) by (intro parseline_step [OF assms]) auto
  next
    case 2
    then show ?case using Suc.IH(2,3) by (intro parsepipe_step [OF assms]) auto
  next
    case 3
    then show ?case using Suc.IH(4) by (intro parseexec_step [OF assms]) auto
  next
    case 4
    then show ?case using Suc.IH(1) by (intro parseblock_step [OF assms]) auto
  }
qed simp_all

section \<open>The strings of a command\<close>

datatype tree = TExec "cstring list" | TRedir tree cstring int int | TPipe tree tree | TList tree tree | TBack tree

text \<open>The command as \<open>runcmd\<close> sees it in the buffer, and as it stands in the line.\<close>

primrec tree_of :: "uchar list \<Rightarrow> cmd \<Rightarrow> tree" where
  "tree_of b (EXEC argv) = TExec (map (\<lambda>(q, eq). str_at b q) argv)"
| "tree_of b (REDIR c file mode fd) = TRedir (tree_of b c) (str_at b (fst file)) mode fd"
| "tree_of b (PIPE l r) = TPipe (tree_of b l) (tree_of b r)"
| "tree_of b (LIST l r) = TList (tree_of b l) (tree_of b r)"
| "tree_of b (BACK c) = TBack (tree_of b c)"

definition tok_text :: "uchar list \<Rightarrow> nat \<times> nat \<Rightarrow> cstring" where
  "tok_text s = (\<lambda>(q, eq). slice s q (eq - q))"

primrec text_of :: "uchar list \<Rightarrow> cmd \<Rightarrow> tree" where
  "text_of s (EXEC argv) = TExec (map (tok_text s) argv)"
| "text_of s (REDIR c file mode fd) = TRedir (text_of s c) (tok_text s file) mode fd"
| "text_of s (PIPE l r) = TPipe (text_of s l) (text_of s r)"
| "text_of s (LIST l r) = TList (text_of s l) (text_of s r)"
| "text_of s (BACK c) = TBack (text_of s c)"

definition word :: "cstring \<Rightarrow> bool" where
  "word w \<longleftrightarrow> w \<noteq> [] \<and> list_all wordb w"

primrec wf_tree :: "tree \<Rightarrow> bool" where
  "wf_tree (TExec ws) \<longleftrightarrow> length ws < MAXARGS \<and> list_all word ws"
| "wf_tree (TRedir t f mode fd) \<longleftrightarrow> wf_tree t \<and> word f \<and> (mode, fd) \<in> {(0, 0), (0x601, 1), (0x201, 1)}"
| "wf_tree (TPipe l r) \<longleftrightarrow> wf_tree l \<and> wf_tree r"
| "wf_tree (TList l r) \<longleftrightarrow> wf_tree l \<and> wf_tree r"
| "wf_tree (TBack t) \<longleftrightarrow> wf_tree t"

lemma token_word: "token_ok s x \<Longrightarrow> word (tok_text s x)"
  by (cases x) (auto simp: token_ok_def word_def tok_text_def slice_def)

lemma good_wf: "good_cmd s c \<Longrightarrow> wf_tree (text_of s c)"
  by (induction c) (auto simp: list_all_iff token_word redir_ok_def)

primrec cmd_toks :: "cmd \<Rightarrow> (nat \<times> nat) set" where
  "cmd_toks (EXEC argv) = set argv"
| "cmd_toks (REDIR c file mode fd) = insert file (cmd_toks c)"
| "cmd_toks (PIPE l r) = cmd_toks l \<union> cmd_toks r"
| "cmd_toks (LIST l r) = cmd_toks l \<union> cmd_toks r"
| "cmd_toks (BACK c) = cmd_toks c"

definition nulled :: "nat set \<Rightarrow> uchar list \<Rightarrow> uchar list" where
  "nulled E s = map (\<lambda>i. if i \<in> E then 0 else s ! i) [0..<length s]"

lemma nulled_upd: "(nulled E s)[e := 0] = nulled (insert e E) s"
  by (cases "e < length s"; intro nth_equalityI) (auto simp: nulled_def nth_list_update list_update_beyond)

lemma nulterminate_nulled: "nulterminate c (nulled E s) = nulled (E \<union> snd ` cmd_toks c) s"
proof (induction c arbitrary: E)
  case (EXEC argv)
  have "fold (\<lambda>(_, eq) s. s[eq := 0]) argv (nulled E s) = nulled (E \<union> snd ` set argv) s" for E
    by (induction argv arbitrary: E) (auto simp: nulled_upd)
  then show ?case by simp
next
  case (REDIR c fl mode fd)
  then show ?case by (simp add: nulled_upd)
qed (simp_all add: Un_assoc image_Un)

lemma str_at_nulled:
  assumes "token_ok s (q, eq)" "eq \<in> E" "\<forall>e\<in>E. \<not> wordb (rd s e)"
  shows "str_at (nulled E s) q = slice s q (eq - q)"
proof -
  have t: "q < eq" "eq \<le> length s" "list_all wordb (slice s q (eq - q))" using assms(1) by (auto simp: token_ok_def)
  have w: "wordb (s ! i)" if "q \<le> i" "i < eq" for i
  proof -
    have "s ! i \<in> set (slice s q (eq - q))" using that t(2) by (auto simp: slice_def in_set_conv_nth intro!: exI [of _ "i - q"])
    then show ?thesis using t(3) by (simp add: list_all_iff)
  qed
  have "i \<notin> E" if "q \<le> i" "i < eq" for i using w [OF that] assms(3) that t(2) by (auto simp: rd_def)
  then have "take (eq - q) (drop q (nulled E s)) = slice s q (eq - q)"
    by (intro nth_equalityI) (auto simp: nulled_def slice_def)
  moreover have "drop (eq - q) (drop q (nulled E s)) = drop eq (nulled E s)" using t(1) by simp
  ultimately have d: "drop q (nulled E s) = slice s q (eq - q) @ drop eq (nulled E s)" by (metis append_take_drop_id)
  have "takeWhile (\<lambda>c. c \<noteq> 0) (drop eq (nulled E s)) = []"
  proof (cases "eq < length s")
    case True
    then have "drop eq (nulled E s) = 0 # drop (Suc eq) (nulled E s)" using assms(2)
      by (subst Cons_nth_drop_Suc [symmetric]) (simp_all add: nulled_def)
    then show ?thesis by simp
  qed (simp add: nulled_def)
  moreover have "\<forall>x\<in>set (slice s q (eq - q)). x \<noteq> 0" using t(3) by (auto simp: list_all_iff wordb_def)
  ultimately show ?thesis unfolding str_at_def d by (simp add: takeWhile_append2)
qed

lemma good_toks: "good_cmd s c \<Longrightarrow> x \<in> cmd_toks c \<Longrightarrow> token_ok s x"
  by (induction c) (auto simp: list_all_iff redir_ok_def)

lemma tree_nulled:
  assumes "\<forall>e\<in>E. \<not> wordb (rd s e)"
  shows "good_cmd s c \<Longrightarrow> snd ` cmd_toks c \<subseteq> E \<Longrightarrow> tree_of (nulled E s) c = text_of s c"
proof (induction c)
  case (EXEC argv)
  have "str_at (nulled E s) q = tok_text s (q, eq)" if "(q, eq) \<in> set argv" for q eq
    using EXEC that str_at_nulled [OF _ _ assms, of q eq] by (force simp: list_all_iff tok_text_def)
  then show ?case by auto
next
  case (REDIR c fl mode fd)
  then show ?case using str_at_nulled [OF _ _ assms, of "fst fl" "snd fl"] by (auto simp: tok_text_def redir_ok_def split: prod.splits)
qed auto

lemma nulterminate_tree:
  assumes "good_cmd s c"
  shows "tree_of (nulterminate c s) c = text_of s c"
proof -
  have "nulterminate c s = nulled (snd ` cmd_toks c) s"
    using nulterminate_nulled [of c "{}" s] by (simp add: nulled_def map_nth)
  moreover have "\<forall>e\<in>snd ` cmd_toks c. \<not> wordb (rd s e)" using good_toks [OF assms] by (auto simp: token_ok_def)
  ultimately show ?thesis using tree_nulled assms by simp
qed

end
