(* ===== verification/ShProps.thy ===== *)
theory ShProps
  imports ShParse
begin

text \<open>
  The parser of the shell against the printed form of command trees, and what the shell does with every line.
\<close>

section \<open>Printing commands as tokens\<close>

abbreviation (input) PAR_L :: tok where "PAR_L \<equiv> Sym 40"
abbreviation (input) PAR_R :: tok where "PAR_R \<equiv> Sym 41"
abbreviation (input) BAR :: tok where "BAR \<equiv> Sym 124"
abbreviation (input) AMP :: tok where "AMP \<equiv> Sym 38"
abbreviation (input) SEMI :: tok where "SEMI \<equiv> Sym 59"

definition redir_toks :: "cstring \<times> int \<times> int \<Rightarrow> tok list" where
  "redir_toks = (\<lambda>(f, mode, fd). [Sym (if fd = 0 then 60 else if mode = 0x601 then GT else APPEND), Word f])"

definition paren :: "bool \<Rightarrow> tok list \<Rightarrow> tok list" where
  "paren b ts = (if b then [PAR_L] @ ts @ [PAR_R] else ts)"

text \<open>
  \<open>shown k t\<close>: the tokens of \<open>t\<close> as a line (0), the left of a semicolon (1), a pipeline (2) or a simple
  command (3), with parentheses where the grammar needs them.
\<close>

primrec shown :: "nat \<Rightarrow> tree \<Rightarrow> tok list" where
  "shown k (TExec ws) = map Word ws"
| "shown k (TRedir t f mode fd) = shown 3 t @ redir_toks (f, mode, fd)"
| "shown k (TPipe l r) = paren (k > 2) (shown 3 l @ [BAR] @ shown 2 r)"
| "shown k (TBack t) = paren (k > 1) (shown 1 t @ [AMP])"
| "shown k (TList l r) = paren (k > 0) (shown 1 l @ [SEMI] @ shown 0 r)"

section \<open>One step of the scanner\<close>

definition hit :: "string \<Rightarrow> tok list \<Rightarrow> bool" where
  "hit toks ts = (case ts of Sym c # _ \<Rightarrow> (if c = APPEND then GT else c) \<in> set (chars toks) | _ \<Rightarrow> False)"

lemma peek_run:
  assumes "0 \<notin> set s" "sees s p ts" "list_all symb (chars toks)"
  shows "\<exists>p'. peek s p toks = (hit toks ts, p') \<and> sees s p' ts"
proof -
  obtain b p' where k: "peek s p toks = (b, p')" by fastforce
  show ?thesis using peek_tokens [OF assms(1,2) k assms(3)] k unfolding hit_def by auto
qed

lemma gettoken_sym: "0 \<notin> set s \<Longrightarrow> sees s p (Sym c # us) \<Longrightarrow> \<exists>q e p'. gettoken s p = (c, q, e, p') \<and> sees s p' us"
  using gettoken_tokens [of s p "Sym c # us"] by (cases "gettoken s p") fastforce

lemma gettoken_word:
  "0 \<notin> set s \<Longrightarrow> sees s p (Word w # us) \<Longrightarrow> \<exists>q e p'. gettoken s p = (97, q, e, p') \<and> tok_text s (q, e) = w \<and> sees s p' us"
  using gettoken_tokens [of s p "Word w # us"] by (cases "gettoken s p") (fastforce simp: tok_text_def)

lemma gettoken_nil: "0 \<notin> set s \<Longrightarrow> sees s p [] \<Longrightarrow> \<exists>q e p'. gettoken s p = (0, q, e, p') \<and> sees s p' []"
  using gettoken_tokens [of s p "[]"] by (cases "gettoken s p") fastforce

section \<open>The loops\<close>

definition redir_text :: "uchar list \<Rightarrow> redir \<Rightarrow> cstring \<times> int \<times> int" where
  "redir_text s = (\<lambda>(f, mode, fd). (tok_text s f, mode, fd))"

definition redir_fine :: "cstring \<times> int \<times> int \<Rightarrow> bool" where
  "redir_fine = (\<lambda>(f, mode, fd). word f \<and> (mode, fd) \<in> {(0, 0), (0x601, 1), (0x201, 1)})"

lemma hit_simps [simp]: "\<not> hit toks []" "\<not> hit toks (Word w # ts)" "hit toks (Sym c # ts) \<longleftrightarrow> (if c = APPEND then GT else c) \<in> set (chars toks)"
  by (simp_all add: hit_def)

lemma parseredirs_loop_run:
  assumes z: "0 \<notin> set s"
  shows "sees s p (concat (map redir_toks rl) @ ts) \<Longrightarrow> \<not> hit ''<>'' ts \<Longrightarrow> list_all redir_fine rl \<Longrightarrow>
    \<exists>rs p'. parseredirs_loop s p = Parsed (rs, p') \<and> map (redir_text s) rs = rl \<and> sees s p' ts"
proof (induction rl arbitrary: p)
  case Nil
  then obtain p' where "peek s p ''<>'' = (False, p')" "sees s p' ts" using peek_run [OF z, of p ts "''<>''"] by auto
  then show ?case by (subst parseredirs_loop.simps) auto
next
  case (Cons r rl)
  obtain f mode fd where r: "r = (f, mode, fd)" by (cases r)
  define c :: uchar where "c = (if fd = 0 then 60 else if mode = 0x601 then GT else APPEND)"
  let ?us = "concat (map redir_toks rl) @ ts"
  have see: "sees s p (Sym c # Word f # ?us)" using Cons.prems(1) by (simp add: r redir_toks_def c_def)
  obtain p1 where p1: "peek s p ''<>'' = (True, p1)" "sees s p1 (Sym c # Word f # ?us)"
    using peek_run [OF z see symb_toks(1)] by (auto simp: c_def chars_def)
  obtain q0 e0 p2 where p2: "gettoken s p1 = (c, q0, e0, p2)" "sees s p2 (Word f # ?us)" using gettoken_sym [OF z p1(2)] by blast
  obtain q e p3 where p3: "gettoken s p2 = (97, q, e, p3)" "tok_text s (q, e) = f" "sees s p3 ?us" using gettoken_word [OF z p2(2)] by blast
  obtain rs p' where ih: "parseredirs_loop s p3 = Parsed (rs, p')" "map (redir_text s) rs = rl" "sees s p' ts"
    using Cons.IH [OF p3(3)] Cons.prems by auto
  have "map (redir_text s) (redir_of c q e) = [r]"
    using Cons.prems(3) p3(2) by (auto simp: r redir_fine_def redir_of_def c_def redir_text_def)
  then have "map (redir_text s) (redir_of c q e @ rs) = r # rl" using ih(2) by simp
  moreover have "parseredirs_loop s p = Parsed (redir_of c q e @ rs, p')"
    using p1 p2 p3 ih by (subst parseredirs_loop.simps) simp
  ultimately show ?case using ih(3) by (intro exI conjI)
qed

lemma back_loop_run:
  assumes z: "0 \<notin> set s"
  shows "sees s p (replicate j AMP @ ts) \<Longrightarrow> \<not> hit ''&'' ts \<Longrightarrow> \<exists>p'. back_loop s c p = ((BACK ^^ j) c, p') \<and> sees s p' ts"
proof (induction j arbitrary: p c)
  case 0
  then obtain p' where "peek s p ''&'' = (False, p')" "sees s p' ts" using peek_run [OF z, of p ts "''&''"] by auto
  then show ?case by (subst back_loop.simps) simp
next
  case (Suc j)
  obtain p1 where p1: "peek s p ''&'' = (True, p1)" "sees s p1 (AMP # replicate j AMP @ ts)"
    using peek_run [OF z _ symb_toks(3), of p "AMP # replicate j AMP @ ts"] Suc.prems(1) by (auto simp: chars_def)
  obtain q e p2 where p2: "gettoken s p1 = (38, q, e, p2)" "sees s p2 (replicate j AMP @ ts)" using gettoken_sym [OF z p1(2)] by blast
  obtain p' where "back_loop s (BACK c) p2 = ((BACK ^^ j) (BACK c), p')" "sees s p' ts" using Suc.IH [OF p2(2) Suc.prems(2)] by blast
  then show ?case using p1 p2 by (subst back_loop.simps) (simp add: backcmd_def funpow_swap1)
qed

lemma parseexec_loop_stop:
  assumes z: "0 \<notin> set s" and see: "sees s p ts" and ts: "ts = [] \<or> hit ''|)&;'' ts"
  shows "\<exists>p'. parseexec_loop s p argv rs = Parsed (argv, rs, p') \<and> sees s p' ts"
proof -
  obtain p1 where p1: "peek s p ''|)&;'' = (hit ''|)&;'' ts, p1)" "sees s p1 ts" using peek_run [OF z see symb_toks(2)] by blast
  show ?thesis
  proof (cases "ts = []")
    case True
    then obtain q e p2 where "gettoken s p1 = (0, q, e, p2)" "sees s p2 []" using gettoken_nil [OF z] p1(2) by blast
    then show ?thesis using p1 True by (subst parseexec_loop.simps) simp
  next
    case False
    then show ?thesis using p1 ts by (subst parseexec_loop.simps) simp
  qed
qed

text \<open>The redirections between the arguments come after the last one in printed commands.\<close>

lemma parseexec_loop_run:
  assumes z: "0 \<notin> set s"
  shows "sees s p (map Word ws @ concat (map redir_toks rl) @ ts) \<Longrightarrow> ts = [] \<or> hit ''|)&;'' ts \<Longrightarrow> list_all redir_fine rl \<Longrightarrow>
    length argv + length ws < MAXARGS \<Longrightarrow> ws \<noteq> [] \<or> rl = [] \<Longrightarrow>
    \<exists>av rs' p'. parseexec_loop s p argv rs = Parsed (argv @ av, rs @ rs', p') \<and> map (tok_text s) av = ws \<and>
      map (redir_text s) rs' = rl \<and> sees s p' ts"
proof (induction ws arbitrary: p argv rs)
  case Nil
  then show ?case using parseexec_loop_stop [OF z, of p ts argv rs] by auto
next
  case (Cons w ws)
  let ?us = "map Word ws @ concat (map redir_toks rl) @ ts"
  have see: "sees s p (Word w # ?us)" using Cons.prems(1) by simp
  obtain p1 where p1: "peek s p ''|)&;'' = (False, p1)" "sees s p1 (Word w # ?us)"
    using peek_run [OF z see symb_toks(2)] by auto
  obtain q e p2 where p2: "gettoken s p1 = (97, q, e, p2)" "tok_text s (q, e) = w" "sees s p2 ?us" using gettoken_word [OF z p1(2)] by blast
  show ?case
  proof (cases "ws = []")
    case True
    have "\<not> hit ''<>'' ts" using Cons.prems(2) by (auto simp: hit_def chars_def split: list.splits tok.splits if_splits)
    then obtain rs' p3 where p3: "parseredirs_loop s p2 = Parsed (rs', p3)" "map (redir_text s) rs' = rl" "sees s p3 ts"
      using parseredirs_loop_run [OF z, of p2 rl ts] p2(3) True Cons.prems(3) by auto
    obtain p' where e: "parseexec_loop s p3 (argv @ [(q, e)]) (rs @ rs') = Parsed (argv @ [(q, e)], rs @ rs', p')" "sees s p' ts"
      using parseexec_loop_stop [OF z p3(3) Cons.prems(2)] by blast
    have "parseexec_loop s p argv rs = Parsed (argv @ [(q, e)], rs @ rs', p')"
      using p1 p2 p3 e Cons.prems(4) by (subst parseexec_loop.simps) simp
    then show ?thesis using e(2) p2(2) p3(2) True by (intro exI [of _ "[(q, e)]"] exI [of _ rs'] exI [of _ p']) simp
  next
    case False
    then obtain v vs where ws: "ws = v # vs" by (cases ws) auto
    obtain p3 where p3: "parseredirs_loop s p2 = Parsed ([], p3)" "sees s p3 ?us"
      using parseredirs_loop_run [OF z, of p2 "[]" ?us] p2(3) ws by auto
    obtain av rs' p' where ih: "parseexec_loop s p3 (argv @ [(q, e)]) (rs @ []) = Parsed ((argv @ [(q, e)]) @ av, (rs @ []) @ rs', p')"
        "map (tok_text s) av = ws" "map (redir_text s) rs' = rl" "sees s p' ts"
      using Cons.IH [OF p3(2) Cons.prems(2,3), of "argv @ [(q, e)]" "rs @ []"] Cons.prems(4) False by auto
    have "parseexec_loop s p argv rs = Parsed (argv @ (q, e) # av, rs @ rs', p')"
      using p1 p2 p3 ih(1) Cons.prems(4) ws by (subst parseexec_loop.simps) simp
    then show ?thesis using ih(2,3,4) p2(2) by (intro exI [of _ "(q, e) # av"] exI [of _ rs'] exI [of _ p']) simp
  qed
qed

section \<open>The levels of the grammar\<close>

definition stops :: "nat \<Rightarrow> tok list \<Rightarrow> bool" where
  "stops k ts \<longleftrightarrow> ts = [] \<or> hit (if k = 3 then ''|)&;'' else if k = 2 then '')&;'' else if k = 1 then '');'' else '')'') ts"

definition parser :: "nat \<Rightarrow> nat \<Rightarrow> uchar list \<Rightarrow> nat \<Rightarrow> (cmd \<times> nat) parse" where
  "parser k n s p =
     (if k = 0 then parseline n s p
      else if k = 1 then pbind (parsepipe n s p) (\<lambda>(c, p). Parsed (back_loop s c p))
      else if k = 2 then parsepipe n s p else parseexec n s p)"

text \<open>The parser of level \<open>k\<close> reads back the printed form of \<open>t\<close>, with enough fuel.\<close>

definition reads :: "nat \<Rightarrow> uchar list \<Rightarrow> tree \<Rightarrow> bool" where
  "reads k s t \<longleftrightarrow> (\<forall>p ts. sees s p (shown k t @ ts) \<and> stops k ts \<longrightarrow>
     (\<exists>n0 c p'. (\<forall>n\<ge>n0. parser k n s p = Parsed (c, p')) \<and> text_of s c = t \<and> sees s p' ts))"

lemma readsI:
  "(\<And>p ts. sees s p (shown k t @ ts) \<Longrightarrow> stops k ts \<Longrightarrow>
     \<exists>n0 c p'. (\<forall>n\<ge>n0. parser k n s p = Parsed (c, p')) \<and> text_of s c = t \<and> sees s p' ts) \<Longrightarrow> reads k s t"
  by (simp add: reads_def)

lemma readsE:
  assumes "reads k s t" "sees s p (shown k t @ ts)" "stops k ts"
  obtains n0 c p' where "\<forall>n\<ge>n0. parser k n s p = Parsed (c, p')" "text_of s c = t" "sees s p' ts"
  using assms unfolding reads_def by blast

lemma stops_hit:
  "stops 2 ts \<Longrightarrow> \<not> hit ''|'' ts" "stops 1 ts \<Longrightarrow> \<not> hit ''&'' ts" "stops 0 ts \<Longrightarrow> \<not> hit '';'' ts"
  "stops 3 ts \<Longrightarrow> ts = [] \<or> hit ''|)&;'' ts" "stops 3 ts \<Longrightarrow> \<not> hit ''<>'' ts" "stops 3 ts \<Longrightarrow> \<not> hit ''('' ts"
  by (auto simp: stops_def hit_def chars_def split: list.splits tok.splits if_splits)

lemma stops_mono: "stops 2 ts \<Longrightarrow> stops 3 ts" "stops 1 ts \<Longrightarrow> stops 2 ts" "stops 0 ts \<Longrightarrow> stops 1 ts"
  by (auto simp: stops_def hit_def chars_def split: list.splits tok.splits if_splits)

lemma stops_sym: "stops 3 (BAR # ts)" "stops 2 (AMP # ts)" "stops 1 (SEMI # ts)" "stops 0 (PAR_R # ts)"
  by (simp_all add: stops_def chars_def)

lemma parseline_parser1:
  "parseline (Suc n) s p = pbind (parser 1 n s p) (\<lambda>(c, p). let (b, p) = peek s p '';'' in
     if b then (let (_, _, _, p) = gettoken s p in pbind (parseline n s p) (\<lambda>(r, p). Parsed (listcmd c r, p))) else Parsed (c, p))"
  by (cases "parsepipe n s p") (auto simp: parser_def split: prod.splits)

lemma Suc_bound: "(\<And>n. n \<ge> n0 \<Longrightarrow> f (Suc n) = r) \<Longrightarrow> \<forall>n\<ge>Suc n0. f n = r"
  by (metis Suc_le_D Suc_le_mono)

lemma reads_3_2:
  assumes z: "0 \<notin> set s" and r: "reads 3 s t" and sh: "shown 2 t = shown 3 t"
  shows "reads 2 s t"
proof (rule readsI)
  fix p ts assume see: "sees s p (shown 2 t @ ts)" and st: "stops 2 ts"
  obtain n0 c p1 where x: "\<forall>n\<ge>n0. parser 3 n s p = Parsed (c, p1)" "text_of s c = t" "sees s p1 ts"
    using readsE [OF r see [unfolded sh] stops_mono(1) [OF st]] .
  obtain p2 where "peek s p1 ''|'' = (False, p2)" "sees s p2 ts" using peek_run [OF z x(3) symb_toks(5)] stops_hit(1) [OF st] by auto
  moreover have "parser 2 (Suc n) s p = Parsed (c, p2)" if "n \<ge> n0" for n using x(1) that calculation by (simp add: parser_def)
  ultimately show "\<exists>n0 c p'. (\<forall>n\<ge>n0. parser 2 n s p = Parsed (c, p')) \<and> text_of s c = t \<and> sees s p' ts"
    using x(2) Suc_bound [of n0 "\<lambda>n. parser 2 n s p"] by blast
qed

lemma reads_pipe:
  assumes z: "0 \<notin> set s" and a: "reads 3 s a" and b: "reads 2 s b"
  shows "reads 2 s (TPipe a b)"
proof (rule readsI)
  fix p ts assume "sees s p (shown 2 (TPipe a b) @ ts)" and st: "stops 2 ts"
  then have see: "sees s p (shown 3 a @ BAR # shown 2 b @ ts)" by (simp add: paren_def)
  obtain n1 c p1 where x: "\<forall>n\<ge>n1. parser 3 n s p = Parsed (c, p1)" "text_of s c = a" "sees s p1 (BAR # shown 2 b @ ts)"
    using readsE [OF a see stops_sym(1)] .
  obtain p2 where p2: "peek s p1 ''|'' = (True, p2)" "sees s p2 (BAR # shown 2 b @ ts)" using peek_run [OF z x(3) symb_toks(5)] by (auto simp: chars_def)
  obtain q e p3 where p3: "gettoken s p2 = (124, q, e, p3)" "sees s p3 (shown 2 b @ ts)" using gettoken_sym [OF z p2(2)] by blast
  obtain n2 d p4 where y: "\<forall>n\<ge>n2. parser 2 n s p3 = Parsed (d, p4)" "text_of s d = b" "sees s p4 ts" using readsE [OF b p3(2) st] .
  have "parser 2 (Suc n) s p = Parsed (PIPE c d, p4)" if "n \<ge> max n1 n2" for n
    using x(1) y(1) p2(1) p3(1) that by (simp add: parser_def pipecmd_def)
  then show "\<exists>n0 c p'. (\<forall>n\<ge>n0. parser 2 n s p = Parsed (c, p')) \<and> text_of s c = TPipe a b \<and> sees s p' ts"
    using Suc_bound [of "max n1 n2" "\<lambda>n. parser 2 n s p"] x(2) y(2,3) by (metis text_of.simps(3))
qed

lemma text_of_BACK: "text_of s ((BACK ^^ j) c) = (TBack ^^ j) (text_of s c)"
  by (induction j) simp_all

lemma reads_2_1:
  assumes z: "0 \<notin> set s" and r: "reads 2 s t" and sh: "shown 1 t = shown 2 t"
  shows "reads 1 s ((TBack ^^ j) t)"
proof (rule readsI)
  fix p ts assume see: "sees s p (shown 1 ((TBack ^^ j) t) @ ts)" and st: "stops 1 ts"
  have "shown 1 ((TBack ^^ j) t) = shown 2 t @ replicate j AMP"
    using sh by (induction j) (auto simp: paren_def replicate_append_same)
  then have see': "sees s p (shown 2 t @ replicate j AMP @ ts)" using see by simp
  have "stops 2 (replicate j AMP @ ts)" using stops_sym(2) stops_mono(2) [OF st] by (cases j) auto
  from readsE [OF r see' this] obtain n0 c p1 where
    x: "\<forall>n\<ge>n0. parser 2 n s p = Parsed (c, p1)" "text_of s c = t" "sees s p1 (replicate j AMP @ ts)" .
  obtain p2 where p2: "back_loop s c p1 = ((BACK ^^ j) c, p2)" "sees s p2 ts" using back_loop_run [OF z x(3) stops_hit(2) [OF st]] by blast
  have "\<forall>n\<ge>n0. parser 1 n s p = Parsed ((BACK ^^ j) c, p2)" using x(1) p2(1) by (simp add: parser_def)
  then show "\<exists>n0 c p'. (\<forall>n\<ge>n0. parser 1 n s p = Parsed (c, p')) \<and> text_of s c = (TBack ^^ j) t \<and> sees s p' ts"
    using text_of_BACK [of s j c] x(2) p2(2) by metis
qed

lemma reads_1_0:
  assumes z: "0 \<notin> set s" and r: "reads 1 s t" and sh: "shown 0 t = shown 1 t"
  shows "reads 0 s t"
proof (rule readsI)
  fix p ts assume see: "sees s p (shown 0 t @ ts)" and st: "stops 0 ts"
  obtain n0 c p1 where x: "\<forall>n\<ge>n0. parser 1 n s p = Parsed (c, p1)" "text_of s c = t" "sees s p1 ts"
    using readsE [OF r see [unfolded sh] stops_mono(3) [OF st]] .
  obtain p2 where p2: "peek s p1 '';'' = (False, p2)" "sees s p2 ts" using peek_run [OF z x(3) symb_toks(4)] stops_hit(3) [OF st] by auto
  have "parser 0 (Suc n) s p = Parsed (c, p2)" if "n \<ge> n0" for n
    using x(1) p2(1) that parseline_parser1 [of n s p] by (simp add: parser_def [of 0])
  then show "\<exists>n0 c p'. (\<forall>n\<ge>n0. parser 0 n s p = Parsed (c, p')) \<and> text_of s c = t \<and> sees s p' ts"
    using x(2) p2(2) Suc_bound [of n0 "\<lambda>n. parser 0 n s p"] by blast
qed

lemma reads_list:
  assumes z: "0 \<notin> set s" and a: "reads 1 s a" and b: "reads 0 s b"
  shows "reads 0 s (TList a b)"
proof (rule readsI)
  fix p ts assume "sees s p (shown 0 (TList a b) @ ts)" and st: "stops 0 ts"
  then have see: "sees s p (shown 1 a @ SEMI # shown 0 b @ ts)" by (simp add: paren_def)
  obtain n1 c p1 where x: "\<forall>n\<ge>n1. parser 1 n s p = Parsed (c, p1)" "text_of s c = a" "sees s p1 (SEMI # shown 0 b @ ts)"
    using readsE [OF a see stops_sym(3)] .
  obtain p2 where p2: "peek s p1 '';'' = (True, p2)" "sees s p2 (SEMI # shown 0 b @ ts)" using peek_run [OF z x(3) symb_toks(4)] by (auto simp: chars_def)
  obtain q e p3 where p3: "gettoken s p2 = (59, q, e, p3)" "sees s p3 (shown 0 b @ ts)" using gettoken_sym [OF z p2(2)] by blast
  obtain n2 d p4 where y: "\<forall>n\<ge>n2. parser 0 n s p3 = Parsed (d, p4)" "text_of s d = b" "sees s p4 ts" using readsE [OF b p3(2) st] .
  have "parser 0 (Suc n) s p = Parsed (LIST c d, p4)" if "n \<ge> max n1 n2" for n
    using x(1) y(1) p2(1) p3(1) that parseline_parser1 [of n s p] by (simp add: parser_def [of 0] listcmd_def)
  then show "\<exists>n0 c p'. (\<forall>n\<ge>n0. parser 0 n s p = Parsed (c, p')) \<and> text_of s c = TList a b \<and> sees s p' ts"
    using Suc_bound [of "max n1 n2" "\<lambda>n. parser 0 n s p"] x(2) y(2,3) by (metis text_of.simps(4))
qed

definition twrap :: "tree \<Rightarrow> (cstring \<times> int \<times> int) list \<Rightarrow> tree" where
  "twrap t rl = foldl (\<lambda>t (f, mode, fd). TRedir t f mode fd) t rl"

lemma text_of_wrap: "text_of s (wrap c rs) = twrap (text_of s c) (map (redir_text s) rs)"
  by (induction rs arbitrary: c) (auto simp: wrap_def twrap_def redircmd_def redir_text_def)

lemma shown_twrap: "rl \<noteq> [] \<or> k = 3 \<Longrightarrow> shown k (twrap t rl) = shown 3 t @ concat (map redir_toks rl)"
proof (induction rl arbitrary: k rule: rev_induct)
  case (snoc r rl)
  obtain f mode fd where r: "r = (f, mode, fd)" by (cases r)
  have "twrap t (rl @ [r]) = TRedir (twrap t rl) f mode fd" by (simp add: twrap_def r)
  then show ?case using snoc.IH [of 3] by (simp add: r)
qed (simp add: twrap_def)

lemma reads_exec:
  assumes z: "0 \<notin> set s" and ws: "length ws < MAXARGS" and rl: "list_all redir_fine rl"
  shows "reads 3 s (twrap (TExec ws) rl)"
proof (rule readsI)
  fix p ts assume "sees s p (shown 3 (twrap (TExec ws) rl) @ ts)" and st: "stops 3 ts"
  then have see: "sees s p (map Word ws @ concat (map redir_toks rl) @ ts)" by (simp add: shown_twrap)
  define r0 where "r0 = (if ws = [] then rl else [])"
  define r1 where "r1 = (if ws = [] then [] else rl)"
  let ?us = "map Word ws @ concat (map redir_toks r1) @ ts"
  have see0: "sees s p (concat (map redir_toks r0) @ ?us)" using see by (cases ws) (simp_all add: r0_def r1_def)
  have "\<not> hit ''('' (concat (map redir_toks r0) @ ?us)" "\<not> hit ''<>'' ?us"
    using stops_hit(5,6) [OF st] by (cases ws; cases rl; simp add: r0_def r1_def redir_toks_def chars_def split: prod.splits)+
  then obtain p1 where p1: "peek s p ''('' = (False, p1)" "sees s p1 (concat (map redir_toks r0) @ ?us)"
    using peek_run [OF z see0 symb_toks(6)] by auto
  have fine: "list_all redir_fine r0" "list_all redir_fine r1" using rl by (simp_all add: r0_def r1_def)
  obtain rs p2 where p2: "parseredirs_loop s p1 = Parsed (rs, p2)" "map (redir_text s) rs = r0" "sees s p2 ?us"
    using parseredirs_loop_run [OF z p1(2) \<open>\<not> hit ''<>'' ?us\<close> fine(1)] by blast
  obtain av rs' p3 where p3: "parseexec_loop s p2 [] rs = Parsed (av, rs @ rs', p3)" "map (tok_text s) av = ws"
      "map (redir_text s) rs' = r1" "sees s p3 ts"
    using parseexec_loop_run [OF z p2(3) stops_hit(4) [OF st] fine(2), of "[]" rs] ws by (auto simp: r1_def)
  have "text_of s (wrap (EXEC av) (rs @ rs')) = twrap (TExec ws) rl"
    unfolding text_of_wrap using p2(2) p3(2,3) by (simp add: r0_def r1_def)
  moreover have "parser 3 (Suc n) s p = Parsed (wrap (EXEC av) (rs @ rs'), p3)" for n
    using p1 p2 p3 by (simp add: parser_def)
  ultimately show "\<exists>n0 c p'. (\<forall>n\<ge>n0. parser 3 n s p = Parsed (c, p')) \<and> text_of s c = twrap (TExec ws) rl \<and> sees s p' ts"
    using Suc_bound [of 0 "\<lambda>n. parser 3 n s p"] p3(4) by blast
qed

lemma reads_block:
  assumes z: "0 \<notin> set s" and t: "reads 0 s t" and sh: "shown 3 t = PAR_L # shown 0 t @ [PAR_R]" and rl: "list_all redir_fine rl"
  shows "reads 3 s (twrap t rl)"
proof (rule readsI)
  fix p ts assume "sees s p (shown 3 (twrap t rl) @ ts)" and st: "stops 3 ts"
  then have see: "sees s p (PAR_L # shown 0 t @ PAR_R # concat (map redir_toks rl) @ ts)" by (simp add: shown_twrap sh)
  let ?us = "concat (map redir_toks rl) @ ts"
  obtain p1 where p1: "peek s p ''('' = (True, p1)" "sees s p1 (PAR_L # shown 0 t @ PAR_R # ?us)" using peek_run [OF z see symb_toks(6)] by (auto simp: chars_def)
  obtain p2 where p2: "peek s p1 ''('' = (True, p2)" "sees s p2 (PAR_L # shown 0 t @ PAR_R # ?us)" using peek_run [OF z p1(2) symb_toks(6)] by (auto simp: chars_def)
  obtain q e p3 where p3: "gettoken s p2 = (40, q, e, p3)" "sees s p3 (shown 0 t @ PAR_R # ?us)" using gettoken_sym [OF z p2(2)] by blast
  obtain n0 c p4 where x: "\<forall>n\<ge>n0. parser 0 n s p3 = Parsed (c, p4)" "text_of s c = t" "sees s p4 (PAR_R # ?us)"
    using readsE [OF t p3(2) stops_sym(4)] .
  obtain p5 where p5: "peek s p4 '')'' = (True, p5)" "sees s p5 (PAR_R # ?us)" using peek_run [OF z x(3) symb_toks(7)] by (auto simp: chars_def)
  obtain q' e' p6 where p6: "gettoken s p5 = (41, q', e', p6)" "sees s p6 ?us" using gettoken_sym [OF z p5(2)] by blast
  obtain rs p7 where p7: "parseredirs_loop s p6 = Parsed (rs, p7)" "map (redir_text s) rs = rl" "sees s p7 ts"
    using parseredirs_loop_run [OF z p6(2) stops_hit(5) [OF st] rl] by blast
  have "parser 3 (Suc (Suc n)) s p = Parsed (wrap c rs, p7)" if "n \<ge> n0" for n
    using x(1) p1 p2 p3 p5 p6 p7 that by (simp add: parser_def parseredirs_def)
  then have "\<forall>n\<ge>Suc (Suc n0). parser 3 n s p = Parsed (wrap c rs, p7)"
    by (intro Suc_bound [of "Suc n0" "\<lambda>n. parser 3 n s p"]) (metis Suc_le_D Suc_le_mono)
  moreover have "text_of s (wrap c rs) = twrap t rl" by (simp add: text_of_wrap x(2) p7(2))
  ultimately show "\<exists>n0 c p'. (\<forall>n\<ge>n0. parser 3 n s p = Parsed (c, p')) \<and> text_of s c = twrap t rl \<and> sees s p' ts" using p7(3) by blast
qed

section \<open>Reading back printed commands\<close>

fun spine :: "tree \<Rightarrow> tree \<times> (cstring \<times> int \<times> int) list" where
  "spine (TRedir t f mode fd) = (fst (spine t), snd (spine t) @ [(f, mode, fd)])"
| "spine t = (t, [])"

lemma spine_twrap: "twrap (fst (spine t)) (snd (spine t)) = t"
  by (induction t rule: spine.induct) (auto simp: twrap_def)

lemma spine_wf: "wf_tree t \<Longrightarrow> wf_tree (fst (spine t)) \<and> list_all redir_fine (snd (spine t))"
  by (induction t rule: spine.induct) (auto simp: redir_fine_def)

lemma spine_base: "\<not> (\<exists>u f m d. fst (spine t) = TRedir u f m d)"
  by (induction t rule: spine.induct) auto

lemma spine_size: "size (fst (spine t)) \<le> size t"
  by (induction t rule: spine.induct) auto

definition all_reads :: "uchar list \<Rightarrow> tree \<Rightarrow> bool" where
  "all_reads s t \<longleftrightarrow> reads 0 s t \<and> reads 1 s t \<and> reads 2 s t \<and> reads 3 s t"

lemma lower_reads:
  assumes z: "0 \<notin> set s" and r: "reads 3 s t" and sh: "shown 2 t = shown 3 t" "shown 1 t = shown 2 t" "shown 0 t = shown 1 t"
  shows "all_reads s t"
proof -
  have r2: "reads 2 s t" by (rule reads_3_2 [OF z r sh(1)])
  have r1: "reads 1 s t" using reads_2_1 [OF z r2 sh(2), of 0] by simp
  show ?thesis using r r2 r1 reads_1_0 [OF z r1 sh(3)] by (simp add: all_reads_def)
qed

text \<open>A chain of background marks.\<close>

lemma back_chain: "\<exists>j v. t = (TBack ^^ j) v \<and> \<not> (\<exists>u. v = TBack u)"
proof (induction t)
  case (TBack t)
  then obtain j v where "t = (TBack ^^ j) v" "\<not> (\<exists>u. v = TBack u)" by blast
  then show ?case by (intro exI [of _ "Suc j"] exI [of _ v]) simp
qed (rule exI [of _ 0], simp)+

lemma size_back: "size ((TBack ^^ j) v) = j + size v"
  by (induction j) simp_all

lemma wf_back: "wf_tree ((TBack ^^ j) v) = wf_tree v"
  by (induction j) simp_all

text \<open>Lists, pipelines and background commands, given their parts.\<close>

lemma reads_parts:
  assumes z: "0 \<notin> set s" and wf: "wf_tree t" and ih: "\<And>u. size u < size t \<Longrightarrow> wf_tree u \<Longrightarrow> all_reads s u"
    and t: "\<not> (\<exists>ws. t = TExec ws)" "\<not> (\<exists>u f m d. t = TRedir u f m d)"
  shows "all_reads s t" "shown 3 t = PAR_L # shown 0 t @ [PAR_R]"
proof -
  have block: "reads 3 s t" if "reads 0 s t" "shown 3 t = PAR_L # shown 0 t @ [PAR_R]" using reads_block [OF z that, of "[]"] by (simp add: twrap_def)
  show "all_reads s t"
  proof (cases t)
    case (TPipe a b)
    then have r2: "reads 2 s t" using ih [of a] ih [of b] wf reads_pipe [OF z] by (simp add: all_reads_def)
    then have r1: "reads 1 s t" using reads_2_1 [OF z r2, of 0] TPipe by (simp add: paren_def)
    then have r0: "reads 0 s t" using reads_1_0 [OF z r1] TPipe by (simp add: paren_def)
    then show ?thesis using r1 r2 block TPipe by (simp add: all_reads_def paren_def)
  next
    case (TList a b)
    then have r0: "reads 0 s t" using ih [of a] ih [of b] wf reads_list [OF z] by (simp add: all_reads_def)
    then have r3: "reads 3 s t" using block TList by (simp add: paren_def)
    then have r2: "reads 2 s t" using reads_3_2 [OF z] TList by (simp add: paren_def)
    then have r1: "reads 1 s t" using reads_2_1 [OF z r2, of 0] TList by (simp add: paren_def)
    then show ?thesis using r0 r2 r3 by (simp add: all_reads_def)
  next
    case (TBack u)
    obtain j v where v: "u = (TBack ^^ j) v" "\<not> (\<exists>u. v = TBack u)" using back_chain by blast
    have "size v < size t" "wf_tree v" using TBack wf v by (simp_all add: size_back wf_back)
    then have v2: "reads 2 s v" using ih by (simp add: all_reads_def)
    have "shown 1 v = shown 2 v" using v(2) by (cases v) (auto simp: paren_def)
    from reads_2_1 [OF z v2 this, of "Suc j"] have r1: "reads 1 s t" using TBack v by simp
    then have r0: "reads 0 s t" using reads_1_0 [OF z r1] TBack by (simp add: paren_def)
    then have r3: "reads 3 s t" using block TBack by (simp add: paren_def)
    then have r2: "reads 2 s t" using reads_3_2 [OF z] TBack by (simp add: paren_def)
    then show ?thesis using r0 r1 r3 by (simp add: all_reads_def)
  qed (use t in auto)
  show "shown 3 t = PAR_L # shown 0 t @ [PAR_R]" using t by (cases t) (auto simp: paren_def)
qed

lemma reads_all:
  assumes z: "0 \<notin> set s"
  shows "wf_tree t \<Longrightarrow> all_reads s t"
proof (induction t rule: measure_induct_rule [of size])
  case (less t)
  define b rl where "b = fst (spine t)" and "rl = snd (spine t)"
  have t: "t = twrap b rl" and wf: "wf_tree b" "list_all redir_fine rl" and sz: "size b \<le> size t"
    and nr: "\<not> (\<exists>u f m d. b = TRedir u f m d)"
    using spine_twrap [of t] spine_wf [OF less.prems] spine_size [of t] spine_base [of t] by (simp_all add: b_def rl_def)
  have ih: "\<And>u. size u < size b \<Longrightarrow> wf_tree u \<Longrightarrow> all_reads s u" using less.IH sz by simp
  have same: "shown 2 t = shown 3 t" "shown 1 t = shown 2 t" "shown 0 t = shown 1 t" if "rl \<noteq> []"
    using that by (simp_all add: t shown_twrap)
  show ?case
  proof (cases "\<exists>ws. b = TExec ws")
    case True
    then obtain ws where ws: "b = TExec ws" ..
    have "reads 3 s t" unfolding t ws using wf ws by (intro reads_exec [OF z]) auto
    then show ?thesis using same by (cases "rl = []") (auto intro!: lower_reads [OF z] simp: t ws twrap_def)
  next
    case False
    note p = reads_parts [OF z wf(1) ih False nr]
    show ?thesis
    proof (cases "rl = []")
      case True
      then show ?thesis using p(1) t by (simp add: twrap_def)
    next
      case False
      have "reads 3 s t" unfolding t using p wf(2) by (intro reads_block [OF z]) (auto simp: all_reads_def)
      then show ?thesis using same [OF False] by (intro lower_reads [OF z])
    qed
  qed
qed

section \<open>Fuel\<close>

lemma pbind_fuel: "(r \<noteq> NoFuel \<Longrightarrow> r' = r) \<Longrightarrow> (\<And>a. r = Parsed a \<Longrightarrow> f a \<noteq> NoFuel \<Longrightarrow> f' a = f a) \<Longrightarrow> pbind r f \<noteq> NoFuel \<Longrightarrow> pbind r' f' = pbind r f"
  by (cases r) auto

lemma line_fuel:
  assumes "\<And>p. parsepipe n s p \<noteq> NoFuel \<Longrightarrow> parsepipe k s p = parsepipe n s p"
    "\<And>p. parseline n s p \<noteq> NoFuel \<Longrightarrow> parseline k s p = parseline n s p" "parseline (Suc n) s p \<noteq> NoFuel"
  shows "parseline (Suc k) s p = parseline (Suc n) s p"
  using assms(3) unfolding parseline.simps
proof (rule pbind_fuel [OF assms(1), rotated 2])
  let ?F = "\<lambda>n (cmd, ps). let (cmd, ps) = back_loop s cmd ps; (b, ps) = peek s ps '';'' in
     if b then (let (_, _, _, ps) = gettoken s ps in pbind (parseline n s ps) (\<lambda>(right, ps). Parsed (listcmd cmd right, ps)))
     else Parsed (cmd, ps)"
  fix a assume f: "?F n a \<noteq> NoFuel"
  obtain c p0 where a: "a = (c, p0)" by (cases a)
  obtain c1 p1 where bl: "back_loop s c p0 = (c1, p1)" by fastforce
  obtain b p2 where pk: "peek s p1 '';'' = (b, p2)" by fastforce
  obtain t q e p3 where g: "gettoken s p2 = (t, q, e, p3)" by (metis prod_cases4)
  show "?F k a = ?F n a" using f by (cases b) (auto simp: a bl pk g intro!: pbind_fuel [OF assms(2)])
qed

lemma pipe_fuel:
  assumes "\<And>p. parseexec n s p \<noteq> NoFuel \<Longrightarrow> parseexec k s p = parseexec n s p"
    "\<And>p. parsepipe n s p \<noteq> NoFuel \<Longrightarrow> parsepipe k s p = parsepipe n s p" "parsepipe (Suc n) s p \<noteq> NoFuel"
  shows "parsepipe (Suc k) s p = parsepipe (Suc n) s p"
  using assms(3) unfolding parsepipe.simps
proof (rule pbind_fuel [OF assms(1), rotated 2])
  let ?F = "\<lambda>n (cmd, ps). let (b, ps) = peek s ps ''|'' in
     if b then (let (_, _, _, ps) = gettoken s ps in pbind (parsepipe n s ps) (\<lambda>(right, ps). Parsed (pipecmd cmd right, ps)))
     else Parsed (cmd, ps)"
  fix a assume f: "?F n a \<noteq> NoFuel"
  obtain c p1 where a: "a = (c, p1)" by (cases a)
  obtain b p2 where pk: "peek s p1 ''|'' = (b, p2)" by fastforce
  obtain t q e p3 where g: "gettoken s p2 = (t, q, e, p3)" by (metis prod_cases4)
  show "?F k a = ?F n a" using f by (cases b) (auto simp: a pk g intro!: pbind_fuel [OF assms(2)])
qed

lemma exec_fuel:
  assumes "\<And>p. parseblock n s p \<noteq> NoFuel \<Longrightarrow> parseblock k s p = parseblock n s p" "parseexec (Suc n) s p \<noteq> NoFuel"
  shows "parseexec (Suc k) s p = parseexec (Suc n) s p"
proof -
  obtain b p1 where "peek s p ''('' = (b, p1)" by fastforce
  then show ?thesis using assms by (cases b) simp_all
qed

lemma block_fuel:
  assumes "\<And>p. parseline n s p \<noteq> NoFuel \<Longrightarrow> parseline k s p = parseline n s p" "parseblock (Suc n) s p \<noteq> NoFuel"
  shows "parseblock (Suc k) s p = parseblock (Suc n) s p"
proof -
  obtain b p1 where pk: "peek s p ''('' = (b, p1)" by fastforce
  obtain t q e p2 where g: "gettoken s p1 = (t, q, e, p2)" by (metis prod_cases4)
  show ?thesis using assms(2) by (cases b) (auto simp: pk g intro!: pbind_fuel [OF assms(1)])
qed

lemma fuel_mono:
  "parseline n s p \<noteq> NoFuel \<Longrightarrow> n \<le> m \<Longrightarrow> parseline m s p = parseline n s p"
  "parsepipe n s p \<noteq> NoFuel \<Longrightarrow> n \<le> m \<Longrightarrow> parsepipe m s p = parsepipe n s p"
  "parseexec n s p \<noteq> NoFuel \<Longrightarrow> n \<le> m \<Longrightarrow> parseexec m s p = parseexec n s p"
  "parseblock n s p \<noteq> NoFuel \<Longrightarrow> n \<le> m \<Longrightarrow> parseblock m s p = parseblock n s p"
proof (induction n arbitrary: p m)
  case (Suc n)
  {
    case 1
    then obtain k where k: "m = Suc k" "n \<le> k" using Suc_le_D by auto
    show ?case unfolding k(1) by (rule line_fuel [OF Suc.IH(2) [OF _ k(2)] Suc.IH(1) [OF _ k(2)] 1(1)])
  next
    case 2
    then obtain k where k: "m = Suc k" "n \<le> k" using Suc_le_D by auto
    show ?case unfolding k(1) by (rule pipe_fuel [OF Suc.IH(3) [OF _ k(2)] Suc.IH(2) [OF _ k(2)] 2(1)])
  next
    case 3
    then obtain k where k: "m = Suc k" "n \<le> k" using Suc_le_D by auto
    show ?case unfolding k(1) by (rule exec_fuel [OF Suc.IH(4) [OF _ k(2)] 3(1)])
  next
    case 4
    then obtain k where k: "m = Suc k" "n \<le> k" using Suc_le_D by auto
    show ?case unfolding k(1) by (rule block_fuel [OF Suc.IH(1) [OF _ k(2)] 4(1)])
  }
qed simp_all

lemma tokens_Nil [simp]: "tokens [] = []"
  by (subst tokens.simps) simp

lemma tokens_length: "length (tokens s) \<le> length s"
proof (induction s rule: tokens.induct)
  case (1 s)
  show ?case
  proof (cases "dropWhile wsb s")
    case Nil
    show ?thesis by (subst tokens.simps) (simp only: Nil list.case list.size le0)
  next
    case (Cons c r)
    have "length (c # r) \<le> length s" unfolding Cons [symmetric] by (rule length_dropWhile_le)
    moreover have "length (dropWhile wordb r) \<le> length r" by (rule length_dropWhile_le)
    ultimately show ?thesis using 1 [OF Cons] Cons by (subst tokens.simps) (auto intro: le_trans)
  qed
qed

lemma left_start: "left s (length s) 0"
  using tokens_length [of s] by (auto simp: left_def sees_def)

lemma parseline_enough: "0 \<notin> set s \<Longrightarrow> pok (cmd_left s (length s)) (parseline (parse_fuel s) s 0)"
  using parse_ok(1) [of s "length s" 0 "parse_fuel s"] left_start by (simp add: parse_fuel_def)

section \<open>Printing tokens as bytes\<close>

primrec tok_bytes :: "tok \<Rightarrow> uchar list" where
  "tok_bytes (Sym c) = (if c = APPEND then [GT, GT] else [c])"
| "tok_bytes (Word w) = w"

definition untok :: "tok list \<Rightarrow> uchar list" where
  "untok ts = concat (map (\<lambda>t. tok_bytes t @ [32]) ts)"

primrec tok_fine :: "tok \<Rightarrow> bool" where
  "tok_fine (Sym c) \<longleftrightarrow> symb c \<or> c = APPEND"
| "tok_fine (Word w) \<longleftrightarrow> word w"

lemma wsb_space [simp]: "wsb 32" "\<not> wordb 32" "\<not> wsb GT"
  by (simp_all add: wsb_def wordb_def whitespace_def)

lemma symb_not_ws: "symb c \<Longrightarrow> \<not> wsb c"
  by (auto simp: symb_def symbols_def wsb_def whitespace_def chars_def)

lemma tokens_skip: "tokens (32 # u) = tokens u"
  by (subst (1 2) tokens.simps) simp

lemma tokens_tok: "tok_fine t \<Longrightarrow> tokens (tok_bytes t @ 32 # u) = t # tokens u"
proof (cases t)
  case (Sym c)
  assume "tok_fine t"
  then show ?thesis using Sym symb_not_ws [of c] by (subst tokens.simps) (auto simp: tokens_skip)
next
  case (Word w)
  assume "tok_fine t"
  then have w: "w \<noteq> []" "list_all wordb w" using Word by (auto simp: word_def)
  then obtain c r where cr: "w = c # r" by (cases w) auto
  have c: "\<not> wsb c" "\<not> symb c" "c \<noteq> GT" using w cr by (auto simp: wordb_def symb_alt)
  have "list_all wordb r" using w cr by simp
  then have "takeWhile wordb (r @ 32 # u) = r" "dropWhile wordb (r @ 32 # u) = 32 # u"
    by (induction r) auto
  then show ?thesis using Word cr c by (subst tokens.simps) (auto simp: tokens_skip)
qed

lemma tokens_untok: "list_all tok_fine ts \<Longrightarrow> tokens (untok ts @ u) = ts @ tokens u"
  by (induction ts) (auto simp: untok_def tokens_tok)

lemma shown_fine: "wf_tree t \<Longrightarrow> list_all tok_fine (shown k t)"
  by (induction t arbitrary: k)
    (auto simp: paren_def redir_toks_def list_all_iff symb_def symbols_def chars_def)

lemma untok_nonzero: "list_all tok_fine ts \<Longrightarrow> 0 \<notin> set (untok ts)"
proof (induction ts)
  case (Cons t ts)
  then have "0 \<notin> set (tok_bytes t)" by (cases t) (auto simp: word_def list_all_iff wordb_def dest: symb_no_letter)
  then show ?case using Cons by (simp add: untok_def)
qed (simp add: untok_def)

section \<open>Properties\<close>

lemma says_fprintf: "CHR 0x00 \<notin> set fmt \<Longrightarrow> render_u fmt as = Some bs \<Longrightarrow> says fd bs () (fprintf_u fd fmt as)"
  unfolding fprintf_u_def vprintf_u_def by (rule says_vprintf_loop)

lemma panic_u_spec: "uspec (panic_u m) (\<lambda>_ _. False) (\<lambda>n tr. n = 1) (\<lambda>_ _. True)"
proof -
  have "says 2 (takeWhile (\<lambda>c. c \<noteq> 0) (chars m) @ [10]) () (fprintf_u 2 (''%s'' @ [CHR 0x0A]) [ArgStr (Some (chars m))])"
    by (rule says_fprintf) (simp_all add: num_dir_def num_dirs_def)
  then show ?thesis unfolding panic_u_def
    by (intro uspec_kbind [OF says_uspec [where Q = "\<lambda>_ _. True"]] uspec_exit) auto
qed

lemma end_of_line: "sees s p [] \<Longrightarrow> skip_ws s p = length s"
proof -
  assume "sees s p []"
  then have p: "p \<le> length s" and t: "tokens (drop p s) = []" by (auto simp: sees_def)
  have "dropWhile wsb (drop p s) = []"
  proof (rule ccontr)
    assume "dropWhile wsb (drop p s) \<noteq> []"
    then obtain c r where "dropWhile wsb (drop p s) = c # r" by (cases "dropWhile wsb (drop p s)") auto
    then show False using t by (subst (asm) tokens.simps) (simp split: if_splits)
  qed
  then have "drop (skip_ws s p) s = []" "skip_ws s p \<le> length s" using skip_ws_drop [OF p] by metis+
  then show ?thesis by simp
qed

text \<open>
  C34: The parser is total and its results are well formed.  On every line \<open>parsecmd\<close> either returns without a
  system call (those of the allocator, which is not modelled, apart), or prints a message and exits with status 1.  In the command it returns, as \<open>runcmd\<close>
  reads it from the NUL-terminated buffer, every \<open>argv\<close> leaves room for its terminating 0, every argument and file
  name is a word without white space or symbols, and every redirection has one of the three modes.
\<close>

theorem parsecmd_well_formed:
  "uspec (parsecmd buf :: (cmd \<times> uchar list, 'a ustate_scheme) K) (\<lambda>(c, b) tr. tr = [] \<and> wf_tree (tree_of b c)) (\<lambda>n tr. n = 1) (\<lambda>_ _. True)"
proof -
  define s where "s = takeWhile (\<lambda>c. c \<noteq> 0) buf"
  have z: "0 \<notin> set s" by (auto simp: s_def dest: set_takeWhileD)
  let ?Q = "\<lambda>(c, b) tr. tr = [] \<and> wf_tree (tree_of b c)"
  show ?thesis
  proof (cases "parseline (parse_fuel s) s 0")
    case (Parsed a)
    obtain c p where a: "a = (c, p)" by (cases a)
    have g: "good_cmd s c" using parseline_enough [OF z] Parsed a by simp
    obtain b p' where pk: "peek s p [] = (b, p')" by fastforce
    let ?l = "fprintf_u 2 (''leftovers: %s'' @ [CHR 0x0A]) [ArgStr (Some (drop p' s))] :: (unit, 'a ustate_scheme) K"
    have "says 2 (chars ''leftovers: '' @ takeWhile (\<lambda>c. c \<noteq> 0) (drop p' s) @ [10]) () ?l"
      by (rule says_fprintf) (simp_all add: num_dir_def num_dirs_def chars_def)
    then have "uspec (kbind ?l (\<lambda>_. panic_u ''syntax'') :: (cmd \<times> uchar list, 'a ustate_scheme) K) ?Q (\<lambda>n tr. n = 1) (\<lambda>_ _. True)"
      by (intro uspec_kbind [OF says_uspec [where Q = "\<lambda>_ _. True"]] uspec_mono [OF panic_u_spec]) auto
    moreover have "uspec (kret (c, nulterminate c s) :: (cmd \<times> uchar list, 'a ustate_scheme) K) ?Q (\<lambda>n tr. n = 1) (\<lambda>_ _. True)"
      using good_wf [OF g] nulterminate_tree [OF g] by (intro uspec_kret) simp
    ultimately show ?thesis unfolding parsecmd_def Let_def s_def [symmetric] using Parsed a pk by simp
  next
    case (Bad m)
    have "uspec (panic_u m :: (cmd \<times> uchar list, 'a ustate_scheme) K) ?Q (\<lambda>n tr. n = 1) (\<lambda>_ _. True)" by (rule uspec_mono [OF panic_u_spec]) auto
    then show ?thesis unfolding parsecmd_def Let_def s_def [symmetric] using Bad by simp
  next
    case NoFuel
    then show ?thesis using parseline_enough [OF z] by simp
  qed
qed

text \<open>
  C35: The parser reads back every command: for each command tree, printed with parentheses where they are needed,
  \<open>parsecmd\<close> returns, without a system call (those of the allocator, which is not modelled, apart), a command whose strings in the buffer are exactly those of
  the tree, with the nesting of lists, pipelines, background commands, blocks and redirections.
\<close>

theorem parsecmd_reads_back:
  assumes "wf_tree t"
  shows "\<exists>c b. parsecmd (untok (shown 0 t) @ [10]) s e = (Ret (c, b), s, e) \<and> tree_of b c = t"
proof -
  let ?l = "untok (shown 0 t) @ [10 :: uchar]"
  have z: "0 \<notin> set ?l" using untok_nonzero [OF shown_fine [OF assms]] by simp
  then have w: "takeWhile (\<lambda>c. c \<noteq> 0) ?l = ?l" by (auto simp: takeWhile_eq_all_conv)
  have "tokens [10] = []" by (subst tokens.simps) (simp add: wsb_def whitespace_def)
  then have see: "sees ?l 0 (shown 0 t @ [])" using tokens_untok [OF shown_fine [OF assms], of 0 "[10]"] by (simp add: sees_def)
  have "reads 0 ?l t" using reads_all [OF z assms] by (simp add: all_reads_def)
  from readsE [OF this see] obtain n0 c p where
    r: "\<forall>n\<ge>n0. parser 0 n ?l 0 = Parsed (c, p)" "text_of ?l c = t" "sees ?l p []" by (auto simp: stops_def)
  have enough: "pok (cmd_left ?l (length ?l)) (parseline (parse_fuel ?l) ?l 0)" by (rule parseline_enough [OF z])
  then have "parseline (max n0 (parse_fuel ?l)) ?l 0 = parseline (parse_fuel ?l) ?l 0"
    by (intro fuel_mono(1)) (auto simp: pok_def split: parse.splits)
  then have pl: "parseline (parse_fuel ?l) ?l 0 = Parsed (c, p)" using r(1) by (simp add: parser_def)
  have g: "good_cmd ?l c" using enough pl by simp
  have "peek ?l p [] = (False, length ?l)" using end_of_line [OF r(3)] by (simp add: peek_def rd_def chars_def)
  then have "parsecmd ?l s e = (Ret (c, nulterminate c ?l), s, e)" unfolding parsecmd_def Let_def w using pl by (simp add: kret_run)
  then show ?thesis using nulterminate_tree [OF g] r(2) by (intro exI [of _ c] exI [of _ "nulterminate c ?l"]) simp
qed

lemma parsecmd_reads_back_witness:
  "let t = TList (TBack (TPipe (TExec [chars ''ls'', chars ''-l'']) (TRedir (TExec [chars ''wc'']) (chars ''out'') 0x601 1))) (TExec [chars ''echo'']) in
    untok (shown 0 t) @ [10] = chars ''ls -l | wc > out & ; echo '' @ [10] \<and>
    (\<exists>c b. parsecmd (untok (shown 0 t) @ [10]) \<lparr>ucalls = [], ureplies = []\<rparr> [] = (Ret (c, b), \<lparr>ucalls = [], ureplies = []\<rparr>, []) \<and> tree_of b c = t)"
proof -
  define t where "t = TList (TBack (TPipe (TExec [chars ''ls'', chars ''-l'']) (TRedir (TExec [chars ''wc'']) (chars ''out'') 0x601 1))) (TExec [chars ''echo''])"
  have "wf_tree t" by (simp add: t_def word_def wordb_def wsb_def symb_def whitespace_def symbols_def chars_def)
  from parsecmd_reads_back [OF this, of "\<lparr>ucalls = [], ureplies = []\<rparr>" "[]"]
  show ?thesis unfolding Let_def t_def [symmetric] by (simp add: t_def untok_def paren_def redir_toks_def chars_def)
qed

section \<open>Running commands\<close>

definition execs :: "ucall list \<Rightarrow> (cstring \<times> cstring list) list" where
  "execs cs = concat (map (\<lambda>c. case c of UExec p av \<Rightarrow> [(p, av)] | _ \<Rightarrow> []) cs)"

lemma execs_simps [simp]: "execs [] = []" "execs (c # cs) = (case c of UExec p av \<Rightarrow> [(p, av)] | _ \<Rightarrow> []) @ execs cs"
    "execs (cs @ ds) = execs cs @ execs ds"
  by (simp_all add: execs_def)

lemma execs_wcalls [simp]: "execs (wcalls fd bs) = []"
  by (induction bs) simp_all

lemma execs_prefix: "prefix cs ds \<Longrightarrow> execs ds = [] \<Longrightarrow> execs cs = []"
  by (auto simp: prefix_def)

text \<open>The simple commands of a tree.\<close>

primrec simples :: "tree \<Rightarrow> cstring list set" where
  "simples (TExec ws) = {ws}"
| "simples (TRedir t f mode fd) = simples t"
| "simples (TPipe l r) = simples l \<union> simples r"
| "simples (TList l r) = simples l \<union> simples r"
| "simples (TBack t) = simples t"

definition one_exec :: "cstring list set \<Rightarrow> ucall list \<Rightarrow> bool" where
  "one_exec S cs \<longleftrightarrow> execs cs = [] \<or> (\<exists>ws\<in>S. ws \<noteq> [] \<and> execs cs = [(hd ws, ws)])"

lemma one_exec_skip [simp]: "execs cs = [] \<Longrightarrow> one_exec S (cs @ ds) = one_exec S ds" "execs [c] = [] \<Longrightarrow> one_exec S (c # ds) = one_exec S ds"
  by (simp_all add: one_exec_def)

lemma one_exec_mono: "one_exec S cs \<Longrightarrow> S \<subseteq> T \<Longrightarrow> one_exec T cs"
  by (auto simp: one_exec_def)

definition runs :: "cstring list set \<Rightarrow> ('r, 'a ustate_scheme) K \<Rightarrow> bool" where
  "runs S f \<longleftrightarrow> uspec f (\<lambda>_ _. False) (\<lambda>n tr. one_exec S (calls tr)) (\<lambda>tr c. one_exec S (calls tr @ [c]))"

lemma runs_mono: "runs S f \<Longrightarrow> S \<subseteq> T \<Longrightarrow> runs T f"
  unfolding runs_def by (erule uspec_mono) (auto intro: one_exec_mono)

lemma runs_exit: "runs S (exit_u n)"
  unfolding runs_def by (rule uspec_exit) (simp add: one_exec_def)

text \<open>A computation without \<open>exec\<close> before the rest.\<close>

lemma runs_kbind:
  assumes "uspec f (\<lambda>a tr. execs (calls tr) = []) (\<lambda>n tr. execs (calls tr) = []) (\<lambda>tr c. execs (calls tr @ [c]) = [])" "\<And>a. runs S (g a)"
  shows "runs S (kbind f g)"
  unfolding runs_def
proof (rule uspec_kbind [OF uspec_mono [OF assms(1)]])
  fix a tr assume e: "execs (calls tr) = []"
  show "uspec (g a) (\<lambda>b tr'. False) (\<lambda>n tr'. one_exec S (calls (tr @ tr'))) (\<lambda>tr' c. one_exec S (calls (tr @ tr') @ [c]))"
    using assms(2) [of a] e unfolding runs_def by simp
qed (auto simp: one_exec_def)

text \<open>A part of a run that has not returned is the end of it.\<close>

lemma runs_end: "runs S f \<Longrightarrow> runs S (kbind f g)"
  unfolding runs_def by (erule uspec_kbind) simp

lemma calm_usys: "execs [c] = [] \<Longrightarrow> uspec (usys c) (\<lambda>a tr. execs (calls tr) = []) (\<lambda>n tr. execs (calls tr) = []) (\<lambda>tr c. execs (calls tr @ [c]) = [])"
  by (rule uspec_usys) simp_all

lemma calm_ecall: "execs [c] = [] \<Longrightarrow> uspec (ecall c) (\<lambda>a tr. execs (calls tr) = []) (\<lambda>n tr. execs (calls tr) = []) (\<lambda>tr c. execs (calls tr @ [c]) = [])"
  by (rule uspec_ecall) simp_all

lemma calm_says: "says fd bs r f \<Longrightarrow> uspec f (\<lambda>a tr. execs (calls tr) = []) (\<lambda>n tr. execs (calls tr) = []) (\<lambda>tr c. execs (calls tr @ [c]) = [])"
  by (rule says_uspec) (auto dest: execs_prefix)

lemma calm_kret: "uspec (kret a) (\<lambda>a tr. execs (calls tr) = []) (\<lambda>n tr. execs (calls tr) = []) (\<lambda>tr c. execs (calls tr @ [c]) = [])"
  by (rule uspec_kret) simp

lemma says_panic: "says 2 (takeWhile (\<lambda>c. c \<noteq> 0) (chars m) @ [10]) () (fprintf_u 2 (''%s'' @ [CHR 0x0A]) [ArgStr (Some (chars m))])"
  by (rule says_fprintf) (simp_all add: num_dir_def num_dirs_def)

lemma runs_panic: "runs S (panic_u m)"
  unfolding panic_u_def by (intro runs_kbind [OF calm_says [OF says_panic]] runs_exit)

lemma runs_fork1: "(\<And>pid. runs S (g pid)) \<Longrightarrow> runs S (kbind fork1 g)"
  unfolding fork1_def kbind_assoc
  by (rule runs_kbind [OF calm_usys]) (auto intro: runs_end [OF runs_panic])

lemma runs_child: "runs S f \<Longrightarrow> runs S g \<Longrightarrow> runs S (kbind (if b then f else kret ()) (\<lambda>_. g))"
  by (simp add: runs_end)

lemma runs_fprintf_exit:
  assumes "CHR 0x00 \<notin> set fmt" "render_u fmt as = Some bs"
  shows "runs S (kbind (fprintf_u fd fmt as) (\<lambda>_. exit_u n))"
  by (intro runs_kbind [OF calm_says [OF says_fprintf [OF assms]]] runs_exit)

lemma runs_usys: "execs [c] = [] \<Longrightarrow> (\<And>r. runs S (g r)) \<Longrightarrow> runs S (kbind (usys c) g)"
  by (rule runs_kbind [OF calm_usys])

lemma runs_exec:
  assumes "argv \<noteq> []"
  shows "runs {map (\<lambda>(q, _). str_at b q) argv} (runcmd (EXEC argv) b)"
proof -
  let ?ws = "map (\<lambda>(q, _). str_at b q) argv" and ?p = "str_at b (fst (hd argv))"
  have p: "?p = hd ?ws" "?ws \<noteq> []" using assms by (cases argv; auto split: prod.splits)+
  let ?f = "\<lambda>_ :: int. kbind (fprintf_u 2 (''exec %s failed'' @ [CHR 0x0A]) [ArgStr (Some ?p)]) (\<lambda>_. exit_u 0)"
  have "runs {} (?f r)" for r
    by (rule runs_fprintf_exit) (simp_all add: num_dir_def num_dirs_def)
  then show ?thesis using assms p unfolding runs_def runcmd.simps
    by (auto intro!: uspec_usys_bind elim!: uspec_mono simp: one_exec_def)
qed

lemma runcmd_runs: "runs (simples (tree_of b c)) (runcmd c b :: (unit, 'a ustate_scheme) K)"
proof (induction c)
  case (EXEC argv)
  show ?case
  proof (cases "argv = []")
    case True
    then show ?thesis by (simp add: runs_exit)
  next
    case False
    then show ?thesis using runs_exec [OF False] by (simp add: split_beta)
  qed
next
  case (REDIR c fl mode fd)
  let ?S = "simples (tree_of b c)"
  have "runs ?S (kbind (fprintf_u 2 (''open %s failed'' @ [CHR 0x0A]) [ArgStr (Some (str_at b (fst fl)))]) (\<lambda>_. exit_u 1) :: (unit, 'a ustate_scheme) K)"
    by (rule runs_fprintf_exit) (simp_all add: num_dir_def num_dirs_def)
  then show ?case using runs_end [OF REDIR] unfolding runcmd.simps tree_of.simps simples.simps
    by (intro runs_usys) auto
next
  case (PIPE l r)
  let ?S = "simples (tree_of b l) \<union> simples (tree_of b r)"
  have lr: "runs ?S (runcmd l b :: (unit, 'a ustate_scheme) K)" "runs ?S (runcmd r b :: (unit, 'a ustate_scheme) K)"
    using PIPE by (auto elim: runs_mono)
  show ?case unfolding runcmd.simps tree_of.simps simples.simps
    by (intro runs_kbind [OF calm_ecall])
      (simp_all add: Let_def split_beta runs_panic runs_fork1 runs_child runs_usys runs_exit lr del: kbind_assoc)
next
  case (LIST l r)
  let ?S = "simples (tree_of b l) \<union> simples (tree_of b r)"
  have lr: "runs ?S (runcmd l b :: (unit, 'a ustate_scheme) K)" "runs ?S (runcmd r b :: (unit, 'a ustate_scheme) K)"
    using LIST by (auto elim: runs_mono)
  show ?case unfolding runcmd.simps tree_of.simps simples.simps
    by (intro runs_fork1 runs_child runs_usys runs_end lr) simp
next
  case (BACK c)
  then show ?case unfolding runcmd.simps tree_of.simps simples.simps by (intro runs_fork1 runs_child runs_exit)
qed

text \<open>
  C36: \<open>runcmd\<close> never returns, as its declaration says, and the process that calls it tries at most one
  \<open>exec\<close>: of a simple command of the command it was given, with exactly the words of that command as
  arguments.  This holds in the parent and the children of every \<open>fork\<close>, whatever the kernel answers.
\<close>

theorem runcmd_one_exec:
  "uspec (runcmd c b) (\<lambda>_ _. False)
    (\<lambda>n tr. execs (calls tr) = [] \<or> (\<exists>ws\<in>simples (tree_of b c). ws \<noteq> [] \<and> execs (calls tr) = [(hd ws, ws)]))
    (\<lambda>tr d. execs (calls tr @ [d]) = [] \<or> (\<exists>ws\<in>simples (tree_of b c). ws \<noteq> [] \<and> execs (calls tr @ [d]) = [(hd ws, ws)]))"
  using runcmd_runs [of b c] unfolding runs_def one_exec_def .

end
