(* ===== verification/Utils.thy ===== *)
theory Utils
  imports UPrintfProps Layout
begin

text \<open>
  The small programs under \<open>user/\<close>, on the trace of their system calls.  \<open>argv\<close> is the list of arguments, the
  program's name first; \<open>argc\<close> is its length.  An \<open>int\<close> counter is an unbounded integer that \<open>printf\<close> reads
  modulo \<open>2^32\<close>, which is the wrapping of the code.
\<close>

section \<open>cat, wc and echo\<close>

abbreviation (input) nl :: char where "nl \<equiv> CHR 0x0A"

definition cat_round :: "int \<Rightarrow> unit \<Rightarrow> (unit + int, 'a ustate_scheme) K" where
  "cat_round fd = (\<lambda>_.
     kbind (read_u fd 512) (\<lambda>(n, bs).
     if \<not> n > 0 then kret (Inr n)
     else
       kbind (write_u 1 (map (rd bs) [0..<nat n])) (\<lambda>w.
       if w \<noteq> n then kbind (fprintf_u 2 (''cat: write error'' @ [nl]) []) (\<lambda>_. exit_u 1)
       else kret (Inl ()))))"

definition cat :: "int \<Rightarrow> (unit, 'a ustate_scheme) K" where
  "cat fd =
     kbind (kloop (cat_round fd) ()) (\<lambda>n.
     if n < 0 then kbind (fprintf_u 2 (''cat: read error'' @ [nl]) []) (\<lambda>_. exit_u 1)
     else kret ())"

definition cat_main :: "cstring list \<Rightarrow> (int, 'a ustate_scheme) K" where
  "cat_main argv =
     (if length argv \<le> 1 then kbind (cat 0) (\<lambda>_. exit_u 0)
      else
        kbind (kfor (drop 1 argv) (\<lambda>arg.
          kbind (usys (UOpen arg O_RDONLY_u)) (\<lambda>fd.
          if fd < 0 then kbind (fprintf_u 2 (''cat: cannot open %s'' @ [nl]) [ArgStr (Some arg)]) (\<lambda>_. exit_u 1)
          else kbind (cat fd) (\<lambda>_. kbind (usys (UClose fd)) (\<lambda>_. kret ()))))) (\<lambda>_.
        exit_u 0))"

record wc_count =
  wc_l :: int
  wc_w :: int
  wc_c :: int
  wc_inword :: bool

definition wc_byte :: "uchar \<Rightarrow> wc_count \<Rightarrow> wc_count" where
  "wc_byte b k =
     (let k = k\<lparr>wc_c := wc_c k + 1\<rparr>; k = (if b = 10 then k\<lparr>wc_l := wc_l k + 1\<rparr> else k) in
      if b \<in> set [32, 13, 9, 10, 11] then k\<lparr>wc_inword := False\<rparr>
      else if \<not> wc_inword k then k\<lparr>wc_w := wc_w k + 1, wc_inword := True\<rparr>
      else k)"

definition wc_round :: "int \<Rightarrow> wc_count \<Rightarrow> (wc_count + (int \<times> wc_count), 'a ustate_scheme) K" where
  "wc_round fd k =
     kbind (read_u fd 512) (\<lambda>(n, bs).
     if \<not> n > 0 then kret (Inr (n, k)) else kret (Inl (fold wc_byte (map (rd bs) [0..<nat n]) k)))"

definition wc :: "int \<Rightarrow> cstring \<Rightarrow> (unit, 'a ustate_scheme) K" where
  "wc fd name =
     kbind (kloop (wc_round fd) \<lparr>wc_l = 0, wc_w = 0, wc_c = 0, wc_inword = False\<rparr>) (\<lambda>(n, k).
     if n < 0 then kbind (printf_u (''wc: read error'' @ [nl]) []) (\<lambda>_. exit_u 1)
     else
       printf_u (''%d %d %d %s'' @ [nl])
         [ArgInt (of_int (wc_l k)), ArgInt (of_int (wc_w k)), ArgInt (of_int (wc_c k)), ArgStr (Some name)])"

definition wc_main :: "cstring list \<Rightarrow> (int, 'a ustate_scheme) K" where
  "wc_main argv =
     (if length argv \<le> 1 then kbind (wc 0 []) (\<lambda>_. exit_u 0)
      else
        kbind (kfor (drop 1 argv) (\<lambda>arg.
          kbind (usys (UOpen arg O_RDONLY_u)) (\<lambda>fd.
          if fd < 0 then kbind (printf_u (''wc: cannot open %s'' @ [nl]) [ArgStr (Some arg)]) (\<lambda>_. exit_u 1)
          else kbind (wc fd arg) (\<lambda>_. kbind (usys (UClose fd)) (\<lambda>_. kret ()))))) (\<lambda>_.
        exit_u 0))"

definition echo_main :: "cstring list \<Rightarrow> (int, 'a ustate_scheme) K" where
  "echo_main argv =
     kbind (kfor [1..<length argv] (\<lambda>i.
       kbind (write_u 1 (argv ! i)) (\<lambda>_.
       kbind (write_u 1 (if i + 1 < length argv then [32] else [10])) (\<lambda>_. kret ())))) (\<lambda>_.
     exit_u 0)"

section \<open>File system commands\<close>

text \<open>A loop over the arguments that stops at the first failure.\<close>

definition mkdir_main :: "cstring list \<Rightarrow> (int, 'a ustate_scheme) K" where
  "mkdir_main argv =
     (if length argv < 2 then kbind (fprintf_u 2 (''Usage: mkdir files...'' @ [nl]) []) (\<lambda>_. exit_u 1)
      else
        kbind (kfind (drop 1 argv) (\<lambda>arg.
          kbind (usys (UMkdir arg)) (\<lambda>r.
          if r < 0 then kbind (fprintf_u 2 (''mkdir: %s failed to create'' @ [nl]) [ArgStr (Some arg)]) (\<lambda>_. kret (Some ()))
          else kret None))) (\<lambda>_.
        exit_u 0))"

definition rm_main :: "cstring list \<Rightarrow> (int, 'a ustate_scheme) K" where
  "rm_main argv =
     (if length argv < 2 then kbind (fprintf_u 2 (''Usage: rm files...'' @ [nl]) []) (\<lambda>_. exit_u 1)
      else
        kbind (kfind (drop 1 argv) (\<lambda>arg.
          kbind (usys (UUnlink arg)) (\<lambda>r.
          if r < 0 then kbind (fprintf_u 2 (''rm: %s failed to delete'' @ [nl]) [ArgStr (Some arg)]) (\<lambda>_. kret (Some ()))
          else kret None))) (\<lambda>_.
        exit_u 0))"

definition ln_main :: "cstring list \<Rightarrow> (int, 'a ustate_scheme) K" where
  "ln_main argv =
     (if length argv \<noteq> 3 then kbind (fprintf_u 2 (''Usage: ln old new'' @ [nl]) []) (\<lambda>_. exit_u 1)
      else
        kbind (usys (ULink (argv ! 1) (argv ! 2))) (\<lambda>r.
        kbind (kwhen (r < 0)
          (fprintf_u 2 (''link %s %s: failed'' @ [nl]) [ArgStr (Some (argv ! 1)), ArgStr (Some (argv ! 2))])) (\<lambda>_.
        exit_u 0)))"

definition sync_main :: "(int, 'a ustate_scheme) K" where
  "sync_main = kbind (usys USync) (\<lambda>_. exit_u 0)"

section \<open>Processes\<close>

definition kill_main :: "cstring list \<Rightarrow> (int, 'a ustate_scheme) K" where
  "kill_main argv =
     (if length argv < 2 then kbind (fprintf_u 2 (''usage: kill pid...'' @ [nl]) []) (\<lambda>_. exit_u 1)
      else kbind (kfor (drop 1 argv) (\<lambda>arg. kbind (usys (UKill (atoi_u arg))) (\<lambda>_. kret ()))) (\<lambda>_. exit_u 0))"

definition zombie_main :: "(int, 'a ustate_scheme) K" where
  "zombie_main =
     kbind (usys UFork) (\<lambda>pid.
     kbind (if pid > 0 then kbind (usys (UPause 5)) (\<lambda>_. kret ()) else kret ()) (\<lambda>_.
     exit_u 0))"

text \<open>The inner loop of \<open>init\<close>: reap parentless children until the shell exits.\<close>

definition init_wait_round :: "int \<Rightarrow> unit \<Rightarrow> (unit + unit, 'a ustate_scheme) K" where
  "init_wait_round pid = (\<lambda>_.
     kbind (usys (UWait False)) (\<lambda>wpid.
     if wpid = pid then kret (Inr ())
     else if wpid < 0 then kbind (printf_u (''init: wait returned an error'' @ [nl]) []) (\<lambda>_. exit_u 1)
     else kret (Inl ())))"

definition init_round :: "unit \<Rightarrow> (unit + int, 'a ustate_scheme) K" where
  "init_round = (\<lambda>_.
     kbind (printf_u (''init: starting sh'' @ [nl]) []) (\<lambda>_.
     kbind (usys UFork) (\<lambda>pid.
     if pid < 0 then kbind (printf_u (''init: fork failed'' @ [nl]) []) (\<lambda>_. exit_u 1)
     else if pid = 0 then
       kbind (usys (UExec (chars ''sh'') [chars ''sh''])) (\<lambda>_.
       kbind (printf_u (''init: exec sh failed'' @ [nl]) []) (\<lambda>_. exit_u 1))
     else kbind (kloop (init_wait_round pid) ()) (\<lambda>_. kret (Inl ())))))"

definition init_main :: "(int, 'a ustate_scheme) K" where
  "init_main =
     kbind (usys (UOpen (chars ''console'') 2)) (\<lambda>fd.
     kbind (if fd < 0 then
              kbind (usys (UMknod (chars ''console'') 1 0)) (\<lambda>_.
              kbind (usys (UOpen (chars ''console'') 2)) (\<lambda>_. kret ()))
            else kret ()) (\<lambda>_.
     kbind (usys (UDup 0)) (\<lambda>_.
     kbind (usys (UDup 0)) (\<lambda>_.
     kloop init_round ()))))"

section \<open>ls\<close>

definition fmtname :: "cstring \<Rightarrow> cstring" where
  "fmtname path =
     (let p = rev (takeWhile (\<lambda>c. c \<noteq> of_char CHR ''/'') (rev path)) in
      if length p \<ge> 14 then p else p @ replicate (14 - length p) 32)"

text \<open>The fields of \<open>struct stat\<close> and \<open>struct dirent\<close> in the bytes that the kernel stored.\<close>

definition st_type :: "uchar list \<Rightarrow> ushort" where
  "st_type st = get16 st 8"

definition ls_entry :: "cstring \<Rightarrow> uchar list \<Rightarrow> (unit, 'a ustate_scheme) K" where
  "ls_entry path st =
     printf_u (''%s %d %d %d'' @ [nl])
       [ArgStr (Some (fmtname path)), ArgInt (scast (st_type st)), ArgInt (ucast (get32 st 4)),
        ArgInt (of_bytes (slice st 16 8))]"

definition ls_dir_round :: "int \<Rightarrow> cstring \<Rightarrow> unit \<Rightarrow> (unit + unit, 'a ustate_scheme) K" where
  "ls_dir_round fd path = (\<lambda>_.
     kbind (read_u fd 16) (\<lambda>(n, de).
     if n \<noteq> 16 then kret (Inr ())
     else if get16 de 0 = 0 then kret (Inl ())
     else
       (let buf = path @ [of_char CHR ''/''] @ takeWhile (\<lambda>c. c \<noteq> 0) (slice de 2 14) in
        kbind (stat_u buf) (\<lambda>(r, st).
        kbind (if r < 0 then printf_u (''ls: cannot stat %s'' @ [nl]) [ArgStr (Some buf)] else ls_entry buf st) (\<lambda>_.
        kret (Inl ()))))))"

definition ls :: "cstring \<Rightarrow> (unit, 'a ustate_scheme) K" where
  "ls path =
     kbind (usys (UOpen path O_RDONLY_u)) (\<lambda>fd.
     if fd < 0 then fprintf_u 2 (''ls: cannot open %s'' @ [nl]) [ArgStr (Some path)]
     else
       kbind (ecall (UFstat fd)) (\<lambda>(r, st).
       if r < 0 then
         kbind (fprintf_u 2 (''ls: cannot stat %s'' @ [nl]) [ArgStr (Some path)]) (\<lambda>_.
         kbind (usys (UClose fd)) (\<lambda>_. kret ()))
       else
         kbind (if st_type st = 3 \<or> st_type st = 2 then ls_entry path st
                else if st_type st = 1 then
                  (if length path + 1 + 14 + 1 > 512 then printf_u (''ls: path too long'' @ [nl]) []
                   else kloop (ls_dir_round fd path) ())
                else kret ()) (\<lambda>_.
         kbind (usys (UClose fd)) (\<lambda>_. kret ()))))"

definition ls_main :: "cstring list \<Rightarrow> (int, 'a ustate_scheme) K" where
  "ls_main argv =
     (if length argv < 2 then kbind (ls (chars ''.'')) (\<lambda>_. exit_u 0)
      else kbind (kfor (drop 1 argv) ls) (\<lambda>_. exit_u 0))"

section \<open>Stress programs\<close>

definition print_u :: "string \<Rightarrow> (unit, 'a ustate_scheme) K" where
  "print_u s = kbind (write_u 1 (chars s)) (\<lambda>_. kret ())"

definition forktest_fork_round :: "nat \<Rightarrow> (nat + nat, 'a ustate_scheme) K" where
  "forktest_fork_round n =
     (if n < 1000 then
        kbind (usys UFork) (\<lambda>pid.
        if pid < 0 then kret (Inr n)
        else if pid = 0 then exit_u 0
        else kret (Inl (Suc n)))
      else kret (Inr n))"

definition forktest :: "(unit, 'a ustate_scheme) K" where
  "forktest =
     kbind (print_u (''fork test'' @ [nl])) (\<lambda>_.
     kbind (kloop forktest_fork_round 0) (\<lambda>n.
     if n = 1000 then kbind (print_u (''fork claimed to work N times!'' @ [nl])) (\<lambda>_. exit_u 1)
     else
       kbind (kfor [0..<n] (\<lambda>_.
         kbind (usys (UWait False)) (\<lambda>r.
         if r < 0 then kbind (print_u (''wait stopped early'' @ [nl])) (\<lambda>_. exit_u 1) else kret ()))) (\<lambda>_.
       kbind (usys (UWait False)) (\<lambda>r.
       if r \<noteq> - 1 then kbind (print_u (''wait got too many'' @ [nl])) (\<lambda>_. exit_u 1)
       else print_u (''fork test OK'' @ [nl])))))"

definition forktest_main :: "(int, 'a ustate_scheme) K" where
  "forktest_main = kbind forktest (\<lambda>_. exit_u 0)"

definition stressfs_fork_round :: "nat \<Rightarrow> (nat + nat, 'a ustate_scheme) K" where
  "stressfs_fork_round i =
     (if i < 4 then kbind (usys UFork) (\<lambda>pid. if pid > 0 then kret (Inr i) else kret (Inl (Suc i))) else kret (Inr i))"

definition stressfs_main :: "(int, 'a ustate_scheme) K" where
  "stressfs_main =
     kbind (printf_u (''stressfs starting'' @ [nl]) []) (\<lambda>_.
     kbind (kloop stressfs_fork_round 0) (\<lambda>i.
     kbind (printf_u (''write %d'' @ [nl]) [ArgInt (of_nat i)]) (\<lambda>_.
     (let path = chars ''stressfs'' @ [of_char CHR ''0'' + of_nat i]; data = replicate 512 (of_char CHR ''a'') in
      kbind (usys (UOpen path 0x202)) (\<lambda>fd.
      kbind (kfor [0..<20] (\<lambda>_. kbind (write_u fd data) (\<lambda>_. kret ()))) (\<lambda>_.
      kbind (usys (UClose fd)) (\<lambda>_.
      kbind (printf_u (''read'' @ [nl]) []) (\<lambda>_.
      kbind (usys (UOpen path O_RDONLY_u)) (\<lambda>fd.
      kbind (kfor [0..<20] (\<lambda>_. kbind (read_u fd 512) (\<lambda>_. kret ()))) (\<lambda>_.
      kbind (usys (UClose fd)) (\<lambda>_.
      kbind (usys (UWait False)) (\<lambda>_.
      exit_u 0))))))))))))"

definition dorphan_main :: "cstring list \<Rightarrow> (int, 'a ustate_scheme) K" where
  "dorphan_main argv =
     (let s = ArgStr (Some (argv ! 0)) in
      kbind (usys (UMkdir (chars ''dd''))) (\<lambda>r.
      if r \<noteq> 0 then kbind (printf_u (''%s: mkdir dd failed'' @ [nl]) [s]) (\<lambda>_. exit_u 1)
      else
        kbind (usys (UChdir (chars ''dd''))) (\<lambda>r.
        if r \<noteq> 0 then kbind (printf_u (''%s: chdir dd failed'' @ [nl]) [s]) (\<lambda>_. exit_u 1)
        else
          kbind (usys (UUnlink (chars ''../dd''))) (\<lambda>r.
          if r < 0 then kbind (printf_u (''%s: unlink failed'' @ [nl]) [s]) (\<lambda>_. exit_u 1)
          else
            kbind (printf_u (''wait for kill and reclaim'' @ [nl]) []) (\<lambda>_.
            kloop (\<lambda>_ :: unit. kbind (usys (UPause 1000)) (\<lambda>_. kret (Inl ()))) ())))))"

definition forphan_main :: "cstring list \<Rightarrow> (int, 'a ustate_scheme) K" where
  "forphan_main argv =
     (let s = ArgStr (Some (argv ! 0)); ff = chars ''file0'' in
      kbind (usys (UOpen ff 0x201)) (\<lambda>fd.
      if fd < 0 then kbind (printf_u (''%s: open failed'' @ [nl]) [s]) (\<lambda>_. exit_u 1)
      else
        kbind (ecall (UFstat fd)) (\<lambda>(r, st).
        if r < 0 then kbind (fprintf_u 2 (''%s: cannot stat %s'' @ [nl]) [s, ArgStr (Some (chars ''ff''))]) (\<lambda>_. exit_u 1)
        else
          kbind (usys (UUnlink ff)) (\<lambda>r.
          if r < 0 then kbind (printf_u (''%s: unlink failed'' @ [nl]) [s]) (\<lambda>_. exit_u 1)
          else
            kbind (usys (UOpen ff O_RDONLY_u)) (\<lambda>r.
            if r \<noteq> - 1 then kbind (printf_u (''%s: open successed'' @ [nl]) [s]) (\<lambda>_. exit_u 1)
            else
              kbind (printf_u (''wait for kill and reclaim %d'' @ [nl]) [ArgInt (ucast (get32 st 4))]) (\<lambda>_.
              kloop (\<lambda>_ :: unit. kbind (usys (UPause 1000)) (\<lambda>_. kret (Inl ()))) ()))))))"

end
