(* ===== verification/UtilsProps.thy ===== *)
theory UtilsProps
  imports Utils
begin

text \<open>What \<open>cat\<close> and \<open>wc\<close> do with their input.\<close>

section \<open>cat\<close>

text \<open>All the blocks written to a file descriptor were accepted in full.\<close>

definition accepted :: "int \<Rightarrow> trace \<Rightarrow> bool" where
  "accepted fd tr = list_all (\<lambda>(c, r, bs). case c of UWrite fd' data \<Rightarrow> fd' = fd \<longrightarrow> r = int (length data) | _ \<Rightarrow> True) tr"

lemma accepted_simps [simp]: "accepted fd []" "accepted fd (tr @ tr') \<longleftrightarrow> accepted fd tr \<and> accepted fd tr'"
    "accepted fd ((c, r, bs) # tr) \<longleftrightarrow> (case c of UWrite fd' data \<Rightarrow> fd' = fd \<longrightarrow> r = int (length data) | _ \<Rightarrow> True) \<and> accepted fd tr"
  by (simp_all add: accepted_def)

definition copied :: "int \<Rightarrow> trace \<Rightarrow> bool" where
  "copied fd tr \<longleftrightarrow> (honest tr \<longrightarrow> concat (writes 1 tr) = received fd tr)"

text \<open>
  The trace of a \<open>cat\<close> that gives up: one call has failed, a read with a negative count or a write that was not
  accepted in full, all the writes before it were accepted, and only the message follows.
\<close>

definition cat_failed :: "int \<Rightarrow> trace \<Rightarrow> bool" where
  "cat_failed fd tr \<longleftrightarrow> (\<exists>tr0 c r bs tr1. tr = tr0 @ (c, r, bs) # tr1 \<and> accepted 1 tr0 \<and>
     (c = URead fd 512 \<and> r < 0 \<and> calls tr1 = wcalls 2 (chars (''cat: read error'' @ [nl])) \<or>
      (\<exists>data. c = UWrite 1 data \<and> r \<noteq> int (length data) \<and> calls tr1 = wcalls 2 (chars (''cat: write error'' @ [nl])))))"

lemma message_quiet:
  assumes "calls tr = wcalls 2 bs" shows "writes 1 tr = []" "received fd tr = []" "honest tr"
proof -
  have "writes 1 tr = [] \<and> received fd tr = [] \<and> honest tr" using assms
  proof (induction tr arbitrary: bs)
    case (Cons x tr)
    then obtain b bs' where "bs = b # bs'" by (cases bs) auto
    then show ?case using Cons.prems Cons.IH [of bs'] by (cases x) auto
  qed simp
  then show "writes 1 tr = []" "received fd tr = []" "honest tr" by blast+
qed

lemma copied_message: "copied fd tr \<Longrightarrow> calls tr' = wcalls 2 bs \<Longrightarrow> copied fd (tr @ tr')"
  using message_quiet [of tr' bs] by (simp add: copied_def)

lemma copied_step: "copied fd tr \<Longrightarrow> n > 0 \<Longrightarrow> copied fd (tr @ [(URead fd 512, n, bs), (UWrite 1 (map (rd bs) [0..<nat n]), w)])"
  by (cases w) (auto simp: copied_def map_rd)

lemma says_msg:
  assumes "CHR 0x00 \<notin> set fmt" "render_u fmt as = Some bs" "\<And>tr. calls tr = wcalls fd bs \<Longrightarrow> X n tr" "\<And>tr c. prefix (calls tr @ [c]) (wcalls fd bs) \<Longrightarrow> W tr c"
  shows "uspec (kbind (fprintf_u fd fmt as) (\<lambda>_. exit_u n)) Q X W"
  unfolding fprintf_u_def vprintf_u_def
  by (rule uspec_kbind [OF says_uspec [OF says_vprintf_loop [OF assms(2,1)], where Q = "\<lambda>_ tr. calls tr = wcalls fd bs"]])
    (auto intro!: uspec_exit assms(3,4))

definition cat_exit :: "int \<Rightarrow> int \<Rightarrow> trace \<Rightarrow> bool" where
  "cat_exit fd n tr \<longleftrightarrow> n = 1 \<and> cat_failed fd tr \<and> copied fd tr"

lemma cat_read_failed:
  assumes "copied fd tr" "accepted 1 tr" "r < 0" "calls tr' = wcalls 2 (chars (''cat: read error'' @ [nl]))"
  shows "cat_exit fd 1 (tr @ (URead fd 512, r, bs) # tr')"
proof -
  have "copied fd (tr @ [(URead fd 512, r, bs)])" using assms(1,3) by (auto simp: copied_def)
  then have "copied fd ((tr @ [(URead fd 512, r, bs)]) @ tr')" by (rule copied_message [OF _ assms(4)])
  moreover have "cat_failed fd (tr @ (URead fd 512, r, bs) # tr')" unfolding cat_failed_def using assms(2-4) by blast
  ultimately show ?thesis by (simp add: cat_exit_def)
qed

lemma cat_write_failed:
  assumes "copied fd tr" "accepted 1 tr" "n > 0" "w \<noteq> n" "calls tr' = wcalls 2 (chars (''cat: write error'' @ [nl]))"
  shows "cat_exit fd 1 (tr @ (URead fd 512, n, bs) # (UWrite 1 (map (rd bs) [0..<nat n]), w, cs) # tr')"
proof -
  let ?t = "tr @ [(URead fd 512, n, bs), (UWrite 1 (map (rd bs) [0..<nat n]), w, cs)]"
  have "copied fd (?t @ tr')" by (rule copied_message [OF copied_step [OF assms(1,3)] assms(5)])
  moreover have "cat_failed fd ((tr @ [(URead fd 512, n, bs)]) @ (UWrite 1 (map (rd bs) [0..<nat n]), w, cs) # tr')"
  proof -
    have "accepted 1 (tr @ [(URead fd 512, n, bs)])" "w \<noteq> int (length (map (rd bs) [0..<nat n]))" using assms(2-4) by simp_all
    then show ?thesis unfolding cat_failed_def using assms(5) by blast
  qed
  ultimately show ?thesis by (simp add: cat_exit_def)
qed

lemma cat_round_spec:
  assumes i: "copied fd tr" "accepted 1 tr"
  shows "uspec (cat_round fd v :: (unit + int, 'a ustate_scheme) K)
    (\<lambda>r tr'. case r of Inl w \<Rightarrow> (copied fd (tr @ tr') \<and> accepted 1 (tr @ tr')) \<and> (tr' \<noteq> [] \<or> (0 :: nat) < 0)
      | Inr a \<Rightarrow> \<exists>tr0 bs. tr @ tr' = tr0 @ [(URead fd 512, a, bs)] \<and> a \<le> 0 \<and> copied fd tr0 \<and> accepted 1 tr0)
    (\<lambda>n tr'. cat_exit fd n (tr @ tr')) (\<lambda>_ _. True)"
  unfolding cat_round_def read_u_def write_u_def
proof (rule uspec_ecall_bind)
  fix r bs
  let ?Q = "\<lambda>q tr'. case q of Inl w \<Rightarrow> (copied fd (tr @ tr') \<and> accepted 1 (tr @ tr')) \<and> (tr' \<noteq> [] \<or> (0 :: nat) < 0)
      | Inr a \<Rightarrow> \<exists>tr0 bs. tr @ tr' = tr0 @ [(URead fd 512, a, bs)] \<and> a \<le> 0 \<and> copied fd tr0 \<and> accepted 1 tr0"
  let ?data = "map (rd bs) [0..<nat r]"
  have w: "uspec (kbind (usys (UWrite 1 ?data)) (\<lambda>w. if w \<noteq> r then kbind (fprintf_u 2 (''cat: write error'' @ [nl]) []) (\<lambda>_. exit_u 1) else kret (Inl ()))
        :: (unit + int, 'a ustate_scheme) K)
      (\<lambda>a t. ?Q a ((URead fd 512, r, bs) # t)) (\<lambda>n t. cat_exit fd n (tr @ (URead fd 512, r, bs) # t)) (\<lambda>t c. True)" if r: "r > 0"
  proof (rule uspec_usys_bind)
    fix w cs
    let ?t = "\<lambda>t. (URead fd 512, r, bs) # (UWrite 1 ?data, w, cs) # t"
    have "uspec (kbind (fprintf_u 2 (''cat: write error'' @ [nl]) []) (\<lambda>_. exit_u 1) :: (unit + int, 'a ustate_scheme) K)
        (\<lambda>a t. ?Q a (?t t)) (\<lambda>n t. cat_exit fd n (tr @ ?t t)) (\<lambda>t d. True)" if "w \<noteq> r"
      by (rule says_msg [where bs = "chars (''cat: write error'' @ [nl])"]) (use cat_write_failed [OF i r that] in \<open>simp_all add: chars_def\<close>)
    moreover have "?Q (Inl ()) (?t [])" if "w = r" using that r i copied_step [OF i(1) r, of bs "(w, cs)"] by simp
    ultimately show "uspec (if w \<noteq> r then kbind (fprintf_u 2 (''cat: write error'' @ [nl]) []) (\<lambda>_. exit_u 1) else kret (Inl ()) :: (unit + int, 'a ustate_scheme) K)
        (\<lambda>a t. ?Q a (?t t)) (\<lambda>n t. cat_exit fd n (tr @ ?t t)) (\<lambda>t d. True)"
      by (auto intro!: uspec_kret)
  qed simp
  have "?Q (Inr r) [(URead fd 512, r, bs)]" if "\<not> r > 0" using i that by auto
  then show "uspec ((case (r, bs) of (n, bs) \<Rightarrow> if \<not> n > 0 then kret (Inr n)
      else kbind (usys (UWrite 1 (map (rd bs) [0..<nat n]))) (\<lambda>w. if w \<noteq> n then kbind (fprintf_u 2 (''cat: write error'' @ [nl]) []) (\<lambda>_. exit_u 1) else kret (Inl ())))
        :: (unit + int, 'a ustate_scheme) K)
    (\<lambda>a t. ?Q a ((URead fd 512, r, bs) # t)) (\<lambda>n t. cat_exit fd n (tr @ (URead fd 512, r, bs) # t)) (\<lambda>t c. True)"
    using w by (auto intro!: uspec_kret)
qed simp

text \<open>
  C37: \<open>cat\<close> copies its input.  When it returns, the last read has reported the end of the file, the kernel has
  accepted every block written to standard output in full, and these blocks are exactly the bytes received, in order.
  It exits only after a read with a negative count or a write that was not accepted in full, then at once, with the
  matching message on standard error and status 1, and with what it had received until then written.
\<close>

theorem cat_copies:
  "uspec (cat fd)
    (\<lambda>_ tr. (\<exists>tr0 bs. tr = tr0 @ [(URead fd 512, 0, bs)]) \<and> accepted 1 tr \<and> (honest tr \<longrightarrow> concat (writes 1 tr) = received fd tr))
    (\<lambda>n tr. n = 1 \<and> cat_failed fd tr \<and> (honest tr \<longrightarrow> concat (writes 1 tr) = received fd tr)) (\<lambda>_ _. True)"
proof -
  let ?Q = "\<lambda>_ tr. (\<exists>tr0 bs. tr = tr0 @ [(URead fd 512, 0, bs)]) \<and> accepted 1 tr \<and> (honest tr \<longrightarrow> concat (writes 1 tr) = received fd tr)"
  let ?R = "\<lambda>a tr. \<exists>tr0 bs. tr = tr0 @ [(URead fd 512, a, bs)] \<and> a \<le> 0 \<and> copied fd tr0 \<and> accepted 1 tr0"
  have loop: "uspec (kloop (cat_round fd) ()) ?R (cat_exit fd) (\<lambda>_ _. True)"
    by (rule uspec_kloop [where I = "\<lambda>_ tr. copied fd tr \<and> accepted 1 tr" and mu = "\<lambda>_. 0"])
      (auto simp: copied_def [of _ "[]"] intro!: uspec_mono [OF cat_round_spec] split: sum.splits)
  have "uspec (cat fd) ?Q (cat_exit fd) (\<lambda>_ _. True)" unfolding cat_def
  proof (rule uspec_kbind [OF loop])
    fix a tr assume "?R a tr"
    then obtain tr0 bs where r: "tr = tr0 @ [(URead fd 512, a, bs)]" "a \<le> 0" "copied fd tr0" "accepted 1 tr0" by blast
    have "uspec (kbind (fprintf_u 2 (''cat: read error'' @ [nl]) []) (\<lambda>_. exit_u 1)) (\<lambda>b t. ?Q b (tr @ t)) (\<lambda>n t. cat_exit fd n (tr @ t)) (\<lambda>_ _. True)" if "a < 0"
      by (rule says_msg [where bs = "chars (''cat: read error'' @ [nl])"]) (use cat_read_failed [OF r(3,4) that] in \<open>simp_all add: chars_def r(1)\<close>)
    moreover have "?Q () (tr @ [])" if "\<not> a < 0" using r that by (auto simp: copied_def)
    ultimately show "uspec (if a < 0 then kbind (fprintf_u 2 (''cat: read error'' @ [nl]) []) (\<lambda>_. exit_u 1) else kret ())
        (\<lambda>b t. ?Q b (tr @ t)) (\<lambda>n t. cat_exit fd n (tr @ t)) (\<lambda>t c. True)"
      by (auto intro!: uspec_kret)
  qed
  then show ?thesis by (rule uspec_mono) (auto simp: cat_exit_def copied_def)
qed

definition cat_demo :: ustate where
  "cat_demo = \<lparr>ucalls = [], ureplies = [(2, [104, 105]), (2, []), (0, [])]\<rparr>"

lemma cat_demo_run:
  "fst (cat 3 cat_demo []) = Ret ()" "ucalls (fst (snd (cat 3 cat_demo []))) = [URead 3 512, UWrite 1 [104, 105], URead 3 512]"
  by (simp_all add: cat_demo_def cat_def cat_round_def kloop_def while_option_unfold read_u_def write_u_def usys_def ecall_def kbind_def kret_def upt_rec rd_def)

lemma cat_copies_witness:
  "\<exists>tr. cat 3 cat_demo [] = (Ret (), after tr cat_demo, []) \<and> honest tr \<and> accepted 1 tr \<and> concat (writes 1 tr) = received 3 tr \<and> received 3 tr = [104, 105]"
proof (rule uat_cases [OF uspecD [OF cat_copies, of 3 cat_demo "[]"]])
  fix a tr assume r: "cat 3 cat_demo [] = (Ret a, after tr cat_demo, [])" "fits_tr tr cat_demo"
    and q: "(\<exists>tr0 bs. tr = tr0 @ [(URead 3 512, 0, bs)]) \<and> accepted 1 tr \<and> (honest tr \<longrightarrow> concat (writes 1 tr) = received 3 tr)"
  have "tr = zip [URead 3 512, UWrite 1 [104, 105], URead 3 512] (ureplies cat_demo)"
    using cat_demo_run(2) trace_eq [OF r(2)] unfolding r(1) by (simp add: cat_demo_def)
  then show ?thesis using r q by (auto simp: cat_demo_def)
qed (use cat_demo_run(1) in auto)

end
