(* ===== verification/Spec2Isabelle.thy ===== *)
theory Spec2Isabelle
  imports Trap Start PipeProps WriteProps DirProps BioInit ConsoleProps GrepProps ShProps UtilsProps
begin

text \<open>
  A verification library for the RISC-V teaching kernel under \<open>src/\<close> and the user programs that come
  with it.

  \<^bold>\<open>How the code is modelled.\<close>  The kernel is C that runs on several harts and waits by giving up the hart.
  A function of the kernel becomes a computation of the type \<open>K\<close> of \<open>Prelude\<close>: it takes the state and a list of
  interference steps, and gives an outcome, the new state and the interference that is left.  The outcome is \<open>Ret\<close>, a
  returned value, \<open>Panic\<close>, a call of \<open>panic\<close> with its message, or \<open>Stuck\<close>: the code waits for ever or does
  what C does not define.  Wherever the code lets others run (\<open>swtch\<close>, the wait for a lock, for an interrupt) the
  primitive \<open>kenv\<close> applies the next interference step, an arbitrary function on the state; without one the
  computation waits.  A loop is \<open>kloop\<close>, a partial function whose failure to end is \<open>Stuck\<close>, so a theorem that
  says \<open>Ret\<close> says that the loops end.  The state is a chain of extensible records, one for each layer of the kernel, in
  the order in which the layers use each other: an operation of a layer runs unchanged in the states of the layers
  above it.  C integers are machine words of their width (\<open>uint\<close>, \<open>uint64\<close>, \<open>uchar\<close>), physical memory is a
  function from addresses to bytes, and tables of C structs are functions from indices to records.

  \<^bold>\<open>The parts and their theories.\<close>  Definitions keep the names of the C functions; a suffix \<open>_u\<close> marks the user
  library's version of a function that the kernel has too, and \<open>_round\<close> or \<open>_loop\<close> the body of a loop.

  \<^item> \<open>Prelude\<close> (the computations, the lemma collections, generic facts), \<open>Machine\<close> (\<open>param.h\<close>, \<open>memlayout.h\<close>,
    \<open>riscv.h\<close>), \<open>Layout\<close> (integers inside byte arrays), \<open>CString\<close> (\<open>string.c\<close>).
  \<^item> \<open>Spinlock\<close> (\<open>spinlock.c\<close>): the operations on a store of locks, and \<open>smp_step\<close>, the instructions of
    \<open>acquire\<close> and \<open>release\<close> on any number of harts; mutual exclusion (C5), restored interrupt state (C24).
  \<^item> \<open>Kalloc\<close> (\<open>kalloc.c\<close>): the free list threaded through memory; C14, C15.
  \<^item> \<open>Vm\<close>, \<open>VmTables\<close>, \<open>VmProps\<close>, \<open>UserMem\<close> (\<open>vm.c\<close>): three-level page tables in physical memory; translations
    after \<open>mappages\<close> (C9), user copies (C13).
  \<^item> \<open>Proc\<close>, \<open>ProcProps\<close>, \<open>ProcLife\<close> (\<open>proc.c\<close>, \<open>exec.c\<close>): the process table, the scheduler, sleep and wakeup, fork,
    exit, wait, exec.  \<open>pstep\<close> has one event for each critical section on a slot, linked to the code by the lemmas
    named \<open>_event\<close>; no wakeup is lost (C3), the race of sleep and wakeup (C20), kill (C21).
  \<^item> \<open>Calm\<close>, \<open>States\<close>: running code without contention, and concrete machine states for the examples.
  \<^item> \<open>Sleeplock\<close> (\<open>sleeplock.c\<close>), \<open>Uart\<close> (\<open>uart.c\<close>), \<open>Printk\<close>, \<open>PrintkProps\<close> (\<open>printk.c\<close>; C18, C19), \<open>Console\<close>,
    \<open>ConsoleProps\<close> (\<open>console.c\<close>; C12: the interrupt handler refines a line editor on two lists).
  \<^item> \<open>Bio\<close>, \<open>BioProps\<close>, \<open>BlockStore\<close>, \<open>BioInit\<close> (\<open>bio.c\<close>): the cache refines a store with a content for each block
    (C11, C23).  \<open>Virtio\<close> (\<open>virtio_disk.c\<close>): the driver with its rings.
  \<^item> \<open>Log\<close>, \<open>LogProps\<close>, \<open>LogWrite\<close> (\<open>log.c\<close>): a transaction is atomic under a crash after any block write (C1),
    \<open>log_write\<close> (C10), the reservations of \<open>begin_op\<close> (C8).
  \<^item> \<open>Fs\<close> (\<open>fs.c\<close>) and its properties: \<open>FileData\<close> (files as byte sequences, C6), \<open>BlockTx\<close> (changing blocks inside a
    transaction), \<open>InodeProps\<close> (C16), \<open>BitmapProps\<close> (C7, C17), \<open>BmapProps\<close> (how \<open>bmap\<close> extends a file),
    \<open>WriteProps\<close> (C2), \<open>DirProps\<close> (C38).
  \<^item> \<open>Ring\<close>, \<open>File\<close>, \<open>PipeProps\<close> (\<open>file.c\<close>, \<open>pipe.c\<close>): a pipe is a bounded queue (C4, C22).
  \<^item> \<open>Sysfile\<close> (\<open>sysfile.c\<close>, \<open>syscall.c\<close>), \<open>Trap\<close> (\<open>trap.c\<close>, \<open>plic.c\<close>, \<open>sysproc.c\<close>, \<open>main.c\<close>), \<open>Start\<close>
    (\<open>start.c\<close>, C27).
  \<^item> User programs run on a trace: \<open>ULib\<close> (\<open>ulib.c\<close>, \<open>usys.pl\<close>) records each system call and takes the kernel's
    answers from a list over which the theorems quantify.  \<open>UTrace\<close> is the calculus of such runs, \<open>ULibProps\<close> has C28 to
    C30, \<open>UPrintfProps\<close> (\<open>printf.c\<close>) C31, \<open>Grep\<close> and \<open>GrepProps\<close> (\<open>grep.c\<close>) C32 and C33, \<open>Sh\<close>, \<open>ShLex\<close>, \<open>ShParse\<close>
    and \<open>ShProps\<close> (\<open>sh.c\<close>) C34 to C36, \<open>Utils\<close> and \<open>UtilsProps\<close> (\<open>cat.c\<close> and the other small programs) C37.

  \<^bold>\<open>Interfaces.\<close>  Where one part relies on another, the contract is a locale that is interpreted on the code's model:
  \<open>page_allocator\<close> (\<open>kalloc\<close> and \<open>kfree\<close> for the virtual memory), \<open>block_store\<close> (the cache for the log and the file
  system), \<open>fifo\<close> (ring buffers for pipes), \<open>sink\<close> and \<open>source\<close> (where \<open>readi\<close> puts bytes and \<open>writei\<close> takes them
  from: user memory or a kernel buffer).

  \<^bold>\<open>Bounds and fuel.\<close>  The recursive descent of the shell's parser has fuel; \<open>parse_fuel\<close>, four units for each byte of
  the line and four more, is enough for every line, which C34 includes, since running out of it would be \<open>Stuck\<close>.  The
  recursion of \<open>walk\<close> and \<open>freewalk\<close> is on the level of the page table.  Nothing else is bounded: the loops are
  \<open>kloop\<close> or partial functions, and the theorems show that they end.  C2 counts one call of \<open>log_write\<close> for each block
  written and five for each block allocated, without the absorption of repeated calls.

  \<^bold>\<open>What is not modelled.\<close>  The assembly files (\<open>entry.S\<close>, \<open>kernelvec.S\<close>, \<open>swtch.S\<close>, \<open>trampoline.S\<close>) and the \<open>mret\<close> at
  the end of \<open>start\<close>: the saving and restoring of registers below the C level.  TLB flushes and memory barriers: memory
  is sequentially consistent.  The device side of the disk: \<open>bio.c\<close> reaches the disk through the synchronous contract
  \<open>disk_rw\<close>, the driver stands beside it in \<open>Virtio\<close> with the device's rings changed by interference.  What a read of a
  device register returns is a parameter.  In the user programs: the allocator \<open>umalloc.c\<close> (the shell's nodes are values,
  and \<open>malloc\<close>'s calls of \<open>sbrk\<close> and its failure are left out) and the kernel behind the system calls, which may answer
  anything.  The host program \<open>mkfs.c\<close> and the test drivers (\<open>usertests.c\<close>, \<open>grind.c\<close>, \<open>logstress.c\<close>, \<open>bench.c\<close>) are left
  out.
\<close>

end
